(* ===== verification/Prelude.thy ===== *)
theory Prelude
  imports Main "HOL-Library.Word"
begin

text \<open>
  What every component of the ForgeRelay model shares: the machine integer types, bytes and
  C++ strings, the stable status codes of \<^verbatim>\<open>include/forgerelay/fr_error.h\<close> with the
  functions of \<^verbatim>\<open>src/core_c/fr_error.c\<close>, the exception type of
  \<^verbatim>\<open>include/forgerelay/storage/error.hpp\<close>, the sequencing operators that stand for
  C++ statements that may throw, and the collections of facts that the component theories fill.

  Conventions. \<open>size_t\<close> and \<open>uint64_t\<close> are 64 bits wide (the target is 64-bit Linux).
  A pointer to a live object is the object itself; a data pointer that the code allows to be
  \<open>NULL\<close> is a \<open>bytes option\<close> with \<open>None\<close> for \<open>NULL\<close>. A thrown
  \<open>fr::Error\<close> is the \<open>Inl\<close> side of a sum.
\<close>

section \<open>Machine integers, bytes and strings\<close>

type_synonym u8 = "8 word"
type_synonym u16 = "16 word"
type_synonym u32 = "32 word"
type_synonym u64 = "64 word"
type_synonym bytes = "u8 list"

named_theorems fr_simps "evaluation equations of the operations of the core library"
named_theorems emit_intros "introduction rules: what a sequence of put operations appends"
named_theorems read_intros "introduction rules: what a sequence of get operations reads back"
named_theorems strict_intros "introduction rules: a decoder fails with a protocol error only"

text \<open>
  A \<open>std::string\<close> is a sequence of \<open>char\<close>; the protocol copies it byte by byte.
\<close>

definition byte_of_char :: "char \<Rightarrow> u8" where
  "byte_of_char c = word_of_nat (of_char c)"

definition char_of_byte :: "u8 \<Rightarrow> char" where
  "char_of_byte b = char_of (unat b)"

definition bytes_of :: "string \<Rightarrow> bytes" where
  "bytes_of s = map byte_of_char s"

definition string_of :: "bytes \<Rightarrow> string" where
  "string_of bs = map char_of_byte bs"

lemma char_of_byte_of_char [simp]: "char_of_byte (byte_of_char c) = c"
proof -
  have "(of_char c :: nat) < 256"
    using of_char_of [of "of_char c :: nat"] by (simp add: mod_eq_nat1E)
  then have "unat (word_of_nat (of_char c) :: u8) = of_char c"
    by (simp add: unat_of_nat)
  then show ?thesis by (simp add: char_of_byte_def byte_of_char_def)
qed

lemma byte_of_char_of_byte [simp]: "byte_of_char (char_of_byte b) = b"
proof -
  have "unat b < 256" using unsigned_less [of b, where ?'a = nat] by simp
  then have "of_char (char_of (unat b) :: char) = unat b"
    by simp
  then show ?thesis by (simp add: char_of_byte_def byte_of_char_def)
qed

lemma string_of_bytes_of [simp]: "string_of (bytes_of s) = s"
  by (induction s) (simp_all add: string_of_def bytes_of_def)

lemma bytes_of_string_of [simp]: "bytes_of (string_of bs) = bs"
  by (induction bs) (simp_all add: string_of_def bytes_of_def)

lemma length_bytes_of [simp]: "length (bytes_of s) = length s"
  by (simp add: bytes_of_def)

lemma length_string_of [simp]: "length (string_of bs) = length bs"
  by (simp add: string_of_def)

lemma takeWhile_stop: "c \<notin> set ys \<Longrightarrow> takeWhile (\<lambda>x. x \<noteq> c) (ys @ c # zs) = ys"
  by (induction ys) auto

text \<open>
  What a C function sees of a string passed as \<open>s.c_str()\<close>: the characters before the
  first NUL; \<open>strlen\<close> counts these.
\<close>

definition c_str :: "string \<Rightarrow> string" where
  "c_str s = takeWhile (\<lambda>c. c \<noteq> CHR 0x00) s"

lemma c_str_id: "CHR 0x00 \<notin> set s \<Longrightarrow> c_str s = s"
  unfolding c_str_def by (auto simp: takeWhile_eq_all_conv)

lemma c_str_no_nul: "CHR 0x00 \<notin> set (c_str s)"
  unfolding c_str_def by (auto dest: set_takeWhileD)

lemma c_str_idem [simp]: "c_str (c_str s) = c_str s"
  by (simp add: c_str_id c_str_no_nul)

text \<open>The bytes behind a data pointer that may be \<open>NULL\<close>.\<close>

definition mem_of :: "bytes option \<Rightarrow> bytes" where
  "mem_of p = (case p of None \<Rightarrow> [] | Some bs \<Rightarrow> bs)"

lemma mem_of_simps [simp]: "mem_of None = []" "mem_of (Some bs) = bs"
  by (simp_all add: mem_of_def)


section \<open>Status codes\<close>

text \<open>
  The enumeration \<open>fr_status\<close>, with one constructor more than the source for the values
  an \<open>fr_status\<close> object can hold besides its enumerators (a code read from the wire is
  cast to the enumeration unchecked); the \<open>default\<close> branches of the source are about it.
\<close>

datatype fr_status =
    FR_OK | FR_E_ARG | FR_E_RANGE | FR_E_OVERFLOW | FR_E_NOMEM | FR_E_IO | FR_E_EOF
  | FR_E_PROTOCOL | FR_E_TRUNCATED | FR_E_STATE | FR_E_NOTFOUND | FR_E_EXISTS | FR_E_LIMIT
  | FR_E_BUSY | FR_E_INTERNAL | FR_E_CONFLICT | FR_E_EXPIRED | FR_E_UNAUTHENTICATED
  | FR_E_FORBIDDEN | FR_OTHER int

fun status_value :: "fr_status \<Rightarrow> int" where
  "status_value FR_OK = 0"
| "status_value FR_E_ARG = -1"
| "status_value FR_E_RANGE = -2"
| "status_value FR_E_OVERFLOW = -3"
| "status_value FR_E_NOMEM = -4"
| "status_value FR_E_IO = -5"
| "status_value FR_E_EOF = -6"
| "status_value FR_E_PROTOCOL = -7"
| "status_value FR_E_TRUNCATED = -8"
| "status_value FR_E_STATE = -9"
| "status_value FR_E_NOTFOUND = -10"
| "status_value FR_E_EXISTS = -11"
| "status_value FR_E_LIMIT = -12"
| "status_value FR_E_BUSY = -13"
| "status_value FR_E_INTERNAL = -14"
| "status_value FR_E_CONFLICT = -15"
| "status_value FR_E_EXPIRED = -16"
| "status_value FR_E_UNAUTHENTICATED = -17"
| "status_value FR_E_FORBIDDEN = -18"
| "status_value (FR_OTHER n) = n"

text \<open>The enumerators, in the order of the header, and the cast from an integer.\<close>

definition status_enumerators :: "fr_status list" where
  "status_enumerators =
     [FR_OK, FR_E_ARG, FR_E_RANGE, FR_E_OVERFLOW, FR_E_NOMEM, FR_E_IO, FR_E_EOF,
      FR_E_PROTOCOL, FR_E_TRUNCATED, FR_E_STATE, FR_E_NOTFOUND, FR_E_EXISTS, FR_E_LIMIT,
      FR_E_BUSY, FR_E_INTERNAL, FR_E_CONFLICT, FR_E_EXPIRED, FR_E_UNAUTHENTICATED,
      FR_E_FORBIDDEN]"

definition status_of_value :: "int \<Rightarrow> fr_status" where
  "status_of_value n =
     (case find (\<lambda>st. status_value st = n) status_enumerators of
        Some st \<Rightarrow> st | None \<Rightarrow> FR_OTHER n)"

definition is_enumerator :: "fr_status \<Rightarrow> bool" where
  "is_enumerator st = (st \<in> set status_enumerators)"

lemma status_of_value_value:
  "is_enumerator st \<Longrightarrow> status_of_value (status_value st) = st"
  by (auto simp: is_enumerator_def status_enumerators_def status_of_value_def)

lemma status_value_of_value: "status_value (status_of_value n) = n"
  by (auto simp: status_of_value_def find_Some_iff split: option.split)

lemma is_enumerator_simps [simp]:
  "is_enumerator FR_OK" "is_enumerator FR_E_ARG" "is_enumerator FR_E_RANGE"
  "is_enumerator FR_E_OVERFLOW" "is_enumerator FR_E_NOMEM" "is_enumerator FR_E_IO"
  "is_enumerator FR_E_EOF" "is_enumerator FR_E_PROTOCOL" "is_enumerator FR_E_TRUNCATED"
  "is_enumerator FR_E_STATE" "is_enumerator FR_E_NOTFOUND" "is_enumerator FR_E_EXISTS"
  "is_enumerator FR_E_LIMIT" "is_enumerator FR_E_BUSY" "is_enumerator FR_E_INTERNAL"
  "is_enumerator FR_E_CONFLICT" "is_enumerator FR_E_EXPIRED"
  "is_enumerator FR_E_UNAUTHENTICATED" "is_enumerator FR_E_FORBIDDEN"
  "\<not> is_enumerator (FR_OTHER n)"
  by (simp_all add: is_enumerator_def status_enumerators_def)

fun fr_status_name :: "fr_status \<Rightarrow> string" where
  "fr_status_name FR_OK = ''FR_OK''"
| "fr_status_name FR_E_ARG = ''FR_E_ARG''"
| "fr_status_name FR_E_RANGE = ''FR_E_RANGE''"
| "fr_status_name FR_E_OVERFLOW = ''FR_E_OVERFLOW''"
| "fr_status_name FR_E_NOMEM = ''FR_E_NOMEM''"
| "fr_status_name FR_E_IO = ''FR_E_IO''"
| "fr_status_name FR_E_EOF = ''FR_E_EOF''"
| "fr_status_name FR_E_PROTOCOL = ''FR_E_PROTOCOL''"
| "fr_status_name FR_E_TRUNCATED = ''FR_E_TRUNCATED''"
| "fr_status_name FR_E_STATE = ''FR_E_STATE''"
| "fr_status_name FR_E_NOTFOUND = ''FR_E_NOTFOUND''"
| "fr_status_name FR_E_EXISTS = ''FR_E_EXISTS''"
| "fr_status_name FR_E_LIMIT = ''FR_E_LIMIT''"
| "fr_status_name FR_E_BUSY = ''FR_E_BUSY''"
| "fr_status_name FR_E_INTERNAL = ''FR_E_INTERNAL''"
| "fr_status_name FR_E_CONFLICT = ''FR_E_CONFLICT''"
| "fr_status_name FR_E_EXPIRED = ''FR_E_EXPIRED''"
| "fr_status_name FR_E_UNAUTHENTICATED = ''FR_E_UNAUTHENTICATED''"
| "fr_status_name FR_E_FORBIDDEN = ''FR_E_FORBIDDEN''"
| "fr_status_name (FR_OTHER _) = ''FR_E_UNKNOWN''"

fun fr_status_message :: "fr_status \<Rightarrow> string" where
  "fr_status_message FR_OK = ''success''"
| "fr_status_message FR_E_ARG = ''invalid argument''"
| "fr_status_message FR_E_RANGE = ''value out of range''"
| "fr_status_message FR_E_OVERFLOW = ''arithmetic or capacity overflow''"
| "fr_status_message FR_E_NOMEM = ''out of memory''"
| "fr_status_message FR_E_IO = ''I/O error''"
| "fr_status_message FR_E_EOF = ''unexpected end of input''"
| "fr_status_message FR_E_PROTOCOL = ''protocol violation''"
| "fr_status_message FR_E_TRUNCATED = ''input truncated''"
| "fr_status_message FR_E_STATE = ''invalid state''"
| "fr_status_message FR_E_NOTFOUND = ''not found''"
| "fr_status_message FR_E_EXISTS = ''already exists''"
| "fr_status_message FR_E_LIMIT = ''limit exceeded''"
| "fr_status_message FR_E_BUSY = ''busy''"
| "fr_status_message FR_E_CONFLICT = ''content conflict''"
| "fr_status_message FR_E_EXPIRED = ''object expired''"
| "fr_status_message FR_E_UNAUTHENTICATED = ''authentication required''"
| "fr_status_message FR_E_FORBIDDEN = ''permission denied''"
| "fr_status_message FR_E_INTERNAL = ''internal error''"
| "fr_status_message (FR_OTHER _) = ''unknown error''"

datatype fr_category =
    FR_CAT_OK | FR_CAT_ARGUMENT | FR_CAT_RANGE | FR_CAT_RESOURCE | FR_CAT_IO
  | FR_CAT_PROTOCOL | FR_CAT_STATE | FR_CAT_INTERNAL

fun fr_status_category :: "fr_status \<Rightarrow> fr_category" where
  "fr_status_category FR_OK = FR_CAT_OK"
| "fr_status_category FR_E_ARG = FR_CAT_ARGUMENT"
| "fr_status_category FR_E_RANGE = FR_CAT_RANGE"
| "fr_status_category FR_E_NOMEM = FR_CAT_RESOURCE"
| "fr_status_category FR_E_LIMIT = FR_CAT_RESOURCE"
| "fr_status_category FR_E_IO = FR_CAT_IO"
| "fr_status_category FR_E_PROTOCOL = FR_CAT_PROTOCOL"
| "fr_status_category FR_E_TRUNCATED = FR_CAT_PROTOCOL"
| "fr_status_category FR_E_EOF = FR_CAT_STATE"
| "fr_status_category FR_E_STATE = FR_CAT_STATE"
| "fr_status_category FR_E_NOTFOUND = FR_CAT_STATE"
| "fr_status_category FR_E_EXISTS = FR_CAT_STATE"
| "fr_status_category FR_E_CONFLICT = FR_CAT_STATE"
| "fr_status_category FR_E_EXPIRED = FR_CAT_STATE"
| "fr_status_category FR_E_BUSY = FR_CAT_STATE"
| "fr_status_category FR_E_UNAUTHENTICATED = FR_CAT_STATE"
| "fr_status_category FR_E_FORBIDDEN = FR_CAT_STATE"
| "fr_status_category FR_E_OVERFLOW = FR_CAT_INTERNAL"
| "fr_status_category FR_E_INTERNAL = FR_CAT_INTERNAL"
| "fr_status_category (FR_OTHER _) = FR_CAT_INTERNAL"

section \<open>Exceptions and sequencing\<close>

text \<open>
  \<open>Err code message\<close> is a thrown \<open>fr::Error\<close>; \<open>StdExc what\<close> any other
  \<open>std::exception\<close> (an allocation failure, say), which the code catches separately.
\<close>

datatype exn = Err fr_status string | StdExc string

type_synonym 'a result = "exn + 'a"

definition throw_error :: "fr_status \<Rightarrow> string \<Rightarrow> 'a result" where
  "throw_error code message = Inl (Err code message)"

text \<open>\<open>Error::what()\<close> is a C string: it ends at the first NUL of the message.\<close>

fun what :: "exn \<Rightarrow> string" where
  "what (Err code message) = c_str message"
| "what (StdExc message) = message"

fun code_is :: "fr_status \<Rightarrow> exn \<Rightarrow> bool" where
  "code_is st (Err code message) = (code = st)"
| "code_is st (StdExc message) = False"

text \<open>Sequencing: a thrown exception leaves the statements after it out.\<close>

fun rbind :: "'e + 'a \<Rightarrow> ('a \<Rightarrow> 'e + 'b) \<Rightarrow> 'e + 'b" where
  "rbind (Inl e) k = Inl e"
| "rbind (Inr x) k = k x"

lemma rbind_eq_Inr: "rbind m k = Inr y \<longleftrightarrow> (\<exists>x. m = Inr x \<and> k x = Inr y)"
  by (cases m) auto

lemma rbind_eq_Inl: "rbind m k = Inl e \<longleftrightarrow> m = Inl e \<or> (\<exists>x. m = Inr x \<and> k x = Inl e)"
  by (cases m) auto

lemma throw_error_simps [simp]:
  "throw_error st msg = Inl e \<longleftrightarrow> e = Err st msg"
  "throw_error st msg \<noteq> Inr x"
  "Inr x \<noteq> throw_error st msg"
  by (auto simp: throw_error_def)

text \<open>A run of statements that each update the same object, in order.\<close>

fun seq :: "('s \<Rightarrow> 'e + 's) list \<Rightarrow> 's \<Rightarrow> 'e + 's" where
  "seq [] s = Inr s"
| "seq (f # fs) s = rbind (f s) (seq fs)"

text \<open>A range-based \<open>for\<close> loop whose body updates one object.\<close>

fun for_each :: "('a \<Rightarrow> 's \<Rightarrow> 'e + 's) \<Rightarrow> 'a list \<Rightarrow> 's \<Rightarrow> 'e + 's" where
  "for_each f [] s = Inr s"
| "for_each f (x # xs) s = rbind (f x s) (for_each f xs)"

lemma seq_append: "seq (fs @ gs) s = rbind (seq fs s) (seq gs)"
proof (induction fs arbitrary: s)
  case (Cons f fs)
  then show ?case by (cases "f s") auto
qed simp

lemma for_each_append: "for_each f (xs @ ys) s = rbind (for_each f xs s) (for_each f ys)"
proof (induction xs arbitrary: s)
  case (Cons x xs)
  then show ?case by (cases "f x s") auto
qed simp

section \<open>Generic lemmas\<close>

lemma unat_of_nat_small: "n < 2 ^ LENGTH('a::len) \<Longrightarrow> unat (of_nat n :: 'a word) = n"
  by (simp add: unat_of_nat)

lemma unat_u64_less: "unat (w :: u64) < 18446744073709551616"
  using unsigned_less [of w, where ?'a = nat] by simp

lemma drop_eq_append_take: "n \<le> length xs \<Longrightarrow> xs = take n xs @ drop n xs"
  by simp

end
