(* ===== verification/Tables.thy ===== *)
theory Tables
  imports Prelude
begin

text \<open>
  The metadata database: the tables of \<^verbatim>\<open>src/storage/fr_schema.cpp\<close> as lists of row
  records, in insertion order. An INTEGER column is an integer, a TEXT column a string, a
  nullable column an option. A statement of the source becomes a list operation at its place in
  the model; a violated constraint makes \<open>Statement::step\<close> throw \<open>FR_E_IO\<close>
  (\<open>check_rc\<close> in \<^verbatim>\<open>src/storage/fr_db.cpp\<close>), and \<open>Tx\<close>
  (\<^verbatim>\<open>include/forgerelay/storage/db.hpp\<close>) restores the database when the block is left
  without a commit. Faults of SQLite itself (disk errors, lock timeouts) are not modelled.
\<close>

record artifact_row =
  ar_id :: int
  ar_namespace :: string
  ar_name :: string
  ar_version :: string
  ar_size :: int
  ar_digest :: string
  ar_chunk_size :: int
  ar_creator :: string
  ar_created_at :: int
  ar_note :: "string option"

record artifact_chunk_row =
  ac_artifact_id :: int
  ac_ordinal :: int
  ac_byte_offset :: int
  ac_length :: int
  ac_digest :: string

record chunk_row =
  ck_digest :: string
  ck_raw_size :: int
  ck_stored_size :: int
  ck_state :: string
  ck_pending_at :: "int option"
  ck_created_at :: int

record session_row =
  ss_id :: string
  ss_owner :: string
  ss_state :: string
  ss_namespace :: string
  ss_name :: string
  ss_version :: string
  ss_expected_size :: int
  ss_expected_digest :: string
  ss_chunk_size :: int
  ss_created_at :: int
  ss_expires_at :: int

record part_row =
  pt_session_id :: string
  pt_ordinal :: int
  pt_digest :: string
  pt_length :: int

record user_row =
  us_id :: int
  us_username :: string
  us_role :: string
  us_enabled :: int
  us_created_at :: int

record token_row =
  tk_id :: int
  tk_user_id :: int
  tk_token_hash :: string
  tk_expires_at :: "int option"
  tk_revoked_at :: "int option"
  tk_created_at :: int

record audit_row =
  ev_id :: int
  ev_actor :: string
  ev_action :: string
  ev_target :: string
  ev_result :: string
  ev_created_at :: int

text \<open>\<open>*_seq\<close> is the largest key an \<open>AUTOINCREMENT\<close> table has handed out.\<close>

record database =
  db_artifact :: "artifact_row list"
  db_artifact_seq :: int
  db_artifact_chunk :: "artifact_chunk_row list"
  db_chunk :: "chunk_row list"
  db_session :: "session_row list"
  db_part :: "part_row list"
  db_user :: "user_row list"
  db_user_seq :: int
  db_token :: "token_row list"
  db_token_seq :: int
  db_audit :: "audit_row list"
  db_audit_seq :: int

definition empty_database :: database where
  "empty_database =
     \<lparr>db_artifact = [], db_artifact_seq = 0, db_artifact_chunk = [], db_chunk = [],
      db_session = [], db_part = [], db_user = [], db_user_seq = 0, db_token = [],
      db_token_seq = 0, db_audit = [], db_audit_seq = 0\<rparr>"

section \<open>Statements\<close>

text \<open>\<open>UPDATE t SET ... WHERE p\<close> and the value of \<open>sqlite3_changes\<close> after it.\<close>

definition update_where :: "('r \<Rightarrow> bool) \<Rightarrow> ('r \<Rightarrow> 'r) \<Rightarrow> 'r list \<Rightarrow> 'r list" where
  "update_where p f rows = map (\<lambda>r. if p r then f r else r) rows"

definition changes :: "('r \<Rightarrow> bool) \<Rightarrow> 'r list \<Rightarrow> int" where
  "changes p rows = int (length (filter p rows))"

text \<open>\<open>DELETE FROM t WHERE p\<close>.\<close>

definition delete_where :: "('r \<Rightarrow> bool) \<Rightarrow> 'r list \<Rightarrow> 'r list" where
  "delete_where p rows = filter (\<lambda>r. \<not> p r) rows"

text \<open>The first row that satisfies a condition on a key.\<close>

definition select_one :: "('r \<Rightarrow> bool) \<Rightarrow> 'r list \<Rightarrow> 'r option" where
  "select_one p rows = find p rows"

definition constraint_failed :: "'a result" where
  "constraint_failed = throw_error FR_E_IO ''step: constraint failed''"

declare constraint_failed_def [code_unfold]

lemma set_update_where:
  "set (update_where p f rows) = {r \<in> set rows. \<not> p r} \<union> f ` {r \<in> set rows. p r}"
  by (auto simp: update_where_def)

lemma set_delete_where [simp]: "set (delete_where p rows) = {r \<in> set rows. \<not> p r}"
  by (auto simp: delete_where_def)

lemma map_update_where: "(\<And>r. g (f r) = g r) \<Longrightarrow> map g (update_where p f rows) = map g rows"
  by (simp add: update_where_def)

lemma length_update_where [simp]: "length (update_where p f rows) = length rows"
  by (simp add: update_where_def)

lemma distinct_map_delete_where: "distinct (map g rows) \<Longrightarrow> distinct (map g (delete_where p rows))"
  by (simp add: delete_where_def distinct_map_filter)

lemma changes_pos: "changes p rows > 0 \<longleftrightarrow> (\<exists>r\<in>set rows. p r)"
  by (auto simp: changes_def length_greater_0_conv filter_empty_conv)

lemma select_one_Some: "select_one p rows = Some r \<Longrightarrow> r \<in> set rows \<and> p r"
  by (auto simp: select_one_def find_Some_iff)

lemma select_one_None: "select_one p rows = None \<longleftrightarrow> (\<forall>r\<in>set rows. \<not> p r)"
  by (auto simp: select_one_def find_None_iff)

lemma select_one_unique:
  assumes "distinct (map key rows)" and "r \<in> set rows"
  shows "select_one (\<lambda>r'. key r' = key r) rows = Some r"
proof (cases "select_one (\<lambda>r'. key r' = key r) rows")
  case None
  with assms(2) show ?thesis by (auto simp: select_one_None)
next
  case (Some r')
  from select_one_Some [OF this] have "r' \<in> set rows" "key r' = key r" by auto
  with assms have "r' = r" by (auto simp: distinct_map dest: inj_onD)
  with Some show ?thesis by simp
qed

lemma distinct_key_eq:
  "distinct (map key rows) \<Longrightarrow> r \<in> set rows \<Longrightarrow> r' \<in> set rows \<Longrightarrow> key r = key r' \<Longrightarrow> r = r'"
  by (auto simp: distinct_map dest: inj_onD)

section \<open>Operations with a state and exceptions\<close>

text \<open>
  An operation takes the state and gives a result or an exception, and the state it leaves: what
  was changed before a throw stays changed, unless a transaction undoes it.
\<close>

type_synonym ('s, 'a) op = "'s \<Rightarrow> 'a result \<times> 's"

definition op_return :: "'a \<Rightarrow> ('s, 'a) op" where
  "op_return x s = (Inr x, s)"

definition op_throw :: "fr_status \<Rightarrow> string \<Rightarrow> ('s, 'a) op" where
  "op_throw code message s = (throw_error code message, s)"

definition op_lift :: "'a result \<Rightarrow> ('s, 'a) op" where
  "op_lift r s = (r, s)"

fun op_bind :: "('s, 'a) op \<Rightarrow> ('a \<Rightarrow> ('s, 'b) op) \<Rightarrow> ('s, 'b) op" where
  "op_bind m k s = (case m s of (Inl e, s') \<Rightarrow> (Inl e, s') | (Inr x, s') \<Rightarrow> k x s')"

definition op_modify :: "('s \<Rightarrow> 's) \<Rightarrow> ('s, unit) op" where
  "op_modify f s = (Inr (), f s)"

text \<open>A loop over a list whose body may throw.\<close>

fun op_for :: "('x \<Rightarrow> ('s, unit) op) \<Rightarrow> 'x list \<Rightarrow> ('s, unit) op" where
  "op_for f [] s = (Inr (), s)"
| "op_for f (x # xs) s = (case f x s of (Inl e, s') \<Rightarrow> (Inl e, s') | (Inr u, s') \<Rightarrow> op_for f xs s')"

text \<open>What holds of every outcome of an operation: \<open>keeps I m\<close> for an invariant \<open>I\<close>.\<close>

definition keeps :: "('s \<Rightarrow> bool) \<Rightarrow> ('s, 'a) op \<Rightarrow> bool" where
  "keeps I m = (\<forall>s. I s \<longrightarrow> I (snd (m s)))"

lemma keeps_bind: "keeps I m \<Longrightarrow> (\<And>x. keeps I (k x)) \<Longrightarrow> keeps I (op_bind m k)"
  unfolding keeps_def
proof (intro allI impI)
  fix s assume m: "\<forall>s. I s \<longrightarrow> I (snd (m s))" and k: "\<And>x. \<forall>s. I s \<longrightarrow> I (snd (k x s))" and s: "I s"
  show "I (snd (op_bind m k s))"
  proof (cases "m s")
    case (Pair r s')
    then have "I s'" using m s by (metis snd_conv)
    with Pair k show ?thesis by (cases r) auto
  qed
qed

lemma keeps_return: "keeps I (op_return x)"
  by (simp add: keeps_def op_return_def)

lemma keeps_throw: "keeps I (op_throw c msg)"
  by (simp add: keeps_def op_throw_def)

lemma keeps_lift: "keeps I (op_lift r)"
  by (simp add: keeps_def op_lift_def)

lemma keeps_modify: "(\<And>s. I s \<Longrightarrow> I (f s)) \<Longrightarrow> keeps I (op_modify f)"
  by (simp add: keeps_def op_modify_def)

lemma keeps_for: "(\<And>x. x \<in> set xs \<Longrightarrow> keeps I (f x)) \<Longrightarrow> keeps I (op_for f xs)"
proof (induction xs)
  case Nil
  then show ?case by (simp add: keeps_def)
next
  case (Cons x xs)
  then have IH: "keeps I (op_for f xs)" and f: "keeps I (f x)" by auto
  show ?case unfolding keeps_def
  proof (intro allI impI)
    fix s assume "I s"
    obtain r s' where x: "f x s = (r, s')" by (cases "f x s")
    then have "I s'" using f \<open>I s\<close> unfolding keeps_def by (metis snd_conv)
    with IH x show "I (snd (op_for f (x # xs) s))" unfolding keeps_def by (cases r) auto
  qed
qed

lemmas keeps_intros = keeps_bind keeps_return keeps_throw keeps_lift keeps_for

end
