(* ===== verification/Bytes.thy ===== *)
theory Bytes
  imports Prelude
begin

text \<open>
  The leaf modules of \<^verbatim>\<open>libfrcore\<close>: big-endian loads and stores
  (\<^verbatim>\<open>fr_byteorder.c\<close>), overflow-checked arithmetic (\<^verbatim>\<open>fr_checked.c\<close>, both the
  builtin and the portable branch), the bitwise CRC-32 (\<^verbatim>\<open>fr_crc32.c\<close>) and hexadecimal
  coding (\<^verbatim>\<open>fr_hex.c\<close>). A load takes the bytes from the pointer on; a store gives
  the bytes it writes there.
\<close>

unbundle bit_operations_syntax

section \<open>Byte order (fr_byteorder.c)\<close>

definition fr_load_be16 :: "bytes \<Rightarrow> u16" where
  "fr_load_be16 p = push_bit 8 (ucast (p ! 0)) OR ucast (p ! 1)"

definition fr_load_be32 :: "bytes \<Rightarrow> u32" where
  "fr_load_be32 p =
     push_bit 24 (ucast (p ! 0)) OR push_bit 16 (ucast (p ! 1)) OR
     push_bit 8 (ucast (p ! 2)) OR ucast (p ! 3)"

definition fr_load_be64 :: "bytes \<Rightarrow> u64" where
  "fr_load_be64 p =
     push_bit 56 (ucast (p ! 0)) OR push_bit 48 (ucast (p ! 1)) OR
     push_bit 40 (ucast (p ! 2)) OR push_bit 32 (ucast (p ! 3)) OR
     push_bit 24 (ucast (p ! 4)) OR push_bit 16 (ucast (p ! 5)) OR
     push_bit 8 (ucast (p ! 6)) OR ucast (p ! 7)"

definition fr_store_be16 :: "u16 \<Rightarrow> bytes" where
  "fr_store_be16 v = [ucast (drop_bit 8 v), ucast (v AND 0xff)]"

definition fr_store_be32 :: "u32 \<Rightarrow> bytes" where
  "fr_store_be32 v =
     [ucast (drop_bit 24 v AND 0xff), ucast (drop_bit 16 v AND 0xff),
      ucast (drop_bit 8 v AND 0xff), ucast (v AND 0xff)]"

definition fr_store_be64 :: "u64 \<Rightarrow> bytes" where
  "fr_store_be64 v =
     [ucast (drop_bit 56 v AND 0xff), ucast (drop_bit 48 v AND 0xff),
      ucast (drop_bit 40 v AND 0xff), ucast (drop_bit 32 v AND 0xff),
      ucast (drop_bit 24 v AND 0xff), ucast (drop_bit 16 v AND 0xff),
      ucast (drop_bit 8 v AND 0xff), ucast (v AND 0xff)]"

text \<open>Bits of a byte cut out of a word and put back in its place.\<close>

lemma ucast_and_ff: "(ucast ((v :: 'a::len word) AND 0xff) :: u8) = ucast v"
proof (rule bit_word_eqI)
  fix n assume n: "n < LENGTH(8)"
  have "(0xff :: 'a word) = mask 8" by (simp add: mask_eq_exp_minus_1)
  then have "bit (v AND 0xff) n = (bit v n \<and> n < 8)"
    by (simp only: bit_and_iff bit_mask_iff) (auto dest: bit_imp_le_length)
  then show "bit (ucast (v AND 0xff) :: u8) n \<longleftrightarrow> bit (ucast v :: u8) n"
    using n by (simp add: bit_ucast_iff)
qed

lemmas byte_bits = bit_or_iff bit_push_bit_iff bit_ucast_iff bit_drop_bit_eq comp_def

lemma byte_at:
  fixes v :: "'a::len word"
  shows "bit (push_bit k (ucast (ucast (drop_bit k v) :: u8)) :: 'a word) n \<longleftrightarrow>
           k \<le> n \<and> n < k + 8 \<and> bit v n"
  by (simp only: byte_bits) (auto dest: bit_imp_le_length)

lemma byte_at_0:
  fixes v :: "'a::len word"
  shows "bit (ucast (ucast v :: u8) :: 'a word) n \<longleftrightarrow> n < 8 \<and> bit v n"
  using byte_at [of 0 v n] by (simp only: push_bit_0_id drop_bit_0 id_apply le0 add_0 simp_thms)

lemma join_bytes16:
  "push_bit 8 (ucast (ucast (drop_bit 8 v) :: u8)) OR ucast (ucast v :: u8) = (v :: u16)"
  (is "?l = v")
proof (rule bit_word_eqI)
  fix n assume n: "n < LENGTH(16)"
  show "bit ?l n = bit v n"
    unfolding bit_or_iff byte_at byte_at_0 using n by (cases "bit v n") auto
qed

lemma join_bytes32:
  "push_bit 24 (ucast (ucast (drop_bit 24 v) :: u8)) OR
   push_bit 16 (ucast (ucast (drop_bit 16 v) :: u8)) OR
   push_bit 8 (ucast (ucast (drop_bit 8 v) :: u8)) OR ucast (ucast v :: u8) = (v :: u32)"
  (is "?l = v")
proof (rule bit_word_eqI)
  fix n assume n: "n < LENGTH(32)"
  show "bit ?l n = bit v n"
    unfolding bit_or_iff byte_at byte_at_0 using n by (cases "bit v n") auto
qed

lemma join_bytes64:
  "push_bit 56 (ucast (ucast (drop_bit 56 v) :: u8)) OR
   push_bit 48 (ucast (ucast (drop_bit 48 v) :: u8)) OR
   push_bit 40 (ucast (ucast (drop_bit 40 v) :: u8)) OR
   push_bit 32 (ucast (ucast (drop_bit 32 v) :: u8)) OR
   push_bit 24 (ucast (ucast (drop_bit 24 v) :: u8)) OR
   push_bit 16 (ucast (ucast (drop_bit 16 v) :: u8)) OR
   push_bit 8 (ucast (ucast (drop_bit 8 v) :: u8)) OR ucast (ucast v :: u8) = (v :: u64)"
  (is "?l = v")
proof (rule bit_word_eqI)
  fix n assume n: "n < LENGTH(64)"
  show "bit ?l n = bit v n"
    unfolding bit_or_iff byte_at byte_at_0 using n by (cases "bit v n") auto
qed

lemma length_store_be [simp]:
  "length (fr_store_be16 v) = 2" "length (fr_store_be32 w) = 4" "length (fr_store_be64 x) = 8"
  by (simp_all add: fr_store_be16_def fr_store_be32_def fr_store_be64_def)

lemma nth_bytes:
  "(a # xs) ! 0 = a" "(a # b # xs) ! 1 = b" "(a # b # c # xs) ! 2 = c"
  "(a # b # c # d # xs) ! 3 = d" "(a # b # c # d # e # xs) ! 4 = e"
  "(a # b # c # d # e # f # xs) ! 5 = f" "(a # b # c # d # e # f # g # xs) ! 6 = g"
  "(a # b # c # d # e # f # g # h # xs) ! 7 = h"
  by (simp_all add: numeral_eq_Suc)

lemma load_store_be16 [simp]: "fr_load_be16 (fr_store_be16 v @ bs) = v"
  unfolding fr_load_be16_def fr_store_be16_def append_Cons nth_bytes ucast_and_ff
  by (rule join_bytes16)

lemma load_store_be32 [simp]: "fr_load_be32 (fr_store_be32 v @ bs) = v"
  unfolding fr_load_be32_def fr_store_be32_def append_Cons nth_bytes ucast_and_ff
  by (rule join_bytes32)

lemma load_store_be64 [simp]: "fr_load_be64 (fr_store_be64 v @ bs) = v"
  unfolding fr_load_be64_def fr_store_be64_def append_Cons nth_bytes ucast_and_ff
  by (rule join_bytes64)

lemma load_store_be_nil [simp]:
  "fr_load_be16 (fr_store_be16 a) = a" "fr_load_be32 (fr_store_be32 b) = b"
  "fr_load_be64 (fr_store_be64 c) = c"
  using load_store_be16 [of a "[]"] load_store_be32 [of b "[]"] load_store_be64 [of c "[]"]
  by simp_all

text \<open>Conversely, storing what was loaded writes the same bytes back.\<close>

lemma store_load_be16: "fr_store_be16 (fr_load_be16 [a, b]) = [a, b]"
  unfolding fr_load_be16_def fr_store_be16_def nth_bytes ucast_and_ff list.inject
  by (intro conjI refl; rule bit_word_eqI; simp only: byte_bits)
     (auto dest: bit_imp_le_length)

lemma store_load_be32: "fr_store_be32 (fr_load_be32 [a, b, c, d]) = [a, b, c, d]"
  unfolding fr_load_be32_def fr_store_be32_def nth_bytes ucast_and_ff list.inject
  by (intro conjI refl; rule bit_word_eqI; simp only: byte_bits)
     (auto dest: bit_imp_le_length)

lemma store_load_be64:
  "fr_store_be64 (fr_load_be64 [a, b, c, d, e, f, g, h]) = [a, b, c, d, e, f, g, h]"
  unfolding fr_load_be64_def fr_store_be64_def nth_bytes ucast_and_ff list.inject
  by (intro conjI refl; rule bit_word_eqI; simp only: byte_bits)
     (auto dest: bit_imp_le_length)

section \<open>Checked arithmetic (fr_checked.c)\<close>

text \<open>
  \<open>None\<close> is a \<open>false\<close> return, with the output parameter untouched. The builtins
  (\<open>__builtin_add_overflow\<close>, \<open>__builtin_mul_overflow\<close>) report whether the exact
  result fits the type; the portable branches detect the overflow by arithmetic on the
  machine type.
\<close>

definition builtin_add_overflow :: "'a::len word \<Rightarrow> 'a word \<Rightarrow> bool \<times> 'a word" where
  "builtin_add_overflow a b = (2 ^ LENGTH('a) \<le> unat a + unat b, a + b)"

definition builtin_mul_overflow :: "'a::len word \<Rightarrow> 'a word \<Rightarrow> bool \<times> 'a word" where
  "builtin_mul_overflow a b = (2 ^ LENGTH('a) \<le> unat a * unat b, a * b)"

definition fr_checked_add_u32 :: "u32 \<Rightarrow> u32 \<Rightarrow> u32 option" where
  "fr_checked_add_u32 a b =
     (let (ovf, r) = builtin_add_overflow a b in if ovf then None else Some r)"

definition fr_checked_add_u32_portable :: "u32 \<Rightarrow> u32 \<Rightarrow> u32 option" where
  "fr_checked_add_u32_portable a b =
     (let wide = (ucast a :: u64) + ucast b
      in if wide > ucast (- 1 :: u32) then None else Some (ucast wide))"

definition fr_checked_add_u64 :: "u64 \<Rightarrow> u64 \<Rightarrow> u64 option" where
  "fr_checked_add_u64 a b =
     (let (ovf, r) = builtin_add_overflow a b in if ovf then None else Some r)"

definition fr_checked_add_u64_portable :: "u64 \<Rightarrow> u64 \<Rightarrow> u64 option" where
  "fr_checked_add_u64_portable a b = (let r = a + b in if r < a then None else Some r)"

definition fr_checked_sub_u64 :: "u64 \<Rightarrow> u64 \<Rightarrow> u64 option" where
  "fr_checked_sub_u64 a b = (if a < b then None else Some (a - b))"

definition fr_checked_mul_u64 :: "u64 \<Rightarrow> u64 \<Rightarrow> u64 option" where
  "fr_checked_mul_u64 a b =
     (let (ovf, r) = builtin_mul_overflow a b in if ovf then None else Some r)"

definition fr_checked_mul_u64_portable :: "u64 \<Rightarrow> u64 \<Rightarrow> u64 option" where
  "fr_checked_mul_u64_portable a b =
     (if a = 0 \<or> b = 0 then Some 0
      else let r = a * b in if r div b \<noteq> a then None else Some r)"

text \<open>\<open>size_t\<close> is 64 bits wide, so \<open>SIZE_MAX\<close> is the largest \<open>uint64_t\<close>.\<close>

definition SIZE_MAX :: u64 where
  "SIZE_MAX = - 1"

definition fr_size_from_u64 :: "u64 \<Rightarrow> u64 option" where
  "fr_size_from_u64 v = (if v > SIZE_MAX then None else Some v)"

definition fr_checked_add_size :: "u64 \<Rightarrow> u64 \<Rightarrow> u64 option" where
  "fr_checked_add_size a b =
     (case fr_checked_add_u64 a b of None \<Rightarrow> None | Some wide \<Rightarrow> fr_size_from_u64 wide)"

definition fr_checked_sub_size :: "u64 \<Rightarrow> u64 \<Rightarrow> u64 option" where
  "fr_checked_sub_size a b =
     (case fr_checked_sub_u64 a b of None \<Rightarrow> None | Some wide \<Rightarrow> fr_size_from_u64 wide)"

definition fr_checked_mul_size :: "u64 \<Rightarrow> u64 \<Rightarrow> u64 option" where
  "fr_checked_mul_size a b =
     (case fr_checked_mul_u64 a b of None \<Rightarrow> None | Some wide \<Rightarrow> fr_size_from_u64 wide)"

lemma fr_size_from_u64_Some [simp]: "fr_size_from_u64 v = Some v"
  by (simp add: fr_size_from_u64_def SIZE_MAX_def not_less)

lemma builtin_add_exact:
  "unat a + unat b < 2 ^ LENGTH('a) \<Longrightarrow> unat (a + b :: 'a::len word) = unat a + unat b"
  by (simp add: unat_word_ariths)

lemma builtin_mul_exact:
  "unat a * unat b < 2 ^ LENGTH('a) \<Longrightarrow> unat (a * b :: 'a::len word) = unat a * unat b"
  by (simp add: unat_word_ariths)

text \<open>All of them return the exact mathematical result, or \<open>None\<close> when it does not fit.\<close>

lemma checked_add_size_iff:
  "fr_checked_add_size a b = Some c \<longleftrightarrow> unat c = unat a + unat b"
proof -
  have "unat c < 2 ^ 64" by (simp add: unat_u64_less)
  then show ?thesis
    by (auto simp: fr_checked_add_size_def fr_checked_add_u64_def builtin_add_overflow_def
        unat_word_ariths word_unat_eq_iff)
qed

lemma checked_sub_size_iff:
  "fr_checked_sub_size a b = Some c \<longleftrightarrow> unat b \<le> unat a \<and> unat c = unat a - unat b"
  by (auto simp: fr_checked_sub_size_def fr_checked_sub_u64_def word_less_nat_alt not_less
      word_unat_eq_iff unat_sub word_le_nat_alt)

lemma checked_mul_size_iff:
  "fr_checked_mul_size a b = Some c \<longleftrightarrow> unat c = unat a * unat b"
proof -
  have "unat c < 2 ^ 64" by (simp add: unat_u64_less)
  then show ?thesis
    by (auto simp: fr_checked_mul_size_def fr_checked_mul_u64_def builtin_mul_overflow_def
        unat_word_ariths word_unat_eq_iff)
qed

lemma checked_add_size_None:
  "fr_checked_add_size a b = None \<longleftrightarrow> 2 ^ 64 \<le> unat a + unat b"
  by (simp add: fr_checked_add_size_def fr_checked_add_u64_def builtin_add_overflow_def)

lemma checked_mul_size_None:
  "fr_checked_mul_size a b = None \<longleftrightarrow> 2 ^ 64 \<le> unat a * unat b"
  by (simp add: fr_checked_mul_size_def fr_checked_mul_u64_def builtin_mul_overflow_def)


text \<open>The portable branches agree with the builtins on every input.\<close>

lemma add_u32_portable: "fr_checked_add_u32_portable a b = fr_checked_add_u32 a b"
proof -
  have a: "unat a < 2 ^ 32" and b: "unat b < 2 ^ 32"
    using unsigned_less [of a, where ?'a = nat] unsigned_less [of b, where ?'a = nat] by simp_all
  have ua: "unat (ucast x :: u64) = unat x" for x :: u32
    using unsigned_less [of x, where ?'a = nat]
    by (simp add: unsigned_ucast_eq take_bit_nat_eq_self)
  from a b have w: "unat ((ucast a :: u64) + ucast b) = unat a + unat b"
    by (simp add: unat_word_ariths ua)
  have "(ucast ((ucast a :: u64) + ucast b) :: u32) = a + b"
    by (rule word_unat_eq_iff [THEN iffD2])
       (use a b in \<open>simp add: unat_word_ariths unsigned_ucast_eq take_bit_eq_mod ua\<close>)
  moreover have "unat (- 1 :: u32) = 2 ^ 32 - 1"
    by (simp add: unsigned_minus_1_eq_mask mask_eq_exp_minus_1)
  ultimately show ?thesis using w
    by (auto simp: fr_checked_add_u32_portable_def fr_checked_add_u32_def
        builtin_add_overflow_def Let_def word_less_nat_alt ua)
qed

lemma add_u64_portable: "fr_checked_add_u64_portable a b = fr_checked_add_u64 a b"
proof -
  have "a + b < a \<longleftrightarrow> 2 ^ 64 \<le> unat a + unat b"
  proof (cases "unat a + unat b < 2 ^ 64")
    case True
    then show ?thesis by (simp add: word_less_nat_alt unat_word_ariths)
  next
    case False
    then have "(unat a + unat b) mod 2 ^ 64 = unat a + unat b - 2 ^ 64"
      using unat_u64_less [of a] unat_u64_less [of b] by (simp add: mod_if)
    with False show ?thesis
      using unat_u64_less [of b] by (simp add: word_less_nat_alt unat_word_ariths)
  qed
  then show ?thesis
    by (simp add: fr_checked_add_u64_portable_def fr_checked_add_u64_def
        builtin_add_overflow_def Let_def)
qed

lemma mul_u64_portable: "fr_checked_mul_u64_portable a b = fr_checked_mul_u64 a b"
proof (cases "a = 0 \<or> b = 0")
  case True
  then show ?thesis
    by (auto simp: fr_checked_mul_u64_portable_def fr_checked_mul_u64_def
        builtin_mul_overflow_def)
next
  case False
  then have b: "0 < unat b" by (simp add: unat_gt_0)
  have q: "unat (a * b div b) = ((unat a * unat b) mod 2 ^ 64) div unat b"
    by (simp add: unat_div_distrib unat_word_ariths)
  have "a * b div b = a \<longleftrightarrow> unat a * unat b < 2 ^ 64"
  proof
    assume "a * b div b = a"
    with q have "unat a = ((unat a * unat b) mod 2 ^ 64) div unat b" by simp
    then have "unat a * unat b \<le> (unat a * unat b) mod 2 ^ 64"
      by (metis div_times_less_eq_dividend)
    then show "unat a * unat b < 2 ^ 64"
      by (meson le_less_trans mod_less_divisor zero_less_numeral zero_less_power)
  next
    assume "unat a * unat b < 2 ^ 64"
    with q b have "unat (a * b div b) = unat a" by simp
    then show "a * b div b = a" by (simp add: word_unat_eq_iff)
  qed
  with False show ?thesis
    by (auto simp: fr_checked_mul_u64_portable_def fr_checked_mul_u64_def
        builtin_mul_overflow_def Let_def)
qed

section \<open>CRC-32 (fr_crc32.c)\<close>

definition crc_bit :: "u32 \<Rightarrow> u32" where
  "crc_bit crc = (if crc AND 1 \<noteq> 0 then drop_bit 1 crc XOR 0xedb88320 else drop_bit 1 crc)"

definition crc_byte :: "u32 \<Rightarrow> u8 \<Rightarrow> u32" where
  "crc_byte crc b = (crc_bit ^^ 8) (crc XOR ucast b)"

definition fr_crc32 :: "bytes option \<Rightarrow> nat \<Rightarrow> u32" where
  "fr_crc32 data len =
     (if data = None \<or> len = 0 then 0
      else foldl crc_byte 0xffffffff (take len (mem_of data)) XOR 0xffffffff)"

text \<open>
  One round loses nothing: the polynomial has its top bit set and the shift clears it, so
  the top bit of the result tells which branch was taken.
\<close>

lemma and_1_iff_bit: "(x :: u32) AND 1 \<noteq> 0 \<longleftrightarrow> bit x 0"
  by (simp add: and_one_eq bit_0 mod_2_eq_odd)

lemma crc_bit_eq:
  "crc_bit x = (if bit x 0 then drop_bit 1 x XOR 0xedb88320 else drop_bit 1 x)"
  unfolding crc_bit_def and_1_iff_bit ..

lemma crc_bit_top: "bit (crc_bit x) 31 \<longleftrightarrow> bit x 0"
proof -
  have p: "bit (0xedb88320 :: u32) 31" by simp
  have "\<not> bit (drop_bit 1 x) 31"
    by (auto simp only: bit_drop_bit_eq comp_def dest: bit_imp_le_length) (auto dest: bit_imp_le_length)
  with p show ?thesis
    by (simp only: crc_bit_eq bit_xor_iff split: if_split) blast
qed

lemma xor_cancel:
  fixes x :: "'a::len word"
  shows "x XOR a = x XOR b \<longleftrightarrow> a = b" and "a XOR x = b XOR x \<longleftrightarrow> a = b"
  by (auto simp: bit_eq_iff bit_xor_iff)

lemma drop_bit_1_eq:
  "drop_bit 1 x = drop_bit 1 y \<Longrightarrow> bit x 0 = bit y 0 \<Longrightarrow> x = (y :: u32)"
proof (rule bit_word_eqI)
  fix n assume d: "drop_bit 1 x = drop_bit 1 y" and z: "bit x 0 = bit y 0"
  show "bit x n = bit y n"
  proof (cases n)
    case 0
    with z show ?thesis by simp
  next
    case (Suc k)
    have "bit (drop_bit 1 x) k = bit (drop_bit 1 y) k" using d by simp
    with Suc show ?thesis by (simp only: bit_drop_bit_eq comp_def plus_1_eq_Suc)
  qed
qed

lemma crc_bit_inj: "crc_bit x = crc_bit y \<longleftrightarrow> x = y"
proof
  assume eq: "crc_bit x = crc_bit y"
  have b0: "bit x 0 = bit y 0"
    using crc_bit_top [of x] crc_bit_top [of y] eq by (simp only:)
  have "drop_bit 1 x = drop_bit 1 y"
    using eq b0 by (cases "bit y 0") (simp_all only: crc_bit_eq xor_cancel simp_thms if_True if_False)
  then show "x = y" using b0 by (rule drop_bit_1_eq)
qed simp

lemma crc_bits_inj: "(crc_bit ^^ n) x = (crc_bit ^^ n) y \<longleftrightarrow> x = y"
  by (induction n) (simp_all add: crc_bit_inj)

lemma crc_byte_inj_state: "crc_byte x b = crc_byte y b \<longleftrightarrow> x = y"
  by (simp only: crc_byte_def crc_bits_inj xor_cancel)

lemma ucast_u8_inj: "(ucast a :: u32) = ucast b \<longleftrightarrow> a = (b :: u8)"
proof
  assume eq: "(ucast a :: u32) = ucast b"
  show "a = b"
  proof (rule bit_word_eqI)
    fix n assume n: "n < LENGTH(8)"
    have "bit (ucast a :: u32) n = bit (ucast b :: u32) n" using eq by simp
    with n show "bit a n = bit b n" by (simp add: bit_ucast_iff)
  qed
qed simp

lemma crc_byte_inj_byte: "crc_byte x a = crc_byte x b \<longleftrightarrow> a = b"
  by (simp only: crc_byte_def crc_bits_inj xor_cancel ucast_u8_inj)

lemma crc_run_inj: "foldl crc_byte x bs = foldl crc_byte y bs \<longleftrightarrow> x = y"
  by (induction bs arbitrary: x y) (simp_all add: crc_byte_inj_state)

lemma crc32_byte_change:
  assumes "a \<noteq> b"
  shows "fr_crc32 (Some (xs @ a # ys)) (length (xs @ a # ys)) \<noteq>
         fr_crc32 (Some (xs @ b # ys)) (length (xs @ b # ys))"
proof -
  have "foldl crc_byte s (xs @ a # ys) \<noteq> foldl crc_byte s (xs @ b # ys)" for s
    using assms by (simp add: crc_run_inj crc_byte_inj_byte)
  then show ?thesis
    by (simp add: fr_crc32_def xor_cancel del: foldl_append foldl_Cons)
qed

text \<open>The checksum detects every change of a single byte: two messages of the same length that
  differ in exactly one byte have different CRC-32 values.\<close>

theorem crc32_one_byte:
  assumes "a \<noteq> b"
  shows "fr_crc32 (Some (xs @ a # ys)) (length (xs @ a # ys)) \<noteq>
         fr_crc32 (Some (xs @ b # ys)) (length (xs @ b # ys))"
  by (rule crc32_byte_change [OF assms])

theorem crc32_one_byte_witness:
  "fr_crc32 (Some [1, 2, 3]) 3 \<noteq> fr_crc32 (Some [1, 7, 3]) 3"
  using crc32_one_byte [of 2 7 "[1]" "[3]"] by (simp add: numeral_3_eq_3)

section \<open>Hexadecimal coding (fr_hex.c)\<close>

definition FR_SHA256_HEX_LEN :: nat where
  "FR_SHA256_HEX_LEN = 64"

definition in_range :: "char \<Rightarrow> char \<Rightarrow> char \<Rightarrow> bool" where
  "in_range lo hi c = ((of_char lo :: nat) \<le> of_char c \<and> (of_char c :: nat) \<le> of_char hi)"

definition hex_digit_value :: "char \<Rightarrow> int" where
  "hex_digit_value c =
     (if in_range CHR ''0'' CHR ''9'' c then of_char c - of_char CHR ''0''
      else if in_range CHR ''a'' CHR ''f'' c then of_char c - of_char CHR ''a'' + 10
      else if in_range CHR ''A'' CHR ''F'' c then of_char c - of_char CHR ''A'' + 10
      else - 1)"

definition is_lower_hex :: "char \<Rightarrow> bool" where
  "is_lower_hex c = (in_range CHR ''0'' CHR ''9'' c \<or> in_range CHR ''a'' CHR ''f'' c)"

definition hex_digits :: string where
  "hex_digits = ''0123456789abcdef''"

fun hex_chars :: "bytes \<Rightarrow> string" where
  "hex_chars [] = []"
| "hex_chars (b # bs) =
     hex_digits ! unat (drop_bit 4 b AND 0x0f) # hex_digits ! unat (b AND 0x0f) # hex_chars bs"

text \<open>
  \<open>fr_hex_encode raw raw_len cap\<close>: \<open>cap = None\<close> is a \<open>NULL\<close> output buffer,
  \<open>Some c\<close> one of capacity \<open>c\<close>. The result is the string written before the
  terminating NUL.
\<close>

definition fr_hex_encode :: "bytes option \<Rightarrow> u64 \<Rightarrow> u64 option \<Rightarrow> fr_status + string" where
  "fr_hex_encode raw raw_len out_cap =
     (case out_cap of
        None \<Rightarrow> Inl FR_E_ARG
      | Some cap \<Rightarrow>
          if raw = None \<and> raw_len \<noteq> 0 then Inl FR_E_ARG
          else let need = raw_len * 2 + 1
               in if cap < need then Inl FR_E_RANGE
                  else Inr (hex_chars (take (unat raw_len) (mem_of raw))))"

fun hex_pairs :: "string \<Rightarrow> bytes option" where
  "hex_pairs (a # b # cs) =
     (let hi = hex_digit_value a; lo = hex_digit_value b
      in if hi < 0 \<or> lo < 0 then None
         else case hex_pairs cs of
                None \<Rightarrow> None
              | Some bs \<Rightarrow> Some (word_of_int (push_bit 4 hi OR lo) # bs))"
| "hex_pairs cs = Some []"

definition fr_hex_decode :: "string option \<Rightarrow> u64 option \<Rightarrow> fr_status + bytes" where
  "fr_hex_decode hex out_cap =
     (case (hex, out_cap) of
        (Some s, Some cap) \<Rightarrow>
          (let h = c_str s; hex_len = length h
           in if hex_len mod 2 \<noteq> 0 then Inl FR_E_ARG
              else if unat cap < hex_len div 2 then Inl FR_E_RANGE
              else case hex_pairs h of None \<Rightarrow> Inl FR_E_ARG | Some bs \<Rightarrow> Inr bs)
      | _ \<Rightarrow> Inl FR_E_ARG)"

definition fr_digest_hex_valid :: "string option \<Rightarrow> bool" where
  "fr_digest_hex_valid s =
     (case s of
        None \<Rightarrow> False
      | Some t \<Rightarrow> length (c_str t) = FR_SHA256_HEX_LEN \<and> list_all is_lower_hex (c_str t))"

lemma length_hex_chars [simp]: "length (hex_chars bs) = 2 * length bs"
  by (induction bs) simp_all


lemma hex_digit_facts:
  "\<forall>k\<in>set [0..<16]. hex_digit_value (hex_digits ! k) = int k \<and> is_lower_hex (hex_digits ! k)"
  by code_simp

lemma hex_digit_nth:
  assumes "k < 16"
  shows "hex_digit_value (hex_digits ! k) = int k" and "is_lower_hex (hex_digits ! k)"
  using hex_digit_facts assms by auto

lemma unat_nibble [simp]: "unat ((b :: u8) AND 0x0f) < 16"
proof -
  have "b AND 0x0f \<le> 0x0f" by (rule word_and_le1)
  then have "unat (b AND 0x0f) \<le> unat (0x0f :: u8)" unfolding word_le_nat_alt .
  then show ?thesis by simp
qed

lemma nibbles_join:
  "(word_of_int (push_bit 4 (uint (drop_bit 4 b AND 0x0f)) OR uint (b AND 0x0f)) :: u8) = b"
proof -
  have m: "(0x0f :: u8) = mask 4" by (simp add: mask_eq_exp_minus_1)
  show ?thesis
    by (rule bit_word_eqI) (auto simp: m bit_simps dest: bit_imp_le_length)
qed

lemma hex_pairs_chars: "hex_pairs (hex_chars bs) = Some bs"
  by (induction bs) (simp_all add: hex_digit_nth nibbles_join)

lemma hex_chars_lower: "list_all is_lower_hex (hex_chars bs)"
  by (induction bs) (simp_all add: hex_digit_nth)

lemma lower_hex_not_nul: "is_lower_hex c \<Longrightarrow> c \<noteq> CHR 0x00"
  by (auto simp: is_lower_hex_def in_range_def)

lemma c_str_hex_chars [simp]: "c_str (hex_chars bs) = hex_chars bs"
  using hex_chars_lower [of bs] lower_hex_not_nul
  by (intro c_str_id) (auto simp: list_all_iff)

lemma digest_hex_valid_chars: "length bs = 32 \<Longrightarrow> fr_digest_hex_valid (Some (hex_chars bs))"
  by (simp add: fr_digest_hex_valid_def FR_SHA256_HEX_LEN_def hex_chars_lower)

text \<open>Encoding bytes as lower-case hexadecimal and decoding the text gives the bytes back,
  whenever the two output buffers are large enough.\<close>

theorem hex_roundtrip:
  assumes "length raw < 2 ^ 62" and "2 * length raw + 1 \<le> unat cap"
    and "length raw \<le> unat out_cap"
  shows "\<exists>h. fr_hex_encode (Some raw) (of_nat (length raw)) (Some cap) = Inr h \<and>
             fr_hex_decode (Some h) (Some out_cap) = Inr raw"
proof -
  have need: "unat (of_nat (length raw) * 2 + 1 :: u64) = 2 * length raw + 1"
    using assms(1) by (simp add: unat_word_ariths unat_of_nat)
  have n: "unat (of_nat (length raw) :: u64) = length raw"
    using assms(1) by (simp add: unat_of_nat)
  have "\<not> cap < of_nat (length raw) * 2 + 1"
    using need assms(2) by (simp add: word_less_nat_alt)
  then show ?thesis
    using assms(3) by (simp add: fr_hex_encode_def fr_hex_decode_def Let_def n hex_pairs_chars)
qed

theorem hex_roundtrip_witness:
  "\<exists>h. fr_hex_encode (Some [0xde, 0xad]) 2 (Some 5) = Inr h \<and>
       fr_hex_decode (Some h) (Some 2) = Inr [0xde, 0xad]"
  using hex_roundtrip [of "[0xde, 0xad]" 5 2] by simp

section \<open>Properties of the arithmetic and of the byte order\<close>

text \<open>The overflow-checked operations are exact: they return the mathematical sum, difference
  or product, and report failure exactly when it does not fit in 64 bits (or is negative); and the
  portable branches of the source agree with the compiler-builtin ones on every input.\<close>

theorem checked_arithmetic_exact:
  "(fr_checked_add_size a b = Some c \<longleftrightarrow> unat c = unat a + unat b) \<and>
   (fr_checked_sub_size a b = Some c \<longleftrightarrow> unat b \<le> unat a \<and> unat c = unat a - unat b) \<and>
   (fr_checked_mul_size a b = Some c \<longleftrightarrow> unat c = unat a * unat b) \<and>
   fr_checked_add_u32_portable x y = fr_checked_add_u32 x y \<and>
   fr_checked_add_u64_portable a b = fr_checked_add_u64 a b \<and>
   fr_checked_mul_u64_portable a b = fr_checked_mul_u64 a b"
  by (simp add: checked_add_size_iff checked_sub_size_iff checked_mul_size_iff
      add_u32_portable add_u64_portable mul_u64_portable)

text \<open>Big-endian stores and loads are inverse to each other in both directions, at all three
  widths.\<close>

theorem byte_order_roundtrip:
  "fr_load_be16 (fr_store_be16 u) = u \<and> fr_load_be32 (fr_store_be32 v) = v \<and>
   fr_load_be64 (fr_store_be64 w) = w \<and>
   fr_store_be16 (fr_load_be16 [a, b]) = [a, b] \<and>
   fr_store_be32 (fr_load_be32 [a, b, c, d]) = [a, b, c, d] \<and>
   fr_store_be64 (fr_load_be64 [a, b, c, d, e, f, g, h]) = [a, b, c, d, e, f, g, h]"
  by (simp only: load_store_be_nil store_load_be16 store_load_be32 store_load_be64 simp_thms)

end
