(* ===== verification/Paths.thy ===== *)
theory Paths
  imports Bytes
begin

text \<open>
  Identifier validation and path mapping, \<^verbatim>\<open>src/core_c/fr_path.c\<close>. A
  \<open>const char *\<close> argument is a \<open>string option\<close>; the functions see its characters up
  to the first NUL (\<open>c_str\<close>). The path check is two loops over the string; the lemmas
  relate them to the list of components between slashes, and \<open>resolve\<close> is the walk a
  file system makes over these components.
\<close>

section \<open>Identifiers\<close>

definition FR_IDENT_COMPONENT_MAX :: nat where "FR_IDENT_COMPONENT_MAX = 64"
definition FR_IDENT_VERSION_MAX :: nat where "FR_IDENT_VERSION_MAX = 96"
definition FR_CHUNK_REL_PATH_LEN :: nat where "FR_CHUNK_REL_PATH_LEN = 66"

definition is_ident_component_char :: "char \<Rightarrow> bool" where
  "is_ident_component_char c =
     (in_range CHR ''a'' CHR ''z'' c \<or> in_range CHR ''A'' CHR ''Z'' c \<or>
      in_range CHR ''0'' CHR ''9'' c \<or> c = CHR ''.'' \<or> c = CHR ''_'' \<or> c = CHR ''-'')"

definition is_version_extra_char :: "char \<Rightarrow> bool" where
  "is_version_extra_char c = (c = CHR ''+'' \<or> c = CHR ''_'')"

definition valid_dot_segment_free :: "string \<Rightarrow> bool" where
  "valid_dot_segment_free s = (s \<noteq> ''.'' \<and> s \<noteq> ''..'')"

definition fr_ident_valid_component :: "string option \<Rightarrow> bool" where
  "fr_ident_valid_component s =
     (case s of
        None \<Rightarrow> False
      | Some t \<Rightarrow>
          let t = c_str t; len = length t
          in \<not> (len < 1 \<or> len > FR_IDENT_COMPONENT_MAX) \<and>
             list_all is_ident_component_char t \<and> valid_dot_segment_free t)"

definition fr_ident_valid_version :: "string option \<Rightarrow> bool" where
  "fr_ident_valid_version s =
     (case s of
        None \<Rightarrow> False
      | Some t \<Rightarrow>
          let t = c_str t; len = length t
          in \<not> (len < 1 \<or> len > FR_IDENT_VERSION_MAX) \<and>
             list_all (\<lambda>c. is_ident_component_char c \<or> is_version_extra_char c) t \<and>
             valid_dot_segment_free t)"

section \<open>Chunk paths\<close>

text \<open>The output capacity is \<open>None\<close> for a \<open>NULL\<close> buffer.\<close>

definition fr_chunk_rel_path :: "string option \<Rightarrow> nat option \<Rightarrow> fr_status + string" where
  "fr_chunk_rel_path hex_digest out =
     (case out of
        None \<Rightarrow> Inl FR_E_ARG
      | Some out_cap \<Rightarrow>
          if \<not> fr_digest_hex_valid hex_digest then Inl FR_E_ARG
          else if out_cap < FR_CHUNK_REL_PATH_LEN then Inl FR_E_RANGE
          else let h = c_str (the hex_digest)
               in Inr ([h ! 0, h ! 1, CHR ''/''] @ take 62 (drop 2 h)))"

section \<open>Relative paths\<close>

definition rel_char_allowed :: "char \<Rightarrow> bool" where
  "rel_char_allowed c =
     (in_range CHR ''a'' CHR ''z'' c \<or> in_range CHR ''A'' CHR ''Z'' c \<or>
      in_range CHR ''0'' CHR ''9'' c \<or> c = CHR ''.'' \<or> c = CHR ''_'' \<or> c = CHR ''-'' \<or> c = CHR ''/'')"

text \<open>The first loop: allowed characters, and no slash at the end or before another one.\<close>

fun rel_chars :: "string \<Rightarrow> fr_status" where
  "rel_chars [] = FR_OK"
| "rel_chars (c # cs) =
     (if \<not> rel_char_allowed c then FR_E_RANGE
      else if c = CHR ''/'' \<and> (cs = [] \<or> hd cs = CHR ''/'') then FR_E_RANGE
      else rel_chars cs)"

text \<open>The second loop, over \<open>i = 0 .. len\<close> with the start of the current component.\<close>

function rel_components :: "string \<Rightarrow> nat \<Rightarrow> nat \<Rightarrow> fr_status" where
  "rel_components rel i start =
     (if i > length rel then FR_OK
      else if i = length rel \<or> rel ! i = CHR ''/'' then
        let comp_len = i - start
        in if comp_len = 1 \<and> rel ! start = CHR ''.'' then FR_E_RANGE
           else if comp_len = 2 \<and> rel ! start = CHR ''.'' \<and> rel ! (start + 1) = CHR ''.''
           then FR_E_RANGE
           else rel_components rel (i + 1) (i + 1)
      else rel_components rel (i + 1) start)"
  by pat_completeness auto

termination rel_components
  by (relation "measure (\<lambda>(rel, i, start). length rel + 1 - i)") auto

declare rel_components.simps [simp del]

definition fr_path_validate_rel :: "string option \<Rightarrow> fr_status" where
  "fr_path_validate_rel rel =
     (case rel of
        None \<Rightarrow> FR_E_ARG
      | Some r \<Rightarrow>
          let r = c_str r
          in if length r = 0 then FR_E_RANGE
             else if r ! 0 = CHR ''/'' \<or> r ! 0 = CHR 0x5C then FR_E_RANGE
             else if rel_chars r \<noteq> FR_OK then FR_E_RANGE
             else rel_components r 0 0)"

definition fr_path_join :: "string option \<Rightarrow> string option \<Rightarrow> u64 option \<Rightarrow> fr_status + string" where
  "fr_path_join root rel out =
     (case (root, rel, out) of
        (Some root, Some rel, Some out_cap) \<Rightarrow>
          if fr_path_validate_rel (Some rel) \<noteq> FR_OK then Inl FR_E_RANGE
          else
            let root = c_str root; rel = c_str rel; root_len = length root
            in if root_len = 0 then Inl FR_E_RANGE
               else
                 let slash = (root ! (root_len - 1) = CHR ''/'');
                     root_is_fs_root = (slash \<and> root_len - 1 = 0);
                     root_len = (if root_is_fs_root then 1
                                 else if slash then root_len - 1 else root_len);
                     total1 = fr_checked_add_size (of_nat root_len) (of_nat (length rel));
                     total2 = (case total1 of None \<Rightarrow> None | Some t \<Rightarrow> fr_checked_add_size t 1)
                 in case total2 of
                      None \<Rightarrow> Inl FR_E_OVERFLOW
                    | Some t \<Rightarrow>
                        (case (if root_is_fs_root then Some t else fr_checked_add_size t 1) of
                           None \<Rightarrow> Inl FR_E_OVERFLOW
                         | Some path_len \<Rightarrow>
                             if out_cap < path_len then Inl FR_E_RANGE
                             else Inr (take root_len root @
                                       (if root_is_fs_root then [] else ''/'') @ rel))
      | _ \<Rightarrow> Inl FR_E_ARG)"

section \<open>Components\<close>

fun components :: "string \<Rightarrow> string list" where
  "components [] = [[]]"
| "components (c # cs) =
     (if c = CHR ''/'' then [] # components cs
      else (c # hd (components cs)) # tl (components cs))"

definition safe_component :: "string \<Rightarrow> bool" where
  "safe_component s = (s \<noteq> [] \<and> list_all is_ident_component_char s \<and> s \<noteq> ''.'' \<and> s \<noteq> ''..'')"

lemma components_nonempty [simp]: "components s \<noteq> []"
  by (cases s) simp_all

lemma components_no_slash: "CHR ''/'' \<notin> set s \<Longrightarrow> components s = [s]"
  by (induction s) auto

lemma components_append_slash: "components (s @ CHR ''/'' # t) = components s @ components t"
  by (induction s) (auto simp: tl_append split: list.split)

lemma components_prefix:
  "CHR ''/'' \<notin> set s \<Longrightarrow> components (s @ t) = (s @ hd (components t)) # tl (components t)"
  by (induction s) auto

lemma rel_char_allowed_iff: "rel_char_allowed c \<longleftrightarrow> is_ident_component_char c \<or> c = CHR ''/''"
  by (auto simp: rel_char_allowed_def is_ident_component_char_def)

lemma slash_not_ident: "\<not> is_ident_component_char CHR ''/''"
  by (simp add: is_ident_component_char_def in_range_def)

text \<open>The first loop accepts exactly when all later components are non-empty words of allowed
  characters; the first one may be empty, which is the check on \<open>rel[0]\<close>.\<close>

lemma rel_chars_status: "rel_chars s \<in> {FR_OK, FR_E_RANGE}"
  by (induction s) auto

lemma rel_chars_iff:
  "rel_chars s = FR_OK \<longleftrightarrow>
     list_all (list_all is_ident_component_char) (components s) \<and> [] \<notin> set (tl (components s))"
proof (induction s)
  case (Cons c cs)
  have hd: "hd (components cs) = [] \<longleftrightarrow> cs = [] \<or> hd cs = CHR ''/''"
    by (cases cs) auto
  have "components cs = hd (components cs) # tl (components cs)" by simp
  then have split: "P (components cs) = P (hd (components cs) # tl (components cs))" for P :: "_ \<Rightarrow> bool"
    by simp
  show ?case
    using Cons hd slash_not_ident
    by (cases "components cs") (auto simp: rel_char_allowed_iff)
qed simp

text \<open>The second loop looks for a component \<open>.\<close> or \<open>..\<close>.\<close>

definition dotted :: "string \<Rightarrow> bool" where
  "dotted s = (s = ''.'' \<or> s = ''..'')"

lemma dotted_check:
  assumes "start \<le> i" and "i \<le> length rel"
  shows "(i - start = 1 \<and> rel ! start = CHR ''.'' \<or>
          i - start = 2 \<and> rel ! start = CHR ''.'' \<and> rel ! (start + 1) = CHR ''.'') \<longleftrightarrow>
         dotted (take (i - start) (drop start rel))"
proof -
  let ?c = "take (i - start) (drop start rel)"
  have l: "length ?c = i - start" using assms by simp
  consider (one) "i - start = 1" | (two) "i - start = 2" | (other) "i - start \<noteq> 1" "i - start \<noteq> 2"
    by blast
  then show ?thesis
  proof cases
    case one
    then have "take (i - start) (drop start rel) = [rel ! start]"
      using assms by (simp add: take_Suc_conv_app_nth)
    with one show ?thesis by (simp add: dotted_def)
  next
    case two
    then have "take (i - start) (drop start rel) = [rel ! start, rel ! (start + 1)]"
      using assms by (simp add: numeral_2_eq_2 take_Suc_conv_app_nth)
    with two show ?thesis by (simp add: dotted_def)
  next
    case other
    then have "\<not> dotted ?c" using l by (auto simp: dotted_def simp del: length_take length_drop)
    with other show ?thesis by simp
  qed
qed

lemma rel_components_iff:
  assumes "start \<le> i" and "i \<le> length rel" and "CHR ''/'' \<notin> set (take (i - start) (drop start rel))"
  shows "rel_components rel i start = FR_OK \<longleftrightarrow> \<not> list_ex dotted (components (drop start rel))"
  using assms
proof (induction rel i start rule: rel_components.induct)
  case (1 rel i start)
  let ?c = "take (i - start) (drop start rel)"
  note chk = dotted_check [OF "1.prems"(1,2)]
  have step: "rel_components rel i start =
      (if i = length rel \<or> rel ! i = CHR ''/''
       then if dotted ?c then FR_E_RANGE else rel_components rel (i + 1) (i + 1)
       else rel_components rel (i + 1) start)"
    using "1.prems"(2) chk by (subst rel_components.simps) (auto simp: Let_def)
  consider (last) "i = length rel" | (slash) "i < length rel" "rel ! i = CHR ''/''"
    | (char) "i < length rel" "rel ! i \<noteq> CHR ''/''"
    using "1.prems"(2) by linarith
  then show ?case
  proof cases
    case last
    then have "components (drop start rel) = [?c]" using "1.prems" by (simp add: components_no_slash)
    moreover have "rel_components rel (i + 1) (i + 1) = FR_OK"
      using last by (subst rel_components.simps) simp
    ultimately show ?thesis using step last by simp
  next
    case slash
    have "drop start rel = ?c @ drop (i - start) (drop start rel)"
      by (simp only: append_take_drop_id)
    also have "drop (i - start) (drop start rel) = CHR ''/'' # drop (i + 1) rel"
      using Cons_nth_drop_Suc [OF slash(1)] slash(2) "1.prems"(1) by simp
    finally have "components (drop start rel) = components ?c @ components (drop (i + 1) rel)"
      by (metis components_append_slash)
    then have comps: "components (drop start rel) = ?c # components (drop (i + 1) rel)"
      using "1.prems"(3) by (simp add: components_no_slash)
    have "rel_components rel (i + 1) (i + 1) = FR_OK \<longleftrightarrow>
        \<not> list_ex dotted (components (drop (i + 1) rel))" if "\<not> dotted ?c"
      using "1.IH"(1) slash "1.prems" that chk by auto
    then show ?thesis using step slash comps by simp
  next
    case char
    have "take (i + 1 - start) (drop start rel) = ?c @ [rel ! i]"
      using char "1.prems"(1) by (simp add: Suc_diff_le take_Suc_conv_app_nth)
    then have "rel_components rel (i + 1) start = FR_OK \<longleftrightarrow> \<not> list_ex dotted (components (drop start rel))"
      using "1.IH"(2) char "1.prems" by auto
    then show ?thesis using step char by simp
  qed
qed

lemma rel_components_status: "rel_components rel i start \<in> {FR_OK, FR_E_RANGE}"
proof (induction rel i start rule: rel_components.induct)
  case (1 rel i start)
  then show ?case by (subst rel_components.simps) (auto simp: Let_def)
qed

lemma validate_rel_iff:
  "fr_path_validate_rel (Some r) = FR_OK \<longleftrightarrow> list_all safe_component (components (c_str r))"
proof (cases "c_str r = []")
  case True
  then show ?thesis by (simp add: fr_path_validate_rel_def safe_component_def)
next
  case False
  let ?s = "c_str r"
  have dots: "rel_components ?s 0 0 = FR_OK \<longleftrightarrow> \<not> list_ex dotted (components ?s)"
    by (rule rel_components_iff [of 0 0, simplified])
  have first: "hd (components ?s) = [] \<longleftrightarrow> ?s ! 0 = CHR ''/''"
    using False by (cases ?s) auto
  have mem: "[] \<in> set (components ?s) \<longleftrightarrow> hd (components ?s) = [] \<or> [] \<in> set (tl (components ?s))"
    by (cases "components ?s") auto
  have backslash: "?s ! 0 = CHR 0x5C \<Longrightarrow> \<not> list_all (list_all is_ident_component_char) (components ?s)"
    using False by (cases ?s) (auto simp: is_ident_component_char_def in_range_def)
  have "list_all safe_component (components ?s) \<longleftrightarrow>
      [] \<notin> set (components ?s) \<and> list_all (list_all is_ident_component_char) (components ?s) \<and>
      \<not> list_ex dotted (components ?s)"
    by (auto simp: safe_component_def list_all_iff list_ex_iff dotted_def)
  then show ?thesis
    using False dots first mem backslash rel_chars_iff [of ?s]
    by (auto simp: fr_path_validate_rel_def Let_def)
qed

section \<open>Joining with a root directory\<close>

text \<open>
  The walk of a path: \<open>.\<close> and empty components stay, \<open>..\<close> goes up, any other
  component goes down. The result is the stack of directories, innermost first.
\<close>

fun walk :: "string list \<Rightarrow> string list \<Rightarrow> string list" where
  "walk [] stack = stack"
| "walk (c # cs) stack =
     (if c = [] \<or> c = ''.'' then walk cs stack
      else if c = ''..'' then walk cs (tl stack)
      else walk cs (c # stack))"

definition resolve :: "string \<Rightarrow> string list" where
  "resolve path = walk (components path) []"

lemma walk_append: "walk (xs @ ys) stack = walk ys (walk xs stack)"
  by (induction xs arbitrary: stack) auto

lemma walk_safe: "list_all safe_component cs \<Longrightarrow> walk cs stack = rev cs @ stack"
  by (induction cs arbitrary: stack) (auto simp: safe_component_def)

text \<open>A path whose trailing slash is dropped resolves to the same directory.\<close>

lemma resolve_trailing_slash: "resolve (s @ ''/'') = resolve s"
  using components_append_slash [of s "[]"] by (simp add: resolve_def walk_append)

lemma resolve_append_slash: "resolve (s @ CHR ''/'' # t) = walk (components t) (resolve s)"
  by (simp add: resolve_def components_append_slash walk_append)

lemma path_join_cases:
  assumes "fr_path_join (Some root) (Some rel) out = Inr path"
  shows "fr_path_validate_rel (Some rel) = FR_OK" and "c_str root \<noteq> []"
    and "path = (if last (c_str root) = CHR ''/'' then c_str root @ c_str rel
                 else c_str root @ ''/'' @ c_str rel)"
proof -
  let ?r = "c_str root"
  show v: "fr_path_validate_rel (Some rel) = FR_OK" and ne: "?r \<noteq> []"
    using assms by (auto simp: fr_path_join_def Let_def split: option.splits if_splits)
  have last: "?r ! (length ?r - 1) = last ?r" using ne by (simp add: last_conv_nth)
  have but: "take (length ?r - 1) ?r @ [last ?r] = ?r"
    using append_butlast_last_id [OF ne] by (simp only: butlast_conv_take)
  have one: "length ?r - 1 = 0 \<Longrightarrow> take 1 ?r = ?r" using ne by (cases ?r) auto
  show "path = (if last ?r = CHR ''/'' then ?r @ c_str rel else ?r @ ''/'' @ c_str rel)"
  proof (cases "last ?r = CHR ''/''")
    case True
    then have t: "take (length ?r - 1) ?r @ ''/'' = ?r" using but by simp
    then have "take (length ?r - 1) ?r @ CHR ''/'' # c_str rel = ?r @ c_str rel"
      by (metis append.assoc append_Cons append_Nil)
    with True show ?thesis
      using assms v ne last one
      by (auto simp: fr_path_join_def Let_def split: option.splits if_splits)
  next
    case False
    then show ?thesis
      using assms v ne last
      by (auto simp: fr_path_join_def Let_def split: option.splits if_splits)
  qed
qed

lemma chunk_rel_path_value:
  assumes "fr_digest_hex_valid (Some h)" and "FR_CHUNK_REL_PATH_LEN \<le> cap"
  shows "fr_chunk_rel_path (Some h) (Some cap) =
         Inr (take 2 (c_str h) @ ''/'' @ drop 2 (c_str h))"
proof -
  have l: "length (c_str h) = 64"
    using assms(1) by (simp add: fr_digest_hex_valid_def FR_SHA256_HEX_LEN_def)
  then obtain a b t where "c_str h = a # b # t" "length t = 62"
    by (auto simp: length_Suc_conv numeral_eq_Suc)
  then show ?thesis using assms by (simp add: fr_chunk_rel_path_def Let_def)
qed

lemma lower_hex_ident: "is_lower_hex c \<Longrightarrow> is_ident_component_char c"
  by (auto simp: is_lower_hex_def is_ident_component_char_def in_range_def)

lemma chunk_path_components:
  assumes "fr_digest_hex_valid (Some h)"
  shows "components (take 2 (c_str h) @ ''/'' @ drop 2 (c_str h)) = [take 2 (c_str h), drop 2 (c_str h)]"
    and "list_all safe_component [take 2 (c_str h), drop 2 (c_str h)]"
    and "c_str (take 2 (c_str h) @ ''/'' @ drop 2 (c_str h)) = take 2 (c_str h) @ ''/'' @ drop 2 (c_str h)"
proof -
  have l: "length (c_str h) = 64" and all: "list_all is_lower_hex (c_str h)"
    using assms by (simp_all add: fr_digest_hex_valid_def FR_SHA256_HEX_LEN_def)
  have sub: "c \<in> set (take 2 (c_str h)) \<or> c \<in> set (drop 2 (c_str h)) \<Longrightarrow> is_lower_hex c" for c
    using all by (auto simp: list_all_iff dest: in_set_takeD in_set_dropD)
  have ns: "CHR ''/'' \<notin> set (take 2 (c_str h))" "CHR ''/'' \<notin> set (drop 2 (c_str h))"
    using sub slash_not_ident lower_hex_ident by blast+
  then show "components (take 2 (c_str h) @ ''/'' @ drop 2 (c_str h)) =
      [take 2 (c_str h), drop 2 (c_str h)]"
    using components_append_slash [of "take 2 (c_str h)" "drop 2 (c_str h)"]
    by (simp add: components_no_slash)
  have dot: "\<not> is_lower_hex CHR ''.''" by (simp add: is_lower_hex_def in_range_def)
  have "take 2 (c_str h) \<noteq> []" "drop 2 (c_str h) \<noteq> []" using l by auto
  moreover have "s \<noteq> ''.'' \<and> s \<noteq> ''..''" if "s = take 2 (c_str h) \<or> s = drop 2 (c_str h)" for s
    using that dot sub by (metis list.set_intros(1))
  ultimately show "list_all safe_component [take 2 (c_str h), drop 2 (c_str h)]"
    using sub lower_hex_ident by (auto simp: safe_component_def list_all_iff)
  show "c_str (take 2 (c_str h) @ ''/'' @ drop 2 (c_str h)) = take 2 (c_str h) @ ''/'' @ drop 2 (c_str h)"
    using sub lower_hex_not_nul by (intro c_str_id) auto
qed

section \<open>Properties\<close>

text \<open>C28: \<open>fr_path_validate_rel\<close> accepts exactly the relative paths all of whose
  components are non-empty words of identifier characters other than \<open>.\<close> and
  \<open>..\<close>; in particular no absolute path, no backslash and no traversal.\<close>

theorem path_validate_exact:
  "fr_path_validate_rel (Some r) = FR_OK \<longleftrightarrow> list_all safe_component (components (c_str r))"
  by (rule validate_rel_iff)

text \<open>A joined path stays below its root: walking it ends in the directory the root resolves
  to, extended by exactly the components of the relative path.\<close>

theorem path_join_confined:
  assumes "fr_path_join (Some root) (Some rel) out = Inr path"
  shows "resolve path = rev (components (c_str rel)) @ resolve (c_str root) \<and>
         list_all safe_component (components (c_str rel))"
proof -
  note j = path_join_cases [OF assms]
  have safe: "list_all safe_component (components (c_str rel))" using j(1) validate_rel_iff by simp
  show ?thesis
  proof (cases "last (c_str root) = CHR ''/''")
    case True
    then have r: "c_str root = butlast (c_str root) @ ''/''"
      using append_butlast_last_id [OF j(2)] by simp
    then have "path = butlast (c_str root) @ CHR ''/'' # c_str rel"
      using j(3) True by (metis append.assoc append_Cons append_Nil)
    moreover have "resolve (c_str root) = resolve (butlast (c_str root))"
      using r resolve_trailing_slash by metis
    ultimately show ?thesis using safe by (simp add: resolve_append_slash walk_safe)
  next
    case False
    then show ?thesis using j(3) safe by (simp add: resolve_append_slash walk_safe)
  qed
qed

theorem path_join_confined_witness:
  "resolve ''/srv/data/chunks/ab'' = [''ab'', ''chunks'', ''data'', ''srv'']"
proof -
  have "fr_path_join (Some ''/srv/data/'') (Some ''chunks/ab'') (Some 100) =
      Inr ''/srv/data/chunks/ab''"
    by (simp add: fr_path_join_def fr_path_validate_rel_def c_str_def rel_char_allowed_def
        in_range_def rel_components.simps fr_checked_add_size_def fr_checked_add_u64_def
        builtin_add_overflow_def fr_size_from_u64_def SIZE_MAX_def)
  from path_join_confined [OF this] show ?thesis
    by (simp add: c_str_def resolve_def)
qed

text \<open>The path of a chunk is determined by its digest and determines it, is accepted by
  \<open>fr_path_validate_rel\<close>, and has exactly the two components digest prefix and rest.\<close>

theorem chunk_rel_path_ok:
  assumes "fr_digest_hex_valid (Some h)" and "FR_CHUNK_REL_PATH_LEN \<le> cap"
  shows "\<exists>p. fr_chunk_rel_path (Some h) (Some cap) = Inr p \<and> length p + 1 = FR_CHUNK_REL_PATH_LEN \<and>
     fr_path_validate_rel (Some p) = FR_OK \<and> concat (components p) = c_str h \<and>
     (\<forall>h'. fr_chunk_rel_path (Some h') (Some cap) = Inr p \<longrightarrow> c_str h' = c_str h)"
proof -
  let ?p = "take 2 (c_str h) @ ''/'' @ drop 2 (c_str h)"
  note cp = chunk_path_components [OF assms(1)]
  have l: "length (c_str h) = 64"
    using assms(1) by (simp add: fr_digest_hex_valid_def FR_SHA256_HEX_LEN_def)
  have "c_str h' = c_str h" if h': "fr_chunk_rel_path (Some h') (Some cap) = Inr ?p" for h'
  proof -
    have v: "fr_digest_hex_valid (Some h')"
      using h' by (auto simp: fr_chunk_rel_path_def split: if_splits)
    then have "take 2 (c_str h') @ ''/'' @ drop 2 (c_str h') = ?p"
      using h' chunk_rel_path_value [OF v assms(2)] by simp
    then have "concat (components (take 2 (c_str h') @ ''/'' @ drop 2 (c_str h'))) = concat (components ?p)"
      by simp
    then show ?thesis
      unfolding cp(1) chunk_path_components(1) [OF v] by simp
  qed
  moreover have "concat (components ?p) = c_str h" unfolding cp(1) by simp
  moreover have "fr_path_validate_rel (Some ?p) = FR_OK" using cp validate_rel_iff by simp
  moreover have "length ?p + 1 = FR_CHUNK_REL_PATH_LEN" using l by (simp add: FR_CHUNK_REL_PATH_LEN_def)
  ultimately show ?thesis using chunk_rel_path_value [OF assms] by blast
qed

theorem chunk_rel_path_ok_witness:
  "\<exists>p. fr_chunk_rel_path (Some (replicate 64 CHR ''a'')) (Some 66) = Inr p \<and>
     fr_path_validate_rel (Some p) = FR_OK"
proof -
  have "c_str (replicate 64 CHR ''a'') = replicate 64 CHR ''a''" by (intro c_str_id) simp
  then have "fr_digest_hex_valid (Some (replicate 64 CHR ''a''))"
    by (simp add: fr_digest_hex_valid_def FR_SHA256_HEX_LEN_def list_all_iff is_lower_hex_def in_range_def)
  from chunk_rel_path_ok [OF this, of 66] show ?thesis
    by (auto simp: FR_CHUNK_REL_PATH_LEN_def)
qed

end
