(* ===== verification/ChunkStore.thy ===== *)
theory ChunkStore
  imports Paths "HOL-Library.AList"
begin

text \<open>
  The content-addressed chunk store, \<^verbatim>\<open>src/storage/fr_chunk_store.cpp\<close>, with the digest
  conversions of \<^verbatim>\<open>src/storage/fr_digest_common.cpp\<close>. The file system below the storage
  root is two directories, \<open>chunks\<close> (keyed by relative path) and \<open>tmp\<close>. SHA-256 is the
  parameter \<open>sha\<close>. The outcome of every system call is the parameter \<open>io\<close>: a call
  succeeds when it answers \<open>FR_OK\<close>. Writing a chunk file yields the history of all states
  the file system goes through, which is what a crash can leave behind.

  As in the source, the result of the reservation in \<open>get_range\<close> is not looked at; the
  model reads into a buffer that is large enough.
\<close>

section \<open>Digests\<close>

definition kSha256Len :: nat where "kSha256Len = 32"

definition sha256_to_hex :: "bytes \<Rightarrow> string" where
  "sha256_to_hex digest =
     (case fr_hex_encode (Some digest) (of_nat kSha256Len) (Some (of_nat (kSha256Len * 2 + 1))) of
        Inl st \<Rightarrow> replicate (kSha256Len * 2) CHR 0x00
      | Inr hex \<Rightarrow> hex)"

definition sha256_from_hex :: "string \<Rightarrow> bytes result" where
  "sha256_from_hex hex =
     (if \<not> fr_digest_hex_valid (Some hex)
      then throw_error FR_E_ARG ''digest hex is not 64 lowercase hex chars''
      else case fr_hex_decode (Some hex) (Some (of_nat kSha256Len)) of
             Inl st \<Rightarrow> Inr (replicate kSha256Len 0)
           | Inr out \<Rightarrow> Inr out)"

lemma sha256_to_hex_value: "length d = 32 \<Longrightarrow> sha256_to_hex d = hex_chars d"
  by (simp add: sha256_to_hex_def fr_hex_encode_def kSha256Len_def Let_def)

lemma sha256_hex_valid: "length d = 32 \<Longrightarrow> fr_digest_hex_valid (Some (sha256_to_hex d))"
  by (simp add: sha256_to_hex_value digest_hex_valid_chars)

section \<open>The file system\<close>

record fs =
  chunk_files :: "(string \<times> bytes) list"
  tmp_files :: "(string \<times> bytes) list"

datatype io_op =
    TmpCreate | WriteHeader | WriteData | Fsync | CloseTmp | MkdirFanout | Rename
  | UnlinkTmp string | Exists | OpenRead | ReadHeader | Seek | ReadData | CloseRead
  | Stat | UnlinkChunk

text \<open>The environment: what the system calls answer, the name \<open>fr_tmpfile_create\<close> picks, how
  much a failed write has written, and the detail text of an error.\<close>

record io_env =
  io :: "io_op \<Rightarrow> fr_status"
  tmp_name :: string
  partial :: nat
  io_detail :: string

section \<open>The chunk file format\<close>

definition kChunkHeaderSize :: nat where "kChunkHeaderSize = 32"
definition kChunkFormatVersion :: u8 where "kChunkFormatVersion = 1"

definition store_header :: "nat \<Rightarrow> u32 \<Rightarrow> bytes" where
  "store_header raw_len crc =
     bytes_of ''FRCH'' @ [kChunkFormatVersion, 0] @ fr_store_be64 (of_nat raw_len) @
     fr_store_be64 (of_nat raw_len) @ fr_store_be32 crc @ fr_store_be32 0 @ [0, 0]"

record ChunkMeta =
  meta_raw_len :: u64
  meta_stored_len :: u64
  meta_crc :: u32

definition parse_header :: "bytes \<Rightarrow> ChunkMeta result" where
  "parse_header header =
     (if take 4 header \<noteq> bytes_of ''FRCH'' then throw_error FR_E_IO ''chunk file magic mismatch''
      else if header ! 4 \<noteq> kChunkFormatVersion
      then throw_error FR_E_IO ''chunk file version mismatch''
      else if header ! 5 \<noteq> 0 then throw_error FR_E_IO ''chunk file reserved byte nonzero''
      else
        let meta = \<lparr>meta_raw_len = fr_load_be64 (drop 6 header),
                    meta_stored_len = fr_load_be64 (drop 14 header),
                    meta_crc = fr_load_be32 (drop 22 header)\<rparr>
        in if fr_load_be32 (drop 26 header) \<noteq> 0
           then throw_error FR_E_IO ''chunk file reserved field nonzero''
           else if meta_raw_len meta \<noteq> meta_stored_len meta
           then throw_error FR_E_IO ''chunk stored length mismatch (compression unsupported)''
           else Inr meta)"

section \<open>Operations\<close>

definition relative_path :: "string \<Rightarrow> string result" where
  "relative_path digest_hex =
     (case fr_chunk_rel_path (Some digest_hex) (Some FR_CHUNK_REL_PATH_LEN) of
        Inl st \<Rightarrow> throw_error FR_E_ARG ''invalid digest for chunk path''
      | Inr rel \<Rightarrow> Inr rel)"

definition unlink_tmp :: "io_env \<Rightarrow> string \<Rightarrow> fs \<Rightarrow> fs" where
  "unlink_tmp env name fs =
     (if io env (UnlinkTmp name) = FR_OK then fs\<lparr>tmp_files := AList.delete name (tmp_files fs)\<rparr>
      else fs)"

text \<open>
  \<open>write_chunk_file\<close>: the result and all states of the file system, the first one first.
  \<open>fail\<close> is the lambda of that name (close, unlink, throw).
\<close>

definition write_chunk_file ::
  "io_env \<Rightarrow> string \<Rightarrow> bytes \<Rightarrow> fs \<Rightarrow> unit result \<times> fs list" where
  "write_chunk_file env target data fs =
     (if io env TmpCreate \<noteq> FR_OK
      then (throw_error (io env TmpCreate) (''create temp chunk: '' @ io_detail env), [fs])
      else
        let name = tmp_name env;
            write = (\<lambda>bs fs. fs\<lparr>tmp_files := AList.update name bs (tmp_files fs)\<rparr>);
            hdr = store_header (length data) (fr_crc32 (Some data) (length data));
            fs1 = write [] fs;
            fail = (\<lambda>states code reason.
              (throw_error code (reason @ io_detail env),
               states @ [unlink_tmp env name (last states)]))
        in if io env WriteHeader \<noteq> FR_OK
           then fail [fs, fs1, write (take (partial env) hdr) fs1] (io env WriteHeader)
                  ''write chunk header: ''
           else
             let fs2 = write hdr fs1
             in if data \<noteq> [] \<and> io env WriteData \<noteq> FR_OK
                then fail [fs, fs1, fs2, write (hdr @ take (partial env) data) fs2]
                       (io env WriteData) ''write chunk data: ''
                else
                  let fs3 = write (hdr @ data) fs2; states = [fs, fs1, fs2, fs3]
                  in if io env Fsync \<noteq> FR_OK then fail states (io env Fsync) ''fsync chunk: ''
                     else if io env CloseTmp \<noteq> FR_OK
                     then fail states (io env CloseTmp) ''close chunk: ''
                     else if io env MkdirFanout \<noteq> FR_OK
                     then fail states (io env MkdirFanout) ''create chunk fan-out dir: ''
                     else if map_of (chunk_files fs3) target \<noteq> None
                     then (Inr (), states @ [unlink_tmp env name fs3])
                     else if io env Rename \<noteq> FR_OK
                     then fail states (io env Rename) ''rename chunk into place: ''
                     else (Inr (), states @
                             [fs3\<lparr>chunk_files := AList.update target (hdr @ data) (chunk_files fs3),
                                  tmp_files := AList.delete name (tmp_files fs3)\<rparr>]))"

definition chunk_store_put ::
  "(bytes \<Rightarrow> bytes) \<Rightarrow> io_env \<Rightarrow> bytes option \<Rightarrow> nat \<Rightarrow> string \<Rightarrow> fs \<Rightarrow> string result \<times> fs" where
  "chunk_store_put sha env data len digest_hex fs =
     (if data = None \<and> len \<noteq> 0
      then (throw_error FR_E_ARG ''chunk put: null buffer with length'', fs)
      else if \<not> fr_digest_hex_valid (Some digest_hex)
      then (throw_error FR_E_ARG ''chunk put: invalid digest'', fs)
      else
        let content = take len (mem_of data); actual = sha content
        in if sha256_to_hex actual \<noteq> digest_hex
           then (throw_error FR_E_CONFLICT ''chunk put: digest does not match content'', fs)
           else case relative_path digest_hex of
                  Inl e \<Rightarrow> (Inl e, fs)
                | Inr target \<Rightarrow>
                    if map_of (chunk_files fs) target \<noteq> None then (Inr digest_hex, fs)
                    else case write_chunk_file env target content fs of
                           (Inl e, states) \<Rightarrow> (Inl e, last states)
                         | (Inr u, states) \<Rightarrow> (Inr digest_hex, last states))"

text \<open>\<open>get_range\<close>: the bytes appended to the output buffer.\<close>

definition chunk_store_get_range ::
  "io_env \<Rightarrow> fs \<Rightarrow> string \<Rightarrow> u64 \<Rightarrow> u64 \<Rightarrow> bytes result" where
  "chunk_store_get_range env fs digest_hex offset len =
     (if \<not> fr_digest_hex_valid (Some digest_hex)
      then throw_error FR_E_ARG ''chunk get: bad arguments''
      else rbind (relative_path digest_hex) (\<lambda>path.
        let file = map_of (chunk_files fs) path;
            st = (if file = None then FR_E_NOTFOUND else io env OpenRead)
        in if st = FR_E_NOTFOUND then throw_error FR_E_NOTFOUND ''chunk file missing''
           else if st \<noteq> FR_OK then throw_error st (''open chunk: '' @ io_detail env)
           else
             let body = mem_of file;
                 st = (if io env ReadHeader \<noteq> FR_OK then io env ReadHeader
                       else if length body < kChunkHeaderSize then FR_E_EOF else FR_OK)
             in if st \<noteq> FR_OK
                then throw_error (if st = FR_E_EOF then FR_E_IO else st)
                       (''read chunk header: '' @ io_detail env)
                else rbind (parse_header (take kChunkHeaderSize body)) (\<lambda>meta.
                  if offset > meta_raw_len meta
                  then throw_error FR_E_RANGE ''chunk range out of bounds''
                  else
                    let available = meta_raw_len meta - offset;
                        remaining = (if len > available then available else len)
                    in if io env Seek \<noteq> FR_OK
                       then throw_error (io env Seek) (''seek chunk: '' @ io_detail env)
                       else
                         let rest = drop (unat offset + kChunkHeaderSize) body;
                             st = (if remaining = 0 then FR_OK
                                   else if io env ReadData \<noteq> FR_OK then io env ReadData
                                   else if length rest < unat remaining then FR_E_EOF else FR_OK);
                             out = take (unat remaining) rest
                         in if st \<noteq> FR_OK
                            then throw_error st (''read chunk data: '' @ io_detail env)
                            else if io env CloseRead \<noteq> FR_OK
                            then throw_error (io env CloseRead) (''close chunk: '' @ io_detail env)
                            else if offset = 0 \<and> of_nat (length out) = meta_raw_len meta \<and>
                                    fr_crc32 (Some out) (length out) \<noteq> meta_crc meta
                            then throw_error FR_E_IO ''chunk crc mismatch (corrupted chunk file)''
                            else Inr out)))"

definition chunk_store_get :: "io_env \<Rightarrow> fs \<Rightarrow> string \<Rightarrow> bytes result" where
  "chunk_store_get env fs digest_hex = chunk_store_get_range env fs digest_hex 0 SIZE_MAX"

definition chunk_store_raw_size :: "io_env \<Rightarrow> fs \<Rightarrow> string \<Rightarrow> u64 result" where
  "chunk_store_raw_size env fs digest_hex =
     rbind (relative_path digest_hex) (\<lambda>path.
       case map_of (chunk_files fs) path of
         None \<Rightarrow> throw_error FR_E_IO (''stat chunk: '' @ io_detail env)
       | Some body \<Rightarrow>
           if io env Stat \<noteq> FR_OK then throw_error FR_E_IO (''stat chunk: '' @ io_detail env)
           else if length body < kChunkHeaderSize
           then throw_error FR_E_IO ''chunk file truncated header''
           else Inr (of_nat (length body - kChunkHeaderSize)))"

definition chunk_store_exists :: "io_env \<Rightarrow> fs \<Rightarrow> string \<Rightarrow> bool result" where
  "chunk_store_exists env fs digest_hex =
     (if \<not> fr_digest_hex_valid (Some digest_hex) then Inr False
      else rbind (relative_path digest_hex) (\<lambda>path.
        if io env Exists \<noteq> FR_OK then Inr False
        else Inr (map_of (chunk_files fs) path \<noteq> None)))"

definition chunk_store_remove :: "io_env \<Rightarrow> string \<Rightarrow> fs \<Rightarrow> unit result \<times> fs" where
  "chunk_store_remove env digest_hex fs =
     (case relative_path digest_hex of
        Inl e \<Rightarrow> (Inl e, fs)
      | Inr path \<Rightarrow>
          let st = (if map_of (chunk_files fs) path = None then FR_E_NOTFOUND
                    else io env UnlinkChunk);
              fs' = (if st = FR_OK
                     then fs\<lparr>chunk_files := AList.delete path (chunk_files fs)\<rparr> else fs)
          in if st = FR_E_NOTFOUND then (Inr (), fs')
             else if st \<noteq> FR_OK then (throw_error st (''remove chunk: '' @ io_detail env), fs')
             else (Inr (), fs'))"

text \<open>The loop over the directory entries; \<open>name.rfind("frtmp-", 0) == 0\<close> is the prefix test.\<close>

fun cleanup_entries :: "io_env \<Rightarrow> string list \<Rightarrow> fs \<Rightarrow> int \<times> fs" where
  "cleanup_entries env [] fs = (0, fs)"
| "cleanup_entries env (name # names) fs =
     (if take 6 name = ''frtmp-'' \<and> io env (UnlinkTmp name) = FR_OK
      then case cleanup_entries env names (unlink_tmp env name fs) of (n, fs') \<Rightarrow> (n + 1, fs')
      else cleanup_entries env names fs)"

definition cleanup_temp_files :: "io_env \<Rightarrow> fs \<Rightarrow> int \<times> fs" where
  "cleanup_temp_files env fs = cleanup_entries env (map fst (tmp_files fs)) fs"

definition stored_bytes :: "fs \<Rightarrow> u64" where
  "stored_bytes fs = sum_list (map (\<lambda>(path, body). of_nat (length body)) (chunk_files fs))"

section \<open>Well-formed stores\<close>

definition chunk_file :: "bytes \<Rightarrow> bytes" where
  "chunk_file data = store_header (length data) (fr_crc32 (Some data) (length data)) @ data"

definition chunk_path_of :: "string \<Rightarrow> string" where
  "chunk_path_of d = take 2 d @ ''/'' @ drop 2 d"

text \<open>The content stored under a digest.\<close>

definition content :: "fs \<Rightarrow> string \<Rightarrow> bytes option" where
  "content fs d = map_option (drop kChunkHeaderSize) (map_of (chunk_files fs) (chunk_path_of d))"

text \<open>Every file of \<open>chunks\<close> is a complete chunk file and stands at the path of its digest.\<close>

definition fs_ok :: "(bytes \<Rightarrow> bytes) \<Rightarrow> fs \<Rightarrow> bool" where
  "fs_ok sha fs =
     (distinct (map fst (chunk_files fs)) \<and>
      (\<forall>(path, body)\<in>set (chunk_files fs). \<exists>data. body = chunk_file data \<and> length data < 2 ^ 63 \<and>
         path = chunk_path_of (sha256_to_hex (sha data))))"

definition sha_ok :: "(bytes \<Rightarrow> bytes) \<Rightarrow> bool" where
  "sha_ok sha = (\<forall>bs. length (sha bs) = 32)"

definition reads_ok :: "io_env \<Rightarrow> bool" where
  "reads_ok env = (\<forall>op\<in>{OpenRead, ReadHeader, Seek, ReadData, CloseRead}. io env op = FR_OK)"

lemma length_store_header [simp]: "length (store_header n crc) = 32"
  by (simp add: store_header_def)

lemma parse_store_header:
  "parse_header (store_header n crc) =
   Inr \<lparr>meta_raw_len = of_nat n, meta_stored_len = of_nat n, meta_crc = crc\<rparr>"
proof -
  have "bytes_of ''FRCH'' = [0x46, 0x52, 0x43, 0x48]" by code_simp
  then show ?thesis
    by (simp add: parse_header_def store_header_def Let_def)
qed

lemma valid_c_str: "fr_digest_hex_valid (Some d) \<Longrightarrow> length (c_str d) = 64"
  by (simp add: fr_digest_hex_valid_def FR_SHA256_HEX_LEN_def)

lemma relative_path_value:
  "fr_digest_hex_valid (Some d) \<Longrightarrow> relative_path d = Inr (chunk_path_of (c_str d))"
  by (simp add: relative_path_def chunk_rel_path_value chunk_path_of_def)

lemma chunk_path_inj:
  assumes "2 \<le> length d" and "2 \<le> length d'" and "chunk_path_of d = chunk_path_of d'"
  shows "d = d'"
proof -
  have "take 2 (chunk_path_of d) @ drop 3 (chunk_path_of d) = d" if "2 \<le> length d" for d
    using that by (simp add: chunk_path_of_def min_absorb2)
  then show ?thesis using assms by metis
qed

lemma sha_hex:
  assumes "sha_ok sha"
  shows "fr_digest_hex_valid (Some (sha256_to_hex (sha bs)))"
    and "c_str (sha256_to_hex (sha bs)) = sha256_to_hex (sha bs)"
    and "length (sha256_to_hex (sha bs)) = 64"
  using assms by (simp_all add: sha_ok_def sha256_to_hex_value digest_hex_valid_chars)

lemma fs_ok_content:
  assumes "sha_ok sha" and "fs_ok sha fs" and "content fs d = Some data" and "2 \<le> length d"
  shows "map_of (chunk_files fs) (chunk_path_of d) = Some (chunk_file data)"
    and "sha256_to_hex (sha data) = d" and "length data < 2 ^ 63"
proof -
  obtain body where b: "map_of (chunk_files fs) (chunk_path_of d) = Some body"
    and data: "data = drop kChunkHeaderSize body"
    using assms(3) by (auto simp: content_def)
  then obtain data' where d': "body = chunk_file data'" "length data' < 2 ^ 63"
    "chunk_path_of d = chunk_path_of (sha256_to_hex (sha data'))"
    using assms(2) map_of_SomeD [OF b] by (auto simp: fs_ok_def)
  have "data = data'" using data d' by (simp add: chunk_file_def kChunkHeaderSize_def)
  with d' b show "map_of (chunk_files fs) (chunk_path_of d) = Some (chunk_file data)"
    and "length data < 2 ^ 63" by simp_all
  show "sha256_to_hex (sha data) = d"
    using chunk_path_inj [OF assms(4) _ d'(3)] sha_hex(3) [OF assms(1), of data'] \<open>data = data'\<close> by simp
qed

section \<open>Reading\<close>

lemma get_range_wf:
  assumes "reads_ok env" and "fr_digest_hex_valid (Some d)" and "c_str d = d"
    and stored: "map_of (chunk_files fs) (chunk_path_of d) = Some (chunk_file data)"
    and small: "length data < 2 ^ 63" and off: "unat offset \<le> length data"
  shows "chunk_store_get_range env fs d offset len = Inr (take (unat len) (drop (unat offset) data))"
proof -
  have n: "unat (of_nat (length data) :: u64) = length data" using small by (simp add: unat_of_nat)
  have inside: "\<not> offset > of_nat (length data)"
    using off n by (simp add: word_less_nat_alt not_less)
  let ?av = "of_nat (length data) - offset :: u64"
  let ?rem = "if len > ?av then ?av else len"
  have av: "unat ?av = length data - unat offset"
    using off n by (subst unat_sub) (simp_all add: word_le_nat_alt)
  have rem: "unat ?rem = min (unat len) (length data - unat offset)"
    using av by (auto simp: word_less_nat_alt min_def)
  have rest: "drop (unat offset + 32) (chunk_file data) = drop (unat offset) data"
    by (simp add: chunk_file_def)
  have out: "take (unat ?rem) (drop (unat offset) data) = take (unat len) (drop (unat offset) data)"
    unfolding rem by (simp add: min_def)
  have enough: "unat ?rem \<le> length (drop (unat offset) data)" unfolding rem by simp
  have full: "fr_crc32 (Some (take (unat len) data)) (min (length data) (unat len)) =
      fr_crc32 (Some data) (length data)"
    if "(of_nat (min (length data) (unat len)) :: u64) = of_nat (length data)"
  proof -
    have "min (length data) (unat len) \<le> length data" by simp
    then have "unat (of_nat (min (length data) (unat len)) :: u64) = min (length data) (unat len)"
      using small by (simp add: unat_of_nat)
    then have "min (length data) (unat len) = length data"
      using arg_cong [OF that, of unat] n by simp
    then show ?thesis by simp
  qed
  have hdr: "take kChunkHeaderSize (chunk_file data) =
      store_header (length data) (fr_crc32 (Some data) (length data))"
    "\<not> length (chunk_file data) < kChunkHeaderSize"
    by (simp_all add: chunk_file_def kChunkHeaderSize_def)
  show ?thesis
    using assms(1-3) stored inside hdr enough
    unfolding chunk_store_get_range_def
    by (auto simp: relative_path_value parse_store_header reads_ok_def Let_def rest out
        kChunkHeaderSize_def not_less full)
qed

text \<open>
  The interface the storage layer reads through: a read within a stored content gives the
  requested part of it.
\<close>

locale chunk_reader =
  fixes get_range :: "string \<Rightarrow> u64 \<Rightarrow> u64 \<Rightarrow> bytes result"
    and stored :: "string \<Rightarrow> bytes option"
  assumes get_range_stored: "stored d = Some data \<Longrightarrow> unat offset \<le> length data \<Longrightarrow>
      get_range d offset len = Inr (take (unat len) (drop (unat offset) data))"
    and stored_small: "stored d = Some data \<Longrightarrow> length data < 2 ^ 63"
begin

lemma get_whole: "stored d = Some data \<Longrightarrow> get_range d 0 SIZE_MAX = Inr data"
  using get_range_stored [of d data 0 SIZE_MAX] stored_small [of d data]
  by (simp add: SIZE_MAX_def unsigned_minus_1_eq_mask mask_eq_exp_minus_1)

end

definition digest_key :: "string \<Rightarrow> bool" where
  "digest_key d = (fr_digest_hex_valid (Some d) \<and> c_str d = d)"

definition readable :: "(bytes \<Rightarrow> bytes) \<Rightarrow> io_env \<Rightarrow> fs \<Rightarrow> string \<Rightarrow> bytes option" where
  "readable sha env fs d =
     (if sha_ok sha \<and> fs_ok sha fs \<and> reads_ok env \<and> digest_key d then content fs d else None)"

lemma digest_key_length: "digest_key d \<Longrightarrow> length d = 64"
  using valid_c_str [of d] by (simp add: digest_key_def)

interpretation files: chunk_reader "chunk_store_get_range env fs" "readable sha env fs"
  for sha env fs
proof unfold_locales
  fix d data offset len
  assume r: "readable sha env fs d = Some data"
  then have ok: "sha_ok sha" "fs_ok sha fs" "reads_ok env" "digest_key d" "content fs d = Some data"
    by (auto simp: readable_def split: if_splits)
  have two: "2 \<le> length d" using digest_key_length [OF ok(4)] by simp
  note c = fs_ok_content [OF ok(1,2,5) two]
  show "length data < 2 ^ 63" by (rule c(3))
  show "chunk_store_get_range env fs d offset len = Inr (take (unat len) (drop (unat offset) data))"
    if "unat offset \<le> length data"
    using get_range_wf [OF ok(3) _ _ c(1,3) that] ok(4) by (simp add: digest_key_def)
qed

section \<open>Writing\<close>

text \<open>Every state in the history of a write has the old chunk files, or one complete file more.\<close>

definition added :: "string \<Rightarrow> bytes \<Rightarrow> fs \<Rightarrow> fs \<Rightarrow> bool" where
  "added target data fs fs' =
     (chunk_files fs' = AList.update target (chunk_file data) (chunk_files fs) \<and>
      map_of (chunk_files fs) target = None)"

lemma map_of_update: "map_of (AList.update k v xs) = (map_of xs)(k \<mapsto> v)"
  by (simp add: update_conv')

lemma set_update_sub: "set (AList.update k v xs) \<subseteq> insert (k, v) (set xs)"
  by (induction xs) auto

lemma unlink_tmp_chunks [simp]: "chunk_files (unlink_tmp env name fs) = chunk_files fs"
  by (simp add: unlink_tmp_def)

lemma write_chunk_file_history:
  assumes "write_chunk_file env target data fs = (r, states)"
  shows "\<forall>fs'\<in>set states. chunk_files fs' = chunk_files fs \<or> added target data fs fs'"
    and "states \<noteq> []"
    and "r = Inr u \<Longrightarrow> map_of (chunk_files (last states)) target \<noteq> None"
    and "r = Inl e \<Longrightarrow> chunk_files (last states) = chunk_files fs"
  using assms
  by (auto simp: write_chunk_file_def Let_def added_def chunk_file_def map_of_update
      split: if_splits)

lemma content_added:
  assumes "added (chunk_path_of d) data fs fs'" and "2 \<le> length d" and "2 \<le> length d'"
  shows "content fs' d' = (if d' = d then Some data else content fs d')"
proof -
  have "chunk_path_of d' = chunk_path_of d \<longleftrightarrow> d' = d" using chunk_path_inj assms(2,3) by blast
  then show ?thesis
    using assms(1)
    by (simp add: content_def added_def map_of_update chunk_file_def kChunkHeaderSize_def)
qed

lemma fs_ok_added:
  assumes "fs_ok sha fs" and "added (chunk_path_of (sha256_to_hex (sha data))) data fs fs'"
    and "length data < 2 ^ 63"
  shows "fs_ok sha fs'"
proof -
  have "distinct (map fst (chunk_files fs'))"
    using assms(1,2) by (simp add: fs_ok_def added_def distinct_update)
  moreover have "set (chunk_files fs') \<subseteq>
      insert (chunk_path_of (sha256_to_hex (sha data)), chunk_file data) (set (chunk_files fs))"
    using assms(2) set_update_sub unfolding added_def by metis
  ultimately show ?thesis
    using assms(1,3) unfolding fs_ok_def by fast
qed

lemma put_spec:
  assumes put: "chunk_store_put sha env (Some data) (length data) d fs = (r, fs')"
    and sha: "sha_ok sha" and ok: "fs_ok sha fs" and small: "length data < 2 ^ 63"
  shows "fs_ok sha fs'"
    and "content fs d' = Some c \<Longrightarrow> 2 \<le> length d' \<Longrightarrow> content fs' d' = Some c"
    and "r = Inr x \<Longrightarrow> x = d \<and> d = sha256_to_hex (sha data) \<and>
           content fs' d = Some (case content fs d of None \<Rightarrow> data | Some c \<Rightarrow> c)"
proof -
  let ?d = "sha256_to_hex (sha data)" and ?t = "chunk_path_of d"
  have two: "2 \<le> length ?d" using sha_hex(3) [OF sha] by simp
  have rel: "d = ?d \<Longrightarrow> relative_path d = Inr ?t"
    using relative_path_value sha_hex [OF sha] by simp
  consider (same) "fs' = fs" "\<nexists>x. r = Inr x"
    | (present) "fs' = fs" "d = ?d" "r = Inr d" "map_of (chunk_files fs) ?t \<noteq> None"
    | (failed) "chunk_files fs' = chunk_files fs" "\<nexists>x. r = Inr x"
    | (written) "d = ?d" "r = Inr d" "added ?t data fs fs'" "map_of (chunk_files fs) ?t = None"
  proof (cases "fr_digest_hex_valid (Some d) \<and> ?d = d \<and> map_of (chunk_files fs) ?t = None")
    case False
    then show ?thesis
      using put rel that(1,2) unfolding chunk_store_put_def by (auto simp: Let_def split: if_splits)
  next
    case True
    obtain res states where w: "write_chunk_file env ?t data fs = (res, states)"
      by (cases "write_chunk_file env ?t data fs")
    note h = write_chunk_file_history [OF w]
    have last: "last states \<in> set states" using h(2) by simp
    show ?thesis
    proof (cases res)
      case (Inl e)
      then show ?thesis
        using put True rel w h(4) that(3) unfolding chunk_store_put_def by (auto simp: Let_def)
    next
      case (Inr u)
      have "chunk_files (last states) \<noteq> chunk_files fs" using h(3) [OF Inr] True by auto
      then have "added ?t data fs (last states)" using h(1) last by blast
      then show ?thesis
        using put True rel w Inr that(4) unfolding chunk_store_put_def by (auto simp: Let_def)
    qed
  qed
  note cases = this
  show "fs_ok sha fs'"
    using cases ok fs_ok_added [OF ok _ small] by (cases rule: cases) (auto simp: fs_ok_def)
  show "content fs' d' = Some c" if "content fs d' = Some c" "2 \<le> length d'"
    using cases
  proof (cases rule: cases)
    case written
    have "content fs d = None" using written(4) by (simp add: content_def)
    then show ?thesis
      using content_added [OF written(3) _ that(2)] two written(1) that(1) by auto
  qed (use that in \<open>simp_all add: content_def\<close>)
  show "x = d \<and> d = ?d \<and> content fs' d = Some (case content fs d of None \<Rightarrow> data | Some c \<Rightarrow> c)"
    if "r = Inr x"
    using cases
  proof (cases rule: cases)
    case present
    then show ?thesis using that by (auto simp: content_def)
  next
    case written
    then have "content fs d = None" by (simp add: content_def)
    then show ?thesis
      using content_added [OF written(3), of d] two written(1,2) that by auto
  qed (use that in auto)
qed

section \<open>Removal and cleanup\<close>

lemma remove_spec:
  assumes "chunk_store_remove env d fs = (r, fs')"
  shows "fs_ok sha fs \<Longrightarrow> fs_ok sha fs'"
    and "digest_key d \<Longrightarrow> 2 \<le> length d' \<Longrightarrow> d' \<noteq> d \<Longrightarrow> content fs' d' = content fs d'"
proof -
  have sub: "chunk_files fs' = chunk_files fs \<or>
      (\<exists>path. relative_path d = Inr path \<and> chunk_files fs' = AList.delete path (chunk_files fs))"
    using assms by (auto simp: chunk_store_remove_def Let_def split: sum.splits if_splits)
  show "fs_ok sha fs'" if "fs_ok sha fs"
    using sub that
    by (auto simp: fs_ok_def AList.delete_eq intro: distinct_map_filter)
  show "content fs' d' = content fs d'" if d: "digest_key d" and d': "2 \<le> length d'" "d' \<noteq> d"
  proof -
    have "relative_path d = Inr (chunk_path_of d)"
      using relative_path_value d by (simp add: digest_key_def)
    moreover have "chunk_path_of d' \<noteq> chunk_path_of d"
      using chunk_path_inj [of d' d] d' digest_key_length [OF d] by auto
    ultimately show ?thesis using sub by (auto simp: content_def delete_conv')
  qed
qed

lemma cleanup_chunks: "cleanup_entries env names fs = (n, fs') \<Longrightarrow> chunk_files fs' = chunk_files fs"
  by (induction names arbitrary: fs n) (auto split: if_splits prod.splits)

section \<open>Properties\<close>


definition quiet_env :: io_env where
  "quiet_env = \<lparr>io = (\<lambda>op. FR_OK), tmp_name = ''frtmp-chunk-1'', partial = 0, io_detail = []\<rparr>"


text \<open>A stored chunk is what its digest says. After a successful put, reading the digest back
  gives a content with exactly that SHA-256, which is the data just put unless the store already
  held another content with the same digest; and no content already stored is lost or changed.\<close>

theorem chunk_put_get:
  assumes "chunk_store_put sha env (Some data) (length data) d fs = (Inr x, fs')"
    and "sha_ok sha" and "fs_ok sha fs" and "length data < 2 ^ 63" and "reads_ok env"
  shows "\<exists>c. chunk_store_get env fs' d = Inr c \<and> sha256_to_hex (sha c) = d \<and>
     (content fs d = None \<or> content fs d = Some data \<longrightarrow> c = data) \<and> fs_ok sha fs' \<and>
     (\<forall>d' c'. digest_key d' \<longrightarrow> content fs d' = Some c' \<longrightarrow> content fs' d' = Some c')"
proof -
  note p = put_spec [OF assms(1-4)]
  obtain c where c: "content fs' d = Some c" "content fs d = None \<or> content fs d = Some data \<longrightarrow> c = data"
    using p(3) by (auto split: option.splits)
  have d: "digest_key d" using p(3) sha_hex [OF assms(2)] by (simp add: digest_key_def)
  then have two: "2 \<le> length d" using digest_key_length [of d] by simp
  have "readable sha env fs' d = Some c"
    using assms(2,5) p(1) d c(1) by (simp add: readable_def)
  then have "chunk_store_get env fs' d = Inr c"
    unfolding chunk_store_get_def by (rule files.get_whole)
  moreover have "sha256_to_hex (sha c) = d" by (rule fs_ok_content(2) [OF assms(2) p(1) c(1) two])
  moreover have "content fs' d' = Some c'" if "digest_key d'" "content fs d' = Some c'" for d' c'
    by (rule p(2)) (use that digest_key_length [of d'] in simp_all)
  ultimately show ?thesis using c(2) p(1) by blast
qed

theorem chunk_put_get_witness:
  "\<exists>fs' x c. chunk_store_put (\<lambda>bs. replicate 32 0) quiet_env (Some [1]) 1
       (sha256_to_hex (replicate 32 0)) \<lparr>chunk_files = [], tmp_files = []\<rparr> = (Inr x, fs') \<and>
     chunk_store_get quiet_env fs' (sha256_to_hex (replicate 32 0)) = Inr c \<and> c = [1]"
proof -
  let ?sha = "\<lambda>bs :: bytes. replicate 32 0 :: bytes" and ?fs = "\<lparr>chunk_files = [], tmp_files = []\<rparr>"
  let ?d = "sha256_to_hex (replicate 32 0)"
  have sha: "sha_ok ?sha" by (simp add: sha_ok_def)
  have h: "fr_digest_hex_valid (Some ?d)" "c_str ?d = ?d"
    using sha_hex(1,2) [OF sha] by simp_all
  obtain states where w: "write_chunk_file quiet_env (chunk_path_of ?d) [1] ?fs = (Inr (), states)"
    by (simp add: write_chunk_file_def quiet_env_def Let_def)
  then have p: "chunk_store_put ?sha quiet_env (Some [1]) (length [1 :: u8]) ?d ?fs = (Inr ?d, last states)"
    using h relative_path_value [OF h(1)] by (simp add: chunk_store_put_def)
  have "fs_ok ?sha ?fs" by (simp add: fs_ok_def)
  moreover have "reads_ok quiet_env" by (simp add: reads_ok_def quiet_env_def)
  moreover have "content ?fs ?d = None" by (simp add: content_def)
  ultimately obtain c where "chunk_store_get quiet_env (last states) ?d = Inr c" "c = [1]"
    using chunk_put_get [OF p sha] by auto
  with p show ?thesis by auto
qed

lemma get_damaged:
  assumes "map_of (chunk_files fs) (chunk_path_of d) = Some (store_header n crc @ bad)"
    and "length bad = n" and "n < 2 ^ 63" and "digest_key d" and "reads_ok env"
    and "fr_crc32 (Some bad) (length bad) \<noteq> crc"
  shows "\<exists>msg. chunk_store_get env fs d = Inl (Err FR_E_IO msg)"
proof -
  have n: "unat (of_nat n :: u64) = n" using assms(3) by (simp add: unat_of_nat)
  have rem: "(of_nat n :: u64) < SIZE_MAX"
    using assms(3) n
    by (simp add: word_less_nat_alt SIZE_MAX_def unsigned_minus_1_eq_mask mask_eq_exp_minus_1)
  have rel: "relative_path d = Inr (chunk_path_of d)"
    using relative_path_value assms(4) by (simp add: digest_key_def)
  show ?thesis
    unfolding chunk_store_get_def chunk_store_get_range_def
    using assms rel rem n
    by (simp add: digest_key_def Let_def reads_ok_def kChunkHeaderSize_def parse_store_header
        throw_error_def)
qed

text \<open>Bit rot is detected. If a single byte of the data of a chunk file has been changed on
  disk, reading the whole chunk throws \<open>FR_E_IO\<close>.\<close>

theorem chunk_corruption_detected:
  assumes "map_of (chunk_files fs) (chunk_path_of d) =
      Some (store_header (length (xs @ a # ys)) (fr_crc32 (Some (xs @ a # ys)) (length (xs @ a # ys))) @
            xs @ b # ys)"
    and "a \<noteq> b" and "digest_key d" and "reads_ok env" and "length (xs @ a # ys) < 2 ^ 63"
  shows "\<exists>msg. chunk_store_get env fs d = Inl (Err FR_E_IO msg)"
proof -
  have "fr_crc32 (Some (xs @ b # ys)) (length (xs @ b # ys)) \<noteq>
      fr_crc32 (Some (xs @ a # ys)) (length (xs @ a # ys))"
    using crc32_byte_change [OF assms(2) [symmetric]] .
  moreover have "length (xs @ b # ys) = length (xs @ a # ys)" by simp
  ultimately show ?thesis
    using get_damaged [OF assms(1) _ assms(5,3,4)] by simp
qed

theorem chunk_corruption_detected_witness:
  "\<exists>msg. chunk_store_get quiet_env
     \<lparr>chunk_files = [(chunk_path_of (hex_chars (replicate 32 0)),
        store_header 2 (fr_crc32 (Some [1, 2]) 2) @ [1, 3])], tmp_files = []\<rparr>
     (hex_chars (replicate 32 0)) = Inl (Err FR_E_IO msg)"
proof -
  have "digest_key (hex_chars (replicate 32 0))"
    by (simp only: digest_key_def c_str_hex_chars) (simp add: digest_hex_valid_chars del: hex_chars.simps)
  moreover have "reads_ok quiet_env" by (simp add: reads_ok_def quiet_env_def)
  moreover have len: "length ([1 :: u8] @ 2 # []) = 2" by simp
  ultimately show ?thesis
    using chunk_corruption_detected
      [where fs = "\<lparr>chunk_files = [(chunk_path_of (hex_chars (replicate 32 0)),
          store_header 2 (fr_crc32 (Some [1, 2]) 2) @ [1, 3])], tmp_files = []\<rparr>"
        and d = "hex_chars (replicate 32 0)" and xs = "[1]" and a = 2 and b = 3 and ys = "[]"
        and env = quiet_env, unfolded len]
    by (simp del: hex_chars.simps)
qed

end
