(* ===== verification/Buffer.thy ===== *)
theory Buffer
  imports Bytes
begin

text \<open>
  The growable byte buffer and the bounds-checked reader of \<^verbatim>\<open>src/core_c/fr_buffer.c\<close>.
  \<open>buf_bytes\<close> holds the \<open>len\<close> valid bytes, \<open>buf_cap\<close> the allocated capacity;
  the \<open>data\<close> pointer is \<open>NULL\<close> exactly while nothing has been allocated. What
  \<open>realloc\<close> answers is the parameter \<open>alloc\<close>: whether a request of that many bytes
  is granted. Positions of a reader index an existing buffer and are natural numbers; sizes that
  enter the checked arithmetic are 64-bit words.
\<close>

section \<open>The buffer\<close>

record fr_buf =
  buf_bytes :: bytes
  buf_cap :: u64

type_synonym alloc = "u64 \<Rightarrow> bool"

definition buf_len :: "fr_buf \<Rightarrow> u64" where
  "buf_len b = of_nat (length (buf_bytes b))"

text \<open>The \<open>data\<close> member as a pointer.\<close>

definition buf_data :: "fr_buf \<Rightarrow> bytes option" where
  "buf_data b = (if buf_cap b = 0 then None else Some (buf_bytes b))"

definition buf_wf :: "fr_buf \<Rightarrow> bool" where
  "buf_wf b = (length (buf_bytes b) \<le> unat (buf_cap b))"

definition fr_buf_init :: fr_buf where
  "fr_buf_init = \<lparr>buf_bytes = [], buf_cap = 0\<rparr>"

definition fr_buf_destroy :: "fr_buf \<Rightarrow> fr_buf" where
  "fr_buf_destroy b = b\<lparr>buf_bytes := [], buf_cap := 0\<rparr>"

text \<open>\<open>same\<close> tells whether the two pointers are equal; the results are \<open>(dst, src)\<close>.\<close>

definition fr_buf_move :: "bool \<Rightarrow> fr_buf \<Rightarrow> fr_buf \<Rightarrow> fr_buf \<times> fr_buf" where
  "fr_buf_move same dst src =
     (if same then (dst, src)
      else let dst' = fr_buf_destroy dst
           in (dst'\<lparr>buf_bytes := buf_bytes src, buf_cap := buf_cap src\<rparr>,
               src\<lparr>buf_bytes := [], buf_cap := 0\<rparr>))"

text \<open>The first capacity the growth loop tries.\<close>

definition start_cap :: "fr_buf \<Rightarrow> u64" where
  "start_cap b = (if buf_cap b \<noteq> 0 then buf_cap b else 64)"

text \<open>
  The doubling loop of \<open>fr_buf_reserve\<close>, with fuel: 65 rounds are more than any
  starting capacity above zero can take (\<open>grow_cap_fuel\<close> below).
\<close>

fun grow_cap :: "nat \<Rightarrow> u64 \<Rightarrow> u64 \<Rightarrow> fr_status + u64" where
  "grow_cap 0 new_cap needed = Inl FR_E_INTERNAL"
| "grow_cap (Suc fuel) new_cap needed =
     (if new_cap < needed
      then case fr_checked_mul_size new_cap 2 of
             None \<Rightarrow> Inl FR_E_OVERFLOW
           | Some c \<Rightarrow> grow_cap fuel c needed
      else Inr new_cap)"

definition fr_buf_reserve :: "alloc \<Rightarrow> fr_buf \<Rightarrow> u64 \<Rightarrow> fr_status \<times> fr_buf" where
  "fr_buf_reserve alloc b additional =
     (case fr_checked_add_size (buf_len b) additional of
        None \<Rightarrow> (FR_E_OVERFLOW, b)
      | Some needed \<Rightarrow>
          if needed \<le> buf_cap b then (FR_OK, b)
          else case grow_cap 65 (start_cap b) needed of
                 Inl st \<Rightarrow> (st, b)
               | Inr new_cap \<Rightarrow>
                   if \<not> alloc new_cap then (FR_E_NOMEM, b)
                   else (FR_OK, b\<lparr>buf_cap := new_cap\<rparr>))"

definition fr_buf_append :: "alloc \<Rightarrow> fr_buf \<Rightarrow> bytes option \<Rightarrow> u64 \<Rightarrow> fr_status \<times> fr_buf" where
  "fr_buf_append alloc b src n =
     (if src = None \<and> n \<noteq> 0 then (FR_E_ARG, b)
      else case fr_buf_reserve alloc b n of
             (st, b') \<Rightarrow>
               if st \<noteq> FR_OK then (st, b')
               else (FR_OK, b'\<lparr>buf_bytes := buf_bytes b' @ take (unat n) (mem_of src)\<rparr>))"

definition fr_buf_append_u8 :: "alloc \<Rightarrow> fr_buf \<Rightarrow> u8 \<Rightarrow> fr_status \<times> fr_buf" where
  "fr_buf_append_u8 alloc b v = fr_buf_append alloc b (Some [v]) 1"

definition fr_buf_append_u16be :: "alloc \<Rightarrow> fr_buf \<Rightarrow> u16 \<Rightarrow> fr_status \<times> fr_buf" where
  "fr_buf_append_u16be alloc b v = fr_buf_append alloc b (Some (fr_store_be16 v)) 2"

definition fr_buf_append_u32be :: "alloc \<Rightarrow> fr_buf \<Rightarrow> u32 \<Rightarrow> fr_status \<times> fr_buf" where
  "fr_buf_append_u32be alloc b v = fr_buf_append alloc b (Some (fr_store_be32 v)) 4"

definition fr_buf_append_u64be :: "alloc \<Rightarrow> fr_buf \<Rightarrow> u64 \<Rightarrow> fr_status \<times> fr_buf" where
  "fr_buf_append_u64be alloc b v = fr_buf_append alloc b (Some (fr_store_be64 v)) 8"

definition fr_buf_clear :: "fr_buf \<Rightarrow> fr_buf" where
  "fr_buf_clear b = b\<lparr>buf_bytes := []\<rparr>"

definition fr_buf_consume :: "fr_buf \<Rightarrow> u64 \<Rightarrow> fr_status \<times> fr_buf" where
  "fr_buf_consume b n =
     (if n > buf_len b then (FR_E_RANGE, b)
      else (FR_OK, b\<lparr>buf_bytes := drop (unat n) (buf_bytes b)\<rparr>))"

text \<open>A view: the pointer and the length.\<close>

definition fr_buf_view_of :: "fr_buf \<Rightarrow> bytes option \<times> u64" where
  "fr_buf_view_of b = (if buf_len b \<noteq> 0 then (buf_data b, buf_len b) else (None, 0))"

section \<open>The reader\<close>

record fr_buf_reader =
  rd_data :: "bytes option"
  rd_len :: nat
  rd_pos :: nat

definition fr_buf_reader_init :: "bytes option \<Rightarrow> nat \<Rightarrow> fr_buf_reader" where
  "fr_buf_reader_init data len = \<lparr>rd_data = data, rd_len = len, rd_pos = 0\<rparr>"

definition fr_buf_reader_remaining :: "fr_buf_reader \<Rightarrow> nat" where
  "fr_buf_reader_remaining r = (if rd_len r \<le> rd_pos r then 0 else rd_len r - rd_pos r)"

text \<open>The result of a read is the bytes copied out and the advanced reader.\<close>

definition fr_buf_reader_read :: "fr_buf_reader \<Rightarrow> nat \<Rightarrow> fr_status + bytes \<times> fr_buf_reader" where
  "fr_buf_reader_read r n =
     (if n > fr_buf_reader_remaining r then Inl FR_E_RANGE
      else Inr (take n (drop (rd_pos r) (mem_of (rd_data r))), r\<lparr>rd_pos := rd_pos r + n\<rparr>))"

definition fr_buf_reader_u8 :: "fr_buf_reader \<Rightarrow> fr_status + u8 \<times> fr_buf_reader" where
  "fr_buf_reader_u8 r = rbind (fr_buf_reader_read r 1) (\<lambda>(raw, r). Inr (raw ! 0, r))"

definition fr_buf_reader_u16be :: "fr_buf_reader \<Rightarrow> fr_status + u16 \<times> fr_buf_reader" where
  "fr_buf_reader_u16be r = rbind (fr_buf_reader_read r 2) (\<lambda>(raw, r). Inr (fr_load_be16 raw, r))"

definition fr_buf_reader_u32be :: "fr_buf_reader \<Rightarrow> fr_status + u32 \<times> fr_buf_reader" where
  "fr_buf_reader_u32be r = rbind (fr_buf_reader_read r 4) (\<lambda>(raw, r). Inr (fr_load_be32 raw, r))"

definition fr_buf_reader_u64be :: "fr_buf_reader \<Rightarrow> fr_status + u64 \<times> fr_buf_reader" where
  "fr_buf_reader_u64be r = rbind (fr_buf_reader_read r 8) (\<lambda>(raw, r). Inr (fr_load_be64 raw, r))"

definition fr_buf_reader_skip :: "fr_buf_reader \<Rightarrow> nat \<Rightarrow> fr_status \<times> fr_buf_reader" where
  "fr_buf_reader_skip r n =
     (if n > fr_buf_reader_remaining r then (FR_E_RANGE, r)
      else (FR_OK, r\<lparr>rd_pos := rd_pos r + n\<rparr>))"

definition fr_buf_reader_bytes ::
  "alloc \<Rightarrow> fr_buf_reader \<Rightarrow> fr_buf \<Rightarrow> nat \<Rightarrow> fr_status \<times> fr_buf_reader \<times> fr_buf" where
  "fr_buf_reader_bytes alloc r out n =
     (if n > fr_buf_reader_remaining r then (FR_E_RANGE, r, out)
      else case fr_buf_reserve alloc out (of_nat n) of
             (st, out') \<Rightarrow>
               if st \<noteq> FR_OK then (st, r, out')
               else (FR_OK, r\<lparr>rd_pos := rd_pos r + n\<rparr>,
                     out'\<lparr>buf_bytes := buf_bytes out' @
                            take n (drop (rd_pos r) (mem_of (rd_data r)))\<rparr>))"

section \<open>Growth\<close>

text \<open>Fuel: from a capacity above zero the loop ends within 65 rounds.\<close>

lemma grow_cap_fuel_aux:
  "2 ^ 64 \<le> unat c * 2 ^ f \<Longrightarrow> grow_cap (Suc f) c n \<noteq> Inl FR_E_INTERNAL"
proof (induction f arbitrary: c)
  case 0
  then show ?case using unat_u64_less [of c] by simp
next
  case (Suc f)
  show ?case
  proof (cases "c < n")
    case True
    show ?thesis
    proof (cases "fr_checked_mul_size c 2")
      case None
      with True show ?thesis by (subst grow_cap.simps) simp
    next
      case (Some c')
      then have "unat c' = unat c * 2" by (simp add: checked_mul_size_iff)
      with Suc.prems have "2 ^ 64 \<le> unat c' * 2 ^ f" by simp
      then have "grow_cap (Suc f) c' n \<noteq> Inl FR_E_INTERNAL" by (rule Suc.IH)
      with True Some show ?thesis by (subst grow_cap.simps) simp
    qed
  next
    case False
    then show ?thesis by simp
  qed
qed

lemma grow_cap_fuel: "c \<noteq> 0 \<Longrightarrow> grow_cap 65 c n \<noteq> Inl FR_E_INTERNAL"
proof -
  assume "c \<noteq> 0"
  then have "0 < unat c" by (simp add: unat_gt_0)
  then have "2 ^ 64 \<le> unat c * 2 ^ 64" by simp
  then have "grow_cap (Suc 64) c n \<noteq> Inl FR_E_INTERNAL" by (rule grow_cap_fuel_aux)
  then show ?thesis by (simp add: numeral_eq_Suc)
qed


lemma grow_cap_bounds:
  "grow_cap f c n = Inr c' \<Longrightarrow> n \<le> c' \<and> c \<le> c' \<and> (c' = c \<or> unat c' < 2 * unat n)"
proof (induction f arbitrary: c)
  case 0
  then show ?case by simp
next
  case (Suc f)
  show ?case
  proof (cases "c < n")
    case True
    with Suc.prems obtain d where d: "fr_checked_mul_size c 2 = Some d" "grow_cap f d n = Inr c'"
      by (auto split: option.splits)
    from d(1) have ud: "unat d = 2 * unat c" by (simp add: checked_mul_size_iff)
    with True have "c \<le> d" "unat d < 2 * unat n"
      by (simp_all add: word_le_nat_alt word_less_nat_alt)
    with Suc.IH [OF d(2)] show ?thesis by auto
  next
    case False
    with Suc.prems show ?thesis by simp
  qed
qed

lemma grow_cap_no_overflow:
  "unat n \<le> 2 ^ 63 \<Longrightarrow> grow_cap f c n = Inl st \<Longrightarrow> st = FR_E_INTERNAL"
proof (induction f arbitrary: c)
  case 0
  then show ?case by simp
next
  case (Suc f)
  show ?case
  proof (cases "c < n")
    case True
    then have "unat c < unat n" by (simp add: word_less_nat_alt)
    with Suc.prems(1) have "unat c * 2 < 2 ^ 64" by simp
    then obtain d where "fr_checked_mul_size c 2 = Some d"
      by (cases "fr_checked_mul_size c 2") (simp_all add: checked_mul_size_None)
    with True Suc.prems show ?thesis by (auto intro: Suc.IH)
  next
    case False
    with Suc.prems show ?thesis by simp
  qed
qed

lemma grow_cap_ok:
  assumes "c \<noteq> 0" and "unat n \<le> 2 ^ 63"
  obtains c' where "grow_cap 65 c n = Inr c'" "n \<le> c'" "c \<le> c'"
proof (cases "grow_cap 65 c n")
  case (Inl st)
  then have "st = FR_E_INTERNAL" using grow_cap_no_overflow [OF assms(2)] by blast
  with Inl assms(1) show ?thesis using grow_cap_fuel by blast
next
  case (Inr c')
  with that show ?thesis using grow_cap_bounds by blast
qed

section \<open>Reserve and append\<close>

lemma buf_len_unat: "buf_wf b \<Longrightarrow> unat (buf_len b) = length (buf_bytes b)"
  using unat_u64_less [of "buf_cap b"] by (simp add: buf_len_def buf_wf_def unat_of_nat)

lemma buf_wf_init [simp, intro]: "buf_wf fr_buf_init"
  by (simp add: buf_wf_def fr_buf_init_def)

lemma buf_bytes_init [simp]: "buf_bytes fr_buf_init = []"
  by (simp add: fr_buf_init_def)

text \<open>The strong guarantee: whatever reserve answers, the contents stay as they were.\<close>

lemma reserve_bytes: "fr_buf_reserve alloc b n = (st, b') \<Longrightarrow> buf_bytes b' = buf_bytes b"
  by (auto simp: fr_buf_reserve_def split: option.splits sum.splits if_splits)

lemma reserve_fail: "fr_buf_reserve alloc b n = (st, b') \<Longrightarrow> st \<noteq> FR_OK \<Longrightarrow> b' = b"
  by (auto simp: fr_buf_reserve_def split: option.splits sum.splits if_splits)

lemma start_cap_nonzero: "start_cap b \<noteq> 0"
  by (simp add: start_cap_def)

lemma start_cap_ge: "buf_cap b \<le> start_cap b"
  by (simp add: start_cap_def)

lemma grow_cap_status: "grow_cap f c n = Inl st \<Longrightarrow> st \<in> {FR_E_OVERFLOW, FR_E_INTERNAL}"
  by (induction f arbitrary: c) (auto split: if_splits option.splits)

lemma grow_start_status: "grow_cap 65 (start_cap b) n = Inl st \<Longrightarrow> st = FR_E_OVERFLOW"
  using grow_cap_status [of 65 "start_cap b" n st] grow_cap_fuel [OF start_cap_nonzero, of b n]
  by blast

lemma reserve_status:
  "fr_buf_reserve alloc b n = (st, b') \<Longrightarrow> st \<in> {FR_OK, FR_E_OVERFLOW, FR_E_NOMEM}"
  by (auto simp: fr_buf_reserve_def dest: grow_start_status
      split: option.splits sum.splits if_splits)

lemma reserve_ok_room:
  assumes "buf_wf b" and "fr_buf_reserve alloc b n = (FR_OK, b')"
  shows "length (buf_bytes b) + unat n \<le> unat (buf_cap b')" and "buf_cap b \<le> buf_cap b'"
proof -
  obtain needed where add: "fr_checked_add_size (buf_len b) n = Some needed"
    using assms(2) by (auto simp: fr_buf_reserve_def split: option.splits)
  then have u: "unat needed = length (buf_bytes b) + unat n"
    using buf_len_unat [OF assms(1)] by (simp add: checked_add_size_iff)
  have "needed \<le> buf_cap b' \<and> buf_cap b \<le> buf_cap b'"
    using assms(2) add start_cap_ge [of b]
    by (auto simp: fr_buf_reserve_def dest!: grow_cap_bounds grow_start_status
        split: if_splits sum.splits)
  then show "length (buf_bytes b) + unat n \<le> unat (buf_cap b')" and "buf_cap b \<le> buf_cap b'"
    using u by (simp_all add: word_le_nat_alt)
qed

lemma reserve_succeeds:
  assumes "buf_wf b" and "length (buf_bytes b) + unat n \<le> 2 ^ 63" and "\<forall>k. alloc k"
  obtains b' where "fr_buf_reserve alloc b n = (FR_OK, b')"
proof -
  obtain needed where needed: "fr_checked_add_size (buf_len b) n = Some needed"
    using assms(2) buf_len_unat [OF assms(1)]
    by (cases "fr_checked_add_size (buf_len b) n") (simp_all add: checked_add_size_None)
  then have "unat needed \<le> 2 ^ 63"
    using assms(2) buf_len_unat [OF assms(1)] by (simp add: checked_add_size_iff)
  then obtain c where "grow_cap 65 (start_cap b) needed = Inr c"
    by (rule grow_cap_ok [OF start_cap_nonzero])
  with needed assms(3) that show ?thesis
    by (cases "needed \<le> buf_cap b") (auto simp: fr_buf_reserve_def)
qed

lemma append_ok:
  assumes "buf_wf b" and "fr_buf_append alloc b src n = (FR_OK, b')"
    and "unat n \<le> length (mem_of src)"
  shows "buf_bytes b' = buf_bytes b @ take (unat n) (mem_of src)" and "buf_wf b'"
proof -
  obtain b1 where r: "fr_buf_reserve alloc b n = (FR_OK, b1)"
    and b': "b' = b1\<lparr>buf_bytes := buf_bytes b1 @ take (unat n) (mem_of src)\<rparr>"
    using assms(2) by (auto simp: fr_buf_append_def split: if_splits prod.splits)
  then show "buf_bytes b' = buf_bytes b @ take (unat n) (mem_of src)"
    by (simp add: reserve_bytes [OF r])
  then show "buf_wf b'"
    using reserve_ok_room(1) [OF assms(1) r] b' assms(3) by (simp add: buf_wf_def)
qed

lemma append_fail:
  "fr_buf_append alloc b src n = (st, b') \<Longrightarrow> st \<noteq> FR_OK \<Longrightarrow> b' = b"
  by (auto simp: fr_buf_append_def dest: reserve_fail split: if_splits prod.splits)

lemma append_succeeds:
  assumes "buf_wf b" and "length (buf_bytes b) + length bs \<le> 2 ^ 63" and "\<forall>k. alloc k"
  obtains b' where "fr_buf_append alloc b (Some bs) (of_nat (length bs)) = (FR_OK, b')"
    "buf_bytes b' = buf_bytes b @ bs" "buf_wf b'"
proof -
  have n: "unat (of_nat (length bs) :: u64) = length bs"
    using assms(2) by (simp add: unat_of_nat)
  obtain b1 where "fr_buf_reserve alloc b (of_nat (length bs)) = (FR_OK, b1)"
    using reserve_succeeds [OF assms(1) _ assms(3), of "of_nat (length bs)"] n assms(2)
    by (metis (no_types))
  then obtain b' where b': "fr_buf_append alloc b (Some bs) (of_nat (length bs)) = (FR_OK, b')"
    by (auto simp: fr_buf_append_def)
  show ?thesis
    by (rule that [OF b']) (use append_ok [OF assms(1) b'] n in auto)
qed

text \<open>Appending to a well-formed buffer is all or nothing, for every behaviour of
  \<open>realloc\<close>: on success exactly the given bytes are added at the end and the buffer is
  well-formed; on any failure the buffer is unchanged and the status is a capacity overflow, an
  allocation failure or a missing source. It does succeed when memory is granted and the total
  stays below \<open>2 ^ 63\<close> bytes, so the doubling loop always ends.\<close>

theorem append_all_or_nothing:
  assumes "buf_wf b" and "unat n \<le> length (mem_of src)"
  shows "(case fr_buf_append alloc b src n of (st, b') \<Rightarrow>
            if st = FR_OK then buf_bytes b' = buf_bytes b @ take (unat n) (mem_of src) \<and> buf_wf b'
            else b' = b \<and> st \<in> {FR_E_OVERFLOW, FR_E_NOMEM, FR_E_ARG}) \<and>
         ((\<forall>k. alloc k) \<and> src \<noteq> None \<and> length (buf_bytes b) + unat n \<le> 2 ^ 63 \<longrightarrow>
            fst (fr_buf_append alloc b src n) = FR_OK)"
proof
  obtain st b' where a: "fr_buf_append alloc b src n = (st, b')"
    by (cases "fr_buf_append alloc b src n")
  have "st \<noteq> FR_OK \<Longrightarrow> st \<in> {FR_E_OVERFLOW, FR_E_NOMEM, FR_E_ARG}"
    using a reserve_status [of alloc b n]
    by (auto simp: fr_buf_append_def split: if_splits prod.splits)
  then show "case fr_buf_append alloc b src n of (st, b') \<Rightarrow>
      if st = FR_OK then buf_bytes b' = buf_bytes b @ take (unat n) (mem_of src) \<and> buf_wf b'
      else b' = b \<and> st \<in> {FR_E_OVERFLOW, FR_E_NOMEM, FR_E_ARG}"
    using append_ok [OF assms(1) _ assms(2)] append_fail [OF a] a by auto
  show "(\<forall>k. alloc k) \<and> src \<noteq> None \<and> length (buf_bytes b) + unat n \<le> 2 ^ 63 \<longrightarrow>
      fst (fr_buf_append alloc b src n) = FR_OK"
  proof (intro impI, elim conjE)
    assume mem: "\<forall>k. alloc k" and src: "src \<noteq> None" and small: "length (buf_bytes b) + unat n \<le> 2 ^ 63"
    obtain b1 where "fr_buf_reserve alloc b n = (FR_OK, b1)"
      using reserve_succeeds [OF assms(1) small mem] .
    then show "fst (fr_buf_append alloc b src n) = FR_OK"
      using src by (auto simp: fr_buf_append_def)
  qed
qed

theorem append_all_or_nothing_witness:
  "fst (fr_buf_append (\<lambda>k. True) fr_buf_init (Some [1, 2, 3]) 3) = FR_OK"
  using append_all_or_nothing [of fr_buf_init 3 "Some [1, 2, 3]" "\<lambda>k. True"] by simp

end
