(* ===== verification/Frame.thy ===== *)
theory Frame
  imports Buffer
begin

text \<open>
  The FRLY frame codec, \<^verbatim>\<open>src/core_c/fr_frame.c\<close> and
  \<^verbatim>\<open>include/forgerelay/fr_frame.h\<close>: a header of 20 bytes (magic, version, type,
  flags, request id, payload length, CRC-32 of the 16 bytes before it) and a payload of at most
  8 MiB. \<open>fr_frame_parser_feed\<close> is the incremental parser with its two phases; its
  abstract specification \<open>spec_parse\<close> reads a whole byte stream at once, and
  \<open>feed_refines\<close> shows that a parser with any prefix of the stream behind it answers as
  the specification does on prefix and new input together.
\<close>

section \<open>Constants and message types\<close>

definition FR_FRAME_MAGIC :: bytes where
  "FR_FRAME_MAGIC = bytes_of ''FRLY''"

definition FR_FRAME_MAGIC_LEN :: nat where "FR_FRAME_MAGIC_LEN = 4"
definition FR_FRAME_VERSION :: u8 where "FR_FRAME_VERSION = 1"
definition FR_FRAME_HEADER_SIZE :: nat where "FR_FRAME_HEADER_SIZE = 20"
definition FR_FRAME_MAX_PAYLOAD :: nat where "FR_FRAME_MAX_PAYLOAD = 8388608"

datatype fr_msg_type =
    FR_MSG_HELLO | FR_MSG_AUTH | FR_MSG_PING | FR_MSG_CLOSE
  | FR_MSG_CREATE_UPLOAD | FR_MSG_PUT_CHUNK | FR_MSG_QUERY_UPLOAD | FR_MSG_COMMIT_UPLOAD
  | FR_MSG_ABORT_UPLOAD | FR_MSG_GET_ARTIFACT | FR_MSG_DATA | FR_MSG_LIST_ARTIFACTS
  | FR_MSG_SHOW_ARTIFACT | FR_MSG_STATUS | FR_MSG_DELETE_ARTIFACT | FR_MSG_RUN_GC
  | FR_MSG_USER_ADD | FR_MSG_USER_DISABLE | FR_MSG_USER_LIST | FR_MSG_TOKEN_CREATE
  | FR_MSG_TOKEN_REVOKE | FR_MSG_TOKEN_LIST | FR_MSG_SESSION_LIST | FR_MSG_SESSION_ABORT
  | FR_MSG_OK | FR_MSG_ERROR

fun msg_value :: "fr_msg_type \<Rightarrow> u8" where
  "msg_value FR_MSG_HELLO = 1"
| "msg_value FR_MSG_AUTH = 2"
| "msg_value FR_MSG_PING = 3"
| "msg_value FR_MSG_CLOSE = 4"
| "msg_value FR_MSG_CREATE_UPLOAD = 16"
| "msg_value FR_MSG_PUT_CHUNK = 17"
| "msg_value FR_MSG_QUERY_UPLOAD = 18"
| "msg_value FR_MSG_COMMIT_UPLOAD = 19"
| "msg_value FR_MSG_ABORT_UPLOAD = 20"
| "msg_value FR_MSG_GET_ARTIFACT = 32"
| "msg_value FR_MSG_DATA = 33"
| "msg_value FR_MSG_LIST_ARTIFACTS = 48"
| "msg_value FR_MSG_SHOW_ARTIFACT = 49"
| "msg_value FR_MSG_STATUS = 50"
| "msg_value FR_MSG_DELETE_ARTIFACT = 64"
| "msg_value FR_MSG_RUN_GC = 65"
| "msg_value FR_MSG_USER_ADD = 66"
| "msg_value FR_MSG_USER_DISABLE = 67"
| "msg_value FR_MSG_USER_LIST = 68"
| "msg_value FR_MSG_TOKEN_CREATE = 80"
| "msg_value FR_MSG_TOKEN_REVOKE = 81"
| "msg_value FR_MSG_TOKEN_LIST = 82"
| "msg_value FR_MSG_SESSION_LIST = 96"
| "msg_value FR_MSG_SESSION_ABORT = 97"
| "msg_value FR_MSG_OK = 200"
| "msg_value FR_MSG_ERROR = 201"

definition all_msg_types :: "fr_msg_type list" where
  "all_msg_types =
     [FR_MSG_HELLO, FR_MSG_AUTH, FR_MSG_PING, FR_MSG_CLOSE, FR_MSG_CREATE_UPLOAD,
      FR_MSG_PUT_CHUNK, FR_MSG_QUERY_UPLOAD, FR_MSG_COMMIT_UPLOAD, FR_MSG_ABORT_UPLOAD,
      FR_MSG_GET_ARTIFACT, FR_MSG_DATA, FR_MSG_LIST_ARTIFACTS, FR_MSG_SHOW_ARTIFACT,
      FR_MSG_STATUS, FR_MSG_DELETE_ARTIFACT, FR_MSG_RUN_GC, FR_MSG_USER_ADD,
      FR_MSG_USER_DISABLE, FR_MSG_USER_LIST, FR_MSG_TOKEN_CREATE, FR_MSG_TOKEN_REVOKE,
      FR_MSG_TOKEN_LIST, FR_MSG_SESSION_LIST, FR_MSG_SESSION_ABORT, FR_MSG_OK, FR_MSG_ERROR]"

text \<open>The \<open>switch\<close> over a wire value: the enumerator of that value, if any.\<close>

definition msg_of_value :: "u8 \<Rightarrow> fr_msg_type option" where
  "msg_of_value v = find (\<lambda>t. msg_value t = v) all_msg_types"

definition fr_msg_type_valid :: "u8 \<Rightarrow> bool" where
  "fr_msg_type_valid type = (type \<in> set (map msg_value all_msg_types))"

lemma all_msg_types_complete: "t \<in> set all_msg_types"
  by (cases t) (simp_all add: all_msg_types_def)

lemma msg_type_valid_value [simp]: "fr_msg_type_valid (msg_value t)"
  using all_msg_types_complete by (auto simp: fr_msg_type_valid_def)

lemma msg_value_inj: "msg_value s = msg_value t \<longleftrightarrow> s = t"
  by (cases s; cases t) simp_all

lemma msg_of_value_value [simp]: "msg_of_value (msg_value t) = Some t"
proof -
  have "find (\<lambda>s. msg_value s = msg_value t) ts = (if t \<in> set ts then Some t else None)" for ts
    by (induction ts) (auto simp: msg_value_inj)
  then show ?thesis by (simp add: msg_of_value_def all_msg_types_complete)
qed

lemma msg_of_value_Some: "msg_of_value v = Some t \<longleftrightarrow> v = msg_value t"
  using msg_of_value_value by (auto simp: msg_of_value_def find_Some_iff)

section \<open>Encoding\<close>

text \<open>The first 16 bytes of a header, and the header with its checksum.\<close>

definition header_prefix :: "u8 \<Rightarrow> u16 \<Rightarrow> u32 \<Rightarrow> u32 \<Rightarrow> bytes" where
  "header_prefix type flags req_id payload_len =
     FR_FRAME_MAGIC @ [FR_FRAME_VERSION, type] @ fr_store_be16 flags @ fr_store_be32 req_id @
     fr_store_be32 payload_len"

definition frame_header :: "u8 \<Rightarrow> u16 \<Rightarrow> u32 \<Rightarrow> u32 \<Rightarrow> bytes" where
  "frame_header type flags req_id payload_len =
     (let h = header_prefix type flags req_id payload_len
      in h @ fr_store_be32 (fr_crc32 (Some h) 16))"

definition fr_frame_encode ::
  "alloc \<Rightarrow> fr_buf \<Rightarrow> u8 \<Rightarrow> u16 \<Rightarrow> u32 \<Rightarrow> bytes option \<Rightarrow> u64 \<Rightarrow> fr_status \<times> fr_buf" where
  "fr_frame_encode alloc out type flags req_id payload payload_len =
     (if \<not> fr_msg_type_valid type then (FR_E_ARG, out)
      else if flags \<noteq> 0 then (FR_E_ARG, out)
      else if req_id = 0 then (FR_E_ARG, out)
      else if payload = None \<and> payload_len \<noteq> 0 then (FR_E_ARG, out)
      else if payload_len > of_nat FR_FRAME_MAX_PAYLOAD then (FR_E_RANGE, out)
      else
        let header = frame_header type flags req_id (ucast payload_len)
        in case fr_checked_add_size (of_nat FR_FRAME_HEADER_SIZE) payload_len of
             None \<Rightarrow> (FR_E_OVERFLOW, out)
           | Some frame_len \<Rightarrow>
               (case fr_buf_reserve alloc out frame_len of
                  (st, out1) \<Rightarrow>
                    if st \<noteq> FR_OK then (st, out1)
                    else case fr_buf_append alloc out1 (Some header) (of_nat FR_FRAME_HEADER_SIZE) of
                           (st2, out2) \<Rightarrow>
                             if st2 \<noteq> FR_OK then (st2, out2)
                             else fr_buf_append alloc out2 payload payload_len))"

section \<open>The incremental parser\<close>

record fr_frame =
  frame_type :: u8
  frame_flags :: u16
  frame_req_id :: u32
  frame_payload :: "bytes option"
  frame_payload_len :: nat

record fr_frame_parser =
  payload_buf :: fr_buf
  header :: bytes
  header_have :: nat
  header_done :: bool
  p_type :: u8
  p_flags :: u16
  p_req_id :: u32
  payload_need :: u32

definition fr_frame_parser_init :: fr_frame_parser where
  "fr_frame_parser_init =
     \<lparr>payload_buf = fr_buf_init, header = replicate FR_FRAME_HEADER_SIZE 0, header_have = 0,
      header_done = False, p_type = 0, p_flags = 0, p_req_id = 0, payload_need = 0\<rparr>"

definition fr_frame_parser_destroy :: "fr_frame_parser \<Rightarrow> fr_frame_parser" where
  "fr_frame_parser_destroy p = fr_frame_parser_init"

definition frame_validate_header :: "fr_frame_parser \<Rightarrow> fr_status \<times> fr_frame_parser" where
  "frame_validate_header p =
     (if take FR_FRAME_MAGIC_LEN (header p) \<noteq> FR_FRAME_MAGIC then (FR_E_PROTOCOL, p)
      else if header p ! 4 \<noteq> FR_FRAME_VERSION then (FR_E_PROTOCOL, p)
      else
        let p = p\<lparr>p_type := header p ! 5,
                  p_flags := fr_load_be16 (drop 6 (header p)),
                  p_req_id := fr_load_be32 (drop 8 (header p)),
                  payload_need := fr_load_be32 (drop 12 (header p))\<rparr>
        in if p_flags p \<noteq> 0 then (FR_E_PROTOCOL, p)
           else if p_req_id p = 0 then (FR_E_PROTOCOL, p)
           else if \<not> fr_msg_type_valid (p_type p) then (FR_E_PROTOCOL, p)
           else if payload_need p > of_nat FR_FRAME_MAX_PAYLOAD then (FR_E_PROTOCOL, p)
           else let stored_crc = fr_load_be32 (drop 16 (header p))
                in if stored_crc \<noteq> fr_crc32 (Some (header p)) 16 then (FR_E_PROTOCOL, p)
                   else (FR_OK, p))"

text \<open>\<open>memcpy (dst + at) src n\<close> on an array.\<close>

definition memcpy_at :: "bytes \<Rightarrow> nat \<Rightarrow> bytes \<Rightarrow> bytes" where
  "memcpy_at dst pos src = take pos dst @ src @ drop (pos + length src) dst"

text \<open>Phase one, the \<open>while\<close> loop: status, parser and offset reached.\<close>

function absorb_header ::
  "fr_frame_parser \<Rightarrow> bytes \<Rightarrow> nat \<Rightarrow> nat \<Rightarrow> fr_status \<times> fr_frame_parser \<times> nat" where
  "absorb_header p bs len off =
     (if \<not> header_done p \<and> header_have p < FR_FRAME_HEADER_SIZE \<and> off < len
      then
        let want = FR_FRAME_HEADER_SIZE - header_have p;
            n = (if len - off < want then len - off else want);
            p = p\<lparr>header := memcpy_at (header p) (header_have p) (take n (drop off bs)),
                  header_have := header_have p + n\<rparr>;
            off = off + n
        in if header_have p = FR_FRAME_HEADER_SIZE
           then case frame_validate_header p of
                  (st, p) \<Rightarrow>
                    if st \<noteq> FR_OK then (st, p, off)
                    else absorb_header (p\<lparr>header_done := True\<rparr>) bs len off
           else absorb_header p bs len off
      else (FR_OK, p, off))"
  by pat_completeness auto

termination absorb_header
  by (relation "measure (\<lambda>(p, bs, len, off). len - off)") (auto simp: Let_def)

declare absorb_header.simps [simp del]

text \<open>
  Phase two and completion. The result is the status, the parser, the value stored to
  \<open>consumed\<close> if any, and the frame if \<open>frame_ready\<close> was set.
\<close>

type_synonym feed_result = "fr_status \<times> fr_frame_parser \<times> nat option \<times> fr_frame option"

text \<open>The append of phase two, skipped when there is nothing to copy.\<close>

definition append_some :: "alloc \<Rightarrow> fr_buf \<Rightarrow> bytes \<Rightarrow> nat \<Rightarrow> fr_status \<times> fr_buf" where
  "append_some alloc b src n =
     (if n \<noteq> 0 then fr_buf_append alloc b (Some src) (of_nat n) else (FR_OK, b))"

definition absorb_payload :: "alloc \<Rightarrow> fr_frame_parser \<Rightarrow> bytes \<Rightarrow> nat \<Rightarrow> nat \<Rightarrow> feed_result" where
  "absorb_payload alloc p bs len off =
     (let need = unat (ucast (payload_need p) - buf_len (payload_buf p));
          n = (if len - off < need then len - off else need);
          (st, pb) = append_some alloc (payload_buf p) (drop off bs) n;
          p = p\<lparr>payload_buf := pb\<rparr>
      in if st \<noteq> FR_OK then (st, p, None, None)
         else
           let off = off + n
           in if buf_len (payload_buf p) \<noteq> ucast (payload_need p) then (FR_OK, p, Some off, None)
              else
                let out = \<lparr>frame_type = p_type p, frame_flags = p_flags p,
                           frame_req_id = p_req_id p,
                           frame_payload =
                             (if buf_len (payload_buf p) \<noteq> 0 then Some (buf_bytes (payload_buf p))
                              else None),
                           frame_payload_len = unat (buf_len (payload_buf p))\<rparr>;
                    p = p\<lparr>header_have := 0, header_done := False, p_type := 0, p_flags := 0,
                          p_req_id := 0, payload_need := 0,
                          payload_buf := fr_buf_clear (payload_buf p)\<rparr>
                in (FR_OK, p, Some off, Some out))"

definition fr_frame_parser_feed :: "alloc \<Rightarrow> fr_frame_parser \<Rightarrow> bytes option \<Rightarrow> nat \<Rightarrow> feed_result" where
  "fr_frame_parser_feed alloc p data len =
     (if data = None \<and> len \<noteq> 0 then (FR_E_ARG, p, None, None)
      else case absorb_header p (mem_of data) len 0 of
             (st, p, off) \<Rightarrow>
               if st \<noteq> FR_OK then (st, p, None, None)
               else if \<not> header_done p then (FR_OK, p, Some off, None)
               else absorb_payload alloc p (mem_of data) len off)"


section \<open>Abstract specification: parsing a whole stream\<close>

text \<open>Which 20 bytes are an acceptable header, and the payload length they announce.\<close>

definition header_need :: "bytes \<Rightarrow> nat" where
  "header_need h = unat (fr_load_be32 (drop 12 h))"

definition header_ok :: "bytes \<Rightarrow> bool" where
  "header_ok h =
     (take 4 h = FR_FRAME_MAGIC \<and> h ! 4 = FR_FRAME_VERSION \<and> fr_load_be16 (drop 6 h) = 0 \<and>
      fr_load_be32 (drop 8 h) \<noteq> 0 \<and> fr_msg_type_valid (h ! 5) \<and>
      header_need h \<le> FR_FRAME_MAX_PAYLOAD \<and> fr_load_be32 (drop 16 h) = fr_crc32 (Some h) 16)"

definition header_frame :: "bytes \<Rightarrow> bytes \<Rightarrow> fr_frame" where
  "header_frame h payload =
     \<lparr>frame_type = h ! 5, frame_flags = fr_load_be16 (drop 6 h),
      frame_req_id = fr_load_be32 (drop 8 h),
      frame_payload = (if payload = [] then None else Some payload),
      frame_payload_len = length payload\<rparr>"

datatype parse_outcome = NeedMore | Malformed | Parsed fr_frame nat

definition spec_parse :: "bytes \<Rightarrow> parse_outcome" where
  "spec_parse bs =
     (if length bs < 20 then NeedMore
      else if \<not> header_ok (take 20 bs) then Malformed
      else let n = header_need (take 20 bs)
           in if length bs < 20 + n then NeedMore
              else Parsed (header_frame (take 20 bs) (take n (drop 20 bs))) (20 + n))"

text \<open>The bytes a parser has behind it since the last frame.\<close>

definition pending :: "fr_frame_parser \<Rightarrow> bytes" where
  "pending p = (if header_done p then header p @ buf_bytes (payload_buf p)
                else take (header_have p) (header p))"

definition fields_of_header :: "fr_frame_parser \<Rightarrow> bool" where
  "fields_of_header p =
     (p_type p = header p ! 5 \<and> p_flags p = fr_load_be16 (drop 6 (header p)) \<and>
      p_req_id p = fr_load_be32 (drop 8 (header p)) \<and>
      payload_need p = fr_load_be32 (drop 12 (header p)))"

text \<open>The payload buffer never holds more than twice the payload limit.\<close>

definition cap_ok :: "fr_buf \<Rightarrow> bool" where
  "cap_ok b = (unat (buf_cap b) \<le> 2 * FR_FRAME_MAX_PAYLOAD)"

text \<open>The invariant between two calls, while no error has been reported.\<close>

definition parser_inv :: "fr_frame_parser \<Rightarrow> bool" where
  "parser_inv p =
     (length (header p) = 20 \<and> buf_wf (payload_buf p) \<and> cap_ok (payload_buf p) \<and>
      (if header_done p
       then header_have p = 20 \<and> header_ok (header p) \<and> fields_of_header p \<and>
            length (buf_bytes (payload_buf p)) < unat (payload_need p)
       else header_have p < 20 \<and> buf_bytes (payload_buf p) = []))"

text \<open>The state a failed header leaves behind.\<close>

definition parser_dead :: "fr_frame_parser \<Rightarrow> bool" where
  "parser_dead p = (\<not> header_done p \<and> header_have p = 20)"

lemma fr_load_be32_mono: "unat (fr_load_be32 b) < 2 ^ 32"
  using unsigned_less [of "fr_load_be32 b", where ?'a = nat] by simp

lemma max_payload_u32: "(x :: u32) > of_nat FR_FRAME_MAX_PAYLOAD \<longleftrightarrow> FR_FRAME_MAX_PAYLOAD < unat x"
  by (simp add: word_less_nat_alt FR_FRAME_MAX_PAYLOAD_def)

lemma validate_header:
  "frame_validate_header p = (st, p') \<Longrightarrow>
   (st = FR_OK \<and> header_ok (header p) \<and> fields_of_header p' \<and> header p' = header p \<and>
      payload_buf p' = payload_buf p \<and> header_done p' = header_done p \<and>
      header_have p' = header_have p) \<or>
   (st = FR_E_PROTOCOL \<and> \<not> header_ok (header p) \<and> header p' = header p \<and>
      payload_buf p' = payload_buf p \<and> header_done p' = header_done p \<and>
      header_have p' = header_have p)"
  unfolding frame_validate_header_def Let_def FR_FRAME_MAGIC_LEN_def header_ok_def
    fields_of_header_def header_need_def
  by (auto simp: max_payload_u32 split: if_splits)

section \<open>The parser refines the specification\<close>

lemma absorb_done: "header_done p \<Longrightarrow> absorb_header p bs len off = (FR_OK, p, off)"
  by (subst absorb_header.simps) simp

lemma absorb_full: "header_have p = 20 \<Longrightarrow> absorb_header p bs len off = (FR_OK, p, off)"
  by (subst absorb_header.simps) (simp add: FR_FRAME_HEADER_SIZE_def)

lemma absorb_end: "len \<le> off \<Longrightarrow> absorb_header p bs len off = (FR_OK, p, off)"
  by (subst absorb_header.simps) simp

text \<open>Too few bytes for the header: all of them are kept.\<close>

lemma absorb_short:
  assumes "\<not> header_done p" and "header_have p + len < 20"
    and "length (header p) = 20" and "len \<le> length bs"
  obtains p' where "absorb_header p bs len 0 = (FR_OK, p', len)" and "\<not> header_done p'"
    and "header_have p' = header_have p + len" and "payload_buf p' = payload_buf p"
    and "length (header p') = 20" and "pending p' = pending p @ take len bs"
proof (cases "len = 0")
  case True
  then show ?thesis using that [of p] assms by (simp add: absorb_end)
next
  case False
  let ?p = "p\<lparr>header := memcpy_at (header p) (header_have p) (take len bs),
              header_have := header_have p + len\<rparr>"
  have "absorb_header p bs len 0 = absorb_header ?p bs len len"
    using assms False less_diff_conv [of len 20 "header_have p"]
    by (subst absorb_header.simps) (simp add: FR_FRAME_HEADER_SIZE_def Let_def)
  then have "absorb_header p bs len 0 = (FR_OK, ?p, len)" by (simp add: absorb_end)
  then show ?thesis
    by (rule that) (use assms in \<open>auto simp: memcpy_at_def pending_def\<close>)
qed

text \<open>Enough bytes: the header is completed and checked.\<close>

lemma absorb_complete:
  assumes "\<not> header_done p" and "header_have p < 20" and "20 \<le> header_have p + len"
    and "length (header p) = 20" and "len \<le> length bs"
  defines "h \<equiv> take 20 (pending p @ take len bs)" and "n \<equiv> 20 - header_have p"
  shows "(header_ok h \<and> (\<exists>p'. absorb_header p bs len 0 = (FR_OK, p', n) \<and> header_done p' \<and>
            header p' = h \<and> header_have p' = 20 \<and> fields_of_header p' \<and>
            payload_buf p' = payload_buf p)) \<or>
         (\<not> header_ok h \<and> (\<exists>p'. absorb_header p bs len 0 = (FR_E_PROTOCOL, p', n) \<and> parser_dead p'))"
proof -
  let ?p = "p\<lparr>header := memcpy_at (header p) (header_have p) (take n bs),
              header_have := header_have p + n\<rparr>"
  have nl: "20 - header_have p \<le> len" using assms(3) by simp
  have hp: "header ?p = h" "header_have ?p = 20" "\<not> header_done ?p" "payload_buf ?p = payload_buf p"
    using assms nl by (simp_all add: memcpy_at_def pending_def min_absorb1 min_absorb2)
  have step: "absorb_header p bs len 0 =
      (case frame_validate_header ?p of (st, q) \<Rightarrow>
         if st \<noteq> FR_OK then (st, q, n) else absorb_header (q\<lparr>header_done := True\<rparr>) bs len n)"
    using assms(1-4) nl unfolding n_def
    by (subst absorb_header.simps) (simp add: FR_FRAME_HEADER_SIZE_def Let_def)
  obtain st q where v: "frame_validate_header ?p = (st, q)" by (cases "frame_validate_header ?p")
  have res: "absorb_header p bs len 0 =
      (if st \<noteq> FR_OK then (st, q, n) else (FR_OK, q\<lparr>header_done := True\<rparr>, n))"
    unfolding step v by (simp add: absorb_done)
  have "fields_of_header q \<Longrightarrow> fields_of_header (q\<lparr>header_done := True\<rparr>)"
    by (simp add: fields_of_header_def)
  then show ?thesis
    using validate_header [OF v] assms(1) unfolding res hp by (auto simp: parser_dead_def)
qed

lemma need_u64: "unat (ucast (x :: u32) :: u64) = unat x"
  using unsigned_less [of x, where ?'a = nat]
  by (simp add: unsigned_ucast_eq take_bit_nat_eq_self)

lemma reserve_cap:
  assumes "buf_wf b" and "cap_ok b" and "length (buf_bytes b) + unat n \<le> FR_FRAME_MAX_PAYLOAD"
    and "fr_buf_reserve alloc b n = (st, b')"
  shows "cap_ok b'"
proof -
  obtain needed where nd: "fr_checked_add_size (buf_len b) n = Some needed"
    using assms(3) buf_len_unat [OF assms(1)] unfolding FR_FRAME_MAX_PAYLOAD_def
    by (cases "fr_checked_add_size (buf_len b) n") (simp_all add: checked_add_size_None)
  then have "unat needed \<le> FR_FRAME_MAX_PAYLOAD"
    using assms(3) buf_len_unat [OF assms(1)] by (simp add: checked_add_size_iff)
  moreover have "unat (start_cap b) \<le> 2 * FR_FRAME_MAX_PAYLOAD"
    using assms(2) by (simp add: start_cap_def cap_ok_def FR_FRAME_MAX_PAYLOAD_def)
  ultimately show ?thesis
    using assms(2,4) nd grow_cap_bounds [of 65 "start_cap b" needed]
    by (auto simp: fr_buf_reserve_def cap_ok_def split: if_splits sum.splits)
qed

lemma append_part:
  assumes "buf_wf b" and "cap_ok b" and "n \<le> length src"
    and "length (buf_bytes b) + n \<le> FR_FRAME_MAX_PAYLOAD"
  obtains (ok) b' where "append_some alloc b src n = (FR_OK, b')"
    and "buf_bytes b' = buf_bytes b @ take n src" and "buf_wf b'" and "cap_ok b'"
  | (refused) st where "append_some alloc b src n = (st, b)" and "st \<noteq> FR_OK" and "n \<noteq> 0"
    and "\<not> (\<forall>k. alloc k)"
proof (cases "n = 0")
  case True
  then show ?thesis using ok [of b] assms by (simp add: append_some_def)
next
  case False
  have un: "unat (of_nat n :: u64) = n"
    using assms(4) by (simp add: unat_of_nat FR_FRAME_MAX_PAYLOAD_def)
  obtain st b1 where r: "fr_buf_reserve alloc b (of_nat n) = (st, b1)"
    by (cases "fr_buf_reserve alloc b (of_nat n)")
  show ?thesis
  proof (cases "st = FR_OK")
    case True
    then obtain b2 where a: "fr_buf_append alloc b (Some src) (of_nat n) = (FR_OK, b2)"
      using r by (auto simp: fr_buf_append_def)
    moreover have "buf_cap b2 = buf_cap b1" using a r True by (auto simp: fr_buf_append_def)
    moreover have "cap_ok b1" using reserve_cap [OF assms(1,2) _ r] un assms(4) by simp
    ultimately show ?thesis
      using ok [of b2] append_ok [OF assms(1) a] un assms(3) False
      by (simp add: append_some_def cap_ok_def)
  next
    case no: False
    have "\<not> (\<forall>k. alloc k)"
      using reserve_succeeds [OF assms(1), of "of_nat n" alloc] r no un assms(4)
      by (auto simp: FR_FRAME_MAX_PAYLOAD_def)
    then show ?thesis
      using refused [of st] False no r reserve_fail [OF r no]
      by (simp add: append_some_def fr_buf_append_def)
  qed
qed

text \<open>The payload phase on an accepted header \<open>h\<close>.\<close>

definition payload_ready :: "fr_frame_parser \<Rightarrow> bool" where
  "payload_ready p =
     (header_done p \<and> length (header p) = 20 \<and> header_ok (header p) \<and> header_have p = 20 \<and>
      fields_of_header p \<and> buf_wf (payload_buf p) \<and> cap_ok (payload_buf p) \<and>
      length (buf_bytes (payload_buf p)) \<le> header_need (header p))"

lemma payload_ready_need:
  assumes "payload_ready p"
  shows "unat (payload_need p) = header_need (header p)"
    and "unat (buf_len (payload_buf p)) = length (buf_bytes (payload_buf p))"
    and "unat (ucast (payload_need p) - buf_len (payload_buf p)) =
         header_need (header p) - length (buf_bytes (payload_buf p))"
    and "header_need (header p) \<le> FR_FRAME_MAX_PAYLOAD"
proof -
  show pn: "unat (payload_need p) = header_need (header p)"
    using assms by (simp add: payload_ready_def fields_of_header_def header_need_def)
  show bl: "unat (buf_len (payload_buf p)) = length (buf_bytes (payload_buf p))"
    using assms by (simp add: payload_ready_def buf_len_unat)
  show "unat (ucast (payload_need p) - buf_len (payload_buf p)) =
         header_need (header p) - length (buf_bytes (payload_buf p))"
    using assms pn bl
    by (subst unat_sub) (simp_all add: word_le_nat_alt need_u64 payload_ready_def)
  show "header_need (header p) \<le> FR_FRAME_MAX_PAYLOAD"
    using assms by (simp add: payload_ready_def header_ok_def)
qed

lemma absorb_payload_refused:
  assumes "payload_ready p" and "n \<noteq> 0"
    and n: "n = (if len - off < header_need (header p) - length (buf_bytes (payload_buf p))
                 then len - off else header_need (header p) - length (buf_bytes (payload_buf p)))"
    and "append_some alloc (payload_buf p) (drop off bs) n = (st, payload_buf p)" and "st \<noteq> FR_OK"
  shows "absorb_payload alloc p bs len off = (st, p, None, None) \<and> parser_inv p"
proof -
  note need = payload_ready_need [OF assms(1)]
  have "length (buf_bytes (payload_buf p)) < header_need (header p)"
    using assms(2) n by (auto split: if_splits)
  then show ?thesis
    unfolding absorb_payload_def need(3) Let_def n [symmetric] assms(4)
    using assms(1,5) need(1) by (simp add: parser_inv_def payload_ready_def)
qed

lemma absorb_payload_more:
  assumes "payload_ready p" and "off \<le> len" and "len \<le> length bs"
    and less: "len - off < header_need (header p) - length (buf_bytes (payload_buf p))"
    and ap: "append_some alloc (payload_buf p) (drop off bs) (len - off) = (FR_OK, b')"
    and b': "buf_bytes b' = buf_bytes (payload_buf p) @ take (len - off) (drop off bs)"
    and wf: "buf_wf b'" "cap_ok b'"
  shows "\<exists>p'. absorb_payload alloc p bs len off = (FR_OK, p', Some len, None) \<and> parser_inv p' \<and>
     pending p' = header p @ buf_bytes (payload_buf p) @ take (len - off) (drop off bs)"
proof -
  note need = payload_ready_need [OF assms(1)]
  have lb: "unat (buf_len b') = length (buf_bytes (payload_buf p)) + (len - off)"
    using buf_len_unat [OF wf(1)] assms(2,3) by (simp add: b')
  have ne: "buf_len b' \<noteq> ucast (payload_need p)"
    using lb less need(1) by (auto simp: word_unat_eq_iff need_u64)
  have "absorb_payload alloc p bs len off = (FR_OK, p\<lparr>payload_buf := b'\<rparr>, Some len, None)"
    unfolding absorb_payload_def need(3) Let_def if_P [OF less] ap
    using ne assms(2) by simp
  moreover have "parser_inv (p\<lparr>payload_buf := b'\<rparr>)"
    and "pending (p\<lparr>payload_buf := b'\<rparr>) =
      header p @ buf_bytes (payload_buf p) @ take (len - off) (drop off bs)"
    using assms(1-4) wf need(1) b' lb
    by (simp_all add: payload_ready_def parser_inv_def pending_def fields_of_header_def)
  ultimately show ?thesis by blast
qed

lemma absorb_payload_all:
  assumes "payload_ready p" and "off \<le> len" and "len \<le> length bs"
    and n: "n = header_need (header p) - length (buf_bytes (payload_buf p))" and "n \<le> len - off"
    and ap: "append_some alloc (payload_buf p) (drop off bs) n = (FR_OK, b')"
    and b': "buf_bytes b' = buf_bytes (payload_buf p) @ take n (drop off bs)"
    and wf: "buf_wf b'" "cap_ok b'"
  shows "\<exists>p'. absorb_payload alloc p bs len off =
      (FR_OK, p', Some (off + n),
       Some (header_frame (header p) (buf_bytes (payload_buf p) @ take n (drop off bs)))) \<and>
      parser_inv p' \<and> pending p' = []"
proof -
  note need = payload_ready_need [OF assms(1), folded n]
  have lb: "unat (buf_len b') = header_need (header p)"
    using buf_len_unat [OF wf(1)] assms(1-5) by (simp add: b' payload_ready_def min_absorb2)
  have eq: "buf_len b' = ucast (payload_need p)"
    using lb need(1) by (auto simp: word_unat_eq_iff need_u64)
  have nz: "buf_len b' \<noteq> 0 \<longleftrightarrow> buf_bytes b' \<noteq> []"
    using buf_len_unat [OF wf(1)] by (auto simp: word_unat_eq_iff)
  let ?p = "p\<lparr>payload_buf := fr_buf_clear b', header_have := 0, header_done := False,
             p_type := 0, p_flags := 0, p_req_id := 0, payload_need := 0\<rparr>"
  have take: "(if len - off < n then len - off else n) = n" using assms(5) by simp
  have "fields_of_header p" using assms(1) by (simp add: payload_ready_def)
  then have "absorb_payload alloc p bs len off =
      (FR_OK, ?p, Some (off + n), Some (header_frame (header p) (buf_bytes b')))"
    unfolding absorb_payload_def need(3) Let_def take ap
    using eq nz buf_len_unat [OF wf(1)] by (simp add: header_frame_def fields_of_header_def)
  moreover have "parser_inv ?p" and "pending ?p = []"
    using assms(1) wf(2)
    by (simp_all add: parser_inv_def pending_def fr_buf_clear_def buf_wf_def cap_ok_def
        payload_ready_def)
  ultimately show ?thesis using b' by auto
qed

text \<open>What a call answers when the specification gives \<open>r\<close>.\<close>

fun feed_answers :: "feed_result \<Rightarrow> bytes \<Rightarrow> nat \<Rightarrow> nat \<Rightarrow> parse_outcome \<Rightarrow> bool" where
  "feed_answers (st, p', consumed, f) stream before len NeedMore =
     (st = FR_OK \<and> consumed = Some len \<and> f = None \<and> parser_inv p' \<and> pending p' = stream)"
| "feed_answers (st, p', consumed, f) stream before len Malformed =
     (st = FR_E_PROTOCOL \<and> consumed = None \<and> f = None \<and> parser_dead p')"
| "feed_answers (st, p', consumed, f) stream before len (Parsed g n) =
     (st = FR_OK \<and> consumed = Some (n - before) \<and> f = Some g \<and> parser_inv p' \<and> pending p' = [])"

text \<open>The answer to a refused allocation.\<close>

fun feed_refused :: "alloc \<Rightarrow> feed_result \<Rightarrow> bool" where
  "feed_refused alloc (st, p', consumed, f) =
     (st \<noteq> FR_OK \<and> consumed = None \<and> f = None \<and> parser_inv p' \<and> \<not> (\<forall>k. alloc k))"

lemma payload_phase:
  assumes ready: "payload_ready p" and off: "off \<le> len" "len \<le> length bs"
    and stream: "stream = header p @ buf_bytes (payload_buf p) @ take (len - off) (drop off bs)"
    and before: "length stream = before + len"
  shows "feed_answers (absorb_payload alloc p bs len off) stream before len (spec_parse stream) \<or>
         feed_refused alloc (absorb_payload alloc p bs len off)"
proof -
  let ?need = "header_need (header p) - length (buf_bytes (payload_buf p))"
  let ?n = "if len - off < ?need then len - off else ?need"
  have h: "take 20 stream = header p" "header_ok (header p)" "\<not> length stream < 20"
    "length (buf_bytes (payload_buf p)) \<le> header_need (header p)" "length (header p) = 20"
    "buf_wf (payload_buf p)" "cap_ok (payload_buf p)"
    using ready stream by (simp_all add: payload_ready_def)
  have ls: "length stream = 20 + length (buf_bytes (payload_buf p)) + (len - off)"
    using stream off h by simp
  have room: "?n \<le> length (drop off bs)"
    "length (buf_bytes (payload_buf p)) + ?n \<le> FR_FRAME_MAX_PAYLOAD"
    using off h(4) payload_ready_need(4) [OF ready] by auto
  show ?thesis
  proof (rule append_part [OF h(6,7) room, of alloc], goal_cases)
    case (2 st)
    then show ?case using absorb_payload_refused [OF ready _ refl, of len off alloc bs st] by simp
  next
    case (1 b')
    show ?case
    proof (cases "len - off < ?need")
      case True
      then have "spec_parse stream = NeedMore"
        using h ls by (auto simp: spec_parse_def Let_def)
      then show ?thesis
        using absorb_payload_more [OF ready off True, of alloc b'] 1 True stream by auto
    next
      case False
      then have "spec_parse stream =
          Parsed (header_frame (header p) (take (header_need (header p)) (drop 20 stream)))
            (20 + header_need (header p))"
        using h ls by (auto simp: spec_parse_def Let_def)
      moreover have "take (header_need (header p)) (drop 20 stream) =
          buf_bytes (payload_buf p) @ take ?need (drop off bs)"
        using h False by (simp add: stream min_absorb1)
      moreover have "20 + header_need (header p) - before = off + ?need"
        using before ls h(4) off by simp
      ultimately show ?thesis
        using absorb_payload_all [OF ready off refl, of alloc b'] 1 False by auto
    qed
  qed
qed

lemma feed_spec:
  assumes inv: "parser_inv p" and len: "len \<le> length bs"
  shows "feed_answers (fr_frame_parser_feed alloc p (Some bs) len) (pending p @ take len bs)
           (length (pending p)) len (spec_parse (pending p @ take len bs)) \<or>
         feed_refused alloc (fr_frame_parser_feed alloc p (Some bs) len)"
    (is "feed_answers _ ?stream _ _ _ \<or> _")
proof -
  have ls: "length ?stream = length (pending p) + len" using len by simp
  show ?thesis
  proof (cases "header_done p")
    case True
    with inv have "payload_ready p"
      by (auto simp: parser_inv_def payload_ready_def fields_of_header_def header_need_def)
    then show ?thesis
      using payload_phase [of p 0 len bs ?stream "length (pending p)" alloc] True len ls
      by (simp add: fr_frame_parser_feed_def absorb_done pending_def)
  next
    case False
    with inv have h: "header_have p < 20" "length (header p) = 20" "length (pending p) = header_have p"
      "buf_bytes (payload_buf p) = []" "buf_wf (payload_buf p)" "cap_ok (payload_buf p)"
      by (simp_all add: parser_inv_def pending_def)
    show ?thesis
    proof (cases "header_have p + len < 20")
      case True
      then obtain p' where p': "absorb_header p bs len 0 = (FR_OK, p', len)" "\<not> header_done p'"
        "header_have p' = header_have p + len" "payload_buf p' = payload_buf p"
        "length (header p') = 20" "pending p' = ?stream"
        using absorb_short [OF False True h(2) len] by metis
      then show ?thesis
        using True h ls
        by (simp add: fr_frame_parser_feed_def spec_parse_def parser_inv_def)
    next
      case long: False
      let ?h = "take 20 ?stream" and ?n = "20 - header_have p"
      have l20: "\<not> length ?stream < 20" "length ?h = 20" using long ls h by simp_all
      consider (bad) "\<not> header_ok ?h"
          "\<exists>p'. absorb_header p bs len 0 = (FR_E_PROTOCOL, p', ?n) \<and> parser_dead p'"
        | (good) p' where "header_ok ?h" "absorb_header p bs len 0 = (FR_OK, p', ?n)"
          "header_done p'" "header p' = ?h" "header_have p' = 20" "fields_of_header p'"
          "payload_buf p' = payload_buf p"
        using absorb_complete [OF False h(1) _ h(2) len] long by fastforce
      then show ?thesis
      proof cases
        case bad
        then show ?thesis
          using l20 by (auto simp: fr_frame_parser_feed_def spec_parse_def)
      next
        case good
        have hd: "header p' = pending p @ take ?n bs" using good(4) h long by simp
        have split: "take len bs = take ?n bs @ take (len - ?n) (drop ?n bs)"
          using long h by (simp add: take_add [symmetric] del: take_add)
        have "payload_ready p'" using good h l20 by (simp add: payload_ready_def)
        moreover have "?stream = header p' @ buf_bytes (payload_buf p') @ take (len - ?n) (drop ?n bs)"
          by (simp only: hd good(7) h(4) split append_assoc append_Nil)
        ultimately have "feed_answers (absorb_payload alloc p' bs len ?n) ?stream
            (length (pending p)) len (spec_parse ?stream) \<or>
            feed_refused alloc (absorb_payload alloc p' bs len ?n)"
          using payload_phase [OF _ _ len _ ls, of p' ?n alloc] long by simp
        then show ?thesis
          by (simp only: fr_frame_parser_feed_def mem_of_simps good(2)) (simp add: good(3))
      qed
    qed
  qed
qed

section \<open>What the encoder writes\<close>

lemma magic_bytes: "FR_FRAME_MAGIC = [0x46, 0x52, 0x4C, 0x59]"
  by code_simp

lemma length_header_prefix [simp]: "length (header_prefix t f r n) = 16"
  by (simp add: header_prefix_def magic_bytes length_store_be)

lemma length_frame_header [simp]: "length (frame_header t f r n) = 20"
  by (simp add: frame_header_def Let_def length_store_be)

lemma crc32_prefix: "length h = n \<Longrightarrow> fr_crc32 (Some (h @ x)) n = fr_crc32 (Some h) n"
  by (simp add: fr_crc32_def)

lemma frame_header_fields:
  "take 4 (frame_header t f r n) = FR_FRAME_MAGIC" "frame_header t f r n ! 4 = FR_FRAME_VERSION"
  "frame_header t f r n ! 5 = t" "fr_load_be16 (drop 6 (frame_header t f r n)) = f"
  "fr_load_be32 (drop 8 (frame_header t f r n)) = r"
  "fr_load_be32 (drop 12 (frame_header t f r n)) = n"
  "fr_load_be32 (drop 16 (frame_header t f r n)) = fr_crc32 (Some (frame_header t f r n)) 16"
proof -
  show "take 4 (frame_header t f r n) = FR_FRAME_MAGIC" "frame_header t f r n ! 4 = FR_FRAME_VERSION"
    "frame_header t f r n ! 5 = t" "fr_load_be16 (drop 6 (frame_header t f r n)) = f"
    "fr_load_be32 (drop 8 (frame_header t f r n)) = r"
    "fr_load_be32 (drop 12 (frame_header t f r n)) = n"
    by (simp_all add: frame_header_def header_prefix_def magic_bytes Let_def load_store_be16
        load_store_be32 length_store_be)
  have "drop 16 (frame_header t f r n) = fr_store_be32 (fr_crc32 (Some (header_prefix t f r n)) 16)"
    by (simp add: frame_header_def Let_def)
  then show "fr_load_be32 (drop 16 (frame_header t f r n)) = fr_crc32 (Some (frame_header t f r n)) 16"
    by (simp add: load_store_be_nil frame_header_def Let_def crc32_prefix)
qed

lemma header_ok_frame_header:
  "fr_msg_type_valid t \<Longrightarrow> r \<noteq> 0 \<Longrightarrow> unat n \<le> FR_FRAME_MAX_PAYLOAD \<Longrightarrow>
   header_ok (frame_header t 0 r n)"
  by (simp add: header_ok_def frame_header_fields header_need_def)

text \<open>An accepted header is the one the encoder writes for its fields.\<close>

lemma load_be_prefix:
  "fr_load_be16 (a # b # xs) = fr_load_be16 [a, b]"
  "fr_load_be32 (a # b # c # d # xs) = fr_load_be32 [a, b, c, d]"
  by (simp_all add: fr_load_be16_def fr_load_be32_def)

lemma store_load_take:
  "2 \<le> length bs \<Longrightarrow> fr_store_be16 (fr_load_be16 bs) = take 2 bs"
  "4 \<le> length bs \<Longrightarrow> fr_store_be32 (fr_load_be32 bs) = take 4 bs"
proof -
  assume "2 \<le> length bs"
  then obtain a b xs where "bs = a # b # xs"
    by (auto simp: numeral_eq_Suc Suc_le_length_iff)
  then show "fr_store_be16 (fr_load_be16 bs) = take 2 bs"
    by (simp only: load_be_prefix(1) [of a b xs] store_load_be16) simp
next
  assume "4 \<le> length bs"
  then obtain a b c d xs where "bs = a # b # c # d # xs"
    by (auto simp: numeral_eq_Suc Suc_le_length_iff)
  then show "fr_store_be32 (fr_load_be32 bs) = take 4 bs"
    by (simp only: load_be_prefix(2) [of a b c d xs] store_load_be32) simp
qed

lemma header_canonical:
  assumes "length h = 20" and "header_ok h"
  shows "h = frame_header (h ! 5) (fr_load_be16 (drop 6 h)) (fr_load_be32 (drop 8 h))
               (fr_load_be32 (drop 12 h))"
proof -
  let ?q = "header_prefix (h ! 5) (fr_load_be16 (drop 6 h)) (fr_load_be32 (drop 8 h))
              (fr_load_be32 (drop 12 h))"
  have "h = take 4 h @ [h ! 4, h ! 5] @ take 2 (drop 6 h) @ take 4 (drop 8 h) @
      take 4 (drop 12 h) @ take 4 (drop 16 h)"
    using assms(1) by (auto simp: length_Suc_conv numeral_eq_Suc)
  moreover have "?q = take 4 h @ [h ! 4, h ! 5] @ take 2 (drop 6 h) @ take 4 (drop 8 h) @
      take 4 (drop 12 h)"
    using assms store_load_take(1) [of "drop 6 h"] store_load_take(2) [of "drop 8 h"]
      store_load_take(2) [of "drop 12 h"]
    unfolding header_prefix_def by (simp only: header_ok_def length_drop)
  ultimately have q: "h = ?q @ take 4 (drop 16 h)" by (simp only: append_assoc)
  have "fr_crc32 (Some h) 16 = fr_crc32 (Some ?q) 16"
    by (subst q) (simp add: crc32_prefix)
  then have "take 4 (drop 16 h) = fr_store_be32 (fr_crc32 (Some ?q) 16)"
    using assms store_load_take(2) [of "drop 16 h"] by (simp add: header_ok_def)
  with q show ?thesis by (simp add: frame_header_def Let_def)
qed

text \<open>
  The encoder appends the whole frame or nothing: after the reservation neither append can fail.
\<close>

lemma append_within:
  assumes "buf_wf b" and "length (buf_bytes b) + unat n \<le> unat (buf_cap b)"
    and "src = None \<longrightarrow> n = 0"
  shows "fr_buf_append alloc b src n =
         (FR_OK, b\<lparr>buf_bytes := buf_bytes b @ take (unat n) (mem_of src)\<rparr>)"
proof -
  obtain needed where nd: "fr_checked_add_size (buf_len b) n = Some needed"
    using assms(2) buf_len_unat [OF assms(1)] unat_u64_less [of "buf_cap b"]
    by (cases "fr_checked_add_size (buf_len b) n") (simp_all add: checked_add_size_None)
  then have "needed \<le> buf_cap b"
    using assms(2) buf_len_unat [OF assms(1)]
    by (simp add: checked_add_size_iff word_le_nat_alt)
  with nd assms(3) show ?thesis by (auto simp: fr_buf_append_def fr_buf_reserve_def)
qed

definition encodable :: "u8 \<Rightarrow> u16 \<Rightarrow> u32 \<Rightarrow> bytes option \<Rightarrow> u64 \<Rightarrow> bool" where
  "encodable type flags req_id payload n =
     (fr_msg_type_valid type \<and> flags = 0 \<and> req_id \<noteq> 0 \<and> (payload = None \<longrightarrow> n = 0) \<and>
      unat n \<le> FR_FRAME_MAX_PAYLOAD)"

lemma encode_cases:
  assumes "buf_wf out" and "unat n \<le> length (mem_of payload)"
  shows "case fr_frame_encode alloc out type flags req_id payload n of (st, out') \<Rightarrow>
     if st = FR_OK
     then encodable type flags req_id payload n \<and> buf_wf out' \<and>
          buf_bytes out' = buf_bytes out @ frame_header type flags req_id (ucast n) @
                             take (unat n) (mem_of payload)
     else out' = out"
proof -
  have lim: "n > of_nat FR_FRAME_MAX_PAYLOAD \<longleftrightarrow> \<not> unat n \<le> FR_FRAME_MAX_PAYLOAD"
    by (auto simp: word_less_nat_alt FR_FRAME_MAX_PAYLOAD_def not_le)
  consider (bad) "\<not> encodable type flags req_id payload n"
    | (no_len) "encodable type flags req_id payload n"
        "fr_checked_add_size (of_nat FR_FRAME_HEADER_SIZE) n = None"
    | (len) k where "encodable type flags req_id payload n"
        "fr_checked_add_size (of_nat FR_FRAME_HEADER_SIZE) n = Some k"
    by (cases "fr_checked_add_size (of_nat FR_FRAME_HEADER_SIZE) n") auto
  then show ?thesis
  proof cases
    case bad
    then show ?thesis by (auto simp: fr_frame_encode_def encodable_def lim)
  next
    case no_len
    then show ?thesis by (auto simp: fr_frame_encode_def encodable_def lim)
  next
    case len
    then have k: "unat k = 20 + unat n"
      by (simp add: checked_add_size_iff FR_FRAME_HEADER_SIZE_def)
    obtain st out1 where r: "fr_buf_reserve alloc out k = (st, out1)"
      by (cases "fr_buf_reserve alloc out k")
    show ?thesis
    proof (cases "st = FR_OK")
      case False
      with reserve_fail [OF r] len r show ?thesis
        by (auto simp: fr_frame_encode_def encodable_def lim)
    next
      case True
      let ?h = "frame_header type 0 req_id (ucast n)"
      have room: "length (buf_bytes out1) + (20 + unat n) \<le> unat (buf_cap out1)"
        and by1: "buf_bytes out1 = buf_bytes out"
        using reserve_ok_room [OF assms(1), of alloc k out1] reserve_bytes [OF r] r True k
        by simp_all
      have a1: "fr_buf_append alloc out1 (Some ?h) (of_nat FR_FRAME_HEADER_SIZE) =
          (FR_OK, out1\<lparr>buf_bytes := buf_bytes out @ ?h\<rparr>)"
        using room by1
        by (subst append_within) (simp_all add: buf_wf_def FR_FRAME_HEADER_SIZE_def)
      have a2: "fr_buf_append alloc (out1\<lparr>buf_bytes := buf_bytes out @ ?h\<rparr>) payload n =
          (FR_OK, out1\<lparr>buf_bytes := (buf_bytes out @ ?h) @ take (unat n) (mem_of payload)\<rparr>)"
        using room by1 len
        by (subst append_within) (simp_all add: buf_wf_def encodable_def)
      show ?thesis
        using len r True a1 a2 room by1 assms(2)
        by (auto simp: fr_frame_encode_def encodable_def lim Let_def buf_wf_def)
    qed
  qed
qed

lemma spec_parse_longer:
  "spec_parse xs = NeedMore \<Longrightarrow> spec_parse (xs @ ys) = Parsed g n \<Longrightarrow> length xs \<le> n"
  by (auto simp: spec_parse_def Let_def split: if_splits)

section \<open>Properties\<close>

lemma parser_inv_init [simp]: "parser_inv fr_frame_parser_init" "pending fr_frame_parser_init = []"
  by (simp_all add: parser_inv_def fr_frame_parser_init_def FR_FRAME_HEADER_SIZE_def pending_def
      cap_ok_def fr_buf_init_def buf_wf_def)

lemma spec_parse_frame:
  assumes "encodable t f r payload n" and "unat n \<le> length (mem_of payload)"
  defines "body \<equiv> take (unat n) (mem_of payload)"
  shows "spec_parse (frame_header t f r (ucast n) @ body @ rest) =
         Parsed \<lparr>frame_type = t, frame_flags = 0, frame_req_id = r,
                 frame_payload = (if n = 0 then None else Some body),
                 frame_payload_len = unat n\<rparr> (20 + unat n)"
proof -
  have un: "unat (ucast n :: u32) = unat n"
    using assms(1)
    by (simp add: encodable_def FR_FRAME_MAX_PAYLOAD_def unsigned_ucast_eq take_bit_nat_eq_self)
  have "header_ok (frame_header t 0 r (ucast n))"
    using assms(1) un by (simp add: encodable_def header_ok_frame_header)
  moreover have "f = 0" using assms(1) by (simp add: encodable_def)
  moreover have "length body = unat n" using assms(2) by (simp add: body_def)
  moreover have "body = [] \<longleftrightarrow> n = 0"
    using \<open>length body = unat n\<close> by (auto simp: word_unat_eq_iff)
  ultimately show ?thesis
    by (simp add: spec_parse_def Let_def header_need_def frame_header_fields header_frame_def un)
qed

lemma spec_parse_Parsed:
  assumes "spec_parse bs = Parsed f n"
  shows "encodable (frame_type f) (frame_flags f) (frame_req_id f) (frame_payload f)
           (of_nat (frame_payload_len f))"
    and "n = 20 + frame_payload_len f"
    and "take n bs = frame_header (frame_type f) (frame_flags f) (frame_req_id f)
           (of_nat (frame_payload_len f)) @ mem_of (frame_payload f)"
    and "frame_payload_len f = length (mem_of (frame_payload f))"
proof -
  let ?h = "take 20 bs"
  have p: "\<not> length bs < 20" "header_ok ?h" "\<not> length bs < 20 + header_need ?h"
    "f = header_frame ?h (take (header_need ?h) (drop 20 bs))" "n = 20 + header_need ?h"
    using assms by (auto simp: spec_parse_def Let_def split: if_splits)
  have len: "frame_payload_len f = header_need ?h" using p by (simp add: header_frame_def)
  have max: "header_need ?h \<le> FR_FRAME_MAX_PAYLOAD" using p(2) by (simp add: header_ok_def)
  have z: "header_need ?h = 0 \<Longrightarrow> frame_payload_len f = 0" using len by simp
  show "encodable (frame_type f) (frame_flags f) (frame_req_id f) (frame_payload f)
          (of_nat (frame_payload_len f))"
    using p(2) max len
    by (auto simp: encodable_def header_ok_def p(4) header_frame_def unat_of_nat
        FR_FRAME_MAX_PAYLOAD_def)
  show "n = 20 + frame_payload_len f" using p(5) len by simp
  show "frame_payload_len f = length (mem_of (frame_payload f))"
    by (simp add: p(4) header_frame_def)
  have "(of_nat (frame_payload_len f) :: u32) = fr_load_be32 (drop 12 ?h)"
    unfolding len header_need_def by simp
  moreover have "?h = frame_header (?h ! 5) (fr_load_be16 (drop 6 ?h)) (fr_load_be32 (drop 8 ?h))
      (fr_load_be32 (drop 12 ?h))"
    using p(1,2) by (intro header_canonical) simp_all
  moreover have "take n bs = ?h @ take (header_need ?h) (drop 20 bs)"
    by (simp add: p(5) take_add)
  moreover have "mem_of (frame_payload f) = take (header_need ?h) (drop 20 bs)"
    by (simp add: p(4) header_frame_def)
  moreover have "frame_type f = ?h ! 5" "frame_flags f = fr_load_be16 (drop 6 ?h)"
    "frame_req_id f = fr_load_be32 (drop 8 ?h)"
    by (simp_all add: p(4) header_frame_def)
  ultimately show "take n bs = frame_header (frame_type f) (frame_flags f) (frame_req_id f)
      (of_nat (frame_payload_len f)) @ mem_of (frame_payload f)"
    by simp
qed

lemma feed_all:
  assumes "parser_inv q" and "\<forall>k. alloc k"
  shows "feed_answers (fr_frame_parser_feed alloc q (Some bs) (length bs)) (pending q @ bs)
      (length (pending q)) (length bs) (spec_parse (pending q @ bs))"
  using feed_spec [OF assms(1), of "length bs" bs alloc] assms(2)
  by (cases "fr_frame_parser_feed alloc q (Some bs) (length bs)") auto

lemma encodable_small:
  assumes "spec_parse bs = Parsed g n"
  shows "frame_payload_len g \<le> FR_FRAME_MAX_PAYLOAD" and "fr_msg_type_valid (frame_type g)"
    and "frame_flags g = 0" and "frame_req_id g \<noteq> 0"
  using assms
  by (auto simp: spec_parse_def Let_def header_frame_def header_ok_def split: if_splits)

text \<open>C26: Refinement of the incremental parser. A parser that has absorbed some prefix of a frame
  answers a call with \<open>len\<close> new bytes exactly as the one-shot specification
  \<open>spec_parse\<close> answers for prefix and new bytes together: it asks for more input and
  reports everything as consumed, reports a protocol error without touching \<open>consumed\<close>, or
  yields the frame and consumes up to its last byte only; in the first and third case the
  invariant holds again.\<close>

theorem feed_refines:
  assumes "parser_inv p" and "len \<le> length bs" and "\<forall>k. alloc k"
  shows "feed_answers (fr_frame_parser_feed alloc p (Some bs) len) (pending p @ take len bs)
           (length (pending p)) len (spec_parse (pending p @ take len bs))"
  using feed_spec [OF assms(1,2), of alloc] assms(3)
  by (cases "fr_frame_parser_feed alloc p (Some bs) len") auto

theorem feed_refines_witness:
  "feed_answers (fr_frame_parser_feed (\<lambda>k. True) fr_frame_parser_init (Some [0x46, 0x52]) 2)
     [0x46, 0x52] 0 2 (spec_parse [0x46, 0x52])"
  using feed_refines [of fr_frame_parser_init 2 "[0x46, 0x52]" "\<lambda>k. True"] by simp

text \<open>Fragmentation does not matter. If a first piece of input is absorbed without yielding a
  frame, then feeding a second piece to the resulting parser gives the same status and the same
  frame as feeding both pieces at once, and the consumed counts differ by the length of the first
  piece; on success the same unconsumed prefix is kept.\<close>

theorem feed_fragments:
  assumes "parser_inv p" and "\<forall>k. alloc k"
    and "fr_frame_parser_feed alloc p (Some xs) (length xs) = (FR_OK, p1, c1, None)"
  shows "\<exists>st c f p2 p3.
     fr_frame_parser_feed alloc p1 (Some ys) (length ys) = (st, p2, c, f) \<and>
     fr_frame_parser_feed alloc p (Some (xs @ ys)) (length (xs @ ys)) =
       (st, p3, map_option ((+) (length xs)) c, f) \<and>
     (st = FR_OK \<longrightarrow> pending p2 = pending p3) \<and> (st \<noteq> FR_OK \<longrightarrow> parser_dead p2 \<and> parser_dead p3)"
proof -
  note one = feed_all [OF _ assms(2)]
  have p1: "parser_inv p1 \<and> pending p1 = pending p @ xs \<and> spec_parse (pending p @ xs) = NeedMore"
    using one [OF assms(1), of xs] assms(3) by (cases "spec_parse (pending p @ xs)") auto
  let ?s = "pending p @ xs @ ys"
  obtain st p2 c f where second: "fr_frame_parser_feed alloc p1 (Some ys) (length ys) = (st, p2, c, f)"
    by (cases "fr_frame_parser_feed alloc p1 (Some ys) (length ys)")
  obtain st' p3 c' f' where both:
    "fr_frame_parser_feed alloc p (Some (xs @ ys)) (length (xs @ ys)) = (st', p3, c', f')"
    by (cases "fr_frame_parser_feed alloc p (Some (xs @ ys)) (length (xs @ ys))")
  have a: "feed_answers (st, p2, c, f) ?s (length (pending p @ xs)) (length ys) (spec_parse ?s)"
    using one [of p1 ys] p1 second by simp
  have b: "feed_answers (st', p3, c', f') ?s (length (pending p)) (length (xs @ ys)) (spec_parse ?s)"
    using one [OF assms(1), of "xs @ ys"] both by simp
  have "length (pending p @ xs) \<le> n" if "spec_parse ?s = Parsed g n" for g n
    using that p1 spec_parse_longer [of "pending p @ xs" ys g n] by simp
  then show ?thesis
    using a b second both by (cases "spec_parse ?s") auto
qed

theorem feed_fragments_witness:
  "\<exists>p1 st c f p2 p3.
     fr_frame_parser_feed (\<lambda>k. True) fr_frame_parser_init (Some [0x46]) 1 = (FR_OK, p1, Some 1, None) \<and>
     fr_frame_parser_feed (\<lambda>k. True) p1 (Some [0x52]) 1 = (st, p2, c, f) \<and>
     fr_frame_parser_feed (\<lambda>k. True) fr_frame_parser_init (Some [0x46, 0x52]) 2 =
       (st, p3, map_option ((+) 1) c, f)"
proof -
  have "spec_parse [0x46] = NeedMore" by (simp add: spec_parse_def)
  then obtain p1 where f: "fr_frame_parser_feed (\<lambda>k. True) fr_frame_parser_init (Some [0x46]) (length [0x46 :: u8]) =
      (FR_OK, p1, Some 1, None)"
    using feed_spec [OF parser_inv_init(1), of 1 "[0x46]" "\<lambda>k. True"]
    by (cases "fr_frame_parser_feed (\<lambda>k. True) fr_frame_parser_init (Some [0x46]) 1") auto
  show ?thesis
    using feed_fragments [OF parser_inv_init(1) _ f, of "[0x52]"] f
    by (auto simp: numeral_2_eq_2)
qed

text \<open>Whatever the input and whatever the allocator answers, a live parser stays live unless it
  reports an error, its payload buffer never exceeds twice the 8 MiB limit, and every frame it
  yields has a whitelisted type, zero flags, a non-zero request id and a payload within the
  limit.\<close>

theorem feed_safe:
  assumes "parser_inv p" and "len \<le> length bs"
    and "fr_frame_parser_feed alloc p (Some bs) len = (st, p', c, f)"
  shows "(parser_inv p' \<or> st = FR_E_PROTOCOL \<and> parser_dead p') \<and>
     (case f of None \<Rightarrow> True
      | Some g \<Rightarrow> st = FR_OK \<and> fr_msg_type_valid (frame_type g) \<and> frame_flags g = 0 \<and>
          frame_req_id g \<noteq> 0 \<and> frame_payload_len g = length (mem_of (frame_payload g)) \<and>
          frame_payload_len g \<le> FR_FRAME_MAX_PAYLOAD)"
proof -
  let ?s = "pending p @ take len bs"
  consider (answer) "feed_answers (st, p', c, f) ?s (length (pending p)) len (spec_parse ?s)"
    | (refused) "feed_refused alloc (st, p', c, f)"
    using feed_spec [OF assms(1,2), of alloc] assms(3) by auto
  then show ?thesis
  proof cases
    case answer
    then show ?thesis
      using encodable_small [of ?s] spec_parse_Parsed(4) [of ?s]
      by (cases "spec_parse ?s") auto
  qed simp
qed

theorem feed_safe_witness:
  "\<exists>st p' c f. fr_frame_parser_feed (\<lambda>k. False) fr_frame_parser_init (Some [0x46]) 1 = (st, p', c, f) \<and>
     (parser_inv p' \<or> st = FR_E_PROTOCOL \<and> parser_dead p')"
proof -
  obtain st p' c f where
    f: "fr_frame_parser_feed (\<lambda>k. False) fr_frame_parser_init (Some [0x46]) 1 = (st, p', c, f)"
    by (cases "fr_frame_parser_feed (\<lambda>k. False) fr_frame_parser_init (Some [0x46]) 1")
  show ?thesis using feed_safe [OF parser_inv_init(1) _ f] f by auto
qed

text \<open>After a protocol error the parser is dead: it absorbs nothing more and yields nothing,
  whatever it is fed, until it is initialised again.\<close>

theorem dead_parser:
  assumes "parser_dead p"
  shows "fr_frame_parser_feed alloc p (Some bs) len = (FR_OK, p, Some 0, None)"
  using assms by (simp add: fr_frame_parser_feed_def parser_dead_def absorb_full)

theorem dead_parser_witness:
  "fr_frame_parser_feed (\<lambda>k. True) (fr_frame_parser_init\<lparr>header_have := 20\<rparr>) (Some [1, 2, 3]) 3 =
     (FR_OK, fr_frame_parser_init\<lparr>header_have := 20\<rparr>, Some 0, None)"
  by (rule dead_parser) (simp add: parser_dead_def fr_frame_parser_init_def)

lemma encode_ok:
  assumes "buf_wf out" and "unat n \<le> length (mem_of payload)"
    and "encodable t f r payload n" and "\<forall>k. alloc k"
    and "length (buf_bytes out) + (20 + unat n) \<le> 2 ^ 63"
  obtains out' where "fr_frame_encode alloc out t f r payload n = (FR_OK, out')"
proof -
  have lim: "\<not> n > of_nat FR_FRAME_MAX_PAYLOAD"
    using assms(3) by (simp add: encodable_def word_less_nat_alt FR_FRAME_MAX_PAYLOAD_def not_less)
  have small: "20 + unat n < 2 ^ 63"
    using assms(3) by (simp add: encodable_def FR_FRAME_MAX_PAYLOAD_def)
  then obtain k where k: "fr_checked_add_size (of_nat FR_FRAME_HEADER_SIZE) n = Some k"
    by (cases "fr_checked_add_size (of_nat FR_FRAME_HEADER_SIZE) n")
       (simp_all add: checked_add_size_None FR_FRAME_HEADER_SIZE_def)
  then have uk: "unat k = 20 + unat n"
    by (simp add: checked_add_size_iff FR_FRAME_HEADER_SIZE_def)
  obtain out1 where r: "fr_buf_reserve alloc out k = (FR_OK, out1)"
    using reserve_succeeds [OF assms(1) _ assms(4), of k] uk assms(5) by metis
  let ?h = "frame_header t f r (ucast n)"
  have room: "length (buf_bytes out1) + (20 + unat n) \<le> unat (buf_cap out1)"
    using reserve_ok_room [OF assms(1) r] reserve_bytes [OF r] uk by simp
  have "fr_buf_append alloc out1 (Some ?h) (of_nat FR_FRAME_HEADER_SIZE) =
      (FR_OK, out1\<lparr>buf_bytes := buf_bytes out1 @ ?h\<rparr>)"
    using room by (subst append_within) (simp_all add: buf_wf_def FR_FRAME_HEADER_SIZE_def)
  moreover have "fr_buf_append alloc (out1\<lparr>buf_bytes := buf_bytes out1 @ ?h\<rparr>) payload n =
      (FR_OK, out1\<lparr>buf_bytes := (buf_bytes out1 @ ?h) @ take (unat n) (mem_of payload)\<rparr>)"
    using room assms(3) by (subst append_within) (simp_all add: buf_wf_def encodable_def)
  ultimately show ?thesis
    using that lim k r assms(3) by (auto simp: fr_frame_encode_def encodable_def Let_def)
qed

text \<open>Encoding is all or nothing on every branch: \<open>fr_frame_encode\<close> succeeds only on
  encodable arguments and then appends exactly header and payload; on any error, an allocation
  failure included, the output buffer is unchanged. On encodable arguments it does succeed when
  the allocator grants what it asks.\<close>

theorem encode_atomic:
  assumes "buf_wf out" and "unat n \<le> length (mem_of payload)"
  shows "(case fr_frame_encode alloc out type flags req_id payload n of (st, out') \<Rightarrow>
     if st = FR_OK
     then encodable type flags req_id payload n \<and> buf_wf out' \<and>
          buf_bytes out' = buf_bytes out @ frame_header type flags req_id (ucast n) @
                             take (unat n) (mem_of payload)
     else out' = out) \<and>
     (encodable type flags req_id payload n \<and> (\<forall>k. alloc k) \<and>
      length (buf_bytes out) + (20 + unat n) \<le> 2 ^ 63 \<longrightarrow>
      fst (fr_frame_encode alloc out type flags req_id payload n) = FR_OK)"
  using encode_cases [OF assms, where alloc = alloc and type = type and flags = flags
      and req_id = req_id] encode_ok [OF assms]
  by (metis (no_types, lifting) fst_conv)

theorem encode_atomic_witness:
  "fst (fr_frame_encode (\<lambda>k. True) fr_buf_init 3 0 7 (Some [1, 2]) 2) = FR_OK \<and>
   encodable 3 0 7 (Some [1, 2]) 2"
proof -
  have e: "encodable 3 0 7 (Some [1, 2]) 2"
    by (simp add: encodable_def fr_msg_type_valid_def all_msg_types_def FR_FRAME_MAX_PAYLOAD_def)
  then show ?thesis
    using encode_atomic [OF buf_wf_init, where n = 2 and payload = "Some [1, 2]" and type = 3
        and flags = 0 and req_id = 7 and alloc = "\<lambda>k. True"] by simp
qed

text \<open>C27: Encode then parse. What a successful \<open>fr_frame_encode\<close> appends, followed by any
  other bytes, makes a fresh parser yield exactly the encoded type, flags, request id and payload
  and consume exactly the encoded bytes, leaving it ready for the next frame.\<close>

theorem encode_feed_roundtrip:
  assumes "fr_frame_encode alloc out t f r payload n = (FR_OK, out')" and "buf_wf out"
    and "unat n \<le> length (mem_of payload)" and "\<forall>k. alloc' k"
  shows "\<exists>fr p'. buf_bytes out' = buf_bytes out @ fr \<and> length fr = 20 + unat n \<and>
     fr_frame_parser_feed alloc' fr_frame_parser_init (Some (fr @ rest)) (length (fr @ rest)) =
       (FR_OK, p', Some (length fr),
        Some \<lparr>frame_type = t, frame_flags = f, frame_req_id = r,
              frame_payload = (if n = 0 then None else Some (take (unat n) (mem_of payload))),
              frame_payload_len = unat n\<rparr>) \<and>
     parser_inv p' \<and> pending p' = []"
proof -
  let ?body = "take (unat n) (mem_of payload)"
  let ?fr = "frame_header t f r (ucast n) @ ?body"
  have enc: "encodable t f r payload n" and out': "buf_bytes out' = buf_bytes out @ ?fr"
    using encode_cases [OF assms(2,3), where alloc = alloc and type = t and flags = f and req_id = r]
      assms(1) by simp_all
  have "f = 0" using enc by (simp add: encodable_def)
  then have parse: "spec_parse (?fr @ rest) =
      Parsed \<lparr>frame_type = t, frame_flags = f, frame_req_id = r,
              frame_payload = (if n = 0 then None else Some ?body),
              frame_payload_len = unat n\<rparr> (20 + unat n)"
    using spec_parse_frame [OF enc assms(3), of rest] by simp
  have len: "length ?fr = 20 + unat n" using assms(3) by simp
  have "feed_answers (fr_frame_parser_feed alloc' fr_frame_parser_init (Some (?fr @ rest))
      (length (?fr @ rest))) (?fr @ rest) 0 (length (?fr @ rest)) (spec_parse (?fr @ rest))"
    using feed_all [OF parser_inv_init(1) assms(4), of "?fr @ rest"]
    unfolding parser_inv_init(2) by (simp only: append_Nil list.size)
  then obtain p' where "fr_frame_parser_feed alloc' fr_frame_parser_init (Some (?fr @ rest))
      (length (?fr @ rest)) =
      (FR_OK, p', Some (length ?fr),
       Some \<lparr>frame_type = t, frame_flags = f, frame_req_id = r,
             frame_payload = (if n = 0 then None else Some ?body),
             frame_payload_len = unat n\<rparr>)" "parser_inv p'" "pending p' = []"
    unfolding parse len
    by (cases "fr_frame_parser_feed alloc' fr_frame_parser_init (Some (?fr @ rest))
                 (length (?fr @ rest))") auto
  with out' len show ?thesis by blast
qed

theorem encode_feed_roundtrip_witness:
  "\<exists>out' fr p'. fr_frame_encode (\<lambda>k. True) fr_buf_init 3 0 7 (Some [1, 2]) 2 = (FR_OK, out') \<and>
     buf_bytes out' = fr \<and>
     fr_frame_parser_feed (\<lambda>k. True) fr_frame_parser_init (Some (fr @ [9])) (length (fr @ [9])) =
       (FR_OK, p', Some (length fr),
        Some \<lparr>frame_type = 3, frame_flags = 0, frame_req_id = 7, frame_payload = Some [1, 2],
              frame_payload_len = 2\<rparr>)"
proof -
  have "encodable 3 0 7 (Some [1, 2]) 2"
    by (simp add: encodable_def fr_msg_type_valid_def all_msg_types_def FR_FRAME_MAX_PAYLOAD_def)
  then obtain out' where e: "fr_frame_encode (\<lambda>k. True) fr_buf_init 3 0 7 (Some [1, 2]) 2 = (FR_OK, out')"
    by (rule encode_ok [rotated 2, where alloc = "\<lambda>k. True" and out = fr_buf_init]) simp_all
  show ?thesis
    using encode_feed_roundtrip [OF e, of "\<lambda>k. True" "[9]"] e by auto
qed

text \<open>Parse then encode. The bytes from which a fresh parser takes a frame are exactly the ones
  \<open>fr_frame_encode\<close> appends for the frame's fields, so a frame has one wire form only.\<close>

theorem parse_canonical:
  assumes "fr_frame_parser_feed alloc fr_frame_parser_init (Some bs) (length bs) =
             (FR_OK, p', Some used, Some g)"
    and "fr_frame_encode alloc' out (frame_type g) (frame_flags g) (frame_req_id g)
           (frame_payload g) (of_nat (frame_payload_len g)) = (FR_OK, out')" and "buf_wf out"
  shows "buf_bytes out' = buf_bytes out @ take used bs"
proof -
  obtain n where n: "spec_parse bs = Parsed g n" "used = n"
    using feed_spec [OF parser_inv_init(1), of "length bs" bs alloc] assms(1)
    by (cases "spec_parse bs") auto
  note f = spec_parse_Parsed [OF n(1)]
  have "frame_payload_len g \<le> FR_FRAME_MAX_PAYLOAD" by (rule encodable_small [OF n(1)])
  then have un: "unat (of_nat (frame_payload_len g) :: u64) = frame_payload_len g"
    and "frame_payload_len g < 2 ^ 32"
    by (simp_all add: unat_of_nat FR_FRAME_MAX_PAYLOAD_def)
  have "(ucast (of_nat (frame_payload_len g) :: u64) :: u32) = of_nat (frame_payload_len g)"
    using \<open>frame_payload_len g < 2 ^ 32\<close>
    by (simp add: word_unat_eq_iff unsigned_ucast_eq unat_of_nat take_bit_eq_mod)
  then show ?thesis
    using encode_cases [OF assms(3), where n = "of_nat (frame_payload_len g)"
        and payload = "frame_payload g" and alloc = alloc' and type = "frame_type g"
        and flags = "frame_flags g" and req_id = "frame_req_id g"] assms(2) f(3,4) n(2) un
    by simp
qed


theorem parse_canonical_witness:
  "\<exists>out' fr. fr_frame_encode (\<lambda>k. True) fr_buf_init 3 0 7 None 0 = (FR_OK, out') \<and>
     length fr = 20 \<and> buf_bytes out' = take 20 fr"
proof -
  have enc: "encodable 3 0 7 None 0"
    by (simp add: encodable_def fr_msg_type_valid_def all_msg_types_def)
  then obtain out' where e: "fr_frame_encode (\<lambda>k. True) fr_buf_init 3 0 7 None 0 = (FR_OK, out')"
    by (rule encode_ok [rotated 2, where alloc = "\<lambda>k. True" and out = fr_buf_init]) simp_all
  let ?fr = "frame_header 3 0 7 0"
  let ?g = "\<lparr>frame_type = 3, frame_flags = 0, frame_req_id = 7, frame_payload = None,
             frame_payload_len = 0\<rparr> :: fr_frame"
  have "spec_parse ?fr = Parsed ?g 20"
    using spec_parse_frame [OF enc, of "[]"] by simp
  then obtain p' where f: "fr_frame_parser_feed (\<lambda>k. True) fr_frame_parser_init (Some ?fr) (length ?fr) =
      (FR_OK, p', Some 20, Some ?g)"
    using feed_spec [OF parser_inv_init(1), of "length ?fr" ?fr "\<lambda>k. True"]
    by (cases "fr_frame_parser_feed (\<lambda>k. True) fr_frame_parser_init (Some ?fr) (length ?fr)") auto
  have "buf_bytes out' = buf_bytes fr_buf_init @ take 20 ?fr"
    by (rule parse_canonical [OF f _ buf_wf_init]) (use e in simp)
  with e show ?thesis by (intro exI [of _ out'] exI [of _ ?fr]) simp
qed

section \<open>Progress of the parser\<close>

text \<open>What a call consumes, where a complete header counts one, as the payload may be empty.\<close>

lemma absorb_header_offset:
  "absorb_header p bs len off = (st, p', off') \<Longrightarrow> off \<le> off' \<and> (off' \<le> len \<or> off' = off) \<and>
     (\<not> header_done p \<and> header_done p' \<longrightarrow> off < off')"
proof (induction "len - off" arbitrary: p off rule: less_induct)
  case less
  show ?case
  proof (cases "\<not> header_done p \<and> header_have p < FR_FRAME_HEADER_SIZE \<and> off < len")
    case False
    then have "absorb_header p bs len off = (FR_OK, p, off)" by (subst absorb_header.simps, subst if_not_P) (assumption, rule refl)
    then show ?thesis using less(2) by simp
  next
    case True
    define n where "n = (if len - off < FR_FRAME_HEADER_SIZE - header_have p then len - off
      else FR_FRAME_HEADER_SIZE - header_have p)"
    define q where "q = p\<lparr>header := memcpy_at (header p) (header_have p) (take n (drop off bs)),
      header_have := header_have p + n\<rparr>"
    have n: "0 < n" "off + n \<le> len" using True by (auto simp: n_def)
    have eq: "absorb_header p bs len off =
        (if header_have q = FR_FRAME_HEADER_SIZE
         then case frame_validate_header q of
                (st, r) \<Rightarrow> if st \<noteq> FR_OK then (st, r, off + n)
                          else absorb_header (r\<lparr>header_done := True\<rparr>) bs len (off + n)
         else absorb_header q bs len (off + n))"
      using True unfolding n_def q_def by (subst absorb_header.simps) (simp add: Let_def)
    show ?thesis
    proof (cases "header_have q = FR_FRAME_HEADER_SIZE")
      case full: True
      obtain s r where v: "frame_validate_header q = (s, r)" by (cases "frame_validate_header q")
      have "absorb_header (r\<lparr>header_done := True\<rparr>) bs len (off + n) = (FR_OK, r\<lparr>header_done := True\<rparr>, off + n)"
        by (subst absorb_header.simps) simp
      then have "off' = off + n" using less(2) v unfolding eq by (simp add: full split: if_splits)
      then show ?thesis using n by simp
    next
      case False
      then have "absorb_header q bs len (off + n) = (st, p', off')" using less(2) eq by simp
      from less(1) [OF _ this] n show ?thesis by linarith
    qed
  qed
qed

lemma feed_consumes:
  assumes "fr_frame_parser_feed alloc p (Some bs) len = (FR_OK, p', consumed, ready)"
  shows "the consumed \<le> len \<and>
     2 * (len - the consumed) + (if header_done p' then 1 else 0) \<le> 2 * len + (if header_done p then 1 else 0) \<and>
     (ready \<noteq> None \<longrightarrow>
       2 * (len - the consumed) + (if header_done p' then 1 else 0) < 2 * len + (if header_done p then 1 else (0 :: nat)))"
proof -
  obtain st1 q off where a: "absorb_header p bs len 0 = (st1, q, off)"
    by (cases "absorb_header p bs len 0")
  have off: "off \<le> len" "\<not> header_done p \<and> header_done q \<longrightarrow> 0 < off" using absorb_header_offset [OF a] by auto
  show ?thesis
  proof (cases "header_done q")
    case False
    then show ?thesis using assms a off by (auto simp: fr_frame_parser_feed_def split: if_splits)
  next
    case True
    then have pay: "absorb_payload alloc q bs len off = (FR_OK, p', consumed, ready)"
      using assms a by (simp add: fr_frame_parser_feed_def split: if_splits)
    have "the consumed \<le> len \<and> off \<le> the consumed \<and> (ready \<noteq> None \<longrightarrow> \<not> header_done p')"
      using pay off unfolding absorb_payload_def Let_def by (auto split: prod.splits if_splits)
    then show ?thesis using True off by auto
  qed
qed

end
