(* ===== verification/StorageTypes.thy ===== *)
theory StorageTypes
  imports Prelude
begin

text \<open>
  The data that the storage layer hands to its callers,
  \<^verbatim>\<open>include/forgerelay/storage/storage.hpp\<close>: session states and their texts in the
  database, session and artifact descriptions, and the reports of the maintenance operations.
  A \<open>uint64_t\<close> member is a 64-bit word, an \<open>int64_t\<close> one an integer.
\<close>

text \<open>
  \<open>SS_OTHER\<close> stands for the values a \<open>SessionState\<close> object can hold besides its
  enumerators: a decoder casts a byte from the wire to the enumeration unchecked.
\<close>

datatype SessionState = OPEN | COMMITTING | COMPLETED | ABORTED | EXPIRED | SS_OTHER int

fun state_value :: "SessionState \<Rightarrow> int" where
  "state_value OPEN = 0"
| "state_value COMMITTING = 1"
| "state_value COMPLETED = 2"
| "state_value ABORTED = 3"
| "state_value EXPIRED = 4"
| "state_value (SS_OTHER n) = n"

definition state_of_value :: "int \<Rightarrow> SessionState" where
  "state_of_value n =
     (if n = 0 then OPEN else if n = 1 then COMMITTING else if n = 2 then COMPLETED
      else if n = 3 then ABORTED else if n = 4 then EXPIRED else SS_OTHER n)"

definition state_enumerators :: "SessionState set" where
  "state_enumerators = {OPEN, COMMITTING, COMPLETED, ABORTED, EXPIRED}"

lemma state_of_value_value [simp]: "st \<in> state_enumerators \<Longrightarrow> state_of_value (state_value st) = st"
  by (auto simp: state_enumerators_def state_of_value_def)

lemma state_value_bounds: "st \<in> state_enumerators \<Longrightarrow> 0 \<le> state_value st \<and> state_value st < 5"
  by (auto simp: state_enumerators_def)

fun state_to_text :: "SessionState \<Rightarrow> string result" where
  "state_to_text OPEN = Inr ''OPEN''"
| "state_to_text COMMITTING = Inr ''COMMITTING''"
| "state_to_text COMPLETED = Inr ''COMPLETED''"
| "state_to_text ABORTED = Inr ''ABORTED''"
| "state_to_text EXPIRED = Inr ''EXPIRED''"
| "state_to_text (SS_OTHER n) = throw_error FR_E_INTERNAL ''unknown session state''"

definition state_from_text :: "string \<Rightarrow> SessionState result" where
  "state_from_text text =
     (if text = ''OPEN'' then Inr OPEN
      else if text = ''COMMITTING'' then Inr COMMITTING
      else if text = ''COMPLETED'' then Inr COMPLETED
      else if text = ''ABORTED'' then Inr ABORTED
      else if text = ''EXPIRED'' then Inr EXPIRED
      else throw_error FR_E_INTERNAL (''unknown session state text: '' @ text))"

lemma state_from_to_text: "state_to_text st = Inr t \<Longrightarrow> state_from_text t = Inr st"
  by (cases st) (auto simp: state_from_text_def)

lemma state_to_from_text: "state_from_text t = Inr st \<Longrightarrow> state_to_text st = Inr t"
  by (auto simp: state_from_text_def split: if_splits)

record SessionInfo =
  si_id :: string
  si_owner :: string
  si_state :: SessionState
  si_ns :: string
  si_name :: string
  si_version :: string
  si_expected_size :: u64
  si_expected_digest :: string
  si_chunk_size :: u64
  si_created_at :: int
  si_expires_at :: int

record ManifestEntry =
  me_ordinal :: int
  me_offset :: u64
  me_length :: u64
  me_digest :: string

record ArtifactInfo =
  ai_ns :: string
  ai_name :: string
  ai_version :: string
  ai_size :: u64
  ai_digest :: string
  ai_chunk_size :: u64
  ai_creator :: string
  ai_created_at :: int
  ai_note :: string
  ai_chunks :: "ManifestEntry list"

record ChunkAccept =
  ca_digest :: string
  ca_reused :: bool

record GcReport =
  gc_scanned :: int
  gc_deleted_count :: int
  gc_deleted_bytes :: int

record RecoveryReport =
  rr_temp_files_removed :: int
  rr_sessions_expired :: int
  rr_sessions_rolled_back :: int

record SessionProgress =
  sp_chunk_count :: u64
  sp_present_ordinals :: "u64 list"

text \<open>\<open>int64_t\<close> values and their conversion to and from \<open>uint64_t\<close>.\<close>

definition i64 :: "int \<Rightarrow> bool" where
  "i64 n = (- (2 ^ 63) \<le> n \<and> n < 2 ^ 63)"

lemma sint_of_i64: "i64 n \<Longrightarrow> sint (word_of_int n :: u64) = n"
  by (simp add: i64_def sint_sbintrunc' signed_take_bit_int_eq_self)

lemma i64_sint: "i64 (sint (w :: u64))"
  using sint_ge [of w] sint_lt [of w] by (simp add: i64_def)

end
