(* ===== verification/MsgPrim.thy ===== *)
theory MsgPrim
  imports Frame StorageTypes
begin

text \<open>
  The coding primitives of \<^verbatim>\<open>src/service/fr_messages.cpp\<close> and the theory of how they
  compose. As in the source, the \<open>put_*\<close> functions ignore the status of the buffer
  operations they call, and throw only where a length is checked.

  \<open>emits f bs\<close> says that a statement appends exactly \<open>bs\<close> when memory is
  available, \<open>reads g x bs\<close> that a getter takes exactly \<open>bs\<close> off the reader and
  answers \<open>x\<close>, \<open>strict g\<close> that it fails with a protocol error or not at all. The
  locale \<open>codec\<close> is the contract of a pair of such functions.
\<close>

section \<open>The primitives\<close>

definition kMaxStringLen :: nat where "kMaxStringLen = 512"
definition kDigestHexLen :: nat where "kDigestHexLen = 64"

definition protocol_error :: "string \<Rightarrow> 'a result" where
  "protocol_error reason = throw_error FR_E_PROTOCOL (''payload: '' @ reason)"

definition put_bytes :: "alloc \<Rightarrow> bytes \<Rightarrow> fr_buf \<Rightarrow> fr_buf result" where
  "put_bytes alloc bs out = Inr (snd (fr_buf_append alloc out (Some bs) (of_nat (length bs))))"

definition put_u8 :: "alloc \<Rightarrow> u8 \<Rightarrow> fr_buf \<Rightarrow> fr_buf result" where
  "put_u8 alloc v out = Inr (snd (fr_buf_append_u8 alloc out v))"

definition put_u16 :: "alloc \<Rightarrow> u16 \<Rightarrow> fr_buf \<Rightarrow> fr_buf result" where
  "put_u16 alloc v out = Inr (snd (fr_buf_append_u16be alloc out v))"

definition put_u32 :: "alloc \<Rightarrow> u32 \<Rightarrow> fr_buf \<Rightarrow> fr_buf result" where
  "put_u32 alloc v out = Inr (snd (fr_buf_append_u32be alloc out v))"

definition put_u64 :: "alloc \<Rightarrow> u64 \<Rightarrow> fr_buf \<Rightarrow> fr_buf result" where
  "put_u64 alloc v out = Inr (snd (fr_buf_append_u64be alloc out v))"

definition put_i32 :: "alloc \<Rightarrow> int \<Rightarrow> fr_buf \<Rightarrow> fr_buf result" where
  "put_i32 alloc v out = put_u32 alloc (word_of_int v) out"

definition put_i64 :: "alloc \<Rightarrow> int \<Rightarrow> fr_buf \<Rightarrow> fr_buf result" where
  "put_i64 alloc v out = put_u64 alloc (word_of_int v) out"

definition put_bool :: "alloc \<Rightarrow> bool \<Rightarrow> fr_buf \<Rightarrow> fr_buf result" where
  "put_bool alloc b out = put_u8 alloc (if b then 1 else 0) out"

definition put_str :: "alloc \<Rightarrow> string \<Rightarrow> fr_buf \<Rightarrow> fr_buf result" where
  "put_str alloc v out =
     (if length v > kMaxStringLen
      then throw_error FR_E_ARG ''string field exceeds protocol limit''
      else seq [put_u16 alloc (of_nat (length v)), put_bytes alloc (bytes_of v)] out)"

definition put_digest :: "alloc \<Rightarrow> string \<Rightarrow> fr_buf \<Rightarrow> fr_buf result" where
  "put_digest alloc hex out =
     (if length hex \<noteq> kDigestHexLen then throw_error FR_E_ARG ''digest must be 64 hex chars''
      else put_bytes alloc (bytes_of hex) out)"

type_synonym 'a getter = "fr_buf_reader \<Rightarrow> ('a \<times> fr_buf_reader) result"

text \<open>A read whose failure is the given protocol error.\<close>

fun or_protocol_error :: "string \<Rightarrow> fr_status + 'a \<times> fr_buf_reader \<Rightarrow> ('a \<times> fr_buf_reader) result" where
  "or_protocol_error reason (Inl st) = protocol_error reason"
| "or_protocol_error reason (Inr x) = Inr x"

definition get_u8 :: "u8 getter" where
  "get_u8 r = or_protocol_error ''u8 truncated'' (fr_buf_reader_u8 r)"

definition get_u32 :: "u32 getter" where
  "get_u32 r = or_protocol_error ''u32 truncated'' (fr_buf_reader_u32be r)"

definition get_u64 :: "u64 getter" where
  "get_u64 r = or_protocol_error ''u64 truncated'' (fr_buf_reader_u64be r)"

definition get_i32 :: "int getter" where
  "get_i32 r = rbind (get_u32 r) (\<lambda>(v, r). Inr (sint v, r))"

definition get_i64 :: "int getter" where
  "get_i64 r = rbind (get_u64 r) (\<lambda>(v, r). Inr (sint v, r))"

definition get_bool :: "bool getter" where
  "get_bool r = rbind (get_u8 r) (\<lambda>(v, r). Inr (v \<noteq> 0, r))"

definition get_str :: "string getter" where
  "get_str r =
     (case fr_buf_reader_u16be r of
        Inl st \<Rightarrow> protocol_error ''string length invalid''
      | Inr (len, r) \<Rightarrow>
          if unat len > kMaxStringLen then protocol_error ''string length invalid''
          else if len = 0 then Inr ([], r)
          else rbind (or_protocol_error ''string truncated'' (fr_buf_reader_read r (unat len)))
                 (\<lambda>(bs, r). Inr (string_of bs, r)))"

definition get_digest :: "string getter" where
  "get_digest r =
     rbind (or_protocol_error ''digest truncated'' (fr_buf_reader_read r kDigestHexLen))
       (\<lambda>(bs, r). Inr (string_of bs, r))"

definition get_rest :: "bytes getter" where
  "get_rest r =
     (let remaining = fr_buf_reader_remaining r
      in if remaining = 0 then Inr ([], r)
         else or_protocol_error ''rest truncated'' (fr_buf_reader_read r remaining))"

text \<open>The loop \<open>for (i = 0; i < count; i++) items.push_back(decode(in))\<close>.\<close>

fun get_items :: "'a getter \<Rightarrow> nat \<Rightarrow> 'a list getter" where
  "get_items g 0 r = Inr ([], r)"
| "get_items g (Suc n) r =
     rbind (g r) (\<lambda>(x, r). rbind (get_items g n r) (\<lambda>(xs, r). Inr (x # xs, r)))"

text \<open>
  A list on the wire: its length (cast to 32 bits) and its items. The decoder checks the length
  against a limit before it reads items.
\<close>

definition put_list :: "(alloc \<Rightarrow> 'a \<Rightarrow> fr_buf \<Rightarrow> fr_buf result) \<Rightarrow> alloc \<Rightarrow> 'a list \<Rightarrow> fr_buf \<Rightarrow> fr_buf result" where
  "put_list put alloc xs = seq [put_u32 alloc (of_nat (length xs)), for_each (put alloc) xs]"

definition get_list :: "nat \<Rightarrow> string \<Rightarrow> 'a getter \<Rightarrow> 'a list getter" where
  "get_list limit reason g r =
     rbind (get_u32 r) (\<lambda>(count, r).
       if unat count > limit then protocol_error reason else get_items g (unat count) r)"

definition enc_list :: "('a \<Rightarrow> bytes) \<Rightarrow> 'a list \<Rightarrow> bytes" where
  "enc_list enc xs = fr_store_be32 (of_nat (length xs)) @ concat (map enc xs) @ []"

record ArtifactRef =
  ref_ns :: string
  ref_name :: string
  ref_version :: string

definition put_ref :: "alloc \<Rightarrow> ArtifactRef \<Rightarrow> fr_buf \<Rightarrow> fr_buf result" where
  "put_ref alloc ref =
     seq [put_str alloc (ref_ns ref), put_str alloc (ref_name ref), put_str alloc (ref_version ref)]"

definition get_ref :: "ArtifactRef getter" where
  "get_ref r =
     rbind (get_str r) (\<lambda>(ns, r).
     rbind (get_str r) (\<lambda>(name, r).
     rbind (get_str r) (\<lambda>(version, r).
       Inr (\<lparr>ref_ns = ns, ref_name = name, ref_version = version\<rparr>, r))))"

section \<open>What a statement appends\<close>

definition room :: "fr_buf \<Rightarrow> bytes \<Rightarrow> bool" where
  "room b bs = (buf_wf b \<and> length (buf_bytes b) + length bs \<le> 2 ^ 63)"

definition emits :: "(fr_buf \<Rightarrow> fr_buf result) \<Rightarrow> bytes \<Rightarrow> bool" where
  "emits f bs =
     (\<forall>out. room out bs \<longrightarrow>
        (\<exists>out'. f out = Inr out' \<and> buf_bytes out' = buf_bytes out @ bs \<and> buf_wf out'))"

text \<open>An allocator that never refuses.\<close>

definition granted :: "alloc \<Rightarrow> bool" where
  "granted alloc = (\<forall>k. alloc k)"

lemma emits_append:
  assumes "granted alloc"
  shows "emits (\<lambda>out. Inr (snd (fr_buf_append alloc out (Some bs) (of_nat (length bs))))) bs"
  unfolding emits_def room_def
proof (intro allI impI, elim conjE)
  fix out assume "buf_wf out" and "length (buf_bytes out) + length bs \<le> 2 ^ 63"
  then obtain b' where "fr_buf_append alloc out (Some bs) (of_nat (length bs)) = (FR_OK, b')"
    "buf_bytes b' = buf_bytes out @ bs" "buf_wf b'"
    using append_succeeds assms unfolding granted_def by metis
  then show "\<exists>out'. Inr (snd (fr_buf_append alloc out (Some bs) (of_nat (length bs)))) = Inr out' \<and>
      buf_bytes out' = buf_bytes out @ bs \<and> buf_wf out'"
    by simp
qed

lemma emits_bytes [emit_intros]: "granted alloc \<Longrightarrow> emits (put_bytes alloc bs) bs"
  using emits_append [of alloc bs] by (simp add: put_bytes_def [abs_def])

lemma emits_u8 [emit_intros]: "granted alloc \<Longrightarrow> emits (put_u8 alloc v) [v]"
  using emits_append [of alloc "[v]"] by (simp add: put_u8_def [abs_def] fr_buf_append_u8_def)

lemma emits_u16 [emit_intros]: "granted alloc \<Longrightarrow> emits (put_u16 alloc v) (fr_store_be16 v)"
  using emits_append [of alloc "fr_store_be16 v"]
  by (simp add: put_u16_def [abs_def] fr_buf_append_u16be_def)

lemma emits_u32 [emit_intros]: "granted alloc \<Longrightarrow> emits (put_u32 alloc v) (fr_store_be32 v)"
  using emits_append [of alloc "fr_store_be32 v"]
  by (simp add: put_u32_def [abs_def] fr_buf_append_u32be_def)

lemma emits_u64 [emit_intros]: "granted alloc \<Longrightarrow> emits (put_u64 alloc v) (fr_store_be64 v)"
  using emits_append [of alloc "fr_store_be64 v"]
  by (simp add: put_u64_def [abs_def] fr_buf_append_u64be_def)

lemma emits_i32 [emit_intros]:
  "granted alloc \<Longrightarrow> emits (put_i32 alloc v) (fr_store_be32 (word_of_int v))"
  using emits_u32 by (simp add: put_i32_def [abs_def])

lemma emits_i64 [emit_intros]:
  "granted alloc \<Longrightarrow> emits (put_i64 alloc v) (fr_store_be64 (word_of_int v))"
  using emits_u64 by (simp add: put_i64_def [abs_def])

lemma emits_bool [emit_intros]:
  "granted alloc \<Longrightarrow> emits (put_bool alloc b) [if b then 1 else 0]"
  using emits_u8 [of alloc "if b then 1 else 0"] by (simp add: put_bool_def [abs_def])

lemma emits_nil [emit_intros]: "emits (seq []) []"
  by (simp add: emits_def room_def)

lemma emits_cons [emit_intros]:
  assumes "emits f xs" and "emits (seq fs) ys"
  shows "emits (seq (f # fs)) (xs @ ys)"
  unfolding emits_def
proof (intro allI impI)
  fix out assume room: "room out (xs @ ys)"
  then obtain out1 where 1: "f out = Inr out1" "buf_bytes out1 = buf_bytes out @ xs" "buf_wf out1"
    using assms(1) unfolding emits_def room_def by (metis add_leD1 add.assoc length_append)
  moreover have "room out1 ys" using room 1 by (simp add: room_def)
  ultimately show "\<exists>out'. seq (f # fs) out = Inr out' \<and> buf_bytes out' = buf_bytes out @ xs @ ys \<and>
      buf_wf out'"
    using assms(2) unfolding emits_def by fastforce
qed

lemma seq_single: "seq [f] = f"
proof (rule ext)
  fix s show "seq [f] s = f s" by (cases "f s") simp_all
qed

lemma emits_for_each:
  "(\<And>x. x \<in> set xs \<Longrightarrow> emits (f x) (enc x)) \<Longrightarrow> emits (for_each f xs) (concat (map enc xs))"
proof (induction xs)
  case Nil
  then show ?case by (simp add: emits_def room_def)
next
  case (Cons x xs)
  have "for_each f (x # xs) = seq [f x, for_each f xs]"
    by (rule ext) (simp add: seq_single)
  moreover have "emits (seq [f x, for_each f xs]) (enc x @ concat (map enc xs) @ [])"
    by (intro emits_cons emits_nil Cons.IH Cons.prems) auto
  ultimately show ?case by (simp del: seq.simps for_each.simps)
qed

section \<open>What a getter takes\<close>

text \<open>\<open>at r bs\<close>: the bytes still to be read are \<open>bs\<close>.\<close>

definition at :: "fr_buf_reader \<Rightarrow> bytes \<Rightarrow> bool" where
  "at r bs =
     (rd_pos r \<le> rd_len r \<and> rd_len r \<le> length (mem_of (rd_data r)) \<and>
      bs = take (rd_len r - rd_pos r) (drop (rd_pos r) (mem_of (rd_data r))))"

definition reads :: "'a getter \<Rightarrow> 'a \<Rightarrow> bytes \<Rightarrow> bool" where
  "reads g x bs = (\<forall>r rest. at r (bs @ rest) \<longrightarrow> (\<exists>r'. g r = Inr (x, r') \<and> at r' rest))"

definition strict :: "'a getter \<Rightarrow> bool" where
  "strict g = (\<forall>r e. g r = Inl e \<longrightarrow> code_is FR_E_PROTOCOL e)"

lemma at_remaining: "at r bs \<Longrightarrow> fr_buf_reader_remaining r = length bs"
  by (auto simp: at_def fr_buf_reader_remaining_def)

lemma read_at:
  assumes "at r (bs @ rest)" and "n = length bs"
  obtains r' where "fr_buf_reader_read r n = Inr (bs, r')" "at r' rest"
proof -
  define s where "s = take (rd_len r - rd_pos r) (drop (rd_pos r) (mem_of (rd_data r)))"
  have r: "rd_pos r \<le> rd_len r" "rd_len r \<le> length (mem_of (rd_data r))" "s = bs @ rest"
    using assms(1) by (simp_all add: at_def s_def)
  have "length s = rd_len r - rd_pos r" using r(1,2) by (simp add: s_def)
  then have len: "length bs + length rest = rd_len r - rd_pos r" by (simp add: r(3))
  have "bs = take n s" and rest: "rest = drop n s" using r(3) assms(2) by simp_all
  then have bs: "bs = take n (drop (rd_pos r) (mem_of (rd_data r)))"
    using len assms(2) by (simp add: s_def min_absorb1)
  have "at (r\<lparr>rd_pos := rd_pos r + n\<rparr>) rest"
    unfolding rest using r(1,2) len assms(2) by (simp add: at_def s_def drop_take add.commute)
  moreover have "fr_buf_reader_read r n = Inr (bs, r\<lparr>rd_pos := rd_pos r + n\<rparr>)"
    using at_remaining [OF assms(1)] assms(2) bs [symmetric]
    by (simp add: fr_buf_reader_read_def)
  ultimately show ?thesis using that by blast
qed

lemma reads_return [read_intros]: "reads (\<lambda>r. Inr (x, r)) x []"
  by (simp add: reads_def)

lemma reads_bind [read_intros]:
  assumes "reads g x xs" and "reads (\<lambda>r. k x r) y ys"
  shows "reads (\<lambda>r. rbind (g r) (\<lambda>(v, r). k v r)) y (xs @ ys)"
  using assms unfolding reads_def by fastforce

lemma strict_return [strict_intros]: "strict (\<lambda>r. Inr (x, r))"
  by (simp add: strict_def)

lemma strict_error [strict_intros]: "strict (\<lambda>r. protocol_error reason)"
  by (simp add: strict_def protocol_error_def)

lemma strict_bind [strict_intros]:
  assumes "strict g" and "\<And>v. strict (\<lambda>r. k v r)"
  shows "strict (\<lambda>r. rbind (g r) (\<lambda>(v, r). k v r))"
  using assms unfolding strict_def by (fastforce simp: rbind_eq_Inl)

lemma strict_if [strict_intros]:
  "strict (\<lambda>r. f r) \<Longrightarrow> strict (\<lambda>r. g r) \<Longrightarrow> strict (\<lambda>r. if b then f r else g r)"
  by (simp add: strict_def)

lemma strict_or: "strict (\<lambda>r. or_protocol_error reason (f r))"
  unfolding strict_def
proof (intro allI impI)
  fix r e assume "or_protocol_error reason (f r) = Inl e"
  then show "code_is FR_E_PROTOCOL e" by (cases "f r") (auto simp: protocol_error_def)
qed

lemma reads_or:
  assumes "\<And>r rest. at r (bs @ rest) \<Longrightarrow> \<exists>r'. f r = Inr (x, r') \<and> at r' rest"
  shows "reads (\<lambda>r. or_protocol_error reason (f r)) x bs"
  using assms unfolding reads_def by fastforce

lemma reads_raw: "reads (\<lambda>r. or_protocol_error reason (fr_buf_reader_read r n)) bs bs" if "n = length bs"
  by (rule reads_or) (metis read_at that)

lemma reads_u8 [read_intros]: "reads get_u8 v [v]"
  unfolding get_u8_def [abs_def]
  by (rule reads_or) (erule read_at [of _ "[v]" _ 1], simp_all add: fr_buf_reader_u8_def)

lemma reads_u32 [read_intros]: "reads get_u32 v (fr_store_be32 v)"
  unfolding get_u32_def [abs_def]
  by (rule reads_or)
     (erule read_at [of _ "fr_store_be32 v" _ 4], simp_all add: fr_buf_reader_u32be_def)

lemma reads_u64 [read_intros]: "reads get_u64 v (fr_store_be64 v)"
  unfolding get_u64_def [abs_def]
  by (rule reads_or)
     (erule read_at [of _ "fr_store_be64 v" _ 8], simp_all add: fr_buf_reader_u64be_def)

lemma strict_u8 [strict_intros]: "strict get_u8"
  unfolding get_u8_def [abs_def] by (rule strict_or)

lemma strict_u32 [strict_intros]: "strict get_u32"
  unfolding get_u32_def [abs_def] by (rule strict_or)

lemma strict_u64 [strict_intros]: "strict get_u64"
  unfolding get_u64_def [abs_def] by (rule strict_or)

lemma strict_i32 [strict_intros]: "strict get_i32"
  unfolding get_i32_def [abs_def] by (intro strict_intros)

lemma strict_i64 [strict_intros]: "strict get_i64"
  unfolding get_i64_def [abs_def] by (intro strict_intros)

lemma strict_bool [strict_intros]: "strict get_bool"
  unfolding get_bool_def [abs_def] by (intro strict_intros)

lemma strict_digest [strict_intros]: "strict get_digest"
  unfolding get_digest_def [abs_def] by (intro strict_intros strict_or)

lemma strict_rest [strict_intros]: "strict get_rest"
  unfolding get_rest_def [abs_def] Let_def strict_def
  using strict_or [unfolded strict_def] by (auto split: if_splits)

lemma strict_str [strict_intros]: "strict get_str"
  unfolding strict_def
proof (intro allI impI)
  fix r e assume e: "get_str r = Inl e"
  have "strict (\<lambda>r. rbind (or_protocol_error ''string truncated'' (fr_buf_reader_read r n))
      (\<lambda>(bs, r). Inr (string_of bs, r)))" for n
    by (intro strict_intros strict_or)
  then show "code_is FR_E_PROTOCOL e"
    using e unfolding strict_def
    by (auto simp: get_str_def protocol_error_def split: sum.splits prod.splits if_splits)
qed

lemma strict_items:
  assumes "strict g" shows "strict (get_items g n)"
proof (induction n)
  case 0
  then show ?case by (simp add: strict_def)
next
  case (Suc n)
  have "get_items g (Suc n) = (\<lambda>r. rbind (g r) (\<lambda>(x, r). rbind (get_items g n r)
      (\<lambda>(xs, r). Inr (x # xs, r))))" by (rule ext) simp
  then show ?case using assms Suc by (simp only:) (intro strict_intros)
qed

section \<open>Encodings and the codec contract\<close>

definition enc_str :: "string \<Rightarrow> bytes" where
  "enc_str s = fr_store_be16 (of_nat (length s)) @ bytes_of s"

definition str_ok :: "string \<Rightarrow> bool" where "str_ok s = (length s \<le> kMaxStringLen)"
definition digest_ok :: "string \<Rightarrow> bool" where "digest_ok s = (length s = kDigestHexLen)"
definition i32 :: "int \<Rightarrow> bool" where "i32 n = (- (2 ^ 31) \<le> n \<and> n < 2 ^ 31)"

lemma emits_str [emit_intros]: "granted alloc \<Longrightarrow> str_ok s \<Longrightarrow> emits (put_str alloc s) (enc_str s)"
proof -
  assume a: "granted alloc" and s: "str_ok s"
  have "emits (seq [put_u16 alloc (of_nat (length s)), put_bytes alloc (bytes_of s)])
      (fr_store_be16 (of_nat (length s)) @ bytes_of s @ [])"
    using a by (intro emit_intros)
  moreover have "put_str alloc s = seq [put_u16 alloc (of_nat (length s)), put_bytes alloc (bytes_of s)]"
    by (rule ext) (use s in \<open>simp add: put_str_def str_ok_def del: seq.simps\<close>)
  ultimately show ?thesis by (simp add: enc_str_def del: seq.simps)
qed

lemma emits_digest [emit_intros]:
  "granted alloc \<Longrightarrow> digest_ok s \<Longrightarrow> emits (put_digest alloc s) (bytes_of s)"
  using emits_bytes [of alloc "bytes_of s"] by (simp add: put_digest_def [abs_def] digest_ok_def)

lemma reads_str [read_intros]: "str_ok s \<Longrightarrow> reads get_str s (enc_str s)"
  unfolding reads_def
proof (intro allI impI)
  fix r rest assume s: "str_ok s" and r: "at r (enc_str s @ rest)"
  have l: "unat (of_nat (length s) :: u16) = length s"
    using s by (simp add: str_ok_def kMaxStringLen_def unat_of_nat)
  obtain r1 where 1: "fr_buf_reader_u16be r = Inr (of_nat (length s), r1)" "at r1 (bytes_of s @ rest)"
  proof (rule read_at [of r "fr_store_be16 (of_nat (length s))" "bytes_of s @ rest" 2])
    show "at r (fr_store_be16 (of_nat (length s)) @ bytes_of s @ rest)"
      using r by (simp add: enc_str_def)
  qed (simp_all add: fr_buf_reader_u16be_def)
  show "\<exists>r'. get_str r = Inr (s, r') \<and> at r' rest"
  proof (cases "s = []")
    case True
    with 1 show ?thesis by (simp add: get_str_def bytes_of_def)
  next
    case False
    obtain r2 where "fr_buf_reader_read r1 (length s) = Inr (bytes_of s, r2)" "at r2 rest"
      by (rule read_at [OF 1(2), of "length s"]) simp_all
    moreover have "(of_nat (length s) :: u16) \<noteq> 0"
      using l False by (metis length_0_conv unat_0)
    ultimately show ?thesis using 1 s l by (simp add: get_str_def str_ok_def)
  qed
qed

lemma reads_digest [read_intros]:
  assumes "digest_ok s" shows "reads get_digest s (bytes_of s)"
proof -
  have n: "kDigestHexLen = length (bytes_of s)" using assms by (simp add: digest_ok_def)
  have "reads (\<lambda>r. rbind (or_protocol_error ''digest truncated'' (fr_buf_reader_read r kDigestHexLen))
      (\<lambda>(bs, r). Inr (string_of bs, r))) (string_of (bytes_of s)) (bytes_of s @ [])"
    by (rule reads_bind reads_raw n read_intros)+
  then show ?thesis by (simp add: get_digest_def [abs_def])
qed

lemma reads_i32 [read_intros]: "i32 n \<Longrightarrow> reads get_i32 n (fr_store_be32 (word_of_int n))"
proof -
  assume n: "i32 n"
  have "reads get_i32 (sint (word_of_int n :: u32)) (fr_store_be32 (word_of_int n) @ [])"
    unfolding get_i32_def [abs_def] by (rule read_intros)+
  then show ?thesis
    using n by (simp add: i32_def sint_sbintrunc' signed_take_bit_int_eq_self)
qed

lemma reads_i64 [read_intros]: "i64 n \<Longrightarrow> reads get_i64 n (fr_store_be64 (word_of_int n))"
proof -
  assume n: "i64 n"
  have "reads get_i64 (sint (word_of_int n :: u64)) (fr_store_be64 (word_of_int n) @ [])"
    unfolding get_i64_def [abs_def] by (rule read_intros)+
  then show ?thesis using n by (simp add: sint_of_i64)
qed

lemma reads_bool [read_intros]: "reads get_bool b [if b then 1 else 0]"
proof -
  have "reads get_bool ((if b then 1 else 0 :: u8) \<noteq> 0) ([if b then 1 else 0] @ [])"
    unfolding get_bool_def [abs_def] by (rule read_intros)+
  then show ?thesis by (simp split: if_splits)
qed

lemma reads_items:
  "(\<And>x. x \<in> set xs \<Longrightarrow> reads g x (enc x)) \<Longrightarrow> n = length xs \<Longrightarrow>
   reads (get_items g n) xs (concat (map enc xs))"
proof (induction xs arbitrary: n)
  case Nil
  then show ?case by (simp add: reads_def)
next
  case (Cons x xs)
  have x: "reads g x (enc x)" by (rule Cons.prems) simp
  have xs: "reads (get_items g (length xs)) xs (concat (map enc xs))"
    by (rule Cons.IH [OF Cons.prems(1)]) simp_all
  have "reads (\<lambda>r. rbind (g r) (\<lambda>(x, r). rbind (get_items g (length xs) r)
      (\<lambda>(xs, r). Inr (x # xs, r)))) (x # xs) (enc x @ concat (map enc xs) @ [])"
    by (rule reads_bind x xs reads_return)+
  moreover have "get_items g (Suc (length xs)) = (\<lambda>r. rbind (g r) (\<lambda>(x, r).
      rbind (get_items g (length xs) r) (\<lambda>(xs, r). Inr (x # xs, r))))" by (rule ext) simp
  ultimately show ?case using Cons.prems(2) by simp
qed

text \<open>
  The contract of a pair of coding functions: on the values \<open>ok\<close> admits, what the put
  operation appends is what the getter takes back; and the getter is strict.
\<close>

locale codec =
  fixes put :: "alloc \<Rightarrow> 'a \<Rightarrow> fr_buf \<Rightarrow> fr_buf result"
    and get :: "'a getter"
    and enc :: "'a \<Rightarrow> bytes"
    and ok :: "'a \<Rightarrow> bool"
  assumes put_emits: "granted alloc \<Longrightarrow> ok x \<Longrightarrow> emits (put alloc x) (enc x)"
    and get_reads: "ok x \<Longrightarrow> reads get x (enc x)"
    and get_strict: "strict get"
begin

lemma list_emits:
  assumes "granted alloc" and "list_all ok xs"
  shows "emits (put_list put alloc xs) (enc_list enc xs)"
proof -
  have "emits (for_each (put alloc) xs) (concat (map enc xs))"
    by (rule emits_for_each) (use assms in \<open>auto simp: list_all_iff put_emits\<close>)
  then show ?thesis
    unfolding put_list_def enc_list_def using assms(1) by (intro emit_intros)
qed

lemma list_reads:
  assumes "list_all ok xs" and "length xs \<le> limit" and "limit < 2 ^ 32"
  shows "reads (get_list limit reason get) xs (enc_list enc xs)"
proof -
  have n: "unat (of_nat (length xs) :: u32) = length xs"
    using assms(2,3) by (simp add: unat_of_nat)
  have items: "reads (get_items get (length xs)) xs (concat (map enc xs))"
    by (rule reads_items) (use assms in \<open>auto simp: list_all_iff get_reads\<close>)
  have "reads (\<lambda>r. if unat (of_nat (length xs) :: u32) > limit then protocol_error reason
      else get_items get (unat (of_nat (length xs) :: u32)) r) xs (concat (map enc xs) @ [])"
    using items assms(2) by (simp add: n)
  then show ?thesis
    unfolding get_list_def [abs_def] enc_list_def by (rule reads_bind [OF reads_u32])
qed

lemma list_strict: "strict (get_list limit reason get)"
  unfolding get_list_def [abs_def] by (intro strict_intros strict_items get_strict)

text \<open>Two encodings of admitted values followed by anything agree only for equal values.\<close>

lemma enc_inj:
  assumes "ok x" and "ok y" and "enc x @ xs = enc y @ ys"
  shows "x = y" and "xs = ys"
proof -
  define r where "r = fr_buf_reader_init (Some (enc x @ xs)) (length (enc x @ xs))"
  have r: "at r (enc x @ xs)" by (simp add: at_def r_def fr_buf_reader_init_def)
  obtain r1 where 1: "get r = Inr (x, r1)" "at r1 xs"
    using get_reads [OF assms(1)] r by (auto simp: reads_def)
  obtain r2 where 2: "get r = Inr (y, r2)" "at r2 ys"
    using get_reads [OF assms(2)] r assms(3) by (auto simp: reads_def)
  from 1(1) 2(1) show "x = y" by simp
  from 1 2 show "xs = ys" by (simp add: at_def)
qed

end

interpretation u8_codec: codec put_u8 get_u8 "\<lambda>v. [v]" "\<lambda>v. True"
  by unfold_locales (intro emit_intros read_intros strict_intros; assumption)+

interpretation u64_codec: codec put_u64 get_u64 fr_store_be64 "\<lambda>v. True"
  by unfold_locales (intro emit_intros read_intros strict_intros; assumption)+

interpretation i64_codec: codec put_i64 get_i64 "\<lambda>n. fr_store_be64 (word_of_int n)" i64
  by unfold_locales (intro emit_intros read_intros strict_intros; assumption)+

interpretation str_codec: codec put_str get_str enc_str str_ok
  by unfold_locales (intro emit_intros read_intros strict_intros; assumption)+

interpretation digest_codec: codec put_digest get_digest bytes_of digest_ok
  by unfold_locales (intro emit_intros read_intros strict_intros; assumption)+

definition enc_ref :: "ArtifactRef \<Rightarrow> bytes" where
  "enc_ref ref = enc_str (ref_ns ref) @ enc_str (ref_name ref) @ enc_str (ref_version ref) @ []"

definition ref_ok :: "ArtifactRef \<Rightarrow> bool" where
  "ref_ok ref = (str_ok (ref_ns ref) \<and> str_ok (ref_name ref) \<and> str_ok (ref_version ref))"

interpretation ref_codec: codec put_ref get_ref enc_ref ref_ok
proof unfold_locales
  fix alloc x assume "granted alloc" "ref_ok x"
  then show "emits (put_ref alloc x) (enc_ref x)"
    unfolding put_ref_def enc_ref_def ref_ok_def by (intro emit_intros) auto
next
  fix x assume "ref_ok x"
  then have ok: "str_ok (ref_ns x)" "str_ok (ref_name x)" "str_ok (ref_version x)"
    by (simp_all add: ref_ok_def)
  have "reads get_ref \<lparr>ref_ns = ref_ns x, ref_name = ref_name x, ref_version = ref_version x\<rparr> (enc_ref x)"
    unfolding get_ref_def [abs_def] enc_ref_def by (rule read_intros ok)+
  then show "reads get_ref x (enc_ref x)" by (cases x) simp
next
  show "strict get_ref" unfolding get_ref_def [abs_def] by (intro strict_intros)
qed

section \<open>Whole payloads\<close>

text \<open>\<open>reader_of\<close>, and a decoder of a frame made of a getter.\<close>

definition reader_of :: "fr_frame \<Rightarrow> fr_buf_reader" where
  "reader_of frame = fr_buf_reader_init (frame_payload frame) (frame_payload_len frame)"

definition decode :: "'a getter \<Rightarrow> fr_frame \<Rightarrow> 'a result" where
  "decode g frame = rbind (g (reader_of frame)) (\<lambda>(x, r). Inr x)"

text \<open>A frame that carries the payload \<open>bs\<close>, the way the parser delivers it.\<close>

definition carries :: "fr_frame \<Rightarrow> bytes \<Rightarrow> bool" where
  "carries f bs = (mem_of (frame_payload f) = bs \<and> frame_payload_len f = length bs)"

text \<open>A getter that takes \<open>bs\<close> when nothing follows.\<close>

definition finishes :: "'a getter \<Rightarrow> 'a \<Rightarrow> bytes \<Rightarrow> bool" where
  "finishes g x bs = (\<forall>r. at r bs \<longrightarrow> (\<exists>r'. g r = Inr (x, r')))"

definition roundtrips ::
  "(alloc \<Rightarrow> 'a \<Rightarrow> fr_buf \<Rightarrow> fr_buf result) \<Rightarrow> (fr_frame \<Rightarrow> 'a result) \<Rightarrow> 'a \<Rightarrow> bool" where
  "roundtrips enc dec x =
     (\<forall>alloc. granted alloc \<longrightarrow>
        (\<exists>out. enc alloc x fr_buf_init = Inr out \<and>
               (\<forall>f. carries f (buf_bytes out) \<longrightarrow> dec f = Inr x)))"

definition decodes_strictly :: "(fr_frame \<Rightarrow> 'a result) \<Rightarrow> bool" where
  "decodes_strictly dec = (\<forall>f e. dec f = Inl e \<longrightarrow> code_is FR_E_PROTOCOL e)"

lemma reader_of_at: "carries f bs \<Longrightarrow> at (reader_of f) bs"
  by (simp add: carries_def at_def reader_of_def fr_buf_reader_init_def)

lemma reads_finishes: "reads g x bs \<Longrightarrow> finishes g x bs"
  unfolding reads_def finishes_def by (metis append_Nil2)

lemma finishes_bind:
  assumes "reads g x xs" and "finishes (\<lambda>r. k x r) y ys"
  shows "finishes (\<lambda>r. rbind (g r) (\<lambda>(v, r). k v r)) y (xs @ ys)"
  using assms unfolding reads_def finishes_def by fastforce

lemma finishes_return: "finishes (\<lambda>r. Inr (x, r)) x []"
  by (simp add: finishes_def)

lemma finishes_rest: "finishes get_rest bs bs"
  unfolding finishes_def
proof (intro allI impI)
  fix r assume r: "at r bs"
  obtain r' where "fr_buf_reader_read r (length bs) = Inr (bs, r')"
    by (rule read_at [of r bs "[]"]) (use r in simp_all)
  then show "\<exists>r'. get_rest r = Inr (bs, r')"
    using at_remaining [OF r] by (auto simp: get_rest_def Let_def)
qed

lemma finishes_rest_return:
  "finishes (\<lambda>r. rbind (get_rest r) (\<lambda>(v, r). Inr (f v, r))) (f bs) (bs @ [])"
  using finishes_rest [of bs] unfolding finishes_def by fastforce

lemmas finish_intros = finishes_rest_return finishes_bind finishes_return

lemma roundtripsI:
  assumes "\<And>alloc. granted alloc \<Longrightarrow> emits (enc alloc x) bs" and "finishes g x bs"
    and "length bs \<le> 2 ^ 63" and "dec = decode g"
  shows "roundtrips enc dec x"
  unfolding roundtrips_def
proof (intro allI impI)
  fix alloc assume "granted alloc"
  then obtain out where "enc alloc x fr_buf_init = Inr out" "buf_bytes out = bs"
    using assms(1) [of alloc] assms(3) by (auto simp: emits_def room_def)
  moreover have "dec f = Inr x" if "carries f bs" for f
    using reader_of_at [OF that] assms(2,4) by (auto simp: finishes_def decode_def)
  ultimately show "\<exists>out. enc alloc x fr_buf_init = Inr out \<and>
      (\<forall>f. carries f (buf_bytes out) \<longrightarrow> dec f = Inr x)" by blast
qed

lemma decodes_strictlyI: "strict g \<Longrightarrow> dec = decode g \<Longrightarrow> decodes_strictly dec"
  by (auto simp: strict_def decodes_strictly_def decode_def rbind_eq_Inl)

end
