(* ===== verification/Messages.thy ===== *)
theory Messages
  imports MsgPrim
begin

text \<open>
  The payloads of all messages, \<^verbatim>\<open>src/service/fr_messages.cpp\<close> and the structures of
  \<^verbatim>\<open>include/forgerelay/messages.hpp\<close>: for each structure its encoder, its decoder, the
  bytes it stands for (\<open>enc_x\<close>), the values the encoder admits (\<open>x_ok\<close>), and the two
  facts of a message: it round-trips, and its decoder fails with a protocol error only. Items of
  lists are interpretations of the locale \<open>codec\<close>.
\<close>

section \<open>Fields with a representation of their own\<close>

text \<open>A session state is sent as a byte and cast back unchecked.\<close>

definition put_state :: "alloc \<Rightarrow> SessionState \<Rightarrow> fr_buf \<Rightarrow> fr_buf result" where
  "put_state alloc st out = put_u8 alloc (word_of_int (state_value st)) out"

definition get_state :: "SessionState getter" where
  "get_state r = rbind (get_u8 r) (\<lambda>(v, r). Inr (state_of_value (uint v), r))"

definition enc_state :: "SessionState \<Rightarrow> bytes" where
  "enc_state st = [word_of_int (state_value st)]"

interpretation state_codec: codec put_state get_state enc_state "\<lambda>st. st \<in> state_enumerators"
proof unfold_locales
  fix alloc and x :: SessionState assume "granted alloc"
  then show "emits (put_state alloc x) (enc_state x)"
    using emits_u8 by (simp add: put_state_def [abs_def] enc_state_def)
next
  fix x :: SessionState assume x: "x \<in> state_enumerators"
  have "reads get_state (state_of_value (uint (word_of_int (state_value x) :: u8))) (enc_state x @ [])"
    unfolding get_state_def [abs_def] enc_state_def by (rule read_intros)+
  moreover have "uint (word_of_int (state_value x) :: u8) = state_value x"
    using state_value_bounds [OF x] by (simp add: uint_word_of_int_eq take_bit_int_eq_self)
  ultimately show "reads get_state x (enc_state x)" using x by simp
next
  show "strict get_state" unfolding get_state_def [abs_def] by (intro strict_intros)
qed

declare state_codec.put_emits [emit_intros] state_codec.get_reads [read_intros]
  state_codec.get_strict [strict_intros]

text \<open>An optional string: a flag, and the string if the flag is set.\<close>

definition put_opt_str :: "alloc \<Rightarrow> string option \<Rightarrow> fr_buf \<Rightarrow> fr_buf result" where
  "put_opt_str alloc v =
     (case v of
        None \<Rightarrow> seq [put_bool alloc False]
      | Some s \<Rightarrow> seq [put_bool alloc True, put_str alloc s])"

definition get_opt_str :: "string option getter" where
  "get_opt_str r =
     rbind (get_u8 r) (\<lambda>(flag, r).
       if flag \<noteq> 0 then rbind (get_str r) (\<lambda>(s, r). Inr (Some s, r)) else Inr (None, r))"

definition enc_opt_str :: "string option \<Rightarrow> bytes" where
  "enc_opt_str v = (case v of None \<Rightarrow> [0] @ [] | Some s \<Rightarrow> [1] @ enc_str s @ [])"

definition opt_str_ok :: "string option \<Rightarrow> bool" where
  "opt_str_ok v = (case v of None \<Rightarrow> True | Some s \<Rightarrow> str_ok s)"

interpretation opt_str_codec: codec put_opt_str get_opt_str enc_opt_str opt_str_ok
proof unfold_locales
  fix alloc x assume a: "granted alloc" and x: "opt_str_ok x"
  show "emits (put_opt_str alloc x) (enc_opt_str x)"
  proof (cases x)
    case None
    have "emits (seq [put_bool alloc False]) ([if False then 1 else 0] @ [])"
      using a by (intro emit_intros)
    then show ?thesis by (simp only: None put_opt_str_def enc_opt_str_def option.case if_False)
  next
    case (Some s)
    have "emits (seq [put_bool alloc True, put_str alloc s]) ([if True then 1 else 0] @ enc_str s @ [])"
      using a x Some by (intro emit_intros) (simp_all add: opt_str_ok_def)
    then show ?thesis by (simp only: Some put_opt_str_def enc_opt_str_def option.case if_True)
  qed
next
  fix x assume x: "opt_str_ok x"
  have k: "reads (\<lambda>r. if ((case x of None \<Rightarrow> 0 | Some s \<Rightarrow> 1) :: u8) \<noteq> 0
      then rbind (get_str r) (\<lambda>(s, r). Inr (Some s, r)) else Inr (None, r)) x
      (case x of None \<Rightarrow> [] | Some s \<Rightarrow> enc_str s @ [])"
  proof (cases x)
    case None
    then show ?thesis by (simp add: reads_return)
  next
    case (Some s)
    have ok: "str_ok s" using x Some by (simp add: opt_str_ok_def)
    have "reads (\<lambda>r. rbind (get_str r) (\<lambda>(s, r). Inr (Some s, r))) (Some s) (enc_str s @ [])"
      by (rule reads_bind reads_str reads_return ok)+
    then show ?thesis by (simp add: Some)
  qed
  have "reads get_opt_str x ([case x of None \<Rightarrow> 0 | Some s \<Rightarrow> 1] @
      (case x of None \<Rightarrow> [] | Some s \<Rightarrow> enc_str s @ []))"
    unfolding get_opt_str_def [abs_def] by (rule reads_bind, rule reads_u8, rule k)
  then show "reads get_opt_str x (enc_opt_str x)" by (cases x) (simp_all add: enc_opt_str_def)
next
  show "strict get_opt_str" unfolding get_opt_str_def [abs_def] by (intro strict_intros)
qed

declare opt_str_codec.put_emits [emit_intros] opt_str_codec.get_reads [read_intros]
  opt_str_codec.get_strict [strict_intros]
declare ref_codec.put_emits [emit_intros] ref_codec.get_reads [read_intros]
  ref_codec.get_strict [strict_intros]

text \<open>Sizes: every field has a fixed limit.\<close>

lemma enc_opt_str_length: "opt_str_ok v \<Longrightarrow> length (enc_opt_str v) \<le> 515"
  by (auto simp: opt_str_ok_def enc_opt_str_def enc_str_def str_ok_def kMaxStringLen_def
      split: option.splits)

lemmas size_simps = enc_str_def enc_ref_def ref_ok_def str_ok_def digest_ok_def kMaxStringLen_def
  kDigestHexLen_def FR_FRAME_MAX_PAYLOAD_def enc_state_def

section \<open>Requests\<close>

definition FR_PROTOCOL_VERSION :: u8 where "FR_PROTOCOL_VERSION = 1"

record HelloReq =
  hello_protocol_version :: u8
  hello_client :: string

definition encode_hello_req :: "alloc \<Rightarrow> HelloReq \<Rightarrow> fr_buf \<Rightarrow> fr_buf result" where
  "encode_hello_req alloc req =
     seq [put_u8 alloc (hello_protocol_version req), put_str alloc (hello_client req)]"

definition decode_hello_req :: "fr_frame \<Rightarrow> HelloReq result" where
  "decode_hello_req = decode (\<lambda>r.
     rbind (get_u8 r) (\<lambda>(version, r).
       if version \<noteq> FR_PROTOCOL_VERSION then protocol_error ''unsupported protocol version''
       else rbind (get_str r) (\<lambda>(client, r).
         Inr (\<lparr>hello_protocol_version = version, hello_client = client\<rparr>, r))))"

definition hello_req_ok :: "HelloReq \<Rightarrow> bool" where
  "hello_req_ok req =
     (hello_protocol_version req = FR_PROTOCOL_VERSION \<and> str_ok (hello_client req))"

lemma roundtrip_hello_req:
  assumes "hello_req_ok x" shows "roundtrips encode_hello_req decode_hello_req x"
proof (rule roundtripsI [OF _ _ _ decode_hello_req_def])
  let ?bs = "[FR_PROTOCOL_VERSION] @ enc_str (hello_client x) @ []"
  have ok: "hello_protocol_version x = FR_PROTOCOL_VERSION" "str_ok (hello_client x)"
    using assms by (simp_all add: hello_req_ok_def)
  show "emits (encode_hello_req alloc x) ?bs" if "granted alloc" for alloc
    unfolding encode_hello_req_def ok(1) using that ok(2) by (intro emit_intros)
  show "length ?bs \<le> 2 ^ 63" using ok(2) by (simp add: size_simps)
  have "reads (\<lambda>r. rbind (get_str r) (\<lambda>(client, r).
      Inr (\<lparr>hello_protocol_version = FR_PROTOCOL_VERSION, hello_client = client\<rparr>, r))) x
      (enc_str (hello_client x) @ [])"
    by (rule reads_bind [OF reads_str [OF ok(2)]]) (use ok(1) in \<open>cases x, simp add: reads_return\<close>)
  then have k: "reads (\<lambda>r. if FR_PROTOCOL_VERSION \<noteq> FR_PROTOCOL_VERSION
      then protocol_error ''unsupported protocol version''
      else rbind (get_str r) (\<lambda>(client, r).
        Inr (\<lparr>hello_protocol_version = FR_PROTOCOL_VERSION, hello_client = client\<rparr>, r))) x
      (enc_str (hello_client x) @ [])" by simp
  show "finishes (\<lambda>r. rbind (get_u8 r) (\<lambda>(version, r).
       if version \<noteq> FR_PROTOCOL_VERSION then protocol_error ''unsupported protocol version''
       else rbind (get_str r) (\<lambda>(client, r).
         Inr (\<lparr>hello_protocol_version = version, hello_client = client\<rparr>, r)))) x ?bs"
    by (rule reads_finishes, rule reads_bind, rule reads_u8, rule k)
qed

lemma strict_hello_req: "decodes_strictly decode_hello_req"
  by (rule decodes_strictlyI [OF _ decode_hello_req_def]) (intro strict_intros)

record AuthReq =
  auth_token :: string

definition encode_auth_req :: "alloc \<Rightarrow> AuthReq \<Rightarrow> fr_buf \<Rightarrow> fr_buf result" where
  "encode_auth_req alloc req =
     seq [put_str alloc (auth_token req)]"

definition decode_auth_req :: "fr_frame \<Rightarrow> AuthReq result" where
  "decode_auth_req = decode (\<lambda>r.
     rbind (get_str r) (\<lambda>(token, r).
       Inr (\<lparr>auth_token = token\<rparr>, r)))"

definition enc_auth_req :: "AuthReq \<Rightarrow> bytes" where
  "enc_auth_req req =
     enc_str (auth_token req) @ []"

definition auth_req_ok :: "AuthReq \<Rightarrow> bool" where
  "auth_req_ok req =
     (str_ok (auth_token req))"

lemma roundtrip_auth_req: "auth_req_ok x \<Longrightarrow> roundtrips encode_auth_req decode_auth_req x"
proof -
  assume ok: "auth_req_ok x"
  have "roundtrips encode_auth_req decode_auth_req \<lparr>auth_token = auth_token x\<rparr>"
  proof (rule roundtripsI [OF _ _ _ decode_auth_req_def])
    fix alloc assume mem: "granted alloc"
    show "emits (encode_auth_req alloc \<lparr>auth_token = auth_token x\<rparr>) (enc_auth_req x)"
      unfolding encode_auth_req_def enc_auth_req_def AuthReq.select_convs
      by (insert mem ok [unfolded auth_req_ok_def], (elim conjE)?, (intro emit_intros; assumption))
  next
    show "length (enc_auth_req x) \<le> 2 ^ 63"
      using ok by (simp add: auth_req_ok_def enc_auth_req_def size_simps)
  qed (unfold enc_auth_req_def, insert ok [unfolded auth_req_ok_def], (elim conjE)?, (rule finish_intros read_intros | assumption)+)
  then show ?thesis by (cases x) simp
qed

lemma strict_auth_req: "decodes_strictly decode_auth_req"
  by (rule decodes_strictlyI [OF _ decode_auth_req_def]) (intro strict_intros)

record CreateUploadReq =
  cu_ref :: ArtifactRef
  cu_expected_size :: u64
  cu_expected_digest :: string

definition encode_create_upload_req :: "alloc \<Rightarrow> CreateUploadReq \<Rightarrow> fr_buf \<Rightarrow> fr_buf result" where
  "encode_create_upload_req alloc req =
     seq [put_ref alloc (cu_ref req), put_u64 alloc (cu_expected_size req),
       put_digest alloc (cu_expected_digest req)]"

definition decode_create_upload_req :: "fr_frame \<Rightarrow> CreateUploadReq result" where
  "decode_create_upload_req = decode (\<lambda>r.
     rbind (get_ref r) (\<lambda>(ref, r).
     rbind (get_u64 r) (\<lambda>(expected_size, r).
     rbind (get_digest r) (\<lambda>(expected_digest, r).
       Inr (\<lparr>cu_ref = ref, cu_expected_size = expected_size,
               cu_expected_digest = expected_digest\<rparr>, r)))))"

definition enc_create_upload_req :: "CreateUploadReq \<Rightarrow> bytes" where
  "enc_create_upload_req req =
     enc_ref (cu_ref req) @ fr_store_be64 (cu_expected_size req) @
     bytes_of (cu_expected_digest req) @ []"

definition create_upload_req_ok :: "CreateUploadReq \<Rightarrow> bool" where
  "create_upload_req_ok req =
     (ref_ok (cu_ref req) \<and> digest_ok (cu_expected_digest req))"

lemma roundtrip_create_upload_req: "create_upload_req_ok x \<Longrightarrow> roundtrips encode_create_upload_req decode_create_upload_req x"
proof -
  assume ok: "create_upload_req_ok x"
  have "roundtrips encode_create_upload_req decode_create_upload_req \<lparr>cu_ref = cu_ref x, cu_expected_size = cu_expected_size x,
        cu_expected_digest = cu_expected_digest x\<rparr>"
  proof (rule roundtripsI [OF _ _ _ decode_create_upload_req_def])
    fix alloc assume mem: "granted alloc"
    show "emits (encode_create_upload_req alloc \<lparr>cu_ref = cu_ref x, cu_expected_size = cu_expected_size x,
        cu_expected_digest = cu_expected_digest x\<rparr>) (enc_create_upload_req x)"
      unfolding encode_create_upload_req_def enc_create_upload_req_def CreateUploadReq.select_convs
      by (insert mem ok [unfolded create_upload_req_ok_def], (elim conjE)?, (intro emit_intros; assumption))
  next
    show "length (enc_create_upload_req x) \<le> 2 ^ 63"
      using ok by (simp add: create_upload_req_ok_def enc_create_upload_req_def size_simps)
  qed (unfold enc_create_upload_req_def, insert ok [unfolded create_upload_req_ok_def], (elim conjE)?, (rule finish_intros read_intros | assumption)+)
  then show ?thesis by (cases x) simp
qed

lemma strict_create_upload_req: "decodes_strictly decode_create_upload_req"
  by (rule decodes_strictlyI [OF _ decode_create_upload_req_def]) (intro strict_intros)

record PutChunkReq =
  pc_session_id :: string
  pc_ordinal :: u64
  pc_data :: bytes

definition encode_put_chunk_req :: "alloc \<Rightarrow> PutChunkReq \<Rightarrow> fr_buf \<Rightarrow> fr_buf result" where
  "encode_put_chunk_req alloc req =
     seq [put_str alloc (pc_session_id req), put_u64 alloc (pc_ordinal req),
       put_bytes alloc (pc_data req)]"

definition decode_put_chunk_req :: "fr_frame \<Rightarrow> PutChunkReq result" where
  "decode_put_chunk_req = decode (\<lambda>r.
     rbind (get_str r) (\<lambda>(session_id, r).
     rbind (get_u64 r) (\<lambda>(ordinal, r).
     rbind (get_rest r) (\<lambda>(data, r).
       Inr (\<lparr>pc_session_id = session_id, pc_ordinal = ordinal, pc_data = data\<rparr>, r)))))"

definition enc_put_chunk_req :: "PutChunkReq \<Rightarrow> bytes" where
  "enc_put_chunk_req req =
     enc_str (pc_session_id req) @ fr_store_be64 (pc_ordinal req) @ pc_data req @ []"

definition put_chunk_req_ok :: "PutChunkReq \<Rightarrow> bool" where
  "put_chunk_req_ok req =
     (str_ok (pc_session_id req) \<and> length (pc_data req) \<le> FR_FRAME_MAX_PAYLOAD)"

lemma roundtrip_put_chunk_req: "put_chunk_req_ok x \<Longrightarrow> roundtrips encode_put_chunk_req decode_put_chunk_req x"
proof -
  assume ok: "put_chunk_req_ok x"
  have "roundtrips encode_put_chunk_req decode_put_chunk_req \<lparr>pc_session_id = pc_session_id x, pc_ordinal = pc_ordinal x, pc_data = pc_data x\<rparr>"
  proof (rule roundtripsI [OF _ _ _ decode_put_chunk_req_def])
    fix alloc assume mem: "granted alloc"
    show "emits (encode_put_chunk_req alloc \<lparr>pc_session_id = pc_session_id x, pc_ordinal = pc_ordinal x, pc_data = pc_data x\<rparr>) (enc_put_chunk_req x)"
      unfolding encode_put_chunk_req_def enc_put_chunk_req_def PutChunkReq.select_convs
      by (insert mem ok [unfolded put_chunk_req_ok_def], (elim conjE)?, (intro emit_intros; assumption))
  next
    show "length (enc_put_chunk_req x) \<le> 2 ^ 63"
      using ok by (simp add: put_chunk_req_ok_def enc_put_chunk_req_def size_simps)
  qed (unfold enc_put_chunk_req_def, insert ok [unfolded put_chunk_req_ok_def], (elim conjE)?, (rule finish_intros read_intros | assumption)+)
  then show ?thesis by (cases x) simp
qed

lemma strict_put_chunk_req: "decodes_strictly decode_put_chunk_req"
  by (rule decodes_strictlyI [OF _ decode_put_chunk_req_def]) (intro strict_intros)

record GetArtifactReq =
  ga_ref :: ArtifactRef
  ga_offset :: u64
  ga_length :: u64

definition encode_get_artifact_req :: "alloc \<Rightarrow> GetArtifactReq \<Rightarrow> fr_buf \<Rightarrow> fr_buf result" where
  "encode_get_artifact_req alloc req =
     seq [put_ref alloc (ga_ref req), put_u64 alloc (ga_offset req), put_u64 alloc (ga_length req)]"

definition decode_get_artifact_req :: "fr_frame \<Rightarrow> GetArtifactReq result" where
  "decode_get_artifact_req = decode (\<lambda>r.
     rbind (get_ref r) (\<lambda>(ref, r).
     rbind (get_u64 r) (\<lambda>(offset, r).
     rbind (get_u64 r) (\<lambda>(length, r).
       Inr (\<lparr>ga_ref = ref, ga_offset = offset, ga_length = length\<rparr>, r)))))"

definition enc_get_artifact_req :: "GetArtifactReq \<Rightarrow> bytes" where
  "enc_get_artifact_req req =
     enc_ref (ga_ref req) @ fr_store_be64 (ga_offset req) @ fr_store_be64 (ga_length req) @ []"

definition get_artifact_req_ok :: "GetArtifactReq \<Rightarrow> bool" where
  "get_artifact_req_ok req =
     (ref_ok (ga_ref req))"

lemma roundtrip_get_artifact_req: "get_artifact_req_ok x \<Longrightarrow> roundtrips encode_get_artifact_req decode_get_artifact_req x"
proof -
  assume ok: "get_artifact_req_ok x"
  have "roundtrips encode_get_artifact_req decode_get_artifact_req \<lparr>ga_ref = ga_ref x, ga_offset = ga_offset x, ga_length = ga_length x\<rparr>"
  proof (rule roundtripsI [OF _ _ _ decode_get_artifact_req_def])
    fix alloc assume mem: "granted alloc"
    show "emits (encode_get_artifact_req alloc \<lparr>ga_ref = ga_ref x, ga_offset = ga_offset x, ga_length = ga_length x\<rparr>) (enc_get_artifact_req x)"
      unfolding encode_get_artifact_req_def enc_get_artifact_req_def GetArtifactReq.select_convs
      by (insert mem ok [unfolded get_artifact_req_ok_def], (elim conjE)?, (intro emit_intros; assumption))
  next
    show "length (enc_get_artifact_req x) \<le> 2 ^ 63"
      using ok by (simp add: get_artifact_req_ok_def enc_get_artifact_req_def size_simps)
  qed (unfold enc_get_artifact_req_def, insert ok [unfolded get_artifact_req_ok_def], (elim conjE)?, (rule finish_intros read_intros | assumption)+)
  then show ?thesis by (cases x) simp
qed

lemma strict_get_artifact_req: "decodes_strictly decode_get_artifact_req"
  by (rule decodes_strictlyI [OF _ decode_get_artifact_req_def]) (intro strict_intros)

record ListArtifactsReq =
  la_ns :: "string option"
  la_name :: "string option"
  la_limit :: u32
  la_offset :: u32

definition encode_list_artifacts_req :: "alloc \<Rightarrow> ListArtifactsReq \<Rightarrow> fr_buf \<Rightarrow> fr_buf result" where
  "encode_list_artifacts_req alloc req =
     seq [put_opt_str alloc (la_ns req), put_opt_str alloc (la_name req),
       put_u32 alloc (la_limit req), put_u32 alloc (la_offset req)]"

definition decode_list_artifacts_req :: "fr_frame \<Rightarrow> ListArtifactsReq result" where
  "decode_list_artifacts_req = decode (\<lambda>r.
     rbind (get_opt_str r) (\<lambda>(ns, r).
     rbind (get_opt_str r) (\<lambda>(name, r).
     rbind (get_u32 r) (\<lambda>(limit, r).
     rbind (get_u32 r) (\<lambda>(offset, r).
       Inr (\<lparr>la_ns = ns, la_name = name, la_limit = limit, la_offset = offset\<rparr>, r))))))"

definition enc_list_artifacts_req :: "ListArtifactsReq \<Rightarrow> bytes" where
  "enc_list_artifacts_req req =
     enc_opt_str (la_ns req) @ enc_opt_str (la_name req) @ fr_store_be32 (la_limit req) @
     fr_store_be32 (la_offset req) @ []"

definition list_artifacts_req_ok :: "ListArtifactsReq \<Rightarrow> bool" where
  "list_artifacts_req_ok req =
     (opt_str_ok (la_ns req) \<and> opt_str_ok (la_name req))"

lemma roundtrip_list_artifacts_req: "list_artifacts_req_ok x \<Longrightarrow> roundtrips encode_list_artifacts_req decode_list_artifacts_req x"
proof -
  assume ok: "list_artifacts_req_ok x"
  have "roundtrips encode_list_artifacts_req decode_list_artifacts_req \<lparr>la_ns = la_ns x, la_name = la_name x, la_limit = la_limit x, la_offset = la_offset x\<rparr>"
  proof (rule roundtripsI [OF _ _ _ decode_list_artifacts_req_def])
    fix alloc assume mem: "granted alloc"
    show "emits (encode_list_artifacts_req alloc \<lparr>la_ns = la_ns x, la_name = la_name x, la_limit = la_limit x, la_offset = la_offset x\<rparr>) (enc_list_artifacts_req x)"
      unfolding encode_list_artifacts_req_def enc_list_artifacts_req_def ListArtifactsReq.select_convs
      by (insert mem ok [unfolded list_artifacts_req_ok_def], (elim conjE)?, (intro emit_intros; assumption))
  next
    show "length (enc_list_artifacts_req x) \<le> 2 ^ 63"
      using ok enc_opt_str_length [of "la_ns x"] enc_opt_str_length [of "la_name x"]
      by (simp add: list_artifacts_req_ok_def enc_list_artifacts_req_def size_simps)
  qed (unfold enc_list_artifacts_req_def, insert ok [unfolded list_artifacts_req_ok_def], (elim conjE)?, (rule finish_intros read_intros | assumption)+)
  then show ?thesis by (cases x) simp
qed

lemma strict_list_artifacts_req: "decodes_strictly decode_list_artifacts_req"
  by (rule decodes_strictlyI [OF _ decode_list_artifacts_req_def]) (intro strict_intros)

record RunGcReq =
  rg_dry_run :: bool

definition encode_run_gc_req :: "alloc \<Rightarrow> RunGcReq \<Rightarrow> fr_buf \<Rightarrow> fr_buf result" where
  "encode_run_gc_req alloc req =
     seq [put_bool alloc (rg_dry_run req)]"

definition decode_run_gc_req :: "fr_frame \<Rightarrow> RunGcReq result" where
  "decode_run_gc_req = decode (\<lambda>r.
     rbind (get_bool r) (\<lambda>(dry_run, r).
       Inr (\<lparr>rg_dry_run = dry_run\<rparr>, r)))"

definition enc_run_gc_req :: "RunGcReq \<Rightarrow> bytes" where
  "enc_run_gc_req req =
     [if rg_dry_run req then 1 else 0] @ []"

definition run_gc_req_ok :: "RunGcReq \<Rightarrow> bool" where
  "run_gc_req_ok req =
     True"

lemma roundtrip_run_gc_req: "roundtrips encode_run_gc_req decode_run_gc_req x"
proof -
  have "roundtrips encode_run_gc_req decode_run_gc_req \<lparr>rg_dry_run = rg_dry_run x\<rparr>"
  proof (rule roundtripsI [OF _ _ _ decode_run_gc_req_def])
    fix alloc assume mem: "granted alloc"
    show "emits (encode_run_gc_req alloc \<lparr>rg_dry_run = rg_dry_run x\<rparr>) (enc_run_gc_req x)"
      unfolding encode_run_gc_req_def enc_run_gc_req_def RunGcReq.select_convs
      by (intro emit_intros mem)
  next
    show "length (enc_run_gc_req x) \<le> 2 ^ 63"
      by (simp add: enc_run_gc_req_def size_simps)
  qed (unfold enc_run_gc_req_def, (rule finish_intros read_intros | assumption)+)
  then show ?thesis by (cases x) simp
qed

lemma strict_run_gc_req: "decodes_strictly decode_run_gc_req"
  by (rule decodes_strictlyI [OF _ decode_run_gc_req_def]) (intro strict_intros)

record UserAddReq =
  ua_username :: string
  ua_role :: u8

definition encode_user_add_req :: "alloc \<Rightarrow> UserAddReq \<Rightarrow> fr_buf \<Rightarrow> fr_buf result" where
  "encode_user_add_req alloc req =
     seq [put_str alloc (ua_username req), put_u8 alloc (ua_role req)]"

definition decode_user_add_req :: "fr_frame \<Rightarrow> UserAddReq result" where
  "decode_user_add_req = decode (\<lambda>r.
     rbind (get_str r) (\<lambda>(username, r).
     rbind (get_u8 r) (\<lambda>(role, r).
       Inr (\<lparr>ua_username = username, ua_role = role\<rparr>, r))))"

definition enc_user_add_req :: "UserAddReq \<Rightarrow> bytes" where
  "enc_user_add_req req =
     enc_str (ua_username req) @ [ua_role req] @ []"

definition user_add_req_ok :: "UserAddReq \<Rightarrow> bool" where
  "user_add_req_ok req =
     (str_ok (ua_username req))"

lemma roundtrip_user_add_req: "user_add_req_ok x \<Longrightarrow> roundtrips encode_user_add_req decode_user_add_req x"
proof -
  assume ok: "user_add_req_ok x"
  have "roundtrips encode_user_add_req decode_user_add_req \<lparr>ua_username = ua_username x, ua_role = ua_role x\<rparr>"
  proof (rule roundtripsI [OF _ _ _ decode_user_add_req_def])
    fix alloc assume mem: "granted alloc"
    show "emits (encode_user_add_req alloc \<lparr>ua_username = ua_username x, ua_role = ua_role x\<rparr>) (enc_user_add_req x)"
      unfolding encode_user_add_req_def enc_user_add_req_def UserAddReq.select_convs
      by (insert mem ok [unfolded user_add_req_ok_def], (elim conjE)?, (intro emit_intros; assumption))
  next
    show "length (enc_user_add_req x) \<le> 2 ^ 63"
      using ok by (simp add: user_add_req_ok_def enc_user_add_req_def size_simps)
  qed (unfold enc_user_add_req_def, insert ok [unfolded user_add_req_ok_def], (elim conjE)?, (rule finish_intros read_intros | assumption)+)
  then show ?thesis by (cases x) simp
qed

lemma strict_user_add_req: "decodes_strictly decode_user_add_req"
  by (rule decodes_strictlyI [OF _ decode_user_add_req_def]) (intro strict_intros)

record TokenCreateReq =
  tc_username :: string
  tc_ttl_hours :: u32

definition encode_token_create_req :: "alloc \<Rightarrow> TokenCreateReq \<Rightarrow> fr_buf \<Rightarrow> fr_buf result" where
  "encode_token_create_req alloc req =
     seq [put_str alloc (tc_username req), put_u32 alloc (tc_ttl_hours req)]"

definition decode_token_create_req :: "fr_frame \<Rightarrow> TokenCreateReq result" where
  "decode_token_create_req = decode (\<lambda>r.
     rbind (get_str r) (\<lambda>(username, r).
     rbind (get_u32 r) (\<lambda>(ttl_hours, r).
       Inr (\<lparr>tc_username = username, tc_ttl_hours = ttl_hours\<rparr>, r))))"

definition enc_token_create_req :: "TokenCreateReq \<Rightarrow> bytes" where
  "enc_token_create_req req =
     enc_str (tc_username req) @ fr_store_be32 (tc_ttl_hours req) @ []"

definition token_create_req_ok :: "TokenCreateReq \<Rightarrow> bool" where
  "token_create_req_ok req =
     (str_ok (tc_username req))"

lemma roundtrip_token_create_req: "token_create_req_ok x \<Longrightarrow> roundtrips encode_token_create_req decode_token_create_req x"
proof -
  assume ok: "token_create_req_ok x"
  have "roundtrips encode_token_create_req decode_token_create_req \<lparr>tc_username = tc_username x, tc_ttl_hours = tc_ttl_hours x\<rparr>"
  proof (rule roundtripsI [OF _ _ _ decode_token_create_req_def])
    fix alloc assume mem: "granted alloc"
    show "emits (encode_token_create_req alloc \<lparr>tc_username = tc_username x, tc_ttl_hours = tc_ttl_hours x\<rparr>) (enc_token_create_req x)"
      unfolding encode_token_create_req_def enc_token_create_req_def TokenCreateReq.select_convs
      by (insert mem ok [unfolded token_create_req_ok_def], (elim conjE)?, (intro emit_intros; assumption))
  next
    show "length (enc_token_create_req x) \<le> 2 ^ 63"
      using ok by (simp add: token_create_req_ok_def enc_token_create_req_def size_simps)
  qed (unfold enc_token_create_req_def, insert ok [unfolded token_create_req_ok_def], (elim conjE)?, (rule finish_intros read_intros | assumption)+)
  then show ?thesis by (cases x) simp
qed

lemma strict_token_create_req: "decodes_strictly decode_token_create_req"
  by (rule decodes_strictlyI [OF _ decode_token_create_req_def]) (intro strict_intros)

section \<open>Responses\<close>

record AuthOk =
  ao_username :: string
  ao_role :: u8

definition encode_auth_ok :: "alloc \<Rightarrow> AuthOk \<Rightarrow> fr_buf \<Rightarrow> fr_buf result" where
  "encode_auth_ok alloc ok =
     seq [put_str alloc (ao_username ok), put_u8 alloc (ao_role ok)]"

definition decode_auth_ok :: "fr_frame \<Rightarrow> AuthOk result" where
  "decode_auth_ok = decode (\<lambda>r.
     rbind (get_str r) (\<lambda>(username, r).
     rbind (get_u8 r) (\<lambda>(role, r).
       Inr (\<lparr>ao_username = username, ao_role = role\<rparr>, r))))"

definition enc_auth_ok :: "AuthOk \<Rightarrow> bytes" where
  "enc_auth_ok ok =
     enc_str (ao_username ok) @ [ao_role ok] @ []"

definition auth_ok_ok :: "AuthOk \<Rightarrow> bool" where
  "auth_ok_ok ok =
     (str_ok (ao_username ok))"

lemma roundtrip_auth_ok: "auth_ok_ok x \<Longrightarrow> roundtrips encode_auth_ok decode_auth_ok x"
proof -
  assume ok: "auth_ok_ok x"
  have "roundtrips encode_auth_ok decode_auth_ok \<lparr>ao_username = ao_username x, ao_role = ao_role x\<rparr>"
  proof (rule roundtripsI [OF _ _ _ decode_auth_ok_def])
    fix alloc assume mem: "granted alloc"
    show "emits (encode_auth_ok alloc \<lparr>ao_username = ao_username x, ao_role = ao_role x\<rparr>) (enc_auth_ok x)"
      unfolding encode_auth_ok_def enc_auth_ok_def AuthOk.select_convs
      by (insert mem ok [unfolded auth_ok_ok_def], (elim conjE)?, (intro emit_intros; assumption))
  next
    show "length (enc_auth_ok x) \<le> 2 ^ 63"
      using ok by (simp add: auth_ok_ok_def enc_auth_ok_def size_simps)
  qed (unfold enc_auth_ok_def, insert ok [unfolded auth_ok_ok_def], (elim conjE)?, (rule finish_intros read_intros | assumption)+)
  then show ?thesis by (cases x) simp
qed

lemma strict_auth_ok: "decodes_strictly decode_auth_ok"
  by (rule decodes_strictlyI [OF _ decode_auth_ok_def]) (intro strict_intros)

record CreateUploadOk =
  co_session_id :: string
  co_chunk_size :: u64
  co_expires_at :: int

definition encode_create_upload_ok :: "alloc \<Rightarrow> CreateUploadOk \<Rightarrow> fr_buf \<Rightarrow> fr_buf result" where
  "encode_create_upload_ok alloc ok =
     seq [put_str alloc (co_session_id ok), put_u64 alloc (co_chunk_size ok),
       put_i64 alloc (co_expires_at ok)]"

definition decode_create_upload_ok :: "fr_frame \<Rightarrow> CreateUploadOk result" where
  "decode_create_upload_ok = decode (\<lambda>r.
     rbind (get_str r) (\<lambda>(session_id, r).
     rbind (get_u64 r) (\<lambda>(chunk_size, r).
     rbind (get_i64 r) (\<lambda>(expires_at, r).
       Inr (\<lparr>co_session_id = session_id, co_chunk_size = chunk_size,
               co_expires_at = expires_at\<rparr>, r)))))"

definition enc_create_upload_ok :: "CreateUploadOk \<Rightarrow> bytes" where
  "enc_create_upload_ok ok =
     enc_str (co_session_id ok) @ fr_store_be64 (co_chunk_size ok) @
     fr_store_be64 (word_of_int (co_expires_at ok)) @ []"

definition create_upload_ok_ok :: "CreateUploadOk \<Rightarrow> bool" where
  "create_upload_ok_ok ok =
     (str_ok (co_session_id ok) \<and> i64 (co_expires_at ok))"

lemma roundtrip_create_upload_ok: "create_upload_ok_ok x \<Longrightarrow> roundtrips encode_create_upload_ok decode_create_upload_ok x"
proof -
  assume ok: "create_upload_ok_ok x"
  have "roundtrips encode_create_upload_ok decode_create_upload_ok \<lparr>co_session_id = co_session_id x, co_chunk_size = co_chunk_size x,
        co_expires_at = co_expires_at x\<rparr>"
  proof (rule roundtripsI [OF _ _ _ decode_create_upload_ok_def])
    fix alloc assume mem: "granted alloc"
    show "emits (encode_create_upload_ok alloc \<lparr>co_session_id = co_session_id x, co_chunk_size = co_chunk_size x,
        co_expires_at = co_expires_at x\<rparr>) (enc_create_upload_ok x)"
      unfolding encode_create_upload_ok_def enc_create_upload_ok_def CreateUploadOk.select_convs
      by (insert mem ok [unfolded create_upload_ok_ok_def], (elim conjE)?, (intro emit_intros; assumption))
  next
    show "length (enc_create_upload_ok x) \<le> 2 ^ 63"
      using ok by (simp add: create_upload_ok_ok_def enc_create_upload_ok_def size_simps)
  qed (unfold enc_create_upload_ok_def, insert ok [unfolded create_upload_ok_ok_def], (elim conjE)?, (rule finish_intros read_intros | assumption)+)
  then show ?thesis by (cases x) simp
qed

lemma strict_create_upload_ok: "decodes_strictly decode_create_upload_ok"
  by (rule decodes_strictlyI [OF _ decode_create_upload_ok_def]) (intro strict_intros)

record PutChunkOk =
  po_digest :: string
  po_reused :: bool

definition encode_put_chunk_ok :: "alloc \<Rightarrow> PutChunkOk \<Rightarrow> fr_buf \<Rightarrow> fr_buf result" where
  "encode_put_chunk_ok alloc ok =
     seq [put_digest alloc (po_digest ok), put_bool alloc (po_reused ok)]"

definition decode_put_chunk_ok :: "fr_frame \<Rightarrow> PutChunkOk result" where
  "decode_put_chunk_ok = decode (\<lambda>r.
     rbind (get_digest r) (\<lambda>(digest, r).
     rbind (get_bool r) (\<lambda>(reused, r).
       Inr (\<lparr>po_digest = digest, po_reused = reused\<rparr>, r))))"

definition enc_put_chunk_ok :: "PutChunkOk \<Rightarrow> bytes" where
  "enc_put_chunk_ok ok =
     bytes_of (po_digest ok) @ [if po_reused ok then 1 else 0] @ []"

definition put_chunk_ok_ok :: "PutChunkOk \<Rightarrow> bool" where
  "put_chunk_ok_ok ok =
     (digest_ok (po_digest ok))"

lemma roundtrip_put_chunk_ok: "put_chunk_ok_ok x \<Longrightarrow> roundtrips encode_put_chunk_ok decode_put_chunk_ok x"
proof -
  assume ok: "put_chunk_ok_ok x"
  have "roundtrips encode_put_chunk_ok decode_put_chunk_ok \<lparr>po_digest = po_digest x, po_reused = po_reused x\<rparr>"
  proof (rule roundtripsI [OF _ _ _ decode_put_chunk_ok_def])
    fix alloc assume mem: "granted alloc"
    show "emits (encode_put_chunk_ok alloc \<lparr>po_digest = po_digest x, po_reused = po_reused x\<rparr>) (enc_put_chunk_ok x)"
      unfolding encode_put_chunk_ok_def enc_put_chunk_ok_def PutChunkOk.select_convs
      by (insert mem ok [unfolded put_chunk_ok_ok_def], (elim conjE)?, (intro emit_intros; assumption))
  next
    show "length (enc_put_chunk_ok x) \<le> 2 ^ 63"
      using ok by (simp add: put_chunk_ok_ok_def enc_put_chunk_ok_def size_simps)
  qed (unfold enc_put_chunk_ok_def, insert ok [unfolded put_chunk_ok_ok_def], (elim conjE)?, (rule finish_intros read_intros | assumption)+)
  then show ?thesis by (cases x) simp
qed

lemma strict_put_chunk_ok: "decodes_strictly decode_put_chunk_ok"
  by (rule decodes_strictlyI [OF _ decode_put_chunk_ok_def]) (intro strict_intros)

record QueryUploadOk =
  qu_state :: SessionState
  qu_chunk_count :: u64
  qu_present_bitmap :: bytes

definition kMaxBitmap :: nat where "kMaxBitmap = 1024 * 1024"

definition encode_query_upload_ok :: "alloc \<Rightarrow> QueryUploadOk \<Rightarrow> fr_buf \<Rightarrow> fr_buf result" where
  "encode_query_upload_ok alloc ok =
     seq [put_state alloc (qu_state ok), put_u64 alloc (qu_chunk_count ok),
          (\<lambda>out. if length (qu_present_bitmap ok) > kMaxBitmap
                 then throw_error FR_E_RANGE ''present bitmap exceeds 1 MiB protocol limit''
                 else Inr out),
          put_u32 alloc (of_nat (length (qu_present_bitmap ok))),
          put_bytes alloc (qu_present_bitmap ok)]"

definition get_bitmap :: "bytes getter" where
  "get_bitmap r =
     rbind (get_u32 r) (\<lambda>(bitmap_len, r).
       if unat bitmap_len > kMaxBitmap then protocol_error ''bitmap too large''
       else if bitmap_len = 0 then Inr ([], r)
       else or_protocol_error ''bitmap truncated'' (fr_buf_reader_read r (unat bitmap_len)))"

definition decode_query_upload_ok :: "fr_frame \<Rightarrow> QueryUploadOk result" where
  "decode_query_upload_ok = decode (\<lambda>r.
     rbind (get_state r) (\<lambda>(state, r).
     rbind (get_u64 r) (\<lambda>(chunk_count, r).
     rbind (get_bitmap r) (\<lambda>(bitmap, r).
       Inr (\<lparr>qu_state = state, qu_chunk_count = chunk_count, qu_present_bitmap = bitmap\<rparr>, r)))))"

definition query_upload_ok_ok :: "QueryUploadOk \<Rightarrow> bool" where
  "query_upload_ok_ok ok =
     (qu_state ok \<in> state_enumerators \<and> length (qu_present_bitmap ok) \<le> kMaxBitmap)"

definition enc_query_upload_ok :: "QueryUploadOk \<Rightarrow> bytes" where
  "enc_query_upload_ok ok =
     enc_state (qu_state ok) @ fr_store_be64 (qu_chunk_count ok) @ [] @
     fr_store_be32 (of_nat (length (qu_present_bitmap ok))) @ qu_present_bitmap ok @ []"

lemma reads_bitmap:
  assumes "length bm \<le> kMaxBitmap"
  shows "reads get_bitmap bm (fr_store_be32 (of_nat (length bm)) @ bm)"
proof -
  have l: "unat (of_nat (length bm) :: u32) = length bm"
    using assms by (simp add: kMaxBitmap_def unat_of_nat)
  then have z: "(of_nat (length bm) :: u32) = 0 \<longleftrightarrow> bm = []"
    by (simp add: word_unat_eq_iff)
  have "reads (\<lambda>r. or_protocol_error ''bitmap truncated'' (fr_buf_reader_read r (length bm))) bm bm"
    by (rule reads_raw) simp
  then have "reads (\<lambda>r. if unat (of_nat (length bm) :: u32) > kMaxBitmap
      then protocol_error ''bitmap too large''
      else if (of_nat (length bm) :: u32) = 0 then Inr ([], r)
      else or_protocol_error ''bitmap truncated''
             (fr_buf_reader_read r (unat (of_nat (length bm) :: u32)))) bm bm"
    using assms unfolding l z by (cases bm) (simp_all add: reads_return)
  then show ?thesis unfolding get_bitmap_def [abs_def] by (rule reads_bind [OF reads_u32])
qed

lemma strict_bitmap: "strict get_bitmap"
  unfolding get_bitmap_def [abs_def] by (intro strict_intros strict_or)

lemma roundtrip_query_upload_ok:
  assumes "query_upload_ok_ok x" shows "roundtrips encode_query_upload_ok decode_query_upload_ok x"
proof -
  have ok: "qu_state x \<in> state_enumerators" "length (qu_present_bitmap x) \<le> kMaxBitmap"
    using assms by (simp_all add: query_upload_ok_ok_def)
  have guard: "emits (\<lambda>out. if length (qu_present_bitmap x) > kMaxBitmap
      then throw_error FR_E_RANGE ''present bitmap exceeds 1 MiB protocol limit'' else Inr out) []"
    using ok(2) by (simp add: emits_def room_def)
  have "roundtrips encode_query_upload_ok decode_query_upload_ok
      \<lparr>qu_state = qu_state x, qu_chunk_count = qu_chunk_count x, qu_present_bitmap = qu_present_bitmap x\<rparr>"
  proof (rule roundtripsI [OF _ _ _ decode_query_upload_ok_def])
    fix alloc assume "granted alloc"
    then show "emits (encode_query_upload_ok alloc
        \<lparr>qu_state = qu_state x, qu_chunk_count = qu_chunk_count x, qu_present_bitmap = qu_present_bitmap x\<rparr>)
        (enc_query_upload_ok x)"
      unfolding encode_query_upload_ok_def enc_query_upload_ok_def QueryUploadOk.select_convs
      by (intro emit_intros guard ok)
  next
    show "length (enc_query_upload_ok x) \<le> 2 ^ 63"
      using ok(2) by (simp add: enc_query_upload_ok_def enc_state_def kMaxBitmap_def)
    have "enc_query_upload_ok x = enc_state (qu_state x) @ fr_store_be64 (qu_chunk_count x) @
        (fr_store_be32 (of_nat (length (qu_present_bitmap x))) @ qu_present_bitmap x) @ []"
      by (simp add: enc_query_upload_ok_def)
    then show "finishes (\<lambda>r. rbind (get_state r) (\<lambda>(state, r).
        rbind (get_u64 r) (\<lambda>(chunk_count, r).
        rbind (get_bitmap r) (\<lambda>(bitmap, r).
          Inr (\<lparr>qu_state = state, qu_chunk_count = chunk_count, qu_present_bitmap = bitmap\<rparr>, r)))))
        \<lparr>qu_state = qu_state x, qu_chunk_count = qu_chunk_count x, qu_present_bitmap = qu_present_bitmap x\<rparr>
        (enc_query_upload_ok x)"
      by (simp only:) (rule finishes_bind finishes_return read_intros reads_bitmap ok)+
  qed
  then show ?thesis by (cases x) simp
qed

lemma strict_query_upload_ok: "decodes_strictly decode_query_upload_ok"
  by (rule decodes_strictlyI [OF _ decode_query_upload_ok_def]) (intro strict_intros strict_bitmap)

record CommitUploadOk =
  cm_ref :: ArtifactRef
  cm_size :: u64
  cm_digest :: string

definition encode_commit_upload_ok :: "alloc \<Rightarrow> CommitUploadOk \<Rightarrow> fr_buf \<Rightarrow> fr_buf result" where
  "encode_commit_upload_ok alloc ok =
     seq [put_ref alloc (cm_ref ok), put_u64 alloc (cm_size ok), put_digest alloc (cm_digest ok)]"

definition decode_commit_upload_ok :: "fr_frame \<Rightarrow> CommitUploadOk result" where
  "decode_commit_upload_ok = decode (\<lambda>r.
     rbind (get_ref r) (\<lambda>(ref, r).
     rbind (get_u64 r) (\<lambda>(size, r).
     rbind (get_digest r) (\<lambda>(digest, r).
       Inr (\<lparr>cm_ref = ref, cm_size = size, cm_digest = digest\<rparr>, r)))))"

definition enc_commit_upload_ok :: "CommitUploadOk \<Rightarrow> bytes" where
  "enc_commit_upload_ok ok =
     enc_ref (cm_ref ok) @ fr_store_be64 (cm_size ok) @ bytes_of (cm_digest ok) @ []"

definition commit_upload_ok_ok :: "CommitUploadOk \<Rightarrow> bool" where
  "commit_upload_ok_ok ok =
     (ref_ok (cm_ref ok) \<and> digest_ok (cm_digest ok))"

lemma roundtrip_commit_upload_ok: "commit_upload_ok_ok x \<Longrightarrow> roundtrips encode_commit_upload_ok decode_commit_upload_ok x"
proof -
  assume ok: "commit_upload_ok_ok x"
  have "roundtrips encode_commit_upload_ok decode_commit_upload_ok \<lparr>cm_ref = cm_ref x, cm_size = cm_size x, cm_digest = cm_digest x\<rparr>"
  proof (rule roundtripsI [OF _ _ _ decode_commit_upload_ok_def])
    fix alloc assume mem: "granted alloc"
    show "emits (encode_commit_upload_ok alloc \<lparr>cm_ref = cm_ref x, cm_size = cm_size x, cm_digest = cm_digest x\<rparr>) (enc_commit_upload_ok x)"
      unfolding encode_commit_upload_ok_def enc_commit_upload_ok_def CommitUploadOk.select_convs
      by (insert mem ok [unfolded commit_upload_ok_ok_def], (elim conjE)?, (intro emit_intros; assumption))
  next
    show "length (enc_commit_upload_ok x) \<le> 2 ^ 63"
      using ok by (simp add: commit_upload_ok_ok_def enc_commit_upload_ok_def size_simps)
  qed (unfold enc_commit_upload_ok_def, insert ok [unfolded commit_upload_ok_ok_def], (elim conjE)?, (rule finish_intros read_intros | assumption)+)
  then show ?thesis by (cases x) simp
qed

lemma strict_commit_upload_ok: "decodes_strictly decode_commit_upload_ok"
  by (rule decodes_strictlyI [OF _ decode_commit_upload_ok_def]) (intro strict_intros)

record DataPayload =
  dp_data :: bytes

definition encode_data :: "alloc \<Rightarrow> DataPayload \<Rightarrow> fr_buf \<Rightarrow> fr_buf result" where
  "encode_data alloc payload =
     seq [put_bytes alloc (dp_data payload)]"

definition decode_data :: "fr_frame \<Rightarrow> DataPayload result" where
  "decode_data = decode (\<lambda>r.
     rbind (get_rest r) (\<lambda>(data, r).
       Inr (\<lparr>dp_data = data\<rparr>, r)))"

definition enc_data :: "DataPayload \<Rightarrow> bytes" where
  "enc_data payload =
     dp_data payload @ []"

definition data_ok :: "DataPayload \<Rightarrow> bool" where
  "data_ok payload =
     (length (dp_data payload) \<le> FR_FRAME_MAX_PAYLOAD)"

lemma roundtrip_data: "data_ok x \<Longrightarrow> roundtrips encode_data decode_data x"
proof -
  assume ok: "data_ok x"
  have "roundtrips encode_data decode_data \<lparr>dp_data = dp_data x\<rparr>"
  proof (rule roundtripsI [OF _ _ _ decode_data_def])
    fix alloc assume mem: "granted alloc"
    show "emits (encode_data alloc \<lparr>dp_data = dp_data x\<rparr>) (enc_data x)"
      unfolding encode_data_def enc_data_def DataPayload.select_convs
      by (insert mem ok [unfolded data_ok_def], (elim conjE)?, (intro emit_intros; assumption))
  next
    show "length (enc_data x) \<le> 2 ^ 63"
      using ok by (simp add: data_ok_def enc_data_def size_simps)
  qed (unfold enc_data_def, insert ok [unfolded data_ok_def], (elim conjE)?, (rule finish_intros read_intros | assumption)+)
  then show ?thesis by (cases x) simp
qed

lemma strict_data: "decodes_strictly decode_data"
  by (rule decodes_strictlyI [OF _ decode_data_def]) (intro strict_intros)

record GetArtifactOk =
  go_bytes_sent :: u64

definition encode_get_artifact_ok :: "alloc \<Rightarrow> GetArtifactOk \<Rightarrow> fr_buf \<Rightarrow> fr_buf result" where
  "encode_get_artifact_ok alloc ok =
     seq [put_u64 alloc (go_bytes_sent ok)]"

definition decode_get_artifact_ok :: "fr_frame \<Rightarrow> GetArtifactOk result" where
  "decode_get_artifact_ok = decode (\<lambda>r.
     rbind (get_u64 r) (\<lambda>(bytes_sent, r).
       Inr (\<lparr>go_bytes_sent = bytes_sent\<rparr>, r)))"

definition enc_get_artifact_ok :: "GetArtifactOk \<Rightarrow> bytes" where
  "enc_get_artifact_ok ok =
     fr_store_be64 (go_bytes_sent ok) @ []"

definition get_artifact_ok_ok :: "GetArtifactOk \<Rightarrow> bool" where
  "get_artifact_ok_ok ok =
     True"

lemma roundtrip_get_artifact_ok: "roundtrips encode_get_artifact_ok decode_get_artifact_ok x"
proof -
  have "roundtrips encode_get_artifact_ok decode_get_artifact_ok \<lparr>go_bytes_sent = go_bytes_sent x\<rparr>"
  proof (rule roundtripsI [OF _ _ _ decode_get_artifact_ok_def])
    fix alloc assume mem: "granted alloc"
    show "emits (encode_get_artifact_ok alloc \<lparr>go_bytes_sent = go_bytes_sent x\<rparr>) (enc_get_artifact_ok x)"
      unfolding encode_get_artifact_ok_def enc_get_artifact_ok_def GetArtifactOk.select_convs
      by (intro emit_intros mem)
  next
    show "length (enc_get_artifact_ok x) \<le> 2 ^ 63"
      by (simp add: enc_get_artifact_ok_def size_simps)
  qed (unfold enc_get_artifact_ok_def, (rule finish_intros read_intros | assumption)+)
  then show ?thesis by (cases x) simp
qed

lemma strict_get_artifact_ok: "decodes_strictly decode_get_artifact_ok"
  by (rule decodes_strictlyI [OF _ decode_get_artifact_ok_def]) (intro strict_intros)

record StatusOk =
  st_version :: string
  st_uptime_seconds :: u64
  st_connections :: u32
  st_active_sessions :: u32
  st_artifacts :: u64
  st_used_bytes :: u64
  st_capacity_bytes :: u64
  st_high_watermark_percent :: u8

definition encode_status_ok :: "alloc \<Rightarrow> StatusOk \<Rightarrow> fr_buf \<Rightarrow> fr_buf result" where
  "encode_status_ok alloc ok =
     seq [put_str alloc (st_version ok), put_u64 alloc (st_uptime_seconds ok),
       put_u32 alloc (st_connections ok), put_u32 alloc (st_active_sessions ok),
       put_u64 alloc (st_artifacts ok), put_u64 alloc (st_used_bytes ok),
       put_u64 alloc (st_capacity_bytes ok), put_u8 alloc (st_high_watermark_percent ok)]"

definition decode_status_ok :: "fr_frame \<Rightarrow> StatusOk result" where
  "decode_status_ok = decode (\<lambda>r.
     rbind (get_str r) (\<lambda>(version, r).
     rbind (get_u64 r) (\<lambda>(uptime_seconds, r).
     rbind (get_u32 r) (\<lambda>(connections, r).
     rbind (get_u32 r) (\<lambda>(active_sessions, r).
     rbind (get_u64 r) (\<lambda>(artifacts, r).
     rbind (get_u64 r) (\<lambda>(used_bytes, r).
     rbind (get_u64 r) (\<lambda>(capacity_bytes, r).
     rbind (get_u8 r) (\<lambda>(high_watermark_percent, r).
       Inr (\<lparr>st_version = version, st_uptime_seconds = uptime_seconds,
               st_connections = connections, st_active_sessions = active_sessions,
               st_artifacts = artifacts, st_used_bytes = used_bytes,
               st_capacity_bytes = capacity_bytes,
               st_high_watermark_percent = high_watermark_percent\<rparr>, r))))))))))"

definition enc_status_ok :: "StatusOk \<Rightarrow> bytes" where
  "enc_status_ok ok =
     enc_str (st_version ok) @ fr_store_be64 (st_uptime_seconds ok) @
     fr_store_be32 (st_connections ok) @ fr_store_be32 (st_active_sessions ok) @
     fr_store_be64 (st_artifacts ok) @ fr_store_be64 (st_used_bytes ok) @
     fr_store_be64 (st_capacity_bytes ok) @ [st_high_watermark_percent ok] @ []"

definition status_ok_ok :: "StatusOk \<Rightarrow> bool" where
  "status_ok_ok ok =
     (str_ok (st_version ok))"

lemma roundtrip_status_ok: "status_ok_ok x \<Longrightarrow> roundtrips encode_status_ok decode_status_ok x"
proof -
  assume ok: "status_ok_ok x"
  have "roundtrips encode_status_ok decode_status_ok \<lparr>st_version = st_version x, st_uptime_seconds = st_uptime_seconds x,
        st_connections = st_connections x, st_active_sessions = st_active_sessions x,
        st_artifacts = st_artifacts x, st_used_bytes = st_used_bytes x,
        st_capacity_bytes = st_capacity_bytes x,
        st_high_watermark_percent = st_high_watermark_percent x\<rparr>"
  proof (rule roundtripsI [OF _ _ _ decode_status_ok_def])
    fix alloc assume mem: "granted alloc"
    show "emits (encode_status_ok alloc \<lparr>st_version = st_version x, st_uptime_seconds = st_uptime_seconds x,
        st_connections = st_connections x, st_active_sessions = st_active_sessions x,
        st_artifacts = st_artifacts x, st_used_bytes = st_used_bytes x,
        st_capacity_bytes = st_capacity_bytes x,
        st_high_watermark_percent = st_high_watermark_percent x\<rparr>) (enc_status_ok x)"
      unfolding encode_status_ok_def enc_status_ok_def StatusOk.select_convs
      by (insert mem ok [unfolded status_ok_ok_def], (elim conjE)?, (intro emit_intros; assumption))
  next
    show "length (enc_status_ok x) \<le> 2 ^ 63"
      using ok by (simp add: status_ok_ok_def enc_status_ok_def size_simps)
  qed (unfold enc_status_ok_def, insert ok [unfolded status_ok_ok_def], (elim conjE)?, (rule finish_intros read_intros | assumption)+)
  then show ?thesis by (cases x) simp
qed

lemma strict_status_ok: "decodes_strictly decode_status_ok"
  by (rule decodes_strictlyI [OF _ decode_status_ok_def]) (intro strict_intros)

record DeleteArtifactOk =
  do_marked_chunks :: int

definition encode_delete_artifact_ok :: "alloc \<Rightarrow> DeleteArtifactOk \<Rightarrow> fr_buf \<Rightarrow> fr_buf result" where
  "encode_delete_artifact_ok alloc ok =
     seq [put_i64 alloc (do_marked_chunks ok)]"

definition decode_delete_artifact_ok :: "fr_frame \<Rightarrow> DeleteArtifactOk result" where
  "decode_delete_artifact_ok = decode (\<lambda>r.
     rbind (get_i64 r) (\<lambda>(marked_chunks, r).
       Inr (\<lparr>do_marked_chunks = marked_chunks\<rparr>, r)))"

definition enc_delete_artifact_ok :: "DeleteArtifactOk \<Rightarrow> bytes" where
  "enc_delete_artifact_ok ok =
     fr_store_be64 (word_of_int (do_marked_chunks ok)) @ []"

definition delete_artifact_ok_ok :: "DeleteArtifactOk \<Rightarrow> bool" where
  "delete_artifact_ok_ok ok =
     (i64 (do_marked_chunks ok))"

lemma roundtrip_delete_artifact_ok: "delete_artifact_ok_ok x \<Longrightarrow> roundtrips encode_delete_artifact_ok decode_delete_artifact_ok x"
proof -
  assume ok: "delete_artifact_ok_ok x"
  have "roundtrips encode_delete_artifact_ok decode_delete_artifact_ok \<lparr>do_marked_chunks = do_marked_chunks x\<rparr>"
  proof (rule roundtripsI [OF _ _ _ decode_delete_artifact_ok_def])
    fix alloc assume mem: "granted alloc"
    show "emits (encode_delete_artifact_ok alloc \<lparr>do_marked_chunks = do_marked_chunks x\<rparr>) (enc_delete_artifact_ok x)"
      unfolding encode_delete_artifact_ok_def enc_delete_artifact_ok_def DeleteArtifactOk.select_convs
      by (insert mem ok [unfolded delete_artifact_ok_ok_def], (elim conjE)?, (intro emit_intros; assumption))
  next
    show "length (enc_delete_artifact_ok x) \<le> 2 ^ 63"
      using ok by (simp add: delete_artifact_ok_ok_def enc_delete_artifact_ok_def size_simps)
  qed (unfold enc_delete_artifact_ok_def, insert ok [unfolded delete_artifact_ok_ok_def], (elim conjE)?, (rule finish_intros read_intros | assumption)+)
  then show ?thesis by (cases x) simp
qed

lemma strict_delete_artifact_ok: "decodes_strictly decode_delete_artifact_ok"
  by (rule decodes_strictlyI [OF _ decode_delete_artifact_ok_def]) (intro strict_intros)

record RunGcOk =
  ro_scanned :: int
  ro_deleted_count :: int
  ro_deleted_bytes :: int

definition encode_run_gc_ok :: "alloc \<Rightarrow> RunGcOk \<Rightarrow> fr_buf \<Rightarrow> fr_buf result" where
  "encode_run_gc_ok alloc ok =
     seq [put_i64 alloc (ro_scanned ok), put_i64 alloc (ro_deleted_count ok),
       put_i64 alloc (ro_deleted_bytes ok)]"

definition decode_run_gc_ok :: "fr_frame \<Rightarrow> RunGcOk result" where
  "decode_run_gc_ok = decode (\<lambda>r.
     rbind (get_i64 r) (\<lambda>(scanned, r).
     rbind (get_i64 r) (\<lambda>(deleted_count, r).
     rbind (get_i64 r) (\<lambda>(deleted_bytes, r).
       Inr (\<lparr>ro_scanned = scanned, ro_deleted_count = deleted_count,
               ro_deleted_bytes = deleted_bytes\<rparr>, r)))))"

definition enc_run_gc_ok :: "RunGcOk \<Rightarrow> bytes" where
  "enc_run_gc_ok ok =
     fr_store_be64 (word_of_int (ro_scanned ok)) @
     fr_store_be64 (word_of_int (ro_deleted_count ok)) @
     fr_store_be64 (word_of_int (ro_deleted_bytes ok)) @ []"

definition run_gc_ok_ok :: "RunGcOk \<Rightarrow> bool" where
  "run_gc_ok_ok ok =
     (i64 (ro_scanned ok) \<and> i64 (ro_deleted_count ok) \<and> i64 (ro_deleted_bytes ok))"

lemma roundtrip_run_gc_ok: "run_gc_ok_ok x \<Longrightarrow> roundtrips encode_run_gc_ok decode_run_gc_ok x"
proof -
  assume ok: "run_gc_ok_ok x"
  have "roundtrips encode_run_gc_ok decode_run_gc_ok \<lparr>ro_scanned = ro_scanned x, ro_deleted_count = ro_deleted_count x,
        ro_deleted_bytes = ro_deleted_bytes x\<rparr>"
  proof (rule roundtripsI [OF _ _ _ decode_run_gc_ok_def])
    fix alloc assume mem: "granted alloc"
    show "emits (encode_run_gc_ok alloc \<lparr>ro_scanned = ro_scanned x, ro_deleted_count = ro_deleted_count x,
        ro_deleted_bytes = ro_deleted_bytes x\<rparr>) (enc_run_gc_ok x)"
      unfolding encode_run_gc_ok_def enc_run_gc_ok_def RunGcOk.select_convs
      by (insert mem ok [unfolded run_gc_ok_ok_def], (elim conjE)?, (intro emit_intros; assumption))
  next
    show "length (enc_run_gc_ok x) \<le> 2 ^ 63"
      using ok by (simp add: run_gc_ok_ok_def enc_run_gc_ok_def size_simps)
  qed (unfold enc_run_gc_ok_def, insert ok [unfolded run_gc_ok_ok_def], (elim conjE)?, (rule finish_intros read_intros | assumption)+)
  then show ?thesis by (cases x) simp
qed

lemma strict_run_gc_ok: "decodes_strictly decode_run_gc_ok"
  by (rule decodes_strictlyI [OF _ decode_run_gc_ok_def]) (intro strict_intros)

record TokenCreateOk =
  to_token :: string

definition encode_token_create_ok :: "alloc \<Rightarrow> TokenCreateOk \<Rightarrow> fr_buf \<Rightarrow> fr_buf result" where
  "encode_token_create_ok alloc ok =
     seq [put_str alloc (to_token ok)]"

definition decode_token_create_ok :: "fr_frame \<Rightarrow> TokenCreateOk result" where
  "decode_token_create_ok = decode (\<lambda>r.
     rbind (get_str r) (\<lambda>(token, r).
       Inr (\<lparr>to_token = token\<rparr>, r)))"

definition enc_token_create_ok :: "TokenCreateOk \<Rightarrow> bytes" where
  "enc_token_create_ok ok =
     enc_str (to_token ok) @ []"

definition token_create_ok_ok :: "TokenCreateOk \<Rightarrow> bool" where
  "token_create_ok_ok ok =
     (str_ok (to_token ok))"

lemma roundtrip_token_create_ok: "token_create_ok_ok x \<Longrightarrow> roundtrips encode_token_create_ok decode_token_create_ok x"
proof -
  assume ok: "token_create_ok_ok x"
  have "roundtrips encode_token_create_ok decode_token_create_ok \<lparr>to_token = to_token x\<rparr>"
  proof (rule roundtripsI [OF _ _ _ decode_token_create_ok_def])
    fix alloc assume mem: "granted alloc"
    show "emits (encode_token_create_ok alloc \<lparr>to_token = to_token x\<rparr>) (enc_token_create_ok x)"
      unfolding encode_token_create_ok_def enc_token_create_ok_def TokenCreateOk.select_convs
      by (insert mem ok [unfolded token_create_ok_ok_def], (elim conjE)?, (intro emit_intros; assumption))
  next
    show "length (enc_token_create_ok x) \<le> 2 ^ 63"
      using ok by (simp add: token_create_ok_ok_def enc_token_create_ok_def size_simps)
  qed (unfold enc_token_create_ok_def, insert ok [unfolded token_create_ok_ok_def], (elim conjE)?, (rule finish_intros read_intros | assumption)+)
  then show ?thesis by (cases x) simp
qed

lemma strict_token_create_ok: "decodes_strictly decode_token_create_ok"
  by (rule decodes_strictlyI [OF _ decode_token_create_ok_def]) (intro strict_intros)

section \<open>Lists of items\<close>

record ArtifactSummary =
  as_ns :: string
  as_name :: string
  as_version :: string
  as_size :: u64
  as_digest :: string
  as_creator :: string
  as_created_at :: int

definition encode_artifact_summary :: "alloc \<Rightarrow> ArtifactSummary \<Rightarrow> fr_buf \<Rightarrow> fr_buf result" where
  "encode_artifact_summary alloc item =
     seq [put_str alloc (as_ns item), put_str alloc (as_name item),
       put_str alloc (as_version item), put_u64 alloc (as_size item),
       put_digest alloc (as_digest item), put_str alloc (as_creator item),
       put_i64 alloc (as_created_at item)]"

definition decode_artifact_summary :: "ArtifactSummary getter" where
  "decode_artifact_summary r =
     rbind (get_str r) (\<lambda>(ns, r).
     rbind (get_str r) (\<lambda>(name, r).
     rbind (get_str r) (\<lambda>(version, r).
     rbind (get_u64 r) (\<lambda>(size, r).
     rbind (get_digest r) (\<lambda>(digest, r).
     rbind (get_str r) (\<lambda>(creator, r).
     rbind (get_i64 r) (\<lambda>(created_at, r).
       Inr (\<lparr>as_ns = ns, as_name = name, as_version = version, as_size = size,
               as_digest = digest, as_creator = creator, as_created_at = created_at\<rparr>, r))))))))"

definition enc_artifact_summary :: "ArtifactSummary \<Rightarrow> bytes" where
  "enc_artifact_summary item =
     enc_str (as_ns item) @ enc_str (as_name item) @ enc_str (as_version item) @
     fr_store_be64 (as_size item) @ bytes_of (as_digest item) @ enc_str (as_creator item) @
     fr_store_be64 (word_of_int (as_created_at item)) @ []"

definition artifact_summary_ok :: "ArtifactSummary \<Rightarrow> bool" where
  "artifact_summary_ok item =
     (str_ok (as_ns item) \<and> str_ok (as_name item) \<and> str_ok (as_version item) \<and>
      digest_ok (as_digest item) \<and> str_ok (as_creator item) \<and>
      i64 (as_created_at item))"

interpretation artifact_summary_codec: codec encode_artifact_summary decode_artifact_summary enc_artifact_summary artifact_summary_ok
proof unfold_locales
  fix alloc x assume "granted alloc" "artifact_summary_ok x"
  then show "emits (encode_artifact_summary alloc x) (enc_artifact_summary x)"
    unfolding encode_artifact_summary_def enc_artifact_summary_def artifact_summary_ok_def by (elim conjE) (intro emit_intros; assumption)
next
  fix x assume ok: "artifact_summary_ok x"
  have "reads decode_artifact_summary \<lparr>as_ns = as_ns x, as_name = as_name x, as_version = as_version x, as_size = as_size x,
        as_digest = as_digest x, as_creator = as_creator x, as_created_at = as_created_at x\<rparr>
      (enc_artifact_summary x)"
    unfolding decode_artifact_summary_def [abs_def] enc_artifact_summary_def
    by (insert ok [unfolded artifact_summary_ok_def], (elim conjE)?, (rule read_intros | assumption)+)
  then show "reads decode_artifact_summary x (enc_artifact_summary x)" by (cases x) simp
next
  show "strict decode_artifact_summary" unfolding decode_artifact_summary_def [abs_def] by (intro strict_intros)
qed

declare artifact_summary_codec.put_emits [emit_intros] artifact_summary_codec.get_reads [read_intros]
  artifact_summary_codec.get_strict [strict_intros]

record UserItem =
  ui_username :: string
  ui_role :: u8
  ui_enabled :: bool
  ui_created_at :: int

definition encode_user_item :: "alloc \<Rightarrow> UserItem \<Rightarrow> fr_buf \<Rightarrow> fr_buf result" where
  "encode_user_item alloc item =
     seq [put_str alloc (ui_username item), put_u8 alloc (ui_role item),
       put_bool alloc (ui_enabled item), put_i64 alloc (ui_created_at item)]"

definition decode_user_item :: "UserItem getter" where
  "decode_user_item r =
     rbind (get_str r) (\<lambda>(username, r).
     rbind (get_u8 r) (\<lambda>(role, r).
     rbind (get_bool r) (\<lambda>(enabled, r).
     rbind (get_i64 r) (\<lambda>(created_at, r).
       Inr (\<lparr>ui_username = username, ui_role = role, ui_enabled = enabled,
               ui_created_at = created_at\<rparr>, r)))))"

definition enc_user_item :: "UserItem \<Rightarrow> bytes" where
  "enc_user_item item =
     enc_str (ui_username item) @ [ui_role item] @ [if ui_enabled item then 1 else 0] @
     fr_store_be64 (word_of_int (ui_created_at item)) @ []"

definition user_item_ok :: "UserItem \<Rightarrow> bool" where
  "user_item_ok item =
     (str_ok (ui_username item) \<and> i64 (ui_created_at item))"

interpretation user_item_codec: codec encode_user_item decode_user_item enc_user_item user_item_ok
proof unfold_locales
  fix alloc x assume "granted alloc" "user_item_ok x"
  then show "emits (encode_user_item alloc x) (enc_user_item x)"
    unfolding encode_user_item_def enc_user_item_def user_item_ok_def by (elim conjE) (intro emit_intros; assumption)
next
  fix x assume ok: "user_item_ok x"
  have "reads decode_user_item \<lparr>ui_username = ui_username x, ui_role = ui_role x, ui_enabled = ui_enabled x,
        ui_created_at = ui_created_at x\<rparr>
      (enc_user_item x)"
    unfolding decode_user_item_def [abs_def] enc_user_item_def
    by (insert ok [unfolded user_item_ok_def], (elim conjE)?, (rule read_intros | assumption)+)
  then show "reads decode_user_item x (enc_user_item x)" by (cases x) simp
next
  show "strict decode_user_item" unfolding decode_user_item_def [abs_def] by (intro strict_intros)
qed

declare user_item_codec.put_emits [emit_intros] user_item_codec.get_reads [read_intros]
  user_item_codec.get_strict [strict_intros]

record TokenItem =
  ti_id :: u64
  ti_username :: string
  ti_created_at :: int
  ti_expires_at :: int
  ti_revoked :: bool

definition encode_token_item :: "alloc \<Rightarrow> TokenItem \<Rightarrow> fr_buf \<Rightarrow> fr_buf result" where
  "encode_token_item alloc item =
     seq [put_u64 alloc (ti_id item), put_str alloc (ti_username item),
       put_i64 alloc (ti_created_at item), put_i64 alloc (ti_expires_at item),
       put_bool alloc (ti_revoked item)]"

definition decode_token_item :: "TokenItem getter" where
  "decode_token_item r =
     rbind (get_u64 r) (\<lambda>(id, r).
     rbind (get_str r) (\<lambda>(username, r).
     rbind (get_i64 r) (\<lambda>(created_at, r).
     rbind (get_i64 r) (\<lambda>(expires_at, r).
     rbind (get_bool r) (\<lambda>(revoked, r).
       Inr (\<lparr>ti_id = id, ti_username = username, ti_created_at = created_at,
               ti_expires_at = expires_at, ti_revoked = revoked\<rparr>, r))))))"

definition enc_token_item :: "TokenItem \<Rightarrow> bytes" where
  "enc_token_item item =
     fr_store_be64 (ti_id item) @ enc_str (ti_username item) @
     fr_store_be64 (word_of_int (ti_created_at item)) @
     fr_store_be64 (word_of_int (ti_expires_at item)) @ [if ti_revoked item then 1 else 0] @ []"

definition token_item_ok :: "TokenItem \<Rightarrow> bool" where
  "token_item_ok item =
     (str_ok (ti_username item) \<and> i64 (ti_created_at item) \<and> i64 (ti_expires_at item))"

interpretation token_item_codec: codec encode_token_item decode_token_item enc_token_item token_item_ok
proof unfold_locales
  fix alloc x assume "granted alloc" "token_item_ok x"
  then show "emits (encode_token_item alloc x) (enc_token_item x)"
    unfolding encode_token_item_def enc_token_item_def token_item_ok_def by (elim conjE) (intro emit_intros; assumption)
next
  fix x assume ok: "token_item_ok x"
  have "reads decode_token_item \<lparr>ti_id = ti_id x, ti_username = ti_username x, ti_created_at = ti_created_at x,
        ti_expires_at = ti_expires_at x, ti_revoked = ti_revoked x\<rparr>
      (enc_token_item x)"
    unfolding decode_token_item_def [abs_def] enc_token_item_def
    by (insert ok [unfolded token_item_ok_def], (elim conjE)?, (rule read_intros | assumption)+)
  then show "reads decode_token_item x (enc_token_item x)" by (cases x) simp
next
  show "strict decode_token_item" unfolding decode_token_item_def [abs_def] by (intro strict_intros)
qed

declare token_item_codec.put_emits [emit_intros] token_item_codec.get_reads [read_intros]
  token_item_codec.get_strict [strict_intros]

record SessionItem =
  se_session_id :: string
  se_owner :: string
  se_state :: SessionState
  se_ns :: string
  se_name :: string
  se_version :: string
  se_expected_size :: u64
  se_created_at :: int

definition encode_session_item :: "alloc \<Rightarrow> SessionItem \<Rightarrow> fr_buf \<Rightarrow> fr_buf result" where
  "encode_session_item alloc item =
     seq [put_str alloc (se_session_id item), put_str alloc (se_owner item),
       put_state alloc (se_state item), put_str alloc (se_ns item),
       put_str alloc (se_name item), put_str alloc (se_version item),
       put_u64 alloc (se_expected_size item), put_i64 alloc (se_created_at item)]"

definition decode_session_item :: "SessionItem getter" where
  "decode_session_item r =
     rbind (get_str r) (\<lambda>(session_id, r).
     rbind (get_str r) (\<lambda>(owner, r).
     rbind (get_state r) (\<lambda>(state, r).
     rbind (get_str r) (\<lambda>(ns, r).
     rbind (get_str r) (\<lambda>(name, r).
     rbind (get_str r) (\<lambda>(version, r).
     rbind (get_u64 r) (\<lambda>(expected_size, r).
     rbind (get_i64 r) (\<lambda>(created_at, r).
       Inr (\<lparr>se_session_id = session_id, se_owner = owner, se_state = state, se_ns = ns,
               se_name = name, se_version = version, se_expected_size = expected_size,
               se_created_at = created_at\<rparr>, r)))))))))"

definition enc_session_item :: "SessionItem \<Rightarrow> bytes" where
  "enc_session_item item =
     enc_str (se_session_id item) @ enc_str (se_owner item) @ enc_state (se_state item) @
     enc_str (se_ns item) @ enc_str (se_name item) @ enc_str (se_version item) @
     fr_store_be64 (se_expected_size item) @ fr_store_be64 (word_of_int (se_created_at item)) @
     []"

definition session_item_ok :: "SessionItem \<Rightarrow> bool" where
  "session_item_ok item =
     (str_ok (se_session_id item) \<and> str_ok (se_owner item) \<and>
      (se_state item \<in> state_enumerators) \<and> str_ok (se_ns item) \<and>
      str_ok (se_name item) \<and> str_ok (se_version item) \<and> i64 (se_created_at item))"

interpretation session_item_codec: codec encode_session_item decode_session_item enc_session_item session_item_ok
proof unfold_locales
  fix alloc x assume "granted alloc" "session_item_ok x"
  then show "emits (encode_session_item alloc x) (enc_session_item x)"
    unfolding encode_session_item_def enc_session_item_def session_item_ok_def by (elim conjE) (intro emit_intros; assumption)
next
  fix x assume ok: "session_item_ok x"
  have "reads decode_session_item \<lparr>se_session_id = se_session_id x, se_owner = se_owner x, se_state = se_state x,
        se_ns = se_ns x, se_name = se_name x, se_version = se_version x,
        se_expected_size = se_expected_size x, se_created_at = se_created_at x\<rparr>
      (enc_session_item x)"
    unfolding decode_session_item_def [abs_def] enc_session_item_def
    by (insert ok [unfolded session_item_ok_def], (elim conjE)?, (rule read_intros | assumption)+)
  then show "reads decode_session_item x (enc_session_item x)" by (cases x) simp
next
  show "strict decode_session_item" unfolding decode_session_item_def [abs_def] by (intro strict_intros)
qed

declare session_item_codec.put_emits [emit_intros] session_item_codec.get_reads [read_intros]
  session_item_codec.get_strict [strict_intros]

text \<open>The four list responses: at most 4096 items are accepted.\<close>

definition kMaxListCount :: nat where "kMaxListCount = 4096"

record ListArtifactsOk = lao_items :: "ArtifactSummary list"
record UserListOk = ulo_items :: "UserItem list"
record TokenListOk = tlo_items :: "TokenItem list"
record SessionListOk = slo_items :: "SessionItem list"

definition encode_list_artifacts_ok :: "alloc \<Rightarrow> ListArtifactsOk \<Rightarrow> fr_buf \<Rightarrow> fr_buf result" where
  "encode_list_artifacts_ok alloc ok = put_list encode_artifact_summary alloc (lao_items ok)"

definition decode_list_artifacts_ok :: "fr_frame \<Rightarrow> ListArtifactsOk result" where
  "decode_list_artifacts_ok = decode (\<lambda>r.
     rbind (get_list kMaxListCount ''list count too large'' decode_artifact_summary r) (\<lambda>(items, r).
       Inr (\<lparr>lao_items = items\<rparr>, r)))"

definition encode_user_list_ok :: "alloc \<Rightarrow> UserListOk \<Rightarrow> fr_buf \<Rightarrow> fr_buf result" where
  "encode_user_list_ok alloc ok = put_list encode_user_item alloc (ulo_items ok)"

definition decode_user_list_ok :: "fr_frame \<Rightarrow> UserListOk result" where
  "decode_user_list_ok = decode (\<lambda>r.
     rbind (get_list kMaxListCount ''list count too large'' decode_user_item r) (\<lambda>(items, r).
       Inr (\<lparr>ulo_items = items\<rparr>, r)))"

definition encode_token_list_ok :: "alloc \<Rightarrow> TokenListOk \<Rightarrow> fr_buf \<Rightarrow> fr_buf result" where
  "encode_token_list_ok alloc ok = put_list encode_token_item alloc (tlo_items ok)"

definition decode_token_list_ok :: "fr_frame \<Rightarrow> TokenListOk result" where
  "decode_token_list_ok = decode (\<lambda>r.
     rbind (get_list kMaxListCount ''list count too large'' decode_token_item r) (\<lambda>(items, r).
       Inr (\<lparr>tlo_items = items\<rparr>, r)))"

definition encode_session_list_ok :: "alloc \<Rightarrow> SessionListOk \<Rightarrow> fr_buf \<Rightarrow> fr_buf result" where
  "encode_session_list_ok alloc ok = put_list encode_session_item alloc (slo_items ok)"

definition decode_session_list_ok :: "fr_frame \<Rightarrow> SessionListOk result" where
  "decode_session_list_ok = decode (\<lambda>r.
     rbind (get_list kMaxListCount ''list count too large'' decode_session_item r) (\<lambda>(items, r).
       Inr (\<lparr>slo_items = items\<rparr>, r)))"

text \<open>A list that fits in one frame.\<close>

definition list_ok :: "('a \<Rightarrow> bytes) \<Rightarrow> ('a \<Rightarrow> bool) \<Rightarrow> 'a list \<Rightarrow> bool" where
  "list_ok enc ok xs = (list_all ok xs \<and> length xs \<le> kMaxListCount \<and>
     length (enc_list enc xs) \<le> FR_FRAME_MAX_PAYLOAD)"

context codec
begin

lemma list_finishes:
  assumes "list_ok enc ok xs"
  shows "finishes (\<lambda>r. rbind (get_list kMaxListCount reason get r) (\<lambda>(items, r). Inr (f items, r)))
           (f xs) (enc_list enc xs)"
proof -
  have "reads (get_list kMaxListCount reason get) xs (enc_list enc xs)"
    using assms by (intro list_reads) (simp_all add: list_ok_def kMaxListCount_def)
  then have "finishes (\<lambda>r. rbind (get_list kMaxListCount reason get r) (\<lambda>(items, r). Inr (f items, r)))
      (f xs) (enc_list enc xs @ [])"
    by (rule finishes_bind) (rule finishes_return)
  then show ?thesis by simp
qed

lemma list_fits: "list_ok enc ok xs \<Longrightarrow> length (enc_list enc xs) \<le> 2 ^ 63"
  by (simp add: list_ok_def FR_FRAME_MAX_PAYLOAD_def)

lemma list_ok_emits:
  "granted alloc \<Longrightarrow> list_ok enc ok xs \<Longrightarrow> emits (put_list put alloc xs) (enc_list enc xs)"
  by (rule list_emits) (simp_all add: list_ok_def)

end

lemma roundtrip_list_artifacts_ok:
  assumes "list_ok enc_artifact_summary artifact_summary_ok (lao_items x)"
  shows "roundtrips encode_list_artifacts_ok decode_list_artifacts_ok x"
proof (rule roundtripsI [OF _ _ _ decode_list_artifacts_ok_def])
  show "emits (encode_list_artifacts_ok alloc x) (enc_list enc_artifact_summary (lao_items x))" if "granted alloc" for alloc
    unfolding encode_list_artifacts_ok_def using that assms by (rule artifact_summary_codec.list_ok_emits)
  show "finishes (\<lambda>r. rbind (get_list kMaxListCount ''list count too large'' decode_artifact_summary r)
      (\<lambda>(items, r). Inr (\<lparr>lao_items = items\<rparr>, r))) x (enc_list enc_artifact_summary (lao_items x))"
    using artifact_summary_codec.list_finishes [OF assms, of _ "\<lambda>items. \<lparr>lao_items = items\<rparr>"] by (cases x) simp
  show "length (enc_list enc_artifact_summary (lao_items x)) \<le> 2 ^ 63"
    using assms by (rule artifact_summary_codec.list_fits)
qed

lemma strict_list_artifacts_ok: "decodes_strictly decode_list_artifacts_ok"
  by (rule decodes_strictlyI [OF _ decode_list_artifacts_ok_def])
     (intro strict_intros artifact_summary_codec.list_strict)

lemma roundtrip_user_list_ok:
  assumes "list_ok enc_user_item user_item_ok (ulo_items x)"
  shows "roundtrips encode_user_list_ok decode_user_list_ok x"
proof (rule roundtripsI [OF _ _ _ decode_user_list_ok_def])
  show "emits (encode_user_list_ok alloc x) (enc_list enc_user_item (ulo_items x))" if "granted alloc" for alloc
    unfolding encode_user_list_ok_def using that assms by (rule user_item_codec.list_ok_emits)
  show "finishes (\<lambda>r. rbind (get_list kMaxListCount ''list count too large'' decode_user_item r)
      (\<lambda>(items, r). Inr (\<lparr>ulo_items = items\<rparr>, r))) x (enc_list enc_user_item (ulo_items x))"
    using user_item_codec.list_finishes [OF assms, of _ "\<lambda>items. \<lparr>ulo_items = items\<rparr>"] by (cases x) simp
  show "length (enc_list enc_user_item (ulo_items x)) \<le> 2 ^ 63"
    using assms by (rule user_item_codec.list_fits)
qed

lemma strict_user_list_ok: "decodes_strictly decode_user_list_ok"
  by (rule decodes_strictlyI [OF _ decode_user_list_ok_def])
     (intro strict_intros user_item_codec.list_strict)

lemma roundtrip_token_list_ok:
  assumes "list_ok enc_token_item token_item_ok (tlo_items x)"
  shows "roundtrips encode_token_list_ok decode_token_list_ok x"
proof (rule roundtripsI [OF _ _ _ decode_token_list_ok_def])
  show "emits (encode_token_list_ok alloc x) (enc_list enc_token_item (tlo_items x))" if "granted alloc" for alloc
    unfolding encode_token_list_ok_def using that assms by (rule token_item_codec.list_ok_emits)
  show "finishes (\<lambda>r. rbind (get_list kMaxListCount ''list count too large'' decode_token_item r)
      (\<lambda>(items, r). Inr (\<lparr>tlo_items = items\<rparr>, r))) x (enc_list enc_token_item (tlo_items x))"
    using token_item_codec.list_finishes [OF assms, of _ "\<lambda>items. \<lparr>tlo_items = items\<rparr>"] by (cases x) simp
  show "length (enc_list enc_token_item (tlo_items x)) \<le> 2 ^ 63"
    using assms by (rule token_item_codec.list_fits)
qed

lemma strict_token_list_ok: "decodes_strictly decode_token_list_ok"
  by (rule decodes_strictlyI [OF _ decode_token_list_ok_def])
     (intro strict_intros token_item_codec.list_strict)

lemma roundtrip_session_list_ok:
  assumes "list_ok enc_session_item session_item_ok (slo_items x)"
  shows "roundtrips encode_session_list_ok decode_session_list_ok x"
proof (rule roundtripsI [OF _ _ _ decode_session_list_ok_def])
  show "emits (encode_session_list_ok alloc x) (enc_list enc_session_item (slo_items x))" if "granted alloc" for alloc
    unfolding encode_session_list_ok_def using that assms by (rule session_item_codec.list_ok_emits)
  show "finishes (\<lambda>r. rbind (get_list kMaxListCount ''list count too large'' decode_session_item r)
      (\<lambda>(items, r). Inr (\<lparr>slo_items = items\<rparr>, r))) x (enc_list enc_session_item (slo_items x))"
    using session_item_codec.list_finishes [OF assms, of _ "\<lambda>items. \<lparr>slo_items = items\<rparr>"] by (cases x) simp
  show "length (enc_list enc_session_item (slo_items x)) \<le> 2 ^ 63"
    using assms by (rule session_item_codec.list_fits)
qed

lemma strict_session_list_ok: "decodes_strictly decode_session_list_ok"
  by (rule decodes_strictlyI [OF _ decode_session_list_ok_def])
     (intro strict_intros session_item_codec.list_strict)

section \<open>Artifact descriptions\<close>

definition encode_manifest_entry :: "alloc \<Rightarrow> ManifestEntry \<Rightarrow> fr_buf \<Rightarrow> fr_buf result" where
  "encode_manifest_entry alloc entry =
     seq [put_u32 alloc (word_of_int (me_ordinal entry)), put_u64 alloc (me_offset entry),
          put_u64 alloc (me_length entry), put_digest alloc (me_digest entry)]"

definition decode_manifest_entry :: "ManifestEntry getter" where
  "decode_manifest_entry r =
     rbind (get_u32 r) (\<lambda>(ordinal, r).
     rbind (get_u64 r) (\<lambda>(offset, r).
     rbind (get_u64 r) (\<lambda>(len, r).
     rbind (get_digest r) (\<lambda>(digest, r).
       Inr (\<lparr>me_ordinal = uint ordinal, me_offset = offset, me_length = len,
             me_digest = digest\<rparr>, r)))))"

definition enc_manifest_entry :: "ManifestEntry \<Rightarrow> bytes" where
  "enc_manifest_entry entry =
     fr_store_be32 (word_of_int (me_ordinal entry)) @ fr_store_be64 (me_offset entry) @
     fr_store_be64 (me_length entry) @ bytes_of (me_digest entry) @ []"

definition manifest_entry_ok :: "ManifestEntry \<Rightarrow> bool" where
  "manifest_entry_ok entry =
     (0 \<le> me_ordinal entry \<and> me_ordinal entry < 2 ^ 32 \<and> digest_ok (me_digest entry))"

interpretation manifest_codec:
  codec encode_manifest_entry decode_manifest_entry enc_manifest_entry manifest_entry_ok
proof unfold_locales
  fix alloc x assume "granted alloc" "manifest_entry_ok x"
  then show "emits (encode_manifest_entry alloc x) (enc_manifest_entry x)"
    unfolding encode_manifest_entry_def enc_manifest_entry_def manifest_entry_ok_def
    by (elim conjE) (intro emit_intros; assumption)
next
  fix x assume ok: "manifest_entry_ok x"
  then have "digest_ok (me_digest x)" by (simp add: manifest_entry_ok_def)
  then have "reads decode_manifest_entry
      \<lparr>me_ordinal = uint (word_of_int (me_ordinal x) :: u32), me_offset = me_offset x,
       me_length = me_length x, me_digest = me_digest x\<rparr> (enc_manifest_entry x)"
    unfolding decode_manifest_entry_def [abs_def] enc_manifest_entry_def
    by - (rule read_intros | assumption)+
  moreover have "uint (word_of_int (me_ordinal x) :: u32) = me_ordinal x"
    using ok by (simp add: manifest_entry_ok_def uint_word_of_int_eq take_bit_int_eq_self)
  ultimately show "reads decode_manifest_entry x (enc_manifest_entry x)" by (cases x) simp
next
  show "strict decode_manifest_entry"
    unfolding decode_manifest_entry_def [abs_def] by (intro strict_intros)
qed

record ShowArtifactOk = sa_info :: ArtifactInfo

definition encode_show_artifact_ok :: "alloc \<Rightarrow> ShowArtifactOk \<Rightarrow> fr_buf \<Rightarrow> fr_buf result" where
  "encode_show_artifact_ok alloc ok =
     (let info = sa_info ok in
      seq [put_str alloc (ai_ns info), put_str alloc (ai_name info), put_str alloc (ai_version info),
           put_u64 alloc (ai_size info), put_digest alloc (ai_digest info),
           put_u64 alloc (ai_chunk_size info), put_str alloc (ai_creator info),
           put_i64 alloc (ai_created_at info), put_str alloc (ai_note info),
           put_list encode_manifest_entry alloc (ai_chunks info)])"

definition kMaxManifestCount :: nat where "kMaxManifestCount = 1024 * 1024"

definition decode_show_artifact_ok :: "fr_frame \<Rightarrow> ShowArtifactOk result" where
  "decode_show_artifact_ok = decode (\<lambda>r.
     rbind (get_str r) (\<lambda>(ns, r).
     rbind (get_str r) (\<lambda>(name, r).
     rbind (get_str r) (\<lambda>(version, r).
     rbind (get_u64 r) (\<lambda>(size, r).
     rbind (get_digest r) (\<lambda>(digest, r).
     rbind (get_u64 r) (\<lambda>(chunk_size, r).
     rbind (get_str r) (\<lambda>(creator, r).
     rbind (get_i64 r) (\<lambda>(created_at, r).
     rbind (get_str r) (\<lambda>(note, r).
     rbind (get_list kMaxManifestCount ''manifest count too large'' decode_manifest_entry r)
       (\<lambda>(chunks, r).
       Inr (\<lparr>sa_info = \<lparr>ai_ns = ns, ai_name = name, ai_version = version, ai_size = size,
               ai_digest = digest, ai_chunk_size = chunk_size, ai_creator = creator,
               ai_created_at = created_at, ai_note = note, ai_chunks = chunks\<rparr>\<rparr>, r))))))))))))"

definition enc_artifact_info :: "ArtifactInfo \<Rightarrow> bytes" where
  "enc_artifact_info info =
     enc_str (ai_ns info) @ enc_str (ai_name info) @ enc_str (ai_version info) @
     fr_store_be64 (ai_size info) @ bytes_of (ai_digest info) @
     fr_store_be64 (ai_chunk_size info) @ enc_str (ai_creator info) @
     fr_store_be64 (word_of_int (ai_created_at info)) @ enc_str (ai_note info) @
     enc_list enc_manifest_entry (ai_chunks info) @ []"

definition show_artifact_ok_ok :: "ShowArtifactOk \<Rightarrow> bool" where
  "show_artifact_ok_ok ok =
     (let info = sa_info ok in
      str_ok (ai_ns info) \<and> str_ok (ai_name info) \<and> str_ok (ai_version info) \<and>
      digest_ok (ai_digest info) \<and> str_ok (ai_creator info) \<and> i64 (ai_created_at info) \<and>
      str_ok (ai_note info) \<and> list_all manifest_entry_ok (ai_chunks info) \<and>
      length (ai_chunks info) \<le> kMaxManifestCount \<and>
      length (enc_artifact_info info) \<le> FR_FRAME_MAX_PAYLOAD)"

lemma roundtrip_show_artifact_ok:
  assumes ok: "show_artifact_ok_ok x"
  shows "roundtrips encode_show_artifact_ok decode_show_artifact_ok x"
proof (rule roundtripsI [OF _ _ _ decode_show_artifact_ok_def])
  obtain i where i: "x = \<lparr>sa_info = i\<rparr>" by (cases x)
  show "emits (encode_show_artifact_ok alloc x) (enc_artifact_info (sa_info x))" if mem: "granted alloc" for alloc
    unfolding encode_show_artifact_ok_def enc_artifact_info_def Let_def
    by (insert mem ok [unfolded show_artifact_ok_ok_def Let_def], elim conjE)
       (intro emit_intros manifest_codec.list_emits; assumption)
  show "length (enc_artifact_info (sa_info x)) \<le> 2 ^ 63"
    using ok by (simp add: show_artifact_ok_ok_def Let_def FR_FRAME_MAX_PAYLOAD_def)
  have lim: "kMaxManifestCount < 2 ^ 32" by (simp add: kMaxManifestCount_def)
  let ?i = "sa_info x"
  have x: "x = \<lparr>sa_info = \<lparr>ai_ns = ai_ns ?i, ai_name = ai_name ?i, ai_version = ai_version ?i,
      ai_size = ai_size ?i, ai_digest = ai_digest ?i, ai_chunk_size = ai_chunk_size ?i,
      ai_creator = ai_creator ?i, ai_created_at = ai_created_at ?i, ai_note = ai_note ?i,
      ai_chunks = ai_chunks ?i\<rparr>\<rparr>" by simp
  show "finishes (\<lambda>r.
     rbind (get_str r) (\<lambda>(ns, r).
     rbind (get_str r) (\<lambda>(name, r).
     rbind (get_str r) (\<lambda>(version, r).
     rbind (get_u64 r) (\<lambda>(size, r).
     rbind (get_digest r) (\<lambda>(digest, r).
     rbind (get_u64 r) (\<lambda>(chunk_size, r).
     rbind (get_str r) (\<lambda>(creator, r).
     rbind (get_i64 r) (\<lambda>(created_at, r).
     rbind (get_str r) (\<lambda>(note, r).
     rbind (get_list kMaxManifestCount ''manifest count too large'' decode_manifest_entry r)
       (\<lambda>(chunks, r).
       Inr (\<lparr>sa_info = \<lparr>ai_ns = ns, ai_name = name, ai_version = version, ai_size = size,
               ai_digest = digest, ai_chunk_size = chunk_size, ai_creator = creator,
               ai_created_at = created_at, ai_note = note, ai_chunks = chunks\<rparr>\<rparr>, r))))))))))))
     x (enc_artifact_info (sa_info x))"
    by (subst x, unfold enc_artifact_info_def, insert ok [unfolded show_artifact_ok_ok_def Let_def] lim,
        elim conjE)
       (rule finish_intros manifest_codec.list_reads read_intros | assumption)+
qed

lemma strict_show_artifact_ok: "decodes_strictly decode_show_artifact_ok"
  by (rule decodes_strictlyI [OF _ decode_show_artifact_ok_def])
     (intro strict_intros manifest_codec.list_strict)

section \<open>OK and ERROR envelopes, artifact references\<close>

definition encode_ok :: "alloc \<Rightarrow> bytes option \<Rightarrow> nat \<Rightarrow> fr_buf \<Rightarrow> fr_buf result" where
  "encode_ok alloc payload payload_len =
     seq [put_i32 alloc (status_value FR_OK),
          (\<lambda>out. if payload \<noteq> None \<and> payload_len \<noteq> 0
                 then Inr (snd (fr_buf_append alloc out payload (of_nat payload_len)))
                 else Inr out)]"

record ErrorPayload =
  ep_code :: fr_status
  ep_message :: string

definition encode_error_payload :: "alloc \<Rightarrow> fr_status \<Rightarrow> string \<Rightarrow> fr_buf \<Rightarrow> fr_buf result" where
  "encode_error_payload alloc code message =
     seq [put_i32 alloc (status_value code), put_str alloc message]"

definition decode_error_payload :: "fr_frame \<Rightarrow> ErrorPayload result" where
  "decode_error_payload = decode (\<lambda>r.
     rbind (get_i32 r) (\<lambda>(code, r).
     rbind (get_str r) (\<lambda>(message, r).
       Inr (\<lparr>ep_code = status_of_value code, ep_message = message\<rparr>, r))))"

definition error_payload_ok :: "ErrorPayload \<Rightarrow> bool" where
  "error_payload_ok p = (is_enumerator (ep_code p) \<and> str_ok (ep_message p))"

lemma status_value_i32: "is_enumerator st \<Longrightarrow> i32 (status_value st)"
  by (cases st) (simp_all add: i32_def)

lemma roundtrip_error_payload:
  assumes ok: "error_payload_ok x"
  shows "roundtrips (\<lambda>alloc p. encode_error_payload alloc (ep_code p) (ep_message p))
           decode_error_payload x"
proof (rule roundtripsI [OF _ _ _ decode_error_payload_def])
  let ?bs = "fr_store_be32 (word_of_int (status_value (ep_code x))) @ enc_str (ep_message x) @ []"
  have e: "is_enumerator (ep_code x)" and s: "str_ok (ep_message x)"
    using ok by (simp_all add: error_payload_ok_def)
  show "emits (encode_error_payload alloc (ep_code x) (ep_message x)) ?bs" if "granted alloc" for alloc
    unfolding encode_error_payload_def using that s by (intro emit_intros)
  show "length ?bs \<le> 2 ^ 63" using s by (simp add: size_simps)
  have x: "x = \<lparr>ep_code = status_of_value (status_value (ep_code x)), ep_message = ep_message x\<rparr>"
    using status_of_value_value [OF e] by simp
  show "finishes (\<lambda>r. rbind (get_i32 r) (\<lambda>(code, r). rbind (get_str r) (\<lambda>(message, r).
      Inr (\<lparr>ep_code = status_of_value code, ep_message = message\<rparr>, r)))) x ?bs"
    by (subst x) (rule finish_intros read_intros status_value_i32 [OF e] s)+
qed

lemma strict_error_payload: "decodes_strictly decode_error_payload"
  by (rule decodes_strictlyI [OF _ decode_error_payload_def]) (intro strict_intros)

definition decode_ref :: "fr_frame \<Rightarrow> ArtifactRef result" where
  "decode_ref = decode get_ref"

lemma roundtrip_ref: "ref_ok x \<Longrightarrow> roundtrips put_ref decode_ref x"
proof (rule roundtripsI [OF _ _ _ decode_ref_def])
  assume ok: "ref_ok x"
  show "emits (put_ref alloc x) (enc_ref x)" if "granted alloc" for alloc
    using that ok by (rule ref_codec.put_emits)
  show "finishes get_ref x (enc_ref x)"
    by (rule reads_finishes) (rule ref_codec.get_reads [OF ok])
  show "length (enc_ref x) \<le> 2 ^ 63" using ok by (simp add: size_simps)
qed

lemma strict_ref: "decodes_strictly decode_ref"
  by (rule decodes_strictlyI [OF ref_codec.get_strict decode_ref_def])

section \<open>Properties\<close>



text \<open>Every response round-trips, the lists of artifacts, users, tokens and sessions and the
  artifact description with its manifest included, provided it fits in one frame.\<close>

theorem responses_roundtrip:
  "(\<forall>x. auth_ok_ok x \<longrightarrow> roundtrips encode_auth_ok decode_auth_ok x) \<and>
   (\<forall>x. create_upload_ok_ok x \<longrightarrow> roundtrips encode_create_upload_ok decode_create_upload_ok x) \<and>
   (\<forall>x. put_chunk_ok_ok x \<longrightarrow> roundtrips encode_put_chunk_ok decode_put_chunk_ok x) \<and>
   (\<forall>x. query_upload_ok_ok x \<longrightarrow> roundtrips encode_query_upload_ok decode_query_upload_ok x) \<and>
   (\<forall>x. commit_upload_ok_ok x \<longrightarrow> roundtrips encode_commit_upload_ok decode_commit_upload_ok x) \<and>
   (\<forall>x. data_ok x \<longrightarrow> roundtrips encode_data decode_data x) \<and>
   (\<forall>x. roundtrips encode_get_artifact_ok decode_get_artifact_ok x) \<and>
   (\<forall>x. status_ok_ok x \<longrightarrow> roundtrips encode_status_ok decode_status_ok x) \<and>
   (\<forall>x. delete_artifact_ok_ok x \<longrightarrow> roundtrips encode_delete_artifact_ok decode_delete_artifact_ok x) \<and>
   (\<forall>x. run_gc_ok_ok x \<longrightarrow> roundtrips encode_run_gc_ok decode_run_gc_ok x) \<and>
   (\<forall>x. token_create_ok_ok x \<longrightarrow> roundtrips encode_token_create_ok decode_token_create_ok x) \<and>
   (\<forall>x. show_artifact_ok_ok x \<longrightarrow> roundtrips encode_show_artifact_ok decode_show_artifact_ok x) \<and>
   (\<forall>x. list_ok enc_artifact_summary artifact_summary_ok (lao_items x) \<longrightarrow>
        roundtrips encode_list_artifacts_ok decode_list_artifacts_ok x) \<and>
   (\<forall>x. list_ok enc_user_item user_item_ok (ulo_items x) \<longrightarrow>
        roundtrips encode_user_list_ok decode_user_list_ok x) \<and>
   (\<forall>x. list_ok enc_token_item token_item_ok (tlo_items x) \<longrightarrow>
        roundtrips encode_token_list_ok decode_token_list_ok x) \<and>
   (\<forall>x. list_ok enc_session_item session_item_ok (slo_items x) \<longrightarrow>
        roundtrips encode_session_list_ok decode_session_list_ok x) \<and>
   (\<forall>x. error_payload_ok x \<longrightarrow>
        roundtrips (\<lambda>alloc p. encode_error_payload alloc (ep_code p) (ep_message p))
          decode_error_payload x)"
  by (simp add: roundtrip_auth_ok roundtrip_create_upload_ok roundtrip_put_chunk_ok
      roundtrip_query_upload_ok roundtrip_commit_upload_ok roundtrip_data roundtrip_get_artifact_ok
      roundtrip_status_ok roundtrip_delete_artifact_ok roundtrip_run_gc_ok
      roundtrip_token_create_ok roundtrip_show_artifact_ok roundtrip_list_artifacts_ok
      roundtrip_user_list_ok roundtrip_token_list_ok roundtrip_session_list_ok
      roundtrip_error_payload)

theorem responses_roundtrip_witness:
  "roundtrips encode_user_list_ok decode_user_list_ok
     \<lparr>ulo_items = [\<lparr>ui_username = ''ann'', ui_role = 2, ui_enabled = True, ui_created_at = -5\<rparr>]\<rparr>"
  using responses_roundtrip
  by (simp add: list_ok_def user_item_ok_def enc_list_def enc_user_item_def enc_str_def
      str_ok_def kMaxStringLen_def kMaxListCount_def FR_FRAME_MAX_PAYLOAD_def i64_def)

text \<open>On any payload whatsoever a decoder either succeeds or throws the protocol error
  \<open>FR_E_PROTOCOL\<close>; no malformed input leads to another error.\<close>

theorem decoders_strict:
  "decodes_strictly decode_hello_req \<and> decodes_strictly decode_auth_req \<and>
   decodes_strictly decode_create_upload_req \<and> decodes_strictly decode_put_chunk_req \<and>
   decodes_strictly decode_get_artifact_req \<and> decodes_strictly decode_list_artifacts_req \<and>
   decodes_strictly decode_run_gc_req \<and> decodes_strictly decode_user_add_req \<and>
   decodes_strictly decode_token_create_req \<and> decodes_strictly decode_ref \<and>
   decodes_strictly decode_auth_ok \<and> decodes_strictly decode_create_upload_ok \<and>
   decodes_strictly decode_put_chunk_ok \<and> decodes_strictly decode_query_upload_ok \<and>
   decodes_strictly decode_commit_upload_ok \<and> decodes_strictly decode_data \<and>
   decodes_strictly decode_get_artifact_ok \<and> decodes_strictly decode_status_ok \<and>
   decodes_strictly decode_delete_artifact_ok \<and> decodes_strictly decode_run_gc_ok \<and>
   decodes_strictly decode_token_create_ok \<and> decodes_strictly decode_show_artifact_ok \<and>
   decodes_strictly decode_list_artifacts_ok \<and> decodes_strictly decode_user_list_ok \<and>
   decodes_strictly decode_token_list_ok \<and> decodes_strictly decode_session_list_ok \<and>
   decodes_strictly decode_error_payload"
  by (intro conjI strict_hello_req strict_auth_req strict_create_upload_req strict_put_chunk_req
      strict_get_artifact_req strict_list_artifacts_req strict_run_gc_req strict_user_add_req
      strict_token_create_req strict_ref strict_auth_ok strict_create_upload_ok
      strict_put_chunk_ok strict_query_upload_ok strict_commit_upload_ok strict_data
      strict_get_artifact_ok strict_status_ok strict_delete_artifact_ok strict_run_gc_ok
      strict_token_create_ok strict_show_artifact_ok strict_list_artifacts_ok
      strict_user_list_ok strict_token_list_ok strict_session_list_ok strict_error_payload)

end
