(* ===== verification/Auth.thy ===== *)
theory Auth
  imports Tables ChunkStore Messages
begin

text \<open>
  Users, bearer tokens and the audit trail, \<^verbatim>\<open>src/service/fr_auth.cpp\<close>. Every
  method is an operation on the metadata database; its mutex makes a method one step. The clock,
  the random bytes and SHA-256 are parameters. The properties: a token is accepted exactly when its
  row and its user say so, a fresh token is accepted as its user until it expires, and a revoked
  token or a disabled user stays shut out whatever happens later.
\<close>

section \<open>Roles\<close>

text \<open>\<open>enum class Role : uint8_t\<close>; a cast from a byte can give a value without an
  enumerator.\<close>

datatype Role = Reader | Publisher | Admin | ROLE_OTHER u8

definition role_of_value :: "u8 \<Rightarrow> Role" where
  "role_of_value n = (if n = 0 then Reader else if n = 1 then Publisher else if n = 2 then Admin else ROLE_OTHER n)"

fun role_value :: "Role \<Rightarrow> u8" where
  "role_value Reader = 0"
| "role_value Publisher = 1"
| "role_value Admin = 2"
| "role_value (ROLE_OTHER n) = n"

fun role_name :: "Role \<Rightarrow> string" where
  "role_name Reader = ''Reader''"
| "role_name Publisher = ''Publisher''"
| "role_name Admin = ''Admin''"
| "role_name (ROLE_OTHER n) = ''Reader''"

definition role_from :: "string \<Rightarrow> Role option" where
  "role_from name =
     (if name = ''Reader'' then Some Reader
      else if name = ''Publisher'' then Some Publisher
      else if name = ''Admin'' then Some Admin
      else None)"

definition role_from_text :: "string \<Rightarrow> Role result" where
  "role_from_text s =
     (case role_from s of
        None \<Rightarrow> throw_error FR_E_INTERNAL (''unknown role text in database: '' @ s)
      | Some role \<Rightarrow> Inr role)"

section \<open>The registry\<close>

record auth_env =
  au_now :: int
  au_random :: bytes
  au_sha :: "bytes \<Rightarrow> bytes"

definition insert_user :: "user_row \<Rightarrow> (database, unit) op" where
  "insert_user row db =
     (let new_id = db_user_seq db + 1
      in if list_ex (\<lambda>u. us_username u = us_username row) (db_user db) then (constraint_failed, db)
         else (Inr (), db\<lparr>db_user := db_user db @ [row\<lparr>us_id := new_id\<rparr>], db_user_seq := new_id\<rparr>))"

definition user_add :: "auth_env \<Rightarrow> string \<Rightarrow> Role \<Rightarrow> (database, unit) op" where
  "user_add env username role =
     (if username = [] \<or> \<not> fr_ident_valid_component (Some username)
      then op_throw FR_E_ARG ''username must be a valid component (1-64 chars)''
      else insert_user \<lparr>us_id = 0, us_username = username, us_role = role_name role,
                        us_enabled = 1, us_created_at = au_now env\<rparr>)"

definition user_disable :: "string \<Rightarrow> (database, unit) op" where
  "user_disable username db =
     (let hit = (\<lambda>u. us_username u = username);
          db' = db\<lparr>db_user := update_where hit (\<lambda>u. u\<lparr>us_enabled := 0\<rparr>) (db_user db)\<rparr>
      in if changes hit (db_user db) = 0
         then (throw_error FR_E_NOTFOUND (''user not found: '' @ username), db')
         else (Inr (), db'))"

fun user_items :: "user_row list \<Rightarrow> UserItem list result" where
  "user_items [] = Inr []"
| "user_items (u # us) =
     rbind (role_from_text (us_role u)) (\<lambda>role.
     rbind (user_items us) (\<lambda>items.
       Inr (\<lparr>ui_username = us_username u, ui_role = role_value role, ui_enabled = us_enabled u \<noteq> 0,
             ui_created_at = us_created_at u\<rparr> # items)))"

definition user_list :: "database \<Rightarrow> UserItem list result" where
  "user_list db = user_items (sort_key us_id (db_user db))"

definition token_digest :: "(bytes \<Rightarrow> bytes) \<Rightarrow> string \<Rightarrow> string" where
  "token_digest sha token = sha256_to_hex (sha (bytes_of token))"

definition insert_token :: "token_row \<Rightarrow> (database, unit) op" where
  "insert_token row db =
     (let new_id = db_token_seq db + 1
      in if list_ex (\<lambda>t. tk_token_hash t = tk_token_hash row) (db_token db) \<or>
            \<not> list_ex (\<lambda>u. us_id u = tk_user_id row) (db_user db)
         then (constraint_failed, db)
         else (Inr (), db\<lparr>db_token := db_token db @ [row\<lparr>tk_id := new_id\<rparr>], db_token_seq := new_id\<rparr>))"

definition token_create :: "auth_env \<Rightarrow> string \<Rightarrow> u32 \<Rightarrow> (database, string) op" where
  "token_create env username ttl_hours db =
     (case select_one (\<lambda>u. us_username u = username) (db_user db) of
        None \<Rightarrow> (throw_error FR_E_NOTFOUND (''user not found: '' @ username), db)
      | Some u \<Rightarrow>
          if us_enabled u = 0 then (throw_error FR_E_ARG (''user is disabled: '' @ username), db)
          else
            let token = ''fr_'' @ sha256_to_hex (au_random env);
                expires = (if ttl_hours = 0 then 0 else au_now env + int (unat ttl_hours) * 3600)
            in op_bind (insert_token \<lparr>tk_id = 0, tk_user_id = us_id u,
                                      tk_token_hash = token_digest (au_sha env) token,
                                      tk_expires_at = Some expires, tk_revoked_at = None,
                                      tk_created_at = au_now env\<rparr>)
                 (\<lambda>x. op_return token) db)"

text \<open>\<open>column_int\<close> of a NULL column is 0.\<close>

definition column_int :: "int option \<Rightarrow> int" where
  "column_int c = (case c of None \<Rightarrow> 0 | Some n \<Rightarrow> n)"

text \<open>The rows of \<open>token JOIN user\<close>.\<close>

definition token_users :: "database \<Rightarrow> (token_row \<times> user_row) list" where
  "token_users db =
     concat (map (\<lambda>t. map (\<lambda>u. (t, u)) (filter (\<lambda>u. us_id u = tk_user_id t) (db_user db))) (db_token db))"

definition token_list :: "string \<Rightarrow> database \<Rightarrow> TokenItem list" where
  "token_list username db =
     map (\<lambda>(t, u). \<lparr>ti_id = word_of_int (tk_id t), ti_username = us_username u,
                    ti_created_at = tk_created_at t, ti_expires_at = column_int (tk_expires_at t),
                    ti_revoked = column_int (tk_revoked_at t) \<noteq> 0\<rparr>)
       (sort_key (\<lambda>(t, u). tk_id t) (filter (\<lambda>(t, u). us_username u = username) (token_users db)))"

definition token_revoke :: "auth_env \<Rightarrow> u64 \<Rightarrow> (database, unit) op" where
  "token_revoke env token_id db =
     (let hit = (\<lambda>t. tk_id t = sint token_id \<and> tk_revoked_at t = None);
          db' = db\<lparr>db_token := update_where hit (\<lambda>t. t\<lparr>tk_revoked_at := Some (au_now env)\<rparr>) (db_token db)\<rparr>
      in if changes hit (db_token db) = 0
         then (throw_error FR_E_NOTFOUND ''token not found or already revoked'', db')
         else (Inr (), db'))"

definition verify :: "auth_env \<Rightarrow> string \<Rightarrow> database \<Rightarrow> AuthOk result" where
  "verify env token db =
     (if token = [] then throw_error FR_E_UNAUTHENTICATED ''empty token''
      else case select_one (\<lambda>(t, u). tk_token_hash t = token_digest (au_sha env) token) (token_users db) of
        None \<Rightarrow> throw_error FR_E_UNAUTHENTICATED ''unknown token''
      | Some (t, u) \<Rightarrow>
          rbind (role_from_text (us_role u)) (\<lambda>role.
            let expires = column_int (tk_expires_at t);
                revoked = (column_int (tk_revoked_at t) \<noteq> 0);
                enabled = (us_enabled u \<noteq> 0)
            in if revoked then throw_error FR_E_UNAUTHENTICATED ''token revoked''
               else if expires \<noteq> 0 \<and> expires \<le> au_now env
               then throw_error FR_E_UNAUTHENTICATED ''token expired''
               else if \<not> enabled then throw_error FR_E_UNAUTHENTICATED ''user disabled''
               else Inr \<lparr>ao_username = us_username u, ao_role = role_value role\<rparr>))"

definition audit :: "auth_env \<Rightarrow> string \<Rightarrow> string \<Rightarrow> string \<Rightarrow> string \<Rightarrow> (database, unit) op" where
  "audit env actor action target res db =
     (let new_id = db_audit_seq db + 1
      in (Inr (), db\<lparr>db_audit := db_audit db @
                       [\<lparr>ev_id = new_id, ev_actor = actor, ev_action = action, ev_target = target,
                         ev_result = res, ev_created_at = au_now env\<rparr>],
                     db_audit_seq := new_id\<rparr>))"

definition has_no_users :: "database \<Rightarrow> bool" where
  "has_no_users db = (db_user db = [])"

definition active_session_count :: "database \<Rightarrow> int" where
  "active_session_count db = changes (\<lambda>r. ss_state r = ''OPEN'') (db_session db)"

section \<open>The invariant of the registry\<close>

definition role_texts :: "string set" where
  "role_texts = {''Reader'', ''Publisher'', ''Admin''}"

definition auth_ok :: "database \<Rightarrow> bool" where
  "auth_ok db =
     (distinct (map us_id (db_user db)) \<and> distinct (map us_username (db_user db)) \<and>
      (\<forall>u\<in>set (db_user db). us_id u \<le> db_user_seq db \<and> us_role u \<in> role_texts) \<and>
      distinct (map tk_id (db_token db)) \<and> distinct (map tk_token_hash (db_token db)) \<and>
      (\<forall>t\<in>set (db_token db). tk_id t \<le> db_token_seq db \<and> tk_user_id t \<in> us_id ` set (db_user db)))"

inductive auth_step :: "database \<Rightarrow> database \<Rightarrow> bool" where
  add: "auth_step db (snd (user_add env username role db))"
| disable: "auth_step db (snd (user_disable username db))"
| create: "auth_step db (snd (token_create env username ttl db))"
| revoke: "auth_step db (snd (token_revoke env token_id db))"
| audit: "auth_step db (snd (audit env actor action target res db))"

inductive auth_run :: "database \<Rightarrow> database \<Rightarrow> bool" where
  done_run: "auth_run db db"
| step_run: "auth_run db db' \<Longrightarrow> auth_step db' db'' \<Longrightarrow> auth_run db db''"

lemma role_name_text: "role_name role \<in> role_texts"
  by (cases role) (simp_all add: role_texts_def)

lemma role_from_texts: "s \<in> role_texts \<Longrightarrow> \<exists>role. role_from_text s = Inr role"
  by (auto simp: role_texts_def role_from_text_def role_from_def)

lemma role_from_name: "role_from_text (role_name role) = Inr (case role of ROLE_OTHER n \<Rightarrow> Reader | r \<Rightarrow> r)"
  by (cases role) (simp_all add: role_from_text_def role_from_def)

text \<open>What one step does to the two tables.\<close>

lemma auth_step_tables:
  assumes "auth_step db db'"
  obtains (same) "db_user db' = db_user db" "db_token db' = db_token db"
      "db_user_seq db' = db_user_seq db" "db_token_seq db' = db_token_seq db"
    | (new_user) row where "db_user db' = db_user db @ [row]" "db_token db' = db_token db"
      "us_id row = db_user_seq db + 1" "us_role row \<in> role_texts"
      "us_username row \<notin> us_username ` set (db_user db)"
      "db_user_seq db' = db_user_seq db + 1" "db_token_seq db' = db_token_seq db"
    | (disabled) hit where "db_user db' = update_where hit (\<lambda>u. u\<lparr>us_enabled := 0\<rparr>) (db_user db)"
      "db_token db' = db_token db" "db_user_seq db' = db_user_seq db" "db_token_seq db' = db_token_seq db"
    | (new_token) row where "db_user db' = db_user db" "db_token db' = db_token db @ [row]"
      "tk_id row = db_token_seq db + 1" "tk_user_id row \<in> us_id ` set (db_user db)"
      "tk_token_hash row \<notin> tk_token_hash ` set (db_token db)"
      "db_user_seq db' = db_user_seq db" "db_token_seq db' = db_token_seq db + 1"
    | (revoked) hit now where "\<And>t. hit t \<Longrightarrow> tk_revoked_at t = None"
      "db_token db' = update_where hit (\<lambda>t. t\<lparr>tk_revoked_at := Some now\<rparr>) (db_token db)"
      "db_user db' = db_user db" "db_user_seq db' = db_user_seq db" "db_token_seq db' = db_token_seq db"
  using assms
proof cases
  case (add env username role)
  let ?row = "\<lparr>us_id = 0, us_username = username, us_role = role_name role, us_enabled = 1,
    us_created_at = au_now env\<rparr>"
  have "db' = db \<or> db' = db\<lparr>db_user := db_user db @ [?row\<lparr>us_id := db_user_seq db + 1\<rparr>],
      db_user_seq := db_user_seq db + 1\<rparr> \<and> username \<notin> us_username ` set (db_user db)"
    using add by (auto simp: user_add_def insert_user_def Let_def op_throw_def list_ex_iff split: if_splits)
  then show ?thesis
    using same new_user [of "?row\<lparr>us_id := db_user_seq db + 1\<rparr>"] role_name_text [of role] by auto
next
  case (disable username)
  then show ?thesis using disabled by (auto simp: user_disable_def Let_def)
next
  case (create env username ttl)
  show ?thesis
  proof (cases "select_one (\<lambda>u. us_username u = username) (db_user db)")
    case None
    then show ?thesis using create same by (simp add: token_create_def)
  next
    case (Some u)
    let ?token = "''fr_'' @ sha256_to_hex (au_random env)"
    let ?row = "\<lparr>tk_id = 0, tk_user_id = us_id u, tk_token_hash = token_digest (au_sha env) ?token,
      tk_expires_at = Some (if ttl = 0 then 0 else au_now env + int (unat ttl) * 3600),
      tk_revoked_at = None, tk_created_at = au_now env\<rparr>"
    have "db' = db \<or> db' = db\<lparr>db_token := db_token db @ [?row\<lparr>tk_id := db_token_seq db + 1\<rparr>],
        db_token_seq := db_token_seq db + 1\<rparr> \<and> tk_token_hash ?row \<notin> tk_token_hash ` set (db_token db)"
      using create Some
      by (auto simp: token_create_def insert_token_def op_return_def constraint_failed_def throw_error_def
          Let_def list_ex_iff split: if_splits)
    moreover have "us_id u \<in> us_id ` set (db_user db)" using select_one_Some [OF Some] by simp
    ultimately show ?thesis
      using same new_token [of "?row\<lparr>tk_id := db_token_seq db + 1\<rparr>"] by auto
  qed
next
  case (revoke env token_id)
  then show ?thesis
    using revoked [of "\<lambda>t. tk_id t = sint token_id \<and> tk_revoked_at t = None" "au_now env"]
    by (auto simp: token_revoke_def Let_def)
next
  case (audit env actor action target res)
  then show ?thesis using same by (simp add: audit_def Let_def)
qed

lemma map_disabled:
  "map us_id (update_where hit (\<lambda>u. u\<lparr>us_enabled := 0\<rparr>) us) = map us_id us"
  "map us_username (update_where hit (\<lambda>u. u\<lparr>us_enabled := 0\<rparr>) us) = map us_username us"
  "map us_role (update_where hit (\<lambda>u. u\<lparr>us_enabled := 0\<rparr>) us) = map us_role us"
  by (simp_all add: map_update_where)

lemma map_revoked:
  "map tk_id (update_where hit (\<lambda>t. t\<lparr>tk_revoked_at := r\<rparr>) ts) = map tk_id ts"
  "map tk_token_hash (update_where hit (\<lambda>t. t\<lparr>tk_revoked_at := r\<rparr>) ts) = map tk_token_hash ts"
  "map tk_user_id (update_where hit (\<lambda>t. t\<lparr>tk_revoked_at := r\<rparr>) ts) = map tk_user_id ts"
  by (simp_all add: map_update_where)

text \<open>The invariant speaks of these columns only.\<close>

lemma auth_ok_columns:
  "auth_ok db =
     (distinct (map us_id (db_user db)) \<and> distinct (map us_username (db_user db)) \<and>
      (\<forall>n\<in>set (map us_id (db_user db)). n \<le> db_user_seq db) \<and> set (map us_role (db_user db)) \<subseteq> role_texts \<and>
      distinct (map tk_id (db_token db)) \<and> distinct (map tk_token_hash (db_token db)) \<and>
      (\<forall>n\<in>set (map tk_id (db_token db)). n \<le> db_token_seq db) \<and>
      set (map tk_user_id (db_token db)) \<subseteq> set (map us_id (db_user db)))"
  by (auto simp: auth_ok_def)

lemma auth_step_ok:
  assumes "auth_step db db'" and "auth_ok db" shows "auth_ok db'"
  using assms(1)
proof (cases rule: auth_step_tables)
  case same
  with assms(2) show ?thesis by (simp add: auth_ok_def)
next
  case (new_user row)
  with assms(2) show ?thesis by (force simp: auth_ok_def)
next
  case (disabled hit)
  with assms(2) show ?thesis unfolding auth_ok_columns by (simp only: map_disabled) blast
next
  case (new_token row)
  with assms(2) show ?thesis by (force simp: auth_ok_def)
next
  case (revoked hit now)
  with assms(2) show ?thesis unfolding auth_ok_columns by (simp only: map_revoked) blast
qed

lemma token_users_set:
  "set (token_users db) = {(t, u). t \<in> set (db_token db) \<and> u \<in> set (db_user db) \<and> us_id u = tk_user_id t}"
  by (auto simp: token_users_def)

text \<open>The row a token is looked up by is unique.\<close>

lemma select_token:
  assumes ok: "auth_ok db" and t: "t \<in> set (db_token db)" and u: "u \<in> set (db_user db)"
    and "us_id u = tk_user_id t" and "tk_token_hash t = h"
  shows "select_one (\<lambda>(t, u). tk_token_hash t = h) (token_users db) = Some (t, u)"
proof (cases "select_one (\<lambda>(t, u). tk_token_hash t = h) (token_users db)")
  case None
  then have "\<forall>r\<in>set (token_users db). \<not> (case r of (t, u) \<Rightarrow> tk_token_hash t = h)"
    by (simp only: select_one_None)
  with assms show ?thesis by (auto simp: token_users_set)
next
  case (Some r)
  obtain t' u' where r: "r = (t', u')" by (cases r)
  have "(t', u') \<in> set (token_users db)" "tk_token_hash t' = h"
    using select_one_Some [OF Some] r by auto
  then have t': "t' \<in> set (db_token db)" "u' \<in> set (db_user db)" "us_id u' = tk_user_id t'"
    by (simp_all add: token_users_set)
  have "t' = t"
    using distinct_key_eq [of tk_token_hash "db_token db" t' t] ok t t'(1) assms(5) \<open>tk_token_hash t' = h\<close>
    by (simp add: auth_ok_def)
  moreover have "u' = u"
    using distinct_key_eq [of us_id "db_user db" u' u] ok u t'(2,3) assms(4) calculation
    by (simp add: auth_ok_def)
  ultimately show ?thesis using Some r by simp
qed

lemma token_user:
  assumes "auth_ok db" and "t \<in> set (db_token db)"
  obtains u where "u \<in> set (db_user db)" "us_id u = tk_user_id t" "us_role u \<in> role_texts"
proof -
  have "tk_user_id t \<in> us_id ` set (db_user db)" using assms by (simp add: auth_ok_def)
  then obtain u where "tk_user_id t = us_id u" "u \<in> set (db_user db)" by (rule imageE)
  with assms(1) that show ?thesis by (simp add: auth_ok_def)
qed

text \<open>A row that grants access.\<close>

definition grants :: "auth_env \<Rightarrow> string \<Rightarrow> database \<Rightarrow> token_row \<Rightarrow> user_row \<Rightarrow> bool" where
  "grants env token db t u =
     (t \<in> set (db_token db) \<and> u \<in> set (db_user db) \<and> us_id u = tk_user_id t \<and>
      tk_token_hash t = token_digest (au_sha env) token \<and> column_int (tk_revoked_at t) = 0 \<and>
      (column_int (tk_expires_at t) = 0 \<or> au_now env < column_int (tk_expires_at t)) \<and>
      us_enabled u \<noteq> 0)"

lemma verify_row:
  assumes "auth_ok db" and "t \<in> set (db_token db)" and "u \<in> set (db_user db)" and "us_id u = tk_user_id t"
    and "tk_token_hash t = token_digest (au_sha env) token" and "token \<noteq> []"
  shows "verify env token db =
    (if column_int (tk_revoked_at t) \<noteq> 0 then throw_error FR_E_UNAUTHENTICATED ''token revoked''
     else if column_int (tk_expires_at t) \<noteq> 0 \<and> column_int (tk_expires_at t) \<le> au_now env
     then throw_error FR_E_UNAUTHENTICATED ''token expired''
     else if us_enabled u = 0 then throw_error FR_E_UNAUTHENTICATED ''user disabled''
     else rbind (role_from_text (us_role u)) (\<lambda>role.
       Inr \<lparr>ao_username = us_username u, ao_role = role_value role\<rparr>))"
proof -
  have "us_role u \<in> role_texts" using assms(1,3) by (simp add: auth_ok_def)
  then obtain role where "role_from_text (us_role u) = Inr role" using role_from_texts by blast
  then show ?thesis
    using select_token [OF assms(1-5)] assms(6) by (simp add: verify_def Let_def)
qed

lemma verify_refuses:
  assumes "auth_ok db" and "\<And>t u. \<not> grants env token db t u"
  shows "\<exists>msg. verify env token db = Inl (Err FR_E_UNAUTHENTICATED msg)"
proof (cases "token = [] \<or> select_one (\<lambda>(t, u). tk_token_hash t = token_digest (au_sha env) token) (token_users db) = None")
  case True
  then show ?thesis by (auto simp: verify_def throw_error_def)
next
  case False
  then obtain t u where "select_one (\<lambda>(t, u). tk_token_hash t = token_digest (au_sha env) token) (token_users db) = Some (t, u)"
    by auto
  from select_one_Some [OF this] have
    row: "t \<in> set (db_token db)" "u \<in> set (db_user db)" "us_id u = tk_user_id t"
      "tk_token_hash t = token_digest (au_sha env) token" by (auto simp: token_users_set)
  with assms(2) [of t u] False verify_row [OF assms(1) row] show ?thesis
    by (auto simp: grants_def throw_error_def not_less)
qed

section \<open>Properties\<close>

text \<open>C18: A bearer token is accepted exactly when a stored token row with its hash is not revoked
  and not expired and belongs to an enabled user; the answer is that user's name and role.
  Everything else is refused with \<open>FR_E_UNAUTHENTICATED\<close>.\<close>

theorem verify_exact:
  assumes "auth_ok db" and "token \<noteq> []"
  shows "(\<forall>t u. grants env token db t u \<longrightarrow>
            (\<exists>role. role_from_text (us_role u) = Inr role \<and>
               verify env token db = Inr \<lparr>ao_username = us_username u, ao_role = role_value role\<rparr>)) \<and>
     ((\<nexists>t u. grants env token db t u) \<longrightarrow>
        (\<exists>msg. verify env token db = Inl (Err FR_E_UNAUTHENTICATED msg)))"
proof (intro conjI allI impI)
  fix t u assume g: "grants env token db t u"
  then have "us_role u \<in> role_texts" using assms(1) by (simp add: auth_ok_def grants_def)
  then obtain role where role: "role_from_text (us_role u) = Inr role" using role_from_texts by blast
  have "verify env token db = Inr \<lparr>ao_username = us_username u, ao_role = role_value role\<rparr>"
    using g verify_row [OF assms(1), of t u env token] assms(2) role by (auto simp: grants_def)
  with role show "\<exists>role. role_from_text (us_role u) = Inr role \<and>
      verify env token db = Inr \<lparr>ao_username = us_username u, ao_role = role_value role\<rparr>" by blast
next
  assume "\<nexists>t u. grants env token db t u"
  then show "\<exists>msg. verify env token db = Inl (Err FR_E_UNAUTHENTICATED msg)"
    using verify_refuses [OF assms(1)] by blast
qed

text \<open>What stays true of a token that was revoked or whose user was disabled.\<close>

definition shut_out :: "string \<Rightarrow> database \<Rightarrow> bool" where
  "shut_out h db =
     (\<exists>t\<in>set (db_token db). tk_token_hash t = h \<and>
        (column_int (tk_revoked_at t) \<noteq> 0 \<or>
         (\<exists>u\<in>set (db_user db). us_id u = tk_user_id t \<and> us_enabled u = 0)))"

lemma shut_out_step:
  assumes "auth_step db db'" and "shut_out h db" shows "shut_out h db'"
proof -
  obtain t where t: "t \<in> set (db_token db)" "tk_token_hash t = h" and
    why: "column_int (tk_revoked_at t) \<noteq> 0 \<or> (\<exists>u\<in>set (db_user db). us_id u = tk_user_id t \<and> us_enabled u = 0)"
    using assms(2) by (auto simp: shut_out_def)
  from assms(1) show ?thesis
  proof (cases rule: auth_step_tables)
    case same
    with assms(2) show ?thesis by (simp add: shut_out_def)
  next
    case (new_user row)
    with t why show ?thesis unfolding shut_out_def by (intro bexI [of _ t]) auto
  next
    case (disabled hit)
    have "\<exists>u'\<in>set (db_user db'). us_id u' = us_id u \<and> us_enabled u' = 0"
      if "u \<in> set (db_user db)" "us_enabled u = 0" for u
    proof -
      let ?u = "if hit u then u\<lparr>us_enabled := 0\<rparr> else u"
      have "?u \<in> set (db_user db')" using that(1) disabled(1) by (auto simp: update_where_def)
      moreover have "us_id ?u = us_id u \<and> us_enabled ?u = 0" using that(2) by simp
      ultimately show ?thesis by blast
    qed
    then show ?thesis unfolding shut_out_def using t why disabled(2) by (intro bexI [of _ t]) metis+
  next
    case (new_token row)
    with t why show ?thesis unfolding shut_out_def by (intro bexI [of _ t]) auto
  next
    case (revoked hit now)
    let ?t = "if hit t then t\<lparr>tk_revoked_at := Some now\<rparr> else t"
    have "?t \<in> set (db_token db')" using t(1) revoked(2) by (auto simp: update_where_def)
    moreover have "tk_token_hash ?t = h" "tk_user_id ?t = tk_user_id t" using t(2) by simp_all
    moreover have "column_int (tk_revoked_at t) \<noteq> 0 \<Longrightarrow> \<not> hit t"
      using revoked(1) by (auto simp: column_int_def)
    ultimately show ?thesis
      unfolding shut_out_def using why revoked(3) by (intro bexI [of _ ?t]) auto
  qed
qed

lemma auth_run_shut_out:
  "auth_run db db' \<Longrightarrow> shut_out h db \<Longrightarrow> shut_out h db'"
  by (induction rule: auth_run.induct) (auto intro: shut_out_step)

lemma auth_run_ok: "auth_run db db' \<Longrightarrow> auth_ok db \<Longrightarrow> auth_ok db'"
  by (induction rule: auth_run.induct) (auto intro: auth_step_ok)

lemma shut_out_refused:
  assumes "auth_ok db" and "shut_out (token_digest (au_sha env) token) db"
  shows "\<exists>msg. verify env token db = Inl (Err FR_E_UNAUTHENTICATED msg)"
proof (rule verify_refuses [OF assms(1)])
  fix t u
  obtain t' where t': "t' \<in> set (db_token db)" "tk_token_hash t' = token_digest (au_sha env) token"
    and why: "column_int (tk_revoked_at t') \<noteq> 0 \<or> (\<exists>u\<in>set (db_user db). us_id u = tk_user_id t' \<and> us_enabled u = 0)"
    using assms(2) by (auto simp: shut_out_def)
  show "\<not> grants env token db t u"
  proof
    assume g: "grants env token db t u"
    then have "t = t'"
      using distinct_key_eq [of tk_token_hash "db_token db" t t'] t' assms(1) by (simp add: grants_def auth_ok_def)
    note t = this
    have u: "us_enabled u \<noteq> 0" "u \<in> set (db_user db)" "us_id u = tk_user_id t"
      "column_int (tk_revoked_at t) = 0"
      using g by (simp_all add: grants_def)
    from why show False
    proof
      assume "column_int (tk_revoked_at t') \<noteq> 0"
      with t u(4) show False by simp
    next
      assume "\<exists>u\<in>set (db_user db). us_id u = tk_user_id t' \<and> us_enabled u = 0"
      then obtain u' where u': "u' \<in> set (db_user db)" "us_id u' = tk_user_id t'" "us_enabled u' = 0" by blast
      have "u' = u"
        by (rule distinct_key_eq [of us_id "db_user db"])
          (use assms(1) u u' t in \<open>simp_all add: auth_ok_def\<close>)
      with u(1) u'(3) show False by simp
    qed
  qed
qed

lemma revoke_shuts_out:
  assumes "token_revoke env token_id db = (Inr (), db')" and "auth_ok db"
    and "t \<in> set (db_token db)" and "tk_id t = sint token_id" and "au_now env \<noteq> 0"
  shows "shut_out (tk_token_hash t) db'"
proof -
  let ?hit = "\<lambda>t. tk_id t = sint token_id \<and> tk_revoked_at t = None"
  let ?f = "\<lambda>t. t\<lparr>tk_revoked_at := Some (au_now env)\<rparr>"
  have db': "db_token db' = update_where ?hit ?f (db_token db)" and "changes ?hit (db_token db) \<noteq> 0"
    using assms(1) by (auto simp: token_revoke_def Let_def throw_error_def split: if_splits)
  then have "changes ?hit (db_token db) > 0" by (simp add: changes_def)
  then obtain t' where t': "t' \<in> set (db_token db)" "?hit t'" unfolding changes_pos by blast
  have "t' = t"
    by (rule distinct_key_eq [of tk_id "db_token db"]) (use assms(2-4) t' in \<open>simp_all add: auth_ok_def\<close>)
  then have "?f t \<in> set (db_token db')" using t' unfolding db' by (auto simp: set_update_where)
  then show ?thesis using assms(5) unfolding shut_out_def by (intro bexI [of _ "?f t"]) (simp_all add: column_int_def)
qed

lemma disable_shuts_out:
  assumes "user_disable username db = (Inr (), db')" and "u \<in> set (db_user db)" and "us_username u = username"
    and "t \<in> set (db_token db)" and "tk_user_id t = us_id u"
  shows "shut_out (tk_token_hash t) db'"
proof -
  let ?f = "\<lambda>u. u\<lparr>us_enabled := 0\<rparr>"
  have db': "db_user db' = update_where (\<lambda>u. us_username u = username) ?f (db_user db)" "db_token db' = db_token db"
    using assms(1) by (auto simp: user_disable_def Let_def throw_error_def split: if_splits)
  then have "?f u \<in> set (db_user db')" using assms(2,3) by (auto simp: set_update_where)
  then have "\<exists>u'\<in>set (db_user db'). us_id u' = tk_user_id t \<and> us_enabled u' = 0"
    by (rule bexI [rotated]) (simp add: assms(5))
  then show ?thesis using assms(4) db'(2) unfolding shut_out_def by (intro bexI [of _ t]) simp_all
qed

text \<open>Shut out for good. Once a token has been revoked, or its user disabled, the registry never
  accepts that token again, whatever users and tokens are added, disabled, created or revoked
  afterwards and whatever the clock says.\<close>

theorem revoked_token_stays_refused:
  assumes "auth_ok db" and "auth_run db1 db2" and "t \<in> set (db_token db)"
    and "tk_token_hash t = token_digest (au_sha env') token"
    and "(token_revoke env token_id db = (Inr (), db1) \<and> tk_id t = sint token_id \<and> au_now env \<noteq> 0) \<or>
         (user_disable username db = (Inr (), db1) \<and>
          (\<exists>u\<in>set (db_user db). us_username u = username \<and> tk_user_id t = us_id u))"
  shows "\<exists>msg. verify env' token db2 = Inl (Err FR_E_UNAUTHENTICATED msg)"
proof -
  have "auth_step db (snd (token_revoke env token_id db))" by (rule auth_step.revoke)
  moreover have "auth_step db (snd (user_disable username db))" by (rule auth_step.disable)
  ultimately have ok1: "auth_ok db1" using assms(1,5) auth_step_ok by (metis snd_conv)
  have "shut_out (tk_token_hash t) db1"
    using assms(5) revoke_shuts_out [OF _ assms(1,3)] disable_shuts_out [OF _ _ _ assms(3)] by blast
  then have "shut_out (token_digest (au_sha env') token) db2"
    using auth_run_shut_out [OF assms(2)] assms(4) by simp
  then show ?thesis using shut_out_refused [OF auth_run_ok [OF assms(2) ok1]] by simp
qed

lemma token_create_row:
  assumes "token_create env username ttl db = (Inr token, db')" and "auth_ok db"
  obtains u t where "u \<in> set (db_user db')" "us_username u = username" "us_enabled u \<noteq> 0"
    "t \<in> set (db_token db')" "us_id u = tk_user_id t" "tk_token_hash t = token_digest (au_sha env) token"
    "tk_revoked_at t = None" "token \<noteq> []"
    "tk_expires_at t = Some (if ttl = 0 then 0 else au_now env + int (unat ttl) * 3600)" "auth_ok db'"
proof -
  obtain u where u: "select_one (\<lambda>u. us_username u = username) (db_user db) = Some u" "us_enabled u \<noteq> 0"
    using assms(1) by (auto simp: token_create_def throw_error_def split: option.splits if_splits)
  let ?token = "''fr_'' @ sha256_to_hex (au_random env)"
  let ?t = "\<lparr>tk_id = db_token_seq db + 1, tk_user_id = us_id u, tk_token_hash = token_digest (au_sha env) ?token,
      tk_expires_at = Some (if ttl = 0 then 0 else au_now env + int (unat ttl) * 3600),
      tk_revoked_at = None, tk_created_at = au_now env\<rparr>"
  have res: "token = ?token" "db' = db\<lparr>db_token := db_token db @ [?t], db_token_seq := db_token_seq db + 1\<rparr>"
    using assms(1) u
    by (auto simp: token_create_def insert_token_def op_return_def constraint_failed_def throw_error_def
        Let_def split: if_splits)
  have "auth_step db (snd (token_create env username ttl db))" by (rule auth_step.create)
  then have "auth_ok db'" using auth_step_ok assms by simp
  then show ?thesis
    using that [of u ?t] select_one_Some [OF u(1)] u(2) res by simp
qed

text \<open>A new token works. The token \<open>token_create\<close> returns is accepted as the user it was
  made for, with that user's role, until it expires; from that moment on it is refused. A lifetime of
  0 hours means that it never expires.\<close>

theorem new_token_accepted:
  assumes "token_create env username ttl db = (Inr token, db')" and "auth_ok db" and "au_now env > 0"
  shows "\<exists>role. \<forall>now. verify (env\<lparr>au_now := now\<rparr>) token db' =
     (if ttl = 0 \<or> now < au_now env + int (unat ttl) * 3600
      then Inr \<lparr>ao_username = username, ao_role = role_value role\<rparr>
      else throw_error FR_E_UNAUTHENTICATED ''token expired'')"
proof -
  obtain u t where r: "u \<in> set (db_user db')" "us_username u = username" "us_enabled u \<noteq> 0"
    "t \<in> set (db_token db')" "us_id u = tk_user_id t" "tk_token_hash t = token_digest (au_sha env) token"
    "tk_revoked_at t = None" "token \<noteq> []"
    "tk_expires_at t = Some (if ttl = 0 then 0 else au_now env + int (unat ttl) * 3600)" "auth_ok db'"
    by (rule token_create_row [OF assms(1,2)])
  have "us_role u \<in> role_texts" using r(1,10) by (simp add: auth_ok_def)
  then obtain role where role: "role_from_text (us_role u) = Inr role" using role_from_texts by blast
  have "verify (env\<lparr>au_now := now\<rparr>) token db' =
     (if ttl = 0 \<or> now < au_now env + int (unat ttl) * 3600
      then Inr \<lparr>ao_username = username, ao_role = role_value role\<rparr>
      else throw_error FR_E_UNAUTHENTICATED ''token expired'')" for now
  proof -
    have "0 \<le> int (unat ttl) * 3600" by simp
    then have "au_now env + int (unat ttl) * 3600 \<noteq> 0" using assms(3) by linarith
    then show ?thesis
      using verify_row [OF r(10,4,1,5), of "env\<lparr>au_now := now\<rparr>" token] r role
      by (simp add: column_int_def)
  qed
  then show ?thesis by blast
qed

section \<open>A concrete registry\<close>

definition demo_auth_env :: auth_env where
  "demo_auth_env = \<lparr>au_now = 100, au_random = replicate 32 7, au_sha = (\<lambda>bs. replicate 32 (of_nat (length bs)))\<rparr>"

definition demo_users :: database where
  "demo_users = snd (user_add demo_auth_env ''alice'' Publisher empty_database)"

definition demo_token :: string where
  "demo_token = ''fr_'' @ sha256_to_hex (replicate 32 7)"

lemma demo_users_value:
  "demo_users = empty_database\<lparr>db_user := [\<lparr>us_id = 1, us_username = ''alice'', us_role = ''Publisher'',
     us_enabled = 1, us_created_at = 100\<rparr>], db_user_seq := 1\<rparr>"
proof -
  have "fr_ident_valid_component (Some ''alice'')" by code_simp
  then show ?thesis
    by (simp add: demo_users_def user_add_def insert_user_def empty_database_def demo_auth_env_def Let_def)
qed

lemma demo_users_ok: "auth_ok demo_users"
  by (simp add: demo_users_value auth_ok_def role_texts_def empty_database_def)

lemma demo_token_create: "\<exists>db'. token_create demo_auth_env ''alice'' 2 demo_users = (Inr demo_token, db')"
  by (simp add: token_create_def demo_users_value select_one_def insert_token_def demo_token_def
      demo_auth_env_def op_return_def Let_def) (simp add: empty_database_def)

theorem new_token_accepted_witness:
  "\<exists>db' role. token_create demo_auth_env ''alice'' 2 demo_users = (Inr demo_token, db') \<and>
     verify (demo_auth_env\<lparr>au_now := 7299\<rparr>) demo_token db' = Inr \<lparr>ao_username = ''alice'', ao_role = role\<rparr> \<and>
     verify (demo_auth_env\<lparr>au_now := 7300\<rparr>) demo_token db' = throw_error FR_E_UNAUTHENTICATED ''token expired''"
proof -
  obtain db' where c: "token_create demo_auth_env ''alice'' 2 demo_users = (Inr demo_token, db')"
    using demo_token_create by blast
  have now: "au_now demo_auth_env = 100" by (simp add: demo_auth_env_def)
  then have "au_now demo_auth_env > 0" by simp
  from new_token_accepted [OF c demo_users_ok this] obtain role where
    all: "\<And>n. verify (demo_auth_env\<lparr>au_now := n\<rparr>) demo_token db' =
     (if (2 :: u32) = 0 \<or> n < au_now demo_auth_env + int (unat (2 :: u32)) * 3600
      then Inr \<lparr>ao_username = ''alice'', ao_role = role_value role\<rparr>
      else throw_error FR_E_UNAUTHENTICATED ''token expired'')" by blast
  from all [of 7299] all [of 7300] now c show ?thesis by auto
qed

theorem verify_exact_witness:
  "\<exists>msg. verify demo_auth_env ''nonsense'' demo_users = Inl (Err FR_E_UNAUTHENTICATED msg)"
proof -
  have "\<nexists>t u. grants demo_auth_env ''nonsense'' demo_users t u"
    by (simp add: grants_def demo_users_value) (simp add: empty_database_def)
  with verify_exact [OF demo_users_ok, of "''nonsense''" demo_auth_env] show ?thesis by blast
qed

theorem revoked_token_stays_refused_witness:
  "\<exists>db db1 msg. token_create demo_auth_env ''alice'' 2 demo_users = (Inr demo_token, db) \<and>
     token_revoke demo_auth_env 1 db = (Inr (), db1) \<and>
     verify demo_auth_env demo_token db1 = Inl (Err FR_E_UNAUTHENTICATED msg)"
proof -
  obtain db where c: "token_create demo_auth_env ''alice'' 2 demo_users = (Inr demo_token, db)"
    using demo_token_create by blast
  have "auth_step demo_users (snd (token_create demo_auth_env ''alice'' 2 demo_users))" by (rule auth_step.create)
  then have ok: "auth_ok db" using c auth_step_ok [OF _ demo_users_ok] by simp
  have tokens: "db_token db = [\<lparr>tk_id = 1, tk_user_id = 1, tk_token_hash = token_digest (au_sha demo_auth_env) demo_token,
      tk_expires_at = Some 7300, tk_revoked_at = None, tk_created_at = 100\<rparr>]"
    using c by (auto simp: token_create_def demo_users_value select_one_def insert_token_def demo_token_def
        demo_auth_env_def op_return_def Let_def empty_database_def)
  then obtain db1 where r: "token_revoke demo_auth_env 1 db = (Inr (), db1)"
    by (simp add: token_revoke_def changes_def)
  have "\<exists>msg. verify demo_auth_env demo_token db1 = Inl (Err FR_E_UNAUTHENTICATED msg)"
    by (rule revoked_token_stays_refused [OF ok done_run, of "hd (db_token db)" _ _ demo_auth_env 1])
      (use tokens r in \<open>simp_all add: demo_auth_env_def\<close>)
  with c r show ?thesis by blast
qed

end
