(* ===== verification/Storage.thy ===== *)
theory Storage
  imports StorageTypes Tables ChunkStore
begin

text \<open>
  The storage facade, \<^verbatim>\<open>src/storage/fr_storage.cpp\<close>: upload sessions, artifacts and
  maintenance over the metadata database and the chunk store. Each public operation is an
  operation on the state \<open>storage\<close>, with every SQL statement, guard and early return of the
  source at its place; statements outside a transaction take effect even when a later one throws.
  The clock value, the inputs of the session id, the system-call outcomes, SHA-256 and whether
  \<open>std::vector::reserve\<close> gets its memory are parameters.
\<close>

section \<open>State and environment\<close>

record StorageConfig =
  cfg_root :: string
  cfg_chunk_size :: u64
  cfg_capacity_bytes :: u64
  cfg_high_watermark_percent :: int
  cfg_session_hours :: int
  cfg_gc_grace_seconds :: int
  cfg_max_sessions_per_owner :: int

record storage =
  sdb :: database
  sfs :: fs
  id_counter :: u64

record senv =
  env_now :: int
  env_now_ns :: u64
  env_io :: io_env
  env_sha :: "bytes \<Rightarrow> bytes"
  env_reserve :: "u64 \<Rightarrow> bool"

text \<open>A statement that changes the database, a query, and the transaction guard \<open>Tx\<close>.\<close>

definition exec :: "(database \<Rightarrow> database) \<Rightarrow> (storage, unit) op" where
  "exec f s = (Inr (), s\<lparr>sdb := f (sdb s)\<rparr>)"

definition query :: "(database \<Rightarrow> 'a result) \<Rightarrow> (storage, 'a) op" where
  "query q s = (q (sdb s), s)"

definition tx :: "(storage, 'a) op \<Rightarrow> (storage, 'a) op" where
  "tx m s =
     (case m s of
        (Inl e, s') \<Rightarrow> (Inl e, s'\<lparr>sdb := sdb s\<rparr>)
      | (Inr x, s') \<Rightarrow> (Inr x, s'))"

fun map_result :: "('a \<Rightarrow> 'b result) \<Rightarrow> 'a list \<Rightarrow> 'b list result" where
  "map_result f [] = Inr []"
| "map_result f (x # xs) = rbind (f x) (\<lambda>y. rbind (map_result f xs) (\<lambda>ys. Inr (y # ys)))"

text \<open>\<open>std::to_string\<close> of a non-negative number.\<close>

fun decimal :: "nat \<Rightarrow> string" where
  "decimal n = (if n < 10 then [char_of (48 + n)] else decimal (n div 10) @ [char_of (48 + n mod 10)])"

section \<open>Helpers of the facade\<close>

text \<open>\<open>%016llx\<close> of the clock and \<open>%08llx\<close> of the low half of the counter.\<close>

definition new_session_id :: "u64 \<Rightarrow> u64 \<Rightarrow> string" where
  "new_session_id now_ns num =
     hex_chars (fr_store_be64 now_ns) @ hex_chars (fr_store_be32 (ucast num))"

definition read_session_row :: "session_row \<Rightarrow> SessionInfo result" where
  "read_session_row row =
     rbind (state_from_text (ss_state row)) (\<lambda>state.
       Inr \<lparr>si_id = ss_id row, si_owner = ss_owner row, si_state = state,
            si_ns = ss_namespace row, si_name = ss_name row, si_version = ss_version row,
            si_expected_size = word_of_int (ss_expected_size row),
            si_expected_digest = ss_expected_digest row,
            si_chunk_size = word_of_int (ss_chunk_size row),
            si_created_at = ss_created_at row, si_expires_at = ss_expires_at row\<rparr>)"

definition is_live :: "session_row \<Rightarrow> bool" where
  "is_live row = (ss_state row = ''OPEN'' \<or> ss_state row = ''COMMITTING'')"

definition chunk_referenced :: "database \<Rightarrow> string \<Rightarrow> bool" where
  "chunk_referenced db digest =
     (list_ex (\<lambda>ac. ac_digest ac = digest) (db_artifact_chunk db) \<or>
      list_ex (\<lambda>p. pt_digest p = digest \<and>
        list_ex (\<lambda>row. ss_id row = pt_session_id p \<and> is_live row) (db_session db)) (db_part db))"

definition delete_parts :: "string \<Rightarrow> database \<Rightarrow> database" where
  "delete_parts session_id db =
     db\<lparr>db_part := delete_where (\<lambda>p. pt_session_id p = session_id) (db_part db)\<rparr>"

definition mark_pending :: "int \<Rightarrow> string \<Rightarrow> database \<Rightarrow> database" where
  "mark_pending now digest db =
     db\<lparr>db_chunk := update_where (\<lambda>c. ck_digest c = digest \<and> ck_state c = ''ACTIVE'')
                      (\<lambda>c. c\<lparr>ck_state := ''PENDING_DELETE'', ck_pending_at := Some now\<rparr>) (db_chunk db)\<rparr>"

definition reactivate :: "string \<Rightarrow> database \<Rightarrow> database" where
  "reactivate digest db =
     db\<lparr>db_chunk := update_where (\<lambda>c. ck_digest c = digest \<and> ck_state c = ''PENDING_DELETE'')
                      (\<lambda>c. c\<lparr>ck_state := ''ACTIVE'', ck_pending_at := None\<rparr>) (db_chunk db)\<rparr>"

fun mark_unreferenced :: "int \<Rightarrow> string list \<Rightarrow> database \<Rightarrow> database" where
  "mark_unreferenced now [] db = db"
| "mark_unreferenced now (digest # digests) db =
     mark_unreferenced now digests
       (if chunk_referenced db digest then db else mark_pending now digest db)"

definition mark_unreferenced_parts :: "string \<Rightarrow> int \<Rightarrow> database \<Rightarrow> database" where
  "mark_unreferenced_parts session_id now db =
     (let digests = map pt_digest (filter (\<lambda>p. pt_session_id p = session_id) (db_part db))
      in mark_unreferenced now digests (delete_parts session_id db))"

definition expire_session_if_due :: "SessionInfo \<Rightarrow> int \<Rightarrow> database \<Rightarrow> database" where
  "expire_session_if_due session now db =
     (if si_state session = OPEN \<and> si_expires_at session \<le> now
      then mark_unreferenced_parts (si_id session) now
             (db\<lparr>db_session := update_where (\<lambda>r. ss_id r = si_id session \<and> ss_state r = ''OPEN'')
                                 (\<lambda>r. r\<lparr>ss_state := ''EXPIRED''\<rparr>) (db_session db)\<rparr>)
      else db)"

definition transition :: "string \<Rightarrow> SessionState \<Rightarrow> SessionState \<Rightarrow> (storage, bool) op" where
  "transition session_id from_state to_state =
     op_bind (op_lift (state_to_text to_state)) (\<lambda>to_text.
     op_bind (op_lift (state_to_text from_state)) (\<lambda>from_text.
       (\<lambda>s. let p = (\<lambda>r. ss_id r = session_id \<and> ss_state r = from_text); rows = db_session (sdb s)
            in (Inr (changes p rows > 0),
                s\<lparr>sdb := (sdb s)\<lparr>db_session := update_where p (\<lambda>r. r\<lparr>ss_state := to_text\<rparr>) rows\<rparr>\<rparr>))))"

definition load_session :: "string \<Rightarrow> database \<Rightarrow> SessionInfo result" where
  "load_session session_id db =
     (case select_one (\<lambda>r. ss_id r = session_id) (db_session db) of
        None \<Rightarrow> throw_error FR_E_NOTFOUND ''session not found''
      | Some row \<Rightarrow> read_session_row row)"

definition chunk_count_of :: "SessionInfo \<Rightarrow> u64" where
  "chunk_count_of session =
     (if si_expected_size session = 0 then 0
      else (si_expected_size session + si_chunk_size session - 1) div si_chunk_size session)"

definition active_bytes :: "database \<Rightarrow> int" where
  "active_bytes db = sum_list (map ck_raw_size (filter (\<lambda>c. ck_state c = ''ACTIVE'') (db_chunk db)))"

section \<open>Upload sessions\<close>

definition insert_session :: "session_row \<Rightarrow> (storage, unit) op" where
  "insert_session row s =
     (if list_ex (\<lambda>r. ss_id r = ss_id row) (db_session (sdb s)) then (constraint_failed, s)
      else (Inr (), s\<lparr>sdb := (sdb s)\<lparr>db_session := db_session (sdb s) @ [row]\<rparr>\<rparr>))"

definition create_session ::
  "StorageConfig \<Rightarrow> senv \<Rightarrow> string \<Rightarrow> string \<Rightarrow> string \<Rightarrow> u64 \<Rightarrow> string \<Rightarrow> string \<Rightarrow>
     (storage, SessionInfo) op" where
  "create_session cfg env ns name version expected_size expected_digest owner s =
     (if \<not> fr_ident_valid_component (Some ns) \<or> \<not> fr_ident_valid_component (Some name) \<or>
         \<not> fr_ident_valid_version (Some version)
      then (throw_error FR_E_ARG ''invalid artifact identifier'', s)
      else if owner = [] then (throw_error FR_E_ARG ''owner must not be empty'', s)
      else if \<not> fr_digest_hex_valid (Some expected_digest)
      then (throw_error FR_E_ARG ''expected digest must be 64 lowercase hex chars'', s)
      else
        let now = env_now env;
            open_count = changes (\<lambda>r. ss_owner r = owner \<and> ss_state r = ''OPEN'') (db_session (sdb s));
            used = (word_of_int (active_bytes (sdb s)) :: u64);
            watermark = cfg_capacity_bytes cfg * word_of_int (cfg_high_watermark_percent cfg) div 100
        in if open_count \<ge> cfg_max_sessions_per_owner cfg
           then (throw_error FR_E_LIMIT ''per-owner active session limit reached'', s)
           else if used \<ge> watermark
           then (throw_error FR_E_LIMIT ''storage high watermark reached'', s)
           else
             let num = id_counter s + 1;
                 info = \<lparr>si_id = new_session_id (env_now_ns env) num, si_owner = owner,
                         si_state = OPEN, si_ns = ns, si_name = name, si_version = version,
                         si_expected_size = expected_size, si_expected_digest = expected_digest,
                         si_chunk_size = cfg_chunk_size cfg, si_created_at = now,
                         si_expires_at = now + cfg_session_hours cfg * 3600\<rparr>
             in op_bind (tx (op_bind (op_lift (state_to_text (si_state info))) (\<lambda>state.
                  insert_session
                    \<lparr>ss_id = si_id info, ss_owner = owner, ss_state = state, ss_namespace = ns,
                     ss_name = name, ss_version = version, ss_expected_size = sint expected_size,
                     ss_expected_digest = expected_digest,
                     ss_chunk_size = sint (si_chunk_size info), ss_created_at = now,
                     ss_expires_at = si_expires_at info\<rparr>)))
                  (\<lambda>u. op_return info) (s\<lparr>id_counter := num\<rparr>))"

definition get_session :: "string \<Rightarrow> (storage, SessionInfo) op" where
  "get_session session_id = query (load_session session_id)"

text \<open>The transaction of \<open>put_chunk\<close>: the registration of a stored chunk as a part.\<close>

definition insert_chunk :: "string \<Rightarrow> int \<Rightarrow> int \<Rightarrow> database \<Rightarrow> database" where
  "insert_chunk digest len now db =
     (if list_ex (\<lambda>c. ck_digest c = digest) (db_chunk db) then db
      else db\<lparr>db_chunk := db_chunk db @
                [\<lparr>ck_digest = digest, ck_raw_size = len, ck_stored_size = len,
                  ck_state = ''ACTIVE'', ck_pending_at = None, ck_created_at = now\<rparr>]\<rparr>)"

definition insert_part :: "part_row \<Rightarrow> (storage, unit) op" where
  "insert_part row s =
     (if list_ex (\<lambda>p. pt_session_id p = pt_session_id row \<and> pt_ordinal p = pt_ordinal row)
           (db_part (sdb s)) \<or>
         \<not> list_ex (\<lambda>r. ss_id r = pt_session_id row) (db_session (sdb s))
      then (constraint_failed, s)
      else (Inr (), s\<lparr>sdb := (sdb s)\<lparr>db_part := db_part (sdb s) @ [row]\<rparr>\<rparr>))"

definition register_part :: "string \<Rightarrow> int \<Rightarrow> string \<Rightarrow> int \<Rightarrow> int \<Rightarrow> (storage, ChunkAccept) op" where
  "register_part session_id ordinal digest len now s =
     (case select_one (\<lambda>p. pt_session_id p = session_id \<and> pt_ordinal p = ordinal) (db_part (sdb s)) of
        Some p \<Rightarrow>
          if pt_digest p = digest then (Inr \<lparr>ca_digest = digest, ca_reused = True\<rparr>, s)
          else (throw_error FR_E_CONFLICT ''chunk ordinal already used with different content'', s)
      | None \<Rightarrow>
          op_bind (exec (insert_chunk digest len now)) (\<lambda>u.
          op_bind (exec (reactivate digest)) (\<lambda>u.
          op_bind (insert_part \<lparr>pt_session_id = session_id, pt_ordinal = ordinal,
                                pt_digest = digest, pt_length = len\<rparr>) (\<lambda>u.
            op_return \<lparr>ca_digest = digest, ca_reused = False\<rparr>))) s)"

definition store_chunk :: "senv \<Rightarrow> bytes option \<Rightarrow> nat \<Rightarrow> string \<Rightarrow> (storage, string) op" where
  "store_chunk env data len digest s =
     (case chunk_store_put (env_sha env) (env_io env) data len digest (sfs s) of
        (r, fs') \<Rightarrow> (r, s\<lparr>sfs := fs'\<rparr>))"

definition put_chunk ::
  "senv \<Rightarrow> string \<Rightarrow> u64 \<Rightarrow> bytes option \<Rightarrow> nat \<Rightarrow> (storage, ChunkAccept) op" where
  "put_chunk env session_id ordinal data len =
     (let now = env_now env in
      op_bind (query (load_session session_id)) (\<lambda>session.
      op_bind (exec (expire_session_if_due session now)) (\<lambda>u.
      op_bind (query (load_session session_id)) (\<lambda>session.
        if si_state session = EXPIRED then op_throw FR_E_EXPIRED ''upload session expired''
        else if si_state session \<noteq> OPEN then op_throw FR_E_STATE ''session is not OPEN''
        else if ordinal \<ge> chunk_count_of session
        then op_throw FR_E_RANGE ''chunk ordinal beyond expectation''
        else if len = 0 \<or> len > unat (si_chunk_size session)
        then op_throw FR_E_RANGE ''chunk length must be within (0, chunk_size]''
        else
          let digest_hex = sha256_to_hex (env_sha env (take len (mem_of data)))
          in op_bind (store_chunk env data len digest_hex) (\<lambda>d.
               tx (register_part session_id (sint ordinal) digest_hex (int len) now))))))"

text \<open>
  The loop over the parts in \<open>commit_session\<close>: the manifest and the total length, or the
  message of the error that ends it.
\<close>

fun build_manifest ::
  "u64 \<Rightarrow> part_row list \<Rightarrow> int \<Rightarrow> u64 \<Rightarrow> ManifestEntry list \<Rightarrow> string + ManifestEntry list \<times> u64" where
  "build_manifest chunk_size [] expected_ordinal whole_len manifest = Inr (manifest, whole_len)"
| "build_manifest chunk_size (p # ps) expected_ordinal whole_len manifest =
     (let entry = \<lparr>me_ordinal = pt_ordinal p, me_offset = whole_len,
                   me_length = word_of_int (pt_length p), me_digest = pt_digest p\<rparr>
      in if me_ordinal entry \<noteq> expected_ordinal then Inl ''chunk ordinals are not contiguous''
         else if me_length entry > chunk_size then Inl ''chunk length exceeds chunk_size''
         else build_manifest chunk_size ps (expected_ordinal + 1) (whole_len + me_length entry)
                (manifest @ [entry]))"

definition session_parts :: "string \<Rightarrow> database \<Rightarrow> part_row list" where
  "session_parts session_id db =
     sort_key pt_ordinal (filter (\<lambda>p. pt_session_id p = session_id) (db_part db))"

text \<open>All checks on the parts (FR-UP-08).\<close>

definition check_parts :: "SessionInfo \<Rightarrow> part_row list \<Rightarrow> string + ManifestEntry list" where
  "check_parts session parts =
     (case build_manifest (si_chunk_size session) parts 0 0 [] of
        Inl reason \<Rightarrow> Inl reason
      | Inr (manifest, whole_len) \<Rightarrow>
          if (of_nat (length manifest) :: u64) \<noteq> chunk_count_of session
          then Inl (''chunk count mismatch: got '' @ decimal (length manifest) @ '', want '' @
                    decimal (unat (chunk_count_of session)))
          else if whole_len \<noteq> si_expected_size session then Inl ''total chunk length mismatch''
          else Inr manifest)"

text \<open>The streaming loop over the chunk files: what has been fed to the hash.\<close>

fun stream_chunks :: "(string \<Rightarrow> bytes result) \<Rightarrow> ManifestEntry list \<Rightarrow> bytes result" where
  "stream_chunks get [] = Inr []"
| "stream_chunks get (entry # entries) =
     rbind (get (me_digest entry)) (\<lambda>buffer.
     rbind (stream_chunks get entries) (\<lambda>rest. Inr (buffer @ rest)))"

definition insert_artifact :: "artifact_row \<Rightarrow> (storage, int) op" where
  "insert_artifact row s =
     (let db = sdb s; new_id = db_artifact_seq db + 1
      in if list_ex (\<lambda>a. ar_namespace a = ar_namespace row \<and> ar_name a = ar_name row \<and>
                         ar_version a = ar_version row) (db_artifact db)
         then (constraint_failed, s)
         else (Inr new_id,
               s\<lparr>sdb := db\<lparr>db_artifact := db_artifact db @ [row\<lparr>ar_id := new_id\<rparr>],
                            db_artifact_seq := new_id\<rparr>\<rparr>))"

definition insert_artifact_chunk :: "artifact_chunk_row \<Rightarrow> (storage, unit) op" where
  "insert_artifact_chunk row s =
     (let db = sdb s
      in if list_ex (\<lambda>c. ac_artifact_id c = ac_artifact_id row \<and> ac_ordinal c = ac_ordinal row)
              (db_artifact_chunk db) \<or>
            \<not> list_ex (\<lambda>a. ar_id a = ac_artifact_id row) (db_artifact db)
         then (constraint_failed, s)
         else (Inr (), s\<lparr>sdb := db\<lparr>db_artifact_chunk := db_artifact_chunk db @ [row]\<rparr>\<rparr>))"

definition publish_entry :: "int \<Rightarrow> ManifestEntry \<Rightarrow> (storage, unit) op" where
  "publish_entry artifact_id entry =
     op_bind (exec (reactivate (me_digest entry))) (\<lambda>u.
       insert_artifact_chunk
         \<lparr>ac_artifact_id = artifact_id, ac_ordinal = me_ordinal entry,
          ac_byte_offset = sint (me_offset entry), ac_length = sint (me_length entry),
          ac_digest = me_digest entry\<rparr>)"

definition set_completed :: "string \<Rightarrow> database \<Rightarrow> database" where
  "set_completed session_id db =
     db\<lparr>db_session := update_where (\<lambda>r. ss_id r = session_id)
                        (\<lambda>r. r\<lparr>ss_state := ''COMPLETED''\<rparr>) (db_session db)\<rparr>"

text \<open>The publishing transaction.\<close>

definition publish ::
  "string \<Rightarrow> SessionInfo \<Rightarrow> ManifestEntry list \<Rightarrow> int \<Rightarrow> (storage, unit) op" where
  "publish session_id session manifest now =
     tx (op_bind (insert_artifact
           \<lparr>ar_id = 0, ar_namespace = si_ns session, ar_name = si_name session,
            ar_version = si_version session, ar_size = sint (si_expected_size session),
            ar_digest = si_expected_digest session, ar_chunk_size = sint (si_chunk_size session),
            ar_creator = si_owner session, ar_created_at = now, ar_note = None\<rparr>) (\<lambda>artifact_id.
         op_bind (op_for (publish_entry artifact_id) manifest) (\<lambda>u.
           exec (set_completed session_id))))"

definition artifact_exists :: "string \<Rightarrow> string \<Rightarrow> string \<Rightarrow> database \<Rightarrow> bool" where
  "artifact_exists ns name version db =
     list_ex (\<lambda>a. ar_namespace a = ns \<and> ar_name a = name \<and> ar_version a = version) (db_artifact db)"

text \<open>The lambda \<open>rollback_to_open\<close> followed by a throw.\<close>

definition rollback_throw :: "string \<Rightarrow> exn \<Rightarrow> (storage, 'a) op" where
  "rollback_throw session_id e =
     op_bind (transition session_id COMMITTING OPEN) (\<lambda>changed. op_lift (Inl e))"

text \<open>What follows the transition to \<open>COMMITTING\<close>.\<close>

definition commit_checked ::
  "senv \<Rightarrow> string \<Rightarrow> SessionInfo \<Rightarrow> (storage, ArtifactInfo) op" where
  "commit_checked env session_id session s =
     (if \<not> env_reserve env (chunk_count_of session)
      then (Inl (StdExc ''std::bad_alloc''), s)
      else case check_parts session (session_parts session_id (sdb s)) of
        Inl reason \<Rightarrow> rollback_throw session_id (Err FR_E_STATE reason) s
      | Inr manifest \<Rightarrow>
          (case stream_chunks (chunk_store_get (env_io env) (sfs s)) manifest of
             Inl e \<Rightarrow> rollback_throw session_id e s
           | Inr data \<Rightarrow>
               if sha256_to_hex (env_sha env data) \<noteq> si_expected_digest session
               then rollback_throw session_id (Err FR_E_CONFLICT ''overall digest mismatch'') s
               else if artifact_exists (si_ns session) (si_name session) (si_version session) (sdb s)
               then rollback_throw session_id
                      (Err FR_E_EXISTS ''artifact already exists and cannot be overwritten'') s
               else op_bind (publish session_id session manifest (env_now env)) (\<lambda>u.
                 op_return
                   \<lparr>ai_ns = si_ns session, ai_name = si_name session,
                    ai_version = si_version session, ai_size = si_expected_size session,
                    ai_digest = si_expected_digest session,
                    ai_chunk_size = si_chunk_size session, ai_creator = si_owner session,
                    ai_created_at = env_now env, ai_note = [], ai_chunks = manifest\<rparr>) s))"

definition commit_session :: "senv \<Rightarrow> string \<Rightarrow> (storage, ArtifactInfo) op" where
  "commit_session env session_id =
     (let now = env_now env in
      op_bind (query (load_session session_id)) (\<lambda>session.
      op_bind (exec (expire_session_if_due session now)) (\<lambda>u.
      op_bind (transition session_id OPEN COMMITTING) (\<lambda>changed.
        if \<not> changed
        then op_bind (query (load_session session_id)) (\<lambda>session.
               if si_state session = EXPIRED
               then op_throw FR_E_EXPIRED ''upload session expired''
               else op_throw FR_E_STATE ''session is not OPEN'')
        else commit_checked env session_id session))))"

definition abort_session :: "senv \<Rightarrow> string \<Rightarrow> (storage, unit) op" where
  "abort_session env session_id =
     op_bind (query (load_session session_id)) (\<lambda>session.
       if si_state session = ABORTED \<or> si_state session = EXPIRED \<or> si_state session = COMPLETED
       then op_return ()
       else tx (op_bind (transition session_id (si_state session) ABORTED) (\<lambda>changed.
              exec (mark_unreferenced_parts session_id (env_now env)))))"

definition list_sessions :: "SessionState option \<Rightarrow> (storage, SessionInfo list) op" where
  "list_sessions state =
     (case state of
        Some st \<Rightarrow>
          op_bind (op_lift (state_to_text st)) (\<lambda>text.
            query (\<lambda>db. map_result read_session_row
              (sort_key (\<lambda>r. - ss_created_at r) (filter (\<lambda>r. ss_state r = text) (db_session db)))))
      | None \<Rightarrow>
          query (\<lambda>db. map_result read_session_row
            (sort_key (\<lambda>r. - ss_created_at r) (db_session db))))"

section \<open>Artifacts\<close>

text \<open>\<open>column_text\<close> of a NULL column is the empty string.\<close>

definition read_artifact_row :: "artifact_row \<Rightarrow> ManifestEntry list \<Rightarrow> ArtifactInfo" where
  "read_artifact_row row chunks =
     \<lparr>ai_ns = ar_namespace row, ai_name = ar_name row, ai_version = ar_version row,
      ai_size = word_of_int (ar_size row), ai_digest = ar_digest row,
      ai_chunk_size = word_of_int (ar_chunk_size row), ai_creator = ar_creator row,
      ai_created_at = ar_created_at row,
      ai_note = (case ar_note row of None \<Rightarrow> [] | Some note \<Rightarrow> note), ai_chunks = chunks\<rparr>"

definition select_artifact :: "string \<Rightarrow> string \<Rightarrow> string \<Rightarrow> database \<Rightarrow> artifact_row option" where
  "select_artifact ns name version db =
     select_one (\<lambda>a. ar_namespace a = ns \<and> ar_name a = name \<and> ar_version a = version) (db_artifact db)"

definition artifact_chunks :: "int \<Rightarrow> database \<Rightarrow> artifact_chunk_row list" where
  "artifact_chunks artifact_id db =
     sort_key ac_ordinal (filter (\<lambda>c. ac_artifact_id c = artifact_id) (db_artifact_chunk db))"

definition read_chunk_row :: "artifact_chunk_row \<Rightarrow> ManifestEntry" where
  "read_chunk_row row =
     \<lparr>me_ordinal = ac_ordinal row, me_offset = word_of_int (ac_byte_offset row),
      me_length = word_of_int (ac_length row), me_digest = ac_digest row\<rparr>"

definition show_artifact :: "string \<Rightarrow> string \<Rightarrow> string \<Rightarrow> database \<Rightarrow> ArtifactInfo result" where
  "show_artifact ns name version db =
     (case select_artifact ns name version db of
        None \<Rightarrow> throw_error FR_E_NOTFOUND ''artifact not found''
      | Some row \<Rightarrow>
          Inr (read_artifact_row row (map read_chunk_row (artifact_chunks (ar_id row) db))))"

text \<open>
  The loop shared by \<open>read_artifact\<close> and \<open>read_artifact_slice\<close>: the pieces handed to
  the sink, and the exception or the number of bytes sent.
\<close>

fun read_loop ::
  "(string \<Rightarrow> u64 \<Rightarrow> u64 \<Rightarrow> bytes result) \<Rightarrow> ManifestEntry list \<Rightarrow> u64 \<Rightarrow> u64 \<Rightarrow> u64 \<Rightarrow>
     u64 result \<times> bytes list" where
  "read_loop get_range [] offset remaining sent = (Inr sent, [])"
| "read_loop get_range (entry # entries) offset remaining sent =
     (if remaining = 0 then (Inr sent, [])
      else
        let chunk_end = me_offset entry + me_length entry
        in if offset \<ge> chunk_end then read_loop get_range entries offset remaining sent
           else if me_offset entry \<ge> offset + remaining then (Inr sent, [])
           else
             let local_offset = (if offset > me_offset entry then offset - me_offset entry else 0);
                 avail = chunk_end - (if offset > me_offset entry then offset else me_offset entry);
                 n = (if avail > remaining then remaining else avail)
             in case get_range (me_digest entry) local_offset n of
                  Inl e \<Rightarrow> (Inl e, [])
                | Inr buffer \<Rightarrow>
                    (case read_loop get_range entries (offset + n) (remaining - n) (sent + n) of
                       (r, pieces) \<Rightarrow> (r, buffer # pieces)))"

definition read_artifact ::
  "io_env \<Rightarrow> string \<Rightarrow> string \<Rightarrow> string \<Rightarrow> u64 \<Rightarrow> u64 \<Rightarrow> storage \<Rightarrow> unit result \<times> bytes list" where
  "read_artifact env ns name version offset len s =
     (case show_artifact ns name version (sdb s) of
        Inl e \<Rightarrow> (Inl e, [])
      | Inr info \<Rightarrow>
          if offset > ai_size info
          then (throw_error FR_E_RANGE ''read offset beyond artifact size'', [])
          else
            let remaining = (if len > ai_size info - offset then ai_size info - offset else len)
            in case read_loop (chunk_store_get_range env (sfs s)) (ai_chunks info) offset remaining 0 of
                 (r, pieces) \<Rightarrow> (rbind r (\<lambda>sent. Inr ()), pieces))"

definition read_artifact_slice ::
  "io_env \<Rightarrow> string \<Rightarrow> string \<Rightarrow> string \<Rightarrow> u64 \<Rightarrow> u64 \<Rightarrow> storage \<Rightarrow> u64 result \<times> bytes list" where
  "read_artifact_slice env ns name version offset max_len s =
     (case show_artifact ns name version (sdb s) of
        Inl e \<Rightarrow> (Inl e, [])
      | Inr info \<Rightarrow>
          if offset > ai_size info
          then (throw_error FR_E_RANGE ''read offset beyond artifact size'', [])
          else
            let remaining = ai_size info - offset;
                remaining = (if remaining > max_len then max_len else remaining)
            in read_loop (chunk_store_get_range env (sfs s)) (ai_chunks info) offset remaining 0)"

definition list_artifacts ::
  "string option \<Rightarrow> string option \<Rightarrow> int \<Rightarrow> int \<Rightarrow> database \<Rightarrow> ArtifactInfo list result" where
  "list_artifacts ns name limit offset db =
     (if limit < 0 \<or> offset < 0 then throw_error FR_E_ARG ''pagination must be non-negative''
      else
        let rows = filter (\<lambda>a. (case ns of None \<Rightarrow> True | Some n \<Rightarrow> ar_namespace a = n) \<and>
                               (case name of None \<Rightarrow> True | Some n \<Rightarrow> ar_name a = n)) (db_artifact db);
            ordered = sort_key (\<lambda>a. - ar_created_at a) (sort_key (\<lambda>a. - ar_id a) rows)
        in Inr (map (\<lambda>row. read_artifact_row row [])
                  (take (nat limit) (drop (nat offset) ordered))))"

text \<open>\<open>DELETE FROM artifact\<close> cascades to \<open>artifact_chunk\<close>.\<close>

definition delete_artifact_rows :: "int \<Rightarrow> database \<Rightarrow> database" where
  "delete_artifact_rows artifact_id db =
     db\<lparr>db_artifact := delete_where (\<lambda>a. ar_id a = artifact_id) (db_artifact db),
        db_artifact_chunk := delete_where (\<lambda>c. ac_artifact_id c = artifact_id) (db_artifact_chunk db)\<rparr>"

fun mark_counted :: "int \<Rightarrow> string list \<Rightarrow> database \<Rightarrow> int \<times> database" where
  "mark_counted now [] db = (0, db)"
| "mark_counted now (digest # digests) db =
     (if chunk_referenced db digest then mark_counted now digests db
      else case mark_counted now digests (mark_pending now digest db) of
             (marked, db') \<Rightarrow>
               (changes (\<lambda>c. ck_digest c = digest \<and> ck_state c = ''ACTIVE'') (db_chunk db) + marked, db'))"

definition delete_artifact :: "senv \<Rightarrow> string \<Rightarrow> string \<Rightarrow> string \<Rightarrow> (storage, int) op" where
  "delete_artifact env ns name version =
     tx (\<lambda>s. case select_artifact ns name version (sdb s) of
               None \<Rightarrow> (throw_error FR_E_NOTFOUND ''artifact not found'', s)
             | Some row \<Rightarrow>
                 let digests = map ac_digest (artifact_chunks (ar_id row) (sdb s))
                 in case mark_counted (env_now env) digests (delete_artifact_rows (ar_id row) (sdb s)) of
                      (marked, db') \<Rightarrow> (Inr marked, s\<lparr>sdb := db'\<rparr>))"

section \<open>Maintenance\<close>

fun gc_loop :: "StorageConfig \<Rightarrow> senv \<Rightarrow> bool \<Rightarrow> chunk_row list \<Rightarrow> GcReport \<Rightarrow> (storage, GcReport) op" where
  "gc_loop cfg env dry_run [] report s = (Inr report, s)"
| "gc_loop cfg env dry_run (candidate # candidates) report s =
     (if the (ck_pending_at candidate) > env_now env - cfg_gc_grace_seconds cfg
      then gc_loop cfg env dry_run candidates report s
      else if chunk_referenced (sdb s) (ck_digest candidate)
      then gc_loop cfg env dry_run candidates report
             (s\<lparr>sdb := (sdb s)\<lparr>db_chunk :=
                  update_where (\<lambda>c. ck_digest c = ck_digest candidate)
                    (\<lambda>c. c\<lparr>ck_state := ''ACTIVE'', ck_pending_at := None\<rparr>) (db_chunk (sdb s))\<rparr>\<rparr>)
      else
        let report = report\<lparr>gc_deleted_count := gc_deleted_count report + 1,
                            gc_deleted_bytes := gc_deleted_bytes report + ck_raw_size candidate\<rparr>
        in if dry_run then gc_loop cfg env dry_run candidates report s
           else case chunk_store_remove (env_io env) (ck_digest candidate) (sfs s) of
                  (Inl e, fs') \<Rightarrow> (Inl e, s\<lparr>sfs := fs'\<rparr>)
                | (Inr u, fs') \<Rightarrow>
                    gc_loop cfg env dry_run candidates report
                      (s\<lparr>sfs := fs',
                         sdb := (sdb s)\<lparr>db_chunk :=
                           delete_where (\<lambda>c. ck_digest c = ck_digest candidate) (db_chunk (sdb s))\<rparr>\<rparr>))"

definition collect_garbage :: "StorageConfig \<Rightarrow> senv \<Rightarrow> bool \<Rightarrow> (storage, GcReport) op" where
  "collect_garbage cfg env dry_run s =
     (let candidates = filter (\<lambda>c. ck_state c = ''PENDING_DELETE'' \<and> ck_pending_at c \<noteq> None)
                         (db_chunk (sdb s))
      in gc_loop cfg env dry_run candidates
           \<lparr>gc_scanned = int (length candidates), gc_deleted_count = 0, gc_deleted_bytes = 0\<rparr> s)"

fun mark_sessions :: "int \<Rightarrow> string list \<Rightarrow> database \<Rightarrow> database" where
  "mark_sessions now [] db = db"
| "mark_sessions now (session_id # ids) db =
     mark_sessions now ids (mark_unreferenced_parts session_id now db)"

definition run_maintenance :: "senv \<Rightarrow> (storage, RecoveryReport) op" where
  "run_maintenance env s =
     (let now = env_now env;
          (removed, fs') = cleanup_temp_files (env_io env) (sfs s);
          db = sdb s;
          due = (\<lambda>r. ss_state r = ''OPEN'' \<and> ss_expires_at r \<le> now);
          expired = changes due (db_session db);
          db1 = db\<lparr>db_session := update_where due (\<lambda>r. r\<lparr>ss_state := ''EXPIRED''\<rparr>) (db_session db)\<rparr>;
          stuck = (\<lambda>r. ss_state r = ''COMMITTING'');
          rolled_back = changes stuck (db_session db1);
          db2 = db1\<lparr>db_session := update_where stuck (\<lambda>r. r\<lparr>ss_state := ''OPEN''\<rparr>) (db_session db1)\<rparr>;
          terminal = map ss_id (filter (\<lambda>r. ss_state r = ''EXPIRED'' \<or> ss_state r = ''ABORTED'')
                       (db_session db2))
      in (Inr \<lparr>rr_temp_files_removed = removed, rr_sessions_expired = expired,
               rr_sessions_rolled_back = rolled_back\<rparr>,
          s\<lparr>sfs := fs', sdb := mark_sessions now terminal db2\<rparr>))"

definition used_bytes :: "database \<Rightarrow> u64" where
  "used_bytes db = word_of_int (active_bytes db)"

definition artifact_count :: "database \<Rightarrow> int" where
  "artifact_count db = int (length (db_artifact db))"

definition session_progress :: "string \<Rightarrow> database \<Rightarrow> SessionProgress result" where
  "session_progress session_id db =
     rbind (load_session session_id db) (\<lambda>session.
       Inr \<lparr>sp_chunk_count = chunk_count_of session,
            sp_present_ordinals = map (\<lambda>p. word_of_int (pt_ordinal p)) (session_parts session_id db)\<rparr>)"

text \<open>\<open>Storage::open\<close> on the state found on disk: the checks of the configuration, then the
  recovery run.\<close>

definition storage_open :: "StorageConfig \<Rightarrow> senv \<Rightarrow> (storage, unit) op" where
  "storage_open cfg env =
     (if cfg_root cfg = [] then op_throw FR_E_ARG ''storage root must not be empty''
      else if cfg_high_watermark_percent cfg < 1 \<or> cfg_high_watermark_percent cfg > 100
      then op_throw FR_E_ARG ''high_watermark_percent must be within [1, 100]''
      else if cfg_chunk_size cfg < 1024 * 1024 \<or> cfg_chunk_size cfg > 8 * 1024 * 1024
      then op_throw FR_E_ARG ''chunk_size must be within [1 MiB, 8 MiB]''
      else if cfg_session_hours cfg < 1 \<or> cfg_session_hours cfg > 168
      then op_throw FR_E_ARG ''session_hours must be within [1, 168]''
      else op_bind (run_maintenance env) (\<lambda>report. op_return ()))"

end
