(* ===== verification/Client.thy ===== *)
theory Client
  imports Auth Storage
begin

text \<open>
  The client library, \<^verbatim>\<open>src/client/fr_client.cpp\<close>: one connection, requests
  and their replies, downloads, and the operations that \<^verbatim>\<open>frctl\<close> calls. What the
  socket answers is part of the state: the results of the sends to come, and what the receives to
  come deliver (nothing for an error, a timeout or the end of the connection). A connection is
  plain; whether a TLS handshake succeeds is a parameter.
\<close>

section \<open>State\<close>

record client_options =
  opt_host :: string
  opt_port :: u16
  opt_timeout_seconds :: int
  opt_token :: string
  opt_use_tls :: bool
  opt_tls_hostname :: string

record link =
  ln_sends :: "int list"
  ln_sent :: bytes
  ln_arrives :: "bytes list"

record client =
  cl_options :: client_options
  cl_parser :: fr_frame_parser
  cl_inbuf :: fr_buf
  cl_inpos :: u64
  cl_connected :: bool
  cl_link :: link

definition fr_core_version_string :: string where
  "fr_core_version_string = ''libfrcore 0.1.0''"

definition make_client :: "client_options \<Rightarrow> link \<Rightarrow> client" where
  "make_client options link =
     \<lparr>cl_options = options, cl_parser = fr_frame_parser_init, cl_inbuf = fr_buf_init, cl_inpos = 0,
      cl_connected = False, cl_link = link\<rparr>"

section \<open>Bytes\<close>

text \<open>The loop of \<open>send_all\<close> over the results of \<open>send\<close>.\<close>

fun send_loop :: "int list \<Rightarrow> bytes \<Rightarrow> bytes \<Rightarrow> unit result \<times> int list \<times> bytes" where
  "send_loop sends [] sent = (Inr (), sends, sent)"
| "send_loop [] data sent = (throw_error FR_E_IO ''connection lost while sending'', [], sent)"
| "send_loop (n # ns) data sent =
     (if n \<le> 0 then (throw_error FR_E_IO ''connection lost while sending'', ns, sent)
      else send_loop ns (drop (nat n) data) (sent @ take (nat n) data))"

definition send_bytes :: "bytes \<Rightarrow> (client, unit) op" where
  "send_bytes data c =
     (case send_loop (ln_sends (cl_link c)) data (ln_sent (cl_link c)) of
        (r, sends, sent) \<Rightarrow> (r, c\<lparr>cl_link := (cl_link c)\<lparr>ln_sends := sends, ln_sent := sent\<rparr>\<rparr>))"

definition recv_bytes :: "(client, bytes) op" where
  "recv_bytes c =
     (case ln_arrives (cl_link c) of
        [] \<Rightarrow> (throw_error FR_E_IO ''connection lost while receiving'', c)
      | chunk # rest \<Rightarrow>
          (if chunk = [] then throw_error FR_E_IO ''connection lost while receiving'' else Inr chunk,
           c\<lparr>cl_link := (cl_link c)\<lparr>ln_arrives := rest\<rparr>\<rparr>))"

section \<open>Frames\<close>

text \<open>The first half of the loop of \<open>read_frame\<close>: what is left in the buffer goes to the parser.\<close>

definition feed_buffered :: "alloc \<Rightarrow> (client, fr_frame option) op" where
  "feed_buffered alloc c =
     (if cl_inpos c < buf_len (cl_inbuf c)
      then case fr_frame_parser_feed alloc (cl_parser c) (Some (drop (unat (cl_inpos c)) (buf_bytes (cl_inbuf c))))
                  (unat (buf_len (cl_inbuf c) - cl_inpos c)) of
             (fs, parser, consumed, ready) \<Rightarrow>
               if fs \<noteq> FR_OK
               then (throw_error FR_E_PROTOCOL ''server sent invalid frame'', c\<lparr>cl_parser := parser\<rparr>)
               else let c = c\<lparr>cl_parser := parser, cl_inpos := cl_inpos c + of_nat (the consumed)\<rparr>
                    in case ready of
                         None \<Rightarrow> (Inr None, c)
                       | Some frame \<Rightarrow>
                           (Inr (Some frame),
                            if cl_inpos c = buf_len (cl_inbuf c)
                            then c\<lparr>cl_inpos := 0, cl_inbuf := fr_buf_clear (cl_inbuf c)\<rparr> else c)
      else (Inr None, c))"

text \<open>The second half; the status of \<open>fr_buf_append\<close> is ignored.\<close>

definition buffer_more :: "alloc \<Rightarrow> (client, unit) op" where
  "buffer_more alloc =
     op_bind recv_bytes (\<lambda>chunk.
       op_modify (\<lambda>c. c\<lparr>cl_inbuf := snd (fr_buf_append alloc (cl_inbuf c) (Some chunk) (of_nat (length chunk)))\<rparr>))"

lemma buffer_more_arrives:
  assumes "buffer_more alloc c = (Inr u, c')"
  shows "\<exists>chunk. chunk \<noteq> [] \<and> ln_arrives (cl_link c) = chunk # ln_arrives (cl_link c') \<and>
     c' = c\<lparr>cl_link := (cl_link c)\<lparr>ln_arrives := ln_arrives (cl_link c')\<rparr>,
            cl_inbuf := snd (fr_buf_append alloc (cl_inbuf c) (Some chunk) (of_nat (length chunk)))\<rparr>"
  using assms by (auto simp: buffer_more_def recv_bytes_def op_modify_def throw_error_def split: list.splits if_splits)

lemma feed_buffered_arrives: "feed_buffered alloc c = (r, c') \<Longrightarrow> cl_link c' = cl_link c"
  by (auto simp: feed_buffered_def Let_def split: if_splits prod.splits option.splits)

function read_frame :: "alloc \<Rightarrow> (client, fr_frame) op" where
  "read_frame alloc c =
     (case feed_buffered alloc c of
        (Inl e, c) \<Rightarrow> (Inl e, c)
      | (Inr (Some frame), c) \<Rightarrow> (Inr frame, c)
      | (Inr None, c) \<Rightarrow>
          (case buffer_more alloc c of
             (Inl e, c) \<Rightarrow> (Inl e, c)
           | (Inr u, c) \<Rightarrow> read_frame alloc c))"
  by pat_completeness auto

termination read_frame
  by (relation "measure (\<lambda>(alloc, c). length (ln_arrives (cl_link c)))")
    (auto dest!: buffer_more_arrives [OF sym] feed_buffered_arrives [OF sym])

declare read_frame.simps [simp del]

section \<open>Requests\<close>

definition req_id_of :: "int \<Rightarrow> u32" where
  "req_id_of clock = or (and (word_of_int clock) 0x7fffffff) 1"

definition send_frame :: "alloc \<Rightarrow> string \<Rightarrow> int \<Rightarrow> u8 \<Rightarrow> bytes option \<Rightarrow> u64 \<Rightarrow> (client, unit) op" where
  "send_frame alloc failed clock type payload len =
     (case fr_frame_encode alloc fr_buf_init type 0 (req_id_of clock) payload len of
        (st, out) \<Rightarrow> if st \<noteq> FR_OK then op_throw st failed else send_bytes (buf_bytes out))"

definition send_raw_frame :: "alloc \<Rightarrow> int \<Rightarrow> u8 \<Rightarrow> bytes option \<Rightarrow> u64 \<Rightarrow> (client, unit) op" where
  "send_raw_frame alloc = send_frame alloc ''encode raw frame failed''"

definition send_garbage :: "bytes \<Rightarrow> (client, unit) op" where
  "send_garbage data = (if data \<noteq> [] then send_bytes data else op_return ())"

text \<open>An ERROR frame is thrown as the exception it carries.\<close>

definition throw_received :: "fr_frame \<Rightarrow> (client, unit) op" where
  "throw_received frame =
     (if frame_type frame = msg_value FR_MSG_ERROR
      then op_bind (op_lift (decode_error_payload frame)) (\<lambda>err. op_throw (ep_code err) (ep_message err))
      else op_return ())"

definition client_request :: "alloc \<Rightarrow> int \<Rightarrow> fr_msg_type \<Rightarrow> fr_buf \<Rightarrow> (client, fr_frame) op" where
  "client_request alloc clock type payload =
     op_bind (send_frame alloc ''encode request failed'' clock (msg_value type) (buf_data payload) (buf_len payload)) (\<lambda>u.
     op_bind (read_frame alloc) (\<lambda>frame.
     op_bind (throw_received frame) (\<lambda>u.
       if frame_type frame \<noteq> msg_value FR_MSG_OK \<and> frame_type frame \<noteq> msg_value FR_MSG_DATA
       then op_throw FR_E_PROTOCOL ''unexpected response frame type''
       else op_return frame)))"

section \<open>Reading makes progress\<close>

text \<open>
  What has not been parsed yet, in the buffer and in the receives to come; a header that is
  complete counts one.
\<close>

definition unread :: "client \<Rightarrow> nat" where
  "unread c = 2 * (unat (buf_len (cl_inbuf c)) - unat (cl_inpos c) + sum_list (map length (ln_arrives (cl_link c)))) +
     (if header_done (cl_parser c) then 1 else 0)"

lemma feed_buffered_unread:
  assumes "feed_buffered alloc c = (Inr ready, c')"
  shows "unread c' \<le> unread c \<and> (ready \<noteq> None \<longrightarrow> unread c' < unread c)"
proof (cases "cl_inpos c < buf_len (cl_inbuf c)")
  case False
  then show ?thesis using assms by (simp add: feed_buffered_def)
next
  case True
  let ?len = "unat (buf_len (cl_inbuf c) - cl_inpos c)"
  obtain fs p consumed f where feed: "fr_frame_parser_feed alloc (cl_parser c)
      (Some (drop (unat (cl_inpos c)) (buf_bytes (cl_inbuf c)))) ?len = (fs, p, consumed, f)" by (metis prod_cases4)
  have ok: "fs = FR_OK" and "ready = f" using assms True feed by (auto simp: feed_buffered_def Let_def split: if_splits option.splits)
  from feed_consumes [OF feed [unfolded ok]]
  have k: "the consumed \<le> ?len"
    "2 * (?len - the consumed) + (if header_done p then 1 else 0) \<le> 2 * ?len + (if header_done (cl_parser c) then 1 else 0)"
    "f \<noteq> None \<longrightarrow> 2 * (?len - the consumed) + (if header_done p then 1 else 0) < 2 * ?len + (if header_done (cl_parser c) then 1 else (0::nat))"
    by blast+
  have len: "?len = unat (buf_len (cl_inbuf c)) - unat (cl_inpos c)" "unat (cl_inpos c) \<le> unat (buf_len (cl_inbuf c))"
    using True by (simp_all add: unat_sub word_le_nat_alt word_less_nat_alt)
  have "unat (cl_inpos c) + the consumed \<le> unat (buf_len (cl_inbuf c))" using k(1) len by simp
  also have "\<dots> < 2 ^ 64" using unsigned_less [of "buf_len (cl_inbuf c)"] by simp
  finally have pos: "unat (cl_inpos c + of_nat (the consumed)) = unat (cl_inpos c) + the consumed"
    by (simp add: unat_word_ariths unat_of_nat mod_add_right_eq)
  have c': "cl_parser c' = p \<and> cl_link c' = cl_link c \<and>
      unat (buf_len (cl_inbuf c')) - unat (cl_inpos c') \<le> ?len - the consumed"
    using assms True feed ok pos len(1)
    by (auto simp: feed_buffered_def Let_def fr_buf_clear_def buf_len_def split: if_splits option.splits)
  show ?thesis using c' k len(1) \<open>ready = f\<close> unfolding unread_def by auto
qed

lemma buffer_more_unread:
  assumes "buffer_more alloc c = (Inr u, c')" shows "unread c' \<le> unread c"
proof -
  obtain chunk where a: "ln_arrives (cl_link c) = chunk # ln_arrives (cl_link c')"
    and c': "c' = c\<lparr>cl_link := (cl_link c)\<lparr>ln_arrives := ln_arrives (cl_link c')\<rparr>,
            cl_inbuf := snd (fr_buf_append alloc (cl_inbuf c) (Some chunk) (of_nat (length chunk)))\<rparr>"
    using buffer_more_arrives [OF assms] by blast
  let ?b = "snd (fr_buf_append alloc (cl_inbuf c) (Some chunk) (of_nat (length chunk)))"
  have "\<exists>n \<le> length chunk. length (buf_bytes ?b) = length (buf_bytes (cl_inbuf c)) + n"
    by (auto simp: fr_buf_append_def reserve_bytes intro: exI [of _ 0] split: prod.splits if_splits)
  then obtain n where n: "n \<le> length chunk" "length (buf_bytes ?b) = length (buf_bytes (cl_inbuf c)) + n" by blast
  have "unat (buf_len ?b) \<le> unat (buf_len (cl_inbuf c)) + n"
  proof -
    have "unat (buf_len ?b) = (length (buf_bytes (cl_inbuf c)) + n) mod 2 ^ 64" unfolding buf_len_def n(2) by (simp only: unat_of_nat) simp
    also have "\<dots> \<le> length (buf_bytes (cl_inbuf c)) mod 2 ^ 64 + n"
      by (metis mod_add_left_eq mod_less_eq_dividend)
    finally show ?thesis by (simp add: buf_len_def unat_of_nat)
  qed
  moreover have "cl_inbuf c' = ?b" "cl_inpos c' = cl_inpos c" "cl_parser c' = cl_parser c" by (subst c', simp)+
  ultimately show ?thesis using n(1) unfolding unread_def a by simp
qed

lemma read_frame_unread: "read_frame alloc c = (Inr frame, c') \<Longrightarrow> unread c' < unread c"
proof (induction alloc c rule: read_frame.induct)
  case (1 alloc c)
  obtain r c1 where f: "feed_buffered alloc c = (r, c1)" by (cases "feed_buffered alloc c")
  note eq = 1(2) [unfolded read_frame.simps [of alloc c] f]
  show ?case
  proof (cases r)
    case (Inl e)
    then show ?thesis using eq by simp
  next
    case (Inr ready)
    show ?thesis
    proof (cases ready)
      case (Some g)
      then show ?thesis using eq Inr feed_buffered_unread [OF f [unfolded Inr]] by simp
    next
      case None
      obtain u c2 where m: "buffer_more alloc c1 = (Inr u, c2)" and r: "read_frame alloc c2 = (Inr frame, c')"
        using eq Inr None by (auto split: prod.splits sum.splits)
      have "unread c' < unread c2" using 1(1) [OF f [symmetric] Inr None m [symmetric] refl r] .
      then show ?thesis using feed_buffered_unread [OF f [unfolded Inr]] buffer_more_unread [OF m] by simp
    qed
  qed
qed

section \<open>Downloads\<close>

text \<open>
  The sink gets the pieces one after the other; \<open>sink pieces\<close> tells whether it takes the last
  of them. On the left side of the result, None stands for the exception of the sink, which the
  library does not know. The pieces handed over are part of the result.
\<close>

lemma throw_received_state: "snd (throw_received frame c) = c"
  by (auto simp: throw_received_def op_lift_def op_throw_def op_return_def split: sum.splits)

function download_loop ::
  "alloc \<Rightarrow> (bytes list \<Rightarrow> bool) \<Rightarrow> fr_frame \<Rightarrow> u64 \<Rightarrow> bytes list \<Rightarrow> client \<Rightarrow>
     (exn option + u64) \<times> bytes list \<times> client" where
  "download_loop alloc sink frame sofar pieces c =
     (if frame_type frame \<noteq> msg_value FR_MSG_DATA
      then (if frame_type frame \<noteq> msg_value FR_MSG_OK
            then Inl (Some (Err FR_E_PROTOCOL ''download ended unexpectedly'')) else Inr sofar, pieces, c)
      else case decode_data frame of
             Inl e \<Rightarrow> (Inl (Some e), pieces, c)
           | Inr data \<Rightarrow>
               let pieces = (if dp_data data \<noteq> [] then pieces @ [dp_data data] else pieces)
               in if dp_data data \<noteq> [] \<and> \<not> sink pieces then (Inl None, pieces, c)
                  else case read_frame alloc c of
                         (Inl e, c) \<Rightarrow> (Inl (Some e), pieces, c)
                       | (Inr frame, c) \<Rightarrow>
                           (case throw_received frame c of
                              (Inl e, c) \<Rightarrow> (Inl (Some e), pieces, c)
                            | (Inr u, c) \<Rightarrow>
                                download_loop alloc sink frame (sofar + of_nat (length (dp_data data))) pieces c))"
  by pat_completeness auto

termination download_loop
proof (relation "measure (\<lambda>(alloc, sink, frame, sofar, pieces, c). unread c)", goal_cases)
  case (2 alloc sink frame sofar pieces c data pieces' r c1 frame' r' c2 u)
  have "c2 = c1" using throw_received_state [of frame' c1] 2 by (metis snd_conv)
  moreover have "unread c1 < unread c" using 2 read_frame_unread by metis
  ultimately show ?case by simp
qed simp

declare download_loop.simps [simp del]

definition client_download ::
  "alloc \<Rightarrow> int \<Rightarrow> string \<Rightarrow> string \<Rightarrow> string \<Rightarrow> u64 \<Rightarrow> u64 \<Rightarrow> (bytes list \<Rightarrow> bool) \<Rightarrow> client \<Rightarrow>
     (exn option + u64) \<times> bytes list \<times> client" where
  "client_download alloc clock ns name version offset len sink c =
     (case op_bind (op_lift (encode_get_artifact_req alloc
             \<lparr>ga_ref = \<lparr>ref_ns = ns, ref_name = name, ref_version = version\<rparr>, ga_offset = offset, ga_length = len\<rparr>
             fr_buf_init)) (client_request alloc clock FR_MSG_GET_ARTIFACT) c of
        (Inl e, c) \<Rightarrow> (Inl (Some e), [], c)
      | (Inr frame, c) \<Rightarrow> download_loop alloc sink frame 0 [] c)"

section \<open>Operations\<close>

text \<open>Encode the payload, send the request, read the reply.\<close>

definition exchange :: "alloc \<Rightarrow> int \<Rightarrow> fr_msg_type \<Rightarrow> (fr_buf \<Rightarrow> fr_buf result) \<Rightarrow> (client, fr_frame) op" where
  "exchange alloc clock type encode = op_bind (op_lift (encode fr_buf_init)) (client_request alloc clock type)"

definition client_status :: "alloc \<Rightarrow> int \<Rightarrow> (client, StatusOk) op" where
  "client_status alloc clock =
     op_bind (client_request alloc clock FR_MSG_STATUS fr_buf_init) (\<lambda>frame. op_lift (decode_status_ok frame))"

definition client_list_artifacts ::
  "alloc \<Rightarrow> int \<Rightarrow> string option \<Rightarrow> string option \<Rightarrow> u32 \<Rightarrow> u32 \<Rightarrow> (client, ArtifactSummary list) op" where
  "client_list_artifacts alloc clock ns name limit offset =
     op_bind (exchange alloc clock FR_MSG_LIST_ARTIFACTS
        (encode_list_artifacts_req alloc \<lparr>la_ns = ns, la_name = name, la_limit = limit, la_offset = offset\<rparr>))
       (\<lambda>frame. op_lift (rbind (decode_list_artifacts_ok frame) (\<lambda>ok. Inr (lao_items ok))))"

definition client_show_artifact ::
  "alloc \<Rightarrow> int \<Rightarrow> string \<Rightarrow> string \<Rightarrow> string \<Rightarrow> (client, ShowArtifactOk) op" where
  "client_show_artifact alloc clock ns name version =
     op_bind (exchange alloc clock FR_MSG_SHOW_ARTIFACT
        (put_ref alloc \<lparr>ref_ns = ns, ref_name = name, ref_version = version\<rparr>))
       (\<lambda>frame. op_lift (decode_show_artifact_ok frame))"

definition client_create_upload ::
  "alloc \<Rightarrow> int \<Rightarrow> string \<Rightarrow> string \<Rightarrow> string \<Rightarrow> u64 \<Rightarrow> string \<Rightarrow> (client, CreateUploadOk) op" where
  "client_create_upload alloc clock ns name version expected_size expected_digest =
     op_bind (exchange alloc clock FR_MSG_CREATE_UPLOAD
        (encode_create_upload_req alloc
           \<lparr>cu_ref = \<lparr>ref_ns = ns, ref_name = name, ref_version = version\<rparr>, cu_expected_size = expected_size, cu_expected_digest = expected_digest\<rparr>))
       (\<lambda>frame. op_lift (decode_create_upload_ok frame))"

definition client_put_chunk :: "alloc \<Rightarrow> int \<Rightarrow> string \<Rightarrow> u64 \<Rightarrow> bytes \<Rightarrow> (client, PutChunkOk) op" where
  "client_put_chunk alloc clock session_id ordinal data =
     op_bind (exchange alloc clock FR_MSG_PUT_CHUNK
        (encode_put_chunk_req alloc \<lparr>pc_session_id = session_id, pc_ordinal = ordinal, pc_data = data\<rparr>))
       (\<lambda>frame. op_lift (decode_put_chunk_ok frame))"

definition client_query_upload :: "alloc \<Rightarrow> int \<Rightarrow> string \<Rightarrow> (client, QueryUploadOk) op" where
  "client_query_upload alloc clock session_id =
     op_bind (exchange alloc clock FR_MSG_QUERY_UPLOAD (put_str alloc session_id))
       (\<lambda>frame. op_lift (decode_query_upload_ok frame))"

definition client_commit_upload :: "alloc \<Rightarrow> int \<Rightarrow> string \<Rightarrow> (client, CommitUploadOk) op" where
  "client_commit_upload alloc clock session_id =
     op_bind (exchange alloc clock FR_MSG_COMMIT_UPLOAD (put_str alloc session_id))
       (\<lambda>frame. op_lift (decode_commit_upload_ok frame))"

definition client_abort_upload :: "alloc \<Rightarrow> int \<Rightarrow> string \<Rightarrow> (client, unit) op" where
  "client_abort_upload alloc clock session_id =
     op_bind (exchange alloc clock FR_MSG_ABORT_UPLOAD (put_str alloc session_id)) (\<lambda>frame. op_return ())"

definition client_delete_artifact :: "alloc \<Rightarrow> int \<Rightarrow> string \<Rightarrow> string \<Rightarrow> string \<Rightarrow> (client, int) op" where
  "client_delete_artifact alloc clock ns name version =
     op_bind (exchange alloc clock FR_MSG_DELETE_ARTIFACT
        (put_ref alloc \<lparr>ref_ns = ns, ref_name = name, ref_version = version\<rparr>))
       (\<lambda>frame. op_lift (rbind (decode_delete_artifact_ok frame) (\<lambda>ok. Inr (do_marked_chunks ok))))"

definition client_gc :: "alloc \<Rightarrow> int \<Rightarrow> bool \<Rightarrow> (client, RunGcOk) op" where
  "client_gc alloc clock dry_run =
     op_bind (exchange alloc clock FR_MSG_RUN_GC (encode_run_gc_req alloc \<lparr>rg_dry_run = dry_run\<rparr>))
       (\<lambda>frame. op_lift (decode_run_gc_ok frame))"

definition client_user_add :: "alloc \<Rightarrow> int \<Rightarrow> string \<Rightarrow> Role \<Rightarrow> (client, unit) op" where
  "client_user_add alloc clock username role =
     op_bind (exchange alloc clock FR_MSG_USER_ADD
        (encode_user_add_req alloc \<lparr>ua_username = username, ua_role = role_value role\<rparr>)) (\<lambda>frame. op_return ())"

definition client_user_disable :: "alloc \<Rightarrow> int \<Rightarrow> string \<Rightarrow> (client, unit) op" where
  "client_user_disable alloc clock username =
     op_bind (exchange alloc clock FR_MSG_USER_DISABLE (put_str alloc username)) (\<lambda>frame. op_return ())"

definition client_user_list :: "alloc \<Rightarrow> int \<Rightarrow> (client, UserItem list) op" where
  "client_user_list alloc clock =
     op_bind (client_request alloc clock FR_MSG_USER_LIST fr_buf_init)
       (\<lambda>frame. op_lift (rbind (decode_user_list_ok frame) (\<lambda>ok. Inr (ulo_items ok))))"

definition client_token_create :: "alloc \<Rightarrow> int \<Rightarrow> string \<Rightarrow> u32 \<Rightarrow> (client, string) op" where
  "client_token_create alloc clock username ttl_hours =
     op_bind (exchange alloc clock FR_MSG_TOKEN_CREATE
        (encode_token_create_req alloc \<lparr>tc_username = username, tc_ttl_hours = ttl_hours\<rparr>))
       (\<lambda>frame. op_lift (rbind (decode_token_create_ok frame) (\<lambda>ok. Inr (to_token ok))))"

definition client_token_revoke :: "alloc \<Rightarrow> int \<Rightarrow> u64 \<Rightarrow> (client, unit) op" where
  "client_token_revoke alloc clock token_id =
     op_bind (exchange alloc clock FR_MSG_TOKEN_REVOKE (put_u64 alloc token_id)) (\<lambda>frame. op_return ())"

definition client_token_list :: "alloc \<Rightarrow> int \<Rightarrow> string \<Rightarrow> (client, TokenItem list) op" where
  "client_token_list alloc clock username =
     op_bind (exchange alloc clock FR_MSG_TOKEN_LIST (put_str alloc username))
       (\<lambda>frame. op_lift (rbind (decode_token_list_ok frame) (\<lambda>ok. Inr (tlo_items ok))))"

definition client_session_list :: "alloc \<Rightarrow> int \<Rightarrow> (client, SessionItem list) op" where
  "client_session_list alloc clock =
     op_bind (client_request alloc clock FR_MSG_SESSION_LIST fr_buf_init)
       (\<lambda>frame. op_lift (rbind (decode_session_list_ok frame) (\<lambda>ok. Inr (slo_items ok))))"

definition client_session_abort :: "alloc \<Rightarrow> int \<Rightarrow> string \<Rightarrow> (client, unit) op" where
  "client_session_abort alloc clock session_id =
     op_bind (exchange alloc clock FR_MSG_SESSION_ABORT (put_str alloc session_id)) (\<lambda>frame. op_return ())"

section \<open>Connecting and leaving\<close>

definition int_string :: "int \<Rightarrow> string" where
  "int_string n = (if n < 0 then ''-'' @ decimal (nat (- n)) else decimal (nat n))"

text \<open>
  \<open>gai\<close> and \<open>addresses\<close> are the result of \<open>getaddrinfo\<close>, with the outcome of
  connecting to each address; \<open>tls\<close> is the outcome of the TLS handshake.
\<close>

definition client_connect ::
  "alloc \<Rightarrow> int \<Rightarrow> int \<Rightarrow> int \<Rightarrow> bool list \<Rightarrow> unit result \<Rightarrow> (client, unit) op" where
  "client_connect alloc clock clock' gai addresses tls c =
     (let options = cl_options c; port = decimal (unat (opt_port options))
      in if gai \<noteq> 0 \<or> addresses = []
         then op_throw FR_E_IO (''cannot resolve server address: '' @ opt_host options @ '' (gai='' @ int_string gai @ '')'') c
         else if True \<notin> set addresses
         then op_throw FR_E_IO (''cannot connect to '' @ opt_host options @ '':'' @ port) c
         else op_bind (op_lift (if opt_use_tls options then tls else Inr ())) (\<lambda>u.
              op_bind (op_modify (\<lambda>c. c\<lparr>cl_connected := True\<rparr>)) (\<lambda>u.
              op_bind (exchange alloc clock FR_MSG_HELLO
                 (encode_hello_req alloc \<lparr>hello_protocol_version = FR_PROTOCOL_VERSION,
                    hello_client = ''frctl '' @ fr_core_version_string\<rparr>)) (\<lambda>frame.
                if opt_token options \<noteq> []
                then op_bind (exchange alloc clock' FR_MSG_AUTH (encode_auth_req alloc \<lparr>auth_token = opt_token options\<rparr>))
                       (\<lambda>frame. op_return ())
                else op_return ()))) c)"

text \<open>The destructor sends a CLOSE if it can.\<close>

definition client_close :: "alloc \<Rightarrow> client \<Rightarrow> client" where
  "client_close alloc c =
     (let c = (if cl_connected c
               then snd (send_bytes (buf_bytes (snd (fr_frame_encode alloc fr_buf_init (msg_value FR_MSG_CLOSE) 0 1 None 0))) c)
               else c)
      in c\<lparr>cl_parser := fr_frame_parser_destroy (cl_parser c)\<rparr>)"

section \<open>Exit codes\<close>

datatype ExitCode = Ok | Usage | AuthFailed | Permission | Network | Server | LocalFile

fun exit_value :: "ExitCode \<Rightarrow> int" where
  "exit_value Ok = 0"
| "exit_value Usage = 2"
| "exit_value AuthFailed = 3"
| "exit_value Permission = 4"
| "exit_value Network = 5"
| "exit_value Server = 6"
| "exit_value LocalFile = 7"

definition exit_code_for :: "fr_status \<Rightarrow> ExitCode" where
  "exit_code_for code =
     (case code of
        FR_E_UNAUTHENTICATED \<Rightarrow> AuthFailed
      | FR_E_FORBIDDEN \<Rightarrow> Permission
      | FR_E_IO \<Rightarrow> Network
      | FR_E_PROTOCOL \<Rightarrow> Network
      | _ \<Rightarrow> Server)"

end
