(* ===== verification/StorageInv.thy ===== *)
theory StorageInv
  imports Storage
begin

text \<open>
  The invariant of the storage layer and its preservation by every operation: keys are unique and
  references resolve; a chunk that an artifact or a live upload session refers to has an
  \<open>ACTIVE\<close> row; an \<open>ACTIVE\<close> row has its file; a part of a live session has the
  length of its chunk; and every published artifact is complete: its manifest is contiguous, its
  total length is its size, and the concatenation of its chunks has its digest.
\<close>

section \<open>The invariant\<close>

definition keys_ok :: "database \<Rightarrow> bool" where
  "keys_ok db =
     (distinct (map ss_id (db_session db)) \<and>
      distinct (map (\<lambda>p. (pt_session_id p, pt_ordinal p)) (db_part db)) \<and>
      distinct (map ck_digest (db_chunk db)) \<and>
      distinct (map ar_id (db_artifact db)) \<and>
      distinct (map (\<lambda>a. (ar_namespace a, ar_name a, ar_version a)) (db_artifact db)) \<and>
      (\<forall>a\<in>set (db_artifact db). ar_id a \<le> db_artifact_seq db) \<and>
      (\<forall>c\<in>set (db_artifact_chunk db). ac_artifact_id c \<in> ar_id ` set (db_artifact db)) \<and>
      (\<forall>p\<in>set (db_part db). pt_session_id p \<in> ss_id ` set (db_session db)))"

definition state_texts :: "string set" where
  "state_texts = {''OPEN'', ''COMMITTING'', ''COMPLETED'', ''ABORTED'', ''EXPIRED''}"

definition states_ok :: "database \<Rightarrow> bool" where
  "states_ok db =
     ((\<forall>r\<in>set (db_session db). ss_state r \<in> state_texts) \<and>
      (\<forall>c\<in>set (db_chunk db). digest_key (ck_digest c) \<and>
         ck_state c \<in> {''ACTIVE'', ''PENDING_DELETE''}))"

definition active :: "database \<Rightarrow> string \<Rightarrow> bool" where
  "active db d = (\<exists>c\<in>set (db_chunk db). ck_digest c = d \<and> ck_state c = ''ACTIVE'')"

definition refs_ok :: "database \<Rightarrow> bool" where
  "refs_ok db = (\<forall>d. chunk_referenced db d \<longrightarrow> active db d)"

definition files_ok :: "database \<Rightarrow> fs \<Rightarrow> bool" where
  "files_ok db fs =
     (\<forall>c\<in>set (db_chunk db). ck_state c = ''ACTIVE'' \<longrightarrow>
        (\<exists>data. content fs (ck_digest c) = Some data \<and> ck_raw_size c = int (length data)))"

definition parts_ok :: "database \<Rightarrow> fs \<Rightarrow> bool" where
  "parts_ok db fs =
     (\<forall>p\<in>set (db_part db). pt_ordinal p < 2 ^ 63 \<and>
       (\<forall>r\<in>set (db_session db). ss_id r = pt_session_id p \<and> is_live r \<longrightarrow>
        (\<exists>data. content fs (pt_digest p) = Some data \<and> pt_length p = int (length data))))"

text \<open>A manifest whose entries are stored one after the other from position \<open>pos\<close> on.\<close>

fun stored_manifest :: "(string \<Rightarrow> bytes option) \<Rightarrow> nat \<Rightarrow> ManifestEntry list \<Rightarrow> bytes list \<Rightarrow> bool" where
  "stored_manifest get pos [] ds = (ds = [])"
| "stored_manifest get pos (e # es) ds =
     (\<exists>d ds'. ds = d # ds' \<and> get (me_digest e) = Some d \<and> unat (me_offset e) = pos \<and>
        unat (me_length e) = length d \<and> stored_manifest get (pos + length d) es ds')"

definition artifact_complete :: "(bytes \<Rightarrow> bytes) \<Rightarrow> database \<Rightarrow> fs \<Rightarrow> artifact_row \<Rightarrow> bytes list \<Rightarrow> bool" where
  "artifact_complete sha db fs a ds =
     (stored_manifest (content fs) 0 (map read_chunk_row (artifact_chunks (ar_id a) db)) ds \<and>
      map ac_ordinal (artifact_chunks (ar_id a) db) = map int [0..<length ds] \<and>
      unat (word_of_int (ar_size a) :: u64) = length (concat ds) \<and>
      sha256_to_hex (sha (concat ds)) = ar_digest a)"

definition artifacts_ok :: "(bytes \<Rightarrow> bytes) \<Rightarrow> database \<Rightarrow> fs \<Rightarrow> bool" where
  "artifacts_ok sha db fs =
     (\<forall>a\<in>set (db_artifact db). \<exists>ds. artifact_complete sha db fs a ds)"

definition inv :: "(bytes \<Rightarrow> bytes) \<Rightarrow> database \<Rightarrow> fs \<Rightarrow> bool" where
  "inv sha db fs =
     (keys_ok db \<and> states_ok db \<and> refs_ok db \<and> files_ok db fs \<and> parts_ok db fs \<and>
      artifacts_ok sha db fs \<and> fs_ok sha fs)"

definition storage_inv :: "(bytes \<Rightarrow> bytes) \<Rightarrow> storage \<Rightarrow> bool" where
  "storage_inv sha s = inv sha (sdb s) (sfs s)"

lemma chunk_referenced_iff:
  "chunk_referenced db d \<longleftrightarrow>
     (\<exists>c\<in>set (db_artifact_chunk db). ac_digest c = d) \<or>
     (\<exists>p\<in>set (db_part db). pt_digest p = d \<and>
        (\<exists>r\<in>set (db_session db). ss_id r = pt_session_id p \<and> is_live r))"
  by (auto simp: chunk_referenced_def list_ex_iff)

lemma active_unique:
  assumes "keys_ok db" and "active db d" and "c \<in> set (db_chunk db)" and "ck_digest c = d"
  shows "ck_state c = ''ACTIVE''"
proof -
  obtain c' where "c' \<in> set (db_chunk db)" "ck_digest c' = d" "ck_state c' = ''ACTIVE''"
    using assms(2) by (auto simp: active_def)
  moreover from this have "c' = c"
    using assms(1,3,4) distinct_key_eq [of ck_digest "db_chunk db" c' c] by (simp add: keys_ok_def)
  ultimately show ?thesis by simp
qed

lemma update_whereE:
  assumes "r \<in> set (update_where p f rows)"
  obtains (hit) x where "x \<in> set rows" "p x" "r = f x" | (other) "r \<in> set rows" "\<not> p r"
  using assms by (auto simp: set_update_where)

text \<open>A referenced chunk has its content.\<close>

lemma referenced_content:
  assumes "refs_ok db" and "files_ok db fs" and "chunk_referenced db d"
  obtains data where "content fs d = Some data"
  using assms by (fastforce simp: refs_ok_def files_ok_def active_def)

lemma stored_manifest_mono:
  assumes "stored_manifest get pos es ds" and "\<And>e d. e \<in> set es \<Longrightarrow> get (me_digest e) = Some d \<Longrightarrow> get' (me_digest e) = Some d"
  shows "stored_manifest get' pos es ds"
  using assms by (induction get pos es ds rule: stored_manifest.induct) auto

lemma stored_manifest_length: "stored_manifest get pos es ds \<Longrightarrow> length ds = length es"
  by (induction get pos es ds rule: stored_manifest.induct) auto

lemma artifact_chunks_set:
  "set (artifact_chunks i db) = {c \<in> set (db_artifact_chunk db). ac_artifact_id c = i}"
  by (simp add: artifact_chunks_def)

text \<open>The contents an artifact needs are kept by any change of the files that keeps the contents of
  the digests its rows refer to.\<close>

lemma artifacts_ok_fs:
  assumes "artifacts_ok sha db fs"
    and "\<And>c data. c \<in> set (db_artifact_chunk db) \<Longrightarrow> content fs (ac_digest c) = Some data \<Longrightarrow>
           content fs' (ac_digest c) = Some data"
  shows "artifacts_ok sha db fs'"
  unfolding artifacts_ok_def
proof
  fix a assume "a \<in> set (db_artifact db)"
  then obtain ds where ds: "artifact_complete sha db fs a ds" using assms(1) by (auto simp: artifacts_ok_def)
  have "stored_manifest (content fs') 0 (map read_chunk_row (artifact_chunks (ar_id a) db)) ds"
    by (rule stored_manifest_mono [of "content fs"])
       (use ds assms(2) in \<open>auto simp: artifact_complete_def artifact_chunks_set read_chunk_row_def\<close>)
  with ds show "\<exists>ds. artifact_complete sha db fs' a ds" by (auto simp: artifact_complete_def)
qed

lemma artifacts_ok_cong:
  "db_artifact db' = db_artifact db \<Longrightarrow> db_artifact_chunk db' = db_artifact_chunk db \<Longrightarrow>
   artifacts_ok sha db' fs = artifacts_ok sha db fs"
  by (simp add: artifacts_ok_def artifact_complete_def artifact_chunks_def)

section \<open>Steps on the database\<close>

text \<open>Marking a chunk nobody refers to.\<close>

lemma referenced_mark_pending [simp]:
  "chunk_referenced (mark_pending now d db) d' = chunk_referenced db d'"
  by (simp add: chunk_referenced_def mark_pending_def)

lemma inv_mark_pending:
  assumes "inv sha db fs" and "\<not> chunk_referenced db d"
  shows "inv sha (mark_pending now d db) fs"
proof -
  let ?db = "mark_pending now d db"
  have same: "db_session ?db = db_session db" "db_part ?db = db_part db"
    "db_artifact ?db = db_artifact db" "db_artifact_chunk ?db = db_artifact_chunk db"
    "db_artifact_seq ?db = db_artifact_seq db" "map ck_digest (db_chunk ?db) = map ck_digest (db_chunk db)"
    by (simp_all add: mark_pending_def map_update_where)
  have act: "active ?db d'" if "active db d'" "d' \<noteq> d" for d'
    using that by (fastforce simp: active_def mark_pending_def set_update_where)
  have "keys_ok ?db" using assms(1) same by (simp add: inv_def keys_ok_def)
  moreover have "states_ok ?db"
    using assms(1) same by (auto simp: inv_def states_ok_def mark_pending_def set_update_where)
  moreover have "refs_ok ?db"
    using assms act by (auto simp: inv_def refs_ok_def)
  moreover have "files_ok ?db fs"
    using assms(1) by (auto simp: inv_def files_ok_def mark_pending_def set_update_where)
  moreover have "parts_ok ?db fs" using assms(1) same by (simp add: inv_def parts_ok_def)
  moreover have "artifacts_ok sha ?db fs"
    using assms(1) artifacts_ok_cong [OF same(3,4)] by (simp add: inv_def)
  ultimately show ?thesis using assms(1) by (simp add: inv_def)
qed

lemma inv_mark_unreferenced: "inv sha db fs \<Longrightarrow> inv sha (mark_unreferenced now ds db) fs"
  by (induction ds arbitrary: db) (auto intro: inv_mark_pending)

text \<open>Deleting parts.\<close>

lemma inv_delete_parts:
  assumes "inv sha db fs" shows "inv sha (delete_parts sid db) fs"
proof -
  let ?db = "delete_parts sid db"
  have same: "db_session ?db = db_session db" "db_chunk ?db = db_chunk db"
    "db_artifact ?db = db_artifact db" "db_artifact_chunk ?db = db_artifact_chunk db"
    "db_artifact_seq ?db = db_artifact_seq db"
    by (simp_all add: delete_parts_def)
  have sub: "set (db_part ?db) \<subseteq> set (db_part db)" by (auto simp: delete_parts_def)
  have "distinct (map (\<lambda>p. (pt_session_id p, pt_ordinal p)) (db_part ?db))"
    using assms by (simp add: inv_def keys_ok_def delete_parts_def distinct_map_delete_where)
  then have "keys_ok ?db" using assms same sub by (auto simp: inv_def keys_ok_def)
  moreover have "chunk_referenced ?db d \<Longrightarrow> chunk_referenced db d" for d
    using same sub by (auto simp: chunk_referenced_iff)
  then have "refs_ok ?db" using assms same by (auto simp: inv_def refs_ok_def active_def)
  moreover have "parts_ok ?db fs" using assms same sub by (auto simp: inv_def parts_ok_def)
  ultimately show ?thesis
    using assms same artifacts_ok_cong [OF same(3,4)]
    by (simp add: inv_def states_ok_def files_ok_def)
qed

lemma inv_mark_unreferenced_parts:
  "inv sha db fs \<Longrightarrow> inv sha (mark_unreferenced_parts sid now db) fs"
  by (simp add: mark_unreferenced_parts_def Let_def inv_mark_unreferenced inv_delete_parts)

text \<open>Changing the state of sessions, never from a final state to a live one.\<close>

definition set_state :: "(session_row \<Rightarrow> bool) \<Rightarrow> string \<Rightarrow> database \<Rightarrow> database" where
  "set_state p text db =
     db\<lparr>db_session := update_where p (\<lambda>r. r\<lparr>ss_state := text\<rparr>) (db_session db)\<rparr>"

lemma inv_set_state:
  assumes "inv sha db fs" and "text \<in> state_texts"
    and live: "\<And>r. r \<in> set (db_session db) \<Longrightarrow> p r \<Longrightarrow> text \<in> {''OPEN'', ''COMMITTING''} \<Longrightarrow> is_live r"
  shows "inv sha (set_state p text db) fs"
proof -
  let ?db = "set_state p text db"
  have same: "db_part ?db = db_part db" "db_chunk ?db = db_chunk db"
    "db_artifact ?db = db_artifact db" "db_artifact_chunk ?db = db_artifact_chunk db"
    "db_artifact_seq ?db = db_artifact_seq db" "map ss_id (db_session ?db) = map ss_id (db_session db)"
    by (simp_all add: set_state_def map_update_where)
  have ids: "ss_id ` set (db_session ?db) = ss_id ` set (db_session db)"
    using same(6) by (metis list.set_map)
  have live_before: "\<exists>r0\<in>set (db_session db). ss_id r0 = ss_id r \<and> is_live r0"
    if "r \<in> set (db_session ?db)" "is_live r" for r
  proof -
    from that(1) have "r \<in> set (update_where p (\<lambda>r. r\<lparr>ss_state := text\<rparr>) (db_session db))"
      by (simp add: set_state_def)
    then show ?thesis
    proof (cases rule: update_whereE)
      case (hit x)
      moreover from this have "is_live x" using live [of x] that(2) by (simp add: is_live_def)
      ultimately show ?thesis by (intro bexI [of _ x]) simp_all
    next
      case other
      with that(2) show ?thesis by auto
    qed
  qed
  have "keys_ok ?db"
    using assms(1) same ids by (simp add: inv_def keys_ok_def)
  moreover have "states_ok ?db"
    using assms(1,2) same by (auto simp: inv_def states_ok_def set_state_def set_update_where)
  moreover have "chunk_referenced ?db d \<Longrightarrow> chunk_referenced db d" for d
    using live_before same unfolding chunk_referenced_iff by metis
  then have "refs_ok ?db" using assms(1) same by (auto simp: inv_def refs_ok_def active_def)
  moreover have "parts_ok ?db fs"
    using assms(1) same live_before unfolding inv_def parts_ok_def by metis
  ultimately show ?thesis
    using assms(1) same artifacts_ok_cong [OF same(3,4)]
    by (simp add: inv_def files_ok_def)
qed


lemma inv_chunk_files: "chunk_files fs' = chunk_files fs \<Longrightarrow> inv sha db fs' = inv sha db fs"
  by (simp add: inv_def files_ok_def parts_ok_def artifacts_ok_def artifact_complete_def fs_ok_def
      content_def [abs_def])

lemma inv_expire:
  assumes "inv sha db fs" shows "inv sha (expire_session_if_due session now db) fs"
proof -
  let ?p = "\<lambda>r. ss_id r = si_id session \<and> ss_state r = ''OPEN''"
  have "inv sha (set_state ?p ''EXPIRED'' db) fs"
    by (rule inv_set_state [OF assms]) (simp_all add: state_texts_def)
  then show ?thesis
    using assms
    by (simp add: expire_session_if_due_def set_state_def inv_mark_unreferenced_parts)
qed

text \<open>Registering a stored chunk.\<close>

lemma inv_insert_chunk:
  assumes "inv sha db fs" and "digest_key d" and "content fs d = Some data" and "len = int (length data)"
  shows "inv sha (insert_chunk d len now db) fs"
proof (cases "list_ex (\<lambda>c. ck_digest c = d) (db_chunk db)")
  case True
  with assms(1) show ?thesis by (simp add: insert_chunk_def)
next
  case False
  let ?db = "insert_chunk d len now db"
  have same: "db_session ?db = db_session db" "db_part ?db = db_part db"
    "db_artifact ?db = db_artifact db" "db_artifact_chunk ?db = db_artifact_chunk db"
    "db_artifact_seq ?db = db_artifact_seq db"
    by (simp_all add: insert_chunk_def)
  have rows: "db_chunk ?db = db_chunk db @ [\<lparr>ck_digest = d, ck_raw_size = len, ck_stored_size = len,
      ck_state = ''ACTIVE'', ck_pending_at = None, ck_created_at = now\<rparr>]"
    using False by (simp add: insert_chunk_def)
  have "d \<notin> ck_digest ` set (db_chunk db)" using False by (auto simp: list_ex_iff)
  then have "keys_ok ?db" using assms(1) same rows by (simp add: inv_def keys_ok_def)
  moreover have "states_ok ?db" using assms(1,2) same rows by (simp add: inv_def states_ok_def)
  moreover have "refs_ok ?db"
    using assms(1) same rows by (auto simp: inv_def refs_ok_def active_def chunk_referenced_iff)
  moreover have "files_ok ?db fs" using assms rows by (simp add: inv_def files_ok_def)
  moreover have "parts_ok ?db fs" using assms(1) same by (simp add: inv_def parts_ok_def)
  ultimately show ?thesis
    using assms(1) artifacts_ok_cong [OF same(3,4)] by (simp add: inv_def)
qed

lemma inv_reactivate:
  assumes "inv sha db fs"
    and "\<And>c. c \<in> set (db_chunk db) \<Longrightarrow> ck_digest c = d \<Longrightarrow> ck_state c = ''PENDING_DELETE'' \<Longrightarrow>
           \<exists>data. content fs d = Some data \<and> ck_raw_size c = int (length data)"
  shows "inv sha (reactivate d db) fs"
proof -
  let ?db = "reactivate d db"
  have same: "db_session ?db = db_session db" "db_part ?db = db_part db"
    "db_artifact ?db = db_artifact db" "db_artifact_chunk ?db = db_artifact_chunk db"
    "db_artifact_seq ?db = db_artifact_seq db" "map ck_digest (db_chunk ?db) = map ck_digest (db_chunk db)"
    by (simp_all add: reactivate_def map_update_where)
  have "keys_ok ?db" using assms(1) same by (simp add: inv_def keys_ok_def)
  moreover have "states_ok ?db"
    using assms(1) same by (auto simp: inv_def states_ok_def reactivate_def set_update_where)
  moreover have act: "active ?db d'" if "active db d'" for d'
    using that by (fastforce simp: active_def reactivate_def set_update_where)
  then have "refs_ok ?db"
    using assms(1) same by (simp add: inv_def refs_ok_def chunk_referenced_iff)
  moreover have "files_ok ?db fs"
    unfolding files_ok_def
  proof (intro ballI impI)
    fix c assume "c \<in> set (db_chunk ?db)" and act: "ck_state c = ''ACTIVE''"
    then have "c \<in> set (update_where (\<lambda>c. ck_digest c = d \<and> ck_state c = ''PENDING_DELETE'')
        (\<lambda>c. c\<lparr>ck_state := ''ACTIVE'', ck_pending_at := None\<rparr>) (db_chunk db))"
      by (simp add: reactivate_def)
    then show "\<exists>data. content fs (ck_digest c) = Some data \<and> ck_raw_size c = int (length data)"
    proof (cases rule: update_whereE)
      case (hit x)
      with assms(2) [of x] show ?thesis by simp
    next
      case other
      with act assms(1) show ?thesis by (simp add: inv_def files_ok_def)
    qed
  qed
  moreover have "parts_ok ?db fs" using assms(1) same by (simp add: inv_def parts_ok_def)
  ultimately show ?thesis
    using assms(1) artifacts_ok_cong [OF same(3,4)] by (simp add: inv_def)
qed

lemma active_reactivate:
  assumes "states_ok db" and "c \<in> set (db_chunk db)" and "ck_digest c = d"
  shows "active (reactivate d db) d"
proof -
  let ?f = "\<lambda>c. if ck_digest c = d \<and> ck_state c = ''PENDING_DELETE''
    then c\<lparr>ck_state := ''ACTIVE'', ck_pending_at := None\<rparr> else c"
  have "?f c \<in> set (db_chunk (reactivate d db))"
    using assms(2) by (auto simp: reactivate_def update_where_def)
  moreover have "ck_digest (?f c) = d" using assms(3) by simp
  moreover have "ck_state (?f c) = ''ACTIVE''" using assms by (auto simp: states_ok_def)
  ultimately show ?thesis unfolding active_def by blast
qed

lemma reactivate_active:
  assumes "keys_ok db" and "active db d" shows "reactivate d db = db"
proof -
  have "ck_state c = ''ACTIVE''" if "c \<in> set (db_chunk db)" "ck_digest c = d" for c
    using active_unique [OF assms that] .
  then have "update_where (\<lambda>c. ck_digest c = d \<and> ck_state c = ''PENDING_DELETE'')
      (\<lambda>c. c\<lparr>ck_state := ''ACTIVE'', ck_pending_at := None\<rparr>) (db_chunk db) = db_chunk db"
    unfolding update_where_def by (intro map_idI) auto
  then show ?thesis by (simp add: reactivate_def)
qed

lemma inv_add_part:
  assumes "inv sha db fs" and "active db (pt_digest p)" and "content fs (pt_digest p) = Some data"
    and "pt_length p = int (length data)" and "pt_ordinal p < 2 ^ 63"
    and "\<forall>q\<in>set (db_part db). pt_session_id q = pt_session_id p \<longrightarrow> pt_ordinal q \<noteq> pt_ordinal p"
    and "pt_session_id p \<in> ss_id ` set (db_session db)"
  shows "inv sha (db\<lparr>db_part := db_part db @ [p]\<rparr>) fs"
proof -
  let ?db = "db\<lparr>db_part := db_part db @ [p]\<rparr>"
  have "keys_ok ?db" using assms(1,6,7) by (auto simp: inv_def keys_ok_def)
  moreover have "states_ok ?db" using assms(1) by (simp add: inv_def states_ok_def)
  moreover have "refs_ok ?db"
    using assms(1,2) by (auto simp: inv_def refs_ok_def chunk_referenced_iff active_def)
  moreover have "files_ok ?db fs" using assms(1) by (simp add: inv_def files_ok_def)
  moreover have "parts_ok ?db fs" using assms(1,3,4,5) by (simp add: inv_def parts_ok_def)
  moreover have "artifacts_ok sha ?db fs"
    using assms(1) artifacts_ok_cong [of ?db db] by (simp add: inv_def)
  ultimately show ?thesis using assms(1) by (simp add: inv_def)
qed

section \<open>Operations\<close>

lemma keeps_query: "keeps I (query q)"
  by (simp add: keeps_def query_def)

lemma keeps_exec: "(\<And>db fs. inv sha db fs \<Longrightarrow> inv sha (f db) fs) \<Longrightarrow> keeps (storage_inv sha) (exec f)"
  by (simp add: keeps_def exec_def storage_inv_def)

text \<open>A transaction whose body does not touch the files and, when it returns, keeps the invariant.\<close>

lemma keeps_tx:
  assumes "\<And>s r s'. storage_inv sha s \<Longrightarrow> m s = (r, s') \<Longrightarrow>
      sfs s' = sfs s \<and> (\<forall>x. r = Inr x \<longrightarrow> storage_inv sha s')"
  shows "keeps (storage_inv sha) (tx m)"
  unfolding keeps_def
proof (intro allI impI)
  fix s assume s: "storage_inv sha s"
  obtain r s' where m: "m s = (r, s')" by (cases "m s")
  note * = assms [OF s m]
  show "storage_inv sha (snd (tx m s))"
  proof (cases r)
    case (Inl e)
    then have "snd (tx m s) = s'\<lparr>sdb := sdb s\<rparr>" using m by (simp add: tx_def)
    with * s show ?thesis by (simp add: storage_inv_def)
  next
    case (Inr x)
    then have "snd (tx m s) = s'" using m by (simp add: tx_def)
    with * Inr show ?thesis by simp
  qed
qed

lemma transition_eq:
  assumes "state_to_text from_state = Inr f" and "state_to_text to_state = Inr t"
  shows "transition sid from_state to_state s =
    (Inr (\<exists>r\<in>set (db_session (sdb s)). ss_id r = sid \<and> ss_state r = f),
     s\<lparr>sdb := set_state (\<lambda>r. ss_id r = sid \<and> ss_state r = f) t (sdb s)\<rparr>)"
  using assms by (simp add: transition_def op_lift_def set_state_def Let_def changes_pos)

lemma transition_sfs [simp]: "sfs (snd (transition sid f t s)) = sfs s"
  by (simp add: transition_def op_lift_def Let_def split: sum.splits)

lemma state_text_in: "state_to_text st = Inr t \<Longrightarrow> t \<in> state_texts"
  by (cases st) (auto simp: state_texts_def)

lemma state_to_text_live:
  "state_to_text st = Inr t \<Longrightarrow> t \<in> {''OPEN'', ''COMMITTING''} \<longleftrightarrow> st \<in> {OPEN, COMMITTING}"
  by (cases st) (auto simp: throw_error_def)

lemma inv_transition:
  assumes "storage_inv sha s"
    and "to_state \<in> {OPEN, COMMITTING} \<Longrightarrow> from_state \<in> {OPEN, COMMITTING}"
  shows "storage_inv sha (snd (transition sid from_state to_state s))"
proof (cases "state_to_text from_state")
  case (Inl e)
  with assms(1) show ?thesis
    by (simp add: transition_def op_lift_def split: sum.splits)
next
  case (Inr f)
  note f = this
  show ?thesis
  proof (cases "state_to_text to_state")
    case (Inl e)
    with assms(1) f show ?thesis by (simp add: transition_def op_lift_def)
  next
    case (Inr t)
    have "inv sha (set_state (\<lambda>r. ss_id r = sid \<and> ss_state r = f) t (sdb s)) (sfs s)"
    proof (rule inv_set_state)
      show "inv sha (sdb s) (sfs s)" using assms(1) by (simp add: storage_inv_def)
      show "t \<in> state_texts" by (rule state_text_in [OF Inr])
      fix r :: session_row assume "ss_id r = sid \<and> ss_state r = f" and t: "t \<in> {''OPEN'', ''COMMITTING''}"
      moreover have "f \<in> {''OPEN'', ''COMMITTING''}"
        using state_to_text_live [OF f] state_to_text_live [OF Inr] t assms(2) by blast
      ultimately show "is_live r" by (simp add: is_live_def)
    qed
    then show ?thesis by (simp add: transition_eq [OF f Inr] storage_inv_def)
  qed
qed

lemma keeps_transition:
  "(to_state \<in> {OPEN, COMMITTING} \<Longrightarrow> from_state \<in> {OPEN, COMMITTING}) \<Longrightarrow>
   keeps (storage_inv sha) (transition sid from_state to_state)"
  unfolding keeps_def using inv_transition by blast

text \<open>A new session has no parts yet.\<close>

lemma inv_add_session:
  assumes "inv sha db fs" and "ss_id row \<notin> ss_id ` set (db_session db)" and "ss_state row \<in> state_texts"
  shows "inv sha (db\<lparr>db_session := db_session db @ [row]\<rparr>) fs"
proof -
  let ?db = "db\<lparr>db_session := db_session db @ [row]\<rparr>"
  have none: "pt_session_id p \<noteq> ss_id row" if "p \<in> set (db_part db)" for p
    using assms(1,2) that unfolding inv_def keys_ok_def by metis
  have "keys_ok ?db" using assms(1,2) by (auto simp: inv_def keys_ok_def)
  moreover have "states_ok ?db" using assms(1,3) by (simp add: inv_def states_ok_def)
  moreover have "chunk_referenced ?db d = chunk_referenced db d" for d
  proof -
    have "(\<exists>r\<in>set (db_session ?db). ss_id r = pt_session_id p \<and> is_live r) =
        (\<exists>r\<in>set (db_session db). ss_id r = pt_session_id p \<and> is_live r)" if "p \<in> set (db_part db)" for p
      using none [OF that] by auto
    then show ?thesis unfolding chunk_referenced_iff by auto
  qed
  then have "refs_ok ?db" using assms(1) by (simp add: inv_def refs_ok_def active_def)
  moreover have "files_ok ?db fs" using assms(1) by (simp add: inv_def files_ok_def)
  moreover have "parts_ok ?db fs" using assms(1) none by (fastforce simp: inv_def parts_ok_def)
  moreover have "artifacts_ok sha ?db fs"
    using assms(1) artifacts_ok_cong [of ?db db] by (simp add: inv_def)
  ultimately show ?thesis using assms(1) by (simp add: inv_def)
qed

lemma inv_insert_session:
  assumes "ss_state row \<in> state_texts"
  shows "keeps (storage_inv sha) (tx (insert_session row))"
  by (rule keeps_tx)
    (use assms in \<open>auto simp: insert_session_def list_ex_iff storage_inv_def constraint_failed_def
       throw_error_def intro!: inv_add_session split: if_splits\<close>)

lemma op_bind_lift [simp]: "op_bind (op_lift (Inr x)) k = k x"
  by (rule ext) (simp add: op_lift_def)

lemma inv_create_session:
  assumes "storage_inv sha s"
  shows "storage_inv sha (snd (create_session cfg env ns name version bytes digest owner s))"
proof -
  have ins: "keeps (storage_inv sha) (op_bind (tx (insert_session row)) (\<lambda>u. op_return info))"
    if "ss_state row = ''OPEN''" for row info
    by (intro keeps_intros inv_insert_session) (simp add: that state_texts_def)
  have tx: "storage_inv sha (snd (op_bind (tx (insert_session row)) (\<lambda>u. op_return info) (s\<lparr>id_counter := n\<rparr>)))"
    if "ss_state row = ''OPEN''" for row info n
  proof -
    have "storage_inv sha (s\<lparr>id_counter := n\<rparr>)" using assms by (simp add: storage_inv_def)
    with ins [OF that, of info] show ?thesis unfolding keeps_def by blast
  qed
  show ?thesis
    using assms unfolding create_session_def Let_def
    by (simp add: tx del: op_bind.simps)
qed

subsection \<open>Storing a chunk\<close>

lemma referenced_key:
  assumes "inv sha db fs" and "chunk_referenced db d" shows "digest_key d"
proof -
  have "active db d" using assms by (simp add: inv_def refs_ok_def)
  then show ?thesis using assms(1) by (auto simp: active_def inv_def states_ok_def)
qed

lemma referenced_two: "inv sha db fs \<Longrightarrow> chunk_referenced db d \<Longrightarrow> 2 \<le> length d"
  using referenced_key digest_key_length by fastforce

text \<open>The file system may change as long as the contents that are referred to or active stay.\<close>

lemma inv_fs:
  assumes i: "inv sha db fs" and "fs_ok sha fs'"
    and keep: "\<And>d c. digest_key d \<Longrightarrow> chunk_referenced db d \<or> active db d \<Longrightarrow>
        content fs d = Some c \<Longrightarrow> content fs' d = Some c"
  shows "inv sha db fs'"
proof -
  have "files_ok db fs'"
    unfolding files_ok_def
  proof (intro ballI impI)
    fix c assume c: "c \<in> set (db_chunk db)" "ck_state c = ''ACTIVE''"
    then obtain data where "content fs (ck_digest c) = Some data" "ck_raw_size c = int (length data)"
      using i by (auto simp: inv_def files_ok_def)
    moreover have "digest_key (ck_digest c)" using c(1) i by (auto simp: inv_def states_ok_def)
    moreover have "active db (ck_digest c)" using c by (auto simp: active_def)
    ultimately show "\<exists>data. content fs' (ck_digest c) = Some data \<and> ck_raw_size c = int (length data)"
      using keep by blast
  qed
  moreover have "parts_ok db fs'"
    unfolding parts_ok_def
  proof (intro ballI conjI impI)
    fix p assume p: "p \<in> set (db_part db)"
    then show "pt_ordinal p < 2 ^ 63" using i by (simp add: inv_def parts_ok_def)
    fix r assume r: "r \<in> set (db_session db)" "ss_id r = pt_session_id p \<and> is_live r"
    then obtain data where "content fs (pt_digest p) = Some data" "pt_length p = int (length data)"
      using i p by (auto simp: inv_def parts_ok_def)
    moreover have "chunk_referenced db (pt_digest p)" using p r by (auto simp: chunk_referenced_iff)
    ultimately show "\<exists>data. content fs' (pt_digest p) = Some data \<and> pt_length p = int (length data)"
      using keep referenced_key [OF i] by blast
  qed
  moreover have "artifacts_ok sha db fs'"
  proof (rule artifacts_ok_fs)
    show "artifacts_ok sha db fs" using i by (simp add: inv_def)
    fix c data assume c: "c \<in> set (db_artifact_chunk db)" "content fs (ac_digest c) = Some data"
    then have "chunk_referenced db (ac_digest c)" by (auto simp: chunk_referenced_iff)
    then show "content fs' (ac_digest c) = Some data" using keep referenced_key [OF i] c(2) by blast
  qed
  ultimately show ?thesis using i assms(2) by (simp add: inv_def)
qed

text \<open>No other content is known under the digest of the data.\<close>

definition no_collision :: "(bytes \<Rightarrow> bytes) \<Rightarrow> storage \<Rightarrow> bytes \<Rightarrow> bool" where
  "no_collision sha s data =
     ((\<forall>c. content (sfs s) (sha256_to_hex (sha data)) = Some c \<longrightarrow> c = data) \<and>
      (\<forall>row\<in>set (db_chunk (sdb s)). ck_digest row = sha256_to_hex (sha data) \<longrightarrow>
         ck_raw_size row = int (length data)))"

lemma register_part_inv:
  assumes "storage_inv sha s" and "register_part sid ord d len now s = (r, s')"
    and "digest_key d" and "content (sfs s) d = Some data" and "len = int (length data)"
    and "ord < 2 ^ 63"
    and sizes: "\<forall>row\<in>set (db_chunk (sdb s)). ck_digest row = d \<longrightarrow> ck_raw_size row = len"
  shows "sfs s' = sfs s \<and> (\<forall>x. r = Inr x \<longrightarrow> storage_inv sha s')"
proof -
  let ?db1 = "insert_chunk d len now (sdb s)"
  let ?db2 = "reactivate d ?db1"
  let ?p = "\<lparr>pt_session_id = sid, pt_ordinal = ord, pt_digest = d, pt_length = len\<rparr>"
  have same: "db_session ?db2 = db_session (sdb s)" "db_part ?db2 = db_part (sdb s)"
    by (simp_all add: reactivate_def insert_chunk_def)
  have i1: "inv sha ?db1 (sfs s)"
    using inv_insert_chunk assms(1,3,4,5) by (simp add: storage_inv_def)
  have sized: "ck_raw_size c = int (length data)" if "c \<in> set (db_chunk ?db1)" "ck_digest c = d" for c
  proof -
    have "c \<in> set (db_chunk (sdb s)) \<or> ck_raw_size c = len"
      using that(1) by (auto simp: insert_chunk_def split: if_splits)
    with that(2) sizes assms(5) show ?thesis by auto
  qed
  have i2: "inv sha ?db2 (sfs s)"
    by (rule inv_reactivate [OF i1]) (use sized assms(4) in auto)
  have "\<exists>c\<in>set (db_chunk ?db1). ck_digest c = d"
    by (auto simp: insert_chunk_def list_ex_iff)
  then obtain c where c: "c \<in> set (db_chunk ?db1)" "ck_digest c = d" by blast
  have act: "active ?db2 d" by (rule active_reactivate [OF _ c]) (use i1 in \<open>simp add: inv_def\<close>)
  have new: "storage_inv sha (s\<lparr>sdb := ?db2\<lparr>db_part := db_part ?db2 @ [?p]\<rparr>\<rparr>)"
    if "\<forall>q\<in>set (db_part (sdb s)). pt_session_id q = sid \<longrightarrow> pt_ordinal q \<noteq> ord"
      and "sid \<in> ss_id ` set (db_session (sdb s))"
    unfolding storage_inv_def
    using inv_add_part [OF i2, of ?p data] act assms(4,5,6) that same by simp
  show ?thesis
    using assms(1,2) new same
    by (auto simp: register_part_def exec_def insert_part_def op_return_def op_throw_def throw_error_def
        constraint_failed_def list_ex_iff select_one_None split: option.splits if_splits)
qed

lemma mark_unreferenced_chunks:
  "map (\<lambda>c. (ck_digest c, ck_raw_size c)) (db_chunk (mark_unreferenced now ds db)) =
   map (\<lambda>c. (ck_digest c, ck_raw_size c)) (db_chunk db)"
  by (induction ds arbitrary: db) (simp_all add: mark_pending_def map_update_where)

lemma expire_chunks:
  "(\<lambda>c. (ck_digest c, ck_raw_size c)) ` set (db_chunk (expire_session_if_due session now db)) =
   (\<lambda>c. (ck_digest c, ck_raw_size c)) ` set (db_chunk db)"
proof -
  have "map (\<lambda>c. (ck_digest c, ck_raw_size c)) (db_chunk (expire_session_if_due session now db)) =
      map (\<lambda>c. (ck_digest c, ck_raw_size c)) (db_chunk db)"
    by (simp add: expire_session_if_due_def mark_unreferenced_parts_def Let_def
        mark_unreferenced_chunks delete_parts_def)
  from arg_cong [OF this, of set] show ?thesis by simp
qed

lemma sint_small: "sint (w :: u64) < 2 ^ 63"
  using sint_lt [of w] by simp

text \<open>The last part of \<open>put_chunk\<close>: the file, then the transaction.\<close>

lemma inv_store_register:
  assumes s: "storage_inv sha s" and env: "env_sha env = sha" "sha_ok sha"
    and nc: "no_collision sha s data" and small: "length data < 2 ^ 63"
  shows "storage_inv sha (snd (op_bind (store_chunk env (Some data) (length data) (sha256_to_hex (sha data)))
    (\<lambda>d. tx (register_part sid (sint (ord :: u64)) (sha256_to_hex (sha data)) (int (length data)) now)) s))"
proof -
  let ?d = "sha256_to_hex (sha data)"
  obtain r fs' where put: "chunk_store_put sha (env_io env) (Some data) (length data) ?d (sfs s) = (r, fs')"
    by (cases "chunk_store_put sha (env_io env) (Some data) (length data) ?d (sfs s)")
  have ok: "fs_ok sha (sfs s)" using s by (simp add: storage_inv_def inv_def)
  note p = put_spec [OF put env(2) ok small]
  have i: "inv sha (sdb s) fs'"
  proof (rule inv_fs)
    show "inv sha (sdb s) (sfs s)" using s by (simp add: storage_inv_def)
    show "fs_ok sha fs'" by (rule p(1))
    show "content fs' d = Some c" if "digest_key d" "content (sfs s) d = Some c" for d c
      by (rule p(2)) (use that digest_key_length [of d] in simp_all)
  qed
  let ?s = "s\<lparr>sfs := fs'\<rparr>"
  have s': "storage_inv sha ?s" using i by (simp add: storage_inv_def)
  show ?thesis
  proof (cases r)
    case (Inl e)
    with put s' env(1) show ?thesis by (simp add: store_chunk_def)
  next
    case (Inr x)
    have key: "digest_key ?d" using sha_hex [OF env(2)] by (simp add: digest_key_def)
    have c: "content fs' ?d = Some data"
      using p(3) [OF Inr] nc by (auto simp: no_collision_def split: option.splits)
    have sizes: "\<forall>row\<in>set (db_chunk (sdb s)). ck_digest row = ?d \<longrightarrow> ck_raw_size row = int (length data)"
      using nc by (simp add: no_collision_def)
    obtain r2 s2 where reg: "register_part sid (sint ord) ?d (int (length data)) now ?s = (r2, s2)"
      by (cases "register_part sid (sint ord) ?d (int (length data)) now ?s")
    have "sfs s2 = sfs ?s \<and> (\<forall>x. r2 = Inr x \<longrightarrow> storage_inv sha s2)"
      by (rule register_part_inv [OF s' reg key])
        (use c sizes sint_small [of ord] in simp_all)
    then show ?thesis
      using reg put Inr env(1) s' by (cases r2) (auto simp: store_chunk_def tx_def storage_inv_def)
  qed
qed

lemma op_bind_query:
  "op_bind (query q) k s = (case q (sdb s) of Inl e \<Rightarrow> (Inl e, s) | Inr x \<Rightarrow> k x s)"
  by (simp add: query_def)

lemma op_bind_exec: "op_bind (exec f) k s = k () (s\<lparr>sdb := f (sdb s)\<rparr>)"
  by (simp add: exec_def)

lemma inv_put_chunk:
  assumes s: "storage_inv sha s" and env: "env_sha env = sha" "sha_ok sha"
    and nc: "no_collision sha s data" and small: "length data < 2 ^ 63"
  shows "storage_inv sha (snd (put_chunk env sid ord (Some data) (length data) s))"
proof (cases "load_session sid (sdb s)")
  case (Inl e)
  with s show ?thesis by (simp add: put_chunk_def op_bind_query Let_def del: op_bind.simps)
next
  case (Inr before)
  let ?s = "s\<lparr>sdb := expire_session_if_due before (env_now env) (sdb s)\<rparr>"
  have s': "storage_inv sha ?s" using s by (simp add: storage_inv_def inv_expire)
  have "(ck_digest row, ck_raw_size row) \<in> (\<lambda>c. (ck_digest c, ck_raw_size c)) ` set (db_chunk (sdb s))"
    if "row \<in> set (db_chunk (sdb ?s))" for row
    using that expire_chunks [of before "env_now env" "sdb s"] by auto
  then have nc': "no_collision sha ?s data"
    using nc by (fastforce simp: no_collision_def)
  note last = inv_store_register [OF s' env nc' small, of sid ord "env_now env"]
  show ?thesis
  proof (cases "load_session sid (sdb ?s)")
    case (Inl e)
    with Inr s' show ?thesis
      by (simp add: put_chunk_def op_bind_query op_bind_exec Let_def del: op_bind.simps)
  next
    case (Inr session)
    with \<open>load_session sid (sdb s) = Inr before\<close> s' last env(1) show ?thesis
      by (simp add: put_chunk_def op_bind_query op_bind_exec op_throw_def Let_def del: op_bind.simps)
  qed
qed

subsection \<open>Aborting, deleting, collecting\<close>

lemma exec_sfs [simp]: "sfs (snd (exec f s)) = sfs s"
  by (simp add: exec_def)

lemma inv_abort_session:
  assumes "storage_inv sha s" shows "storage_inv sha (snd (abort_session env sid s))"
proof -
  have "keeps (storage_inv sha) (tx (op_bind (transition sid st ABORTED) (\<lambda>changed.
      exec (mark_unreferenced_parts sid (env_now env)))))" for st
  proof (rule keeps_tx)
    let ?m = "op_bind (transition sid st ABORTED) (\<lambda>changed.
      exec (mark_unreferenced_parts sid (env_now env)))"
    fix s r s' assume s: "storage_inv sha s" and m: "?m s = (r, s')"
    have "keeps (storage_inv sha) ?m"
      by (intro keeps_bind keeps_transition keeps_exec) (auto intro: inv_mark_unreferenced_parts)
    then have "storage_inv sha (snd (?m s))" using s unfolding keeps_def by blast
    moreover have "sfs (snd (?m s)) = sfs s"
      using transition_sfs [of sid st ABORTED s]
      by (cases "transition sid st ABORTED s") (auto simp: exec_def split: sum.splits)
    ultimately show "sfs s' = sfs s \<and> (\<forall>x. r = Inr x \<longrightarrow> storage_inv sha s')" using m by simp
  qed
  then have "keeps (storage_inv sha) (abort_session env sid)"
    unfolding abort_session_def by (intro keeps_bind keeps_query) (auto intro: keeps_return)
  with assms show ?thesis unfolding keeps_def by blast
qed

lemma mark_counted_db: "snd (mark_counted now ds db) = mark_unreferenced now ds db"
  by (induction ds arbitrary: db) (simp_all add: split_beta)

lemma artifact_chunks_other:
  "i \<noteq> j \<Longrightarrow> artifact_chunks j (delete_artifact_rows i db) = artifact_chunks j db"
  unfolding artifact_chunks_def delete_artifact_rows_def delete_where_def
  by (simp add: filter_filter) (metis (mono_tags, lifting) filter_cong)

lemma inv_delete_artifact_rows:
  assumes "inv sha db fs" shows "inv sha (delete_artifact_rows i db) fs"
proof -
  let ?db = "delete_artifact_rows i db"
  have same: "db_session ?db = db_session db" "db_part ?db = db_part db" "db_chunk ?db = db_chunk db"
    "db_artifact_seq ?db = db_artifact_seq db"
    by (simp_all add: delete_artifact_rows_def)
  have sets: "set (db_artifact ?db) = {a \<in> set (db_artifact db). ar_id a \<noteq> i}"
    "set (db_artifact_chunk ?db) = {c \<in> set (db_artifact_chunk db). ac_artifact_id c \<noteq> i}"
    by (simp_all add: delete_artifact_rows_def)
  have "keys_ok ?db"
    using assms same sets
    by (auto simp: inv_def keys_ok_def delete_artifact_rows_def distinct_map_delete_where)
  moreover have "states_ok ?db" using assms same by (simp add: inv_def states_ok_def)
  moreover have "chunk_referenced ?db d \<Longrightarrow> chunk_referenced db d" for d
    using same sets by (auto simp: chunk_referenced_iff)
  then have "refs_ok ?db" using assms same by (simp add: inv_def refs_ok_def active_def)
  moreover have "files_ok ?db fs" using assms same by (simp add: inv_def files_ok_def)
  moreover have "parts_ok ?db fs" using assms same by (simp add: inv_def parts_ok_def)
  moreover have "artifacts_ok sha ?db fs"
    using assms sets artifact_chunks_other
    by (simp add: inv_def artifacts_ok_def artifact_complete_def)
  ultimately show ?thesis using assms by (simp add: inv_def)
qed

lemma inv_delete_artifact:
  assumes "storage_inv sha s" shows "storage_inv sha (snd (delete_artifact env ns name version s))"
proof -
  have "keeps (storage_inv sha) (delete_artifact env ns name version)"
    unfolding delete_artifact_def
  proof (rule keeps_tx)
    fix s r s'
    assume s: "storage_inv sha s" and m: "(case select_artifact ns name version (sdb s) of
        None \<Rightarrow> (throw_error FR_E_NOTFOUND ''artifact not found'', s)
      | Some row \<Rightarrow>
          let digests = map ac_digest (artifact_chunks (ar_id row) (sdb s))
          in case mark_counted (env_now env) digests (delete_artifact_rows (ar_id row) (sdb s)) of
               (marked, db') \<Rightarrow> (Inr marked, s\<lparr>sdb := db'\<rparr>)) = (r, s')"
    have "inv sha (snd (mark_counted now ds (delete_artifact_rows i (sdb s)))) (sfs s)" for now ds i
      unfolding mark_counted_db
      using s by (simp add: storage_inv_def inv_mark_unreferenced inv_delete_artifact_rows)
    then show "sfs s' = sfs s \<and> (\<forall>x. r = Inr x \<longrightarrow> storage_inv sha s')"
      using m s by (auto simp: Let_def storage_inv_def split: option.splits prod.splits
        dest: arg_cong [where f = snd]) (metis snd_conv)+
  qed
  with assms show ?thesis unfolding keeps_def by blast
qed

text \<open>The chunk table may lose rows nobody refers to, and their columns other than the digest, the
  state and the size do not matter.\<close>

lemma inv_chunk_rows:
  assumes "inv sha db fs"
    and rows: "map (\<lambda>c. (ck_digest c, ck_state c, ck_raw_size c)) rows =
      map (\<lambda>c. (ck_digest c, ck_state c, ck_raw_size c)) (filter P (db_chunk db))"
    and drop: "\<And>c. c \<in> set (db_chunk db) \<Longrightarrow> \<not> P c \<Longrightarrow> \<not> chunk_referenced db (ck_digest c)"
  shows "inv sha (db\<lparr>db_chunk := rows\<rparr>) fs"
proof -
  let ?db = "db\<lparr>db_chunk := rows\<rparr>" and ?k = "\<lambda>c :: chunk_row. (ck_digest c, ck_state c, ck_raw_size c)"
  have keys: "map ck_digest rows = map ck_digest (filter P (db_chunk db))"
    using arg_cong [OF rows, of "map fst"] by (simp add: comp_def)
  have sets: "?k ` set rows = ?k ` {c \<in> set (db_chunk db). P c}"
    using arg_cong [OF rows, of set] by simp
  have down: "\<exists>c'\<in>set (db_chunk db). P c' \<and> ck_digest c' = ck_digest c \<and> ck_state c' = ck_state c \<and>
      ck_raw_size c' = ck_raw_size c" if "c \<in> set rows" for c
  proof -
    have "?k c \<in> ?k ` {c \<in> set (db_chunk db). P c}" using that sets by blast
    then obtain c' where "?k c = ?k c'" "c' \<in> {c \<in> set (db_chunk db). P c}" by (rule imageE)
    then show ?thesis by (intro bexI [of _ c']) auto
  qed
  have up: "\<exists>c'\<in>set rows. ck_digest c' = ck_digest c \<and> ck_state c' = ck_state c"
    if "c \<in> set (db_chunk db)" "P c" for c
  proof -
    have "?k c \<in> ?k ` set rows" unfolding sets using that by blast
    then obtain c' where "?k c = ?k c'" "c' \<in> set rows" by (rule imageE)
    then show ?thesis by (intro bexI [of _ c']) auto
  qed
  have ref: "chunk_referenced ?db d = chunk_referenced db d" for d by (simp add: chunk_referenced_iff)
  have "keys_ok ?db"
    using assms(1) keys by (simp add: inv_def keys_ok_def distinct_map_filter)
  moreover have "states_ok ?db"
    using assms(1) down unfolding inv_def states_ok_def by simp metis
  moreover have "refs_ok ?db"
    unfolding refs_ok_def ref
  proof (intro allI impI)
    fix d assume r: "chunk_referenced db d"
    then obtain c where c: "c \<in> set (db_chunk db)" "ck_digest c = d" "ck_state c = ''ACTIVE''"
      using assms(1) by (auto simp: inv_def refs_ok_def active_def)
    then have "P c" using drop r by blast
    from up [OF c(1) this] c show "active ?db d" by (auto simp: active_def)
  qed
  moreover have "files_ok ?db fs"
    using assms(1) down unfolding inv_def files_ok_def by simp metis
  moreover have "parts_ok ?db fs" using assms(1) by (simp add: inv_def parts_ok_def)
  moreover have "artifacts_ok sha ?db fs"
    using assms(1) artifacts_ok_cong [of ?db db] by (simp add: inv_def)
  ultimately show ?thesis using assms(1) by (simp add: inv_def)
qed

lemma inv_touch_active:
  assumes "inv sha db fs" and "active db d"
  shows "inv sha (db\<lparr>db_chunk := update_where (\<lambda>c. ck_digest c = d)
      (\<lambda>c. c\<lparr>ck_state := ''ACTIVE'', ck_pending_at := None\<rparr>) (db_chunk db)\<rparr>) fs"
proof (rule inv_chunk_rows [OF assms(1), where P = "\<lambda>c. True"])
  have "ck_state c = ''ACTIVE''" if "c \<in> set (db_chunk db)" "ck_digest c = d" for c
    using active_unique [OF _ assms(2) that] assms(1) by (simp add: inv_def)
  then show "map (\<lambda>c. (ck_digest c, ck_state c, ck_raw_size c)) (update_where (\<lambda>c. ck_digest c = d)
      (\<lambda>c. c\<lparr>ck_state := ''ACTIVE'', ck_pending_at := None\<rparr>) (db_chunk db)) =
    map (\<lambda>c. (ck_digest c, ck_state c, ck_raw_size c)) (filter (\<lambda>c. True) (db_chunk db))"
    by (auto simp: update_where_def)
qed simp

lemma inv_remove_chunk:
  assumes i: "inv sha db fs" and "\<not> chunk_referenced db d" and "digest_key d"
    and rm: "chunk_store_remove env d fs = (r, fs')"
  shows "inv sha (db\<lparr>db_chunk := delete_where (\<lambda>c. ck_digest c = d) (db_chunk db)\<rparr>) fs'"
proof -
  let ?db = "db\<lparr>db_chunk := delete_where (\<lambda>c. ck_digest c = d) (db_chunk db)\<rparr>"
  have "inv sha ?db fs"
    by (rule inv_chunk_rows [OF i, where P = "\<lambda>c. ck_digest c \<noteq> d"])
      (use assms(2) in \<open>auto simp: delete_where_def\<close>)
  then show ?thesis
  proof (rule inv_fs)
    show "fs_ok sha fs'" by (rule remove_spec(1) [OF rm]) (use i in \<open>simp add: inv_def\<close>)
    show "content fs' d' = Some c"
      if d': "digest_key d'" "chunk_referenced ?db d' \<or> active ?db d'" "content fs d' = Some c" for d' c
    proof -
      have "d' \<noteq> d" using d'(2) assms(2) by (auto simp: chunk_referenced_iff active_def)
      then show ?thesis
        using remove_spec(2) [OF rm assms(3) _ ] digest_key_length [OF d'(1)] d'(3) by simp
    qed
  qed
qed

lemma remove_error: "chunk_store_remove env d fs = (Inl e, fs') \<Longrightarrow> fs' = fs"
  by (auto simp: chunk_store_remove_def Let_def throw_error_def split: sum.splits if_splits)

lemma inv_gc_loop:
  assumes "storage_inv sha s" and "\<forall>c\<in>set cs. digest_key (ck_digest c)"
  shows "storage_inv sha (snd (gc_loop cfg env dry_run cs report s))"
  using assms
proof (induction cfg env dry_run cs report s rule: gc_loop.induct)
  case (2 cfg env dry c cs report s)
  show ?case
  proof (cases "the (ck_pending_at c) > env_now env - cfg_gc_grace_seconds cfg")
    case True
    then show ?thesis using 2 by simp
  next
    case late: False
    show ?thesis
    proof (cases "chunk_referenced (sdb s) (ck_digest c)")
      case True
      have "active (sdb s) (ck_digest c)"
        using 2(5) True by (simp add: storage_inv_def inv_def refs_ok_def)
      then show ?thesis
        using late True 2(2) [OF late True] 2(5,6) inv_touch_active by (simp add: storage_inv_def)
    next
      case free: False
      show ?thesis
      proof (cases dry)
        case True
        then show ?thesis using late free 2(3) [OF late free refl True] 2(5,6) by (simp add: Let_def)
      next
        case False
        obtain r fs' where rm: "chunk_store_remove (env_io env) (ck_digest c) (sfs s) = (r, fs')"
          by (cases "chunk_store_remove (env_io env) (ck_digest c) (sfs s)")
        show ?thesis
        proof (cases r)
          case (Inl e)
          with rm have "fs' = sfs s" using remove_error by blast
          then show ?thesis using late free False rm Inl 2(5) by (simp add: Let_def storage_inv_def)
        next
          case (Inr u)
          have "inv sha ((sdb s)\<lparr>db_chunk := delete_where (\<lambda>x. ck_digest x = ck_digest c) (db_chunk (sdb s))\<rparr>) fs'"
            by (rule inv_remove_chunk [OF _ free _ rm]) (use 2(5,6) in \<open>simp_all add: storage_inv_def\<close>)
          then show ?thesis
            using late free False rm Inr 2(4) [OF late free refl False rm [symmetric] Inr] 2(6)
            by (simp add: Let_def storage_inv_def)
        qed
      qed
    qed
  qed
qed simp

lemma inv_collect_garbage:
  assumes "storage_inv sha s" shows "storage_inv sha (snd (collect_garbage cfg env dry_run s))"
  unfolding collect_garbage_def Let_def
  by (rule inv_gc_loop [OF assms]) (use assms in \<open>auto simp: storage_inv_def inv_def states_ok_def\<close>)

lemma inv_mark_sessions: "inv sha db fs \<Longrightarrow> inv sha (mark_sessions now ids db) fs"
  by (induction ids arbitrary: db) (auto intro: inv_mark_unreferenced_parts)

lemma inv_run_maintenance:
  assumes "storage_inv sha s" shows "storage_inv sha (snd (run_maintenance env s))"
proof -
  let ?due = "\<lambda>r. ss_state r = ''OPEN'' \<and> ss_expires_at r \<le> env_now env"
  let ?stuck = "\<lambda>r. ss_state r = ''COMMITTING''"
  obtain n fs' where c: "cleanup_temp_files (env_io env) (sfs s) = (n, fs')"
    by (cases "cleanup_temp_files (env_io env) (sfs s)")
  then have "chunk_files fs' = chunk_files (sfs s)"
    unfolding cleanup_temp_files_def by (rule cleanup_chunks)
  then have i: "inv sha (sdb s) fs'"
    using assms inv_chunk_files [of fs' "sfs s"] by (simp add: storage_inv_def)
  have "inv sha (set_state ?due ''EXPIRED'' (sdb s)) fs'"
    by (rule inv_set_state [OF i]) (simp_all add: state_texts_def)
  then have "inv sha (set_state ?stuck ''OPEN'' (set_state ?due ''EXPIRED'' (sdb s))) fs'"
    by (rule inv_set_state) (simp_all add: state_texts_def is_live_def)
  then show ?thesis
    using c by (simp add: run_maintenance_def Let_def set_state_def storage_inv_def inv_mark_sessions)
qed

lemma inv_storage_open:
  assumes "storage_inv sha s" shows "storage_inv sha (snd (storage_open cfg env s))"
proof -
  have "keeps (storage_inv sha) (run_maintenance env)" by (simp add: keeps_def inv_run_maintenance)
  then have "keeps (storage_inv sha) (storage_open cfg env)"
    unfolding storage_open_def by (auto intro: keeps_intros)
  with assms show ?thesis unfolding keeps_def by blast
qed

end
