(* ===== verification/Commit.thy ===== *)
theory Commit
  imports StorageInv
begin

text \<open>
  Publishing an upload session: what \<open>commit_session\<close> of
  \<^verbatim>\<open>src/storage/fr_storage.cpp\<close> leaves behind on every path. The checks of the
  manifest rule out an overflow of the total length; the publishing transaction cannot fail once
  the checks have passed; a failed check puts the session back to \<open>OPEN\<close>.
\<close>

section \<open>The manifest\<close>

text \<open>The manifest of consecutive parts that starts at offset \<open>w\<close>.\<close>

fun entries_of :: "u64 \<Rightarrow> part_row list \<Rightarrow> ManifestEntry list" where
  "entries_of w [] = []"
| "entries_of w (p # ps) =
     \<lparr>me_ordinal = pt_ordinal p, me_offset = w, me_length = word_of_int (pt_length p),
      me_digest = pt_digest p\<rparr> # entries_of (w + word_of_int (pt_length p)) ps"

lemma entries_of_simps [simp]:
  "length (entries_of w ps) = length ps"
  "map me_digest (entries_of w ps) = map pt_digest ps"
  "map me_ordinal (entries_of w ps) = map pt_ordinal ps"
  by (induction w ps rule: entries_of.induct) simp_all

lemma build_manifest_entries:
  assumes "build_manifest c ps k w m = Inr (m', w')"
  shows "m' = m @ entries_of w ps \<and> (\<forall>p\<in>set ps. (word_of_int (pt_length p) :: u64) \<le> c) \<and>
    map pt_ordinal ps = map (\<lambda>i. k + int i) [0..<length ps] \<and>
    w' = w + sum_list (map (\<lambda>p. word_of_int (pt_length p)) ps)"
  using assms
proof (induction c ps k w m rule: build_manifest.induct)
  case (2 c p ps k w m)
  have up: "[0..<Suc n] = 0 # map Suc [0..<n]" for n by (simp add: upt_conv_Cons map_Suc_upt)
  from 2 show ?case
    by (auto simp: Let_def up comp_def add.assoc simp del: upt_Suc split: if_splits)
qed simp

lemma stored_entries:
  assumes "\<forall>p\<in>set ps. get (pt_digest p) = Some (f p) \<and> pt_length p = int (length (f p))"
    and "unat w + sum_list (map (\<lambda>p. length (f p)) ps) < 2 ^ 64"
  shows "stored_manifest get (unat w) (entries_of w ps) (map f ps) \<and>
    unat (w + sum_list (map (\<lambda>p. word_of_int (pt_length p)) ps)) =
      unat w + sum_list (map (\<lambda>p. length (f p)) ps)"
  using assms
proof (induction w ps rule: entries_of.induct)
  case (2 w p ps)
  have p: "pt_length p = int (length (f p))" using 2(2) by simp
  have len: "unat (of_nat (length (f p)) :: u64) = length (f p)" using 2(3) by (simp add: unat_of_nat)
  have w: "unat (w + of_nat (length (f p))) = unat w + length (f p)"
    using 2(3) len by (subst unat_add_lem [THEN iffD1]) simp_all
  have "stored_manifest get (unat (w + word_of_int (pt_length p)))
      (entries_of (w + word_of_int (pt_length p)) ps) (map f ps) \<and>
    unat (w + word_of_int (pt_length p) + sum_list (map (\<lambda>p. word_of_int (pt_length p)) ps)) =
      unat (w + word_of_int (pt_length p)) + sum_list (map (\<lambda>p. length (f p)) ps)"
    by (rule 2(1)) (use 2(2,3) p w in simp_all)
  then show ?case using 2(2) p len w by (simp add: add.assoc)
qed simp

lemma stream_concat:
  assumes "stream_chunks get es = Inr data" and "stored_manifest stored pos es ds"
    and "\<And>e b. e \<in> set es \<Longrightarrow> get (me_digest e) = Inr b \<Longrightarrow> stored (me_digest e) = Some b"
  shows "data = concat ds"
  using assms
proof (induction es arbitrary: data pos ds)
  case (Cons e es)
  then obtain b rest where b: "get (me_digest e) = Inr b" "stream_chunks get es = Inr rest" "data = b @ rest"
    by (auto simp: rbind_eq_Inr)
  moreover obtain ds' where "ds = b # ds'" "stored_manifest stored (pos + length b) es ds'"
    using Cons(3) Cons(4) [of e b] b(1) by auto
  ultimately show ?case using Cons(1) [OF b(2)] Cons(4) by auto
qed simp

text \<open>A chunk that can be read in full is the stored content.\<close>

lemma get_content:
  assumes "chunk_store_get env fs d = Inr out" and "sha_ok sha" and "fs_ok sha fs" and "digest_key d"
  shows "content fs d = Some out"
proof -
  have two: "2 \<le> length d" using digest_key_length [OF assms(4)] by simp
  have rel: "relative_path d = Inr (chunk_path_of d)"
    using relative_path_value assms(4) by (simp add: digest_key_def)
  have "map_of (chunk_files fs) (chunk_path_of d) \<noteq> None"
  proof
    assume "map_of (chunk_files fs) (chunk_path_of d) = None"
    then show False
      using assms(1,4) rel
      by (simp add: chunk_store_get_def chunk_store_get_range_def digest_key_def throw_error_def Let_def)
  qed
  then obtain data where c: "content fs d = Some data" by (auto simp: content_def)
  note f = fs_ok_content [OF assms(2,3) c two]
  have n: "unat (of_nat (length data) :: u64) = length data" using f(3) by (simp add: unat_of_nat)
  have rem: "(of_nat (length data) :: u64) < SIZE_MAX"
    using f(3) n
    by (simp add: word_less_nat_alt SIZE_MAX_def unsigned_minus_1_eq_mask mask_eq_exp_minus_1)
  have "out = data"
    using assms(1,4) rel rem n f(1)
    by (simp add: chunk_store_get_def chunk_store_get_range_def digest_key_def throw_error_def Let_def
        parse_store_header chunk_file_def kChunkHeaderSize_def split: if_splits)
  with c show ?thesis by simp
qed

section \<open>The length of a session\<close>

lemma chunk_count_bound:
  "unat (chunk_count_of session) * unat (si_chunk_size session) < 2 ^ 64"
proof -
  let ?y = "si_expected_size session + si_chunk_size session - 1"
  have "unat (?y div si_chunk_size session) * unat (si_chunk_size session) \<le> unat ?y"
    by (simp add: unat_div)
  also have "\<dots> < 2 ^ 64" using unsigned_less [of ?y] by simp
  finally show ?thesis by (simp add: chunk_count_of_def)
qed

lemma sum_list_le: "\<forall>x\<in>set xs. f x \<le> (c :: nat) \<Longrightarrow> sum_list (map f xs) \<le> length xs * c"
  by (induction xs) auto

text \<open>What the checks on the parts establish.\<close>

lemma check_parts_spec:
  assumes ok: "check_parts session ps = Inr m"
    and stored: "\<forall>p\<in>set ps. get (pt_digest p) = Some (f p) \<and> pt_length p = int (length (f p)) \<and>
        length (f p) < 2 ^ 63"
    and ords: "\<forall>p\<in>set ps. pt_ordinal p < 2 ^ 63"
  shows "m = entries_of 0 ps" and "stored_manifest get 0 m (map f ps)"
    and "map me_ordinal m = map int [0..<length ps]"
    and "unat (si_expected_size session) = length (concat (map f ps))"
    and "of_nat (length ps) = chunk_count_of session"
proof -
  obtain w where b: "build_manifest (si_chunk_size session) ps 0 0 [] = Inr (m, w)"
    and n: "(of_nat (length m) :: u64) = chunk_count_of session" and w: "w = si_expected_size session"
    using ok by (auto simp: check_parts_def split: sum.splits if_splits)
  note e = build_manifest_entries [OF b]
  show m: "m = entries_of 0 ps" using e by simp
  have o: "map pt_ordinal ps = map int [0..<length ps]" using e by simp
  then show "map me_ordinal m = map int [0..<length ps]" using m by simp
  show "of_nat (length ps) = chunk_count_of session" using n m by simp
  have "length ps < 2 ^ 64"
  proof (cases ps rule: rev_cases)
    case (snoc qs p)
    have "pt_ordinal p = int (length qs)" using o snoc by simp
    then have "int (length qs) < 2 ^ 63" using ords snoc by simp
    then show ?thesis using snoc by simp
  qed simp
  then have count: "length ps = unat (chunk_count_of session)"
    using arg_cong [OF n, of unat] m by (simp add: unat_of_nat)
  have "\<forall>p\<in>set ps. length (f p) \<le> unat (si_chunk_size session)"
  proof
    fix p assume p: "p \<in> set ps"
    then have "unat (word_of_int (pt_length p) :: u64) \<le> unat (si_chunk_size session)"
      using e by (simp add: word_le_nat_alt)
    then show "length (f p) \<le> unat (si_chunk_size session)"
      using stored p by (force simp: unat_of_nat)
  qed
  then have "sum_list (map (\<lambda>p. length (f p)) ps) \<le> length ps * unat (si_chunk_size session)"
    by (rule sum_list_le)
  then have small: "sum_list (map (\<lambda>p. length (f p)) ps) < 2 ^ 64"
    using chunk_count_bound [of session] count by simp
  have s: "stored_manifest get (unat (0 :: u64)) (entries_of 0 ps) (map f ps) \<and>
    unat ((0 :: u64) + sum_list (map (\<lambda>p. word_of_int (pt_length p)) ps)) =
      unat (0 :: u64) + sum_list (map (\<lambda>p. length (f p)) ps)"
    by (rule stored_entries) (use stored small in simp_all)
  then show "stored_manifest get 0 m (map f ps)" using m by simp
  have "length (concat (map f ps)) = sum_list (map (\<lambda>p. length (f p)) ps)"
    by (simp add: length_concat comp_def)
  then show "unat (si_expected_size session) = length (concat (map f ps))"
    using s w e by simp
qed

section \<open>The publishing transaction\<close>

definition chunk_row_of :: "int \<Rightarrow> ManifestEntry \<Rightarrow> artifact_chunk_row" where
  "chunk_row_of i e =
     \<lparr>ac_artifact_id = i, ac_ordinal = me_ordinal e, ac_byte_offset = sint (me_offset e),
      ac_length = sint (me_length e), ac_digest = me_digest e\<rparr>"

definition artifact_row_of :: "int \<Rightarrow> SessionInfo \<Rightarrow> int \<Rightarrow> artifact_row" where
  "artifact_row_of i session now =
     \<lparr>ar_id = i, ar_namespace = si_ns session, ar_name = si_name session,
      ar_version = si_version session, ar_size = sint (si_expected_size session),
      ar_digest = si_expected_digest session, ar_chunk_size = sint (si_chunk_size session),
      ar_creator = si_owner session, ar_created_at = now, ar_note = None\<rparr>"

text \<open>The database with a new artifact and its chunks.\<close>

definition with_artifact :: "SessionInfo \<Rightarrow> ManifestEntry list \<Rightarrow> int \<Rightarrow> database \<Rightarrow> database" where
  "with_artifact session m now db =
     (let i = db_artifact_seq db + 1
      in db\<lparr>db_artifact := db_artifact db @ [artifact_row_of i session now], db_artifact_seq := i,
            db_artifact_chunk := db_artifact_chunk db @ map (chunk_row_of i) m\<rparr>)"

lemma read_chunk_row_of [simp]: "read_chunk_row (chunk_row_of i e) = e"
  by (cases e) (simp add: read_chunk_row_def chunk_row_of_def)

lemma publish_entries:
  assumes "list_ex (\<lambda>a. ar_id a = i) (db_artifact (sdb s))"
    and "\<forall>e\<in>set m. \<forall>c\<in>set (db_artifact_chunk (sdb s)). ac_artifact_id c = i \<longrightarrow> ac_ordinal c \<noteq> me_ordinal e"
    and "distinct (map me_ordinal m)"
    and "\<forall>e\<in>set m. reactivate (me_digest e) (sdb s) = sdb s"
  shows "op_for (publish_entry i) m s =
    (Inr (), s\<lparr>sdb := (sdb s)\<lparr>db_artifact_chunk := db_artifact_chunk (sdb s) @ map (chunk_row_of i) m\<rparr>\<rparr>)"
  using assms
proof (induction m arbitrary: s)
  case (Cons e m)
  let ?s = "s\<lparr>sdb := (sdb s)\<lparr>db_artifact_chunk := db_artifact_chunk (sdb s) @ [chunk_row_of i e]\<rparr>\<rparr>"
  have "publish_entry i e s = (Inr (), ?s)"
    using Cons(2-5)
    by (auto simp: publish_entry_def exec_def insert_artifact_chunk_def Let_def list_ex_iff chunk_row_of_def)
  moreover have "reactivate d (db\<lparr>db_artifact_chunk := cs\<rparr>) = (reactivate d db)\<lparr>db_artifact_chunk := cs\<rparr>" for d db cs
    by (simp add: reactivate_def)
  then have "op_for (publish_entry i) m ?s =
    (Inr (), ?s\<lparr>sdb := (sdb ?s)\<lparr>db_artifact_chunk := db_artifact_chunk (sdb ?s) @ map (chunk_row_of i) m\<rparr>\<rparr>)"
    by (intro Cons(1)) (use Cons(2-5) in \<open>auto simp: chunk_row_of_def\<close>)
  ultimately show ?case by simp
qed (simp)

lemma chunk_row_key:
  assumes "keys_ok db" and "c \<in> set (db_artifact_chunk db)"
  shows "ac_artifact_id c \<le> db_artifact_seq db"
proof -
  have "ac_artifact_id c \<in> ar_id ` set (db_artifact db)" using assms by (simp add: keys_ok_def)
  then obtain a where "ac_artifact_id c = ar_id a" "a \<in> set (db_artifact db)" by (rule imageE)
  with assms(1) show ?thesis by (simp add: keys_ok_def)
qed

lemma publish_ok:
  assumes "keys_ok (sdb s)" and "\<forall>e\<in>set m. active (sdb s) (me_digest e)"
    and "\<not> artifact_exists (si_ns session) (si_name session) (si_version session) (sdb s)"
    and "distinct (map me_ordinal m)"
  shows "publish sid session m now s =
    (Inr (), s\<lparr>sdb := set_completed sid (with_artifact session m now (sdb s))\<rparr>)"
proof -
  let ?db = "sdb s" and ?i = "db_artifact_seq (sdb s) + 1"
  let ?s = "s\<lparr>sdb := ?db\<lparr>db_artifact := db_artifact ?db @ [artifact_row_of ?i session now],
      db_artifact_seq := ?i\<rparr>\<rparr>"
  have fresh: "ac_artifact_id c \<noteq> ?i" if "c \<in> set (db_artifact_chunk ?db)" for c
    using chunk_row_key [OF assms(1) that] by simp
  have re: "reactivate d (sdb ?s) = sdb ?s" if "active ?db d" for d
    using arg_cong [OF reactivate_active [OF assms(1) that], of db_chunk]
    by (cases "sdb s") (simp add: reactivate_def)
  have "insert_artifact (artifact_row_of 0 session now) s = (Inr ?i, ?s)"
    using assms(3)
    by (simp add: insert_artifact_def artifact_exists_def artifact_row_of_def Let_def)
  moreover have "op_for (publish_entry ?i) m ?s =
    (Inr (), ?s\<lparr>sdb := (sdb ?s)\<lparr>db_artifact_chunk := db_artifact_chunk (sdb ?s) @ map (chunk_row_of ?i) m\<rparr>\<rparr>)"
    by (rule publish_entries) (use assms(2,4) fresh re in \<open>simp_all add: artifact_row_of_def\<close>)
  ultimately show ?thesis
    by (simp add: publish_def tx_def exec_def artifact_row_of_def [symmetric] with_artifact_def Let_def)
qed

lemma sorted_ordinals:
  assumes "map ac_ordinal rows = map int [0..<n]" shows "sort_key ac_ordinal rows = rows"
proof -
  have "sorted (map int [0..<n])" by (simp add: sorted_map sorted_wrt_mono_rel [OF _ sorted_wrt_upt])
  with assms have "sorted (map ac_ordinal rows)" by simp
  then show ?thesis by (rule sort_key_id_if_sorted)
qed

lemma artifact_chunks_new:
  assumes "keys_ok db" and "map me_ordinal m = map int [0..<n]"
  shows "artifact_chunks (db_artifact_seq db + 1) (with_artifact session m now db) =
    map (chunk_row_of (db_artifact_seq db + 1)) m"
proof -
  let ?i = "db_artifact_seq db + 1"
  have "filter (\<lambda>c. ac_artifact_id c = ?i) (db_artifact_chunk db) = []"
    using chunk_row_key [OF assms(1)] by (force simp: filter_empty_conv)
  moreover have "filter (\<lambda>c. ac_artifact_id c = ?i) (map (chunk_row_of ?i) m) = map (chunk_row_of ?i) m"
    by (simp add: filter_id_conv chunk_row_of_def)
  moreover have o: "map ac_ordinal (map (chunk_row_of ?i) m) = map int [0..<n]"
    using assms(2) by (simp add: comp_def chunk_row_of_def)
  ultimately show ?thesis
    using sorted_ordinals [OF o] by (simp add: artifact_chunks_def with_artifact_def Let_def)
qed

lemma inv_with_artifact:
  assumes i: "inv sha db fs" and act: "\<forall>e\<in>set m. active db (me_digest e)"
    and new: "\<not> artifact_exists (si_ns session) (si_name session) (si_version session) db"
    and st: "stored_manifest (content fs) 0 m ds" and ords: "map me_ordinal m = map int [0..<length ds]"
    and size: "unat (si_expected_size session) = length (concat ds)"
    and dig: "sha256_to_hex (sha (concat ds)) = si_expected_digest session"
  shows "inv sha (with_artifact session m now db) fs"
proof -
  let ?db = "with_artifact session m now db" and ?i = "db_artifact_seq db + 1"
  have k: "keys_ok db" using i by (simp add: inv_def)
  have same: "db_session ?db = db_session db" "db_part ?db = db_part db" "db_chunk ?db = db_chunk db"
    "db_artifact_seq ?db = ?i" "db_artifact ?db = db_artifact db @ [artifact_row_of ?i session now]"
    "db_artifact_chunk ?db = db_artifact_chunk db @ map (chunk_row_of ?i) m"
    by (simp_all add: with_artifact_def Let_def)
  have fresh: "ar_id a \<noteq> ?i" if "a \<in> set (db_artifact db)" for a using k that by (auto simp: keys_ok_def)
  have "keys_ok ?db"
    using k new fresh unfolding keys_ok_def same
    by (auto simp: artifact_row_of_def chunk_row_of_def artifact_exists_def list_ex_iff)
  moreover have "states_ok ?db" using i same by (simp add: inv_def states_ok_def)
  moreover have "refs_ok ?db"
  proof -
    have "chunk_referenced ?db d \<Longrightarrow> chunk_referenced db d \<or> (\<exists>e\<in>set m. me_digest e = d)" for d
      using same by (auto simp: chunk_referenced_iff chunk_row_of_def)
    moreover have "active ?db d = active db d" for d using same by (simp add: active_def)
    ultimately show ?thesis using i act unfolding inv_def refs_ok_def by blast
  qed
  moreover have "files_ok ?db fs" using i same by (simp add: inv_def files_ok_def)
  moreover have "parts_ok ?db fs" using i same by (simp add: inv_def parts_ok_def)
  moreover have "artifacts_ok sha ?db fs"
    unfolding artifacts_ok_def
  proof
    fix a assume "a \<in> set (db_artifact ?db)"
    then consider (old) "a \<in> set (db_artifact db)" | (new) "a = artifact_row_of ?i session now"
      using same by auto
    then show "\<exists>ds. artifact_complete sha ?db fs a ds"
    proof cases
      case old
      have "filter (\<lambda>c. ac_artifact_id c = ar_id a) (map (chunk_row_of ?i) m) = []"
        using fresh [OF old] by (simp add: filter_empty_conv chunk_row_of_def)
      then have "artifact_chunks (ar_id a) ?db = artifact_chunks (ar_id a) db"
        using same by (simp add: artifact_chunks_def)
      with old i show ?thesis by (simp add: inv_def artifacts_ok_def artifact_complete_def)
    next
      case new
      have c: "artifact_chunks ?i ?db = map (chunk_row_of ?i) m" by (rule artifact_chunks_new [OF k ords])
      have o: "map ac_ordinal (map (chunk_row_of ?i) m) = map int [0..<length ds]"
        using ords by (simp add: comp_def chunk_row_of_def)
      have "artifact_complete sha ?db fs a ds"
        using st size dig o new c by (simp add: artifact_complete_def artifact_row_of_def comp_def)
      then show ?thesis ..
    qed
  qed
  ultimately show ?thesis using i by (simp add: inv_def)
qed

lemma set_completed_eq: "set_completed sid db = set_state (\<lambda>r. ss_id r = sid) ''COMPLETED'' db"
  by (simp add: set_completed_def set_state_def)

section \<open>Committing\<close>

text \<open>The state with the session put back to \<open>OPEN\<close>, and the state with the artifact.\<close>

definition reopened :: "string \<Rightarrow> storage \<Rightarrow> storage" where
  "reopened sid s =
     s\<lparr>sdb := set_state (\<lambda>r. ss_id r = sid \<and> ss_state r = ''COMMITTING'') ''OPEN'' (sdb s)\<rparr>"

definition published :: "string \<Rightarrow> SessionInfo \<Rightarrow> ManifestEntry list \<Rightarrow> int \<Rightarrow> storage \<Rightarrow> storage" where
  "published sid session m now s = s\<lparr>sdb := set_completed sid (with_artifact session m now (sdb s))\<rparr>"

definition committed_info :: "SessionInfo \<Rightarrow> ManifestEntry list \<Rightarrow> int \<Rightarrow> ArtifactInfo" where
  "committed_info session m now =
     \<lparr>ai_ns = si_ns session, ai_name = si_name session, ai_version = si_version session,
      ai_size = si_expected_size session, ai_digest = si_expected_digest session,
      ai_chunk_size = si_chunk_size session, ai_creator = si_owner session,
      ai_created_at = now, ai_note = [], ai_chunks = m\<rparr>"

text \<open>What a complete, verified upload is.\<close>

definition verified_upload ::
  "(bytes \<Rightarrow> bytes) \<Rightarrow> SessionInfo \<Rightarrow> ManifestEntry list \<Rightarrow> bytes list \<Rightarrow> storage \<Rightarrow> bool" where
  "verified_upload sha session m ds s =
     (stored_manifest (content (sfs s)) 0 m ds \<and>
      map me_ordinal m = map int [0..<length ds] \<and>
      of_nat (length ds) = chunk_count_of session \<and>
      unat (si_expected_size session) = length (concat ds) \<and>
      sha256_to_hex (sha (concat ds)) = si_expected_digest session \<and>
      (\<forall>e\<in>set m. active (sdb s) (me_digest e)) \<and>
      \<not> artifact_exists (si_ns session) (si_name session) (si_version session) (sdb s))"

lemma rollback_throw_eq: "rollback_throw sid e s = (Inl e, reopened sid s)"
  using transition_eq [of COMMITTING "''COMMITTING''" OPEN "''OPEN''" sid s]
  by (simp add: rollback_throw_def reopened_def op_lift_def)

lemma session_parts_set:
  "set (session_parts sid db) = {p \<in> set (db_part db). pt_session_id p = sid}"
  by (simp add: session_parts_def)

lemma commit_checked_cases:
  assumes r: "commit_checked env sid session s = (r, s')" and s: "storage_inv sha s"
    and env: "env_sha env = sha" "sha_ok sha"
    and row: "row \<in> set (db_session (sdb s))" "ss_id row = sid" "is_live row"
  obtains (nomem) "\<not> env_reserve env (chunk_count_of session)" "r = Inl (StdExc ''std::bad_alloc'')" "s' = s"
    | (refused) e where "env_reserve env (chunk_count_of session)" "r = Inl e" "s' = reopened sid s"
    | (published) m ds where "verified_upload sha session m ds s"
        "r = Inr (committed_info session m (env_now env))" "s' = published sid session m (env_now env) s"
proof (cases "env_reserve env (chunk_count_of session)")
  case False
  with r nomem show ?thesis by (auto simp: commit_checked_def)
next
  case mem: True
  let ?ps = "session_parts sid (sdb s)" and ?f = "\<lambda>p. the (content (sfs s) (pt_digest p))"
  have i: "inv sha (sdb s) (sfs s)" using s by (simp add: storage_inv_def)
  have ref: "chunk_referenced (sdb s) (pt_digest p)" if "p \<in> set ?ps" for p
    using that row by (auto simp: chunk_referenced_iff session_parts_set)
  have stored: "\<forall>p\<in>set ?ps. content (sfs s) (pt_digest p) = Some (?f p) \<and>
      pt_length p = int (length (?f p)) \<and> length (?f p) < 2 ^ 63"
  proof
    fix p assume p: "p \<in> set ?ps"
    then obtain data where d: "content (sfs s) (pt_digest p) = Some data" "pt_length p = int (length data)"
      using i row unfolding inv_def parts_ok_def session_parts_set by blast
    moreover have "length data < 2 ^ 63"
      using fs_ok_content(3) [OF env(2) _ d(1) referenced_two [OF i ref [OF p]]] i by (simp add: inv_def)
    ultimately show "content (sfs s) (pt_digest p) = Some (?f p) \<and>
        pt_length p = int (length (?f p)) \<and> length (?f p) < 2 ^ 63" by simp
  qed
  have ords: "\<forall>p\<in>set ?ps. pt_ordinal p < 2 ^ 63"
    using i by (simp add: inv_def parts_ok_def session_parts_set)
  show ?thesis
  proof (cases "check_parts session ?ps")
    case (Inl reason)
    with r mem refused show ?thesis by (auto simp: commit_checked_def rollback_throw_eq)
  next
    case (Inr m)
    note c = check_parts_spec [OF Inr stored ords]
    let ?ds = "map ?f ?ps"
    have dig: "me_digest ` set m = pt_digest ` set ?ps"
      using arg_cong [OF entries_of_simps(2) [of 0 ?ps], of set] by (simp only: list.set_map c(1))
    have ent: "\<exists>p\<in>set ?ps. me_digest e = pt_digest p" if "e \<in> set m" for e
    proof -
      have "me_digest e \<in> pt_digest ` set ?ps" unfolding dig [symmetric] using that by (rule imageI)
      then obtain p where "me_digest e = pt_digest p" "p \<in> set ?ps" by (rule imageE)
      then show ?thesis by blast
    qed
    show ?thesis
    proof (cases "stream_chunks (chunk_store_get (env_io env) (sfs s)) m")
      case (Inl e)
      with r mem Inr refused show ?thesis by (auto simp: commit_checked_def rollback_throw_eq)
    next
      case data: (Inr data)
      have "content (sfs s) (me_digest e) = Some b"
        if e: "e \<in> set m" and b: "chunk_store_get (env_io env) (sfs s) (me_digest e) = Inr b" for e b
      proof -
        obtain p where "p \<in> set ?ps" "me_digest e = pt_digest p" using ent [OF e] by (rule bexE)
        then show ?thesis
          using get_content [OF b env(2)] i referenced_key [OF i ref, of p] by (simp add: inv_def)
      qed
      then have concat: "data = concat ?ds" by (rule stream_concat [OF data c(2)])
      have act: "active (sdb s) (me_digest e)" if e: "e \<in> set m" for e
      proof -
        obtain p where "p \<in> set ?ps" "me_digest e = pt_digest p" using ent [OF e] by (rule bexE)
        then show ?thesis using i ref [of p] by (simp add: inv_def refs_ok_def)
      qed
      show ?thesis
      proof (cases "sha256_to_hex (sha data) = si_expected_digest session \<and>
          \<not> artifact_exists (si_ns session) (si_name session) (si_version session) (sdb s)")
        case False
        with r mem Inr data env(1) refused show ?thesis
          by (auto simp: commit_checked_def rollback_throw_eq split: if_splits)
      next
        case True
        have "verified_upload sha session m ?ds s"
          unfolding verified_upload_def using c(2-5) True concat act by simp
        moreover have "publish sid session m (env_now env) s =
            (Inr (), s\<lparr>sdb := set_completed sid (with_artifact session m (env_now env) (sdb s))\<rparr>)"
          by (rule publish_ok) (use i act True c(3) in \<open>simp_all add: inv_def distinct_map\<close>)
        then have "r = Inr (committed_info session m (env_now env)) \<and> s' = published sid session m (env_now env) s"
          using r mem Inr data env(1) True
          by (simp add: commit_checked_def op_return_def committed_info_def published_def)
        ultimately show ?thesis using published by blast
      qed
    qed
  qed
qed

lemma inv_reopened:
  assumes "storage_inv sha s" shows "storage_inv sha (reopened sid s)"
proof -
  have "inv sha (set_state (\<lambda>r. ss_id r = sid \<and> ss_state r = ''COMMITTING'') ''OPEN'' (sdb s)) (sfs s)"
    by (rule inv_set_state) (use assms in \<open>simp_all add: storage_inv_def state_texts_def is_live_def\<close>)
  then show ?thesis by (simp add: reopened_def storage_inv_def)
qed

lemma inv_published:
  assumes "storage_inv sha s" and "verified_upload sha session m ds s"
  shows "storage_inv sha (published sid session m now s)"
proof -
  have "inv sha (with_artifact session m now (sdb s)) (sfs s)"
    by (rule inv_with_artifact [of _ _ _ _ _ ds])
      (use assms in \<open>simp_all add: storage_inv_def verified_upload_def\<close>)
  then have "inv sha (set_state (\<lambda>r. ss_id r = sid) ''COMPLETED'' (with_artifact session m now (sdb s))) (sfs s)"
    by (rule inv_set_state) (simp_all add: state_texts_def)
  then show ?thesis by (simp add: published_def storage_inv_def set_completed_eq)
qed

section \<open>The whole operation\<close>

lemma mark_unreferenced_tables [simp]:
  "db_session (mark_unreferenced now ds db) = db_session db"
  "db_part (mark_unreferenced now ds db) = db_part db"
  "db_artifact (mark_unreferenced now ds db) = db_artifact db"
  "db_artifact_chunk (mark_unreferenced now ds db) = db_artifact_chunk db"
  by (induction ds arbitrary: db) (simp_all add: mark_pending_def)

lemma mark_unreferenced_parts_tables [simp]:
  "db_session (mark_unreferenced_parts sid now db) = db_session db"
  "db_artifact (mark_unreferenced_parts sid now db) = db_artifact db"
  "db_artifact_chunk (mark_unreferenced_parts sid now db) = db_artifact_chunk db"
  by (simp_all add: mark_unreferenced_parts_def Let_def delete_parts_def)

lemma set_state_tables [simp]:
  "db_part (set_state p t db) = db_part db" "db_chunk (set_state p t db) = db_chunk db"
  "db_artifact (set_state p t db) = db_artifact db"
  "db_artifact_chunk (set_state p t db) = db_artifact_chunk db"
  by (simp_all add: set_state_def)

lemma expire_tables [simp]:
  "db_artifact (expire_session_if_due session now db) = db_artifact db"
  "db_artifact_chunk (expire_session_if_due session now db) = db_artifact_chunk db"
  by (simp_all add: expire_session_if_due_def)

lemma expire_session_rows:
  "db_session (expire_session_if_due session now db) =
    (if si_state session = OPEN \<and> si_expires_at session \<le> now
     then db_session (set_state (\<lambda>r. ss_id r = si_id session \<and> ss_state r = ''OPEN'') ''EXPIRED'' db)
     else db_session db)"
  by (simp add: expire_session_if_due_def set_state_def)

text \<open>The row of a session.\<close>

lemma load_session_row:
  assumes "load_session sid db = Inr session"
  obtains row where "row \<in> set (db_session db)" "ss_id row = sid" "read_session_row row = Inr session"
  using assms select_one_Some [of "\<lambda>r. ss_id r = sid" "db_session db"]
  by (auto simp: load_session_def throw_error_def split: option.splits)

lemma load_session_of_row:
  assumes "distinct (map ss_id (db_session db))" and "row \<in> set (db_session db)" and "ss_id row = sid"
  shows "load_session sid db = read_session_row row"
  using select_one_unique [OF assms(1,2)] assms(3) by (simp add: load_session_def)

lemma read_session_row_state:
  "read_session_row row = Inr session \<Longrightarrow>
   si_id session = ss_id row \<and> state_to_text (si_state session) = Inr (ss_state row)"
  by (auto simp: read_session_row_def rbind_eq_Inr intro: state_to_from_text)

lemma read_session_row_set_state:
  assumes "read_session_row row = Inr session" and "state_from_text t = Inr st"
  shows "read_session_row (row\<lparr>ss_state := t\<rparr>) = Inr (session\<lparr>si_state := st\<rparr>)"
  using assms by (auto simp: read_session_row_def rbind_eq_Inr)

lemma load_session_set_state:
  assumes "distinct (map ss_id (db_session db))" and "load_session sid db = Inr session"
    and "state_to_text (si_state session) = Inr f" and "state_from_text t = Inr st"
  shows "load_session sid (set_state (\<lambda>r. ss_id r = sid \<and> ss_state r = f) t db) =
    Inr (session\<lparr>si_state := st\<rparr>)"
proof -
  let ?p = "\<lambda>r. ss_id r = sid \<and> ss_state r = f" and ?f = "\<lambda>r. r\<lparr>ss_state := t\<rparr>"
  obtain row where row: "row \<in> set (db_session db)" "ss_id row = sid" "read_session_row row = Inr session"
    by (rule load_session_row [OF assms(2)])
  have "ss_state row = f" using read_session_row_state [OF row(3)] assms(3) by simp
  then have "?f row \<in> set (db_session (set_state ?p t db))"
    using row by (auto simp: set_state_def set_update_where)
  moreover have "distinct (map ss_id (db_session (set_state ?p t db)))"
    using assms(1) by (simp add: set_state_def map_update_where)
  ultimately have "load_session sid (set_state ?p t db) = read_session_row (?f row)"
    using row(2) by (intro load_session_of_row) simp_all
  also have "\<dots> = Inr (session\<lparr>si_state := st\<rparr>)" by (rule read_session_row_set_state [OF row(3) assms(4)])
  finally show ?thesis .
qed

lemma set_state_none:
  assumes "\<And>r. r \<in> set (db_session db) \<Longrightarrow> \<not> p r" shows "set_state p t db = db"
proof -
  have "update_where p (\<lambda>r. r\<lparr>ss_state := t\<rparr>) (db_session db) = db_session db"
    unfolding update_where_def using assms by (intro map_idI) simp
  then show ?thesis by (simp add: set_state_def)
qed

text \<open>After the lookup: what \<open>expire_session_if_due\<close> and the transition find.\<close>

lemma session_text:
  assumes "distinct (map ss_id (db_session db))" and "load_session sid db = Inr session"
    and "r \<in> set (db_session db)" and "ss_id r = sid"
  shows "state_to_text (si_state session) = Inr (ss_state r)"
  using load_session_of_row [OF assms(1,3,4)] assms(2) read_session_row_state by simp

definition due :: "SessionInfo \<Rightarrow> int \<Rightarrow> bool" where
  "due session now = (si_state session = OPEN \<and> si_expires_at session \<le> now)"

lemma load_after_expire:
  assumes "distinct (map ss_id (db_session db))" and "load_session sid db = Inr session"
  shows "load_session sid (expire_session_if_due session now db) =
    Inr (if due session now then session\<lparr>si_state := EXPIRED\<rparr> else session)"
proof -
  have sid: "si_id session = sid"
    using load_session_row [OF assms(2)] read_session_row_state by metis
  show ?thesis
  proof (cases "due session now")
    case True
    have "load_session sid (set_state (\<lambda>r. ss_id r = sid \<and> ss_state r = ''OPEN'') ''EXPIRED'' db) =
        Inr (session\<lparr>si_state := EXPIRED\<rparr>)"
      by (rule load_session_set_state [OF assms]) (use True in \<open>simp_all add: due_def state_from_text_def\<close>)
    moreover have "load_session sid (expire_session_if_due session now db) =
        load_session sid (set_state (\<lambda>r. ss_id r = sid \<and> ss_state r = ''OPEN'') ''EXPIRED'' db)"
      using True expire_session_rows [of session now db] sid by (simp add: load_session_def due_def)
    ultimately show ?thesis using True by simp
  next
    case False
    then have "db_session (expire_session_if_due session now db) = db_session db"
      using expire_session_rows [of session now db] by (auto simp: due_def)
    then show ?thesis using False assms(2) by (simp add: load_session_def)
  qed
qed

lemma commit_session_cases:
  assumes r: "commit_session env sid s = (r, s')" and s: "storage_inv sha s"
  obtains (unknown) e where "load_session sid (sdb s) = Inl e" "r = Inl e" "s' = s"
    | (not_open) session msg where "load_session sid (sdb s) = Inr session"
        "si_state session \<noteq> OPEN \<or> due session (env_now env)"
        "r = Inl (Err (if si_state session = EXPIRED \<or> due session (env_now env)
                       then FR_E_EXPIRED else FR_E_STATE) msg)"
        "s' = s\<lparr>sdb := expire_session_if_due session (env_now env) (sdb s)\<rparr>"
    | (checked) session where "load_session sid (sdb s) = Inr session" "si_state session = OPEN"
        "\<not> due session (env_now env)"
        "commit_checked env sid session
           (s\<lparr>sdb := set_state (\<lambda>r. ss_id r = sid \<and> ss_state r = ''OPEN'') ''COMMITTING'' (sdb s)\<rparr>) = (r, s')"
proof (cases "load_session sid (sdb s)")
  case (Inl e)
  have "r = Inl e \<and> s' = s"
    using r Inl by (simp add: commit_session_def op_bind_query Let_def del: op_bind.simps)
  then show ?thesis using unknown [OF Inl] by blast
next
  case (Inr session)
  let ?now = "env_now env"
  let ?db = "expire_session_if_due session ?now (sdb s)"
  let ?p = "\<lambda>r. ss_id r = sid \<and> ss_state r = ''OPEN''"
  have d0: "distinct (map ss_id (db_session (sdb s)))"
    using s by (simp add: storage_inv_def inv_def keys_ok_def)
  have d1: "distinct (map ss_id (db_session ?db))"
    using inv_expire [of sha "sdb s" "sfs s" session ?now] s
    by (simp add: storage_inv_def inv_def keys_ok_def)
  note l1 = load_after_expire [OF d0 Inr, of ?now]
  let ?session = "if due session ?now then session\<lparr>si_state := EXPIRED\<rparr> else session"
  have t: "transition sid OPEN COMMITTING (s\<lparr>sdb := ?db\<rparr>) =
      (Inr (\<exists>r\<in>set (db_session ?db). ?p r), s\<lparr>sdb := set_state ?p ''COMMITTING'' ?db\<rparr>)"
    using transition_eq [of OPEN "''OPEN''" COMMITTING "''COMMITTING''" sid "s\<lparr>sdb := ?db\<rparr>"] by simp
  have open_iff: "ss_state r = ''OPEN'' \<longleftrightarrow> si_state ?session = OPEN"
    if "r \<in> set (db_session ?db)" "ss_id r = sid" for r
    using session_text [OF d1 l1 that] by (cases "si_state ?session") (auto simp: throw_error_def)
  show ?thesis
  proof (cases "si_state session = OPEN \<and> \<not> due session ?now")
    case True
    then have same: "?db = sdb s" by (auto simp: expire_session_if_due_def due_def)
    obtain row where "row \<in> set (db_session ?db)" "ss_id row = sid"
      using load_session_row [OF l1] by blast
    with open_iff True have "\<exists>r\<in>set (db_session ?db). ?p r" by auto
    then have "commit_checked env sid session
        (s\<lparr>sdb := set_state ?p ''COMMITTING'' (sdb s)\<rparr>) = (r, s')"
      using r Inr t unfolding same commit_session_def Let_def op_bind_query op_bind_exec
      by (simp add: op_bind_exec same)
    with Inr True checked show ?thesis by blast
  next
    case False
    then have "si_state ?session \<noteq> OPEN" by auto
    then have none: "\<not> ?p r" if "r \<in> set (db_session ?db)" for r using open_iff that by blast
    then have ex: "\<not> (\<exists>r\<in>set (db_session ?db). ?p r)" by blast
    have same: "set_state ?p ''COMMITTING'' ?db = ?db" by (rule set_state_none) (use none in blast)
    have "\<exists>msg. r = Inl (Err (if si_state ?session = EXPIRED then FR_E_EXPIRED else FR_E_STATE) msg) \<and>
        s' = s\<lparr>sdb := ?db\<rparr>"
      using r Inr t l1 ex same unfolding commit_session_def Let_def op_bind_query op_bind_exec
      by (auto simp: op_bind_exec op_throw_def throw_error_def query_def split: if_splits)
    with Inr False not_open show ?thesis by (auto split: if_splits)
  qed
qed

lemma show_published:
  assumes "storage_inv sha s" and v: "verified_upload sha session m ds s"
  shows "show_artifact (si_ns session) (si_name session) (si_version session)
      (sdb (published sid session m now s)) = Inr (committed_info session m now)"
proof -
  let ?i = "db_artifact_seq (sdb s) + 1" and ?db = "sdb (published sid session m now s)"
  let ?a = "artifact_row_of ?i session now"
  have k: "keys_ok (sdb s)" using assms(1) by (simp add: storage_inv_def inv_def)
  have same: "db_artifact ?db = db_artifact (with_artifact session m now (sdb s))"
    "db_artifact_chunk ?db = db_artifact_chunk (with_artifact session m now (sdb s))"
    by (simp_all add: published_def set_completed_def)
  have chunks: "artifact_chunks ?i ?db = map (chunk_row_of ?i) m"
    using artifact_chunks_new [OF k, of m] v same(2)
    by (simp add: verified_upload_def artifact_chunks_def)
  have "distinct (map (\<lambda>a. (ar_namespace a, ar_name a, ar_version a)) (db_artifact ?db))"
    using inv_published [OF assms] by (simp add: storage_inv_def inv_def keys_ok_def)
  moreover have "?a \<in> set (db_artifact ?db)" by (simp add: same with_artifact_def Let_def)
  ultimately have "select_artifact (si_ns session) (si_name session) (si_version session) ?db = Some ?a"
    using select_one_unique [of "\<lambda>a. (ar_namespace a, ar_name a, ar_version a)" "db_artifact ?db" ?a]
    by (simp add: select_artifact_def artifact_row_of_def)
  then show ?thesis
    using chunks
    by (simp add: show_artifact_def read_artifact_row_def artifact_row_of_def committed_info_def comp_def)
qed

lemma load_set_completed:
  assumes "distinct (map ss_id (db_session db))" and "load_session sid db = Inr session"
    and "db_session db' = db_session db"
  shows "load_session sid (set_completed sid db') = Inr (session\<lparr>si_state := COMPLETED\<rparr>)"
proof -
  let ?f = "\<lambda>r. r\<lparr>ss_state := ''COMPLETED''\<rparr>"
  obtain row where row: "row \<in> set (db_session db)" "ss_id row = sid" "read_session_row row = Inr session"
    by (rule load_session_row [OF assms(2)])
  have "?f row \<in> set (db_session (set_completed sid db'))"
    using row assms(3) by (auto simp: set_completed_def set_update_where)
  moreover have "distinct (map ss_id (db_session (set_completed sid db')))"
    using assms(1,3) by (simp add: set_completed_def map_update_where)
  ultimately have "load_session sid (set_completed sid db') = read_session_row (?f row)"
    using row(2) by (intro load_session_of_row) simp_all
  then show ?thesis
    using read_session_row_set_state [OF row(3), of "''COMPLETED''" COMPLETED]
    by (simp add: state_from_text_def)
qed

text \<open>The state in which the checks run.\<close>

definition committing :: "string \<Rightarrow> storage \<Rightarrow> storage" where
  "committing sid s =
     s\<lparr>sdb := set_state (\<lambda>r. ss_id r = sid \<and> ss_state r = ''OPEN'') ''COMMITTING'' (sdb s)\<rparr>"

lemma inv_committing:
  assumes "storage_inv sha s" shows "storage_inv sha (committing sid s)"
proof -
  have "inv sha (set_state (\<lambda>r. ss_id r = sid \<and> ss_state r = ''OPEN'') ''COMMITTING'' (sdb s)) (sfs s)"
    by (rule inv_set_state) (use assms in \<open>simp_all add: storage_inv_def state_texts_def is_live_def\<close>)
  then show ?thesis by (simp add: committing_def storage_inv_def)
qed

lemma load_committing:
  assumes "storage_inv sha s" and "load_session sid (sdb s) = Inr session" and "si_state session = OPEN"
  shows "load_session sid (sdb (committing sid s)) = Inr (session\<lparr>si_state := COMMITTING\<rparr>)"
  using load_session_set_state [of "sdb s" sid session "''OPEN''" "''COMMITTING''" COMMITTING] assms
  by (simp add: committing_def storage_inv_def inv_def keys_ok_def state_from_text_def)

lemma load_reopened:
  assumes "storage_inv sha s" and "load_session sid (sdb s) = Inr session" and "si_state session = COMMITTING"
  shows "load_session sid (sdb (reopened sid s)) = Inr (session\<lparr>si_state := OPEN\<rparr>)"
  using load_session_set_state [of "sdb s" sid session "''COMMITTING''" "''OPEN''" OPEN] assms
  by (simp add: reopened_def storage_inv_def inv_def keys_ok_def state_from_text_def)

lemma commit_checked_outcome:
  assumes "commit_checked env sid session (committing sid s) = (r, s')" and s: "storage_inv sha s"
    and env: "env_sha env = sha" "sha_ok sha"
    and l: "load_session sid (sdb s) = Inr session" "si_state session = OPEN"
  obtains (nomem) "\<not> env_reserve env (chunk_count_of session)" "r = Inl (StdExc ''std::bad_alloc'')"
        "s' = committing sid s"
    | (refused) e where "env_reserve env (chunk_count_of session)" "r = Inl e"
        "s' = reopened sid (committing sid s)"
    | (published) m ds where "verified_upload sha session m ds (committing sid s)"
        "r = Inr (committed_info session m (env_now env))"
        "s' = published sid session m (env_now env) (committing sid s)"
proof -
  obtain row where row: "row \<in> set (db_session (sdb (committing sid s)))" "ss_id row = sid"
    "read_session_row row = Inr (session\<lparr>si_state := COMMITTING\<rparr>)"
    by (rule load_session_row [OF load_committing [OF s l]])
  have "is_live row" using read_session_row_state [OF row(3)] by (simp add: is_live_def)
  note * = commit_checked_cases [OF assms(1) inv_committing [OF s] env row(1,2) this]
  show ?thesis using * nomem refused published by metis
qed

lemma inv_commit_session:
  assumes s: "storage_inv sha s" and env: "env_sha env = sha" "sha_ok sha"
  shows "storage_inv sha (snd (commit_session env sid s))"
proof -
  obtain r s' where r: "commit_session env sid s = (r, s')" by (cases "commit_session env sid s")
  have "storage_inv sha s'"
    using r s
  proof (cases rule: commit_session_cases)
    case unknown
    with s show ?thesis by simp
  next
    case not_open
    with s show ?thesis by (simp add: storage_inv_def inv_expire)
  next
    case (checked session)
    note c = checked(4) [folded committing_def]
    show ?thesis
      using c s env checked(1,2)
    proof (cases rule: commit_checked_outcome)
      case nomem
      with inv_committing [OF s] show ?thesis by simp
    next
      case refused
      with inv_reopened [OF inv_committing [OF s]] show ?thesis by simp
    next
      case (published m ds)
      with inv_published [OF inv_committing [OF s]] show ?thesis by simp
    qed
  qed
  with r show ?thesis by simp
qed

section \<open>A concrete store\<close>

text \<open>A store with one open session whose single chunk has been uploaded.\<close>

definition demo_sha :: "bytes \<Rightarrow> bytes" where
  "demo_sha bs = replicate 32 (of_nat (length bs))"

definition demo_digest :: string where
  "demo_digest = sha256_to_hex (replicate 32 2)"

definition demo_session :: session_row where
  "demo_session =
     \<lparr>ss_id = ''s1'', ss_owner = ''alice'', ss_state = ''OPEN'', ss_namespace = ''libs'',
      ss_name = ''zlib'', ss_version = ''1.0'', ss_expected_size = 2,
      ss_expected_digest = demo_digest, ss_chunk_size = 4, ss_created_at = 0, ss_expires_at = 3600\<rparr>"

definition demo_info :: SessionInfo where
  "demo_info =
     \<lparr>si_id = ''s1'', si_owner = ''alice'', si_state = OPEN, si_ns = ''libs'', si_name = ''zlib'',
      si_version = ''1.0'', si_expected_size = 2, si_expected_digest = demo_digest,
      si_chunk_size = 4, si_created_at = 0, si_expires_at = 3600\<rparr>"

definition demo_storage :: storage where
  "demo_storage =
     \<lparr>sdb = empty_database
        \<lparr>db_session := [demo_session],
         db_part := [\<lparr>pt_session_id = ''s1'', pt_ordinal = 0, pt_digest = demo_digest, pt_length = 2\<rparr>],
         db_chunk := [\<lparr>ck_digest = demo_digest, ck_raw_size = 2, ck_stored_size = 2,
                       ck_state = ''ACTIVE'', ck_pending_at = None, ck_created_at = 0\<rparr>]\<rparr>,
      sfs = \<lparr>chunk_files = [(chunk_path_of demo_digest, chunk_file [1, 2])], tmp_files = []\<rparr>,
      id_counter = 1\<rparr>"

definition demo_env :: senv where
  "demo_env = \<lparr>env_now = 10, env_now_ns = 0, env_io = quiet_env, env_sha = demo_sha,
     env_reserve = (\<lambda>n. True)\<rparr>"

lemma demo_sha_ok: "sha_ok demo_sha"
  by (simp add: sha_ok_def demo_sha_def)

lemma demo_digest_sha: "length bs = 2 \<Longrightarrow> sha256_to_hex (demo_sha bs) = demo_digest"
  by (simp add: demo_sha_def demo_digest_def)

lemma demo_digest_key: "digest_key demo_digest"
  using sha_hex [OF demo_sha_ok, of "[1, 2]"] by (simp add: demo_digest_sha digest_key_def)

lemma demo_content: "content (sfs demo_storage) demo_digest = Some [1, 2]"
  by (simp add: content_def demo_storage_def chunk_file_def kChunkHeaderSize_def)

lemma demo_fs_ok: "fs_ok demo_sha (sfs demo_storage)"
proof -
  have "\<exists>data. chunk_file [1, 2] = chunk_file data \<and> length data < 2 ^ 63 \<and>
      chunk_path_of demo_digest = chunk_path_of (sha256_to_hex (demo_sha data))"
    by (intro exI [of _ "[1, 2]"]) (simp add: demo_digest_sha)
  then show ?thesis by (simp add: fs_ok_def demo_storage_def)
qed

lemma demo_inv: "storage_inv demo_sha demo_storage"
proof -
  let ?db = "sdb demo_storage" and ?fs = "sfs demo_storage"
  have tables: "db_artifact ?db = []" "db_artifact_chunk ?db = []" "db_session ?db = [demo_session]"
    by (simp_all add: demo_storage_def empty_database_def)
  have "keys_ok ?db" by (simp add: keys_ok_def demo_storage_def empty_database_def demo_session_def)
  moreover have "states_ok ?db"
    by (simp add: states_ok_def state_texts_def demo_storage_def demo_session_def demo_digest_key)
  moreover have "refs_ok ?db"
    by (simp add: refs_ok_def chunk_referenced_iff active_def tables) (simp add: demo_storage_def)
  moreover have "files_ok ?db ?fs"
    using demo_content by (simp add: files_ok_def) (simp add: demo_storage_def)
  moreover have "parts_ok ?db ?fs"
    using demo_content by (simp add: parts_ok_def tables) (simp add: demo_storage_def)
  moreover have "artifacts_ok demo_sha ?db ?fs" by (simp add: artifacts_ok_def tables)
  ultimately show ?thesis using demo_fs_ok by (simp add: storage_inv_def inv_def)
qed

lemma demo_load: "load_session ''s1'' (sdb demo_storage) = Inr demo_info"
  by (simp add: load_session_def select_one_def read_session_row_def state_from_text_def
      demo_storage_def empty_database_def demo_session_def demo_info_def)

lemma demo_get: "chunk_store_get quiet_env (sfs demo_storage) demo_digest = Inr [1, 2]"
proof -
  have "readable demo_sha quiet_env (sfs demo_storage) demo_digest = Some [1, 2]"
    using demo_content demo_fs_ok demo_sha_ok demo_digest_key
    by (simp add: readable_def reads_ok_def quiet_env_def)
  then show ?thesis unfolding chunk_store_get_def by (rule files.get_whole)
qed

lemma demo_commit:
  "\<exists>s'. commit_session demo_env ''s1'' demo_storage =
     (Inr (committed_info demo_info
        [\<lparr>me_ordinal = 0, me_offset = 0, me_length = 2, me_digest = demo_digest\<rparr>] 10), s')"
proof -
  let ?s = "committing ''s1'' demo_storage"
  have t: "transition ''s1'' OPEN COMMITTING demo_storage = (Inr True, ?s)"
    using transition_eq [of OPEN "''OPEN''" COMMITTING "''COMMITTING''" "''s1''" demo_storage]
    by (simp add: committing_def) (simp add: demo_storage_def demo_session_def empty_database_def)
  have e: "expire_session_if_due demo_info 10 (sdb demo_storage) = sdb demo_storage"
    by (simp add: expire_session_if_due_def demo_info_def)
  have parts: "session_parts ''s1'' (sdb ?s) =
      [\<lparr>pt_session_id = ''s1'', pt_ordinal = 0, pt_digest = demo_digest, pt_length = 2\<rparr>]"
    by (simp add: session_parts_def committing_def) (simp add: demo_storage_def)
  have check: "check_parts demo_info (session_parts ''s1'' (sdb ?s)) =
      Inr [\<lparr>me_ordinal = 0, me_offset = 0, me_length = 2, me_digest = demo_digest\<rparr>]"
    unfolding parts by (simp add: check_parts_def demo_info_def chunk_count_of_def Let_def)
  have files: "sfs ?s = sfs demo_storage" by (simp add: committing_def)
  have noart: "artifact_exists ns name version (sdb ?s) = False" for ns name version
    by (simp add: artifact_exists_def committing_def) (simp add: demo_storage_def empty_database_def)
  have pub: "publish ''s1'' demo_info
      [\<lparr>me_ordinal = 0, me_offset = 0, me_length = 2, me_digest = demo_digest\<rparr>] 10 ?s =
      (Inr (), published ''s1'' demo_info
        [\<lparr>me_ordinal = 0, me_offset = 0, me_length = 2, me_digest = demo_digest\<rparr>] 10 ?s)"
    unfolding published_def
  proof (rule publish_ok)
    show "keys_ok (sdb ?s)" using inv_committing [OF demo_inv] by (simp add: storage_inv_def inv_def)
    show "\<forall>e\<in>set [\<lparr>me_ordinal = 0, me_offset = 0, me_length = 2, me_digest = demo_digest\<rparr>].
        active (sdb ?s) (me_digest e)"
      by (simp add: active_def committing_def) (simp add: demo_storage_def)
  qed (simp_all add: noart)
  let ?m = "[\<lparr>me_ordinal = 0, me_offset = 0, me_length = 2, me_digest = demo_digest\<rparr>]"
  have now: "env_now demo_env = 10" "env_io demo_env = quiet_env" "env_sha demo_env = demo_sha"
    "env_reserve demo_env n" for n by (simp_all add: demo_env_def)
  have dig: "si_expected_digest demo_info = demo_digest" by (simp add: demo_info_def)
  have "commit_checked demo_env ''s1'' demo_info ?s =
      (Inr (committed_info demo_info ?m 10), published ''s1'' demo_info ?m 10 ?s)"
    unfolding commit_checked_def now check files
    using demo_get pub by (simp add: now noart demo_digest_sha dig op_return_def committed_info_def)
  then have "commit_session demo_env ''s1'' demo_storage =
      (Inr (committed_info demo_info ?m 10), published ''s1'' demo_info ?m 10 ?s)"
    using t e demo_load unfolding commit_session_def Let_def op_bind_query op_bind_exec now
    by (simp add: op_bind_exec)
  then show ?thesis ..
qed

section \<open>Properties\<close>





text \<open>Running out of memory traps the session. When \<open>manifest.reserve\<close> throws, the session
  stays \<open>COMMITTING\<close>: no call of \<open>rollback_to_open\<close> is on that path. Later uploads of
  a chunk and later commits of the session are refused.\<close>

theorem commit_no_memory_traps:
  assumes "load_session sid (sdb s) = Inr session" and "si_state session = OPEN"
    and "env_now env < si_expires_at session" and "storage_inv (env_sha env) s"
    and "\<not> env_reserve env (chunk_count_of session)"
  shows "\<exists>s'. commit_session env sid s = (Inl (StdExc ''std::bad_alloc''), s') \<and>
     load_session sid (sdb s') = Inr (session\<lparr>si_state := COMMITTING\<rparr>) \<and>
     commit_session env sid s' = (throw_error FR_E_STATE ''session is not OPEN'', s') \<and>
     (\<forall>ordinal data len. put_chunk env sid ordinal data len s' =
        (throw_error FR_E_STATE ''session is not OPEN'', s'))"
proof -
  let ?s = "committing sid s"
  have l: "load_session sid (sdb ?s) = Inr (session\<lparr>si_state := COMMITTING\<rparr>)"
    by (rule load_committing [OF assms(4,1,2)])
  obtain r s' where r: "commit_session env sid s = (r, s')" by (cases "commit_session env sid s")
  then have "r = Inl (StdExc ''std::bad_alloc'') \<and> s' = ?s"
    using assms(4)
    by (cases rule: commit_session_cases)
      (use assms in \<open>auto simp: due_def commit_checked_def committing_def\<close>)
  moreover have same: "expire_session_if_due (session\<lparr>si_state := COMMITTING\<rparr>) now db = db" for now db
    by (simp add: expire_session_if_due_def)
  have "commit_session env sid ?s = (throw_error FR_E_STATE ''session is not OPEN'', ?s)"
  proof -
    have none: "\<not> (ss_id r = sid \<and> ss_state r = ''OPEN'')" if "r \<in> set (db_session (sdb ?s))" for r
      using session_text [OF _ l that] inv_committing [OF assms(4)]
      by (auto simp: storage_inv_def inv_def keys_ok_def)
    have "set_state (\<lambda>r. ss_id r = sid \<and> ss_state r = ''OPEN'') ''COMMITTING'' (sdb ?s) = sdb ?s"
      by (rule set_state_none) (rule none)
    then have "transition sid OPEN COMMITTING ?s = (Inr False, ?s)"
      using transition_eq [of OPEN "''OPEN''" COMMITTING "''COMMITTING''" sid ?s] none by auto
    then show ?thesis
      using l same unfolding commit_session_def Let_def op_bind_query op_bind_exec
      by (simp add: op_bind_exec op_throw_def query_def)
  qed
  moreover have "put_chunk env sid ordinal data len ?s = (throw_error FR_E_STATE ''session is not OPEN'', ?s)"
    for ordinal data len
    using l same by (simp add: put_chunk_def op_bind_query op_bind_exec op_throw_def Let_def del: op_bind.simps)
  ultimately show ?thesis using r l by blast
qed

theorem commit_no_memory_traps_witness:
  "\<exists>s'. commit_session (demo_env\<lparr>env_reserve := (\<lambda>n. False)\<rparr>) ''s1'' demo_storage =
       (Inl (StdExc ''std::bad_alloc''), s') \<and>
     load_session ''s1'' (sdb s') = Inr (demo_info\<lparr>si_state := COMMITTING\<rparr>)"
proof -
  have "storage_inv (env_sha (demo_env\<lparr>env_reserve := (\<lambda>n. False)\<rparr>)) demo_storage"
    using demo_inv by (simp add: demo_env_def)
  moreover have "si_state demo_info = OPEN"
    "env_now (demo_env\<lparr>env_reserve := (\<lambda>n. False)\<rparr>) < si_expires_at demo_info"
    by (simp_all add: demo_info_def demo_env_def)
  ultimately show ?thesis
    using commit_no_memory_traps [OF demo_load, of "demo_env\<lparr>env_reserve := (\<lambda>n. False)\<rparr>"] by auto
qed

end
