(* ===== verification/Reading.thy ===== *)
theory Reading
  imports Commit
begin

text \<open>
  Downloading: \<open>read_artifact\<close> and \<open>read_artifact_slice\<close> of
  \<^verbatim>\<open>src/storage/fr_storage.cpp\<close> hand out exactly the requested part of the published
  content. The loop over the manifest is verified once, against the interface
  \<open>chunk_reader\<close> of the chunk store.
\<close>

section \<open>The loop over the manifest\<close>

context chunk_reader
begin

lemma read_loop_slice:
  assumes "stored_manifest stored pos es ds" and "pos + length (concat ds) < 2 ^ 64"
    and "pos \<le> unat offset \<or> remaining = 0"
    and "remaining \<noteq> 0 \<longrightarrow> unat offset + unat remaining \<le> pos + length (concat ds)"
  shows "\<exists>pieces. read_loop get_range es offset remaining sent = (Inr (sent + remaining), pieces) \<and>
    concat pieces = take (unat remaining) (drop (unat offset - pos) (concat ds))"
  using assms
proof (induction es arbitrary: pos ds offset remaining sent)
  case Nil
  then have "remaining = 0" using unat_gt_0 [of remaining] by (cases "remaining = 0") auto
  with Nil show ?case by simp
next
  case (Cons e es)
  show ?case
  proof (cases "remaining = 0")
    case True
    then show ?thesis by simp
  next
    case rem: False
    have rem0: "0 < unat remaining" using rem by (simp add: unat_gt_0)
    obtain d ds' where ds: "ds = d # ds'" "stored (me_digest e) = Some d" "unat (me_offset e) = pos"
      "unat (me_length e) = length d" "stored_manifest stored (pos + length d) es ds'"
      using Cons(2) by auto
    have pos: "pos \<le> unat offset" using Cons(4) rem by simp
    have fit: "unat offset + unat remaining \<le> pos + length (concat ds)" using Cons(5) rem by simp
    have fin: "unat (me_offset e + me_length e) = pos + length d"
      using Cons(3) ds by (subst unat_add_lem [THEN iffD1]) simp_all
    have wrap: "unat (offset + remaining) = unat offset + unat remaining"
      using fit Cons(3) by (subst unat_add_lem [THEN iffD1]) simp_all
    have inside: "\<not> me_offset e \<ge> offset + remaining"
      using wrap pos rem0 ds by (simp add: word_le_nat_alt)
    have total: "pos + length d + length (concat ds') < 2 ^ 64" using Cons(3) ds by simp
    show ?thesis
    proof (cases "offset \<ge> me_offset e + me_length e")
      case True
      then have "pos + length d \<le> unat offset" using fin by (simp add: word_le_nat_alt)
      then have "\<exists>pieces. read_loop get_range es offset remaining sent = (Inr (sent + remaining), pieces) \<and>
          concat pieces = take (unat remaining) (drop (unat offset - (pos + length d)) (concat ds'))"
        by (intro Cons(1) [OF ds(5) total]) (use fit ds in simp_all)
      moreover have "drop (unat offset - pos) (concat ds) = drop (unat offset - (pos + length d)) (concat ds')"
        using \<open>pos + length d \<le> unat offset\<close> ds by simp
      ultimately show ?thesis using rem True by simp
    next
      case here: False
      let ?local = "if offset > me_offset e then offset - me_offset e else 0"
      let ?start = "if offset > me_offset e then offset else me_offset e"
      let ?avail = "me_offset e + me_length e - ?start"
      let ?n = "if ?avail > remaining then remaining else ?avail"
      have start: "?start = offset"
        using pos ds(3) by (auto simp: word_less_nat_alt word_unat_eq_iff)
      have loc: "unat ?local = unat offset - pos"
        using pos ds(3) by (auto simp: word_less_nat_alt unat_sub word_le_nat_alt)
      have lt: "unat offset < pos + length d" using here fin by (simp add: word_le_nat_alt)
      have avail: "unat ?avail = pos + length d - unat offset"
        unfolding start using lt fin by (subst unat_sub) (simp_all add: word_le_nat_alt)
      have n: "unat ?n = min (unat remaining) (pos + length d - unat offset)"
        using avail by (auto simp: word_less_nat_alt min_def)
      have le: "?n \<le> remaining" using n by (simp add: word_le_nat_alt)
      have left: "unat (remaining - ?n) = unat remaining - unat ?n" by (rule unat_sub [OF le])
      have off: "unat (offset + ?n) = unat offset + unat ?n"
        using n lt total by (subst unat_add_lem [THEN iffD1]) simp_all
      have piece: "get_range (me_digest e) ?local ?n = Inr (take (unat ?n) (drop (unat offset - pos) d))"
        using get_range_stored [OF ds(2), of ?local ?n] loc lt by simp
      have "\<exists>pieces. read_loop get_range es (offset + ?n) (remaining - ?n) (sent + ?n) =
          (Inr (sent + ?n + (remaining - ?n)), pieces) \<and>
        concat pieces = take (unat (remaining - ?n)) (drop (unat (offset + ?n) - (pos + length d)) (concat ds'))"
      proof (rule Cons(1) [OF ds(5) total])
        show "pos + length d \<le> unat (offset + ?n) \<or> remaining - ?n = 0"
          unfolding off n using lt left n by (auto simp: min_def word_unat_eq_iff)
        show "remaining - ?n \<noteq> 0 \<longrightarrow>
            unat (offset + ?n) + unat (remaining - ?n) \<le> pos + length d + length (concat ds')"
          unfolding off left n using fit ds by (simp add: min_def)
      qed
      then obtain pieces where p: "read_loop get_range es (offset + ?n) (remaining - ?n) (sent + ?n) =
          (Inr (sent + remaining), pieces)"
        "concat pieces = take (unat remaining - unat ?n) (drop (unat offset + unat ?n - (pos + length d)) (concat ds'))"
        unfolding off left by auto
      have "take (unat remaining) (drop (unat offset - pos) (d @ concat ds')) =
          take (unat ?n) (drop (unat offset - pos) d) @ concat pieces"
        unfolding p(2) n using lt pos by (auto simp: min_def ac_simps)
      then show ?thesis
        using rem here inside piece p(1) ds(1) by (simp add: Let_def)
    qed
  qed
qed

end

section \<open>The published content\<close>

lemma shown_complete:
  assumes "storage_inv sha s" and "show_artifact ns name version (sdb s) = Inr info"
  obtains ds where "stored_manifest (content (sfs s)) 0 (ai_chunks info) ds"
    and "unat (ai_size info) = length (concat ds)" and "sha256_to_hex (sha (concat ds)) = ai_digest info"
    and "\<forall>e\<in>set (ai_chunks info). digest_key (me_digest e)"
proof -
  let ?db = "sdb s"
  have i: "inv sha ?db (sfs s)" using assms(1) by (simp add: storage_inv_def)
  obtain row where "select_artifact ns name version ?db = Some row"
    and info: "info = read_artifact_row row (map read_chunk_row (artifact_chunks (ar_id row) ?db))"
    using assms(2) by (auto simp: show_artifact_def throw_error_def split: option.splits)
  then have "row \<in> set (db_artifact ?db)"
    using select_one_Some by (fastforce simp: select_artifact_def)
  then obtain ds where ds: "artifact_complete sha ?db (sfs s) row ds"
    using i by (auto simp: inv_def artifacts_ok_def)
  have "digest_key (me_digest e)" if "e \<in> set (ai_chunks info)" for e
  proof -
    have "e \<in> read_chunk_row ` set (artifact_chunks (ar_id row) ?db)"
      using that info by (simp add: read_artifact_row_def)
    then obtain c where c: "e = read_chunk_row c" "c \<in> set (artifact_chunks (ar_id row) ?db)" by (rule imageE)
    then have "chunk_referenced ?db (ac_digest c)"
      unfolding artifact_chunks_set chunk_referenced_iff by blast
    with c(1) referenced_key [OF i] show ?thesis by (simp add: read_chunk_row_def)
  qed
  with ds info that show ?thesis
    by (auto simp: artifact_complete_def read_artifact_row_def)
qed

lemma read_loop_shown:
  assumes "stored_manifest (content fs) 0 es ds" and "\<forall>e\<in>set es. digest_key (me_digest e)"
    and "sha_ok sha" and "fs_ok sha fs" and "reads_ok env"
    and len: "unat total_size = length (concat ds)" and "offset \<le> total_size" and "remaining \<le> total_size - offset"
  shows "\<exists>pieces. read_loop (chunk_store_get_range env fs) es offset remaining 0 = (Inr remaining, pieces) \<and>
    concat pieces = take (unat remaining) (drop (unat offset) (concat ds))"
proof -
  have st: "stored_manifest (readable sha env fs) 0 es ds"
    by (rule stored_manifest_mono [OF assms(1)]) (use assms(2-5) in \<open>simp add: readable_def\<close>)
  have "unat remaining \<le> unat total_size - unat offset"
    using assms(7,8) by (simp add: word_le_nat_alt unat_sub)
  moreover have "unat offset \<le> unat total_size" using assms(7) by (simp add: word_le_nat_alt)
  ultimately have "unat offset + unat remaining \<le> 0 + length (concat ds)" using len by simp
  moreover have "0 + length (concat ds) < 2 ^ 64"
    unfolding len [symmetric] using unsigned_less [of total_size] by simp
  ultimately show ?thesis
    using files.read_loop_slice [OF st, of offset remaining 0] by simp
qed

section \<open>The concrete store, published\<close>

definition demo_manifest :: "ManifestEntry list" where
  "demo_manifest = [\<lparr>me_ordinal = 0, me_offset = 0, me_length = 2, me_digest = demo_digest\<rparr>]"

definition demo_published :: storage where
  "demo_published = published ''s1'' demo_info demo_manifest 10 (committing ''s1'' demo_storage)"

lemma demo_verified:
  "verified_upload demo_sha demo_info demo_manifest [[1, 2]] (committing ''s1'' demo_storage)"
  using demo_content
  by (simp add: verified_upload_def demo_manifest_def committing_def demo_digest_sha demo_info_def
      chunk_count_of_def artifact_exists_def active_def)
    (simp add: demo_storage_def empty_database_def)

lemma demo_published_inv: "storage_inv demo_sha demo_published"
  unfolding demo_published_def by (rule inv_published [OF inv_committing [OF demo_inv] demo_verified])

lemma demo_show:
  "show_artifact ''libs'' ''zlib'' ''1.0'' (sdb demo_published) = Inr (committed_info demo_info demo_manifest 10)"
  using show_published [OF inv_committing [OF demo_inv] demo_verified, of "''s1''" 10]
  by (simp add: demo_published_def demo_info_def)

lemma read_slice_content:
  assumes "storage_inv sha s" and "sha_ok sha" and "reads_ok env"
    and "show_artifact ns name version (sdb s) = Inr info"
  shows "\<exists>blob. sha256_to_hex (sha blob) = ai_digest info \<and> length blob = unat (ai_size info) \<and>
     (\<forall>offset max_len.
        if offset > ai_size info
        then read_artifact_slice env ns name version offset max_len s =
               (throw_error FR_E_RANGE ''read offset beyond artifact size'', [])
        else \<exists>n pieces. read_artifact_slice env ns name version offset max_len s = (Inr n, pieces) \<and>
               concat pieces = take (unat max_len) (drop (unat offset) blob) \<and>
               unat n = length (concat pieces))"
proof -
  obtain ds where ds: "stored_manifest (content (sfs s)) 0 (ai_chunks info) ds"
    "unat (ai_size info) = length (concat ds)" "sha256_to_hex (sha (concat ds)) = ai_digest info"
    "\<forall>e\<in>set (ai_chunks info). digest_key (me_digest e)"
    by (rule shown_complete [OF assms(1,4)])
  have fs: "fs_ok sha (sfs s)" using assms(1) by (simp add: storage_inv_def inv_def)
  have read: "\<exists>n pieces. read_artifact_slice env ns name version offset max_len s = (Inr n, pieces) \<and>
      concat pieces = take (unat max_len) (drop (unat offset) (concat ds)) \<and> unat n = length (concat pieces)"
    if off: "offset \<le> ai_size info" for offset max_len
  proof -
    let ?rem = "if ai_size info - offset > max_len then max_len else ai_size info - offset"
    have "?rem \<le> ai_size info - offset" by (simp add: word_le_nat_alt word_less_nat_alt)
    then obtain pieces where p: "read_loop (chunk_store_get_range env (sfs s)) (ai_chunks info) offset ?rem 0 =
        (Inr ?rem, pieces)" "concat pieces = take (unat ?rem) (drop (unat offset) (concat ds))"
      using read_loop_shown [OF ds(1,4) assms(2) fs assms(3) ds(2) off] by blast
    have "unat ?rem = min (unat max_len) (length (concat ds) - unat offset)"
      using off ds(2) by (simp add: word_le_nat_alt word_less_nat_alt unat_sub)
    then show ?thesis
      using p off assms(4) by (auto simp: read_artifact_slice_def Let_def not_less min_def)
  qed
  show ?thesis
    using ds(2,3) read assms(4)
    by (intro exI [of _ "concat ds"]) (auto simp: read_artifact_slice_def not_less)
qed

section \<open>Properties\<close>

text \<open>C3: A download returns the published bytes. For every published artifact there is one content
  with the artifact's digest and size, and every call of \<open>read_artifact_slice\<close> hands the sink
  exactly the part of it that starts at the offset and is bounded by the maximum, and returns its
  length; an offset beyond the end is refused and nothing is handed out.\<close>

theorem read_slice_exact:
  assumes "storage_inv sha s" and "sha_ok sha" and "reads_ok env"
    and "show_artifact ns name version (sdb s) = Inr info"
  shows "\<exists>blob. sha256_to_hex (sha blob) = ai_digest info \<and> length blob = unat (ai_size info) \<and>
     (\<forall>offset max_len.
        if offset > ai_size info
        then read_artifact_slice env ns name version offset max_len s =
               (throw_error FR_E_RANGE ''read offset beyond artifact size'', [])
        else \<exists>n pieces. read_artifact_slice env ns name version offset max_len s = (Inr n, pieces) \<and>
               concat pieces = take (unat max_len) (drop (unat offset) blob) \<and>
               unat n = length (concat pieces))"
  using assms by (rule read_slice_content)

theorem read_slice_exact_witness:
  "\<exists>n pieces. read_artifact_slice quiet_env ''libs'' ''zlib'' ''1.0'' 1 5 demo_published = (Inr n, pieces) \<and>
     length (concat pieces) = 1"
proof -
  have "reads_ok quiet_env" by (simp add: reads_ok_def quiet_env_def)
  then obtain blob where b: "length blob = unat (ai_size (committed_info demo_info demo_manifest 10))"
    and all: "\<And>offset max_len. if offset > ai_size (committed_info demo_info demo_manifest 10)
        then read_artifact_slice quiet_env ''libs'' ''zlib'' ''1.0'' offset max_len demo_published =
               (throw_error FR_E_RANGE ''read offset beyond artifact size'', [])
        else \<exists>n pieces. read_artifact_slice quiet_env ''libs'' ''zlib'' ''1.0'' offset max_len demo_published = (Inr n, pieces) \<and>
               concat pieces = take (unat max_len) (drop (unat offset) blob) \<and>
               unat n = length (concat pieces)"
    using read_slice_exact [OF demo_published_inv demo_sha_ok _ demo_show] by blast
  from b have "length blob = 2" by (simp add: committed_info_def demo_info_def)
  with all [of 1 5] show ?thesis by (auto simp: committed_info_def demo_info_def)
qed

text \<open>The same for \<open>read_artifact\<close>, which stops at the end of the artifact when the
  requested length goes beyond it.\<close>

theorem read_artifact_exact:
  assumes "storage_inv sha s" and "sha_ok sha" and "reads_ok env"
    and "show_artifact ns name version (sdb s) = Inr info"
  shows "\<exists>blob. sha256_to_hex (sha blob) = ai_digest info \<and> length blob = unat (ai_size info) \<and>
     (\<forall>offset len. offset \<le> ai_size info \<longrightarrow>
        (\<exists>pieces. read_artifact env ns name version offset len s = (Inr (), pieces) \<and>
               concat pieces = take (unat len) (drop (unat offset) blob)))"
proof -
  obtain ds where ds: "stored_manifest (content (sfs s)) 0 (ai_chunks info) ds"
    "unat (ai_size info) = length (concat ds)" "sha256_to_hex (sha (concat ds)) = ai_digest info"
    "\<forall>e\<in>set (ai_chunks info). digest_key (me_digest e)"
    by (rule shown_complete [OF assms(1,4)])
  have fs: "fs_ok sha (sfs s)" using assms(1) by (simp add: storage_inv_def inv_def)
  have "\<exists>pieces. read_artifact env ns name version offset len s = (Inr (), pieces) \<and>
      concat pieces = take (unat len) (drop (unat offset) (concat ds))"
    if off: "offset \<le> ai_size info" for offset len
  proof -
    let ?rem = "if len > ai_size info - offset then ai_size info - offset else len"
    have "?rem \<le> ai_size info - offset" by (simp add: word_le_nat_alt word_less_nat_alt)
    then obtain pieces where p: "read_loop (chunk_store_get_range env (sfs s)) (ai_chunks info) offset ?rem 0 =
        (Inr ?rem, pieces)" "concat pieces = take (unat ?rem) (drop (unat offset) (concat ds))"
      using read_loop_shown [OF ds(1,4) assms(2) fs assms(3) ds(2) off] by blast
    have "unat ?rem = min (unat len) (length (concat ds) - unat offset)"
      using off ds(2) by (auto simp: word_le_nat_alt word_less_nat_alt unat_sub)
    then show ?thesis
      using p off assms(4) by (auto simp: read_artifact_def Let_def not_less min_def)
  qed
  with ds(2,3) show ?thesis by (intro exI [of _ "concat ds"]) auto
qed

theorem read_artifact_exact_witness:
  "\<exists>pieces. read_artifact quiet_env ''libs'' ''zlib'' ''1.0'' 0 100 demo_published = (Inr (), pieces) \<and>
     length (concat pieces) = 2"
proof -
  have "reads_ok quiet_env" by (simp add: reads_ok_def quiet_env_def)
  then obtain blob where b: "length blob = unat (ai_size (committed_info demo_info demo_manifest 10))"
    and all: "\<forall>offset len. offset \<le> ai_size (committed_info demo_info demo_manifest 10) \<longrightarrow>
        (\<exists>pieces. read_artifact quiet_env ''libs'' ''zlib'' ''1.0'' offset len demo_published = (Inr (), pieces) \<and>
               concat pieces = take (unat len) (drop (unat offset) blob))"
    using read_artifact_exact [OF demo_published_inv demo_sha_ok _ demo_show] by blast
  from b have "length blob = 2" by (simp add: committed_info_def demo_info_def)
  with spec [OF spec [OF all], of 0 100] show ?thesis by auto
qed

end
