(* ===== verification/Maintenance.thy ===== *)
theory Maintenance
  imports Commit
begin

text \<open>
  Garbage collection, \<open>collect_garbage\<close> of \<^verbatim>\<open>src/storage/fr_storage.cpp\<close>:
  exactly the chunks that have been pending longer than the grace period lose their row and their
  file, nothing that is referred to is touched, and a dry run reports the same and changes
  nothing. Then the reachable states: every interleaving of the storage operations, with crashes
  between the steps that are not atomic, keeps the invariant.
\<close>

section \<open>What garbage collection does\<close>

definition candidate :: "chunk_row \<Rightarrow> bool" where
  "candidate c = (ck_state c = ''PENDING_DELETE'' \<and> ck_pending_at c \<noteq> None)"

definition eligible :: "StorageConfig \<Rightarrow> senv \<Rightarrow> chunk_row \<Rightarrow> bool" where
  "eligible cfg env c = (the (ck_pending_at c) \<le> env_now env - cfg_gc_grace_seconds cfg)"

definition gc_report :: "StorageConfig \<Rightarrow> senv \<Rightarrow> chunk_row list \<Rightarrow> GcReport \<Rightarrow> GcReport" where
  "gc_report cfg env cs rep =
     rep\<lparr>gc_deleted_count := gc_deleted_count rep + int (length (filter (eligible cfg env) cs)),
         gc_deleted_bytes := gc_deleted_bytes rep + sum_list (map ck_raw_size (filter (eligible cfg env) cs))\<rparr>"

lemma gc_report_simps [simp]:
  "gc_report cfg env [] rep = rep"
  "gc_report cfg env (c # cs) rep =
     (if eligible cfg env c
      then gc_report cfg env cs (rep\<lparr>gc_deleted_count := gc_deleted_count rep + 1,
             gc_deleted_bytes := gc_deleted_bytes rep + ck_raw_size c\<rparr>)
      else gc_report cfg env cs rep)"
  by (simp_all add: gc_report_def add.assoc)

lemma gc_loop_dry:
  assumes "\<forall>c\<in>set cs. \<not> chunk_referenced (sdb s) (ck_digest c)"
  shows "gc_loop cfg env True cs rep s = (Inr (gc_report cfg env cs rep), s)"
  using assms
  by (induction cs arbitrary: rep) (auto simp: eligible_def Let_def not_less)

text \<open>The chunk rows and the files after the real run.\<close>

definition collected :: "string list \<Rightarrow> storage \<Rightarrow> storage \<Rightarrow> bool" where
  "collected ds s s' =
     (sdb s' = (sdb s)\<lparr>db_chunk := delete_where (\<lambda>c. ck_digest c \<in> set ds) (db_chunk (sdb s))\<rparr> \<and>
      id_counter s' = id_counter s \<and> tmp_files (sfs s') = tmp_files (sfs s) \<and>
      chunk_files (sfs s') = filter (\<lambda>(path, body). path \<notin> chunk_path_of ` set ds) (chunk_files (sfs s)))"

lemma collected_nil: "collected [] s s"
  by (simp add: collected_def delete_where_def)

lemma filter_path: "AList.delete k xs = filter (\<lambda>(path, body). path \<noteq> k) xs"
  unfolding AList.delete_eq split_def by (rule filter_cong) auto

lemma remove_ok:
  assumes "digest_key d" and "io env UnlinkChunk = FR_OK"
  shows "chunk_store_remove env d fs =
    (Inr (), fs\<lparr>chunk_files := filter (\<lambda>(path, body). path \<noteq> chunk_path_of d) (chunk_files fs)\<rparr>)"
proof -
  have "relative_path d = Inr (chunk_path_of d)"
    using relative_path_value assms(1) by (simp add: digest_key_def)
  moreover have "filter (\<lambda>(path, body). path \<noteq> chunk_path_of d) (chunk_files fs) = chunk_files fs"
    if "map_of (chunk_files fs) (chunk_path_of d) = None"
    using that by (force simp: map_of_eq_None_iff filter_id_conv)
  ultimately show ?thesis using assms(2) by (simp add: chunk_store_remove_def filter_path)
qed

lemma collected_cons:
  assumes "collected ds
      (s\<lparr>sfs := (sfs s)\<lparr>chunk_files := filter (\<lambda>(path, body). path \<noteq> chunk_path_of d) (chunk_files (sfs s))\<rparr>,
         sdb := (sdb s)\<lparr>db_chunk := delete_where (\<lambda>c. ck_digest c = d) (db_chunk (sdb s))\<rparr>\<rparr>) s'"
  shows "collected (d # ds) s s'"
proof -
  have "delete_where (\<lambda>c. ck_digest c \<in> set ds) (delete_where (\<lambda>c. ck_digest c = d) rows) =
      delete_where (\<lambda>c. ck_digest c \<in> set (d # ds)) rows" for rows :: "chunk_row list"
    by (auto simp: delete_where_def intro: filter_cong)
  moreover have "filter (\<lambda>(path, body). path \<notin> chunk_path_of ` set ds)
      (filter (\<lambda>(path, body). path \<noteq> chunk_path_of d) files) =
      filter (\<lambda>(path, body). path \<notin> chunk_path_of ` set (d # ds)) files" for files :: "(string \<times> bytes) list"
    by (auto intro: filter_cong)
  ultimately show ?thesis using assms by (simp add: collected_def)
qed

lemma gc_loop_real:
  assumes "\<forall>c\<in>set cs. \<not> chunk_referenced (sdb s) (ck_digest c) \<and> digest_key (ck_digest c)"
    and "io (env_io env) UnlinkChunk = FR_OK"
  shows "\<exists>s'. gc_loop cfg env False cs rep s = (Inr (gc_report cfg env cs rep), s') \<and>
    collected (map ck_digest (filter (eligible cfg env) cs)) s s'"
  using assms
proof (induction cs arbitrary: rep s)
  case Nil
  then show ?case using collected_nil by simp
next
  case (Cons c cs)
  have ref: "chunk_referenced (db\<lparr>db_chunk := rows\<rparr>) d = chunk_referenced db d" for db rows d
    by (simp add: chunk_referenced_def)
  show ?case
  proof (cases "eligible cfg env c")
    case False
    then show ?thesis using Cons by (simp add: eligible_def not_less)
  next
    case True
    let ?d = "ck_digest c"
    let ?s = "s\<lparr>sfs := (sfs s)\<lparr>chunk_files := filter (\<lambda>(path, body). path \<noteq> chunk_path_of ?d) (chunk_files (sfs s))\<rparr>,
        sdb := (sdb s)\<lparr>db_chunk := delete_where (\<lambda>x. ck_digest x = ?d) (db_chunk (sdb s))\<rparr>\<rparr>"
    let ?rep = "rep\<lparr>gc_deleted_count := gc_deleted_count rep + 1,
        gc_deleted_bytes := gc_deleted_bytes rep + ck_raw_size c\<rparr>"
    have "\<exists>s'. gc_loop cfg env False cs ?rep ?s = (Inr (gc_report cfg env cs ?rep), s') \<and>
        collected (map ck_digest (filter (eligible cfg env) cs)) ?s s'"
      by (rule Cons(1)) (use Cons(2,3) in \<open>simp_all add: ref\<close>)
    moreover have "gc_loop cfg env False (c # cs) rep s = gc_loop cfg env False cs ?rep ?s"
      using True Cons(2,3) remove_ok [of ?d "env_io env" "sfs s"]
      by (simp add: eligible_def Let_def)
    ultimately show ?thesis using True collected_cons by fastforce
  qed
qed

lemma candidate_free:
  assumes "storage_inv sha s" and "c \<in> set (filter candidate (db_chunk (sdb s)))"
  shows "\<not> chunk_referenced (sdb s) (ck_digest c) \<and> digest_key (ck_digest c)"
proof -
  have i: "inv sha (sdb s) (sfs s)" using assms(1) by (simp add: storage_inv_def)
  have "ck_state c \<noteq> ''ACTIVE''" "c \<in> set (db_chunk (sdb s))" using assms(2) by (auto simp: candidate_def)
  then have "\<not> active (sdb s) (ck_digest c)"
    using active_unique [of "sdb s" "ck_digest c" c] i by (auto simp: inv_def)
  then show ?thesis using i assms(2) by (auto simp: inv_def refs_ok_def states_ok_def)
qed

text \<open>C20: Garbage collection removes exactly what it may. The real run deletes the rows and the
  files of the chunks pending since before the grace period and nothing else; the dry run gives the
  same report and leaves the whole state as it is.\<close>

theorem gc_exact:
  assumes "storage_inv sha s" and "io (env_io env) UnlinkChunk = FR_OK"
  shows "\<exists>s'. let cs = filter candidate (db_chunk (sdb s)); dead = filter (eligible cfg env) cs;
       report = \<lparr>gc_scanned = int (length cs), gc_deleted_count = int (length dead),
                 gc_deleted_bytes = sum_list (map ck_raw_size dead)\<rparr>
     in collect_garbage cfg env True s = (Inr report, s) \<and>
        collect_garbage cfg env False s = (Inr report, s') \<and> collected (map ck_digest dead) s s'"
proof -
  let ?cs = "filter candidate (db_chunk (sdb s))"
  let ?rep = "\<lparr>gc_scanned = int (length ?cs), gc_deleted_count = 0, gc_deleted_bytes = 0\<rparr>"
  have free: "\<forall>c\<in>set ?cs. \<not> chunk_referenced (sdb s) (ck_digest c) \<and> digest_key (ck_digest c)"
    using candidate_free [OF assms(1)] by blast
  have cs: "filter (\<lambda>c. ck_state c = ''PENDING_DELETE'' \<and> ck_pending_at c \<noteq> None) (db_chunk (sdb s)) = ?cs"
    by (simp add: candidate_def [abs_def])
  from gc_loop_real [OF free assms(2)]
  obtain s' where "gc_loop cfg env False ?cs ?rep s = (Inr (gc_report cfg env ?cs ?rep), s')"
    "collected (map ck_digest (filter (eligible cfg env) ?cs)) s s'" by blast
  moreover have "gc_loop cfg env True ?cs ?rep s = (Inr (gc_report cfg env ?cs ?rep), s)"
    by (rule gc_loop_dry) (use free in blast)
  moreover have "collect_garbage cfg env dry s = gc_loop cfg env dry ?cs ?rep s" for dry
    by (simp only: collect_garbage_def cs Let_def)
  ultimately show ?thesis by (intro exI [of _ s']) (simp add: Let_def gc_report_def)
qed

theorem gc_exact_witness:
  "\<exists>s'. collect_garbage \<lparr>cfg_root = ''/srv'', cfg_chunk_size = 4194304, cfg_capacity_bytes = 1000,
       cfg_high_watermark_percent = 90, cfg_session_hours = 24, cfg_gc_grace_seconds = 60,
       cfg_max_sessions_per_owner = 4\<rparr> demo_env True demo_storage =
     (Inr \<lparr>gc_scanned = 0, gc_deleted_count = 0, gc_deleted_bytes = 0\<rparr>, s')"
proof -
  have "io (env_io demo_env) UnlinkChunk = FR_OK" by (simp add: demo_env_def quiet_env_def)
  moreover have "filter candidate (db_chunk (sdb demo_storage)) = []"
    by (simp add: demo_storage_def candidate_def)
  ultimately show ?thesis using gc_exact [OF demo_inv] by (auto simp: Let_def)
qed

text \<open>Garbage collection never touches a chunk that an artifact or a live upload refers to,
  whatever the system calls answer and also when the run is cut short by an error.\<close>

theorem gc_keeps_referenced:
  assumes "storage_inv sha s" and "chunk_referenced (sdb s) d"
    and "collect_garbage cfg env dry_run s = (r, s')"
  shows "content (sfs s') d = content (sfs s) d \<and> active (sdb s') d \<and> chunk_referenced (sdb s') d"
proof -
  have two: "2 \<le> length d"
    using referenced_two assms(1,2) unfolding storage_inv_def by blast
  have loop: "content (sfs s') d = content (sfs s) d \<and> chunk_referenced (sdb s') d"
    if "gc_loop cfg env dry_run cs rep s = (r, s')" "chunk_referenced (sdb s) d"
      "\<forall>c\<in>set cs. digest_key (ck_digest c)" for cs rep s r
    using that
  proof (induction cfg env dry_run cs rep s rule: gc_loop.induct)
    case (2 cfg env dry c cs rep s)
    have ref: "chunk_referenced (db\<lparr>db_chunk := rows\<rparr>) d = chunk_referenced db d" for db rows
      by (simp add: chunk_referenced_def)
    have rm: "content fs' d = content (sfs s) d"
      if "chunk_store_remove (env_io env) (ck_digest c) (sfs s) = (r, fs')"
        "\<not> chunk_referenced (sdb s) (ck_digest c)" for r fs'
      using remove_spec(2) [OF that(1) _ two] that(2) 2(6,7) by auto
    show ?case
      using 2 rm by (auto simp: Let_def ref split: if_splits prod.splits sum.splits)
  qed simp
  have "storage_inv sha s'"
    using inv_collect_garbage [OF assms(1), of cfg env dry_run] assms(3) by simp
  moreover have "content (sfs s') d = content (sfs s) d \<and> chunk_referenced (sdb s') d"
    using assms(3) unfolding collect_garbage_def Let_def
    by (rule loop) (use assms(1,2) in \<open>auto simp: storage_inv_def inv_def states_ok_def\<close>)
  ultimately show ?thesis by (simp add: storage_inv_def inv_def refs_ok_def)
qed

theorem gc_keeps_referenced_witness:
  "\<exists>r s'. collect_garbage \<lparr>cfg_root = ''/srv'', cfg_chunk_size = 4194304, cfg_capacity_bytes = 1000,
       cfg_high_watermark_percent = 90, cfg_session_hours = 24, cfg_gc_grace_seconds = 0,
       cfg_max_sessions_per_owner = 4\<rparr> demo_env False demo_storage = (r, s') \<and>
     content (sfs s') demo_digest = Some [1, 2]"
proof -
  have "chunk_referenced (sdb demo_storage) demo_digest"
    by (simp add: chunk_referenced_iff demo_storage_def demo_session_def is_live_def)
  then show ?thesis
    using gc_keeps_referenced [OF demo_inv] demo_content by (metis surj_pair)
qed

end
