(* ===== verification/StorageRuns.thy ===== *)
theory StorageRuns
  imports Reading Maintenance
begin

text \<open>
  Runs of the storage layer: any sequence of the public operations of
  \<^verbatim>\<open>src/storage/fr_storage.cpp\<close>, with any parameters, clocks, system-call outcomes
  and restarts, interrupted by crashes at the points where the database and the files change
  separately. The reachable states satisfy the invariant, and the states of a session only move
  forward.
\<close>

section \<open>Steps\<close>

inductive storage_step :: "(bytes \<Rightarrow> bytes) \<Rightarrow> storage \<Rightarrow> storage \<Rightarrow> bool" for sha where
  step_create: "storage_step sha s (snd (create_session cfg env ns name version expected digest owner s))"
| step_put: "env_sha env = sha \<Longrightarrow> no_collision sha s data \<Longrightarrow> length data < 2 ^ 63 \<Longrightarrow>
    storage_step sha s (snd (put_chunk env sid ordinal (Some data) (length data) s))"
| step_commit: "env_sha env = sha \<Longrightarrow> storage_step sha s (snd (commit_session env sid s))"
| step_abort: "storage_step sha s (snd (abort_session env sid s))"
| step_delete: "storage_step sha s (snd (delete_artifact env ns name version s))"
| step_gc: "storage_step sha s (snd (collect_garbage cfg env dry_run s))"
| step_maintenance: "storage_step sha s (snd (run_maintenance env s))"
| step_open: "storage_step sha s (snd (storage_open cfg env s))"
| crash_put: "write_chunk_file env (chunk_path_of (sha256_to_hex (sha data))) data (sfs s) = (r, states) \<Longrightarrow>
    fs' \<in> set states \<Longrightarrow> length data < 2 ^ 63 \<Longrightarrow> storage_step sha s (s\<lparr>sfs := fs'\<rparr>)"
| crash_commit: "storage_step sha s (committing sid s)"
| crash_gc: "c \<in> set (db_chunk (sdb s)) \<Longrightarrow> candidate c \<Longrightarrow>
    chunk_store_remove env (ck_digest c) (sfs s) = (r, fs') \<Longrightarrow> storage_step sha s (s\<lparr>sfs := fs'\<rparr>)"

definition initial_storage :: storage where
  "initial_storage = \<lparr>sdb = empty_database, sfs = \<lparr>chunk_files = [], tmp_files = []\<rparr>, id_counter = 0\<rparr>"

inductive reachable :: "(bytes \<Rightarrow> bytes) \<Rightarrow> storage \<Rightarrow> bool" for sha where
  start: "reachable sha initial_storage"
| step: "reachable sha s \<Longrightarrow> storage_step sha s s' \<Longrightarrow> reachable sha s'"

lemma inv_initial: "storage_inv sha initial_storage"
  by (simp add: storage_inv_def inv_def initial_storage_def empty_database_def keys_ok_def states_ok_def
      refs_ok_def chunk_referenced_iff files_ok_def parts_ok_def artifacts_ok_def fs_ok_def)

lemma inv_crash_put:
  assumes s: "storage_inv sha s" and sha: "sha_ok sha"
    and w: "write_chunk_file env (chunk_path_of (sha256_to_hex (sha data))) data (sfs s) = (r, states)"
    and "fs' \<in> set states" and "length data < 2 ^ 63"
  shows "storage_inv sha (s\<lparr>sfs := fs'\<rparr>)"
proof -
  let ?d = "sha256_to_hex (sha data)"
  have i: "inv sha (sdb s) (sfs s)" using s by (simp add: storage_inv_def)
  have two: "2 \<le> length ?d" using sha_hex(3) [OF sha] by simp
  from write_chunk_file_history(1) [OF w] assms(4)
  consider "chunk_files fs' = chunk_files (sfs s)" | "added (chunk_path_of ?d) data (sfs s) fs'" by blast
  then have "inv sha (sdb s) fs'"
  proof cases
    case 1
    then show ?thesis using inv_chunk_files i by blast
  next
    case 2
    show ?thesis
    proof (rule inv_fs [OF i])
      show "fs_ok sha fs'" using fs_ok_added [where sha = sha and data = data, OF _ 2 assms(5)] i by (simp add: inv_def)
      fix d c assume d: "digest_key d" "content (sfs s) d = Some c"
      have "content (sfs s) ?d = None" using 2 by (simp add: content_def added_def)
      then show "content fs' d = Some c"
        using content_added [OF 2 two, of d] d digest_key_length [OF d(1)] by auto
    qed
  qed
  then show ?thesis by (simp add: storage_inv_def)
qed

lemma inv_crash_gc:
  assumes s: "storage_inv sha s" and c: "c \<in> set (db_chunk (sdb s))" "candidate c"
    and rm: "chunk_store_remove env (ck_digest c) (sfs s) = (r, fs')"
  shows "storage_inv sha (s\<lparr>sfs := fs'\<rparr>)"
proof -
  have i: "inv sha (sdb s) (sfs s)" using s by (simp add: storage_inv_def)
  have key: "digest_key (ck_digest c)" using i c by (auto simp: inv_def states_ok_def)
  have not_active: "\<not> active (sdb s) (ck_digest c)"
    using active_unique [of "sdb s" "ck_digest c" c] i c by (auto simp: inv_def candidate_def)
  have "inv sha (sdb s) fs'"
  proof (rule inv_fs [OF i])
    show "fs_ok sha fs'" by (rule remove_spec(1) [OF rm]) (use i in \<open>simp add: inv_def\<close>)
    fix d data
    assume d: "digest_key d" "chunk_referenced (sdb s) d \<or> active (sdb s) d" "content (sfs s) d = Some data"
    then have "d \<noteq> ck_digest c" using not_active i by (auto simp: inv_def refs_ok_def)
    then show "content fs' d = Some data"
      using remove_spec(2) [OF rm key, of d] digest_key_length [OF d(1)] d(3) by simp
  qed
  then show ?thesis by (simp add: storage_inv_def)
qed

lemma step_inv:
  assumes "storage_step sha s s'" and "storage_inv sha s" and "sha_ok sha"
  shows "storage_inv sha s'"
  using assms
  by (cases rule: storage_step.cases)
    (auto intro: inv_create_session inv_put_chunk inv_commit_session inv_abort_session inv_delete_artifact
      inv_collect_garbage inv_run_maintenance inv_storage_open inv_crash_put inv_committing inv_crash_gc)

lemma reachable_inv: "reachable sha s \<Longrightarrow> sha_ok sha \<Longrightarrow> storage_inv sha s"
  by (induction rule: reachable.induct) (auto intro: inv_initial step_inv)

text \<open>C1: The storage invariant holds in every reachable state. From the empty store, after any
  sequence of the public operations with any arguments, clocks and system-call outcomes, restarts
  and crashes included: what artifacts and live uploads refer to is \<open>ACTIVE\<close> and on disk with
  its digest and length, every published artifact is complete and has its digest, and keys are
  unique. (An upload whose SHA-256 collides with another content is excluded.)\<close>

theorem storage_always_consistent:
  assumes "reachable sha s" and "sha_ok sha"
  shows "storage_inv sha s"
  using assms by (rule reachable_inv)

theorem storage_always_consistent_witness:
  "\<exists>s. storage_inv demo_sha s \<and> ss_state (hd (db_session (sdb s))) = ''OPEN''"
proof -
  let ?cfg = "\<lparr>cfg_root = ''/srv'', cfg_chunk_size = 4194304, cfg_capacity_bytes = 1000000,
       cfg_high_watermark_percent = 90, cfg_session_hours = 24, cfg_gc_grace_seconds = 60,
       cfg_max_sessions_per_owner = 4\<rparr>"
  let ?s = "snd (create_session ?cfg demo_env ''libs'' ''zlib'' ''1.0'' 2 demo_digest ''alice'' initial_storage)"
  have ids: "fr_ident_valid_component (Some ''libs'')" "fr_ident_valid_component (Some ''zlib'')"
    "fr_ident_valid_version (Some ''1.0'')" by code_simp+
  have "fr_digest_hex_valid (Some demo_digest)" using demo_digest_key by (simp add: digest_key_def)
  with ids have "ss_state (hd (db_session (sdb ?s))) = ''OPEN''"
    by (simp add: create_session_def Let_def changes_def active_bytes_def initial_storage_def
        empty_database_def demo_env_def op_lift_def op_return_def tx_def insert_session_def)
  moreover have "storage_inv demo_sha ?s"
    by (rule storage_always_consistent [OF step [OF start step_create] demo_sha_ok])
  ultimately show ?thesis by blast
qed

section \<open>The states of a session\<close>

definition evolves :: "database \<Rightarrow> database \<Rightarrow> bool" where
  "evolves db db' =
     (\<forall>row\<in>set (db_session db). \<exists>row'\<in>set (db_session db').
        row' = row\<lparr>ss_state := ss_state row'\<rparr> \<and> (is_live row \<or> ss_state row' = ss_state row))"

lemma evolves_refl:
  assumes "db_session db' = db_session db" shows "evolves db db'"
  unfolding evolves_def
proof
  fix row assume "row \<in> set (db_session db)"
  with assms show "\<exists>row'\<in>set (db_session db'). row' = row\<lparr>ss_state := ss_state row'\<rparr> \<and>
      (is_live row \<or> ss_state row' = ss_state row)"
    by (intro bexI [of _ row]) simp_all
qed

lemma evolves_trans:
  assumes "evolves a b" and "evolves b c" shows "evolves a c"
  unfolding evolves_def
proof
  fix row assume "row \<in> set (db_session a)"
  then obtain r1 where r1: "r1 \<in> set (db_session b)" "r1 = row\<lparr>ss_state := ss_state r1\<rparr>"
    "is_live row \<or> ss_state r1 = ss_state row" using assms(1) by (auto simp: evolves_def)
  then obtain r2 where r2: "r2 \<in> set (db_session c)" "r2 = r1\<lparr>ss_state := ss_state r2\<rparr>"
    "is_live r1 \<or> ss_state r2 = ss_state r1" using assms(2) by (auto simp: evolves_def)
  have "r2 = row\<lparr>ss_state := ss_state r2\<rparr>" using r1(2) r2(2) by (cases row; cases r1; cases r2) simp
  moreover have "is_live row \<or> ss_state r2 = ss_state row"
    using r1(3) r2(3) by (auto simp: is_live_def)
  ultimately show "\<exists>row'\<in>set (db_session c). row' = row\<lparr>ss_state := ss_state row'\<rparr> \<and>
      (is_live row \<or> ss_state row' = ss_state row)" using r2(1) by blast
qed

lemma evolves_set_state:
  assumes "\<And>r. r \<in> set (db_session db) \<Longrightarrow> p r \<Longrightarrow> is_live r"
  shows "evolves db (set_state p t db)"
  unfolding evolves_def
proof
  fix row assume row: "row \<in> set (db_session db)"
  let ?r = "if p row then row\<lparr>ss_state := t\<rparr> else row"
  have "?r \<in> set (db_session (set_state p t db))"
    using row by (auto simp: set_state_def update_where_def)
  moreover have "?r = row\<lparr>ss_state := ss_state ?r\<rparr> \<and> (is_live row \<or> ss_state ?r = ss_state row)"
    using assms [OF row] by simp
  ultimately show "\<exists>row'\<in>set (db_session (set_state p t db)). row' = row\<lparr>ss_state := ss_state row'\<rparr> \<and>
      (is_live row \<or> ss_state row' = ss_state row)" by blast
qed

lemma evolves_expire: "evolves db (expire_session_if_due session now db)"
proof (cases "si_state session = OPEN \<and> si_expires_at session \<le> now")
  case True
  have "evolves db (set_state (\<lambda>r. ss_id r = si_id session \<and> ss_state r = ''OPEN'') ''EXPIRED'' db)"
    by (rule evolves_set_state) (simp add: is_live_def)
  then show ?thesis
    using True expire_session_rows [of session now db] by (simp add: evolves_def)
qed (use expire_session_rows [of session now db] in \<open>auto intro!: evolves_refl\<close>)

definition evolved :: "database \<Rightarrow> storage \<Rightarrow> bool" where
  "evolved db s = evolves db (sdb s)"

lemma keeps_evolved_exec: "(\<And>db. evolves db (f db)) \<Longrightarrow> keeps (evolved db0) (exec f)"
  by (auto simp: keeps_def evolved_def exec_def intro: evolves_trans)

lemma keeps_evolved_tx:
  assumes "keeps (evolved db0) m" shows "keeps (evolved db0) (tx m)"
  unfolding keeps_def
proof (intro allI impI)
  fix s assume s: "evolved db0 s"
  obtain r s' where m: "m s = (r, s')" by (cases "m s")
  have "evolved db0 s'" using assms s m unfolding keeps_def by (metis snd_conv)
  with m s show "evolved db0 (snd (tx m s))" by (cases r) (simp_all add: tx_def evolved_def)
qed

lemma keeps_evolved_transition:
  assumes "from_state \<in> {OPEN, COMMITTING, SS_OTHER n}"
  shows "keeps (evolved db0) (transition sid from_state to_state)"
  unfolding keeps_def
proof (intro allI impI)
  fix s assume s: "evolved db0 s"
  show "evolved db0 (snd (transition sid from_state to_state s))"
  proof (cases "state_to_text to_state")
    case (Inl e)
    with s show ?thesis by (simp add: transition_def op_lift_def)
  next
    case t: (Inr t)
    show ?thesis
    proof (cases "state_to_text from_state")
      case (Inl e)
      with s t show ?thesis by (simp add: transition_def op_lift_def)
    next
      case f: (Inr f)
      then have "evolves (sdb s) (set_state (\<lambda>r. ss_id r = sid \<and> ss_state r = f) t (sdb s))"
        using assms by (intro evolves_set_state) (auto simp: is_live_def throw_error_def)
      then show ?thesis
        using s evolves_trans by (auto simp: transition_eq [OF f t] evolved_def)
    qed
  qed
qed

text \<open>A call of \<open>create_session\<close> refuses, or inserts an open session.\<close>

definition new_info ::
  "StorageConfig \<Rightarrow> senv \<Rightarrow> string \<Rightarrow> string \<Rightarrow> string \<Rightarrow> u64 \<Rightarrow> string \<Rightarrow> string \<Rightarrow> storage \<Rightarrow> SessionInfo" where
  "new_info cfg env ns name version expected digest owner s =
     \<lparr>si_id = new_session_id (env_now_ns env) (id_counter s + 1), si_owner = owner, si_state = OPEN,
      si_ns = ns, si_name = name, si_version = version, si_expected_size = expected,
      si_expected_digest = digest, si_chunk_size = cfg_chunk_size cfg, si_created_at = env_now env,
      si_expires_at = env_now env + cfg_session_hours cfg * 3600\<rparr>"

definition new_row :: "SessionInfo \<Rightarrow> session_row" where
  "new_row info =
     \<lparr>ss_id = si_id info, ss_owner = si_owner info, ss_state = ''OPEN'', ss_namespace = si_ns info,
      ss_name = si_name info, ss_version = si_version info,
      ss_expected_size = sint (si_expected_size info), ss_expected_digest = si_expected_digest info,
      ss_chunk_size = sint (si_chunk_size info), ss_created_at = si_created_at info,
      ss_expires_at = si_expires_at info\<rparr>"

lemma create_session_eq:
  obtains (refused) code msg where "code \<in> {FR_E_ARG, FR_E_LIMIT}"
      "create_session cfg env ns name version expected digest owner s = (throw_error code msg, s)"
  | (insert) "fr_ident_valid_component (Some ns)" "fr_ident_valid_component (Some name)"
      "fr_ident_valid_version (Some version)" "owner \<noteq> []" "fr_digest_hex_valid (Some digest)"
      "changes (\<lambda>r. ss_owner r = owner \<and> ss_state r = ''OPEN'') (db_session (sdb s)) <
         cfg_max_sessions_per_owner cfg"
      "\<not> (word_of_int (active_bytes (sdb s)) :: u64) \<ge>
         cfg_capacity_bytes cfg * word_of_int (cfg_high_watermark_percent cfg) div 100"
      "create_session cfg env ns name version expected digest owner s =
         op_bind (tx (insert_session (new_row (new_info cfg env ns name version expected digest owner s))))
           (\<lambda>u. op_return (new_info cfg env ns name version expected digest owner s))
           (s\<lparr>id_counter := id_counter s + 1\<rparr>)"
proof -
  let ?valid = "fr_ident_valid_component (Some ns) \<and> fr_ident_valid_component (Some name) \<and>
      fr_ident_valid_version (Some version)"
  let ?quota = "changes (\<lambda>r. ss_owner r = owner \<and> ss_state r = ''OPEN'') (db_session (sdb s)) <
      cfg_max_sessions_per_owner cfg"
  let ?mark = "\<not> (word_of_int (active_bytes (sdb s)) :: u64) \<ge>
      cfg_capacity_bytes cfg * word_of_int (cfg_high_watermark_percent cfg) div 100"
  show ?thesis
  proof (cases "?valid \<and> owner \<noteq> [] \<and> fr_digest_hex_valid (Some digest) \<and> ?quota \<and> ?mark")
    case True
    then have "create_session cfg env ns name version expected digest owner s =
         op_bind (tx (insert_session (new_row (new_info cfg env ns name version expected digest owner s))))
           (\<lambda>u. op_return (new_info cfg env ns name version expected digest owner s))
           (s\<lparr>id_counter := id_counter s + 1\<rparr>)"
      unfolding create_session_def Let_def by (simp del: op_bind.simps not_le add: new_row_def new_info_def)
    with True insert show ?thesis by blast
  next
    case False
    then have "\<exists>code\<in>{FR_E_ARG, FR_E_LIMIT}. \<exists>msg.
        create_session cfg env ns name version expected digest owner s = (throw_error code msg, s)"
      unfolding create_session_def Let_def by (auto simp: not_less simp del: op_bind.simps not_le)
    with refused show ?thesis by blast
  qed
qed

lemma evolved_create_session:
  "evolved db0 s \<Longrightarrow> evolved db0 (snd (create_session cfg env ns name version expected digest owner s))"
proof -
  assume s: "evolved db0 s"
  have "keeps (evolved db0) (insert_session row)" for row
    unfolding keeps_def
  proof (intro allI impI)
    fix s assume "evolved db0 s"
    moreover have "evolves (sdb s) ((sdb s)\<lparr>db_session := db_session (sdb s) @ [row]\<rparr>)"
      unfolding evolves_def
    proof
      fix r assume "r \<in> set (db_session (sdb s))"
      then show "\<exists>row'\<in>set (db_session ((sdb s)\<lparr>db_session := db_session (sdb s) @ [row]\<rparr>)).
          row' = r\<lparr>ss_state := ss_state row'\<rparr> \<and> (is_live r \<or> ss_state row' = ss_state r)"
        by (intro bexI [of _ r]) simp_all
    qed
    ultimately show "evolved db0 (snd (insert_session row s))"
      using evolves_trans by (auto simp: insert_session_def evolved_def)
  qed
  then have ins: "keeps (evolved db0) (op_bind (tx (insert_session row)) (\<lambda>u. op_return info))"
    for row and info :: SessionInfo
    by (intro keeps_intros keeps_evolved_tx)
  have "evolved db0 (s\<lparr>id_counter := n\<rparr>)" for n using s by (simp add: evolved_def)
  then have tx: "evolved db0 (snd (op_bind (tx (insert_session row)) (\<lambda>u. op_return info) (s\<lparr>id_counter := n\<rparr>)))"
    for row n and info :: SessionInfo using ins unfolding keeps_def by blast
  show ?thesis
    by (cases rule: create_session_eq [of cfg env ns name version expected digest owner s])
      (use s tx in \<open>simp_all del: op_bind.simps\<close>)
qed

lemma keeps_evolved_files: "(\<And>s. sdb (snd (m s)) = sdb s) \<Longrightarrow> keeps (evolved db0) m"
  by (simp add: keeps_def evolved_def)

lemma evolved_put_chunk: "keeps (evolved db0) (put_chunk env sid ordinal data len)"
proof -
  have "sdb (snd (store_chunk env data len d s)) = sdb s" for d s
    by (simp add: store_chunk_def split: prod.split)
  then have store: "keeps (evolved db0) (store_chunk env data len d)" for d by (rule keeps_evolved_files)
  have same: "evolves db (insert_chunk d len now db)" "evolves db (reactivate d db)" for d len now db
    by (rule evolves_refl, simp add: insert_chunk_def reactivate_def)+
  have "evolves db (db\<lparr>db_part := ps\<rparr>)" for db ps by (rule evolves_refl) simp
  then have "keeps (evolved db0) (insert_part row)" for row
    by (auto simp: keeps_def insert_part_def evolved_def intro: evolves_trans)
  then have new: "keeps (evolved db0)
      (op_bind (exec (insert_chunk d len now)) (\<lambda>u. op_bind (exec (reactivate d)) (\<lambda>u.
        op_bind (insert_part row) (\<lambda>u. op_return acc))))"
    for d len now row and acc :: ChunkAccept
    by (intro keeps_intros keeps_evolved_exec same)
  have "keeps (evolved db0) (register_part sid ord d len now)" for ord d len now
    unfolding keeps_def
  proof (intro allI impI)
    fix s assume "evolved db0 s"
    then show "evolved db0 (snd (register_part sid ord d len now s))"
      using new unfolding keeps_def register_part_def
      by (cases "select_one (\<lambda>p. pt_session_id p = sid \<and> pt_ordinal p = ord) (db_part (sdb s))")
        (simp_all del: op_bind.simps)
  qed
  with store show ?thesis
    unfolding put_chunk_def Let_def
    by (intro keeps_bind keeps_query keeps_evolved_exec evolves_expire)
      (auto intro!: keeps_bind keeps_throw keeps_evolved_tx simp del: op_bind.simps)
qed

lemma evolves_committing: "evolves (sdb s) (sdb (committing sid s))"
  unfolding committing_def by (auto intro!: evolves_set_state simp: is_live_def)

lemma evolves_commit_session:
  assumes s: "storage_inv sha s" and env: "env_sha env = sha" "sha_ok sha"
  shows "evolves (sdb s) (sdb (snd (commit_session env sid s)))"
proof -
  obtain r s' where r: "commit_session env sid s = (r, s')" by (cases "commit_session env sid s")
  have "evolves (sdb s) (sdb s')"
    using r s
  proof (cases rule: commit_session_cases)
    case unknown
    then show ?thesis by (simp add: evolves_refl)
  next
    case not_open
    then show ?thesis by (simp add: evolves_expire)
  next
    case (checked session)
    note c = checked(4) [folded committing_def]
    show ?thesis
      using c s env checked(1,2)
    proof (cases rule: commit_checked_outcome)
      case nomem
      then show ?thesis using evolves_committing by simp
    next
      case refused
      have "evolves (sdb (committing sid s)) (sdb (reopened sid (committing sid s)))"
        unfolding reopened_def by (auto intro!: evolves_set_state simp: is_live_def)
      then show ?thesis using refused evolves_trans [OF evolves_committing] by simp
    next
      case (published m ds)
      let ?s = "committing sid s" and ?db = "with_artifact session m (env_now env) (sdb (committing sid s))"
      have live: "is_live r" if "r \<in> set (db_session ?db)" "ss_id r = sid" for r
      proof -
        have "r \<in> set (db_session (sdb ?s))" using that(1) by (simp add: with_artifact_def Let_def)
        then have "state_to_text (si_state (session\<lparr>si_state := COMMITTING\<rparr>)) = Inr (ss_state r)"
          using session_text [OF _ load_committing [OF s checked(1,2)]] that(2) inv_committing [OF s]
          by (simp add: storage_inv_def inv_def keys_ok_def)
        then show ?thesis by (simp add: is_live_def)
      qed
      have "evolves (sdb ?s) ?db" by (rule evolves_refl) (simp add: with_artifact_def Let_def)
      moreover have "evolves ?db (set_completed sid ?db)"
        unfolding set_completed_eq by (rule evolves_set_state) (rule live)
      ultimately have "evolves (sdb ?s) (sdb s')"
        using published(3) evolves_trans by (simp add: published_def)
      then show ?thesis using evolves_trans [OF evolves_committing] by blast
    qed
  qed
  with r show ?thesis by simp
qed

lemma evolved_abort: "keeps (evolved db0) (abort_session env sid)"
proof -
  have "evolves db (mark_unreferenced_parts sid now db)" for now db by (rule evolves_refl) simp
  then have abort: "keeps (evolved db0) (tx (op_bind (transition sid (si_state session) ABORTED) (\<lambda>changed.
      exec (mark_unreferenced_parts sid (env_now env)))))"
    if "\<not> (si_state session = ABORTED \<or> si_state session = EXPIRED \<or> si_state session = COMPLETED)"
    for session :: SessionInfo
  proof -
    have "\<exists>n. si_state session \<in> {OPEN, COMMITTING, SS_OTHER n}"
      using that by (cases "si_state session") auto
    then obtain n where n: "si_state session \<in> {OPEN, COMMITTING, SS_OTHER n}" by blast
    show ?thesis
      by (intro keeps_evolved_tx keeps_bind keeps_evolved_transition [OF n] keeps_evolved_exec evolves_refl) simp
  qed
  show ?thesis
    unfolding abort_session_def
    by (intro keeps_bind keeps_query) (use abort in \<open>auto intro: keeps_return\<close>)
qed

lemma gc_loop_sessions: "db_session (sdb (snd (gc_loop cfg env dry cs rep s))) = db_session (sdb s)"
  by (induction cfg env dry cs rep s rule: gc_loop.induct) (auto simp: Let_def split: prod.splits sum.splits)

lemma mark_sessions_sessions [simp]: "db_session (mark_sessions now ids db) = db_session db"
  by (induction ids arbitrary: db) simp_all

lemma evolves_run_maintenance: "evolves (sdb s) (sdb (snd (run_maintenance env s)))"
proof -
  let ?due = "\<lambda>r. ss_state r = ''OPEN'' \<and> ss_expires_at r \<le> env_now env"
  let ?db1 = "set_state ?due ''EXPIRED'' (sdb s)"
  let ?db2 = "set_state (\<lambda>r. ss_state r = ''COMMITTING'') ''OPEN'' ?db1"
  have "evolves (sdb s) ?db1" by (rule evolves_set_state) (simp add: is_live_def)
  moreover have "evolves ?db1 ?db2" by (rule evolves_set_state) (simp add: is_live_def)
  moreover have "evolves ?db2 (sdb (snd (run_maintenance env s)))"
    by (rule evolves_refl) (simp add: run_maintenance_def Let_def set_state_def split: prod.split)
  ultimately show ?thesis using evolves_trans by blast
qed

lemma evolved_self: "evolved (sdb s) s"
  by (simp add: evolved_def evolves_refl)

lemma step_evolves:
  assumes "storage_step sha s s'" and "storage_inv sha s" and "sha_ok sha"
  shows "evolves (sdb s) (sdb s')"
  using assms(1)
proof (cases rule: storage_step.cases)
  case (step_create cfg env ns name version expected digest owner)
  then show ?thesis using evolved_create_session [OF evolved_self] by (simp add: evolved_def)
next
  case (step_put env data sid ordinal)
  then show ?thesis
    using evolved_put_chunk [of "sdb s" env sid ordinal] evolved_self [of s] by (simp add: keeps_def evolved_def)
next
  case (step_commit env sid)
  then show ?thesis using evolves_commit_session [OF assms(2) _ assms(3)] by simp
next
  case (step_abort env sid)
  then show ?thesis
    using evolved_abort [of "sdb s" env sid] evolved_self [of s] by (simp add: keeps_def evolved_def)
next
  case (step_delete env ns name version)
  have "db_session (sdb (snd (delete_artifact env ns name version s))) = db_session (sdb s)"
    using mark_counted_db
    by (auto simp: delete_artifact_def tx_def Let_def delete_artifact_rows_def throw_error_def
        split: option.splits prod.splits dest!: arg_cong [where f = snd])
  then show ?thesis using step_delete by (simp add: evolves_refl)
next
  case (step_gc cfg env dry_run)
  then show ?thesis by (simp add: evolves_refl collect_garbage_def gc_loop_sessions Let_def)
next
  case (step_maintenance env)
  then show ?thesis by (simp add: evolves_run_maintenance)
next
  case (step_open cfg env)
  have "evolves (sdb s) (sdb (snd (op_bind (run_maintenance env) (\<lambda>report. op_return ()) s)))"
    using evolves_run_maintenance [of s env]
    by (cases "run_maintenance env s") (auto simp: op_return_def split: sum.split)
  then show ?thesis
    using step_open by (simp add: storage_open_def op_throw_def evolves_refl del: op_bind.simps)
next
  case (crash_commit sid)
  then show ?thesis by (simp add: evolves_committing)
qed (simp_all add: evolves_refl)

text \<open>C4: Sessions only move forward. No step of the storage layer, crashes included, removes a
  session or changes anything but its state, and a session that is \<open>COMPLETED\<close>,
  \<open>ABORTED\<close> or \<open>EXPIRED\<close> keeps that state for ever.\<close>

theorem session_states_final:
  assumes "storage_step sha s s'" and "storage_inv sha s" and "sha_ok sha"
    and "row \<in> set (db_session (sdb s))"
  shows "\<exists>row'\<in>set (db_session (sdb s')). row' = row\<lparr>ss_state := ss_state row'\<rparr> \<and>
     (ss_state row \<in> {''OPEN'', ''COMMITTING''} \<or> ss_state row' = ss_state row)"
  using step_evolves [OF assms(1-3)] assms(4) by (auto simp: evolves_def is_live_def)

theorem session_states_final_witness:
  "\<exists>row'\<in>set (db_session (sdb (snd (abort_session demo_env ''s1'' demo_published)))).
     ss_id row' = ''s1'' \<and> ss_state row' = ''COMPLETED''"
proof -
  let ?row = "demo_session\<lparr>ss_state := ''COMPLETED''\<rparr>"
  have "?row \<in> set (db_session (sdb demo_published))"
    by (simp add: demo_published_def published_def committing_def set_completed_eq set_state_def
        with_artifact_def Let_def update_where_def demo_storage_def demo_session_def)
  from session_states_final [OF step_abort [of demo_sha demo_published demo_env "''s1''"]
      demo_published_inv demo_sha_ok this]
  obtain row' where "row' \<in> set (db_session (sdb (snd (abort_session demo_env ''s1'' demo_published))))"
    "row' = ?row\<lparr>ss_state := ss_state row'\<rparr>" "ss_state row' = ''COMPLETED''" by auto
  moreover have "ss_id row' = ''s1''" using calculation(2) by (cases row') (simp add: demo_session_def)
  ultimately show ?thesis by blast
qed

end
