(* ===== verification/Uploads.thy ===== *)
theory Uploads
  imports StorageRuns
begin

text \<open>
  Uploading: what \<open>create_session\<close>, \<open>put_chunk\<close> and \<open>session_progress\<close> of
  \<^verbatim>\<open>src/storage/fr_storage.cpp\<close> promise to a client: admission, idempotence of a
  repeated chunk, conflicts, and the progress a resumed upload relies on.
\<close>

section \<open>Creating a session\<close>

lemma read_new_row [simp]: "si_state info = OPEN \<Longrightarrow> read_session_row (new_row info) = Inr info"
  by (cases info) (simp add: read_session_row_def new_row_def state_from_text_def)

lemma insert_session_ok:
  assumes "tx (insert_session row) s = (Inr u, s')"
  shows "s' = s\<lparr>sdb := (sdb s)\<lparr>db_session := db_session (sdb s) @ [row]\<rparr>\<rparr> \<and>
    (\<forall>r\<in>set (db_session (sdb s)). ss_id r \<noteq> ss_id row)"
  using assms
  by (auto simp: tx_def insert_session_def list_ex_iff constraint_failed_def throw_error_def split: if_splits)

lemma select_one_append:
  "select_one p (xs @ ys) = (case select_one p xs of None \<Rightarrow> select_one p ys | Some x \<Rightarrow> Some x)"
  by (induction xs) (simp_all add: select_one_def)

lemma select_one_single [simp]: "select_one p [x] = (if p x then Some x else None)"
  by (simp add: select_one_def)

text \<open>Admission of an upload. When \<open>create_session\<close> returns, the identifiers and the
  digest were valid, the owner was below the quota of open sessions and the store below its high
  watermark; the session can be looked up with exactly the returned data, nothing else changed.\<close>

theorem create_session_admits:
  assumes "create_session cfg env ns name version expected digest owner s = (Inr info, s')"
  shows "fr_ident_valid_component (Some ns) \<and> fr_ident_valid_component (Some name) \<and>
     fr_ident_valid_version (Some version) \<and> owner \<noteq> [] \<and> fr_digest_hex_valid (Some digest) \<and>
     changes (\<lambda>r. ss_owner r = owner \<and> ss_state r = ''OPEN'') (db_session (sdb s)) <
       cfg_max_sessions_per_owner cfg \<and>
     used_bytes (sdb s) < cfg_capacity_bytes cfg * word_of_int (cfg_high_watermark_percent cfg) div 100 \<and>
     load_session (si_id info) (sdb s') = Inr info \<and> si_state info = OPEN \<and>
     si_expected_size info = expected \<and> si_expires_at info = env_now env + cfg_session_hours cfg * 3600 \<and>
     sfs s' = sfs s \<and> (\<exists>row. sdb s' = (sdb s)\<lparr>db_session := db_session (sdb s) @ [row]\<rparr>)"
proof (cases rule: create_session_eq [of cfg env ns name version expected digest owner s])
  case (refused code msg)
  with assms show ?thesis by (simp add: throw_error_def)
next
  case insert
  let ?info = "new_info cfg env ns name version expected digest owner s"
  let ?s = "s\<lparr>id_counter := id_counter s + 1\<rparr>"
  obtain r s1 where t: "tx (insert_session (new_row ?info)) ?s = (r, s1)"
    by (cases "tx (insert_session (new_row ?info)) ?s")
  with assms insert(8) obtain u where r: "r = Inr u" and info: "info = ?info" and s1: "s' = s1"
    by (cases r) (auto simp: op_return_def)
  from insert_session_ok [OF t [unfolded r]]
  have s': "s' = ?s\<lparr>sdb := (sdb s)\<lparr>db_session := db_session (sdb s) @ [new_row ?info]\<rparr>\<rparr>"
    and new: "\<forall>r\<in>set (db_session (sdb s)). ss_id r \<noteq> ss_id (new_row ?info)"
    using s1 by simp_all
  have id: "ss_id (new_row ?info) = si_id ?info" by (simp add: new_row_def)
  have "select_one (\<lambda>r. ss_id r = si_id ?info) (db_session (sdb s)) = None"
    using new id by (simp add: select_one_None)
  moreover have "select_one (\<lambda>r. ss_id r = si_id ?info) [new_row ?info] = Some (new_row ?info)"
    using id by (simp add: select_one_def)
  ultimately have "load_session (si_id ?info) (sdb s') = Inr ?info"
    using s' by (simp add: load_session_def select_one_append new_info_def)
  with insert info s' show ?thesis
    by (auto simp: used_bytes_def not_le new_info_def)
qed

section \<open>Storing a chunk\<close>

lemma put_chunk_ok:
  assumes p: "put_chunk env sid ord data len s = (Inr acc, s')" and s: "storage_inv sha s"
  obtains session fs' d where "load_session sid (sdb s) = Inr session" "si_state session = OPEN"
    "\<not> due session (env_now env)" "ord < chunk_count_of session" "len \<noteq> 0"
    "len \<le> unat (si_chunk_size session)"
    "chunk_store_put (env_sha env) (env_io env) data len
       (sha256_to_hex (env_sha env (take len (mem_of data)))) (sfs s) = (Inr d, fs')"
    "tx (register_part sid (sint ord) (sha256_to_hex (env_sha env (take len (mem_of data)))) (int len)
       (env_now env)) (s\<lparr>sfs := fs'\<rparr>) = (Inr acc, s')"
proof -
  let ?now = "env_now env" and ?d = "sha256_to_hex (env_sha env (take len (mem_of data)))"
  obtain session where l: "load_session sid (sdb s) = Inr session"
    using p by (cases "load_session sid (sdb s)") (auto simp: put_chunk_def query_def Let_def)
  let ?s = "s\<lparr>sdb := expire_session_if_due session ?now (sdb s)\<rparr>"
  have d0: "distinct (map ss_id (db_session (sdb s)))"
    using s by (simp add: storage_inv_def inv_def keys_ok_def)
  note l1 = load_after_expire [OF d0 l, of ?now]
  let ?session = "if due session ?now then session\<lparr>si_state := EXPIRED\<rparr> else session"
  have open1: "si_state ?session = OPEN \<and> ord < chunk_count_of ?session \<and> len \<noteq> 0 \<and>
      len \<le> unat (si_chunk_size ?session) \<and>
      op_bind (store_chunk env data len ?d) (\<lambda>d. tx (register_part sid (sint ord) ?d (int len) ?now)) ?s = (Inr acc, s')"
    using p l1
    by (simp add: put_chunk_def Let_def op_bind_query op_bind_exec l op_throw_def throw_error_def not_le not_less
        del: op_bind.simps split: if_splits)
  then have nd: "\<not> due session ?now" by (auto split: if_splits)
  then have same: "?s = s" by (auto simp: expire_session_if_due_def due_def)
  obtain r fs' where put: "chunk_store_put (env_sha env) (env_io env) data len ?d (sfs s) = (r, fs')"
    by (cases "chunk_store_put (env_sha env) (env_io env) data len ?d (sfs s)")
  with open1 nd same obtain d where "r = Inr d"
    by (cases r) (auto simp: store_chunk_def)
  with open1 nd same put l that show ?thesis by (simp add: store_chunk_def)
qed

lemma put_chunk_open:
  assumes "load_session sid (sdb s) = Inr session" "si_state session = OPEN"
    "\<not> due session (env_now env)" "ord < chunk_count_of session" "len \<noteq> 0"
    "len \<le> unat (si_chunk_size session)"
  shows "put_chunk env sid ord data len s =
    op_bind (store_chunk env data len (sha256_to_hex (env_sha env (take len (mem_of data)))))
      (\<lambda>d. tx (register_part sid (sint ord) (sha256_to_hex (env_sha env (take len (mem_of data))))
        (int len) (env_now env))) s"
proof -
  have same: "expire_session_if_due session (env_now env) (sdb s) = sdb s"
    using assms(2,3) by (auto simp: expire_session_if_due_def due_def)
  have below: "(chunk_count_of session \<le> ord) = False" using assms(4) by (simp add: not_le)
  show ?thesis
    using assms(1-3,5,6)
    by (simp add: put_chunk_def Let_def op_bind_query op_bind_exec same below del: op_bind.simps)
qed

text \<open>A chunk that is in the store is not written again.\<close>

lemma put_present:
  assumes "chunk_store_put sha env data len d fs = (Inr x, fs')"
  shows "chunk_store_put sha env data len d fs' = (Inr x, fs')"
proof -
  have rel: "\<exists>target. relative_path d = Inr target \<and> map_of (chunk_files fs') target \<noteq> None"
    using assms write_chunk_file_history(3)
    by (auto simp: chunk_store_put_def Let_def throw_error_def split: if_splits sum.splits prod.splits)
  then show ?thesis
    using assms by (auto simp: chunk_store_put_def Let_def throw_error_def split: if_splits sum.splits prod.splits)
      (rule gr0I, simp)+
qed

lemma register_part_ok:
  assumes "tx (register_part sid ord d len now) s = (Inr acc, s')"
  shows "ca_digest acc = d \<and> sfs s' = sfs s \<and> db_session (sdb s') = db_session (sdb s) \<and>
    (\<exists>p. select_one (\<lambda>p. pt_session_id p = sid \<and> pt_ordinal p = ord) (db_part (sdb s')) = Some p \<and> pt_digest p = d)"
  using assms
  by (auto simp: tx_def register_part_def exec_def insert_part_def op_return_def throw_error_def constraint_failed_def
      insert_chunk_def reactivate_def select_one_append
      split: option.splits if_splits)

theorem create_session_admits_witness:
  "\<exists>info s'. create_session \<lparr>cfg_root = ''/srv'', cfg_chunk_size = 4194304, cfg_capacity_bytes = 1000000,
       cfg_high_watermark_percent = 90, cfg_session_hours = 24, cfg_gc_grace_seconds = 60,
       cfg_max_sessions_per_owner = 4\<rparr> demo_env ''libs'' ''zlib'' ''1.0'' 2 demo_digest ''alice''
       initial_storage = (Inr info, s') \<and>
     load_session (si_id info) (sdb s') = Inr info \<and> si_expires_at info = 86410"
proof -
  let ?cfg = "\<lparr>cfg_root = ''/srv'', cfg_chunk_size = 4194304, cfg_capacity_bytes = 1000000,
       cfg_high_watermark_percent = 90, cfg_session_hours = 24, cfg_gc_grace_seconds = 60,
       cfg_max_sessions_per_owner = 4\<rparr>"
  have ids: "fr_ident_valid_component (Some ''libs'')" "fr_ident_valid_component (Some ''zlib'')"
    "fr_ident_valid_version (Some ''1.0'')" by code_simp+
  have "fr_digest_hex_valid (Some demo_digest)" using demo_digest_key by (simp add: digest_key_def)
  with ids obtain info s' where
    c: "create_session ?cfg demo_env ''libs'' ''zlib'' ''1.0'' 2 demo_digest ''alice'' initial_storage = (Inr info, s')"
    by (simp add: create_session_def Let_def changes_def active_bytes_def initial_storage_def
        empty_database_def demo_env_def op_lift_def op_return_def tx_def insert_session_def)
  from create_session_admits [OF c] c show ?thesis by (auto simp: demo_env_def)
qed

lemma demo_put:
  "put_chunk demo_env ''s1'' 0 (Some [1, 2]) 2 demo_storage =
     (Inr \<lparr>ca_digest = demo_digest, ca_reused = True\<rparr>, demo_storage)"
proof -
  have dig: "sha256_to_hex (env_sha demo_env (take 2 (mem_of (Some [1, 2])))) = demo_digest"
    using demo_digest_sha [of "[1, 2]"] by (simp add: demo_env_def)
  have "map_of (chunk_files (sfs demo_storage)) (chunk_path_of demo_digest) \<noteq> None"
    using demo_content by (auto simp: content_def)
  then have "store_chunk demo_env (Some [1, 2]) 2 demo_digest demo_storage = (Inr demo_digest, demo_storage)"
    using dig demo_digest_key relative_path_value [of demo_digest]
    by (auto simp: store_chunk_def chunk_store_put_def digest_key_def)
  moreover have "register_part ''s1'' (sint (0 :: u64)) demo_digest (int 2) now demo_storage =
      (Inr \<lparr>ca_digest = demo_digest, ca_reused = True\<rparr>, demo_storage)" for now
    by (simp add: register_part_def) (simp add: demo_storage_def)
  moreover have "put_chunk demo_env ''s1'' 0 (Some [1, 2]) 2 demo_storage =
    op_bind (store_chunk demo_env (Some [1, 2]) 2 demo_digest)
      (\<lambda>d. tx (register_part ''s1'' (sint (0 :: u64)) demo_digest (int 2) (env_now demo_env))) demo_storage"
    by (rule put_chunk_open [OF demo_load, of demo_env 0 2 "Some [1, 2]", unfolded dig])
      (simp_all add: demo_info_def due_def chunk_count_of_def demo_env_def)
  ultimately show ?thesis by (simp add: tx_def)
qed

text \<open>C23: Repeating an upload of a chunk is harmless: after a successful \<open>put_chunk\<close>, the same
  call again succeeds, reports the chunk as reused and changes nothing at all.\<close>

theorem put_chunk_idempotent:
  assumes "put_chunk env sid ordinal data len s = (Inr acc, s')" and "storage_inv sha s"
  shows "put_chunk env sid ordinal data len s' =
    (Inr \<lparr>ca_digest = sha256_to_hex (env_sha env (take len (mem_of data))), ca_reused = True\<rparr>, s')"
proof -
  let ?d = "sha256_to_hex (env_sha env (take len (mem_of data)))"
  obtain session fs' d where
    ok: "load_session sid (sdb s) = Inr session" "si_state session = OPEN" "\<not> due session (env_now env)"
      "ordinal < chunk_count_of session" "len \<noteq> 0" "len \<le> unat (si_chunk_size session)"
    and put: "chunk_store_put (env_sha env) (env_io env) data len ?d (sfs s) = (Inr d, fs')"
    and reg: "tx (register_part sid (sint ordinal) ?d (int len) (env_now env)) (s\<lparr>sfs := fs'\<rparr>) = (Inr acc, s')"
    by (rule put_chunk_ok [OF assms])
  note r = register_part_ok [OF reg]
  then have l: "load_session sid (sdb s') = Inr session" using ok(1) by (simp add: load_session_def)
  have "sfs s' = fs'" using r by simp
  with put_present [OF put] have store: "store_chunk env data len ?d s' = (Inr d, s')"
    by (simp add: store_chunk_def)
  have "register_part sid (sint ordinal) ?d (int len) (env_now env) s' = (Inr \<lparr>ca_digest = ?d, ca_reused = True\<rparr>, s')"
    using r by (auto simp: register_part_def)
  then show ?thesis
    unfolding put_chunk_open [OF l ok(2-6)] using store by (simp add: tx_def)
qed

theorem put_chunk_idempotent_witness:
  "\<exists>acc s'. put_chunk demo_env ''s1'' 0 (Some [1, 2]) 2 demo_storage = (Inr acc, s') \<and>
     snd (put_chunk demo_env ''s1'' 0 (Some [1, 2]) 2 s') = s'"
  using put_chunk_idempotent [OF demo_put demo_inv] demo_put by auto

text \<open>Progress for a resumed upload. After a successful \<open>put_chunk\<close> the session's progress
  lists the ordinal, and the number of chunks is the one the session was created for.\<close>

theorem put_chunk_progress:
  assumes "put_chunk env sid ordinal data len s = (Inr acc, s')" and "storage_inv sha s"
  shows "\<exists>progress session. load_session sid (sdb s) = Inr session \<and>
    session_progress sid (sdb s') = Inr progress \<and> sp_chunk_count progress = chunk_count_of session \<and>
    ordinal \<in> set (sp_present_ordinals progress) \<and> ordinal < sp_chunk_count progress"
proof -
  let ?d = "sha256_to_hex (env_sha env (take len (mem_of data)))"
  obtain session fs' d where
    ok: "load_session sid (sdb s) = Inr session" "ordinal < chunk_count_of session"
    and reg: "tx (register_part sid (sint ordinal) ?d (int len) (env_now env)) (s\<lparr>sfs := fs'\<rparr>) = (Inr acc, s')"
    by (rule put_chunk_ok [OF assms])
  note r = register_part_ok [OF reg]
  then have l: "load_session sid (sdb s') = Inr session" using ok(1) by (simp add: load_session_def)
  obtain p where "p \<in> set (db_part (sdb s'))" "pt_session_id p = sid" "pt_ordinal p = sint ordinal"
    using r select_one_Some by (metis (mono_tags, lifting))
  then have "ordinal \<in> (\<lambda>p. word_of_int (pt_ordinal p)) ` set (session_parts sid (sdb s'))"
    unfolding session_parts_set by (intro image_eqI [of _ _ p]) simp_all
  with l ok show ?thesis by (simp add: session_progress_def)
qed

theorem put_chunk_progress_witness:
  "\<exists>progress. session_progress ''s1'' (sdb demo_storage) = Inr progress \<and>
     0 \<in> set (sp_present_ordinals progress)"
  using put_chunk_progress [OF demo_put demo_inv] by auto

text \<open>An ordinal cannot be overwritten. A different content for an ordinal already used is
  refused with \<open>FR_E_CONFLICT\<close> and the metadata stays as it is; but the rejected data has been
  written to a chunk file before the check, and when its digest is new no row names that file, so that
  garbage collection, which goes through the rows, never removes it.\<close>

theorem put_chunk_conflict:
  assumes "load_session sid (sdb s) = Inr session" "si_state session = OPEN"
    "\<not> due session (env_now env)" "ordinal < chunk_count_of session" "data \<noteq> []"
    "length data \<le> unat (si_chunk_size session)" "storage_inv (env_sha env) s" "sha_ok (env_sha env)"
    and "select_one (\<lambda>p. pt_session_id p = sid \<and> pt_ordinal p = sint ordinal) (db_part (sdb s)) = Some p"
    and "pt_digest p \<noteq> sha256_to_hex (env_sha env data)" and "\<forall>op. io (env_io env) op = FR_OK"
    and "content (sfs s) (sha256_to_hex (env_sha env data)) = None" and "length data < 2 ^ 63"
  shows "\<exists>msg s'. put_chunk env sid ordinal (Some data) (length data) s = (Inl (Err FR_E_CONFLICT msg), s') \<and>
     sdb s' = sdb s \<and> content (sfs s') (sha256_to_hex (env_sha env data)) = Some data"
proof -
  let ?d = "sha256_to_hex (env_sha env data)"
  obtain r fs' where put: "chunk_store_put (env_sha env) (env_io env) (Some data) (length data) ?d (sfs s) = (r, fs')"
    by (cases "chunk_store_put (env_sha env) (env_io env) (Some data) (length data) ?d (sfs s)")
  have valid: "fr_digest_hex_valid (Some ?d)" "c_str ?d = ?d" using sha_hex [OF assms(8)] by simp_all
  have "map_of (chunk_files (sfs s)) (chunk_path_of ?d) = None" using assms(12) by (simp add: content_def)
  then have "fst (write_chunk_file (env_io env) (chunk_path_of ?d) data (sfs s)) = Inr ()"
    using assms(11) by (simp add: write_chunk_file_def Let_def)
  then have r: "r = Inr ?d"
    using put valid relative_path_value [OF valid(1)] \<open>map_of _ _ = None\<close>
    by (auto simp: chunk_store_put_def Let_def split: prod.splits sum.splits)
  have "content fs' ?d = Some data"
    using put_spec(3) [OF put assms(8) _ assms(13) r] assms(7,12) by (simp add: storage_inv_def inv_def)
  moreover have "put_chunk env sid ordinal (Some data) (length data) s =
      (Inl (Err FR_E_CONFLICT ''chunk ordinal already used with different content''), s\<lparr>sfs := fs'\<rparr>)"
    using put_chunk_open [OF assms(1-4) _ assms(6), of "Some data"] assms(5,9,10) put r
    by (simp add: store_chunk_def tx_def register_part_def throw_error_def)
  ultimately show ?thesis by simp
qed

theorem put_chunk_conflict_witness:
  "\<exists>msg s'. put_chunk demo_env ''s1'' 0 (Some [9]) 1 demo_storage = (Inl (Err FR_E_CONFLICT msg), s') \<and>
     sdb s' = sdb demo_storage"
proof -
  let ?d = "sha256_to_hex (env_sha demo_env [9])"
  have d: "?d = hex_chars (replicate 32 1)" "demo_digest = hex_chars (replicate 32 2)"
    by (simp_all add: demo_env_def demo_sha_def demo_digest_def sha256_to_hex_value del: hex_chars.simps)
  have ne: "demo_digest \<noteq> ?d" unfolding d by code_simp
  have "content (sfs demo_storage) ?d = None"
    using ne chunk_path_inj [of ?d demo_digest] sha_hex(3) [OF demo_sha_ok, of "[9]"]
      digest_key_length [OF demo_digest_key]
    by (auto simp: content_def demo_storage_def demo_env_def)
  moreover have "select_one (\<lambda>p. pt_session_id p = ''s1'' \<and> pt_ordinal p = sint (0 :: u64)) (db_part (sdb demo_storage)) =
      Some \<lparr>pt_session_id = ''s1'', pt_ordinal = 0, pt_digest = demo_digest, pt_length = 2\<rparr>"
    by (simp add: demo_storage_def)
  moreover have "si_state demo_info = OPEN" "\<not> due demo_info (env_now demo_env)"
    "0 < chunk_count_of demo_info" "length [9 :: u8] \<le> unat (si_chunk_size demo_info)"
    by (simp_all add: demo_info_def due_def demo_env_def chunk_count_of_def)
  moreover have "storage_inv (env_sha demo_env) demo_storage" "sha_ok (env_sha demo_env)"
    "\<forall>op. io (env_io demo_env) op = FR_OK"
    using demo_inv demo_sha_ok by (simp_all add: demo_env_def quiet_env_def)
  ultimately obtain msg s' where
    "put_chunk demo_env ''s1'' 0 (Some [9]) (length [9 :: u8]) demo_storage = (Inl (Err FR_E_CONFLICT msg), s')"
    "sdb s' = sdb demo_storage"
    using put_chunk_conflict [OF demo_load, of demo_env 0 "[9]"] ne by fastforce
  then show ?thesis by simp
qed

end
