(* ===== verification/Dispatch.thy ===== *)
theory Dispatch
  imports StorageRuns Uploads Auth
begin

text \<open>
  The request dispatcher, \<^verbatim>\<open>src/service/fr_dispatch.cpp\<close>: one operation per message
  type on the dispatcher, the client session and the result under construction, the role matrix,
  the failure counters and the resumable downloads. A message is handled as one step: the critical
  sections of one handler are run in a row (their mutex is not modelled). Log calls are left out.
  The monotonic clock, the allocator, the storage settings and the status hub are parameters.
\<close>

section \<open>State\<close>

record ClientSession =
  cs_hello_done :: bool
  cs_authenticated :: bool
  cs_username :: string
  cs_role :: Role
  cs_auth_failures :: int

definition new_client :: ClientSession where
  "new_client = \<lparr>cs_hello_done = False, cs_authenticated = False, cs_username = [],
                 cs_role = Reader, cs_auth_failures = 0\<rparr>"

record HandleResult =
  hr_out :: fr_buf
  hr_close_connection :: bool
  hr_has_more :: bool
  hr_continuation_key :: string

definition empty_result :: HandleResult where
  "empty_result = \<lparr>hr_out = fr_buf_init, hr_close_connection = False, hr_has_more = False,
                   hr_continuation_key = []\<rparr>"

record GetState =
  gs_ns :: string
  gs_name :: string
  gs_version :: string
  gs_offset :: u64
  gs_remaining :: u64
  gs_sent :: u64
  gs_req_id :: u32

record IpStat =
  ip_failures :: int
  ip_window_start :: int
  ip_blocked_until :: int

record dispatcher =
  ds_storage :: storage
  ds_gets :: "string \<rightharpoonup> GetState"
  ds_get_seq :: u64
  ds_ip_stats :: "string \<rightharpoonup> IpStat"

record dispatch_env =
  de_storage :: senv
  de_auth :: auth_env
  de_monotonic :: int
  de_alloc :: alloc
  de_cfg :: StorageConfig
  de_hub :: "(u32 \<times> u64) option"

text \<open>What a handler works on.\<close>

record hstate =
  hs_dispatcher :: dispatcher
  hs_session :: ClientSession
  hs_result :: HandleResult

definition kDataSliceBytes :: u64 where "kDataSliceBytes = 1024 * 1024"
definition kAuthFailuresBeforeClose :: int where "kAuthFailuresBeforeClose = 5"
definition kIpFailureWindowSeconds :: int where "kIpFailureWindowSeconds = 60"
definition kIpFailureThreshold :: int where "kIpFailureThreshold = 20"
definition kIpBlockSeconds :: int where "kIpBlockSeconds = 60"

definition ref_to_string :: "ArtifactRef \<Rightarrow> string" where
  "ref_to_string ref = ref_ns ref @ ''/'' @ ref_name ref @ '':'' @ ref_version ref"

definition server_version :: string where
  "server_version = ''forgerelayd '' @ ''libfrcore 0.1.0''"

text \<open>Calls of the storage and of the registry, which share the database file.\<close>

definition on_storage :: "(storage, 'a) op \<Rightarrow> (hstate, 'a) op" where
  "on_storage m h =
     (case m (ds_storage (hs_dispatcher h)) of
        (r, s) \<Rightarrow> (r, h\<lparr>hs_dispatcher := (hs_dispatcher h)\<lparr>ds_storage := s\<rparr>\<rparr>))"

definition on_db :: "(database, 'a) op \<Rightarrow> (storage, 'a) op" where
  "on_db m s = (case m (sdb s) of (r, db) \<Rightarrow> (r, s\<lparr>sdb := db\<rparr>))"

definition on_auth :: "(database, 'a) op \<Rightarrow> (hstate, 'a) op" where
  "on_auth m = on_storage (on_db m)"

definition ask :: "(database \<Rightarrow> 'a result) \<Rightarrow> (hstate, 'a) op" where
  "ask q = on_storage (query q)"

section \<open>Failure counters of an address\<close>

text \<open>\<open>peer.rfind(':')\<close> and the text before it.\<close>

definition ip_of :: "string \<Rightarrow> string" where
  "ip_of peer =
     (if CHR '':'' \<in> set peer then rev (tl (dropWhile (\<lambda>c. c \<noteq> CHR '':'') (rev peer))) else peer)"

definition note_auth_failure :: "int \<Rightarrow> string \<Rightarrow> dispatcher \<Rightarrow> dispatcher" where
  "note_auth_failure now peer d =
     (let stat = (case ds_ip_stats d (ip_of peer) of
                    None \<Rightarrow> \<lparr>ip_failures = 0, ip_window_start = 0, ip_blocked_until = 0\<rparr>
                  | Some stat \<Rightarrow> stat);
          stat = (if ip_window_start stat = 0 \<or> now - ip_window_start stat > kIpFailureWindowSeconds
                  then stat\<lparr>ip_window_start := now, ip_failures := 0\<rparr> else stat);
          stat = stat\<lparr>ip_failures := ip_failures stat + 1\<rparr>;
          stat = (if ip_failures stat \<ge> kIpFailureThreshold
                  then stat\<lparr>ip_blocked_until := now + kIpBlockSeconds, ip_failures := 0\<rparr> else stat)
      in d\<lparr>ds_ip_stats := (ds_ip_stats d)(ip_of peer \<mapsto> stat)\<rparr>)"

definition check_peer_not_blocked :: "int \<Rightarrow> string \<Rightarrow> dispatcher \<Rightarrow> unit result" where
  "check_peer_not_blocked now peer d =
     (case ds_ip_stats d (ip_of peer) of
        None \<Rightarrow> Inr ()
      | Some stat \<Rightarrow>
          if ip_blocked_until stat > now
          then throw_error FR_E_UNAUTHENTICATED ''too many auth failures from your address''
          else Inr ())"

text \<open>\<open>allow_peer\<close> reads the system clock.\<close>

definition allow_peer :: "int \<Rightarrow> string \<Rightarrow> dispatcher \<Rightarrow> bool" where
  "allow_peer now peer d =
     (case ds_ip_stats d (ip_of peer) of None \<Rightarrow> True | Some stat \<Rightarrow> ip_blocked_until stat \<le> now)"

section \<open>The role matrix\<close>

definition require_role :: "ClientSession \<Rightarrow> Role \<Rightarrow> unit result" where
  "require_role session required =
     (if \<not> cs_authenticated session then throw_error FR_E_UNAUTHENTICATED ''authentication required''
      else if cs_role session = Admin then Inr ()
      else if required = Admin then throw_error FR_E_FORBIDDEN ''admin role required''
      else if required = Publisher \<and> cs_role session = Reader
      then throw_error FR_E_FORBIDDEN ''publisher role required''
      else Inr ())"

definition require_delete_allowed ::
  "ClientSession \<Rightarrow> string \<Rightarrow> string \<Rightarrow> string \<Rightarrow> database \<Rightarrow> unit result" where
  "require_delete_allowed session ns name version db =
     rbind (require_role session Reader) (\<lambda>u.
       if cs_role session = Admin then Inr ()
       else if cs_role session \<noteq> Publisher then throw_error FR_E_FORBIDDEN ''publisher role required''
       else rbind (show_artifact ns name version db) (\<lambda>info.
         if ai_creator info \<noteq> cs_username session
         then throw_error FR_E_FORBIDDEN ''only the creator may delete this artifact''
         else Inr ()))"

definition require_session_allowed :: "ClientSession \<Rightarrow> SessionInfo \<Rightarrow> unit result" where
  "require_session_allowed session info =
     rbind (require_role session Publisher) (\<lambda>u.
       if cs_role session \<noteq> Admin \<and> si_owner info \<noteq> cs_username session
       then throw_error FR_E_FORBIDDEN ''not the owner of this session''
       else Inr ())"

section \<open>Frames of the result\<close>

text \<open>The status of \<open>fr_frame_encode\<close> is ignored.\<close>

definition put_frame ::
  "dispatch_env \<Rightarrow> fr_msg_type \<Rightarrow> u32 \<Rightarrow> bytes option \<Rightarrow> u64 \<Rightarrow> fr_buf \<Rightarrow> fr_buf" where
  "put_frame env type rid payload len out =
     snd (fr_frame_encode (de_alloc env) out (msg_value type) 0 rid payload len)"

definition make_ok :: "dispatch_env \<Rightarrow> u32 \<Rightarrow> bytes option \<Rightarrow> u64 \<Rightarrow> HandleResult \<Rightarrow> HandleResult" where
  "make_ok env rid payload len res = res\<lparr>hr_out := put_frame env FR_MSG_OK rid payload len (hr_out res)\<rparr>"

definition ok_empty :: "dispatch_env \<Rightarrow> u32 \<Rightarrow> (hstate, unit) op" where
  "ok_empty env rid = op_modify (\<lambda>h. h\<lparr>hs_result := make_ok env rid None 0 (hs_result h)\<rparr>)"

text \<open>A payload is encoded into a buffer of its own and sent in an OK frame.\<close>

definition answer :: "dispatch_env \<Rightarrow> u32 \<Rightarrow> (fr_buf \<Rightarrow> fr_buf result) \<Rightarrow> (hstate, unit) op" where
  "answer env rid encode =
     op_bind (op_lift (encode fr_buf_init)) (\<lambda>payload.
       op_modify (\<lambda>h. h\<lparr>hs_result := make_ok env rid (buf_data payload) (buf_len payload) (hs_result h)\<rparr>))"

definition audited :: "dispatch_env \<Rightarrow> ClientSession \<Rightarrow> string \<Rightarrow> string \<Rightarrow> (hstate, unit) op" where
  "audited env session action target =
     on_auth (audit (de_auth env) (cs_username session) action target ''ok'')"

section \<open>Uploads\<close>

definition handle_create_upload :: "dispatch_env \<Rightarrow> ClientSession \<Rightarrow> u32 \<Rightarrow> fr_frame \<Rightarrow> (hstate, unit) op" where
  "handle_create_upload env session rid frame =
     op_bind (op_lift (require_role session Publisher)) (\<lambda>u.
     op_bind (op_lift (decode_create_upload_req frame)) (\<lambda>req.
     op_bind (on_storage (create_session (de_cfg env) (de_storage env) (ref_ns (cu_ref req))
                (ref_name (cu_ref req)) (ref_version (cu_ref req)) (cu_expected_size req)
                (cu_expected_digest req) (cs_username session))) (\<lambda>created.
       answer env rid (encode_create_upload_ok (de_alloc env)
         \<lparr>co_session_id = si_id created, co_chunk_size = si_chunk_size created,
          co_expires_at = si_expires_at created\<rparr>))))"

text \<open>The check that the client may work on an upload session.\<close>

definition allowed_session :: "ClientSession \<Rightarrow> string \<Rightarrow> (hstate, SessionInfo) op" where
  "allowed_session session session_id =
     op_bind (on_storage (get_session session_id)) (\<lambda>info.
     op_bind (op_lift (require_session_allowed session info)) (\<lambda>u. op_return info))"

definition handle_put_chunk :: "dispatch_env \<Rightarrow> ClientSession \<Rightarrow> u32 \<Rightarrow> fr_frame \<Rightarrow> (hstate, unit) op" where
  "handle_put_chunk env session rid frame =
     op_bind (op_lift (decode_put_chunk_req frame)) (\<lambda>req.
     op_bind (allowed_session session (pc_session_id req)) (\<lambda>info.
     op_bind (on_storage (put_chunk (de_storage env) (pc_session_id req) (pc_ordinal req)
                (Some (pc_data req)) (length (pc_data req)))) (\<lambda>accept.
       answer env rid (encode_put_chunk_ok (de_alloc env)
         \<lparr>po_digest = ca_digest accept, po_reused = ca_reused accept\<rparr>))))"

text \<open>A store to an index beyond the vector is undefined in the source; here it has no effect.\<close>

definition set_present :: "u64 \<Rightarrow> bytes \<Rightarrow> bytes" where
  "set_present ordinal bits =
     (let i = unat (ordinal div 8)
      in bits[i := or (bits ! i) (push_bit (unat (ordinal mod 8)) 1)])"

definition present_bitmap :: "SessionProgress \<Rightarrow> bytes" where
  "present_bitmap progress =
     fold set_present (sp_present_ordinals progress)
       (replicate (unat ((sp_chunk_count progress + 7) div 8)) 0)"

definition handle_query_upload :: "dispatch_env \<Rightarrow> ClientSession \<Rightarrow> u32 \<Rightarrow> fr_frame \<Rightarrow> (hstate, unit) op" where
  "handle_query_upload env session rid frame =
     op_bind (op_lift (decode get_str frame)) (\<lambda>session_id.
     op_bind (allowed_session session session_id) (\<lambda>info.
     op_bind (ask (session_progress session_id)) (\<lambda>progress.
       if (sp_chunk_count progress + 7) div 8 > 1024 * 1024
       then op_throw FR_E_RANGE ''session chunk count exceeds QUERY bitmap limit''
       else answer env rid (encode_query_upload_ok (de_alloc env)
              \<lparr>qu_state = si_state info, qu_chunk_count = sp_chunk_count progress,
               qu_present_bitmap = present_bitmap progress\<rparr>))))"

definition handle_commit_upload :: "dispatch_env \<Rightarrow> ClientSession \<Rightarrow> u32 \<Rightarrow> fr_frame \<Rightarrow> (hstate, unit) op" where
  "handle_commit_upload env session rid frame =
     op_bind (op_lift (decode get_str frame)) (\<lambda>session_id.
     op_bind (allowed_session session session_id) (\<lambda>info.
     op_bind (on_storage (commit_session (de_storage env) session_id)) (\<lambda>published.
       answer env rid (encode_commit_upload_ok (de_alloc env)
         \<lparr>cm_ref = \<lparr>ref_ns = ai_ns published, ref_name = ai_name published,
                    ref_version = ai_version published\<rparr>,
          cm_size = ai_size published, cm_digest = ai_digest published\<rparr>))))"

definition handle_abort_upload :: "dispatch_env \<Rightarrow> ClientSession \<Rightarrow> u32 \<Rightarrow> fr_frame \<Rightarrow> (hstate, unit) op" where
  "handle_abort_upload env session rid frame =
     op_bind (op_lift (decode get_str frame)) (\<lambda>session_id.
     op_bind (allowed_session session session_id) (\<lambda>info.
     op_bind (on_storage (abort_session (de_storage env) session_id)) (\<lambda>u.
     op_bind (audited env session ''session.abort'' session_id) (\<lambda>u.
       ok_empty env rid))))"

section \<open>Downloads\<close>

text \<open>One DATA frame for every piece the storage hands to the sink.\<close>

definition put_pieces :: "dispatch_env \<Rightarrow> u32 \<Rightarrow> bytes list \<Rightarrow> fr_buf \<Rightarrow> fr_buf" where
  "put_pieces env rid pieces =
     fold (\<lambda>piece. put_frame env FR_MSG_DATA rid (Some piece) (of_nat (length piece))) pieces"

text \<open>The slice a handler reads for a download: the bytes got and the state moved on.\<close>

definition advance_get ::
  "dispatch_env \<Rightarrow> storage \<Rightarrow> GetState \<Rightarrow> fr_buf \<Rightarrow> (u64 \<times> GetState) result \<times> fr_buf" where
  "advance_get env s state out =
     (let slice = (if gs_remaining state > kDataSliceBytes then kDataSliceBytes else gs_remaining state)
      in if slice = 0 then (Inr (0, state), out)
         else case read_artifact_slice (env_io (de_storage env)) (gs_ns state) (gs_name state)
                     (gs_version state) (gs_offset state) slice s of
                (r, pieces) \<Rightarrow>
                  (rbind r (\<lambda>got. Inr (got, state\<lparr>gs_offset := gs_offset state + got,
                                                  gs_remaining := gs_remaining state - got,
                                                  gs_sent := gs_sent state + got\<rparr>)),
                   put_pieces env (gs_req_id state) pieces out))"

definition get_key :: "u64 \<Rightarrow> u64 \<Rightarrow> string" where
  "get_key conn_id num = ''get-'' @ decimal (unat conn_id) @ ''-'' @ decimal (unat num)"

definition set_get :: "string \<Rightarrow> GetState \<Rightarrow> dispatcher \<Rightarrow> dispatcher" where
  "set_get key state d = d\<lparr>ds_gets := (ds_gets d)(key \<mapsto> state)\<rparr>"

definition erase_get :: "string \<Rightarrow> dispatcher \<Rightarrow> dispatcher" where
  "erase_get key d = d\<lparr>ds_gets := (ds_gets d)(key := None)\<rparr>"

text \<open>\<open>map::emplace\<close> keeps an entry that is already there.\<close>

definition emplace_get :: "string \<Rightarrow> GetState \<Rightarrow> dispatcher \<Rightarrow> GetState \<times> dispatcher" where
  "emplace_get key state d =
     (case ds_gets d key of Some old \<Rightarrow> (old, d) | None \<Rightarrow> (state, set_get key state d))"

definition handle_get_artifact ::
  "dispatch_env \<Rightarrow> u64 \<Rightarrow> ClientSession \<Rightarrow> u32 \<Rightarrow> fr_frame \<Rightarrow> (hstate, unit) op" where
  "handle_get_artifact env conn_id session rid frame =
     op_bind (op_lift (require_role session Reader)) (\<lambda>u.
     op_bind (op_lift (decode_get_artifact_req frame)) (\<lambda>req h.
       let d = hs_dispatcher h;
           key = get_key conn_id (ds_get_seq d);
           (state, d) = emplace_get key
             \<lparr>gs_ns = ref_ns (ga_ref req), gs_name = ref_name (ga_ref req),
              gs_version = ref_version (ga_ref req), gs_offset = ga_offset req,
              gs_remaining = ga_length req, gs_sent = 0, gs_req_id = rid\<rparr>
             (d\<lparr>ds_get_seq := ds_get_seq d + 1\<rparr>)
       in case advance_get env (ds_storage d) state (hr_out (hs_result h)) of
            (Inl e, out) \<Rightarrow>
              (Inl e, h\<lparr>hs_dispatcher := d, hs_result := (hs_result h)\<lparr>hr_out := out\<rparr>\<rparr>)
          | (Inr (got, state), out) \<Rightarrow>
              let h = h\<lparr>hs_dispatcher := set_get key state d,
                        hs_result := (hs_result h)\<lparr>hr_out := out\<rparr>\<rparr>
              in if gs_remaining state = 0
                 then op_bind (answer env rid (encode_get_artifact_ok (de_alloc env)
                                 \<lparr>go_bytes_sent = gs_sent state\<rparr>)) (\<lambda>u.
                      op_modify (\<lambda>h. h\<lparr>hs_dispatcher := erase_get key (hs_dispatcher h)\<rparr>)) h
                 else (Inr (), h\<lparr>hs_result := (hs_result h)\<lparr>hr_has_more := True,
                                                              hr_continuation_key := key\<rparr>\<rparr>)))"

text \<open>An exception leaves \<open>handle_get_continue\<close>; its caller answers it.\<close>

definition handle_get_continue ::
  "dispatch_env \<Rightarrow> string \<Rightarrow> dispatcher \<Rightarrow> HandleResult result \<times> dispatcher" where
  "handle_get_continue env state_key d =
     (case ds_gets d state_key of
        None \<Rightarrow> (Inr empty_result, d)
      | Some state \<Rightarrow>
          case advance_get env (ds_storage d) state fr_buf_init of
            (Inl e, out) \<Rightarrow> (Inl e, d)
          | (Inr (got, state), out) \<Rightarrow>
              if gs_remaining state = 0 \<or> got = 0
              then case encode_get_artifact_ok (de_alloc env) \<lparr>go_bytes_sent = gs_sent state\<rparr> fr_buf_init of
                     Inl e \<Rightarrow> (Inl e, set_get state_key state d)
                   | Inr payload \<Rightarrow>
                       (Inr (empty_result\<lparr>hr_out := put_frame env FR_MSG_OK (gs_req_id state)
                               (buf_data payload) (buf_len payload) out\<rparr>),
                        erase_get state_key d)
              else (Inr (empty_result\<lparr>hr_out := out, hr_has_more := True,
                                      hr_continuation_key := state_key\<rparr>),
                    set_get state_key state d))"

text \<open>\<open>key.rfind(prefix, 0) == 0\<close>.\<close>

definition on_connection_closed :: "u64 \<Rightarrow> dispatcher \<Rightarrow> dispatcher" where
  "on_connection_closed conn_id d =
     (let prefix = ''get-'' @ decimal (unat conn_id) @ ''-''
      in d\<lparr>ds_gets := (\<lambda>key. if take (length prefix) key = prefix then None else ds_gets d key)\<rparr>)"

section \<open>Queries\<close>

definition artifact_summary :: "ArtifactInfo \<Rightarrow> ArtifactSummary" where
  "artifact_summary info =
     \<lparr>as_ns = ai_ns info, as_name = ai_name info, as_version = ai_version info,
      as_size = ai_size info, as_digest = ai_digest info, as_creator = ai_creator info,
      as_created_at = ai_created_at info\<rparr>"

definition handle_list_artifacts :: "dispatch_env \<Rightarrow> ClientSession \<Rightarrow> u32 \<Rightarrow> fr_frame \<Rightarrow> (hstate, unit) op" where
  "handle_list_artifacts env session rid frame =
     op_bind (op_lift (require_role session Reader)) (\<lambda>u.
     op_bind (op_lift (decode_list_artifacts_req frame)) (\<lambda>req.
     op_bind (ask (list_artifacts (la_ns req) (la_name req) (uint (la_limit req)) (uint (la_offset req))))
       (\<lambda>items.
         answer env rid (encode_list_artifacts_ok (de_alloc env)
           \<lparr>lao_items = map artifact_summary items\<rparr>))))"

definition handle_show_artifact :: "dispatch_env \<Rightarrow> ClientSession \<Rightarrow> u32 \<Rightarrow> fr_frame \<Rightarrow> (hstate, unit) op" where
  "handle_show_artifact env session rid frame =
     op_bind (op_lift (require_role session Reader)) (\<lambda>u.
     op_bind (op_lift (decode_ref frame)) (\<lambda>ref.
     op_bind (ask (show_artifact (ref_ns ref) (ref_name ref) (ref_version ref))) (\<lambda>info.
       answer env rid (encode_show_artifact_ok (de_alloc env) \<lparr>sa_info = info\<rparr>))))"

definition server_status :: "dispatch_env \<Rightarrow> database \<Rightarrow> StatusOk" where
  "server_status env db =
     \<lparr>st_version = server_version,
      st_uptime_seconds =
        (case de_hub env of
           None \<Rightarrow> 0
         | Some (connections, start) \<Rightarrow>
             if sint start = 0 then 0 else word_of_int (de_monotonic env - sint start)),
      st_connections = (case de_hub env of None \<Rightarrow> 0 | Some (connections, start) \<Rightarrow> connections),
      st_active_sessions = word_of_int (active_session_count db),
      st_artifacts = word_of_int (artifact_count db),
      st_used_bytes = used_bytes db,
      st_capacity_bytes = cfg_capacity_bytes (de_cfg env),
      st_high_watermark_percent = word_of_int (cfg_high_watermark_percent (de_cfg env))\<rparr>"

definition handle_status :: "dispatch_env \<Rightarrow> ClientSession \<Rightarrow> u32 \<Rightarrow> (hstate, unit) op" where
  "handle_status env session rid =
     op_bind (op_lift (require_role session Reader)) (\<lambda>u.
     op_bind (ask (\<lambda>db. Inr (server_status env db))) (\<lambda>ok.
       answer env rid (encode_status_ok (de_alloc env) ok)))"

section \<open>Administration\<close>

definition handle_delete_artifact :: "dispatch_env \<Rightarrow> ClientSession \<Rightarrow> u32 \<Rightarrow> fr_frame \<Rightarrow> (hstate, unit) op" where
  "handle_delete_artifact env session rid frame =
     op_bind (op_lift (decode_ref frame)) (\<lambda>ref.
     op_bind (ask (require_delete_allowed session (ref_ns ref) (ref_name ref) (ref_version ref))) (\<lambda>u.
     op_bind (on_storage (delete_artifact (de_storage env) (ref_ns ref) (ref_name ref) (ref_version ref)))
       (\<lambda>marked.
     op_bind (audited env session ''artifact.delete'' (ref_to_string ref)) (\<lambda>u.
       answer env rid (encode_delete_artifact_ok (de_alloc env) \<lparr>do_marked_chunks = marked\<rparr>)))))"

definition handle_run_gc :: "dispatch_env \<Rightarrow> ClientSession \<Rightarrow> u32 \<Rightarrow> fr_frame \<Rightarrow> (hstate, unit) op" where
  "handle_run_gc env session rid frame =
     op_bind (op_lift (require_role session Admin)) (\<lambda>u.
     op_bind (op_lift (decode_run_gc_req frame)) (\<lambda>req.
     op_bind (on_storage (collect_garbage (de_cfg env) (de_storage env) (rg_dry_run req))) (\<lambda>report.
     op_bind (audited env session (if rg_dry_run req then ''gc.dry_run'' else ''gc.run'') ''storage'') (\<lambda>u.
       answer env rid (encode_run_gc_ok (de_alloc env)
         \<lparr>ro_scanned = gc_scanned report, ro_deleted_count = gc_deleted_count report,
          ro_deleted_bytes = gc_deleted_bytes report\<rparr>)))))"

definition handle_user_add :: "dispatch_env \<Rightarrow> ClientSession \<Rightarrow> u32 \<Rightarrow> fr_frame \<Rightarrow> (hstate, unit) op" where
  "handle_user_add env session rid frame =
     op_bind (op_lift (require_role session Admin)) (\<lambda>u.
     op_bind (op_lift (decode_user_add_req frame)) (\<lambda>req.
     op_bind (on_auth (user_add (de_auth env) (ua_username req) (role_of_value (ua_role req)))) (\<lambda>u.
     op_bind (audited env session ''user.add'' (ua_username req)) (\<lambda>u.
       ok_empty env rid))))"

definition handle_user_disable :: "dispatch_env \<Rightarrow> ClientSession \<Rightarrow> u32 \<Rightarrow> fr_frame \<Rightarrow> (hstate, unit) op" where
  "handle_user_disable env session rid frame =
     op_bind (op_lift (require_role session Admin)) (\<lambda>u.
     op_bind (op_lift (decode get_str frame)) (\<lambda>username.
     op_bind (on_auth (user_disable username)) (\<lambda>u.
     op_bind (audited env session ''user.disable'' username) (\<lambda>u.
       ok_empty env rid))))"

definition handle_user_list :: "dispatch_env \<Rightarrow> ClientSession \<Rightarrow> u32 \<Rightarrow> (hstate, unit) op" where
  "handle_user_list env session rid =
     op_bind (op_lift (require_role session Admin)) (\<lambda>u.
     op_bind (ask user_list) (\<lambda>items.
       answer env rid (encode_user_list_ok (de_alloc env) \<lparr>ulo_items = items\<rparr>)))"

definition handle_token_create :: "dispatch_env \<Rightarrow> ClientSession \<Rightarrow> u32 \<Rightarrow> fr_frame \<Rightarrow> (hstate, unit) op" where
  "handle_token_create env session rid frame =
     op_bind (op_lift (require_role session Admin)) (\<lambda>u.
     op_bind (op_lift (decode_token_create_req frame)) (\<lambda>req.
     op_bind (on_auth (token_create (de_auth env) (tc_username req) (tc_ttl_hours req))) (\<lambda>token.
     op_bind (audited env session ''token.create'' (tc_username req)) (\<lambda>u.
       answer env rid (encode_token_create_ok (de_alloc env) \<lparr>to_token = token\<rparr>)))))"

definition handle_token_revoke :: "dispatch_env \<Rightarrow> ClientSession \<Rightarrow> u32 \<Rightarrow> fr_frame \<Rightarrow> (hstate, unit) op" where
  "handle_token_revoke env session rid frame =
     op_bind (op_lift (require_role session Admin)) (\<lambda>u.
     op_bind (op_lift (decode get_u64 frame)) (\<lambda>token_id.
     op_bind (on_auth (token_revoke (de_auth env) token_id)) (\<lambda>u.
     op_bind (audited env session ''token.revoke'' (decimal (unat token_id))) (\<lambda>u.
       ok_empty env rid))))"

definition handle_token_list :: "dispatch_env \<Rightarrow> ClientSession \<Rightarrow> u32 \<Rightarrow> fr_frame \<Rightarrow> (hstate, unit) op" where
  "handle_token_list env session rid frame =
     op_bind (op_lift (require_role session Admin)) (\<lambda>u.
     op_bind (op_lift (decode get_str frame)) (\<lambda>username.
     op_bind (ask (\<lambda>db. Inr (token_list username db))) (\<lambda>items.
       answer env rid (encode_token_list_ok (de_alloc env) \<lparr>tlo_items = items\<rparr>))))"

definition session_item :: "SessionInfo \<Rightarrow> SessionItem" where
  "session_item info =
     \<lparr>se_session_id = si_id info, se_owner = si_owner info, se_state = si_state info,
      se_ns = si_ns info, se_name = si_name info, se_version = si_version info,
      se_expected_size = si_expected_size info, se_created_at = si_created_at info\<rparr>"

definition handle_session_list :: "dispatch_env \<Rightarrow> ClientSession \<Rightarrow> u32 \<Rightarrow> (hstate, unit) op" where
  "handle_session_list env session rid =
     op_bind (op_lift (require_role session Admin)) (\<lambda>u.
     op_bind (on_storage (list_sessions None)) (\<lambda>sessions.
       answer env rid (encode_session_list_ok (de_alloc env) \<lparr>slo_items = map session_item sessions\<rparr>)))"

definition handle_session_abort :: "dispatch_env \<Rightarrow> ClientSession \<Rightarrow> u32 \<Rightarrow> fr_frame \<Rightarrow> (hstate, unit) op" where
  "handle_session_abort env session rid frame =
     op_bind (op_lift (require_role session Admin)) (\<lambda>u.
     op_bind (op_lift (decode get_str frame)) (\<lambda>session_id.
     op_bind (on_storage (abort_session (de_storage env) session_id)) (\<lambda>u.
     op_bind (audited env session ''session.abort'' session_id) (\<lambda>u.
       ok_empty env rid))))"

section \<open>The dispatcher\<close>

definition dispatch_business ::
  "dispatch_env \<Rightarrow> u64 \<Rightarrow> ClientSession \<Rightarrow> u32 \<Rightarrow> fr_frame \<Rightarrow> (hstate, unit) op" where
  "dispatch_business env conn_id session rid frame =
     (let type = frame_type frame in
      if type = msg_value FR_MSG_CREATE_UPLOAD then handle_create_upload env session rid frame
      else if type = msg_value FR_MSG_PUT_CHUNK then handle_put_chunk env session rid frame
      else if type = msg_value FR_MSG_QUERY_UPLOAD then handle_query_upload env session rid frame
      else if type = msg_value FR_MSG_COMMIT_UPLOAD then handle_commit_upload env session rid frame
      else if type = msg_value FR_MSG_ABORT_UPLOAD then handle_abort_upload env session rid frame
      else if type = msg_value FR_MSG_GET_ARTIFACT then handle_get_artifact env conn_id session rid frame
      else if type = msg_value FR_MSG_LIST_ARTIFACTS then handle_list_artifacts env session rid frame
      else if type = msg_value FR_MSG_SHOW_ARTIFACT then handle_show_artifact env session rid frame
      else if type = msg_value FR_MSG_STATUS then handle_status env session rid
      else if type = msg_value FR_MSG_DELETE_ARTIFACT then handle_delete_artifact env session rid frame
      else if type = msg_value FR_MSG_RUN_GC then handle_run_gc env session rid frame
      else if type = msg_value FR_MSG_USER_ADD then handle_user_add env session rid frame
      else if type = msg_value FR_MSG_USER_DISABLE then handle_user_disable env session rid frame
      else if type = msg_value FR_MSG_USER_LIST then handle_user_list env session rid
      else if type = msg_value FR_MSG_TOKEN_CREATE then handle_token_create env session rid frame
      else if type = msg_value FR_MSG_TOKEN_REVOKE then handle_token_revoke env session rid frame
      else if type = msg_value FR_MSG_TOKEN_LIST then handle_token_list env session rid frame
      else if type = msg_value FR_MSG_SESSION_LIST then handle_session_list env session rid
      else if type = msg_value FR_MSG_SESSION_ABORT then handle_session_abort env session rid frame
      else op_throw FR_E_PROTOCOL ''unhandled message type'')"

definition handle_hello :: "dispatch_env \<Rightarrow> u32 \<Rightarrow> fr_frame \<Rightarrow> (hstate, unit) op" where
  "handle_hello env rid frame =
     op_bind (op_lift (decode_hello_req frame)) (\<lambda>req.
     op_bind (op_modify (\<lambda>h. h\<lparr>hs_session := (hs_session h)\<lparr>cs_hello_done := True\<rparr>\<rparr>)) (\<lambda>u.
       answer env rid (put_str (de_alloc env) server_version)))"

definition handle_auth :: "dispatch_env \<Rightarrow> string \<Rightarrow> u32 \<Rightarrow> fr_frame \<Rightarrow> (hstate, unit) op" where
  "handle_auth env peer rid frame h =
     op_bind (op_lift (check_peer_not_blocked (de_monotonic env) peer (hs_dispatcher h))) (\<lambda>u.
     op_bind (op_lift (decode_auth_req frame)) (\<lambda>req.
     op_bind (ask (verify (de_auth env) (auth_token req))) (\<lambda>ok.
     op_bind (op_modify (\<lambda>h. h\<lparr>hs_session := (hs_session h)\<lparr>cs_authenticated := True,
                                  cs_username := ao_username ok, cs_role := role_of_value (ao_role ok),
                                  cs_auth_failures := 0\<rparr>\<rparr>)) (\<lambda>u.
       answer env rid (encode_auth_ok (de_alloc env) ok))))) h"

definition handle_close :: "dispatch_env \<Rightarrow> u32 \<Rightarrow> (hstate, unit) op" where
  "handle_close env rid =
     op_bind (ok_empty env rid) (\<lambda>u.
       op_modify (\<lambda>h. h\<lparr>hs_result := (hs_result h)\<lparr>hr_close_connection := True\<rparr>\<rparr>))"

definition handle_frame ::
  "dispatch_env \<Rightarrow> u64 \<Rightarrow> string \<Rightarrow> u32 \<Rightarrow> fr_frame \<Rightarrow> (hstate, unit) op" where
  "handle_frame env conn_id peer rid frame h =
     (if frame_type frame = msg_value FR_MSG_HELLO then handle_hello env rid frame h
      else if frame_type frame = msg_value FR_MSG_AUTH then handle_auth env peer rid frame h
      else if frame_type frame = msg_value FR_MSG_PING
      then op_bind (op_lift (decode_data frame)) (\<lambda>payload. ok_empty env rid) h
      else if frame_type frame = msg_value FR_MSG_CLOSE then handle_close env rid h
      else if \<not> cs_authenticated (hs_session h)
      then op_throw FR_E_UNAUTHENTICATED ''authentication required'' h
      else dispatch_business env conn_id (hs_session h) rid frame h)"

text \<open>The handler of \<open>fr::Error\<close>; encoding the error can throw again.\<close>

definition answer_error ::
  "dispatch_env \<Rightarrow> string \<Rightarrow> u32 \<Rightarrow> fr_frame \<Rightarrow> fr_status \<Rightarrow> string \<Rightarrow> (hstate, unit) op" where
  "answer_error env peer rid frame code message h =
     (let h = (if code = FR_E_UNAUTHENTICATED \<and> frame_type frame = msg_value FR_MSG_AUTH
               then let session = (hs_session h)\<lparr>cs_auth_failures := cs_auth_failures (hs_session h) + 1\<rparr>;
                        h = h\<lparr>hs_session := session,
                              hs_dispatcher := note_auth_failure (de_monotonic env) peer (hs_dispatcher h)\<rparr>
                    in if cs_auth_failures session \<ge> kAuthFailuresBeforeClose
                       then h\<lparr>hs_result := (hs_result h)\<lparr>hr_close_connection := True\<rparr>\<rparr> else h
               else h);
          h = h\<lparr>hs_result := (hs_result h)\<lparr>hr_out := fr_buf_clear (hr_out (hs_result h))\<rparr>\<rparr>
      in op_bind (op_lift (encode_error_payload (de_alloc env) code (c_str message) fr_buf_init)) (\<lambda>payload.
           op_modify (\<lambda>h. h\<lparr>hs_result := (hs_result h)\<lparr>hr_out :=
             put_frame env FR_MSG_ERROR rid (buf_data payload) (buf_len payload) (hr_out (hs_result h))\<rparr>\<rparr>)) h)"

text \<open>The result, or the exception that leaves \<open>handle\<close>.\<close>

definition handle ::
  "dispatch_env \<Rightarrow> u64 \<Rightarrow> string \<Rightarrow> fr_frame \<Rightarrow> ClientSession \<Rightarrow> dispatcher \<Rightarrow>
     HandleResult result \<times> ClientSession \<times> dispatcher" where
  "handle env conn_id peer frame session d =
     (let rid = (if frame_req_id frame = 0 then 1 else frame_req_id frame);
          h = \<lparr>hs_dispatcher = d, hs_session = session, hs_result = empty_result\<rparr>;
          (r, h) = (case handle_frame env conn_id peer rid frame h of
                      (Inl (Err code message), h) \<Rightarrow> answer_error env peer rid frame code message h
                    | other \<Rightarrow> other)
      in (rbind r (\<lambda>u. Inr (hs_result h)), hs_session h, hs_dispatcher h))"

end
