(* ===== verification/Service.thy ===== *)
theory Service
  imports Dispatch
begin

text \<open>
  The dispatcher as a whole (\<^verbatim>\<open>src/service/fr_dispatch.cpp\<close>): which part of the state a
  handler can change, depending on the role of the client; the service with its connections as a
  transition system; and its invariant.
\<close>

named_theorems handler_defs "the handlers of the business messages"

declare handle_create_upload_def [handler_defs] handle_put_chunk_def [handler_defs]
  handle_query_upload_def [handler_defs] handle_commit_upload_def [handler_defs]
  handle_abort_upload_def [handler_defs] handle_list_artifacts_def [handler_defs]
  handle_show_artifact_def [handler_defs] handle_status_def [handler_defs]
  handle_delete_artifact_def [handler_defs] handle_run_gc_def [handler_defs]
  handle_user_add_def [handler_defs] handle_user_disable_def [handler_defs]
  handle_user_list_def [handler_defs] handle_token_create_def [handler_defs]
  handle_token_revoke_def [handler_defs] handle_token_list_def [handler_defs]
  handle_session_list_def [handler_defs] handle_session_abort_def [handler_defs]

declare decimal.simps [simp del]

section \<open>What a handler keeps\<close>

text \<open>A property of the storage, as a property of what a handler works on.\<close>

definition stored :: "(storage \<Rightarrow> bool) \<Rightarrow> hstate \<Rightarrow> bool" where
  "stored P h = P (ds_storage (hs_dispatcher h))"

text \<open>The registry part of the database, which the storage operations do not touch.\<close>

definition registry :: "database \<Rightarrow> user_row list \<times> int \<times> token_row list \<times> int" where
  "registry db = (db_user db, db_user_seq db, db_token db, db_token_seq db)"

lemma auth_ok_registry: "registry db' = registry db \<Longrightarrow> auth_ok db' = auth_ok db"
  by (simp add: registry_def auth_ok_def)

lemma keeps_if: "keeps I m \<Longrightarrow> keeps I n \<Longrightarrow> keeps I (if b then m else n)"
  by simp

lemma keeps_on_storage: "keeps P m \<Longrightarrow> keeps (stored P) (on_storage m)"
  by (auto simp: keeps_def stored_def on_storage_def split: prod.splits)

lemma keeps_ask: "keeps (stored P) (ask q)"
  unfolding ask_def by (intro keeps_on_storage keeps_query)

lemma keeps_answer: "keeps (stored P) (answer env rid encode)"
  unfolding answer_def by (intro keeps_intros keeps_modify) (simp add: stored_def)

lemma keeps_ok_empty: "keeps (stored P) (ok_empty env rid)"
  unfolding ok_empty_def by (intro keeps_modify) (simp add: stored_def)

lemma keeps_allowed_session: "keeps (stored P) (allowed_session session sid)"
  unfolding allowed_session_def get_session_def
  by (intro keeps_intros keeps_on_storage keeps_query)

lemma allowed_session_state: "snd (allowed_session session sid h) = h"
  by (cases h) (simp add: allowed_session_def get_session_def on_storage_def query_def op_lift_def
    op_return_def split: sum.splits)

lemma keeps_read_only: "keeps P (list_sessions st)"
  by (cases st) (auto simp: list_sessions_def intro!: keeps_intros keeps_query)

lemma keeps_get_artifact: "keeps (stored P) (handle_get_artifact env conn_id session rid frame)"
  unfolding handle_get_artifact_def
proof (intro keeps_bind keeps_lift)
  fix req
  show "keeps (stored P) (\<lambda>h. let d = hs_dispatcher h; key = get_key conn_id (ds_get_seq d);
      (state, d) = emplace_get key
         \<lparr>gs_ns = ref_ns (ga_ref req), gs_name = ref_name (ga_ref req),
          gs_version = ref_version (ga_ref req), gs_offset = ga_offset req,
          gs_remaining = ga_length req, gs_sent = 0, gs_req_id = rid\<rparr> (d\<lparr>ds_get_seq := ds_get_seq d + 1\<rparr>)
    in case advance_get env (ds_storage d) state (hr_out (hs_result h)) of
         (Inl e, out) \<Rightarrow> (Inl e, h\<lparr>hs_dispatcher := d, hs_result := (hs_result h)\<lparr>hr_out := out\<rparr>\<rparr>)
       | (Inr (got, state), out) \<Rightarrow>
           let h = h\<lparr>hs_dispatcher := set_get key state d, hs_result := (hs_result h)\<lparr>hr_out := out\<rparr>\<rparr>
           in if gs_remaining state = 0
              then op_bind (answer env rid (encode_get_artifact_ok (de_alloc env) \<lparr>go_bytes_sent = gs_sent state\<rparr>))
                     (\<lambda>u. op_modify (\<lambda>h. h\<lparr>hs_dispatcher := erase_get key (hs_dispatcher h)\<rparr>)) h
              else (Inr (), h\<lparr>hs_result := (hs_result h)\<lparr>hr_has_more := True, hr_continuation_key := key\<rparr>\<rparr>))"
    (is "keeps _ ?m")
    unfolding keeps_def
  proof (intro allI impI)
    fix h assume h: "stored P h"
    have last: "keeps (stored P) (op_bind (answer env rid e) (\<lambda>u.
        op_modify (\<lambda>h. h\<lparr>hs_dispatcher := erase_get key (hs_dispatcher h)\<rparr>)))" for e key
      by (intro keeps_bind keeps_answer keeps_modify) (simp add: stored_def erase_get_def)
    have "stored P (snd (op_bind (answer env rid e) (\<lambda>u.
        op_modify (\<lambda>h. h\<lparr>hs_dispatcher := erase_get key (hs_dispatcher h)\<rparr>)) h'))"
      if "stored P h'" for e key h' using last that unfolding keeps_def by blast
    then show "stored P (snd (?m h))"
      using h
      by (auto simp: stored_def emplace_get_def set_get_def Let_def split: prod.splits sum.splits option.splits
          simp del: op_bind.simps)
  qed
qed

lemmas keeps_handler = keeps_bind keeps_return keeps_throw keeps_lift keeps_if keeps_ask keeps_answer
  keeps_ok_empty keeps_allowed_session keeps_get_artifact keeps_on_storage keeps_read_only keeps_query


section \<open>The storage leaves the registry alone\<close>

definition registered :: "user_row list \<times> int \<times> token_row list \<times> int \<Rightarrow> storage \<Rightarrow> bool" where
  "registered R s = (registry (sdb s) = R)"

lemma registry_simps [simp]:
  "registry (db\<lparr>db_session := x1\<rparr>) = registry db" "registry (db\<lparr>db_part := x2\<rparr>) = registry db"
  "registry (db\<lparr>db_chunk := x3\<rparr>) = registry db" "registry (db\<lparr>db_artifact := x4\<rparr>) = registry db"
  "registry (db\<lparr>db_artifact_chunk := x5\<rparr>) = registry db" "registry (db\<lparr>db_artifact_seq := x6\<rparr>) = registry db"
  by (simp_all add: registry_def)

lemma registry_mark_pending [simp]: "registry (mark_pending now d db) = registry db"
  by (simp add: mark_pending_def)

lemma registry_mark_unreferenced [simp]: "registry (mark_unreferenced now ds db) = registry db"
  by (induction ds arbitrary: db) simp_all

lemma registry_updates [simp]:
  "registry (delete_parts sid db) = registry db" "registry (reactivate d db) = registry db"
  "registry (mark_unreferenced_parts sid now db) = registry db"
  "registry (expire_session_if_due session now db) = registry db"
  "registry (insert_chunk d len now db) = registry db" "registry (set_completed sid db) = registry db"
  "registry (delete_artifact_rows i db) = registry db"
  by (simp_all add: delete_parts_def reactivate_def mark_unreferenced_parts_def expire_session_if_due_def
      insert_chunk_def set_completed_def delete_artifact_rows_def)

lemma registry_mark_counted [simp]: "registry (snd (mark_counted now ds db)) = registry db"
  by (induction ds arbitrary: db) (simp_all split: prod.splits, metis registry_mark_pending snd_conv)

lemma registry_marked: "mark_counted now ds db = (n, db') \<Longrightarrow> registry db' = registry db"
  using registry_mark_counted [of now ds db] by simp

lemma registry_mark_sessions [simp]: "registry (mark_sessions now ids db) = registry db"
  by (induction ids arbitrary: db) simp_all

lemma registered_exec: "(\<And>db. registry (f db) = registry db) \<Longrightarrow> keeps (registered R) (exec f)"
  by (simp add: keeps_def registered_def exec_def)

lemma registered_tx: "keeps (registered R) m \<Longrightarrow> keeps (registered R) (tx m)"
  unfolding keeps_def
proof (intro allI impI)
  fix s assume m: "\<forall>s. registered R s \<longrightarrow> registered R (snd (m s))" and s: "registered R s"
  then have "registered R (snd (m s))" by blast
  with s show "registered R (snd (tx m s))"
    by (cases "m s"; cases "fst (m s)") (auto simp: tx_def registered_def)
qed

lemma registered_transition: "keeps (registered R) (transition sid st st')"
  unfolding transition_def
  by (intro keeps_intros) (simp add: keeps_def registered_def Let_def)

lemma registered_inserts:
  "keeps (registered R) (insert_session row)" "keeps (registered R) (insert_part part)"
  "keeps (registered R) (insert_artifact art)" "keeps (registered R) (insert_artifact_chunk ac)"
  by (auto simp: keeps_def registered_def insert_session_def insert_part_def insert_artifact_def
      insert_artifact_chunk_def Let_def)

lemmas registered_intros = keeps_intros keeps_if keeps_query registered_exec registered_tx
  registered_transition registered_inserts

lemma registered_store_chunk: "keeps (registered R) (store_chunk env data len d)"
  by (auto simp: keeps_def registered_def store_chunk_def split: prod.splits)

lemma registered_register_part: "keeps (registered R) (register_part sid ord d len now)"
proof -
  have m: "keeps (registered R) (op_bind (exec (insert_chunk d len now)) (\<lambda>u.
      op_bind (exec (reactivate d)) (\<lambda>u. op_bind (insert_part row) (\<lambda>u. op_return acc))))" for row and acc :: ChunkAccept
    by (intro registered_intros) simp_all
  show ?thesis
    unfolding keeps_def
  proof (intro allI impI)
    fix s assume s: "registered R s"
    show "registered R (snd (register_part sid ord d len now s))"
    proof (cases "select_one (\<lambda>p. pt_session_id p = sid \<and> pt_ordinal p = ord) (db_part (sdb s))")
      case None
      then show ?thesis using m s unfolding keeps_def register_part_def by (simp del: op_bind.simps)
    next
      case (Some p)
      with s show ?thesis by (simp add: register_part_def)
    qed
  qed
qed

lemma registered_put_chunk: "keeps (registered R) (put_chunk env sid ord data len)"
  unfolding put_chunk_def Let_def
  by (intro registered_intros registered_store_chunk registered_register_part) simp_all

lemma registered_create_session:
  "keeps (registered R) (create_session cfg env ns name version bytes digest owner)"
proof -
  have ins: "keeps (registered R) (op_bind (tx (insert_session row)) (\<lambda>u. op_return info))"
    for row and info :: SessionInfo
    by (intro registered_intros)
  show ?thesis
    unfolding keeps_def
  proof (intro allI impI)
    fix s assume "registered R s"
    then have "registered R (s\<lparr>id_counter := n\<rparr>)" for n by (simp add: registered_def)
    then have "registered R (snd (op_bind (tx (insert_session row)) (\<lambda>u. op_return info) (s\<lparr>id_counter := n\<rparr>)))"
      for row and info :: SessionInfo and n
      using ins unfolding keeps_def by blast
    then show "registered R (snd (create_session cfg env ns name version bytes digest owner s))"
      using \<open>registered R s\<close>
      by (simp add: create_session_def Let_def del: op_bind.simps)
  qed
qed

lemma registered_commit_session: "keeps (registered R) (commit_session env sid)"
proof -
  have rb: "keeps (registered R) (rollback_throw sid e)" for e :: exn
    unfolding rollback_throw_def by (intro registered_intros)
  have pub: "keeps (registered R) (op_bind (publish sid session m now) (\<lambda>u. op_return info))"
    for session m now and info :: ArtifactInfo
    unfolding publish_def publish_entry_def by (intro registered_intros) simp_all
  have "keeps (registered R) (commit_checked env sid session)" for session
    unfolding keeps_def
  proof (intro allI impI)
    fix s assume s: "registered R s"
    have "registered R (snd ((rollback_throw sid e :: (storage, ArtifactInfo) op) s))" for e
      using rb s unfolding keeps_def by blast
    moreover have "registered R (snd (op_bind (publish sid session m now) (\<lambda>u. op_return info) s))"
      for m now and info :: ArtifactInfo
      using pub s unfolding keeps_def by blast
    ultimately show "registered R (snd (commit_checked env sid session s))"
      using s by (simp add: commit_checked_def split: sum.splits del: op_bind.simps)
  qed
  then show ?thesis
    unfolding commit_session_def Let_def by (intro registered_intros) simp_all
qed

lemma registered_abort_session: "keeps (registered R) (abort_session env sid)"
  unfolding abort_session_def by (intro registered_intros) simp_all

lemma registered_delete_artifact: "keeps (registered R) (delete_artifact env ns name version)"
  unfolding delete_artifact_def
proof (rule registered_tx)
  show "keeps (registered R) (\<lambda>s. case select_artifact ns name version (sdb s) of
        None \<Rightarrow> (throw_error FR_E_NOTFOUND ''artifact not found'', s)
      | Some row \<Rightarrow>
          let digests = map ac_digest (artifact_chunks (ar_id row) (sdb s))
          in case mark_counted (env_now env) digests (delete_artifact_rows (ar_id row) (sdb s)) of
               (marked, db') \<Rightarrow> (Inr marked, s\<lparr>sdb := db'\<rparr>))"
    by (auto simp: keeps_def registered_def Let_def dest!: registry_marked split: option.splits prod.splits)
qed

lemma registered_gc_loop: "registered R s \<Longrightarrow> registered R (snd (gc_loop cfg env dry cs report s))"
proof (induction cfg env dry cs report s rule: gc_loop.induct)
  case (2 cfg env dry c cs report s)
  then show ?case
    by (auto simp: registered_def Let_def split: prod.splits sum.splits)
qed simp

lemma registered_collect_garbage: "keeps (registered R) (collect_garbage cfg env dry)"
  by (simp add: keeps_def collect_garbage_def Let_def registered_gc_loop)

section \<open>The registry leaves the store alone\<close>

lemma inv_store_fields:
  assumes "db_session db' = db_session db" and "db_part db' = db_part db" and "db_chunk db' = db_chunk db"
    and "db_artifact db' = db_artifact db" and "db_artifact_chunk db' = db_artifact_chunk db"
    and "db_artifact_seq db' = db_artifact_seq db"
  shows "inv sha db' fs = inv sha db fs"
  using assms
  by (simp add: inv_def keys_ok_def states_ok_def refs_ok_def files_ok_def parts_ok_def artifacts_ok_def
      artifact_complete_def chunk_referenced_iff active_def artifact_chunks_def)

text \<open>The operations of the registry, as the handlers call them.\<close>

definition registry_step :: "database \<Rightarrow> database \<Rightarrow> bool" where
  "registry_step db db' =
     (auth_step db db' \<and> db_session db' = db_session db \<and> db_part db' = db_part db \<and>
      db_chunk db' = db_chunk db \<and> db_artifact db' = db_artifact db \<and>
      db_artifact_chunk db' = db_artifact_chunk db \<and> db_artifact_seq db' = db_artifact_seq db)"

definition registry_op :: "(database, 'a) op \<Rightarrow> bool" where
  "registry_op m = (\<forall>db. registry_step db (snd (m db)))"

lemma registry_ops:
  "registry_op (user_add aenv username role)" "registry_op (user_disable username)"
  "registry_op (token_create aenv username ttl)" "registry_op (token_revoke aenv tid)"
  "registry_op (audit aenv actor action target res)"
  unfolding registry_op_def registry_step_def
  by (intro allI conjI auth_step.intros;
      simp add: user_add_def insert_user_def user_disable_def token_create_def insert_token_def
        token_revoke_def audit_def op_throw_def op_return_def Let_def constraint_failed_def throw_error_def
      split: option.splits)+

definition service_inv :: "(bytes \<Rightarrow> bytes) \<Rightarrow> storage \<Rightarrow> bool" where
  "service_inv sha s = (storage_inv sha s \<and> auth_ok (sdb s))"

lemma service_inv_registry_step:
  assumes "service_inv sha s" and "registry_step (sdb s) db" shows "service_inv sha (s\<lparr>sdb := db\<rparr>)"
proof -
  have "inv sha db (sfs s) = inv sha (sdb s) (sfs s)"
    by (rule inv_store_fields) (use assms(2) in \<open>simp_all add: registry_step_def\<close>)
  then show ?thesis
    using assms auth_step_ok by (auto simp: service_inv_def storage_inv_def registry_step_def)
qed

lemma keeps_registered: "(\<And>R. keeps (registered R) m) \<Longrightarrow> auth_ok (sdb s) \<Longrightarrow> auth_ok (sdb (snd (m s)))"
  unfolding keeps_def registered_def using auth_ok_registry by metis

section \<open>The frame of a handler\<close>

lemma auth_stored: "stored P h \<Longrightarrow> stored P (snd (handle_auth env peer rid frame h))"
proof -
  have "keeps (stored P) (op_bind (op_lift (check_peer_not_blocked now peer d)) (\<lambda>u.
     op_bind (op_lift (decode_auth_req frame)) (\<lambda>req.
     op_bind (ask (verify (de_auth env) (auth_token req))) (\<lambda>ok.
     op_bind (op_modify (\<lambda>h. h\<lparr>hs_session := (hs_session h)\<lparr>cs_authenticated := True,
                                  cs_username := ao_username ok, cs_role := role_of_value (ao_role ok),
                                  cs_auth_failures := 0\<rparr>\<rparr>)) (\<lambda>u.
       answer env rid (encode_auth_ok (de_alloc env) ok))))))" for now d
    by (intro keeps_handler keeps_modify) (simp add: stored_def)
  then show "stored P h \<Longrightarrow> stored P (snd (handle_auth env peer rid frame h))"
    unfolding handle_auth_def keeps_def by blast
qed

lemma frame_stored:
  assumes "stored P h"
    and "cs_authenticated (hs_session h) \<Longrightarrow>
      stored P (snd (dispatch_business env conn_id (hs_session h) rid frame h))"
  shows "stored P (snd (handle_frame env conn_id peer rid frame h))"
proof -
  have "keeps (stored P) (handle_hello env rid frame)"
    unfolding handle_hello_def by (intro keeps_handler keeps_modify) (simp add: stored_def)
  moreover have "keeps (stored P) (op_bind (op_lift (decode_data frame)) (\<lambda>payload. ok_empty env rid))"
    by (intro keeps_handler)
  moreover have "keeps (stored P) (handle_close env rid)"
    unfolding handle_close_def by (intro keeps_handler keeps_modify) (simp add: stored_def)
  moreover have "keeps (stored P) (op_throw FR_E_UNAUTHENTICATED ''authentication required'' :: (hstate, unit) op)"
    by (rule keeps_throw)
  ultimately have "stored P (snd (handle_hello env rid frame h))"
    "stored P (snd (op_bind (op_lift (decode_data frame)) (\<lambda>payload. ok_empty env rid) h))"
    "stored P (snd (handle_close env rid h))"
    "stored P (snd ((op_throw FR_E_UNAUTHENTICATED ''authentication required'' :: (hstate, unit) op) h))"
    using assms(1) unfolding keeps_def by blast+
  then show ?thesis
    using assms(2) auth_stored [OF assms(1)]
    unfolding handle_frame_def
    by (auto simp del: op_bind.simps msg_value.simps)
qed

lemma error_stored: "stored P h \<Longrightarrow> stored P (snd (answer_error env peer rid frame code message h))"
  by (cases "encode_error_payload (de_alloc env) code (c_str message) fr_buf_init")
    (simp_all add: answer_error_def stored_def op_lift_def op_modify_def note_auth_failure_def Let_def)

text \<open>A handled frame ends in the state of the message's handler, or of the error handler after it.\<close>

lemma handle_cases:
  assumes "handle env conn_id peer frame session d = (r, session', d')"
  obtains (direct) rid r1 h1 where "rid = (if frame_req_id frame = 0 then 1 else frame_req_id frame)"
      "handle_frame env conn_id peer rid frame
         \<lparr>hs_dispatcher = d, hs_session = session, hs_result = empty_result\<rparr> = (r1, h1)"
      "\<nexists>c m. r1 = Inl (Err c m)" "r = rbind r1 (\<lambda>u. Inr (hs_result h1))"
      "session' = hs_session h1" "d' = hs_dispatcher h1"
    | (caught) rid c m h1 r2 h2 where "rid = (if frame_req_id frame = 0 then 1 else frame_req_id frame)"
      "handle_frame env conn_id peer rid frame
         \<lparr>hs_dispatcher = d, hs_session = session, hs_result = empty_result\<rparr> = (Inl (Err c m), h1)"
      "answer_error env peer rid frame c m h1 = (r2, h2)" "r = rbind r2 (\<lambda>u. Inr (hs_result h2))"
      "session' = hs_session h2" "d' = hs_dispatcher h2"
proof -
  define rid where "rid = (if frame_req_id frame = 0 then 1 else frame_req_id frame)"
  let ?h = "\<lparr>hs_dispatcher = d, hs_session = session, hs_result = empty_result\<rparr>"
  obtain r1 h1 where f: "handle_frame env conn_id peer rid frame ?h = (r1, h1)"
    by (cases "handle_frame env conn_id peer rid frame ?h")
  show ?thesis
  proof (cases "\<exists>c m. r1 = Inl (Err c m)")
    case True
    then obtain c m where r1: "r1 = Inl (Err c m)" by blast
    obtain r2 h2 where "answer_error env peer rid frame c m h1 = (r2, h2)"
      by (cases "answer_error env peer rid frame c m h1")
    then show ?thesis
      using caught [OF rid_def f [unfolded r1]] assms f r1
      by (simp add: handle_def Let_def flip: rid_def)
  next
    case False
    then show ?thesis
      using direct [OF rid_def f] assms f
      by (cases r1) (auto simp: handle_def Let_def simp flip: rid_def split: exn.splits)
  qed
qed

lemma handle_stored:
  assumes "handle env conn_id peer frame session d = (r, session', d')" and "P (ds_storage d)"
    and "\<And>rid. cs_authenticated session \<Longrightarrow>
      stored P (snd (dispatch_business env conn_id session rid frame
        \<lparr>hs_dispatcher = d, hs_session = session, hs_result = empty_result\<rparr>))"
  shows "P (ds_storage d')"
proof -
  let ?h = "\<lparr>hs_dispatcher = d, hs_session = session, hs_result = empty_result\<rparr>"
  have "stored P (snd (handle_frame env conn_id peer rid frame ?h))" for rid
    by (rule frame_stored) (use assms(2,3) in \<open>simp_all add: stored_def\<close>)
  then have *: "handle_frame env conn_id peer rid frame ?h = (r1, h1) \<Longrightarrow> stored P h1" for rid r1 h1
    by (metis snd_conv)
  from assms(1) show ?thesis
  proof (cases rule: handle_cases)
    case direct
    with * show ?thesis by (simp add: stored_def)
  next
    case (caught rid c m h1 r2 h2)
    from error_stored [OF * [OF caught(2)], of env peer rid frame c m] caught(3,6)
    show ?thesis by (simp add: stored_def)
  qed
qed

section \<open>Properties that every call keeps\<close>

text \<open>
  The contract between the dispatcher and the two components behind it: a property \<open>P\<close> of
  the storage that each operation the dispatcher calls keeps, an upload as long as its data is
  admitted.
\<close>

locale kept_by_calls =
  fixes P :: "storage \<Rightarrow> bool" and env :: dispatch_env and admitted :: "bytes \<Rightarrow> storage \<Rightarrow> bool"
  assumes create: "keeps P (create_session (de_cfg env) (de_storage env) ns name version bytes digest owner)"
    and put: "P s \<Longrightarrow> admitted data s \<Longrightarrow>
      P (snd (put_chunk (de_storage env) sid ord (Some data) (length data) s))"
    and commit: "keeps P (commit_session (de_storage env) sid)"
    and abort: "keeps P (abort_session (de_storage env) sid)"
    and delete: "keeps P (delete_artifact (de_storage env) ns name version)"
    and gc: "keeps P (collect_garbage (de_cfg env) (de_storage env) dry)"
    and register: "P s \<Longrightarrow> registry_step (sdb s) db \<Longrightarrow> P (s\<lparr>sdb := db\<rparr>)"
begin

lemma registry_call: "registry_op m \<Longrightarrow> keeps (stored P) (on_auth m)"
  unfolding on_auth_def
proof (rule keeps_on_storage, unfold keeps_def, intro allI impI)
  fix s assume m: "registry_op m" and "P s"
  moreover have "registry_step (sdb s) (snd (m (sdb s)))" using m by (simp add: registry_op_def)
  ultimately have "P (s\<lparr>sdb := snd (m (sdb s))\<rparr>)" by (intro register)
  then show "P (snd (on_db m s))" by (cases "m (sdb s)") (simp add: on_db_def)
qed

lemma audited_call: "keeps (stored P) (audited env session action target)"
  unfolding audited_def by (intro registry_call registry_ops)

lemma put_call:
  assumes "stored P h" and "\<And>req. decode_put_chunk_req frame = Inr req \<Longrightarrow> admitted (pc_data req) (ds_storage (hs_dispatcher h))"
  shows "stored P (snd (handle_put_chunk env session rid frame h))"
proof (cases "decode_put_chunk_req frame")
  case (Inl e)
  with assms(1) show ?thesis by (simp add: handle_put_chunk_def op_lift_def)
next
  case (Inr req)
  obtain r where a: "allowed_session session (pc_session_id req) h = (r, h)"
    using allowed_session_state prod.exhaust_sel by metis
  let ?put = "on_storage (put_chunk (de_storage env) (pc_session_id req) (pc_ordinal req)
                (Some (pc_data req)) (length (pc_data req)))"
  obtain r' h' where p: "?put h = (r', h')" by (cases "?put h")
  have "P (snd (put_chunk (de_storage env) (pc_session_id req) (pc_ordinal req)
      (Some (pc_data req)) (length (pc_data req)) (ds_storage (hs_dispatcher h))))"
    using put assms Inr by (simp add: stored_def)
  with p have h': "stored P h'" by (auto simp: on_storage_def stored_def split: prod.splits)
  have "keeps (stored P) (answer env rid enc)" for enc by (rule keeps_answer)
  then have "stored P (snd (answer env rid enc h'))" for enc using h' unfolding keeps_def by blast
  then show ?thesis
    using assms(1) Inr a p h'
    by (cases r; cases r') (simp_all add: handle_put_chunk_def op_lift_def)
qed

lemmas calls = create commit abort delete gc registry_call registry_ops audited_call

lemma business_call:
  assumes "stored P h"
    and "\<And>req. frame_type frame = msg_value FR_MSG_PUT_CHUNK \<Longrightarrow> decode_put_chunk_req frame = Inr req \<Longrightarrow>
      admitted (pc_data req) (ds_storage (hs_dispatcher h))"
  shows "stored P (snd (dispatch_business env conn_id session rid frame h))"
proof -
  have k: "keeps (stored P) (handle_create_upload env session rid frame)"
    "keeps (stored P) (handle_query_upload env session rid frame)"
    "keeps (stored P) (handle_commit_upload env session rid frame)"
    "keeps (stored P) (handle_abort_upload env session rid frame)"
    "keeps (stored P) (handle_get_artifact env conn_id session rid frame)"
    "keeps (stored P) (handle_list_artifacts env session rid frame)"
    "keeps (stored P) (handle_show_artifact env session rid frame)"
    "keeps (stored P) (handle_status env session rid)"
    "keeps (stored P) (handle_delete_artifact env session rid frame)"
    "keeps (stored P) (handle_run_gc env session rid frame)"
    "keeps (stored P) (handle_user_add env session rid frame)"
    "keeps (stored P) (handle_user_disable env session rid frame)"
    "keeps (stored P) (handle_user_list env session rid)"
    "keeps (stored P) (handle_token_create env session rid frame)"
    "keeps (stored P) (handle_token_revoke env session rid frame)"
    "keeps (stored P) (handle_token_list env session rid frame)"
    "keeps (stored P) (handle_session_list env session rid)"
    "keeps (stored P) (handle_session_abort env session rid frame)"
    "keeps (stored P) (op_throw FR_E_PROTOCOL ''unhandled message type'' :: (hstate, unit) op)"
    unfolding handler_defs by (intro keeps_handler calls)+
  have *: "stored P (snd (m h))" if "keeps (stored P) m" for m :: "(hstate, unit) op"
    using that assms(1) unfolding keeps_def by blast
  show ?thesis
    unfolding dispatch_business_def Let_def
    using k [THEN *] put_call [OF assms(1), of frame] assms(2)
    by (auto simp del: msg_value.simps)
qed

lemma handle_call:
  assumes "handle env conn_id peer frame session d = (r, session', d')" and "P (ds_storage d)"
    and "\<And>req. frame_type frame = msg_value FR_MSG_PUT_CHUNK \<Longrightarrow> decode_put_chunk_req frame = Inr req \<Longrightarrow>
      admitted (pc_data req) (ds_storage d)"
  shows "P (ds_storage d')"
  using assms(1,2)
proof (rule handle_stored)
  fix rid
  let ?h = "\<lparr>hs_dispatcher = d, hs_session = session, hs_result = empty_result\<rparr>"
  show "stored P (snd (dispatch_business env conn_id session rid frame ?h))"
    by (rule business_call) (use assms(2,3) in \<open>simp_all add: stored_def\<close>)
qed

end

section \<open>The invariant of the storage and of the registry\<close>

lemma role_value_of_text: "role_from_text t = Inr role \<Longrightarrow> role_of_value (role_value role) = role"
  by (auto simp: role_from_text_def role_from_def role_of_value_def split: if_splits)

lemma service_inv_op:
  assumes "service_inv sha s" and "storage_inv sha s \<Longrightarrow> storage_inv sha (snd (m s))" and "\<And>R. keeps (registered R) m"
  shows "service_inv sha (snd (m s))"
  using assms keeps_registered [of m s] by (simp add: service_inv_def)

interpretation consistent: kept_by_calls
  "\<lambda>s. sha_ok (env_sha (de_storage env)) \<longrightarrow> service_inv (env_sha (de_storage env)) s" env
  "\<lambda>data s. no_collision (env_sha (de_storage env)) s data \<and> length data < 2 ^ 63" for env
proof
  let ?sha = "env_sha (de_storage env)"
  show "keeps (\<lambda>s. sha_ok ?sha \<longrightarrow> service_inv ?sha s)
      (create_session (de_cfg env) (de_storage env) ns name version bytes digest owner)"
    for ns name version bytes digest owner
    unfolding keeps_def by (auto intro!: service_inv_op inv_create_session registered_create_session)
  show "sha_ok ?sha \<longrightarrow> service_inv ?sha (snd (put_chunk (de_storage env) sid ord (Some data) (length data) s))"
    if "sha_ok ?sha \<longrightarrow> service_inv ?sha s" "no_collision ?sha s data \<and> length data < 2 ^ 63" for s data sid ord
    using that by (auto intro!: service_inv_op inv_put_chunk registered_put_chunk)
  show "keeps (\<lambda>s. sha_ok ?sha \<longrightarrow> service_inv ?sha s) (commit_session (de_storage env) sid)" for sid
    unfolding keeps_def by (auto intro!: service_inv_op inv_commit_session registered_commit_session)
  show "keeps (\<lambda>s. sha_ok ?sha \<longrightarrow> service_inv ?sha s) (abort_session (de_storage env) sid)" for sid
    unfolding keeps_def by (auto intro!: service_inv_op inv_abort_session registered_abort_session)
  show "keeps (\<lambda>s. sha_ok ?sha \<longrightarrow> service_inv ?sha s) (delete_artifact (de_storage env) ns name version)"
    for ns name version
    unfolding keeps_def by (auto intro!: service_inv_op inv_delete_artifact registered_delete_artifact)
  show "keeps (\<lambda>s. sha_ok ?sha \<longrightarrow> service_inv ?sha s) (collect_garbage (de_cfg env) (de_storage env) dry)" for dry
    unfolding keeps_def by (auto intro!: service_inv_op inv_collect_garbage registered_collect_garbage)
  show "sha_ok ?sha \<longrightarrow> service_inv ?sha (s\<lparr>sdb := db\<rparr>)"
    if "sha_ok ?sha \<longrightarrow> service_inv ?sha s" "registry_step (sdb s) db" for s db
    using that service_inv_registry_step by blast
qed

text \<open>A user with a role stays a user with that role.\<close>

definition known_user :: "string \<Rightarrow> Role \<Rightarrow> storage \<Rightarrow> bool" where
  "known_user name role s =
     (\<exists>u\<in>set (db_user (sdb s)). us_username u = name \<and> role_from_text (us_role u) = Inr role)"

lemma known_user_op:
  assumes "\<And>R. keeps (registered R) m" and "known_user name role s" shows "known_user name role (snd (m s))"
proof -
  have "registry (sdb (snd (m s))) = registry (sdb s)" using assms(1) unfolding keeps_def registered_def by blast
  with assms(2) show ?thesis by (simp add: known_user_def registry_def)
qed

lemma known_user_step:
  assumes "known_user name role s" and "auth_step (sdb s) db" shows "known_user name role (s\<lparr>sdb := db\<rparr>)"
  using assms(2)
proof (cases rule: auth_step_tables)
  case (disabled hit)
  obtain u where u: "u \<in> set (db_user (sdb s))" "us_username u = name" "role_from_text (us_role u) = Inr role"
    using assms(1) by (auto simp: known_user_def)
  let ?u = "if hit u then u\<lparr>us_enabled := 0\<rparr> else u"
  have "?u \<in> set (db_user db)" using u(1) disabled(1) by (auto simp: update_where_def)
  with u(2,3) show ?thesis unfolding known_user_def by (intro bexI [of _ ?u]) simp_all
qed (use assms(1) in \<open>auto simp: known_user_def\<close>)

interpretation users: kept_by_calls "known_user name role" env "\<lambda>data s. True" for env name role
  by unfold_locales
    (auto simp: keeps_def registry_step_def intro: known_user_step known_user_op registered_create_session
       registered_put_chunk registered_commit_session registered_abort_session registered_delete_artifact
       registered_collect_garbage)

section \<open>The client of a connection\<close>

definition of_client :: "ClientSession \<Rightarrow> hstate \<Rightarrow> bool" where
  "of_client session h = (hs_session h = session)"

lemma client_on_storage: "keeps (of_client S) (on_storage m)"
  by (simp add: keeps_def of_client_def on_storage_def split: prod.splits)

lemma client_calls:
  "keeps (of_client S) (on_auth op)" "keeps (of_client S) (audited env session action target)"
  "keeps (of_client S) (ask q)" "keeps (of_client S) (allowed_session session sid)"
  unfolding on_auth_def audited_def ask_def allowed_session_def
  by (intro keeps_intros client_on_storage)+

lemma client_answer: "keeps (of_client S) (answer env rid encode)"
  unfolding answer_def by (intro keeps_intros keeps_modify) (simp add: of_client_def)

lemma client_ok_empty: "keeps (of_client S) (ok_empty env rid)"
  unfolding ok_empty_def by (intro keeps_modify) (simp add: of_client_def)

lemma client_get_artifact: "keeps (of_client S) (handle_get_artifact env conn_id session rid frame)"
  unfolding handle_get_artifact_def
proof (intro keeps_bind keeps_lift, unfold keeps_def, intro allI impI)
  fix u req h assume h: "of_client S h"
  have last: "keeps (of_client S) (op_bind (answer env rid e) (\<lambda>u.
      op_modify (\<lambda>h. h\<lparr>hs_dispatcher := erase_get key (hs_dispatcher h)\<rparr>)))" for e key
    by (intro keeps_bind client_answer keeps_modify) (simp add: of_client_def)
  have "of_client S (snd (op_bind (answer env rid e) (\<lambda>u.
      op_modify (\<lambda>h. h\<lparr>hs_dispatcher := erase_get key (hs_dispatcher h)\<rparr>)) h'))"
    if "of_client S h'" for e key h' using last that unfolding keeps_def by blast
  then show "of_client S (snd (let d = hs_dispatcher h; key = get_key conn_id (ds_get_seq d);
      (state, d) = emplace_get key
         \<lparr>gs_ns = ref_ns (ga_ref req), gs_name = ref_name (ga_ref req),
          gs_version = ref_version (ga_ref req), gs_offset = ga_offset req,
          gs_remaining = ga_length req, gs_sent = 0, gs_req_id = rid\<rparr> (d\<lparr>ds_get_seq := ds_get_seq d + 1\<rparr>)
    in case advance_get env (ds_storage d) state (hr_out (hs_result h)) of
         (Inl e, out) \<Rightarrow> (Inl e, h\<lparr>hs_dispatcher := d, hs_result := (hs_result h)\<lparr>hr_out := out\<rparr>\<rparr>)
       | (Inr (got, state), out) \<Rightarrow>
           let h = h\<lparr>hs_dispatcher := set_get key state d, hs_result := (hs_result h)\<lparr>hr_out := out\<rparr>\<rparr>
           in if gs_remaining state = 0
              then op_bind (answer env rid (encode_get_artifact_ok (de_alloc env) \<lparr>go_bytes_sent = gs_sent state\<rparr>))
                     (\<lambda>u. op_modify (\<lambda>h. h\<lparr>hs_dispatcher := erase_get key (hs_dispatcher h)\<rparr>)) h
              else (Inr (), h\<lparr>hs_result := (hs_result h)\<lparr>hr_has_more := True, hr_continuation_key := key\<rparr>\<rparr>)))"
    using h
    by (auto simp: of_client_def Let_def split: prod.splits sum.splits simp del: op_bind.simps)
qed

lemmas client_intros = keeps_bind keeps_return keeps_throw keeps_lift keeps_if client_on_storage client_calls
  client_answer client_ok_empty

lemma client_business: "keeps (of_client S) (dispatch_business env conn_id session rid frame)"
  unfolding dispatch_business_def Let_def handler_defs
  by (intro client_intros client_get_artifact)

text \<open>Only a successful AUTH changes who a client is.\<close>

lemma verify_known:
  assumes "verify env token (sdb s) = Inr ok"
  shows "known_user (ao_username ok) (role_of_value (ao_role ok)) s"
proof -
  obtain t u role where tu: "(t, u) \<in> set (token_users (sdb s))" and role: "role_from_text (us_role u) = Inr role"
    and ok: "ok = \<lparr>ao_username = us_username u, ao_role = role_value role\<rparr>"
    using assms
    by (auto simp: verify_def throw_error_def rbind_eq_Inr Let_def dest!: select_one_Some
        split: if_splits option.splits prod.splits)
  have "u \<in> set (db_user (sdb s))" using tu by (auto simp: token_users_def)
  then show ?thesis using role ok role_value_of_text [OF role] by (auto simp: known_user_def)
qed

text \<open>What a client is entitled to: its user exists and has its role.\<close>

definition honest :: "ClientSession \<Rightarrow> storage \<Rightarrow> bool" where
  "honest session s = (cs_authenticated session \<longrightarrow> known_user (cs_username session) (cs_role session) s)"

definition same_identity :: "ClientSession \<Rightarrow> ClientSession \<Rightarrow> bool" where
  "same_identity a b =
     (cs_authenticated a = cs_authenticated b \<and> cs_username a = cs_username b \<and> cs_role a = cs_role b)"

lemma handle_frame_identity:
  assumes "handle_frame env conn_id peer rid frame h = (r, h')"
  shows "same_identity (hs_session h') (hs_session h) \<or>
    frame_type frame = msg_value FR_MSG_AUTH \<and>
    known_user (cs_username (hs_session h')) (cs_role (hs_session h')) (ds_storage (hs_dispatcher h)) \<and>
    cs_authenticated (hs_session h')"
proof -
  have ok: "hs_session (snd (answer env rid e h)) = hs_session h" for e h
    using client_answer [of "hs_session h" env rid e] by (simp add: keeps_def of_client_def)
  have business: "hs_session (snd (dispatch_business env conn_id (hs_session h) rid frame h)) = hs_session h"
    using client_business [of "hs_session h" env conn_id "hs_session h" rid frame] by (simp add: keeps_def of_client_def)
  have hello: "same_identity (hs_session (snd (handle_hello env rid frame h))) (hs_session h)"
    by (cases "decode_hello_req frame")
      (simp_all add: handle_hello_def op_lift_def op_modify_def ok same_identity_def)
  have auth: "same_identity (hs_session (snd (handle_auth env peer rid frame h))) (hs_session h) \<or>
    known_user (cs_username (hs_session (snd (handle_auth env peer rid frame h))))
      (cs_role (hs_session (snd (handle_auth env peer rid frame h)))) (ds_storage (hs_dispatcher h)) \<and>
    cs_authenticated (hs_session (snd (handle_auth env peer rid frame h)))"
  proof (cases "check_peer_not_blocked (de_monotonic env) peer (hs_dispatcher h)")
    case (Inl e)
    then show ?thesis by (simp add: handle_auth_def op_lift_def same_identity_def)
  next
    case free: (Inr u)
    show ?thesis
    proof (cases "decode_auth_req frame")
      case (Inl e)
      with free show ?thesis by (simp add: handle_auth_def op_lift_def same_identity_def)
    next
      case req: (Inr req)
      show ?thesis
      proof (cases "verify (de_auth env) (auth_token req) (sdb (ds_storage (hs_dispatcher h)))")
        case (Inl e)
        with free req show ?thesis
          by (simp add: handle_auth_def op_lift_def same_identity_def ask_def on_storage_def query_def)
      next
        case (Inr k)
        with free req verify_known [OF Inr] show ?thesis
          by (simp add: handle_auth_def op_lift_def ask_def on_storage_def query_def op_modify_def ok)
      qed
    qed
  qed
  have rest: "hs_session (snd (handle_close env rid h)) = hs_session h"
    "hs_session (snd (op_bind (op_lift (decode_data frame)) (\<lambda>payload. ok_empty env rid) h)) = hs_session h"
    by (cases "decode_data frame"; simp add: handle_close_def ok_empty_def op_lift_def op_modify_def)+
  show ?thesis
    using assms hello auth rest business unfolding handle_frame_def
    by (auto simp: op_throw_def same_identity_def simp del: op_bind.simps msg_value.simps split: if_splits)
qed

section \<open>Runs of the service\<close>

record service =
  sv_dispatcher :: dispatcher
  sv_clients :: "u64 \<rightharpoonup> ClientSession"

text \<open>A dispatcher as the daemon makes it, on the storage found on disk.\<close>

definition new_dispatcher :: "storage \<Rightarrow> dispatcher" where
  "new_dispatcher st = \<lparr>ds_storage = st, ds_gets = Map.empty, ds_get_seq = 0, ds_ip_stats = Map.empty\<rparr>"

definition initial_service :: service where
  "initial_service = \<lparr>sv_dispatcher = new_dispatcher initial_storage, sv_clients = Map.empty\<rparr>"

text \<open>An upload carries data whose digest does not collide with a stored one.\<close>

definition admitted_frame :: "(bytes \<Rightarrow> bytes) \<Rightarrow> fr_frame \<Rightarrow> storage \<Rightarrow> bool" where
  "admitted_frame sha frame s =
     (frame_type frame = msg_value FR_MSG_PUT_CHUNK \<longrightarrow>
      (\<forall>req. decode_put_chunk_req frame = Inr req \<longrightarrow>
         no_collision sha s (pc_data req) \<and> length (pc_data req) < 2 ^ 63))"

text \<open>
  A client may outlive its connection (\<open>detached\<close>): a worker that has looked it up keeps it.
\<close>

inductive service_step :: "(bytes \<Rightarrow> bytes) \<Rightarrow> service \<Rightarrow> service \<Rightarrow> bool" for sha where
  connect: "service_step sha sv (sv\<lparr>sv_clients := (sv_clients sv)(conn_id \<mapsto> new_client)\<rparr>)"
| request: "sv_clients sv conn_id = Some session \<Longrightarrow> env_sha (de_storage env) = sha \<Longrightarrow>
    admitted_frame sha frame (ds_storage (sv_dispatcher sv)) \<Longrightarrow>
    handle env conn_id peer frame session (sv_dispatcher sv) = (r, session', d) \<Longrightarrow>
    service_step sha sv
      (sv\<lparr>sv_dispatcher := d, sv_clients := (sv_clients sv)(conn_id \<mapsto> session')\<rparr>)"
| continued: "handle_get_continue env key (sv_dispatcher sv) = (r', d) \<Longrightarrow>
    service_step sha sv (sv\<lparr>sv_dispatcher := d\<rparr>)"
| closed: "service_step sha sv
    (sv\<lparr>sv_dispatcher := on_connection_closed conn_id (sv_dispatcher sv),
        sv_clients := (sv_clients sv)(conn_id := None)\<rparr>)"
| detached: "service_step sha sv
    (sv\<lparr>sv_dispatcher := on_connection_closed conn_id (sv_dispatcher sv)\<rparr>)"
| background: "storage_step sha (ds_storage (sv_dispatcher sv)) s \<Longrightarrow>
    service_step sha sv (sv\<lparr>sv_dispatcher := (sv_dispatcher sv)\<lparr>ds_storage := s\<rparr>\<rparr>)"
| local_registry: "registry_step (sdb (ds_storage (sv_dispatcher sv))) db \<Longrightarrow>
    service_step sha sv (sv\<lparr>sv_dispatcher := (sv_dispatcher sv)\<lparr>ds_storage :=
      (ds_storage (sv_dispatcher sv))\<lparr>sdb := db\<rparr>\<rparr>\<rparr>)"
| restart: "service_step sha sv
    \<lparr>sv_dispatcher = new_dispatcher (ds_storage (sv_dispatcher sv)), sv_clients = Map.empty\<rparr>"

inductive service_run :: "(bytes \<Rightarrow> bytes) \<Rightarrow> service \<Rightarrow> bool" for sha where
  boot: "service_run sha initial_service"
| move: "service_run sha sv \<Longrightarrow> service_step sha sv sv' \<Longrightarrow> service_run sha sv'"

definition service_ok :: "(bytes \<Rightarrow> bytes) \<Rightarrow> service \<Rightarrow> bool" where
  "service_ok sha sv =
     (service_inv sha (ds_storage (sv_dispatcher sv)) \<and>
      (\<forall>conn_id session. sv_clients sv conn_id = Some session \<longrightarrow>
         honest session (ds_storage (sv_dispatcher sv))))"

lemma registered_run_maintenance: "keeps (registered R) (run_maintenance env)"
  by (simp add: keeps_def registered_def run_maintenance_def Let_def split: prod.splits)

lemma registered_storage_step:
  assumes "storage_step sha s s'" shows "registry (sdb s') = registry (sdb s)"
proof -
  have *: "registry (sdb (snd (m s))) = registry (sdb s)" if "\<And>R. keeps (registered R) m"
    for m :: "(storage, 'x) op" using that unfolding keeps_def registered_def by blast
  have "keeps (registered R) (storage_open cfg env)" for R cfg env
    unfolding storage_open_def by (intro keeps_intros keeps_if registered_run_maintenance)
  with assms show ?thesis
    by (cases rule: storage_step.cases)
      (simp_all add: * registered_create_session registered_put_chunk registered_commit_session
        registered_abort_session registered_delete_artifact registered_collect_garbage
        registered_run_maintenance committing_def set_state_def)
qed

lemma handle_identity:
  assumes "handle env conn_id peer frame session d = (r, session', d')"
  shows "same_identity session' session \<or>
    frame_type frame = msg_value FR_MSG_AUTH \<and> cs_authenticated session' \<and>
    known_user (cs_username session') (cs_role session') (ds_storage d)"
  using assms
proof (cases rule: handle_cases)
  case direct
  then show ?thesis using handle_frame_identity [OF direct(2)] by auto
next
  case (caught rid c m h1 r2 h2)
  have "same_identity (hs_session (snd (answer_error env peer rid frame c m h1))) (hs_session h1)"
    by (cases "encode_error_payload (de_alloc env) c (c_str m) fr_buf_init")
      (simp_all add: answer_error_def op_lift_def op_modify_def same_identity_def Let_def)
  then have "same_identity session' (hs_session h1)" using caught by simp
  then show ?thesis using handle_frame_identity [OF caught(2)] by (auto simp: same_identity_def)
qed

lemma continue_storage: "ds_storage (snd (handle_get_continue env key d)) = ds_storage d"
  by (auto simp: handle_get_continue_def set_get_def erase_get_def split: option.splits prod.splits sum.splits)

lemma closed_storage: "ds_storage (on_connection_closed conn_id d) = ds_storage d"
  by (simp add: on_connection_closed_def Let_def)

lemma service_step_ok:
  assumes "service_step sha sv sv'" and ok: "service_ok sha sv" and sha: "sha_ok sha"
  shows "service_ok sha sv'"
  using assms(1)
proof cases
  case (connect conn_id)
  show ?thesis unfolding connect using ok by (simp add: service_ok_def honest_def new_client_def)
next
  case (request conn_id session env frame peer r session' d)
  let ?s = "ds_storage (sv_dispatcher sv)"
  have "sha_ok (env_sha (de_storage env)) \<longrightarrow> service_inv (env_sha (de_storage env)) (ds_storage d)"
  proof (rule consistent.handle_call [OF request(5)])
    show "sha_ok (env_sha (de_storage env)) \<longrightarrow> service_inv (env_sha (de_storage env)) ?s"
      using ok request(3) by (simp add: service_ok_def)
    fix req assume "frame_type frame = msg_value FR_MSG_PUT_CHUNK" "decode_put_chunk_req frame = Inr req"
    then show "no_collision (env_sha (de_storage env)) ?s (pc_data req) \<and> length (pc_data req) < 2 ^ 63"
      using request(3,4) unfolding admitted_frame_def by blast
  qed
  then have inv: "service_inv sha (ds_storage d)" using request(3) sha by simp
  have users: "known_user n role (ds_storage d)" if "known_user n role ?s" for n role
    using users.handle_call [OF request(5)] that by blast
  then have keep: "honest c (ds_storage d)" if "honest c ?s" for c using that by (auto simp: honest_def)
  have "honest session ?s" using ok request(2) by (simp add: service_ok_def)
  then have "honest session' (ds_storage d)"
    using handle_identity [OF request(5)] users by (auto simp: honest_def same_identity_def)
  then show ?thesis unfolding request(1) using inv keep ok by (simp add: service_ok_def)
next
  case (continued env key r' d)
  have "ds_storage d = ds_storage (sv_dispatcher sv)"
    using continue_storage [of env key "sv_dispatcher sv"] continued(2) by simp
  then show ?thesis unfolding continued(1) using ok by (simp add: service_ok_def)
next
  case (closed conn_id)
  show ?thesis unfolding closed(1) using ok by (simp add: service_ok_def closed_storage)
next
  case (detached conn_id)
  show ?thesis unfolding detached using ok by (simp add: service_ok_def closed_storage)
next
  case (background s)
  let ?s = "ds_storage (sv_dispatcher sv)"
  have r: "registry (sdb s) = registry (sdb ?s)"
    by (rule registered_storage_step [OF background(2)])
  have "auth_ok (sdb ?s)" using ok by (simp add: service_ok_def service_inv_def)
  then have "auth_ok (sdb s)" by (simp only: auth_ok_registry [OF r])
  moreover have "storage_inv sha s"
    using step_inv [OF background(2) _ sha] ok by (simp add: service_ok_def service_inv_def)
  moreover have "known_user n role s" if "known_user n role ?s" for n role
    using that r by (simp add: known_user_def registry_def)
  then have "honest c s" if "honest c ?s" for c using that by (simp add: honest_def)
  ultimately show ?thesis
    unfolding background(1) using ok by (simp add: service_ok_def service_inv_def)
next
  case (local_registry db)
  let ?s = "ds_storage (sv_dispatcher sv)"
  have "service_inv sha (?s\<lparr>sdb := db\<rparr>)"
    using service_inv_registry_step ok local_registry(2) by (simp add: service_ok_def)
  moreover have "honest c (?s\<lparr>sdb := db\<rparr>)" if "honest c ?s" for c
    using that known_user_step local_registry(2) by (simp add: honest_def registry_step_def)
  ultimately show ?thesis unfolding local_registry(1) using ok by (simp add: service_ok_def)
next
  case restart
  show ?thesis unfolding restart using ok by (simp add: service_ok_def new_dispatcher_def)
qed

lemma service_run_ok: "service_run sha sv \<Longrightarrow> sha_ok sha \<Longrightarrow> service_ok sha sv"
proof (induction rule: service_run.induct)
  case boot
  then show ?case
    using inv_initial
    by (simp add: service_ok_def service_inv_def initial_service_def new_dispatcher_def auth_ok_def initial_storage_def empty_database_def)
next
  case (move sv sv')
  then show ?case using service_step_ok by blast
qed

end
