(* ===== verification/Transport.thy ===== *)
theory Transport
  imports Service
begin

text \<open>
  The server, \<^verbatim>\<open>src/transport/fr_server.cpp\<close>: connections with their frame parser
  and outbox, the bounded queue of tasks, the workers, the queue of completions, and the steps of
  the I/O thread, the workers and the maintenance thread. What a socket returns is a parameter of
  the step that calls it; the poller only decides which event comes next. Connections are plain:
  the TLS session is left out. A step of the I/O thread is one handler of its loop; a worker is
  interrupted wherever the source gives up or takes a lock. A wait on a condition variable may end
  whenever its condition holds (and need not).
\<close>

section \<open>State\<close>

record Connection =
  cn_fd :: int
  cn_peer :: string
  cn_id :: u64
  cn_parser :: fr_frame_parser
  cn_outbox :: fr_buf
  cn_last_active :: int
  cn_close_after_flush :: bool

record Task =
  ta_conn_id :: u64
  ta_peer :: string
  ta_type :: u8
  ta_req_id :: u32
  ta_payload :: bytes
  ta_is_get_continue :: bool
  ta_get_key :: string

record Completion =
  co_conn_id :: u64
  co_bytes :: fr_buf
  co_close_conn :: bool

text \<open>
  Where a worker is: at the head of its loop, or at its end; asking for a task; with a task it has
  popped; with a request whose client it
  has looked up; waiting to queue the continuation of a result; waiting to hand over a completion.
\<close>

datatype worker =
    Idle
  | Asking
  | Popped Task
  | Found Task
  | Continuing Task HandleResult
  | Completing Completion

text \<open>
  The clients are shared objects, kept by their connection and by workers; the model never frees
  them. \<open>tr_hub\<close> is the status hub with the number of connections and the start time.
\<close>

record transport =
  tr_connections :: "Connection list"
  tr_clients :: "u64 \<rightharpoonup> ClientSession"
  tr_next_conn_id :: u64
  tr_queue :: "Task list"
  tr_done :: "Completion list"
  tr_workers :: "worker list"
  tr_dispatcher :: dispatcher
  tr_hub :: "(u32 \<times> u64) option"
  tr_stopping :: bool

record server_limits =
  lim_max_connections :: int
  lim_request_timeout :: int

definition queue_capacity :: nat where "queue_capacity = 256"
definition kDoneQueueHighWater :: nat where "kDoneQueueHighWater = 128"

definition find_conn :: "u64 \<Rightarrow> transport \<Rightarrow> Connection option" where
  "find_conn conn_id t = find (\<lambda>c. cn_id c = conn_id) (tr_connections t)"

definition set_conn :: "Connection \<Rightarrow> transport \<Rightarrow> transport" where
  "set_conn conn t =
     t\<lparr>tr_connections := map (\<lambda>c. if cn_id c = cn_id conn then conn else c) (tr_connections t)\<rparr>"

definition count_connections :: "transport \<Rightarrow> transport" where
  "count_connections t =
     t\<lparr>tr_hub := map_option (\<lambda>(n, start). (of_nat (length (tr_connections t)), start)) (tr_hub t)\<rparr>"

definition start_server :: "nat \<Rightarrow> u64 option \<Rightarrow> dispatcher \<Rightarrow> transport" where
  "start_server workers hub d =
     \<lparr>tr_connections = [], tr_clients = Map.empty, tr_next_conn_id = 1, tr_queue = [], tr_done = [],
      tr_workers = replicate workers Idle, tr_dispatcher = d,
      tr_hub = map_option (\<lambda>start. (0, start)) hub, tr_stopping = False\<rparr>"

section \<open>Connections come and go\<close>

text \<open>One round of the loop of \<open>accept_new\<close>: a socket and the name of its peer.\<close>

definition accept_one :: "server_limits \<Rightarrow> int \<Rightarrow> int \<times> string \<Rightarrow> transport \<Rightarrow> transport" where
  "accept_one limits now client t =
     (if int (length (tr_connections t)) \<ge> lim_max_connections limits then t
      else let conn_id = tr_next_conn_id t;
               conn = \<lparr>cn_fd = fst client, cn_peer = snd client, cn_id = conn_id,
                       cn_parser = fr_frame_parser_init, cn_outbox = fr_buf_init,
                       cn_last_active = now, cn_close_after_flush = False\<rparr>;
               conns = (case find_conn conn_id t of
                          None \<Rightarrow> insort_key cn_id conn (tr_connections t)
                        | Some old \<Rightarrow> tr_connections t)
           in count_connections
                (t\<lparr>tr_next_conn_id := conn_id + 1, tr_connections := conns,
                   tr_clients := (if find_conn conn_id t = None
                                  then (tr_clients t)(conn_id \<mapsto> new_client) else tr_clients t)\<rparr>))"

definition accept_new :: "server_limits \<Rightarrow> int \<Rightarrow> (int \<times> string) list \<Rightarrow> transport \<Rightarrow> transport" where
  "accept_new limits now clients t = fold (accept_one limits now) clients t"

definition close_connection :: "u64 \<Rightarrow> transport \<Rightarrow> transport" where
  "close_connection conn_id t =
     (case find_conn conn_id t of
        None \<Rightarrow> t
      | Some conn \<Rightarrow>
          let t = count_connections
                    (t\<lparr>tr_connections := filter (\<lambda>c. cn_id c \<noteq> conn_id) (tr_connections t)\<rparr>)
          in t\<lparr>tr_dispatcher := on_connection_closed conn_id (tr_dispatcher t)\<rparr>)"

definition sweep_idle :: "server_limits \<Rightarrow> int \<Rightarrow> transport \<Rightarrow> transport" where
  "sweep_idle limits now t =
     fold close_connection
       (map cn_id (filter (\<lambda>c. now - cn_last_active c > lim_request_timeout limits) (tr_connections t))) t"

section \<open>Output\<close>

text \<open>The payload of an error in an ERROR frame; a request id 0 is replaced.\<close>

definition error_frame :: "alloc \<Rightarrow> u32 \<Rightarrow> fr_status \<Rightarrow> string \<Rightarrow> fr_buf \<Rightarrow> fr_buf result" where
  "error_frame alloc req_id code message out =
     rbind (encode_error_payload alloc code message fr_buf_init) (\<lambda>payload.
       Inr (snd (fr_frame_encode alloc out (msg_value FR_MSG_ERROR) 0
                   (if req_id = 0 then 1 else req_id) (buf_data payload) (buf_len payload))))"

definition append_outbox :: "alloc \<Rightarrow> fr_buf \<Rightarrow> Connection \<Rightarrow> Connection" where
  "append_outbox alloc bytes conn =
     conn\<lparr>cn_outbox := snd (fr_buf_append alloc (cn_outbox conn) (buf_data bytes) (buf_len bytes))\<rparr>"

definition send_error :: "alloc \<Rightarrow> Connection \<Rightarrow> u32 \<Rightarrow> fr_status \<Rightarrow> string \<Rightarrow> Connection result" where
  "send_error alloc conn req_id code message =
     rbind (error_frame alloc req_id code message fr_buf_init) (\<lambda>out. Inr (append_outbox alloc out conn))"

definition deliver :: "alloc \<Rightarrow> Completion \<Rightarrow> transport \<Rightarrow> transport" where
  "deliver alloc completion t =
     (case find_conn (co_conn_id completion) t of
        None \<Rightarrow> t
      | Some conn \<Rightarrow>
          if cn_close_after_flush conn then t
          else let conn = append_outbox alloc (co_bytes completion) conn;
                   conn = (if co_close_conn completion then conn\<lparr>cn_close_after_flush := True\<rparr> else conn)
               in set_conn conn t)"

definition drain_completions :: "alloc \<Rightarrow> transport \<Rightarrow> transport" where
  "drain_completions alloc t = fold (deliver alloc) (tr_done t) (t\<lparr>tr_done := []\<rparr>)"

text \<open>
  The loop of \<open>flush_conn\<close>, over the results of \<open>write_to\<close>: negative for an error, 0 when
  the socket takes nothing more (also at the end of the list). None stands for the error.
\<close>

fun write_loop :: "int list \<Rightarrow> fr_buf \<Rightarrow> fr_buf option" where
  "write_loop [] outbox = Some outbox"
| "write_loop (n # ns) outbox =
     (if buf_len outbox = 0 then Some outbox
      else if n < 0 then None
      else if n = 0 then Some outbox
      else write_loop ns (snd (fr_buf_consume outbox (word_of_int n))))"

definition flush_conn :: "u64 \<Rightarrow> int list \<Rightarrow> transport \<Rightarrow> transport" where
  "flush_conn conn_id writes t =
     (case find_conn conn_id t of
        None \<Rightarrow> t
      | Some conn \<Rightarrow>
          (case write_loop writes (cn_outbox conn) of
             None \<Rightarrow> close_connection conn_id t
           | Some outbox \<Rightarrow>
               let t = set_conn (conn\<lparr>cn_outbox := outbox\<rparr>) t
               in if cn_close_after_flush conn \<and> buf_len outbox = 0 then close_connection conn_id t else t))"

definition flush_writable :: "(u64 \<Rightarrow> int list) \<Rightarrow> transport \<Rightarrow> transport" where
  "flush_writable writes t =
     fold (\<lambda>conn_id. flush_conn conn_id (writes conn_id))
       (map cn_id (filter (\<lambda>c. buf_len (cn_outbox c) \<noteq> 0 \<or> cn_close_after_flush c) (tr_connections t))) t"

section \<open>Input\<close>

text \<open>A frame that is ready has taken input, or the parser had its header already.\<close>

definition work_left :: "fr_frame_parser \<Rightarrow> bytes \<Rightarrow> nat" where
  "work_left p bs = 2 * length bs + (if header_done p then 1 else 0)"

lemma feed_progress:
  assumes "fr_frame_parser_feed alloc p (Some bs) (length bs) = (st, p', consumed, Some frame)"
  shows "work_left p' (drop (the consumed) bs) < work_left p bs"
proof -
  have "st = FR_OK"
    using assms by (auto simp: fr_frame_parser_feed_def absorb_payload_def Let_def split: if_splits prod.splits)
  from feed_consumes [OF assms [unfolded this]] show ?thesis by (auto simp: work_left_def)
qed

definition task_of :: "Connection \<Rightarrow> fr_frame \<Rightarrow> Task" where
  "task_of conn frame =
     \<lparr>ta_conn_id = cn_id conn, ta_peer = cn_peer conn, ta_type = frame_type frame,
      ta_req_id = frame_req_id frame, ta_payload = mem_of (frame_payload frame),
      ta_is_get_continue = False, ta_get_key = []\<rparr>"

lemma send_error_parser: "send_error alloc conn req_id code message = Inr conn' \<Longrightarrow> cn_parser conn' = cn_parser conn"
  by (auto simp: send_error_def append_outbox_def rbind_eq_Inr)

text \<open>
  The loop over the bytes of one read: every complete frame is queued, or answered at once when the
  queue is full. The result is the connection, the queue, and whether reading may go on. On an
  error of the parser the frame is still zero.
\<close>

function absorb_input ::
  "alloc \<Rightarrow> bool \<Rightarrow> Connection \<Rightarrow> Task list \<Rightarrow> bytes \<Rightarrow> (Connection \<times> Task list \<times> bool) result" where
  "absorb_input alloc stopping conn queue left =
     (if left = [] then Inr (conn, queue, True)
      else case fr_frame_parser_feed alloc (cn_parser conn) (Some left) (length left) of
             (st, parser, consumed, ready) \<Rightarrow>
               if st \<noteq> FR_OK
               then rbind (send_error alloc (conn\<lparr>cn_parser := parser\<rparr>) 0 st
                             ''protocol violation, closing connection'') (\<lambda>conn.
                      Inr (conn\<lparr>cn_close_after_flush := True\<rparr>, queue, False))
               else case ready of
                      None \<Rightarrow> Inr (conn\<lparr>cn_parser := parser\<rparr>, queue, True)
                    | Some frame \<Rightarrow>
                        if length queue < queue_capacity \<and> \<not> stopping
                        then absorb_input alloc stopping (conn\<lparr>cn_parser := parser\<rparr>)
                               (queue @ [task_of conn frame]) (drop (the consumed) left)
                        else case send_error alloc (conn\<lparr>cn_parser := parser\<rparr>) (frame_req_id frame)
                                    FR_E_BUSY ''server busy'' of
                               Inl e \<Rightarrow> Inl e
                             | Inr conn \<Rightarrow>
                                 absorb_input alloc stopping conn queue (drop (the consumed) left))"
  by pat_completeness auto

termination absorb_input
  by (relation "measure (\<lambda>(alloc, stopping, conn, queue, left). work_left (cn_parser conn) left)")
    (auto intro!: feed_progress [OF sym] simp: send_error_parser)

declare absorb_input.simps [simp del]

text \<open>What \<open>read_from\<close> returns: an error or the end of the stream, nothing yet, or bytes.\<close>

datatype received = Broken | Nothing | Bytes bytes

text \<open>
  The loop of \<open>on_conn_event\<close> over the reads of a readable socket; it goes on after a full
  buffer. The flag tells whether the connection is still there.
\<close>

fun read_input ::
  "alloc \<Rightarrow> int \<Rightarrow> u64 \<Rightarrow> received list \<Rightarrow> transport \<Rightarrow> (transport \<times> bool) result" where
  "read_input alloc now conn_id [] t = Inr (t, True)"
| "read_input alloc now conn_id (r # rs) t =
     (case r of
        Broken \<Rightarrow> Inr (close_connection conn_id t, False)
      | Nothing \<Rightarrow> Inr (t, True)
      | Bytes bs \<Rightarrow>
          (case find_conn conn_id t of
             None \<Rightarrow> Inr (t, False)
           | Some conn \<Rightarrow>
               (case absorb_input alloc (tr_stopping t) (conn\<lparr>cn_last_active := now\<rparr>) (tr_queue t) bs of
                  Inl e \<Rightarrow> Inl e
                | Inr (conn, queue, keep) \<Rightarrow>
                    let t = set_conn conn (t\<lparr>tr_queue := queue\<rparr>)
                    in if keep \<and> length bs = 65536 then read_input alloc now conn_id rs t
                       else Inr (t, True))))"

record event =
  ev_fd :: int
  ev_readable :: bool
  ev_writable :: bool
  ev_reads :: "received list"
  ev_writes :: "int list"

text \<open>What follows the reading: writing, and closing a connection that is done.\<close>

definition finish_event :: "u64 \<Rightarrow> event \<Rightarrow> transport \<Rightarrow> transport" where
  "finish_event conn_id ev t =
     (let t = (if ev_writable ev then flush_conn conn_id (ev_writes ev) t else t)
      in case find_conn conn_id t of
           None \<Rightarrow> t
         | Some conn \<Rightarrow>
             if cn_close_after_flush conn \<and> buf_len (cn_outbox conn) = 0
             then close_connection conn_id t else t)"

definition on_conn_event :: "alloc \<Rightarrow> int \<Rightarrow> event \<Rightarrow> transport \<Rightarrow> transport result" where
  "on_conn_event alloc now ev t =
     (case find (\<lambda>c. cn_fd c = ev_fd ev) (tr_connections t) of
        None \<Rightarrow> Inr t
      | Some conn \<Rightarrow>
          if cn_id conn = 0 then Inr t
          else rbind (if ev_readable ev then read_input alloc now (cn_id conn) (ev_reads ev) t else Inr (t, True))
            (\<lambda>(t, there). Inr (if there then finish_event (cn_id conn) ev t else t)))"

section \<open>Workers\<close>

text \<open>The frame a worker rebuilds from its task; the status of the copy is ignored.\<close>

definition frame_of_task :: "alloc \<Rightarrow> Task \<Rightarrow> fr_frame" where
  "frame_of_task alloc task =
     (let payload = snd (fr_buf_append alloc fr_buf_init
                           (if ta_payload task = [] then None else Some (ta_payload task))
                           (of_nat (length (ta_payload task))))
      in \<lparr>frame_type = ta_type task, frame_flags = 0, frame_req_id = ta_req_id task,
          frame_payload = (if buf_len payload \<noteq> 0 then Some (buf_bytes payload) else None),
          frame_payload_len = unat (buf_len payload)\<rparr>)"

text \<open>
  The handlers of \<open>worker_loop\<close>: an exception becomes an ERROR frame of an otherwise empty
  result. The left side is an exception that leaves the thread.
\<close>

fun caught :: "alloc \<Rightarrow> Task \<Rightarrow> HandleResult result \<Rightarrow> HandleResult result" where
  "caught alloc task (Inr res) = Inr res"
| "caught alloc task (Inl (Err code message)) =
     rbind (error_frame alloc (ta_req_id task) code (what (Err code message)) fr_buf_init) (\<lambda>out.
       Inr (empty_result\<lparr>hr_out := out\<rparr>))"
| "caught alloc task (Inl (StdExc message)) =
     rbind (error_frame alloc (ta_req_id task) FR_E_INTERNAL message fr_buf_init) (\<lambda>out.
       Inr (empty_result\<lparr>hr_out := out\<rparr>))"

definition completion_of :: "Task \<Rightarrow> HandleResult \<Rightarrow> Completion" where
  "completion_of task res =
     \<lparr>co_conn_id = ta_conn_id task, co_bytes = hr_out res, co_close_conn = hr_close_connection res\<rparr>"

definition continuation_of :: "Task \<Rightarrow> HandleResult \<Rightarrow> Task" where
  "continuation_of task res =
     \<lparr>ta_conn_id = ta_conn_id task, ta_peer = ta_peer task, ta_type = 0, ta_req_id = 0, ta_payload = [],
      ta_is_get_continue = True, ta_get_key = hr_continuation_key res\<rparr>"

definition after_handler :: "Task \<Rightarrow> HandleResult \<Rightarrow> worker" where
  "after_handler task res =
     (if hr_has_more res then Continuing task res else Completing (completion_of task res))"

text \<open>The dispatcher reads the hub of the server.\<close>

definition with_hub :: "transport \<Rightarrow> dispatch_env \<Rightarrow> dispatch_env" where
  "with_hub t env = env\<lparr>de_hub := tr_hub t\<rparr>"

text \<open>The two calls of the dispatcher, with the worker's state after them.\<close>

definition run_request :: "dispatch_env \<Rightarrow> Task \<Rightarrow> transport \<Rightarrow> (worker \<times> transport) result" where
  "run_request env task t =
     (case tr_clients t (ta_conn_id task) of
        None \<Rightarrow> Inr (Idle, t)
      | Some client \<Rightarrow>
          (case handle (with_hub t env) (ta_conn_id task) (ta_peer task) (frame_of_task (de_alloc env) task)
                  client (tr_dispatcher t) of
             (r, client, d) \<Rightarrow>
               rbind (caught (de_alloc env) task r) (\<lambda>res.
                 Inr (after_handler task res,
                      t\<lparr>tr_clients := (tr_clients t)(ta_conn_id task \<mapsto> client), tr_dispatcher := d\<rparr>))))"

definition run_continuation :: "dispatch_env \<Rightarrow> Task \<Rightarrow> transport \<Rightarrow> (worker \<times> transport) result" where
  "run_continuation env task t =
     (case handle_get_continue (with_hub t env) (ta_get_key task) (tr_dispatcher t) of
        (r, d) \<Rightarrow>
          rbind (caught (de_alloc env) task r) (\<lambda>res.
            Inr (after_handler task res, t\<lparr>tr_dispatcher := d\<rparr>)))"

text \<open>
  One step of a worker, None where it has to wait or has ended; the left side of the sum ends the
  process.
\<close>

fun worker_step :: "dispatch_env \<Rightarrow> worker \<Rightarrow> transport \<Rightarrow> (worker \<times> transport) result option" where
  "worker_step env Idle t =
     (if tr_stopping t then None else Some (Inr (Asking, t)))"
| "worker_step env Asking t =
     (case tr_queue t of
        [] \<Rightarrow> Some (Inr (Idle, t))
      | task # rest \<Rightarrow> Some (Inr (Popped task, t\<lparr>tr_queue := rest\<rparr>)))"
| "worker_step env (Popped task) t =
     (if ta_is_get_continue task then Some (run_continuation env task t)
      else if find_conn (ta_conn_id task) t = None then Some (Inr (Idle, t))
      else Some (Inr (Found task, t)))"
| "worker_step env (Found task) t = Some (run_request env task t)"
| "worker_step env (Continuing task res) t =
     (if tr_stopping t then Some (Inr (Completing (completion_of task res), t))
      else if length (tr_queue t) < queue_capacity
      then Some (Inr (Completing (completion_of task res),
                      t\<lparr>tr_queue := tr_queue t @ [continuation_of task res]\<rparr>))
      else None)"
| "worker_step env (Completing completion) t =
     (if tr_stopping t \<or> length (tr_done t) < kDoneQueueHighWater
      then Some (Inr (Idle, t\<lparr>tr_done := tr_done t @ [completion]\<rparr>))
      else None)"

definition move_worker ::
  "dispatch_env \<Rightarrow> nat \<Rightarrow> transport \<Rightarrow> transport result option" where
  "move_worker env w t =
     map_option (\<lambda>r. rbind r (\<lambda>(state, t). Inr (t\<lparr>tr_workers := (tr_workers t)[w := state]\<rparr>)))
       (worker_step env (tr_workers t ! w) t)"

section \<open>The maintenance thread and the end\<close>

definition maintain :: "senv \<Rightarrow> transport \<Rightarrow> transport" where
  "maintain env t =
     t\<lparr>tr_dispatcher := (tr_dispatcher t)\<lparr>ds_storage :=
       snd (run_maintenance env (ds_storage (tr_dispatcher t)))\<rparr>\<rparr>"

text \<open>\<open>stop\<close> before and after the threads have been joined.\<close>

definition stop_threads :: "transport \<Rightarrow> transport" where
  "stop_threads t = t\<lparr>tr_stopping := True\<rparr>"

definition close_all :: "transport \<Rightarrow> transport" where
  "close_all t = t\<lparr>tr_connections := []\<rparr>"

end
