(* ===== verification/ServerRuns.thy ===== *)
theory ServerRuns
  imports Transport
begin

text \<open>
  The runs of the server: the I/O thread, the workers and the maintenance thread in any
  interleaving (\<open>transport_step\<close>), the simulation of a run by a run of the service, and the
  bounds that every state keeps.
\<close>

section \<open>Steps of the threads\<close>

text \<open>The uploads a worker is about to handle do not collide with stored content.\<close>

fun admitted_work :: "(bytes \<Rightarrow> bytes) \<Rightarrow> dispatch_env \<Rightarrow> worker \<Rightarrow> transport \<Rightarrow> bool" where
  "admitted_work sha env (Found task) t =
     admitted_frame sha (frame_of_task (de_alloc env) task) (ds_storage (tr_dispatcher t))"
| "admitted_work sha env w t = True"

inductive transport_step ::
  "(bytes \<Rightarrow> bytes) \<Rightarrow> server_limits \<Rightarrow> transport \<Rightarrow> transport \<Rightarrow> bool" for sha limits where
  accept: "\<not> tr_stopping t \<Longrightarrow> transport_step sha limits t (accept_new limits now clients t)"
| event: "\<not> tr_stopping t \<Longrightarrow> on_conn_event alloc now ev t = Inr t' \<Longrightarrow>
    transport_step sha limits t t'"
| drain: "\<not> tr_stopping t \<Longrightarrow> transport_step sha limits t (drain_completions alloc t)"
| flush: "\<not> tr_stopping t \<Longrightarrow> transport_step sha limits t (flush_writable writes t)"
| sweep: "\<not> tr_stopping t \<Longrightarrow> transport_step sha limits t (sweep_idle limits now t)"
| work: "w < length (tr_workers t) \<Longrightarrow> env_sha (de_storage env) = sha \<Longrightarrow>
    admitted_work sha env (tr_workers t ! w) t \<Longrightarrow> move_worker env w t = Some (Inr t') \<Longrightarrow>
    transport_step sha limits t t'"
| maintenance: "\<not> tr_stopping t \<Longrightarrow> transport_step sha limits t (maintain env t)"
| stop: "transport_step sha limits t (stop_threads t)"
| joined: "tr_stopping t \<Longrightarrow> set (tr_workers t) \<subseteq> {Idle} \<Longrightarrow> transport_step sha limits t (close_all t)"

inductive transport_run ::
  "(bytes \<Rightarrow> bytes) \<Rightarrow> server_limits \<Rightarrow> transport \<Rightarrow> transport \<Rightarrow> bool" for sha limits t0 where
  started: "transport_run sha limits t0 t0"
| moved: "transport_run sha limits t0 t \<Longrightarrow> transport_step sha limits t t' \<Longrightarrow>
    transport_run sha limits t0 t'"

lemma run_trans:
  "transport_run sha limits t' t'' \<Longrightarrow> transport_run sha limits t t' \<Longrightarrow> transport_run sha limits t t''"
  by (induction rule: transport_run.induct) (auto intro: moved)

section \<open>What every thread keeps\<close>

text \<open>
  The operations a property of the server has to survive; the handlers of the threads are composed
  of them, so the property then holds in every state of a run.
\<close>

locale kept_by_threads =
  fixes sha :: "bytes \<Rightarrow> bytes" and limits :: server_limits and P :: "transport \<Rightarrow> bool"
  assumes kept_accept: "P t \<Longrightarrow> P (accept_one limits now client t)"
    and kept_close: "P t \<Longrightarrow> P (close_connection conn_id t)"
    and kept_absorbed: "P t \<Longrightarrow> find_conn conn_id t = Some conn \<Longrightarrow>
      absorb_input alloc (tr_stopping t) (conn\<lparr>cn_last_active := now\<rparr>) (tr_queue t) bs = Inr (conn', queue, keep) \<Longrightarrow>
      P (set_conn conn' (t\<lparr>tr_queue := queue\<rparr>))"
    and kept_flushed: "P t \<Longrightarrow> find_conn conn_id t = Some conn \<Longrightarrow>
      write_loop writes (cn_outbox conn) = Some outbox \<Longrightarrow> P (set_conn (conn\<lparr>cn_outbox := outbox\<rparr>) t)"
    and kept_taken: "P t \<Longrightarrow> P (t\<lparr>tr_done := []\<rparr>)"
    and kept_deliver: "P t \<Longrightarrow> P (deliver alloc completion t)"
    and kept_work: "P t \<Longrightarrow> w < length (tr_workers t) \<Longrightarrow> env_sha (de_storage env) = sha \<Longrightarrow>
      admitted_work sha env (tr_workers t ! w) t \<Longrightarrow> worker_step env (tr_workers t ! w) t = Some (Inr (state, t')) \<Longrightarrow>
      P (t'\<lparr>tr_workers := (tr_workers t')[w := state]\<rparr>)"
    and kept_maintain: "P t \<Longrightarrow> P (maintain senv t)"
    and kept_stop: "P t \<Longrightarrow> P (stop_threads t)"
    and kept_joined: "P t \<Longrightarrow> tr_stopping t \<Longrightarrow> set (tr_workers t) \<subseteq> {Idle} \<Longrightarrow> P (close_all t)"
begin

lemma kept_fold:
  assumes "\<And>x t. P t \<Longrightarrow> P (f x t)" and "P t" shows "P (fold f xs t)"
  using assms(2) by (induction xs arbitrary: t) (auto intro: assms(1))

lemma kept_flush: "P t \<Longrightarrow> P (flush_conn conn_id writes t)"
  using kept_flushed [of t conn_id]
  by (auto simp: flush_conn_def Let_def kept_close split: option.split)

lemma kept_read: "P t \<Longrightarrow> read_input alloc now conn_id rs t = Inr (t', there) \<Longrightarrow> P t'"
proof (induction rs arbitrary: t)
  case Nil
  then show ?case by simp
next
  case (Cons r rs)
  show ?case
  proof (cases r)
    case (Bytes bs)
    show ?thesis
    proof (cases "find_conn conn_id t")
      case None
      then show ?thesis using Cons.prems Bytes by simp
    next
      case (Some conn)
      obtain conn' queue keep where
        a: "absorb_input alloc (tr_stopping t) (conn\<lparr>cn_last_active := now\<rparr>) (tr_queue t) bs = Inr (conn', queue, keep)"
        using Cons.prems(2) Some Bytes by (auto split: sum.splits)
      have "P (set_conn conn' (t\<lparr>tr_queue := queue\<rparr>))" by (rule kept_absorbed [OF Cons.prems(1) Some a])
      then show ?thesis using Cons.prems(2) Some Bytes a Cons.IH by (auto simp: Let_def split: if_splits)
    qed
  qed (use Cons.prems kept_close in auto)
qed

lemma kept_finish: "P t \<Longrightarrow> P (finish_event conn_id ev t)"
proof -
  assume "P t"
  then have "P (if ev_writable ev then flush_conn conn_id (ev_writes ev) t else t)" by (simp add: kept_flush)
  moreover have "P u \<Longrightarrow> P (case find_conn conn_id u of None \<Rightarrow> u | Some conn \<Rightarrow>
      if cn_close_after_flush conn \<and> buf_len (cn_outbox conn) = 0 then close_connection conn_id u else u)" for u
    by (simp add: kept_close split: option.split)
  ultimately show ?thesis unfolding finish_event_def Let_def by blast
qed

lemma kept_event:
  assumes "P t" and "on_conn_event alloc now ev t = Inr t'" shows "P t'"
proof (cases "find (\<lambda>c. cn_fd c = ev_fd ev) (tr_connections t)")
  case None
  then show ?thesis using assms by (simp add: on_conn_event_def)
next
  case (Some conn)
  show ?thesis
  proof (cases "cn_id conn = 0")
    case True
    then show ?thesis using assms Some by (simp add: on_conn_event_def)
  next
    case False
    obtain t1 there where
      r: "(if ev_readable ev then read_input alloc now (cn_id conn) (ev_reads ev) t else Inr (t, True)) = Inr (t1, there)"
      and t': "t' = (if there then finish_event (cn_id conn) ev t1 else t1)"
      using assms(2) Some False unfolding on_conn_event_def by (simp add: rbind_eq_Inr) blast
    have "P t1" using r kept_read assms(1) by (auto split: if_splits)
    then show ?thesis unfolding t' by (auto intro: kept_finish)
  qed
qed

lemma kept_step:
  assumes "P t" and "transport_step sha limits t t'" shows "P t'"
  using assms(2)
proof cases
  case (accept now clients)
  then show ?thesis unfolding accept_new_def by (simp add: kept_fold kept_accept assms(1))
next
  case (event alloc now ev)
  then show ?thesis using kept_event assms(1) by blast
next
  case (drain alloc)
  then show ?thesis unfolding drain_completions_def by (simp add: kept_fold kept_deliver kept_taken assms(1))
next
  case (flush writes)
  then show ?thesis unfolding flush_writable_def by (simp add: kept_fold kept_flush assms(1))
next
  case (sweep now)
  then show ?thesis unfolding sweep_idle_def by (simp add: kept_fold kept_close assms(1))
next
  case (work w env)
  obtain state t1 where "worker_step env (tr_workers t ! w) t = Some (Inr (state, t1))"
    and "t' = t1\<lparr>tr_workers := (tr_workers t1)[w := state]\<rparr>"
    using work(4) by (auto simp: move_worker_def rbind_eq_Inr)
  then show ?thesis using kept_work [OF assms(1) work(1,2,3)] by blast
qed (use assms(1) kept_maintain kept_stop kept_joined in auto)

lemma kept_run: "transport_run sha limits t0 t \<Longrightarrow> P t0 \<Longrightarrow> P t"
  by (induction rule: transport_run.induct) (auto intro: kept_step)

end

section \<open>The service behind the server\<close>

text \<open>Every step of the server is a step of the service or leaves the service as it is.\<close>

definition service_of :: "transport \<Rightarrow> service" where
  "service_of t = \<lparr>sv_dispatcher = tr_dispatcher t, sv_clients = tr_clients t\<rparr>"

definition serves :: "(bytes \<Rightarrow> bytes) \<Rightarrow> transport \<Rightarrow> bool" where
  "serves sha t = service_run sha (service_of t)"

lemma service_of_updates [simp]:
  "service_of (set_conn conn t) = service_of t"
  "service_of (count_connections t) = service_of t"
  "service_of (t\<lparr>tr_queue := q\<rparr>) = service_of t"
  "service_of (t\<lparr>tr_done := ds\<rparr>) = service_of t"
  "service_of (t\<lparr>tr_workers := ws\<rparr>) = service_of t"
  "service_of (t\<lparr>tr_connections := cs\<rparr>) = service_of t"
  "service_of (t\<lparr>tr_stopping := b\<rparr>) = service_of t"
  "service_of (t\<lparr>tr_next_conn_id := n\<rparr>) = service_of t"
  by (simp_all add: service_of_def set_conn_def count_connections_def)

lemma serves_same: "service_of t' = service_of t \<Longrightarrow> serves sha t \<Longrightarrow> serves sha t'"
  by (simp add: serves_def)

lemma serves_step: "service_step sha (service_of t) (service_of t') \<Longrightarrow> serves sha t \<Longrightarrow> serves sha t'"
  unfolding serves_def by (blast intro: move)

lemma serves_accept: assumes inv: "serves sha t" shows "serves sha (accept_one limits now client t)"
proof -
  let ?t = "t\<lparr>tr_clients := (tr_clients t)(tr_next_conn_id t \<mapsto> new_client)\<rparr>"
  have "service_step sha (service_of t) (service_of ?t)"
    using connect [of sha "service_of t" "tr_next_conn_id t"] by (simp add: service_of_def)
  then have "serves sha ?t" by (rule serves_step [OF _ inv])
  moreover have "service_of (accept_one limits now client t) = service_of t \<or>
      service_of (accept_one limits now client t) = service_of ?t"
    by (simp add: accept_one_def Let_def service_of_def count_connections_def)
  ultimately show ?thesis using inv by (auto simp: serves_def)
qed

lemma serves_close: assumes inv: "serves sha t" shows "serves sha (close_connection conn_id t)"
proof (cases "find_conn conn_id t")
  case None
  then show ?thesis using inv by (simp add: close_connection_def)
next
  case (Some conn)
  have "service_of (close_connection conn_id t) =
      (service_of t)\<lparr>sv_dispatcher := on_connection_closed conn_id (sv_dispatcher (service_of t))\<rparr>"
    using Some by (simp add: close_connection_def service_of_def count_connections_def Let_def)
  then have "service_step sha (service_of t) (service_of (close_connection conn_id t))"
    by (simp only: detached)
  then show ?thesis by (rule serves_step [OF _ inv])
qed

lemma serves_deliver: "serves sha t \<Longrightarrow> serves sha (deliver alloc completion t)"
  by (simp add: serves_def deliver_def Let_def split: option.split)

lemma serves_maintain: assumes inv: "serves sha t" shows "serves sha (maintain senv t)"
proof (rule serves_step [OF _ inv])
  show "service_step sha (service_of t) (service_of (maintain senv t))"
    using background [OF step_maintenance [of sha "ds_storage (sv_dispatcher (service_of t))" senv]]
    by (simp add: maintain_def service_of_def)
qed

lemma serves_work:
  assumes s: "worker_step env worker t = Some (Inr (state, t1))" and "env_sha (de_storage env) = sha"
    and "admitted_work sha env worker t" and inv: "serves sha t"
  shows "serves sha t1"
proof -
  have sha: "env_sha (de_storage (with_hub t env)) = sha" using assms(2) by (simp add: with_hub_def)
  show ?thesis
  proof (cases worker)
    case Idle
    then have "service_of t1 = service_of t" using s by (auto split: if_splits)
    then show ?thesis by (rule serves_same [OF _ inv])
  next
    case Asking
    then have "service_of t1 = service_of t" using s by (auto split: list.splits)
    then show ?thesis by (rule serves_same [OF _ inv])
  next
    case (Popped task)
    show ?thesis
    proof (cases "ta_is_get_continue task")
      case True
      then obtain r d where h: "handle_get_continue (with_hub t env) (ta_get_key task) (tr_dispatcher t) = (r, d)"
        and t1: "service_of t1 = (service_of t)\<lparr>sv_dispatcher := d\<rparr>"
        using s Popped by (auto simp: run_continuation_def rbind_eq_Inr service_of_def split: prod.splits)
      have "service_step sha (service_of t) (service_of t1)"
        unfolding t1 by (rule continued) (use h in \<open>simp add: service_of_def\<close>)
      then show ?thesis by (rule serves_step [OF _ inv])
    next
      case False
      then have "t1 = t" using s Popped by (auto split: if_splits)
      then show ?thesis using inv by simp
    qed
  next
    case (Found task)
    show ?thesis
    proof (cases "tr_clients t (ta_conn_id task)")
      case None
      then have "t1 = t" using s Found by (simp add: run_request_def)
      then show ?thesis using inv by simp
    next
      case (Some client)
      let ?frame = "frame_of_task (de_alloc env) task"
      obtain r client' d where h: "handle (with_hub t env) (ta_conn_id task) (ta_peer task) ?frame client (tr_dispatcher t) =
          (r, client', d)" by (metis prod_cases3)
      then have t1: "service_of t1 = (service_of t)\<lparr>sv_dispatcher := d,
          sv_clients := (sv_clients (service_of t))(ta_conn_id task \<mapsto> client')\<rparr>"
        using s Found Some by (auto simp: run_request_def rbind_eq_Inr service_of_def split: prod.splits)
      have "service_step sha (service_of t) (service_of t1)"
        unfolding t1
        by (rule request [OF _ sha]) (use Some h assms(3) Found in \<open>simp_all add: service_of_def\<close>)
      then show ?thesis by (rule serves_step [OF _ inv])
    qed
  next
    case (Continuing task res)
    then have "service_of t1 = service_of t" using s by (auto split: if_splits)
    then show ?thesis by (rule serves_same [OF _ inv])
  next
    case (Completing c)
    then have "service_of t1 = service_of t" using s by (auto split: if_splits)
    then show ?thesis by (rule serves_same [OF _ inv])
  qed
qed

interpretation served: kept_by_threads sha limits "serves sha" for sha limits
proof unfold_locales
  fix t w env state t' assume "serves sha t" "env_sha (de_storage env) = sha"
    "admitted_work sha env (tr_workers t ! w) t" "worker_step env (tr_workers t ! w) t = Some (Inr (state, t'))"
  then have "serves sha t'" using serves_work by blast
  then show "serves sha (t'\<lparr>tr_workers := (tr_workers t')[w := state]\<rparr>)" by (simp add: serves_def)
qed (simp_all add: serves_accept serves_close serves_deliver serves_maintain,
  simp_all add: serves_def stop_threads_def close_all_def)

end
