(* ===== verification/ServerBounds.thy ===== *)
theory ServerBounds
  imports ServerRuns
begin

text \<open>
  What every state of the server keeps: bounded queues, at most the configured number of
  connections, counted in the status hub, with one client each, and parsers and buffers that are
  well formed.
\<close>

section \<open>Connections\<close>

definition conn_ok :: "Connection \<Rightarrow> bool" where
  "conn_ok c \<longleftrightarrow> (parser_inv (cn_parser c) \<or> parser_dead (cn_parser c)) \<and> buf_wf (cn_outbox c)"

lemma append_wf: "buf_wf b \<Longrightarrow> buf_wf (snd (fr_buf_append alloc b src n))"
proof (cases "fst (fr_buf_append alloc b src n) = FR_OK")
  case True
  assume wf: "buf_wf b"
  obtain b1 where r: "fr_buf_reserve alloc b n = (FR_OK, b1)"
    and "snd (fr_buf_append alloc b src n) = b1\<lparr>buf_bytes := buf_bytes b1 @ take (unat n) (mem_of src)\<rparr>"
    using True by (auto simp: fr_buf_append_def split: if_splits prod.splits)
  then show ?thesis using reserve_ok_room(1) [OF wf r] by (simp add: buf_wf_def reserve_bytes [OF r])
next
  case False
  then have "snd (fr_buf_append alloc b src n) = b"
    by (intro append_fail [of alloc b src n "fst (fr_buf_append alloc b src n)"]) simp_all
  then show "buf_wf b \<Longrightarrow> ?thesis" by simp
qed

lemma append_outbox_ok: "conn_ok c \<Longrightarrow> conn_ok (append_outbox alloc bytes c)"
  by (simp add: conn_ok_def append_outbox_def append_wf)

lemma append_outbox_fields [simp]:
  "cn_id (append_outbox alloc bytes c) = cn_id c"
  "cn_parser (append_outbox alloc bytes c) = cn_parser c"
  "cn_peer (append_outbox alloc bytes c) = cn_peer c"
  "cn_close_after_flush (append_outbox alloc bytes c) = cn_close_after_flush c"
  "cn_last_active (append_outbox alloc bytes c) = cn_last_active c"
  by (simp_all add: append_outbox_def)

lemma send_error_ok: "send_error alloc c rid code message = Inr c' \<Longrightarrow> conn_ok c \<Longrightarrow> conn_ok c' \<and> cn_id c' = cn_id c"
  by (auto simp: send_error_def rbind_eq_Inr append_outbox_ok)

lemma feed_live:
  assumes "parser_inv p \<or> parser_dead p" and "fr_frame_parser_feed alloc p (Some bs) (length bs) = (st, p', consumed, f)"
  shows "parser_inv p' \<or> parser_dead p'"
  using assms(1)
proof
  assume "parser_dead p"
  then show ?thesis using assms(2) by (simp add: fr_frame_parser_feed_def parser_dead_def absorb_full)
next
  assume "parser_inv p"
  then show ?thesis
    using feed_spec [of p "length bs" bs alloc] assms(2) by (cases "spec_parse (pending p @ bs)") auto
qed

lemma absorb_input_ok:
  "absorb_input alloc stopping conn queue left = Inr (conn', queue', keep) \<Longrightarrow> conn_ok conn \<Longrightarrow>
   length queue \<le> queue_capacity \<Longrightarrow>
   conn_ok conn' \<and> cn_id conn' = cn_id conn \<and> length queue' \<le> queue_capacity"
proof (induction alloc stopping conn queue left rule: absorb_input.induct)
  case (1 alloc stopping conn queue left)
  show ?case
  proof (cases "left = []")
    case True
    then show ?thesis using 1(3-5) by (subst (asm) absorb_input.simps) simp
  next
    case False
    obtain st p consumed ready where f: "fr_frame_parser_feed alloc (cn_parser conn) (Some left) (length left) =
        (st, p, consumed, ready)" by (metis prod_cases4)
    let ?conn = "conn\<lparr>cn_parser := p\<rparr>"
    have ok: "conn_ok ?conn" using 1(4) feed_live [OF _ f] by (simp add: conn_ok_def)
    note eq = 1(3) [unfolded absorb_input.simps [of alloc stopping conn queue left] f, simplified False, simplified]
    show ?thesis
    proof (cases "st = FR_OK")
      case bad: False
      then obtain c where "send_error alloc ?conn 0 st ''protocol violation, closing connection'' = Inr c"
        and "conn' = c\<lparr>cn_close_after_flush := True\<rparr>" "queue' = queue"
        using eq by (auto simp: rbind_eq_Inr)
      then show ?thesis using send_error_ok [OF _ ok] 1(5) by (auto simp: conn_ok_def)
    next
      case good: True
      show ?thesis
      proof (cases ready)
        case None
        then show ?thesis using eq good ok 1(5) by auto
      next
        case (Some frame)
        show ?thesis
        proof (cases "length queue < queue_capacity \<and> \<not> stopping")
          case True
          then show ?thesis
            using 1(1) [OF False f [symmetric] refl refl _ Some True] eq good Some ok by simp
        next
          case full: False
          then obtain c where s: "send_error alloc ?conn (frame_req_id frame) FR_E_BUSY ''server busy'' = Inr c"
            using eq good Some by (auto split: sum.splits)
          then show ?thesis
            using 1(2) [OF False f [symmetric] refl refl _ Some full s] eq good Some full
              send_error_ok [OF s ok] 1(5) by auto
        qed
      qed
    qed
  qed
qed

section \<open>The bounds\<close>

definition server_ok :: "server_limits \<Rightarrow> nat \<Rightarrow> transport \<Rightarrow> bool" where
  "server_ok limits n t \<longleftrightarrow>
     length (tr_queue t) \<le> queue_capacity \<and>
     (\<not> tr_stopping t \<longrightarrow> length (tr_done t) \<le> kDoneQueueHighWater) \<and>
     length (tr_workers t) = n \<and>
     int (length (tr_connections t)) \<le> lim_max_connections limits \<and>
     sorted_wrt (<) (map cn_id (tr_connections t)) \<and>
     (\<forall>c\<in>set (tr_connections t). conn_ok c \<and> tr_clients t (cn_id c) \<noteq> None) \<and>
     (\<not> tr_stopping t \<longrightarrow>
       (\<forall>count start. tr_hub t = Some (count, start) \<longrightarrow> count = of_nat (length (tr_connections t))))"

lemma find_conn_Some: "find_conn conn_id t = Some c \<Longrightarrow> c \<in> set (tr_connections t) \<and> cn_id c = conn_id"
  by (auto simp: find_conn_def find_Some_iff)

lemma find_conn_None: "find_conn conn_id t = None \<longleftrightarrow> conn_id \<notin> cn_id ` set (tr_connections t)"
  by (auto simp: find_conn_def find_None_iff)

lemma set_conn_ids: "map cn_id (tr_connections (set_conn c t)) = map cn_id (tr_connections t)"
  by (simp add: set_conn_def)

lemma server_ok_set_conn:
  assumes "server_ok limits n t" and "conn_ok c" shows "server_ok limits n (set_conn c t)"
proof -
  have "length (tr_connections (set_conn c t)) = length (tr_connections t)" by (simp add: set_conn_def)
  moreover have "\<forall>d\<in>set (tr_connections (set_conn c t)). conn_ok d \<and> tr_clients (set_conn c t) (cn_id d) \<noteq> None"
  proof
    fix d assume "d \<in> set (tr_connections (set_conn c t))"
    then obtain e where e: "e \<in> set (tr_connections t)" "d = (if cn_id e = cn_id c then c else e)"
      by (auto simp: set_conn_def)
    then have "cn_id d = cn_id e" by simp
    then show "conn_ok d \<and> tr_clients (set_conn c t) (cn_id d) \<noteq> None"
      using e assms by (auto simp: server_ok_def set_conn_def)
  qed
  ultimately show ?thesis
    using assms(1) set_conn_ids [of c t] unfolding server_ok_def
    by (simp add: set_conn_def del: map_map)
qed

lemma sorted_wrt_insort:
  assumes "sorted_wrt (<) (map f xs)" and "f x \<notin> f ` set xs"
  shows "sorted_wrt (<) (map f (insort_key f x xs))"
  using assms by (induction xs) (auto simp: set_insort_key)

lemma server_ok_accept:
  assumes "server_ok limits n t" shows "server_ok limits n (accept_one limits now client t)"
proof (cases "int (length (tr_connections t)) \<ge> lim_max_connections limits")
  case True
  then show ?thesis using assms by (simp add: accept_one_def)
next
  case room: False
  let ?id = "tr_next_conn_id t"
  let ?conn = "\<lparr>cn_fd = fst client, cn_peer = snd client, cn_id = ?id, cn_parser = fr_frame_parser_init,
     cn_outbox = fr_buf_init, cn_last_active = now, cn_close_after_flush = False\<rparr>"
  have new: "conn_ok ?conn" by (simp add: conn_ok_def)
  show ?thesis
  proof (cases "find_conn ?id t")
    case None
    then have "?id \<notin> cn_id ` set (tr_connections t)" by (simp add: find_conn_None)
    then have "sorted_wrt (<) (map cn_id (insort_key cn_id ?conn (tr_connections t)))"
      using assms by (intro sorted_wrt_insort) (simp_all add: server_ok_def)
    then show ?thesis
      using room None assms new
      by (auto simp: accept_one_def server_ok_def count_connections_def Let_def set_insort_key)
  next
    case (Some old)
    then show ?thesis
      using room assms by (auto simp: accept_one_def server_ok_def count_connections_def Let_def)
  qed
qed

lemma sorted_wrt_map_filter: "sorted_wrt R (map f xs) \<Longrightarrow> sorted_wrt R (map f (filter q xs))"
  by (induction xs) auto

lemma server_ok_close:
  assumes "server_ok limits n t" shows "server_ok limits n (close_connection conn_id t)"
proof -
  have "int (length (filter (\<lambda>c. cn_id c \<noteq> conn_id) (tr_connections t))) \<le> lim_max_connections limits"
  proof (rule order_trans)
    show "int (length (filter (\<lambda>c. cn_id c \<noteq> conn_id) (tr_connections t))) \<le> int (length (tr_connections t))" by simp
    show "int (length (tr_connections t)) \<le> lim_max_connections limits" using assms by (simp add: server_ok_def)
  qed
  then show ?thesis
    using assms
    by (auto simp: close_connection_def server_ok_def count_connections_def Let_def sorted_wrt_map_filter
        split: option.split)
qed

lemma write_loop_wf: "write_loop ns b = Some b' \<Longrightarrow> buf_wf b \<Longrightarrow> buf_wf b'"
proof (induction ns b rule: write_loop.induct)
  case (2 n ns outbox)
  have "buf_wf (snd (fr_buf_consume outbox (word_of_int n)))"
    using 2(3) by (auto simp: fr_buf_consume_def buf_wf_def)
  then show ?case using 2 by (auto split: if_splits)
qed simp

lemma server_ok_deliver:
  assumes ok: "server_ok limits n t" shows "server_ok limits n (deliver alloc completion t)"
proof (cases "find_conn (co_conn_id completion) t")
  case None
  then show ?thesis using ok by (simp add: deliver_def)
next
  case (Some conn)
  let ?c = "append_outbox alloc (co_bytes completion) conn"
  have "conn_ok ?c" using find_conn_Some [OF Some] ok by (intro append_outbox_ok) (auto simp: server_ok_def)
  then have "conn_ok (if co_close_conn completion then ?c\<lparr>cn_close_after_flush := True\<rparr> else ?c)"
    by (simp add: conn_ok_def)
  from server_ok_set_conn [OF ok this] show ?thesis using ok Some by (simp add: deliver_def Let_def)
qed

lemma worker_step_bounds:
  assumes "worker_step env worker t = Some (Inr (state, t'))"
  shows "tr_connections t' = tr_connections t \<and> tr_hub t' = tr_hub t \<and> tr_stopping t' = tr_stopping t \<and>
    tr_workers t' = tr_workers t \<and> (\<forall>c. tr_clients t c \<noteq> None \<longrightarrow> tr_clients t' c \<noteq> None) \<and>
    (length (tr_queue t) \<le> queue_capacity \<longrightarrow> length (tr_queue t') \<le> queue_capacity) \<and>
    (\<not> tr_stopping t \<longrightarrow> length (tr_done t) \<le> kDoneQueueHighWater \<longrightarrow> length (tr_done t') \<le> kDoneQueueHighWater)"
proof (cases worker)
  case Idle
  then show ?thesis using assms by (auto split: if_splits)
next
  case Asking
  then show ?thesis using assms by (auto split: list.splits)
next
  case (Popped task)
  then show ?thesis using assms by (auto simp: run_continuation_def rbind_eq_Inr split: if_splits prod.splits)
next
  case (Found task)
  then show ?thesis using assms by (auto simp: run_request_def rbind_eq_Inr split: option.splits prod.splits)
next
  case (Continuing task res)
  then show ?thesis using assms by (auto split: if_splits)
next
  case (Completing c)
  then show ?thesis using assms by (auto split: if_splits)
qed

interpretation bounded: kept_by_threads sha limits "server_ok limits n" for sha limits n
proof unfold_locales
  fix t conn_id conn alloc now bs conn' queue keep
  assume ok: "server_ok limits n t" and f: "find_conn conn_id t = Some conn"
    and a: "absorb_input alloc (tr_stopping t) (conn\<lparr>cn_last_active := now\<rparr>) (tr_queue t) bs = Inr (conn', queue, keep)"
  have "conn_ok (conn\<lparr>cn_last_active := now\<rparr>)" "length (tr_queue t) \<le> queue_capacity"
    using ok find_conn_Some [OF f] by (auto simp: server_ok_def conn_ok_def)
  from absorb_input_ok [OF a this]
  have c: "conn_ok conn'" "length queue \<le> queue_capacity" by simp_all
  then have "server_ok limits n (t\<lparr>tr_queue := queue\<rparr>)" using ok by (simp add: server_ok_def)
  then show "server_ok limits n (set_conn conn' (t\<lparr>tr_queue := queue\<rparr>))" by (rule server_ok_set_conn [OF _ c(1)])
next
  fix t conn_id conn writes outbox
  assume ok: "server_ok limits n t" and f: "find_conn conn_id t = Some conn" and "write_loop writes (cn_outbox conn) = Some outbox"
  then have "conn_ok (conn\<lparr>cn_outbox := outbox\<rparr>)"
    using find_conn_Some [OF f] write_loop_wf by (auto simp: server_ok_def conn_ok_def)
  then show "server_ok limits n (set_conn (conn\<lparr>cn_outbox := outbox\<rparr>) t)" by (rule server_ok_set_conn [OF ok])
next
  fix t w env state t'
  assume ok: "server_ok limits n t" and "worker_step env (tr_workers t ! w) t = Some (Inr (state, t'))"
  from worker_step_bounds [OF this(2)] ok
  show "server_ok limits n (t'\<lparr>tr_workers := (tr_workers t')[w := state]\<rparr>)" by (auto simp: server_ok_def)
next
  fix t assume "server_ok limits n t"
  moreover have "0 \<le> lim_max_connections limits" using calculation by (auto simp: server_ok_def)
  moreover assume "tr_stopping t"
  ultimately show "server_ok limits n (close_all t)" by (simp add: server_ok_def close_all_def)
qed (auto intro: server_ok_accept server_ok_close server_ok_deliver,
  auto simp: server_ok_def maintain_def stop_threads_def)

lemma server_ok_start:
  "0 \<le> lim_max_connections limits \<Longrightarrow> server_ok limits n (start_server n hub d)"
  by (auto simp: server_ok_def start_server_def)

end
