(* ===== verification/Access.thy ===== *)
theory Access
  imports Service
begin

text \<open>
  Access control of the dispatcher (\<^verbatim>\<open>src/service/fr_dispatch.cpp\<close>): who is refused
  what, and whose data a request can change.
\<close>

section \<open>Refused requests\<close>

text \<open>A call that throws and changes nothing.\<close>

definition refuses :: "(hstate, 'a) op \<Rightarrow> bool" where
  "refuses m = (\<forall>h. \<exists>e. m h = (Inl e, h))"

lemma refuses_keeps: "refuses m \<Longrightarrow> keeps I m"
  unfolding refuses_def keeps_def by (metis snd_conv)

lemma refuses_first: "refuses m \<Longrightarrow> refuses (op_bind m k)"
  unfolding refuses_def
proof
  fix h assume "\<forall>h. \<exists>e. m h = (Inl e, h)"
  then obtain e where "m h = (Inl e, h)" by blast
  then show "\<exists>e. op_bind m k h = (Inl e, h)" by simp
qed

lemma refuses_lift: "refuses (op_lift (Inl e))"
  by (simp add: refuses_def op_lift_def)

lemma refuses_decode: "(\<And>x. refuses (k x)) \<Longrightarrow> refuses (op_bind (op_lift r) k)"
  by (cases r) (auto simp: refuses_def op_lift_def)

lemma reader_refused:
  assumes "cs_authenticated session" and "cs_role session = Reader"
  shows "\<exists>e. require_role session Publisher = Inl e" and "\<exists>e. require_role session Admin = Inl e"
    and "\<exists>e. require_session_allowed session info = Inl e"
    and "\<exists>e. require_delete_allowed session ns name version db = Inl e"
  using assms by (auto simp: require_role_def require_session_allowed_def require_delete_allowed_def throw_error_def)

lemma refuses_role: "\<exists>e. r = Inl e \<Longrightarrow> refuses (op_bind (op_lift r) k)"
  by (auto intro: refuses_first refuses_lift)

lemma refuses_allowed_session:
  assumes "cs_authenticated session" and "cs_role session = Reader"
  shows "refuses (allowed_session session sid)"
  unfolding refuses_def
proof
  fix h :: hstate
  obtain r where r: "allowed_session session sid h = (r, h)"
    using allowed_session_state prod.exhaust_sel by metis
  moreover have "\<exists>e. r = Inl e"
  proof (cases "load_session sid (sdb (ds_storage (hs_dispatcher h)))")
    case (Inl e)
    with r show ?thesis by (auto simp: allowed_session_def get_session_def on_storage_def query_def)
  next
    case (Inr info)
    obtain e where "require_session_allowed session info = Inl e" using reader_refused(3) assms by blast
    with Inr r show ?thesis by (auto simp: allowed_session_def get_session_def on_storage_def query_def op_lift_def)
  qed
  ultimately show "\<exists>e. allowed_session session sid h = (Inl e, h)" by blast
qed

lemma refuses_delete:
  assumes "cs_authenticated session" and "cs_role session = Reader"
  shows "refuses (ask (require_delete_allowed session ns name version))"
  unfolding refuses_def
proof
  fix h :: hstate
  obtain e where "require_delete_allowed session ns name version (sdb (ds_storage (hs_dispatcher h))) = Inl e"
    using reader_refused(4) assms by blast
  then show "\<exists>e. ask (require_delete_allowed session ns name version) h = (Inl e, h)"
    by (simp add: ask_def on_storage_def query_def)
qed

lemma reader_business:
  assumes "cs_authenticated session" and "cs_role session = Reader"
  shows "keeps (stored P) (dispatch_business env conn_id session rid frame)"
proof -
  note r = reader_refused [OF assms]
  have refused: "refuses (handle_create_upload env session rid frame)"
    "refuses (handle_put_chunk env session rid frame)" "refuses (handle_query_upload env session rid frame)"
    "refuses (handle_commit_upload env session rid frame)" "refuses (handle_abort_upload env session rid frame)"
    "refuses (handle_delete_artifact env session rid frame)" "refuses (handle_run_gc env session rid frame)"
    "refuses (handle_user_add env session rid frame)" "refuses (handle_user_disable env session rid frame)"
    "refuses (handle_user_list env session rid)" "refuses (handle_token_create env session rid frame)"
    "refuses (handle_token_revoke env session rid frame)" "refuses (handle_token_list env session rid frame)"
    "refuses (handle_session_list env session rid)" "refuses (handle_session_abort env session rid frame)"
    unfolding handler_defs
    by (intro refuses_role r refuses_decode refuses_first [OF refuses_allowed_session]
        refuses_first [OF refuses_delete] assms)+
  have "keeps (stored P) (handle_list_artifacts env session rid frame)"
    "keeps (stored P) (handle_show_artifact env session rid frame)"
    "keeps (stored P) (handle_status env session rid)"
    unfolding handler_defs by (intro keeps_handler)+
  with refused [THEN refuses_keeps] keeps_get_artifact show ?thesis
    unfolding dispatch_business_def Let_def by (simp add: keeps_throw del: msg_value.simps)
qed

section \<open>Properties\<close>

text \<open>C15: Readers only read. Whatever frame a client without authentication or with the role
  Reader sends, the metadata and the files of the storage stay exactly as they are.\<close>

theorem reader_changes_nothing:
  assumes "handle env conn_id peer frame session d = (r, session', d')"
    and "cs_authenticated session \<longrightarrow> cs_role session = Reader"
  shows "ds_storage d' = ds_storage d"
  using assms(1) refl
proof (rule handle_stored)
  let ?h = "\<lparr>hs_dispatcher = d, hs_session = session, hs_result = empty_result\<rparr>"
  fix rid assume "cs_authenticated session"
  then have "keeps (stored (\<lambda>s. s = ds_storage d)) (dispatch_business env conn_id session rid frame)"
    using reader_business assms(2) by blast
  moreover have "stored (\<lambda>s. s = ds_storage d) ?h" by (simp add: stored_def)
  ultimately show "stored (\<lambda>s. s = ds_storage d) (snd (dispatch_business env conn_id session rid frame ?h))"
    unfolding keeps_def by blast
qed

end
