(* ===== verification/Replies.thy ===== *)
theory Replies
  imports Access
begin

text \<open>
  What the dispatcher sends back (\<^verbatim>\<open>src/service/fr_dispatch.cpp\<close> over
  \<^verbatim>\<open>src/service/fr_messages.cpp\<close> and \<^verbatim>\<open>src/core_c/fr_frame.c\<close>): the bytes of
  a result as a sequence of frames, one final frame per request, and the replies that get lost.
\<close>

section \<open>Bounds on what a statement appends\<close>

definition writes :: "nat \<Rightarrow> (fr_buf \<Rightarrow> fr_buf result) \<Rightarrow> bool" where
  "writes n f =
     (\<forall>out out'. buf_wf out \<and> f out = Inr out' \<longrightarrow>
        buf_wf out' \<and> length (buf_bytes out') \<le> length (buf_bytes out) + n)"

named_theorems write_intros "introduction rules: how much a sequence of put operations appends"

lemma writes_append:
  assumes "length bs \<le> n"
  shows "writes n (\<lambda>out. Inr (snd (fr_buf_append alloc out (Some bs) (of_nat (length bs)))))"
  unfolding writes_def
proof (intro allI impI, elim conjE)
  fix out out' :: fr_buf
  assume wf: "buf_wf out" and "Inr (snd (fr_buf_append alloc out (Some bs) (of_nat (length bs)))) = (Inr out' :: fr_buf result)"
  then obtain st where st: "fr_buf_append alloc out (Some bs) (of_nat (length bs)) = (st, out')"
    by (cases "fr_buf_append alloc out (Some bs) (of_nat (length bs))") auto
  have le: "unat (of_nat (length bs) :: u64) \<le> length bs" by (simp add: unat_of_nat)
  show "buf_wf out' \<and> length (buf_bytes out') \<le> length (buf_bytes out) + n"
  proof (cases "st = FR_OK")
    case True
    then show ?thesis using append_ok [OF wf, of alloc "Some bs" "of_nat (length bs)" out'] st le assms by simp
  next
    case False
    then show ?thesis using append_fail [OF st] wf by simp
  qed
qed

lemma writes_bytes [write_intros]: "writes (length bs) (put_bytes alloc bs)"
  using writes_append [of bs "length bs" alloc] by (simp add: put_bytes_def [abs_def])

lemma writes_u8 [write_intros]: "writes 1 (put_u8 alloc v)"
  using writes_append [of "[v]" 1 alloc] by (simp add: put_u8_def [abs_def] fr_buf_append_u8_def)

lemma writes_u16: "writes 2 (put_u16 alloc v)"
  using writes_append [of "fr_store_be16 v" 2 alloc] by (simp add: put_u16_def [abs_def] fr_buf_append_u16be_def)

lemma writes_u32 [write_intros]: "writes 4 (put_u32 alloc v)"
  using writes_append [of "fr_store_be32 v" 4 alloc] by (simp add: put_u32_def [abs_def] fr_buf_append_u32be_def)

lemma writes_u64 [write_intros]: "writes 8 (put_u64 alloc v)"
  using writes_append [of "fr_store_be64 v" 8 alloc] by (simp add: put_u64_def [abs_def] fr_buf_append_u64be_def)

lemma writes_i32 [write_intros]: "writes 4 (put_i32 alloc v)"
  using writes_u32 by (simp add: put_i32_def [abs_def])

lemma writes_i64 [write_intros]: "writes 8 (put_i64 alloc v)"
  using writes_u64 by (simp add: put_i64_def [abs_def])

lemma writes_bool [write_intros]: "writes 1 (put_bool alloc b)"
  using writes_u8 by (simp add: put_bool_def [abs_def])

lemma writes_state [write_intros]: "writes 1 (put_state alloc st)"
  using writes_u8 by (simp add: put_state_def [abs_def])

lemma writes_nil [write_intros]: "writes 0 (seq [])"
  by (simp add: writes_def)

lemma writes_cons [write_intros]:
  assumes "writes n f" and "writes m (seq fs)" shows "writes (n + m) (seq (f # fs))"
  unfolding writes_def
proof (intro allI impI, elim conjE)
  fix out out' assume wf: "buf_wf out" and "seq (f # fs) out = Inr out'"
  then obtain out1 where 1: "f out = Inr out1" "seq fs out1 = Inr out'" by (auto simp: rbind_eq_Inr)
  have 2: "buf_wf out1" "length (buf_bytes out1) \<le> length (buf_bytes out) + n"
    using assms(1) wf 1(1) unfolding writes_def by blast+
  have "buf_wf out'" "length (buf_bytes out') \<le> length (buf_bytes out1) + m"
    using assms(2) 2(1) 1(2) unfolding writes_def by blast+
  with 2(2) show "buf_wf out' \<and> length (buf_bytes out') \<le> length (buf_bytes out) + (n + m)" by simp
qed

lemma writes_mono: "writes m f \<Longrightarrow> m \<le> n \<Longrightarrow> writes n f"
  unfolding writes_def by (meson add_left_mono le_trans)

lemma writes_check: "writes n f \<Longrightarrow> writes n (\<lambda>out. if b then throw_error c m else f out)"
  by (simp add: writes_def)

lemma writes_str [write_intros]: "writes 514 (put_str alloc s)"
proof (cases "length s > kMaxStringLen")
  case True
  then show ?thesis by (simp add: put_str_def [abs_def] writes_def)
next
  case False
  have "writes (2 + (length (bytes_of s) + 0)) (seq [put_u16 alloc (of_nat (length s)), put_bytes alloc (bytes_of s)])"
    by (intro write_intros writes_u16)
  then have "writes 514 (seq [put_u16 alloc (of_nat (length s)), put_bytes alloc (bytes_of s)])"
    by (rule writes_mono) (use False in \<open>simp add: kMaxStringLen_def\<close>)
  with False show ?thesis by (simp add: put_str_def [abs_def] del: seq.simps)
qed

lemma writes_digest [write_intros]: "writes 64 (put_digest alloc d)"
proof (cases "length d = kDigestHexLen")
  case True
  then show ?thesis
    using writes_bytes [of "bytes_of d" alloc] by (simp add: put_digest_def [abs_def] kDigestHexLen_def)
qed (simp add: put_digest_def [abs_def] writes_def)

lemma writes_ref [write_intros]: "writes 1542 (put_ref alloc ref)"
  unfolding put_ref_def by (rule writes_mono, (rule write_intros)+, simp)

text \<open>The replies of bounded size.\<close>

definition brief :: "(fr_buf \<Rightarrow> fr_buf result) \<Rightarrow> bool" where
  "brief f = writes FR_FRAME_MAX_PAYLOAD f"

lemma briefI: "writes n f \<Longrightarrow> n \<le> FR_FRAME_MAX_PAYLOAD \<Longrightarrow> brief f"
  unfolding brief_def by (rule writes_mono)

lemma brief_replies:
  "brief (put_str alloc s)" "brief (encode_auth_ok alloc a)" "brief (encode_create_upload_ok alloc b)"
  "brief (encode_put_chunk_ok alloc c)" "brief (encode_commit_upload_ok alloc d)"
  "brief (encode_get_artifact_ok alloc e)" "brief (encode_status_ok alloc f)"
  "brief (encode_delete_artifact_ok alloc g)" "brief (encode_run_gc_ok alloc i)"
  "brief (encode_token_create_ok alloc j)" "brief (encode_error_payload alloc st msg)"
  unfolding encode_auth_ok_def encode_create_upload_ok_def encode_put_chunk_ok_def
    encode_commit_upload_ok_def encode_get_artifact_ok_def encode_status_ok_def
    encode_delete_artifact_ok_def encode_run_gc_ok_def encode_token_create_ok_def encode_error_payload_def
  by (rule briefI, (rule write_intros)+, simp add: FR_FRAME_MAX_PAYLOAD_def)+

lemma brief_query: "brief (encode_query_upload_ok alloc ok)"
proof (cases "length (qu_present_bitmap ok) > kMaxBitmap")
  case True
  then show ?thesis
    by (simp add: brief_def writes_def encode_query_upload_ok_def rbind_eq_Inr)
next
  case False
  have id: "writes 0 (\<lambda>out. Inr out)" by (simp add: writes_def)
  have "brief (seq [put_state alloc (qu_state ok), put_u64 alloc (qu_chunk_count ok), Inr,
          put_u32 alloc (of_nat (length (qu_present_bitmap ok))), put_bytes alloc (qu_present_bitmap ok)])"
    by (rule briefI, (rule write_intros id)+)
      (use False in \<open>simp add: FR_FRAME_MAX_PAYLOAD_def kMaxBitmap_def\<close>)
  with False show ?thesis by (simp add: encode_query_upload_ok_def del: seq.simps)
qed

section \<open>Bytes as a sequence of frames\<close>

text \<open>
  \<open>framed gs bs\<close>: a parser reads exactly the frames \<open>gs\<close> off the bytes, one after
  the other, and nothing is left.
\<close>

fun framed :: "fr_frame list \<Rightarrow> bytes \<Rightarrow> bool" where
  "framed [] bs = (bs = [])"
| "framed (g # gs) bs =
     (case spec_parse bs of Parsed g' n \<Rightarrow> g' = g \<and> framed gs (drop n bs) | _ \<Rightarrow> False)"

lemma spec_parse_length: "spec_parse bs = Parsed g n \<Longrightarrow> n \<le> length bs"
  by (auto simp: spec_parse_def Let_def split: if_splits)

lemma spec_parse_more: "spec_parse bs = Parsed g n \<Longrightarrow> spec_parse (bs @ bs') = Parsed g n"
  by (auto simp: spec_parse_def Let_def split: if_splits)

lemma framed_append: "framed gs bs \<Longrightarrow> framed hs bs' \<Longrightarrow> framed (gs @ hs) (bs @ bs')"
proof (induction gs arbitrary: bs)
  case (Cons g gs)
  then obtain n where n: "spec_parse bs = Parsed g n" "framed gs (drop n bs)"
    by (auto split: parse_outcome.splits)
  then have "drop n (bs @ bs') = drop n bs @ bs'" using spec_parse_length by simp
  with Cons n spec_parse_more [OF n(1), of bs'] show ?case by simp
qed simp

text \<open>The frame that \<open>put_frame\<close> appends.\<close>

definition reply_frame :: "fr_msg_type \<Rightarrow> u32 \<Rightarrow> bytes \<Rightarrow> fr_frame" where
  "reply_frame type rid payload =
     \<lparr>frame_type = msg_value type, frame_flags = 0, frame_req_id = rid,
      frame_payload = (if payload = [] then None else Some payload), frame_payload_len = length payload\<rparr>"

lemma reply_frame_fields [simp]:
  "frame_type (reply_frame type rid payload) = msg_value type"
  "frame_req_id (reply_frame type rid payload) = rid"
  by (simp_all add: reply_frame_def)

lemma carries_reply: "carries (reply_frame type rid payload) payload"
  by (simp add: carries_def reply_frame_def)

lemma msg_value_valid: "fr_msg_type_valid (msg_value t)"
  by (cases t) (simp_all add: fr_msg_type_valid_def all_msg_types_def)

lemma encode_framed:
  assumes "granted alloc" and "rid \<noteq> 0" and "length bs \<le> FR_FRAME_MAX_PAYLOAD"
    and p: "mem_of p = bs" "p = None \<longrightarrow> bs = []" "n = of_nat (length bs)"
    and "buf_wf out" and "length (buf_bytes out) + 20 + length bs \<le> 2 ^ 63"
  shows "\<exists>out' fr. fr_frame_encode alloc out (msg_value type) 0 rid p n = (FR_OK, out') \<and>
     buf_bytes out' = buf_bytes out @ fr \<and> length fr = 20 + length bs \<and>
     framed [reply_frame type rid bs] fr \<and> buf_wf out'"
proof -
  have n: "unat n = length bs" using assms(3) p(3) by (simp add: FR_FRAME_MAX_PAYLOAD_def unat_of_nat)
  have e: "encodable (msg_value type) 0 rid p n"
    using assms(2,3) p n msg_value_valid by (simp add: encodable_def)
  have al: "\<forall>k. alloc k" using assms(1) by (simp add: granted_def)
  obtain out' where ok: "fr_frame_encode alloc out (msg_value type) 0 rid p n = (FR_OK, out')"
    by (rule encode_ok [OF assms(7) _ e al]) (use n p assms(8) in simp_all)
  let ?fr = "frame_header (msg_value type) 0 rid (ucast n) @ bs"
  have "buf_wf out' \<and> buf_bytes out' = buf_bytes out @ ?fr"
    using encode_cases [OF assms(7), of n p, where alloc = alloc and type = "msg_value type" and flags = 0 and req_id = rid] ok n p by simp
  moreover have parse: "spec_parse (?fr @ []) = Parsed (reply_frame type rid bs) (20 + length bs)"
    using spec_parse_frame [OF e, of "[]"] n p(1)
    by (auto simp: reply_frame_def word_unat_eq_iff)
  moreover have "length (frame_header (msg_value type) 0 rid (ucast n)) = 20"
    by (simp add: frame_header_def Let_def)
  ultimately show ?thesis using ok by (intro exI [of _ out'] exI [of _ ?fr]) simp
qed

lemma put_frame_framed:
  assumes "granted (de_alloc env)" and "rid \<noteq> 0" and "length bs \<le> FR_FRAME_MAX_PAYLOAD"
    and "mem_of p = bs" "p = None \<longrightarrow> bs = []" "n = of_nat (length bs)"
    and "buf_wf out" and "length (buf_bytes out) + 20 + length bs \<le> 2 ^ 63"
  shows "\<exists>fr. buf_bytes (put_frame env type rid p n out) = buf_bytes out @ fr \<and> length fr = 20 + length bs \<and>
     framed [reply_frame type rid bs] fr \<and> buf_wf (put_frame env type rid p n out)"
  using encode_framed [OF assms, of type] by (auto simp: put_frame_def simp del: framed.simps msg_value.simps)

section \<open>Handlers that answer once\<close>

definition silent :: "(hstate, 'a) op \<Rightarrow> bool" where
  "silent m = (\<forall>h. hs_result (snd (m h)) = hs_result h)"

definition answered :: "u32 \<Rightarrow> HandleResult \<Rightarrow> bool" where
  "answered rid res =
     (buf_wf (hr_out res) \<and> \<not> hr_has_more res \<and>
      (\<exists>bs. framed [reply_frame FR_MSG_OK rid bs] (buf_bytes (hr_out res))))"

text \<open>
  From an empty result, the handler either throws with the output untouched or leaves exactly one
  OK frame.
\<close>

definition once :: "u32 \<Rightarrow> (hstate, unit) op \<Rightarrow> bool" where
  "once rid m =
     (\<forall>h r h'. hs_result h = empty_result \<and> m h = (r, h') \<longrightarrow>
        (case r of Inl e \<Rightarrow> hs_result h' = empty_result | Inr u \<Rightarrow> answered rid (hs_result h')))"

lemma silent_bind: "silent m \<Longrightarrow> (\<And>x. silent (k x)) \<Longrightarrow> silent (op_bind m k)"
  unfolding silent_def by (auto split: prod.splits sum.splits) (metis snd_conv)+

lemma silent_calls:
  "silent (op_lift r)" "silent (op_return x)" "silent (op_throw c msg)" "silent (on_storage st)"
  "silent (on_auth a)" "silent (ask q)" "silent (audited env session action target)"
  by (simp_all add: silent_def op_lift_def op_return_def op_throw_def on_storage_def on_auth_def ask_def
      audited_def split: prod.splits)

lemma silent_allowed: "silent (allowed_session session sid)"
  unfolding allowed_session_def by (intro silent_bind silent_calls)

lemma once_bind: "silent m \<Longrightarrow> (\<And>x. once rid (k x)) \<Longrightarrow> once rid (op_bind m k)"
  unfolding once_def
proof (intro allI impI, elim conjE)
  fix h r h'
  assume m: "silent m" and k: "\<And>x. \<forall>h r h'. hs_result h = empty_result \<and> k x h = (r, h') \<longrightarrow>
        (case r of Inl e \<Rightarrow> hs_result h' = empty_result | Inr u \<Rightarrow> answered rid (hs_result h'))"
    and h: "hs_result h = empty_result" and r: "op_bind m k h = (r, h')"
  obtain r1 h1 where m1: "m h = (r1, h1)" by (cases "m h")
  have h1: "hs_result h1 = empty_result" using m m1 h unfolding silent_def by (metis snd_conv)
  show "case r of Inl e \<Rightarrow> hs_result h' = empty_result | Inr u \<Rightarrow> answered rid (hs_result h')"
  proof (cases r1)
    case (Inl e)
    with r m1 h1 show ?thesis by auto
  next
    case (Inr x)
    with r m1 have "k x h1 = (r, h')" by simp
    with k [of x] h1 show ?thesis by blast
  qed
qed

lemma once_throw: "once rid (op_throw c msg)"
  by (simp add: once_def op_throw_def throw_error_def)

lemma once_if: "once rid m \<Longrightarrow> once rid n \<Longrightarrow> once rid (if b then m else n)"
  by simp

lemma buf_len_data:
  assumes "buf_wf b" shows "mem_of (buf_data b) = buf_bytes b" "buf_data b = None \<longrightarrow> buf_bytes b = []"
    "buf_len b = of_nat (length (buf_bytes b))"
  using assms by (auto simp: buf_data_def buf_wf_def buf_len_def)

lemma once_make_ok:
  assumes "granted (de_alloc env)" and "rid \<noteq> 0" and "length bs \<le> FR_FRAME_MAX_PAYLOAD"
    and "mem_of p = bs" "p = None \<longrightarrow> bs = []" "n = of_nat (length bs)"
  shows "answered rid (make_ok env rid p n empty_result)"
proof -
  have "length bs \<le> 8388608" using assms(3) by (simp add: FR_FRAME_MAX_PAYLOAD_def)
  then have "length (buf_bytes fr_buf_init) + 20 + length bs \<le> 2 ^ 63" by simp
  from put_frame_framed [OF assms buf_wf_init this, of FR_MSG_OK] show ?thesis
    by (auto simp: answered_def make_ok_def empty_result_def simp del: framed.simps)
qed

lemma once_answer:
  assumes "granted (de_alloc env)" and "rid \<noteq> 0" and "brief encode"
  shows "once rid (answer env rid encode)"
proof (cases "encode fr_buf_init")
  case (Inl e)
  then show ?thesis by (simp add: once_def answer_def op_lift_def)
next
  case (Inr payload)
  then have p: "buf_wf payload" "length (buf_bytes payload) \<le> FR_FRAME_MAX_PAYLOAD"
    using assms(3) unfolding brief_def writes_def by (metis add_0 buf_bytes_init buf_wf_init list.size(3))+
  have "answered rid (make_ok env rid (buf_data payload) (buf_len payload) empty_result)"
    by (rule once_make_ok [OF assms(1,2) p(2) buf_len_data [OF p(1)]])
  with Inr show ?thesis by (auto simp: once_def answer_def op_lift_def op_modify_def)
qed

lemma once_ok_empty: "granted (de_alloc env) \<Longrightarrow> rid \<noteq> 0 \<Longrightarrow> once rid (ok_empty env rid)"
  using once_make_ok [of env rid "[]" None 0]
  by (auto simp: once_def ok_empty_def op_modify_def)

lemmas once_intros = once_bind once_throw once_if once_answer once_ok_empty silent_calls silent_allowed
  brief_replies brief_query

lemma silent_session: "silent (op_modify (\<lambda>h. h\<lparr>hs_session := f h\<rparr>))"
  by (simp add: silent_def op_modify_def)

text \<open>The requests whose reply has a bounded size.\<close>

definition bounded_request :: "u8 \<Rightarrow> bool" where
  "bounded_request type =
     (type \<notin> msg_value ` {FR_MSG_GET_ARTIFACT, FR_MSG_LIST_ARTIFACTS, FR_MSG_SHOW_ARTIFACT,
        FR_MSG_USER_LIST, FR_MSG_TOKEN_LIST, FR_MSG_SESSION_LIST})"

lemma once_business:
  assumes g: "granted (de_alloc env)" and r: "rid \<noteq> 0" and b: "bounded_request (frame_type frame)"
  shows "once rid (dispatch_business env conn_id session rid frame)"
proof -
  have "once rid (handle_create_upload env session rid frame)" "once rid (handle_put_chunk env session rid frame)"
    "once rid (handle_query_upload env session rid frame)" "once rid (handle_commit_upload env session rid frame)"
    "once rid (handle_abort_upload env session rid frame)" "once rid (handle_status env session rid)"
    "once rid (handle_delete_artifact env session rid frame)" "once rid (handle_run_gc env session rid frame)"
    "once rid (handle_user_add env session rid frame)" "once rid (handle_user_disable env session rid frame)"
    "once rid (handle_token_create env session rid frame)" "once rid (handle_token_revoke env session rid frame)"
    "once rid (handle_session_abort env session rid frame)"
    unfolding handler_defs by (intro once_intros g r)+
  then show ?thesis
    unfolding dispatch_business_def Let_def using b
    by (simp add: bounded_request_def once_throw del: msg_value.simps)
qed

lemma once_frame:
  assumes g: "granted (de_alloc env)" and r: "rid \<noteq> 0" and b: "bounded_request (frame_type frame)"
    and h: "hs_result h = empty_result" and m: "handle_frame env conn_id peer rid frame h = (res, h')"
  shows "case res of Inl e \<Rightarrow> hs_result h' = empty_result | Inr u \<Rightarrow> answered rid (hs_result h')"
proof -
  have o: "case res of Inl e \<Rightarrow> hs_result h' = empty_result | Inr u \<Rightarrow> answered rid (hs_result h')"
    if "once rid k" "k h = (res, h')" for k
    using that h unfolding once_def by blast
  have hello: "once rid (handle_hello env rid frame)"
    and ping: "once rid (op_bind (op_lift (decode_data frame)) (\<lambda>payload. ok_empty env rid))"
    unfolding handle_hello_def by (intro once_intros silent_session g r)+
  have auth: "once rid (\<lambda>h'. op_bind (op_lift (check_peer_not_blocked (de_monotonic env) peer (hs_dispatcher h))) (\<lambda>u.
     op_bind (op_lift (decode_auth_req frame)) (\<lambda>req.
     op_bind (ask (verify (de_auth env) (auth_token req))) (\<lambda>ok.
     op_bind (op_modify (\<lambda>h. h\<lparr>hs_session := (hs_session h)\<lparr>cs_authenticated := True,
                                  cs_username := ao_username ok, cs_role := role_of_value (ao_role ok),
                                  cs_auth_failures := 0\<rparr>\<rparr>)) (\<lambda>u.
       answer env rid (encode_auth_ok (de_alloc env) ok))))) h')"
    by (intro once_intros silent_session g r)
  have close: "case res of Inl e \<Rightarrow> hs_result h' = empty_result | Inr u \<Rightarrow> answered rid (hs_result h')"
    if "handle_close env rid h = (res, h')"
    using once_ok_empty [OF g r] that h
    by (auto simp: handle_close_def once_def ok_empty_def op_modify_def answered_def)
  show ?thesis
    using m o [OF hello] o [OF ping] o [OF auth] close o [OF once_business [OF g r b]] o [OF once_throw]
    unfolding handle_frame_def handle_auth_def
    by (auto simp del: op_bind.simps msg_value.simps split: if_splits)
qed

text \<open>The one frame a request is answered with.\<close>

definition final_reply :: "u32 \<Rightarrow> fr_buf \<Rightarrow> fr_frame \<Rightarrow> bool" where
  "final_reply rid out g =
     (framed [g] (buf_bytes out) \<and> frame_req_id g = rid \<and>
      frame_type g \<in> {msg_value FR_MSG_OK, msg_value FR_MSG_ERROR})"

definition counts_as_failure :: "fr_status \<Rightarrow> fr_frame \<Rightarrow> bool" where
  "counts_as_failure code frame = (code = FR_E_UNAUTHENTICATED \<and> frame_type frame = msg_value FR_MSG_AUTH)"

lemma answer_error_eq:
  "answer_error env peer rid frame code message h =
     (case encode_error_payload (de_alloc env) code (c_str message) fr_buf_init of
        Inl e \<Rightarrow> (Inl e, snd (answer_error env peer rid frame code message h))
      | Inr payload \<Rightarrow> (Inr (), h\<lparr>
          hs_session := (if counts_as_failure code frame
                         then (hs_session h)\<lparr>cs_auth_failures := cs_auth_failures (hs_session h) + 1\<rparr>
                         else hs_session h),
          hs_dispatcher := (if counts_as_failure code frame
                            then note_auth_failure (de_monotonic env) peer (hs_dispatcher h)
                            else hs_dispatcher h),
          hs_result := (hs_result h)\<lparr>
            hr_out := put_frame env FR_MSG_ERROR rid (buf_data payload) (buf_len payload)
                        (fr_buf_clear (hr_out (hs_result h))),
            hr_close_connection := (hr_close_connection (hs_result h) \<or>
              counts_as_failure code frame \<and>
              cs_auth_failures (hs_session h) + 1 \<ge> kAuthFailuresBeforeClose)\<rparr>\<rparr>))"
  by (cases "counts_as_failure code frame"; cases "cs_auth_failures (hs_session h) + 1 \<ge> kAuthFailuresBeforeClose";
      cases "encode_error_payload (de_alloc env) code (c_str message) fr_buf_init"; cases h; cases "hs_result h")
    (auto simp: answer_error_def op_lift_def op_modify_def Let_def counts_as_failure_def simp del: msg_value.simps)

lemma error_reply:
  assumes g: "granted (de_alloc env)" and r: "rid \<noteq> 0"
    and m: "answer_error env peer rid frame code message h = (Inr u, h')"
  shows "\<exists>payload. encode_error_payload (de_alloc env) code (c_str message) fr_buf_init = Inr payload \<and>
    framed [reply_frame FR_MSG_ERROR rid (buf_bytes payload)] (buf_bytes (hr_out (hs_result h'))) \<and>
    hr_has_more (hs_result h') = hr_has_more (hs_result h)"
proof -
  obtain payload where p: "encode_error_payload (de_alloc env) code (c_str message) fr_buf_init = Inr payload"
    using m by (cases "encode_error_payload (de_alloc env) code (c_str message) fr_buf_init")
      (auto simp: answer_error_def op_lift_def Let_def)
  have b: "brief (encode_error_payload (de_alloc env) code (c_str message))" by (rule brief_replies)
  have len: "buf_wf payload" "length (buf_bytes payload) \<le> FR_FRAME_MAX_PAYLOAD"
    using b p unfolding brief_def writes_def by (metis add_0 buf_bytes_init buf_wf_init list.size(3))+
  let ?out = "fr_buf_clear (hr_out (hs_result h))"
  have out: "buf_wf ?out" "buf_bytes ?out = []" by (simp_all add: fr_buf_clear_def buf_wf_def)
  have "length (buf_bytes payload) \<le> 8388608" using len(2) by (simp add: FR_FRAME_MAX_PAYLOAD_def)
  then have "length (buf_bytes ?out) + 20 + length (buf_bytes payload) \<le> 2 ^ 63" using out(2) by simp
  from put_frame_framed [OF g r len(2) buf_len_data [OF len(1)] out(1) this, of FR_MSG_ERROR] out(2)
  have "framed [reply_frame FR_MSG_ERROR rid (buf_bytes payload)]
      (buf_bytes (put_frame env FR_MSG_ERROR rid (buf_data payload) (buf_len payload) ?out))"
    by (auto simp del: framed.simps)
  then show ?thesis
    using m p
    by (auto simp: answer_error_eq simp del: framed.simps msg_value.simps)
qed

section \<open>Properties\<close>


text \<open>Authentication comes first. A client that has not authenticated gets exactly one answer
  to any other message than HELLO, AUTH, PING and CLOSE: the error \<open>FR_E_UNAUTHENTICATED\<close>,
  readable by the client's decoder; and nothing changes, neither in the dispatcher nor in what is
  known of the client.\<close>

theorem unauthenticated_refused:
  assumes "\<not> cs_authenticated session" and "granted (de_alloc env)" and "frame_req_id frame \<noteq> 0"
    and "frame_type frame \<notin> msg_value ` {FR_MSG_HELLO, FR_MSG_AUTH, FR_MSG_PING, FR_MSG_CLOSE}"
  shows "\<exists>res g. handle env conn_id peer frame session d = (Inr res, session, d) \<and>
     final_reply (frame_req_id frame) (hr_out res) g \<and>
     decode_error_payload g = Inr \<lparr>ep_code = FR_E_UNAUTHENTICATED, ep_message = ''authentication required''\<rparr> \<and>
     \<not> hr_close_connection res \<and> \<not> hr_has_more res"
proof -
  let ?h = "\<lparr>hs_dispatcher = d, hs_session = session, hs_result = empty_result\<rparr>"
  let ?rid = "frame_req_id frame" and ?msg = "''authentication required''"
  have f: "handle_frame env conn_id peer ?rid frame ?h = (Inl (Err FR_E_UNAUTHENTICATED ?msg), ?h)"
    using assms(1,4) by (simp add: handle_frame_def op_throw_def throw_error_def del: msg_value.simps)
  have msg: "c_str ?msg = ?msg" by (simp add: c_str_def)
  let ?e = "\<lparr>ep_code = FR_E_UNAUTHENTICATED, ep_message = ?msg\<rparr>"
  have "roundtrips (\<lambda>alloc p. encode_error_payload alloc (ep_code p) (ep_message p)) decode_error_payload ?e"
    by (rule roundtrip_error_payload) (simp add: error_payload_ok_def str_ok_def kMaxStringLen_def)
  then obtain payload where p: "encode_error_payload (de_alloc env) FR_E_UNAUTHENTICATED ?msg fr_buf_init = Inr payload"
    and dec: "\<And>f. carries f (buf_bytes payload) \<Longrightarrow> decode_error_payload f = Inr ?e"
    using assms(2) unfolding roundtrips_def by auto
  obtain h2 where a: "answer_error env peer ?rid frame FR_E_UNAUTHENTICATED ?msg ?h = (Inr (), h2)"
    and h2: "hs_session h2 = session" "hs_dispatcher h2 = d"
      "hr_close_connection (hs_result h2) = hr_close_connection (hs_result ?h)"
    using p msg assms(4) by (simp add: answer_error_def op_lift_def op_modify_def Let_def del: msg_value.simps)
  from error_reply [OF assms(2,3) a] p msg
  have fr: "framed [reply_frame FR_MSG_ERROR ?rid (buf_bytes payload)] (buf_bytes (hr_out (hs_result h2)))"
    and more: "\<not> hr_has_more (hs_result h2)"
    by (auto simp: empty_result_def simp del: framed.simps)
  have "handle env conn_id peer frame session d = (Inr (hs_result h2), session, d)"
    using f a h2 assms(3) by (simp add: handle_def)
  then show ?thesis
    using fr more h2(3) dec [OF carries_reply]
    by (intro exI [of _ "hs_result h2"] exI [of _ "reply_frame FR_MSG_ERROR ?rid (buf_bytes payload)"])
      (auto simp: final_reply_def empty_result_def simp del: framed.simps)
qed

end
