(* ===== verification/ServerInput.thy ===== *)
theory ServerInput
  imports ServerBounds Replies
begin

text \<open>
  From the bytes of a connection to the queue of tasks: however the bytes are cut into reads, the
  frames of the stream are queued in their order while there is room, and answered with
  \<open>FR_E_BUSY\<close> when there is none.
\<close>

section \<open>Error frames\<close>

lemma error_frame_reply:
  fixes rid :: u32
  assumes g: "granted alloc" and "length message \<le> 512" and "buf_wf out" and "length (buf_bytes out) \<le> 2 ^ 62"
    and code: "is_enumerator code"
  defines "r \<equiv> (if rid = 0 then 1 else rid)"
  shows "\<exists>payload fr out'. error_frame alloc rid code message out = Inr out' \<and> buf_wf out' \<and>
     buf_bytes out' = buf_bytes out @ fr \<and> length fr \<le> 2 ^ 24 \<and>
     framed [reply_frame FR_MSG_ERROR r payload] fr \<and>
     decode_error_payload (reply_frame FR_MSG_ERROR r payload) = Inr \<lparr>ep_code = code, ep_message = message\<rparr>"
proof -
  let ?e = "\<lparr>ep_code = code, ep_message = message\<rparr>"
  have "roundtrips (\<lambda>alloc p. encode_error_payload alloc (ep_code p) (ep_message p)) decode_error_payload ?e"
    by (rule roundtrip_error_payload) (use assms(2) code in \<open>simp add: error_payload_ok_def str_ok_def kMaxStringLen_def\<close>)
  then obtain payload where p: "encode_error_payload alloc code message fr_buf_init = Inr payload"
    and dec: "\<And>f. carries f (buf_bytes payload) \<Longrightarrow> decode_error_payload f = Inr ?e"
    using g unfolding roundtrips_def by auto
  have b: "brief (encode_error_payload alloc code message)" by (rule brief_replies)
  have len: "buf_wf payload" "length (buf_bytes payload) \<le> FR_FRAME_MAX_PAYLOAD"
    using b p unfolding brief_def writes_def by (metis add_0 buf_bytes_init buf_wf_init list.size(3))+
  have l: "length (buf_bytes payload) \<le> 8388608" using len(2) by (simp add: FR_FRAME_MAX_PAYLOAD_def)
  define env :: dispatch_env where "env = \<lparr>de_storage = undefined, de_auth = undefined, de_monotonic = 0,
     de_alloc = alloc, de_cfg = undefined, de_hub = None\<rparr>"
  have ga: "granted (de_alloc env)" and al: "de_alloc env = alloc" using g by (simp_all add: env_def)
  have "r \<noteq> 0" by (simp add: r_def)
  moreover have "length (buf_bytes out) + 20 + length (buf_bytes payload) \<le> 2 ^ 63" using assms(4) l by simp
  ultimately obtain fr where fr: "buf_bytes (put_frame env FR_MSG_ERROR r (buf_data payload) (buf_len payload) out) = buf_bytes out @ fr"
    "length fr = 20 + length (buf_bytes payload)" "framed [reply_frame FR_MSG_ERROR r (buf_bytes payload)] fr"
    "buf_wf (put_frame env FR_MSG_ERROR r (buf_data payload) (buf_len payload) out)"
    using put_frame_framed [OF ga _ len(2) buf_len_data [OF len(1)] assms(3)] by blast
  have "error_frame alloc rid code message out = Inr (put_frame env FR_MSG_ERROR r (buf_data payload) (buf_len payload) out)"
    using p by (simp add: error_frame_def put_frame_def al r_def del: msg_value.simps)
  moreover have "length fr \<le> 2 ^ 24" using fr(2) l by simp
  ultimately show ?thesis using fr dec [OF carries_reply] by blast
qed

text \<open>A fixed message never makes the I/O thread throw.\<close>

lemma append_bytes_granted:
  assumes "granted alloc" and "buf_wf b" and "buf_wf src" and "length (buf_bytes b) + length (buf_bytes src) \<le> 2 ^ 63"
  shows "buf_bytes (snd (fr_buf_append alloc b (buf_data src) (buf_len src))) = buf_bytes b @ buf_bytes src"
proof (cases "buf_data src")
  case None
  then have e: "buf_bytes src = []" using assms(3) by (simp add: buf_data_def buf_wf_def split: if_splits)
  then have "buf_len src = 0" by (simp add: buf_len_def)
  then show ?thesis using append_within [OF assms(2), of 0 "buf_data src" alloc] assms(2) e by (simp add: buf_wf_def)
next
  case (Some bs)
  then have bs: "bs = buf_bytes src" by (simp add: buf_data_def split: if_splits)
  have "\<forall>k. alloc k" using assms(1) by (simp add: granted_def)
  then obtain b' where "fr_buf_append alloc b (Some (buf_bytes src)) (of_nat (length (buf_bytes src))) = (FR_OK, b')"
    "buf_bytes b' = buf_bytes b @ buf_bytes src"
    by (rule append_succeeds [OF assms(2,4)])
  then show ?thesis unfolding Some bs buf_len_def by simp
qed

text \<open>What an error message adds to an outbox.\<close>

definition error_notice :: "u32 \<Rightarrow> fr_status \<Rightarrow> string \<Rightarrow> fr_frame \<Rightarrow> bool" where
  "error_notice rid code message g \<longleftrightarrow>
     frame_type g = msg_value FR_MSG_ERROR \<and> frame_req_id g = rid \<and>
     decode_error_payload g = Inr \<lparr>ep_code = code, ep_message = message\<rparr>"

lemma send_error_reply:
  assumes "granted alloc" and "length message \<le> 512" and "buf_wf (cn_outbox conn)"
    and "length (buf_bytes (cn_outbox conn)) \<le> 2 ^ 62" and "is_enumerator code"
  shows "\<exists>g fr conn'. send_error alloc conn rid code message = Inr conn' \<and>
     conn' = conn\<lparr>cn_outbox := cn_outbox conn'\<rparr> \<and> buf_wf (cn_outbox conn') \<and>
     buf_bytes (cn_outbox conn') = buf_bytes (cn_outbox conn) @ fr \<and> length fr \<le> 2 ^ 24 \<and> framed [g] fr \<and>
     error_notice (if rid = 0 then 1 else rid) code message g"
proof -
  obtain payload fr out where e: "error_frame alloc rid code message fr_buf_init = Inr out" "buf_wf out"
    "buf_bytes out = fr" "length fr \<le> 2 ^ 24"
    "framed [reply_frame FR_MSG_ERROR (if rid = 0 then 1 else rid) payload] fr"
    "decode_error_payload (reply_frame FR_MSG_ERROR (if rid = 0 then 1 else rid) payload) =
       Inr \<lparr>ep_code = code, ep_message = message\<rparr>"
    using error_frame_reply [OF assms(1,2) buf_wf_init _ assms(5), of rid] by auto
  let ?c = "append_outbox alloc out conn"
  have "buf_bytes (cn_outbox ?c) = buf_bytes (cn_outbox conn) @ fr"
    using append_bytes_granted [OF assms(1,3) e(2)] assms(4) e(3,4) by (simp add: append_outbox_def)
  moreover have "buf_wf (cn_outbox ?c)" using assms(3) by (simp add: append_outbox_def append_wf)
  moreover have "send_error alloc conn rid code message = Inr ?c" using e(1) by (simp add: send_error_def)
  moreover have "?c = conn\<lparr>cn_outbox := cn_outbox ?c\<rparr>" by (simp add: append_outbox_def)
  ultimately show ?thesis
    using e(4-6) unfolding error_notice_def
    by (intro exI [of _ "reply_frame FR_MSG_ERROR (if rid = 0 then 1 else rid) payload"] exI [of _ fr] exI [of _ ?c])
      (simp del: framed.simps msg_value.simps)
qed

section \<open>The frames of a stream\<close>

text \<open>\<open>stream gs bs rest\<close>: the bytes are the frames \<open>gs\<close> and the beginning of another one.\<close>

fun stream :: "fr_frame list \<Rightarrow> bytes \<Rightarrow> bytes \<Rightarrow> bool" where
  "stream [] bs rest = (bs = rest \<and> spec_parse bs = NeedMore)"
| "stream (g # gs) bs rest =
     (case spec_parse bs of Parsed g' n \<Rightarrow> g' = g \<and> stream gs (drop n bs) rest | _ \<Rightarrow> False)"

lemma spec_parse_nil [simp]: "spec_parse [] = NeedMore"
  by (simp add: spec_parse_def)

lemma stream_framed: "framed gs bs \<Longrightarrow> stream gs bs []"
  by (induction gs arbitrary: bs) (auto split: parse_outcome.splits)

lemma pending_more: assumes "parser_inv p" shows "spec_parse (pending p) = NeedMore"
proof (cases "header_done p")
  case True
  then have h: "header_ok (header p)" "length (header p) = 20"
    "length (buf_bytes (payload_buf p)) < header_need (header p)"
    using assms by (auto simp: parser_inv_def fields_of_header_def header_need_def)
  then show ?thesis using True by (simp add: spec_parse_def pending_def Let_def)
next
  case False
  then show ?thesis using assms by (simp add: parser_inv_def spec_parse_def pending_def)
qed

lemma stream_cons:
  assumes "stream (g # gs) bs rest" obtains n where "spec_parse bs = Parsed g n" "stream gs (drop n bs) rest"
  using assms by (auto split: parse_outcome.splits)

lemma stream_rest: "stream gs bs rest \<Longrightarrow> spec_parse rest = NeedMore"
  by (induction gs arbitrary: bs) (auto split: parse_outcome.splits)

text \<open>A stream can be cut anywhere.\<close>

lemma stream_split:
  "stream gs (xs @ ys) rest \<Longrightarrow> \<exists>hs is mid. gs = hs @ is \<and> stream hs xs mid \<and> stream is (mid @ ys) rest"
proof (induction gs arbitrary: xs)
  case Nil
  then have "spec_parse xs = NeedMore"
    using spec_parse_more [of xs _ _ ys] by (cases "spec_parse xs") (auto simp: spec_parse_def Let_def split: if_splits)
  with Nil show ?case by - (rule exI [of _ "[]"], rule exI [of _ "[]"], rule exI [of _ xs], auto)
next
  case (Cons g gs)
  obtain n where n: "spec_parse (xs @ ys) = Parsed g n" "stream gs (drop n (xs @ ys)) rest"
    using Cons.prems by (rule stream_cons)
  show ?case
  proof (cases "spec_parse xs")
    case NeedMore
    with Cons.prems show ?thesis
      by - (rule exI [of _ "[]"], rule exI [of _ "g # gs"], rule exI [of _ xs], simp del: stream.simps(2))
  next
    case Malformed
    then have False using n(1) by (auto simp: spec_parse_def Let_def split: if_splits)
    then show ?thesis ..
  next
    case (Parsed g' m)
    then have m: "g' = g" "m = n" "n \<le> length xs" using n(1) spec_parse_more spec_parse_length by force+
    then have "stream gs (drop n xs @ ys) rest" using n(2) by simp
    then obtain hs "is" mid where "gs = hs @ is" "stream hs (drop n xs) mid" "stream is (mid @ ys) rest"
      using Cons.IH by blast
    then show ?thesis using Parsed m by (intro exI [of _ "g # hs"] exI [of _ "is"] exI [of _ mid]) simp
  qed
qed

section \<open>Requests in order\<close>

definition room_left :: "bool \<Rightarrow> Task list \<Rightarrow> nat" where
  "room_left stopping queue = (if stopping then 0 else queue_capacity - length queue)"

text \<open>The busy answers to requests: one error frame each, with its request id.\<close>

definition busy_answers :: "fr_frame list \<Rightarrow> bytes \<Rightarrow> bool" where
  "busy_answers gs bs \<longleftrightarrow>
     (\<exists>hs. framed hs bs \<and> list_all2 (\<lambda>g. error_notice (frame_req_id g) FR_E_BUSY ''server busy'') gs hs)"

lemma busy_answers_nil: "busy_answers [] []"
  by (simp add: busy_answers_def)

lemma busy_answers_cons:
  assumes "framed [h] fr" and "error_notice (frame_req_id g) FR_E_BUSY ''server busy'' h" and "busy_answers gs bs"
  shows "busy_answers (g # gs) (fr @ bs)"
proof -
  obtain hs where hs: "framed hs bs" "list_all2 (\<lambda>g. error_notice (frame_req_id g) FR_E_BUSY ''server busy'') gs hs"
    using assms(3) by (auto simp: busy_answers_def)
  have "framed ([h] @ hs) (fr @ bs)" by (rule framed_append [OF assms(1) hs(1)])
  then show ?thesis
    unfolding busy_answers_def using assms(2) hs(2) by (intro exI [of _ "h # hs"]) (simp del: framed.simps)
qed

text \<open>What reading the frames \<open>gs\<close> makes of a connection and the queue.\<close>

definition takes_in ::
  "bool \<Rightarrow> Connection \<Rightarrow> Task list \<Rightarrow> fr_frame list \<Rightarrow> bytes \<Rightarrow> Connection \<Rightarrow> Task list \<Rightarrow> bool" where
  "takes_in stopping conn queue gs rest conn' queue' \<longleftrightarrow>
     queue' = queue @ map (task_of conn) (take (room_left stopping queue) gs) \<and>
     conn' = conn\<lparr>cn_parser := cn_parser conn', cn_outbox := cn_outbox conn'\<rparr> \<and>
     parser_inv (cn_parser conn') \<and> pending (cn_parser conn') = rest \<and> buf_wf (cn_outbox conn') \<and>
     length (buf_bytes (cn_outbox conn')) \<le> length (buf_bytes (cn_outbox conn)) + 2 ^ 24 * length gs \<and>
     (\<exists>bs. buf_bytes (cn_outbox conn') = buf_bytes (cn_outbox conn) @ bs \<and>
        busy_answers (drop (room_left stopping queue) gs) bs)"

lemma absorb_stream:
  assumes "parser_inv (cn_parser conn)" and "granted alloc" and "buf_wf (cn_outbox conn)"
    and "length (buf_bytes (cn_outbox conn)) + 2 ^ 24 * length gs \<le> 2 ^ 62"
    and "stream gs (pending (cn_parser conn) @ left) rest"
  shows "\<exists>conn' queue'. absorb_input alloc stopping conn queue left = Inr (conn', queue', True) \<and>
     takes_in stopping conn queue gs rest conn' queue'"
  using assms(1,3-)
proof (induction gs arbitrary: conn queue left)
  case Nil
  have al: "\<forall>k. alloc k" using assms(2) by (simp add: granted_def)
  obtain st p c f where feed: "fr_frame_parser_feed alloc (cn_parser conn) (Some left) (length left) = (st, p, c, f)"
    by (metis prod_cases4)
  show ?case
  proof (cases "left = []")
    case True
    then show ?thesis using Nil by (subst absorb_input.simps) (simp add: takes_in_def busy_answers_nil)
  next
    case False
    then show ?thesis
      using feed_all [OF Nil(1) al, of left] feed Nil
      by (subst absorb_input.simps) (auto simp: takes_in_def busy_answers_nil intro!: exI)
  qed
next
  case (Cons g gs)
  have al: "\<forall>k. alloc k" using assms(2) by (simp add: granted_def)
  let ?s = "pending (cn_parser conn) @ left"
  obtain n where n: "spec_parse ?s = Parsed g n" "stream gs (drop n ?s) rest"
    using Cons.prems(4) by (rule stream_cons)
  have "left \<noteq> []" using n(1) pending_more [OF Cons.prems(1)] by auto
  have ge: "length (pending (cn_parser conn)) \<le> n" by (rule spec_parse_longer [OF pending_more [OF Cons.prems(1)] n(1)])
  define k where "k = n - length (pending (cn_parser conn))"
  have rest: "drop n ?s = drop k left" using ge by (simp add: k_def)
  obtain p where feed: "fr_frame_parser_feed alloc (cn_parser conn) (Some left) (length left) = (FR_OK, p, Some k, Some g)"
    and p: "parser_inv p" "pending p = []"
    using feed_all [OF Cons.prems(1) al, of left] n(1) unfolding k_def
    by (cases "fr_frame_parser_feed alloc (cn_parser conn) (Some left) (length left)") auto
  have rid: "frame_req_id g \<noteq> 0" using encodable_small [OF n(1)] by simp
  let ?conn = "conn\<lparr>cn_parser := p\<rparr>"
  note eq = absorb_input.simps [of alloc stopping conn queue left, unfolded feed, simplified \<open>left \<noteq> []\<close>, simplified]
  show ?case
  proof (cases "length queue < queue_capacity \<and> \<not> stopping")
    case True
    obtain conn' queue' where a: "absorb_input alloc stopping ?conn (queue @ [task_of ?conn g]) (drop k left) = Inr (conn', queue', True)"
      and t: "takes_in stopping ?conn (queue @ [task_of ?conn g]) gs rest conn' queue'"
      using Cons.IH [of ?conn "drop k left" "queue @ [task_of ?conn g]"] p Cons.prems n(2) rest by auto
    have "room_left stopping queue = Suc (room_left stopping (queue @ [task_of ?conn g]))"
      using True by (auto simp: room_left_def)
    moreover have "task_of ?conn = task_of conn" by (rule ext) (simp add: task_of_def)
    ultimately have "takes_in stopping conn queue (g # gs) rest conn' queue'"
      using t by (cases conn; cases conn') (auto simp: takes_in_def)
    then show ?thesis using a eq True by (auto simp: task_of_def)
  next
    case False
    have room: "room_left stopping queue = 0" using False by (auto simp: room_left_def)
    obtain h fr c where s: "send_error alloc ?conn (frame_req_id g) FR_E_BUSY ''server busy'' = Inr c"
      and c: "c = ?conn\<lparr>cn_outbox := cn_outbox c\<rparr>" "buf_wf (cn_outbox c)"
        "buf_bytes (cn_outbox c) = buf_bytes (cn_outbox conn) @ fr" "length fr \<le> 2 ^ 24"
      and fr: "framed [h] fr" "error_notice (frame_req_id g) FR_E_BUSY ''server busy'' h"
      using send_error_reply [OF assms(2), of "''server busy''" ?conn FR_E_BUSY "frame_req_id g"] Cons.prems rid by auto
    have cp: "cn_parser c = p" by (subst c(1)) simp
    obtain conn' queue' where a: "absorb_input alloc stopping c queue (drop k left) = Inr (conn', queue', True)"
      and t: "takes_in stopping c queue gs rest conn' queue'"
      using Cons.IH [of c "drop k left" queue] p Cons.prems n(2) rest c cp by auto
    obtain bs where bs: "buf_bytes (cn_outbox conn') = buf_bytes (cn_outbox c) @ bs" "busy_answers gs bs"
      using t room by (auto simp: takes_in_def)
    have "conn' = conn\<lparr>cn_parser := cn_parser conn', cn_outbox := cn_outbox conn'\<rparr>"
    proof -
      have "conn' = c\<lparr>cn_parser := cn_parser conn', cn_outbox := cn_outbox conn'\<rparr>" using t by (simp add: takes_in_def)
      also have "\<dots> = conn\<lparr>cn_parser := cn_parser conn', cn_outbox := cn_outbox conn'\<rparr>" by (subst c(1)) simp
      finally show ?thesis .
    qed
    then have "takes_in stopping conn queue (g # gs) rest conn' queue'"
      using t c(3,4) room bs busy_answers_cons [OF fr bs(2)] by (auto simp: takes_in_def)
    then show ?thesis using a eq False s by auto
  qed
qed

lemma busy_answers_append: "busy_answers gs bs \<Longrightarrow> busy_answers hs cs \<Longrightarrow> busy_answers (gs @ hs) (bs @ cs)"
  unfolding busy_answers_def using framed_append list_all2_appendI by blast

lemma takes_in_append:
  assumes a: "takes_in stopping conn queue hs mid c1 q1" and b: "takes_in stopping c1 q1 is rest c2 q2"
  shows "takes_in stopping conn queue (hs @ is) rest c2 q2"
proof -
  let ?n = "room_left stopping queue"
  have c1: "c1 = conn\<lparr>cn_parser := cn_parser c1, cn_outbox := cn_outbox c1\<rparr>" using a by (simp add: takes_in_def)
  have "c2 = c1\<lparr>cn_parser := cn_parser c2, cn_outbox := cn_outbox c2\<rparr>" using b by (simp add: takes_in_def)
  then have c2: "c2 = conn\<lparr>cn_parser := cn_parser c2, cn_outbox := cn_outbox c2\<rparr>" using c1 by (metis (no_types, lifting) Connection.surjective Connection.update_convs(4,5))
  have room: "room_left stopping q1 = ?n - length hs" using a by (auto simp: takes_in_def room_left_def)
  have task: "task_of c1 = task_of conn" by (rule ext, subst c1) (simp add: task_of_def)
  obtain bs where bs: "buf_bytes (cn_outbox c1) = buf_bytes (cn_outbox conn) @ bs" "busy_answers (drop ?n hs) bs"
    using a by (auto simp: takes_in_def)
  obtain bs' where bs': "buf_bytes (cn_outbox c2) = buf_bytes (cn_outbox c1) @ bs'" "busy_answers (drop (?n - length hs) is) bs'"
    using b room by (auto simp: takes_in_def)
  have "length (buf_bytes (cn_outbox c2)) \<le> length (buf_bytes (cn_outbox conn)) + 2 ^ 24 * length (hs @ is)"
    using a b by (simp add: takes_in_def)
  moreover have "busy_answers (drop ?n (hs @ is)) (bs @ bs')" using busy_answers_append [OF bs(2) bs'(2)] by simp
  ultimately show ?thesis
    using a b c2 room task bs(1) bs'(1) by (simp add: takes_in_def)
qed

lemma find_set_conn: "find_conn (cn_id c) t \<noteq> None \<Longrightarrow> find_conn (cn_id c) (set_conn c t) = Some c"
proof -
  have "find (\<lambda>d. cn_id d = cn_id c) cs \<noteq> None \<Longrightarrow>
      find (\<lambda>d. cn_id d = cn_id c) (map (\<lambda>d. if cn_id d = cn_id c then c else d) cs) = Some c" for cs
    by (induction cs) auto
  then show "find_conn (cn_id c) t \<noteq> None \<Longrightarrow> ?thesis" by (simp add: find_conn_def set_conn_def)
qed

lemma set_conn_queue: "find_conn i (t\<lparr>tr_queue := q\<rparr>) = find_conn i t" "(set_conn c t)\<lparr>tr_queue := q\<rparr> = set_conn c (t\<lparr>tr_queue := q\<rparr>)"
  by (simp_all add: find_conn_def set_conn_def)

lemma set_conn_twice: "cn_id c = cn_id d \<Longrightarrow> set_conn c (set_conn d t) = set_conn c t"
  by (auto simp: set_conn_def)

lemma read_stream:
  assumes "find_conn conn_id t = Some conn" and "parser_inv (cn_parser conn)" and "granted alloc" and "buf_wf (cn_outbox conn)"
    and "length (buf_bytes (cn_outbox conn)) + 2 ^ 24 * length gs \<le> 2 ^ 62"
    and "stream gs (pending (cn_parser conn) @ concat chunks) rest"
    and "\<forall>c\<in>set (butlast chunks). length c = 65536" and "chunks \<noteq> []"
  shows "\<exists>conn' queue'. read_input alloc now conn_id (map Bytes chunks) t =
       Inr (set_conn conn' (t\<lparr>tr_queue := queue'\<rparr>), True) \<and>
     takes_in (tr_stopping t) (conn\<lparr>cn_last_active := now\<rparr>) (tr_queue t) gs rest conn' queue'"
  using assms(1,2,4-)
proof (induction chunks arbitrary: t conn gs)
  case (Cons bs chunks)
  let ?conn = "conn\<lparr>cn_last_active := now\<rparr>" and ?stop = "tr_stopping t"
  have id: "cn_id conn = conn_id" using find_conn_Some [OF Cons.prems(1)] by simp
  obtain hs "is" mid where cut: "gs = hs @ is" "stream hs (pending (cn_parser conn) @ bs) mid" "stream is (mid @ concat chunks) rest"
    using stream_split [of gs "pending (cn_parser conn) @ bs" "concat chunks" rest] Cons.prems(5) by auto
  obtain c1 q1 where a: "absorb_input alloc ?stop ?conn (tr_queue t) bs = Inr (c1, q1, True)"
    and t1: "takes_in ?stop ?conn (tr_queue t) hs mid c1 q1"
    using absorb_stream [of ?conn alloc hs bs mid ?stop "tr_queue t"] Cons.prems assms(3) cut by auto
  have c1: "cn_id c1 = conn_id" "cn_last_active c1 = now" "parser_inv (cn_parser c1)" "pending (cn_parser c1) = mid" "buf_wf (cn_outbox c1)"
    "length (buf_bytes (cn_outbox c1)) \<le> length (buf_bytes (cn_outbox conn)) + 2 ^ 24 * length hs"
  proof -
    have c: "c1 = ?conn\<lparr>cn_parser := cn_parser c1, cn_outbox := cn_outbox c1\<rparr>" using t1 by (simp add: takes_in_def)
    show "cn_id c1 = conn_id" by (subst c) (simp add: id)
    show "cn_last_active c1 = now" by (subst c) simp
  qed (use t1 in \<open>simp_all add: takes_in_def\<close>)
  let ?t = "set_conn c1 (t\<lparr>tr_queue := q1\<rparr>)"
  have one: "read_input alloc now conn_id (map Bytes (bs # chunks)) t =
      (if length bs = 65536 then read_input alloc now conn_id (map Bytes chunks) ?t else Inr (?t, True))"
    using Cons.prems(1) a by (simp add: Let_def)
  show ?case
  proof (cases "chunks = []")
    case True
    then have "is = []" "rest = mid" using cut(3) stream_rest [OF cut(2)] by (cases "is"; simp)+
    then show ?thesis using one t1 cut(1) True by (auto split: if_splits)
  next
    case False
    have f: "find_conn conn_id ?t = Some c1" using find_set_conn [of c1 "t\<lparr>tr_queue := q1\<rparr>"] c1(1) Cons.prems(1) by (simp add: set_conn_queue)
    have "length bs = 65536" "\<forall>c\<in>set (butlast chunks). length c = 65536" using Cons.prems(6) False by auto
    moreover obtain c2 q2 where r: "read_input alloc now conn_id (map Bytes chunks) ?t = Inr (set_conn c2 (?t\<lparr>tr_queue := q2\<rparr>), True)"
      and t2: "takes_in (tr_stopping ?t) (c1\<lparr>cn_last_active := now\<rparr>) (tr_queue ?t) is rest c2 q2"
      using Cons.IH [OF f c1(3,5), of "is"] c1(4,6) Cons.prems(4) cut False calculation by auto
    moreover have "c1\<lparr>cn_last_active := now\<rparr> = c1" using c1(2) by (cases c1) simp
    then have t2': "takes_in ?stop c1 q1 is rest c2 q2" using t2 by (simp add: set_conn_def)
    moreover have "cn_id c2 = cn_id c1"
    proof -
      have "c2 = c1\<lparr>cn_parser := cn_parser c2, cn_outbox := cn_outbox c2\<rparr>" using t2' by (simp add: takes_in_def)
      then show ?thesis by (metis Connection.select_convs(3) Connection.surjective Connection.update_convs(4,5))
    qed
    then have "set_conn c2 (?t\<lparr>tr_queue := q2\<rparr>) = set_conn c2 (t\<lparr>tr_queue := q2\<rparr>)"
      by (simp add: set_conn_queue set_conn_twice)
    ultimately show ?thesis using one takes_in_append [OF t1 t2'] cut(1) by auto
  qed
qed simp

text \<open>One readable event: the connection and the queue after it.\<close>

lemma event_stream:
  assumes "find (\<lambda>c. cn_fd c = ev_fd ev) (tr_connections t) = Some conn" and "server_ok limits n t"
    and "cn_id conn \<noteq> 0" and "\<not> cn_close_after_flush conn" and "ev_readable ev" and "\<not> ev_writable ev"
    and "ev_reads ev = map Bytes chunks" and "\<forall>c\<in>set (butlast chunks). length c = 65536" and "chunks \<noteq> []"
    and "granted alloc" and "parser_inv (cn_parser conn)"
    and "length (buf_bytes (cn_outbox conn)) + 2 ^ 24 * length gs \<le> 2 ^ 62"
    and "stream gs (pending (cn_parser conn) @ concat chunks) rest"
  shows "\<exists>conn' queue'. on_conn_event alloc now ev t = Inr (set_conn conn' (t\<lparr>tr_queue := queue'\<rparr>)) \<and>
     takes_in (tr_stopping t) (conn\<lparr>cn_last_active := now\<rparr>) (tr_queue t) gs rest conn' queue' \<and>
     cn_id conn' = cn_id conn \<and> find_conn (cn_id conn) (set_conn conn' (t\<lparr>tr_queue := queue'\<rparr>)) = Some conn'"
proof -
  have mem: "conn \<in> set (tr_connections t)" using assms(1) by (auto simp: find_Some_iff)
  then obtain c where c: "find_conn (cn_id conn) t = Some c" using find_conn_None [of "cn_id conn" t] by (cases "find_conn (cn_id conn) t") auto
  have d: "distinct (map cn_id (tr_connections t))" using assms(2) by (simp add: server_ok_def strict_sorted_iff)
  have "c = conn" using distinct_key_eq [OF d, of c conn] find_conn_Some [OF c] mem by auto
  with c have f: "find_conn (cn_id conn) t = Some conn" by simp
  have "buf_wf (cn_outbox conn)" using mem assms(2) by (simp add: server_ok_def conn_ok_def)
  then obtain conn' queue' where
    r: "read_input alloc now (cn_id conn) (ev_reads ev) t = Inr (set_conn conn' (t\<lparr>tr_queue := queue'\<rparr>), True)"
    and t: "takes_in (tr_stopping t) (conn\<lparr>cn_last_active := now\<rparr>) (tr_queue t) gs rest conn' queue'"
    using read_stream [OF f assms(11,10) _ assms(12,13,8,9)] assms(7) by metis
  let ?t = "set_conn conn' (t\<lparr>tr_queue := queue'\<rparr>)"
  have same: "conn' = conn\<lparr>cn_last_active := now, cn_parser := cn_parser conn', cn_outbox := cn_outbox conn'\<rparr>"
    using t by (simp add: takes_in_def)
  have id: "cn_id conn' = cn_id conn" "\<not> cn_close_after_flush conn'" using assms(4) by (subst same, simp)+
  have f': "find_conn (cn_id conn) ?t = Some conn'"
    using find_set_conn [of conn' "t\<lparr>tr_queue := queue'\<rparr>"] f id(1) by (simp add: set_conn_queue)
  then have "on_conn_event alloc now ev t = Inr ?t"
    using assms(1,3,5,6) r id by (simp add: on_conn_event_def finish_event_def)
  then show ?thesis using f' t id(1) by blast
qed

lemma task_of_active [simp]: "task_of (conn\<lparr>cn_last_active := now\<rparr>) = task_of conn"
  by (rule ext) (simp add: task_of_def)

text \<open>C8: Requests reach the queue in order. When a connection becomes readable, then however its
  bytes are cut into reads: the frames of the stream (together with what the parser has kept from
  before) become tasks of this connection in their order, behind the tasks already queued, as long
  as there is room; every further frame is answered at once with one \<open>FR_E_BUSY\<close> error frame
  that carries its request id; and the parser keeps exactly the unfinished rest.\<close>

theorem requests_queued_in_order:
  assumes "find (\<lambda>c. cn_fd c = ev_fd ev) (tr_connections t) = Some conn" and "server_ok limits n t"
    and "cn_id conn \<noteq> 0" and "\<not> cn_close_after_flush conn" and "ev_readable ev" and "\<not> ev_writable ev"
    and "ev_reads ev = map Bytes chunks" and "\<forall>c\<in>set (butlast chunks). length c = 65536" and "chunks \<noteq> []"
    and "granted alloc" and "parser_inv (cn_parser conn)"
    and "length (buf_bytes (cn_outbox conn)) + 2 ^ 24 * length gs \<le> 2 ^ 62"
    and "stream gs (pending (cn_parser conn) @ concat chunks) rest"
  shows "\<exists>t' conn' bs. on_conn_event alloc now ev t = Inr t' \<and> find_conn (cn_id conn) t' = Some conn' \<and>
     tr_queue t' = tr_queue t @ map (task_of conn) (take (room_left (tr_stopping t) (tr_queue t)) gs) \<and>
     buf_bytes (cn_outbox conn') = buf_bytes (cn_outbox conn) @ bs \<and>
     busy_answers (drop (room_left (tr_stopping t) (tr_queue t)) gs) bs \<and>
     parser_inv (cn_parser conn') \<and> pending (cn_parser conn') = rest"
  using event_stream [OF assms, of now] by (auto simp: takes_in_def set_conn_def)

end
