(* ===== verification/Limits.thy ===== *)
theory Limits
  imports Replies
begin

text \<open>
  The limits of the dispatcher (\<^verbatim>\<open>src/service/fr_dispatch.cpp\<close>): counting failed
  authentications per connection and per address, and the requests whose error or data does not
  fit into a frame.
\<close>

section \<open>Failed authentications\<close>

text \<open>The counters of an address inside one window.\<close>

lemma note_failure_stat:
  assumes "ds_ip_stats d (ip_of peer) = Some \<lparr>ip_failures = k, ip_window_start = t, ip_blocked_until = b\<rparr>"
    and "t \<noteq> 0" and "now - t \<le> 60"
  shows "ds_ip_stats (note_auth_failure now peer d) (ip_of peer) =
     Some (if k + 1 \<ge> 20 then \<lparr>ip_failures = 0, ip_window_start = t, ip_blocked_until = now + 60\<rparr>
           else \<lparr>ip_failures = k + 1, ip_window_start = t, ip_blocked_until = b\<rparr>)"
  using assms
  by (simp add: note_auth_failure_def Let_def kIpFailureWindowSeconds_def kIpFailureThreshold_def kIpBlockSeconds_def)

lemma note_failure_first:
  assumes "ds_ip_stats d (ip_of peer) = None"
  shows "ds_ip_stats (note_auth_failure now peer d) (ip_of peer) =
     Some \<lparr>ip_failures = 1, ip_window_start = now, ip_blocked_until = 0\<rparr>"
  using assms by (simp add: note_auth_failure_def Let_def kIpFailureThreshold_def)

lemma note_failures_few:
  assumes "ds_ip_stats d (ip_of peer) = None" and "t \<noteq> 0" and "\<forall>u\<in>set ts. u - t \<le> 60" and "length ts < 19"
  shows "ds_ip_stats (fold (\<lambda>u. note_auth_failure u peer) (t # ts) d) (ip_of peer) =
     Some \<lparr>ip_failures = int (length ts) + 1, ip_window_start = t, ip_blocked_until = 0\<rparr>"
  using assms(3,4)
proof (induction ts rule: rev_induct)
  case Nil
  then show ?case using note_failure_first [OF assms(1)] by simp
next
  case (snoc u ts)
  then have "ds_ip_stats (fold (\<lambda>u. note_auth_failure u peer) (t # ts) d) (ip_of peer) =
      Some \<lparr>ip_failures = int (length ts) + 1, ip_window_start = t, ip_blocked_until = 0\<rparr>" by simp
  from note_failure_stat [OF this assms(2), of u] snoc.prems show ?case by simp
qed

lemma note_failures_many:
  assumes "ds_ip_stats d (ip_of peer) = None" and "t \<noteq> 0" and "\<forall>u\<in>set ts. u - t \<le> 60" and "length ts = 19"
  shows "ds_ip_stats (fold (\<lambda>u. note_auth_failure u peer) (t # ts) d) (ip_of peer) =
     Some \<lparr>ip_failures = 0, ip_window_start = t, ip_blocked_until = last (t # ts) + 60\<rparr>"
proof -
  obtain us u where ts: "ts = us @ [u]" using assms(4) by (cases ts rule: rev_cases) auto
  have "ds_ip_stats (fold (\<lambda>u. note_auth_failure u peer) (t # us) d) (ip_of peer) =
      Some \<lparr>ip_failures = int (length us) + 1, ip_window_start = t, ip_blocked_until = 0\<rparr>"
    by (rule note_failures_few [OF assms(1,2)]) (use assms(3,4) ts in auto)
  from note_failure_stat [OF this assms(2), of u] assms(3,4) ts show ?thesis by simp
qed

text \<open>The limit per address. As long as fewer than 20 authentications from an address have
  failed within 60 seconds, the address is not blocked; the 20th failure blocks it, and it stays
  blocked for exactly the next 60 seconds, for every port of the address.\<close>

theorem address_blocked_after_failures:
  assumes "ds_ip_stats d (ip_of peer) = None" and "t > 0" and "sorted (t # ts)" and "last (t # ts) - t \<le> 60"
    and "ip_of peer' = ip_of peer" and "now \<ge> 0"
  shows "(length (t # ts) < 20 \<longrightarrow>
       check_peer_not_blocked now peer' (fold (\<lambda>u. note_auth_failure u peer) (t # ts) d) = Inr ()) \<and>
     (length (t # ts) = 20 \<longrightarrow>
       check_peer_not_blocked now peer' (fold (\<lambda>u. note_auth_failure u peer) (t # ts) d) =
         (if now < last (t # ts) + 60
          then throw_error FR_E_UNAUTHENTICATED ''too many auth failures from your address'' else Inr ()))"
proof -
  have "\<forall>u\<in>set ts. u \<le> last (t # ts)"
    using assms(3) by (cases ts rule: rev_cases) (auto simp: sorted_append)
  then have w: "\<forall>u\<in>set ts. u - t \<le> 60" using assms(4) by fastforce
  have "t \<noteq> 0" using assms(2) by simp
  note few = note_failures_few [OF assms(1) this w] and many = note_failures_many [OF assms(1) this w]
  show ?thesis
    using few many assms(5,6) by (simp add: check_peer_not_blocked_def del: fold_simps)
qed

theorem address_blocked_after_failures_witness:
  "check_peer_not_blocked 130 ''10.0.0.7:99''
     (fold (\<lambda>u. note_auth_failure u ''10.0.0.7:4711'') (replicate 20 100) (sv_dispatcher initial_service)) =
   throw_error FR_E_UNAUTHENTICATED ''too many auth failures from your address''"
proof -
  have ip: "ip_of ''10.0.0.7:99'' = ip_of ''10.0.0.7:4711''" by code_simp
  have r: "replicate 20 (100 :: int) = 100 # replicate 19 100" by (simp add: numeral_eq_Suc)
  have "sorted (100 # replicate 19 (100 :: int))" "last (100 # replicate 19 (100 :: int)) = 100"
    by (simp_all add: numeral_eq_Suc)
  with address_blocked_after_failures [of "sv_dispatcher initial_service" "''10.0.0.7:4711''" 100 "replicate 19 100"
      "''10.0.0.7:99''" 130] ip
  show ?thesis unfolding r by (simp add: initial_service_def new_dispatcher_def del: fold_simps replicate.simps)
qed

text \<open>What a failed authentication leads to. An AUTH whose address is blocked, or whose token
  the registry refuses, is answered with \<open>FR_E_UNAUTHENTICATED\<close>, is counted on the connection
  and on the address, never authenticates, and closes the connection from the fifth failure on. A
  blocked address is refused before its token is looked at.\<close>

theorem failed_auth_counted:
  assumes "frame_type frame = msg_value FR_MSG_AUTH" and "granted (de_alloc env)" and "frame_req_id frame \<noteq> 0"
    and "(\<exists>e. check_peer_not_blocked (de_monotonic env) peer d = Inl e) \<or>
         (\<exists>req msg. decode_auth_req frame = Inr req \<and> length msg \<le> 512 \<and>
            verify (de_auth env) (auth_token req) (sdb (ds_storage d)) = Inl (Err FR_E_UNAUTHENTICATED msg))"
  shows "\<exists>res g message. handle env conn_id peer frame session d =
       (Inr res, session\<lparr>cs_auth_failures := cs_auth_failures session + 1\<rparr>,
        note_auth_failure (de_monotonic env) peer d) \<and>
     final_reply (frame_req_id frame) (hr_out res) g \<and>
     decode_error_payload g = Inr \<lparr>ep_code = FR_E_UNAUTHENTICATED, ep_message = message\<rparr> \<and>
     (hr_close_connection res \<longleftrightarrow> cs_auth_failures session \<ge> 4)"
proof -
  let ?h = "\<lparr>hs_dispatcher = d, hs_session = session, hs_result = empty_result\<rparr>"
  let ?rid = "frame_req_id frame"
  obtain msg where f: "handle_frame env conn_id peer ?rid frame ?h = (Inl (Err FR_E_UNAUTHENTICATED msg), ?h)"
    and len: "length msg \<le> 512"
  proof -
    have hf: "handle_frame env conn_id peer ?rid frame ?h = handle_auth env peer ?rid frame ?h"
      using assms(1) by (simp add: handle_frame_def)
    show ?thesis
    proof (cases "check_peer_not_blocked (de_monotonic env) peer d")
      case (Inl e)
      then have "e = Err FR_E_UNAUTHENTICATED ''too many auth failures from your address''"
        by (auto simp: check_peer_not_blocked_def split: option.splits if_splits)
      with Inl hf that show ?thesis by (simp add: handle_auth_def op_lift_def)
    next
      case (Inr u)
      then obtain req msg where "decode_auth_req frame = Inr req" "length msg \<le> 512"
        "verify (de_auth env) (auth_token req) (sdb (ds_storage d)) = Inl (Err FR_E_UNAUTHENTICATED msg)"
        using assms(4) by auto
      with Inr hf that show ?thesis
        by (simp add: handle_auth_def op_lift_def ask_def on_storage_def query_def)
    qed
  qed
  have c: "length (c_str msg) \<le> 512"
    using len length_takeWhile_le [of "\<lambda>c. c \<noteq> CHR 0x00" msg] by (simp add: c_str_def)
  let ?e = "\<lparr>ep_code = FR_E_UNAUTHENTICATED, ep_message = c_str msg\<rparr>"
  have "roundtrips (\<lambda>alloc p. encode_error_payload alloc (ep_code p) (ep_message p)) decode_error_payload ?e"
    by (rule roundtrip_error_payload) (use c in \<open>simp add: error_payload_ok_def str_ok_def kMaxStringLen_def\<close>)
  then obtain payload where p: "encode_error_payload (de_alloc env) FR_E_UNAUTHENTICATED (c_str msg) fr_buf_init = Inr payload"
    and dec: "\<And>f. carries f (buf_bytes payload) \<Longrightarrow> decode_error_payload f = Inr ?e"
    using assms(2) unfolding roundtrips_def by auto
  obtain h2 where a: "answer_error env peer ?rid frame FR_E_UNAUTHENTICATED msg ?h = (Inr (), h2)"
    and h2: "hs_session h2 = session\<lparr>cs_auth_failures := cs_auth_failures session + 1\<rparr>"
      "hs_dispatcher h2 = note_auth_failure (de_monotonic env) peer d"
      "hr_close_connection (hs_result h2) \<longleftrightarrow> cs_auth_failures session \<ge> 4"
    using p assms(1)
    by (auto simp: answer_error_eq counts_as_failure_def empty_result_def kAuthFailuresBeforeClose_def)
  from error_reply [OF assms(2,3) a] p
  have fr: "framed [reply_frame FR_MSG_ERROR ?rid (buf_bytes payload)] (buf_bytes (hr_out (hs_result h2)))"
    by (auto simp del: framed.simps)
  have "handle env conn_id peer frame session d = (Inr (hs_result h2),
      session\<lparr>cs_auth_failures := cs_auth_failures session + 1\<rparr>, note_auth_failure (de_monotonic env) peer d)"
    using f a h2(1,2) assms(3) by (simp add: handle_def)
  then show ?thesis
    using fr h2(3) dec [OF carries_reply]
    by (intro exI [of _ "hs_result h2"] exI [of _ "reply_frame FR_MSG_ERROR ?rid (buf_bytes payload)"] exI [of _ "c_str msg"])
      (auto simp: final_reply_def simp del: framed.simps)
qed

section \<open>What does not fit into a frame\<close>

lemma encode_error_long:
  assumes "granted alloc" and "length message > 512"
  shows "encode_error_payload alloc code message fr_buf_init =
     throw_error FR_E_ARG ''string field exceeds protocol limit''"
proof -
  have "emits (put_i32 alloc (status_value code)) (fr_store_be32 (word_of_int (status_value code)))"
    by (rule emits_i32 [OF assms(1)])
  then obtain out where "put_i32 alloc (status_value code) fr_buf_init = Inr out"
    unfolding emits_def room_def by (auto dest!: spec [of _ fr_buf_init])
  then show ?thesis
    using assms(2) by (simp add: encode_error_payload_def put_str_def kMaxStringLen_def throw_error_def)
qed

text \<open>Long error messages break the reply. When the handler of a message throws, \<open>handle\<close>
  answers with an ERROR frame if the message (up to its first NUL) has at most 512 characters. A
  longer one makes the encoding of the reply throw out of the handler: \<open>handle\<close> itself throws
  \<open>FR_E_ARG\<close>, and the code and the message of the error are lost.\<close>

theorem long_error_escapes:
  assumes "handle_frame env conn_id peer (frame_req_id frame) frame
      \<lparr>hs_dispatcher = d, hs_session = session, hs_result = empty_result\<rparr> = (Inl (Err code message), h1)"
    and "frame_req_id frame \<noteq> 0" and "granted (de_alloc env)"
  shows "(length (c_str message) > 512 \<longrightarrow> fst (handle env conn_id peer frame session d) =
       throw_error FR_E_ARG ''string field exceeds protocol limit'') \<and>
     (length (c_str message) \<le> 512 \<longrightarrow>
       (\<exists>res g. fst (handle env conn_id peer frame session d) = Inr res \<and>
          final_reply (frame_req_id frame) (hr_out res) g \<and> frame_type g = msg_value FR_MSG_ERROR))"
proof -
  let ?rid = "frame_req_id frame"
  obtain r h2 where a: "answer_error env peer ?rid frame code message h1 = (r, h2)"
    by (cases "answer_error env peer ?rid frame code message h1")
  have h: "fst (handle env conn_id peer frame session d) = rbind r (\<lambda>u. Inr (hs_result h2))"
    using assms(1,2) a by (simp add: handle_def)
  have "emits (put_i32 (de_alloc env) (status_value code)) (fr_store_be32 (word_of_int (status_value code)))"
    by (rule emits_i32 [OF assms(3)])
  then obtain out where i: "put_i32 (de_alloc env) (status_value code) fr_buf_init = Inr out"
    and out: "buf_wf out" "length (buf_bytes out) = 4"
    unfolding emits_def room_def by (auto dest!: spec [of _ fr_buf_init])
  show ?thesis
  proof (cases "length (c_str message) > 512")
    case True
    then have "encode_error_payload (de_alloc env) code (c_str message) fr_buf_init =
        throw_error FR_E_ARG ''string field exceeds protocol limit''"
      by (rule encode_error_long [OF assms(3)])
    then have "r = throw_error FR_E_ARG ''string field exceeds protocol limit''"
      using a by (subst (asm) answer_error_eq) (auto simp: throw_error_def)
    with h True show ?thesis by (simp add: throw_error_def)
  next
    case False
    then have "emits (put_str (de_alloc env) (c_str message)) (enc_str (c_str message))"
      by (intro emit_intros assms(3)) (simp add: str_ok_def kMaxStringLen_def)
    then obtain p where "encode_error_payload (de_alloc env) code (c_str message) fr_buf_init = Inr p"
      using i out False
      by (auto simp: encode_error_payload_def emits_def room_def enc_str_def seq_single rbind_eq_Inr
          dest!: spec [of _ out])
    then have r: "r = Inr ()" using a by (subst (asm) answer_error_eq) auto
    from error_reply [OF assms(3,2) a [unfolded r]] show ?thesis
      using h r False by (auto simp: final_reply_def simp del: framed.simps)
  qed
qed

text \<open>The largest chunk size cannot be used. The storage accepts a configured chunk size of
  8 MiB, but the frame limit of 8 MiB includes the session id and the ordinal of a PUT_CHUNK: a
  request with a full chunk of that size is encoded, and then refused by the frame encoder.\<close>

theorem full_chunk_unsendable:
  assumes "granted alloc" and "str_ok (pc_session_id req)" and "length (pc_data req) = 8 * 1024 * 1024"
  shows "\<exists>payload. encode_put_chunk_req alloc req fr_buf_init = Inr payload \<and>
     fr_frame_encode alloc out (msg_value FR_MSG_PUT_CHUNK) 0 rid (buf_data payload) (buf_len payload) =
       (if rid = 0 then FR_E_ARG else FR_E_RANGE, out)"
proof -
  let ?bs = "enc_str (pc_session_id req) @ fr_store_be64 (pc_ordinal req) @ pc_data req @ []"
  have "emits (encode_put_chunk_req alloc req) ?bs"
    unfolding encode_put_chunk_req_def using assms(1,2) by (intro emit_intros)
  moreover have len: "8388608 < length ?bs" "length ?bs < 2 ^ 62"
    using assms(2,3) by (simp_all add: enc_str_def str_ok_def kMaxStringLen_def)
  ultimately obtain payload where p: "encode_put_chunk_req alloc req fr_buf_init = Inr payload"
    "buf_bytes payload = ?bs" "buf_wf payload"
    unfolding emits_def room_def by (auto dest!: spec [of _ fr_buf_init])
  have "unat (buf_len payload) = length ?bs" using p len(2) buf_len_unat by simp
  then have "buf_len payload > of_nat FR_FRAME_MAX_PAYLOAD"
    using len(1) by (simp add: word_less_nat_alt FR_FRAME_MAX_PAYLOAD_def)
  moreover obtain y where "buf_data payload = Some y"
    using p(2,3) len(1) by (cases "buf_cap payload = 0") (auto simp: buf_data_def buf_wf_def)
  ultimately show ?thesis
    using p(1) msg_value_valid by (intro exI [of _ payload]) (simp add: fr_frame_encode_def del: msg_value.simps)
qed

end
