(* ===== verification/Streaming.thy ===== *)
theory Streaming
  imports Replies
begin

text \<open>
  Downloads in slices (\<open>GET_ARTIFACT\<close> and \<open>handle_get_continue\<close> in
  \<^verbatim>\<open>src/service/fr_dispatch.cpp\<close>): the worker calls the dispatcher again as long as
  the result asks for it. The continuation always comes to an end, and what the client gets is
  exactly the requested part of the artifact.
\<close>

section \<open>Following the continuations\<close>

text \<open>
  \<open>follow n envs stores key d\<close>: at most \<open>n\<close> calls of \<open>handle_get_continue\<close>,
  the \<open>i\<close>th one in the environment \<open>envs i\<close> and on the storage \<open>stores i\<close> the
  other clients have left; the exception or the bytes sent, or \<open>None\<close> when the calls do
  not suffice.
\<close>

fun follow ::
  "nat \<Rightarrow> (nat \<Rightarrow> dispatch_env) \<Rightarrow> (nat \<Rightarrow> storage) \<Rightarrow> string \<Rightarrow> dispatcher \<Rightarrow>
     (bytes result \<times> dispatcher) option" where
  "follow 0 envs stores key d = None"
| "follow (Suc n) envs stores key d =
     (case handle_get_continue (envs n) key (d\<lparr>ds_storage := stores n\<rparr>) of
        (Inl e, d') \<Rightarrow> Some (Inl e, d')
      | (Inr res, d') \<Rightarrow>
          if hr_has_more res
          then map_option (\<lambda>(r, d''). (rbind r (\<lambda>bs. Inr (buf_bytes (hr_out res) @ bs)), d''))
                 (follow n envs stores (hr_continuation_key res) d')
          else Some (Inr (buf_bytes (hr_out res)), d'))"

text \<open>What one slice does to the state of a download.\<close>

lemma advance_state:
  assumes "advance_get env s state out = (Inr (got, state'), out')"
  shows "gs_remaining state' = gs_remaining state - got" "gs_sent state' = gs_sent state + got"
    "gs_offset state' = gs_offset state + got" "gs_req_id state' = gs_req_id state"
    "gs_ns state' = gs_ns state" "gs_name state' = gs_name state" "gs_version state' = gs_version state"
  using assms by (auto simp: advance_get_def Let_def rbind_eq_Inr split: if_splits prod.splits)

lemma word_sum_le: "y \<le> r - k \<Longrightarrow> k \<le> r \<Longrightarrow> y + k \<le> r" for y k r :: u64
  by unat_arith

lemma read_loop_sent:
  "read_loop get_range es offset remaining sent = (Inr n, pieces) \<Longrightarrow> n - sent \<le> remaining"
proof (induction es arbitrary: offset remaining sent n pieces)
  case Nil
  then show ?case by simp
next
  case (Cons entry es)
  let ?stop = "me_offset entry + me_length entry"
  consider "remaining = 0" | "remaining \<noteq> 0" "offset \<ge> ?stop"
    | "remaining \<noteq> 0" "\<not> offset \<ge> ?stop" "me_offset entry \<ge> offset + remaining"
    | (piece) "remaining \<noteq> 0" "\<not> offset \<ge> ?stop" "\<not> me_offset entry \<ge> offset + remaining" by blast
  then show ?case
  proof cases
    case piece
    define k where "k = (if ?stop - (if offset > me_offset entry then offset else me_offset entry) > remaining
      then remaining else ?stop - (if offset > me_offset entry then offset else me_offset entry))"
    have "(if a > r then r else a) \<le> r" for a r :: u64 by (simp add: not_less)
    then have le: "k \<le> remaining" unfolding k_def .
    obtain ps where "read_loop get_range es (offset + k) (remaining - k) (sent + k) = (Inr n, ps)"
      using Cons.prems piece unfolding k_def by (auto simp: Let_def simp del: not_le split: sum.splits prod.splits)
    from Cons.IH [OF this] have "n - (sent + k) \<le> remaining - k" .
    from word_sum_le [OF this le] show ?thesis by simp
  qed (use Cons in \<open>auto simp: Let_def simp del: not_le\<close>)
qed

lemma read_loop_count: "read_loop get_range es offset remaining sent = (r, pieces) \<Longrightarrow> length pieces \<le> length es"
proof (induction es arbitrary: offset remaining sent r pieces)
  case (Cons entry es)
  then show ?case
    by (auto simp: Let_def le_SucI split: if_splits sum.splits prod.splits)
qed simp

lemma slice_le:
  assumes "read_artifact_slice env ns name version offset max_len s = (Inr got, pieces)"
  shows "got \<le> max_len"
proof -
  obtain info where info: "show_artifact ns name version (sdb s) = Inr info"
    using assms by (cases "show_artifact ns name version (sdb s)") (auto simp: read_artifact_slice_def)
  let ?rem = "if ai_size info - offset > max_len then max_len else ai_size info - offset"
  have "read_loop (chunk_store_get_range env (sfs s)) (ai_chunks info) offset ?rem 0 = (Inr got, pieces)"
    using assms info
    by (cases "offset > ai_size info") (simp_all add: read_artifact_slice_def Let_def throw_error_def)
  from read_loop_sent [OF this] have "got \<le> ?rem" by simp
  then show ?thesis by (auto split: if_splits)
qed

lemma advance_less:
  assumes "advance_get env s state out = (Inr (got, state'), out')" and "got \<noteq> 0"
  shows "unat (gs_remaining state') < unat (gs_remaining state)"
proof -
  let ?slice = "if gs_remaining state > kDataSliceBytes then kDataSliceBytes else gs_remaining state"
  obtain r pieces where r: "read_artifact_slice (env_io (de_storage env)) (gs_ns state) (gs_name state)
      (gs_version state) (gs_offset state) ?slice s = (Inr got, pieces)"
    using assms by (auto simp: advance_get_def Let_def rbind_eq_Inr split: if_splits prod.splits)
  have slice: "?slice \<le> gs_remaining state" by (simp add: less_imp_le)
  have "got \<le> ?slice" by (rule slice_le [OF r])
  then have "got \<le> gs_remaining state" using slice by (rule order_trans)
  moreover have "0 < unat got" using assms(2) by (simp add: unat_gt_0)
  ultimately show ?thesis
    using advance_state(1) [OF assms(1)] by (simp add: unat_sub word_le_nat_alt)
qed

text \<open>A call that asks to be continued has moved the download on.\<close>

lemma continue_more:
  assumes "handle_get_continue env key d = (Inr res, d')" and "hr_has_more res"
  shows "hr_continuation_key res = key \<and> (\<exists>state state'. ds_gets d key = Some state \<and> ds_gets d' key = Some state' \<and>
     unat (gs_remaining state') < unat (gs_remaining state))"
proof -
  obtain state where state: "ds_gets d key = Some state"
    using assms by (cases "ds_gets d key") (auto simp: handle_get_continue_def empty_result_def)
  obtain got state' out where a: "advance_get env (ds_storage d) state fr_buf_init = (Inr (got, state'), out)"
    using assms state by (auto simp: handle_get_continue_def split: prod.splits sum.splits)
  have "got \<noteq> 0"
    using assms state a by (auto simp: handle_get_continue_def empty_result_def split: sum.splits if_splits)
  from advance_less [OF a this] show ?thesis
    using assms state a
    by (auto simp: handle_get_continue_def set_get_def empty_result_def split: sum.splits if_splits)
qed

lemma follow_ends:
  assumes "\<And>state. ds_gets d key = Some state \<Longrightarrow> unat (gs_remaining state) < n" and "n \<noteq> 0"
  shows "follow n envs stores key d \<noteq> None"
  using assms
proof (induction n arbitrary: d)
  case (Suc n)
  let ?d = "d\<lparr>ds_storage := stores n\<rparr>"
  obtain r d' where c: "handle_get_continue (envs n) key ?d = (r, d')"
    by (cases "handle_get_continue (envs n) key ?d")
  show ?case
  proof (cases "\<exists>res. r = Inr res \<and> hr_has_more res")
    case True
    then obtain res where res: "r = Inr res" "hr_has_more res" by blast
    obtain state state' where st: "hr_continuation_key res = key" "ds_gets d key = Some state"
      "ds_gets d' key = Some state'" "unat (gs_remaining state') < unat (gs_remaining state)"
      using continue_more [OF c [unfolded res(1)] res(2)] by auto
    have "unat (gs_remaining state) < Suc n" by (rule Suc.prems(1) [OF st(2)])
    with st(3,4) have "follow n envs stores key d' \<noteq> None" by (intro Suc.IH) auto
    then show ?thesis using c res st(1) by auto
  next
    case False
    then show ?thesis using c by (cases r) auto
  qed
qed simp

section \<open>What the client gets\<close>

lemma put_pieces_framed:
  assumes "granted (de_alloc env)" and "rid \<noteq> 0" and "\<forall>p\<in>set pieces. length p \<le> FR_FRAME_MAX_PAYLOAD"
    and "buf_wf out" and "length (buf_bytes out) + 20 * length pieces + length (concat pieces) \<le> 2 ^ 63"
  shows "\<exists>bs. buf_bytes (put_pieces env rid pieces out) = buf_bytes out @ bs \<and> buf_wf (put_pieces env rid pieces out) \<and>
     framed (map (reply_frame FR_MSG_DATA rid) pieces) bs \<and> length bs = 20 * length pieces + length (concat pieces)"
  using assms(3-5)
proof (induction pieces arbitrary: out)
  case Nil
  then show ?case by (simp add: put_pieces_def)
next
  case (Cons p pieces)
  let ?out = "put_frame env FR_MSG_DATA rid (Some p) (of_nat (length p)) out"
  obtain fr where fr: "buf_bytes ?out = buf_bytes out @ fr" "length fr = 20 + length p"
    "framed [reply_frame FR_MSG_DATA rid p] fr" "buf_wf ?out"
    using put_frame_framed [OF assms(1,2), of p "Some p" "of_nat (length p)" out FR_MSG_DATA] Cons.prems by auto
  obtain bs where bs: "buf_bytes (put_pieces env rid pieces ?out) = buf_bytes ?out @ bs"
    "buf_wf (put_pieces env rid pieces ?out)" "framed (map (reply_frame FR_MSG_DATA rid) pieces) bs"
    "length bs = 20 * length pieces + length (concat pieces)"
    using Cons.IH [of ?out] Cons.prems fr(1,2,4) by auto
  have "framed ([reply_frame FR_MSG_DATA rid p] @ map (reply_frame FR_MSG_DATA rid) pieces) (fr @ bs)"
    by (rule framed_append [OF fr(3) bs(3)])
  then show ?case
    using bs fr(1,2) by (intro exI [of _ "fr @ bs"]) (simp add: put_pieces_def)
qed

text \<open>A published artifact with its content, as a download finds it.\<close>

definition downloadable :: "dispatch_env \<Rightarrow> storage \<Rightarrow> GetState \<Rightarrow> bytes \<Rightarrow> bool" where
  "downloadable env s state blob =
     (granted (de_alloc env) \<and> gs_req_id state \<noteq> 0 \<and> unat (gs_offset state) \<le> length blob \<and>
      (\<exists>info. show_artifact (gs_ns state) (gs_name state) (gs_version state) (sdb s) = Inr info \<and>
         length (ai_chunks info) < 2 ^ 32 \<and> length blob < 2 ^ 64 \<and>
         (\<forall>offset max_len. unat offset \<le> length blob \<longrightarrow>
            (\<exists>n pieces. read_artifact_slice (env_io (de_storage env)) (gs_ns state) (gs_name state)
                 (gs_version state) offset max_len s = (Inr n, pieces) \<and>
               concat pieces = take (unat max_len) (drop (unat offset) blob) \<and>
               unat n = length (concat pieces)))))"

lemma slice_count:
  assumes "show_artifact ns name version (sdb s) = Inr info"
    and "read_artifact_slice env ns name version offset max_len s = (Inr n, pieces)"
  shows "length pieces \<le> length (ai_chunks info)"
  using assms read_loop_count
  by (cases "offset > ai_size info") (auto simp: read_artifact_slice_def Let_def throw_error_def simp del: not_less not_le)

text \<open>One slice: DATA frames with the next bytes of the content.\<close>

lemma advance_delivers:
  assumes "downloadable env s state blob" and "out = fr_buf_init"
  shows "\<exists>got state' out' pieces. advance_get env s state out = (Inr (got, state'), out') \<and> buf_wf out' \<and>
     framed (map (reply_frame FR_MSG_DATA (gs_req_id state)) pieces) (buf_bytes out') \<and>
     length (buf_bytes out') < 2 ^ 62 \<and> length pieces < 2 ^ 32 \<and>
     concat pieces = take (min (unat (gs_remaining state)) (unat kDataSliceBytes)) (drop (unat (gs_offset state)) blob) \<and>
     unat got = length (concat pieces)"
proof (cases "gs_remaining state = 0")
  case True
  then show ?thesis
    using assms(2) by (intro exI [of _ 0] exI [of _ state] exI [of _ out] exI [of _ "[]"]) (simp add: advance_get_def kDataSliceBytes_def)
next
  case False
  let ?slice = "if gs_remaining state > kDataSliceBytes then kDataSliceBytes else gs_remaining state"
  have us: "unat ?slice = min (unat (gs_remaining state)) (unat kDataSliceBytes)"
    by (auto simp: word_less_nat_alt)
  have big: "unat ?slice \<le> 1048576" using us by (simp add: kDataSliceBytes_def)
  obtain info n pieces where info: "show_artifact (gs_ns state) (gs_name state) (gs_version state) (sdb s) = Inr info"
      "length (ai_chunks info) < 2 ^ 32"
    and r: "read_artifact_slice (env_io (de_storage env)) (gs_ns state) (gs_name state) (gs_version state)
      (gs_offset state) ?slice s = (Inr n, pieces)"
      "concat pieces = take (unat ?slice) (drop (unat (gs_offset state)) blob)" "unat n = length (concat pieces)"
    using assms(1) unfolding downloadable_def by metis
  have count: "length pieces < 2 ^ 32" using slice_count [OF info(1) r(1)] info(2) by simp
  have total: "length (concat pieces) \<le> 1048576" using r(2) big by simp
  have small: "\<forall>p\<in>set pieces. length p \<le> FR_FRAME_MAX_PAYLOAD"
  proof
    fix p assume "p \<in> set pieces"
    then have "length p \<le> length (concat pieces)" by (auto simp: length_concat member_le_sum_list)
    with total show "length p \<le> FR_FRAME_MAX_PAYLOAD" by (simp add: FR_FRAME_MAX_PAYLOAD_def)
  qed
  have "length (buf_bytes fr_buf_init) + 20 * length pieces + length (concat pieces) \<le> 2 ^ 63"
    using count total by simp
  from put_pieces_framed [OF _ _ small buf_wf_init this, of env "gs_req_id state"] assms(1)
  obtain bs where bs: "buf_bytes (put_pieces env (gs_req_id state) pieces fr_buf_init) = bs"
    "buf_wf (put_pieces env (gs_req_id state) pieces fr_buf_init)"
    "framed (map (reply_frame FR_MSG_DATA (gs_req_id state)) pieces) bs"
    "length bs = 20 * length pieces + length (concat pieces)"
    by (auto simp: downloadable_def)
  have "?slice \<noteq> 0" using False by (simp add: kDataSliceBytes_def)
  then have a: "advance_get env s state out = (Inr (n, state\<lparr>gs_offset := gs_offset state + n,
      gs_remaining := gs_remaining state - n, gs_sent := gs_sent state + n\<rparr>),
      put_pieces env (gs_req_id state) pieces fr_buf_init)"
    using r(1) assms(2) by (simp add: advance_get_def Let_def)
  have "length bs < 2 ^ 62" using bs(4) count total by simp
  with a bs r(2,3) us count show ?thesis by auto
qed

text \<open>The final frame with the number of bytes sent.\<close>

lemma final_frame:
  assumes "granted (de_alloc env)" and "rid \<noteq> 0" and "buf_wf out" and "length (buf_bytes out) < 2 ^ 62"
    and "framed gs (buf_bytes out)"
  shows "\<exists>payload g. encode_get_artifact_ok (de_alloc env) \<lparr>go_bytes_sent = n\<rparr> fr_buf_init = Inr payload \<and>
     framed (gs @ [g]) (buf_bytes (put_frame env FR_MSG_OK rid (buf_data payload) (buf_len payload) out)) \<and>
     frame_type g = msg_value FR_MSG_OK \<and> frame_req_id g = rid \<and>
     decode_get_artifact_ok g = Inr \<lparr>go_bytes_sent = n\<rparr>"
proof -
  let ?e = "\<lparr>go_bytes_sent = n\<rparr> :: GetArtifactOk"
  obtain payload where p: "encode_get_artifact_ok (de_alloc env) ?e fr_buf_init = Inr payload"
    and dec: "\<And>f. carries f (buf_bytes payload) \<Longrightarrow> decode_get_artifact_ok f = Inr ?e"
    using roundtrip_get_artifact_ok [of ?e] assms(1) unfolding roundtrips_def by auto
  have "brief (encode_get_artifact_ok (de_alloc env) ?e)" by (rule brief_replies)
  then have wf: "buf_wf payload" "length (buf_bytes payload) \<le> FR_FRAME_MAX_PAYLOAD"
    using p unfolding brief_def writes_def by (metis add_0 buf_bytes_init buf_wf_init list.size(3))+
  have "length (buf_bytes out) + 20 + length (buf_bytes payload) \<le> 2 ^ 63"
    using wf(2) assms(4) by (simp add: FR_FRAME_MAX_PAYLOAD_def)
  from put_frame_framed [OF assms(1,2) wf(2) buf_len_data [OF wf(1)] assms(3) this, of FR_MSG_OK]
  obtain fr where "buf_bytes (put_frame env FR_MSG_OK rid (buf_data payload) (buf_len payload) out) = buf_bytes out @ fr"
    "framed [reply_frame FR_MSG_OK rid (buf_bytes payload)] fr" by blast
  with framed_append [OF assms(5) this(2)] p dec [OF carries_reply] show ?thesis
    by (intro exI [of _ payload] exI [of _ "reply_frame FR_MSG_OK rid (buf_bytes payload)"]) simp
qed

text \<open>One slice, and what is left to send after it.\<close>

lemma slice_step:
  assumes "downloadable env s state blob"
  obtains got state' out pieces where
    "advance_get env s state fr_buf_init = (Inr (got, state'), out)" "buf_wf out" "length (buf_bytes out) < 2 ^ 62"
    "length pieces < 2 ^ 32" "framed (map (reply_frame FR_MSG_DATA (gs_req_id state)) pieces) (buf_bytes out)"
    "take (unat (gs_remaining state)) (drop (unat (gs_offset state)) blob) =
       concat pieces @ take (unat (gs_remaining state')) (drop (unat (gs_offset state')) blob)"
    "of_nat (length (concat pieces)) = got" "downloadable env s state' blob"
    "got = 0 \<Longrightarrow> take (unat (gs_remaining state)) (drop (unat (gs_offset state)) blob) = []"
    "unat (gs_remaining state') = unat (gs_remaining state) - unat got" "unat got \<le> unat (gs_remaining state)"
proof -
  let ?rest = "drop (unat (gs_offset state)) blob"
  have d: "unat (gs_offset state) \<le> length blob" "length blob < 2 ^ 64"
    using assms by (auto simp: downloadable_def)
  obtain got state' out pieces where a: "advance_get env s state fr_buf_init = (Inr (got, state'), out)"
    "buf_wf out" "framed (map (reply_frame FR_MSG_DATA (gs_req_id state)) pieces) (buf_bytes out)"
    "length (buf_bytes out) < 2 ^ 62"
    "concat pieces = take (min (unat (gs_remaining state)) (unat kDataSliceBytes)) ?rest"
    "unat got = length (concat pieces)" "length pieces < 2 ^ 32"
    using advance_delivers [OF assms refl] by blast
  note st = advance_state [OF a(1)]
  have got: "of_nat (length (concat pieces)) = got" unfolding a(6) [symmetric] by simp
  have le: "unat got \<le> unat (gs_remaining state)" "unat got \<le> length ?rest" using a(5,6) by simp_all
  have cut: "concat pieces = take (unat got) ?rest" using a(5,6) by (metis append_take_drop_id append_eq_conv_conj)
  have rem: "unat (gs_remaining state') = unat (gs_remaining state) - unat got"
    using st(1) le(1) by (simp add: unat_sub word_le_nat_alt)
  have sum: "unat (gs_offset state) + unat got \<le> length blob" using le(2) d(1) by simp
  then have off: "unat (gs_offset state') = unat (gs_offset state) + unat got"
    using st(3) d(2) by (simp add: unat_word_ariths)
  have "take (unat (gs_remaining state)) ?rest = take (unat got) ?rest @ take (unat (gs_remaining state')) (drop (unat got) ?rest)"
    using rem le(1) by (metis add_diff_inverse_nat not_le take_add)
  then have split: "take (unat (gs_remaining state)) ?rest =
      concat pieces @ take (unat (gs_remaining state')) (drop (unat (gs_offset state')) blob)"
    using cut off by (simp add: add.commute)
  have "take (unat (gs_remaining state)) ?rest = []" if "got = 0"
  proof -
    have "concat pieces = []" using that a(6) by simp
    then have "take (min (unat (gs_remaining state)) (unat kDataSliceBytes)) ?rest = []" using a(5) by (simp only:)
    moreover have "unat kDataSliceBytes > 0" by (simp add: kDataSliceBytes_def)
    ultimately have "unat (gs_remaining state) = 0 \<or> ?rest = []" by auto
    then show ?thesis by auto
  qed
  moreover have "downloadable env s state' blob" using assms st(4-7) off sum by (simp add: downloadable_def)
  ultimately show ?thesis using that a(1-4,7) got split rem le(1) by blast
qed

lemma follow_delivers:
  assumes "ds_gets d key = Some state" and "downloadable env s state blob" and "unat (gs_remaining state) < n"
  shows "\<exists>pieces g out d'. follow n (\<lambda>i. env) (\<lambda>i. s) key d = Some (Inr out, d') \<and>
     concat pieces = take (unat (gs_remaining state)) (drop (unat (gs_offset state)) blob) \<and>
     framed (map (reply_frame FR_MSG_DATA (gs_req_id state)) pieces @ [g]) out \<and>
     frame_type g = msg_value FR_MSG_OK \<and> frame_req_id g = gs_req_id state \<and>
     decode_get_artifact_ok g = Inr \<lparr>go_bytes_sent = gs_sent state + of_nat (length (concat pieces))\<rparr> \<and>
     ds_gets d' key = None \<and> length pieces \<le> n * 2 ^ 32"
  using assms
proof (induction n arbitrary: d state)
  case (Suc n)
  let ?d = "d\<lparr>ds_storage := s\<rparr>"
  have ok: "granted (de_alloc env)" "gs_req_id state \<noteq> 0" using Suc.prems(2) by (auto simp: downloadable_def)
  obtain got state' out pieces where a: "advance_get env s state fr_buf_init = (Inr (got, state'), out)"
    "buf_wf out" "length (buf_bytes out) < 2 ^ 62"
    "length pieces < 2 ^ 32" "framed (map (reply_frame FR_MSG_DATA (gs_req_id state)) pieces) (buf_bytes out)"
    and split: "take (unat (gs_remaining state)) (drop (unat (gs_offset state)) blob) =
       concat pieces @ take (unat (gs_remaining state')) (drop (unat (gs_offset state')) blob)"
    and got: "of_nat (length (concat pieces)) = got" and dl: "downloadable env s state' blob"
    and none: "got = 0 \<Longrightarrow> take (unat (gs_remaining state)) (drop (unat (gs_offset state)) blob) = []"
    and rem: "unat (gs_remaining state') = unat (gs_remaining state) - unat got" "unat got \<le> unat (gs_remaining state)"
    by (rule slice_step [OF Suc.prems(2)]) blast
  note st = advance_state [OF a(1)]
  show ?case
  proof (cases "gs_remaining state' = 0 \<or> got = 0")
    case True
    have all: "concat pieces = take (unat (gs_remaining state)) (drop (unat (gs_offset state)) blob)"
      using True split none by auto
    obtain payload g where f: "encode_get_artifact_ok (de_alloc env) \<lparr>go_bytes_sent = gs_sent state'\<rparr> fr_buf_init = Inr payload"
      "framed (map (reply_frame FR_MSG_DATA (gs_req_id state)) pieces @ [g])
         (buf_bytes (put_frame env FR_MSG_OK (gs_req_id state) (buf_data payload) (buf_len payload) out))"
      "frame_type g = msg_value FR_MSG_OK" "frame_req_id g = gs_req_id state"
      "decode_get_artifact_ok g = Inr \<lparr>go_bytes_sent = gs_sent state'\<rparr>"
      using final_frame [OF ok a(2,3,5)] by blast
    have "follow (Suc n) (\<lambda>i. env) (\<lambda>i. s) key d = Some (Inr (buf_bytes (put_frame env FR_MSG_OK (gs_req_id state)
        (buf_data payload) (buf_len payload) out)), erase_get key ?d)"
      using Suc.prems(1) a(1) True f(1) st(4) by (auto simp: handle_get_continue_def empty_result_def)
    with f(2-5) all st(2) got a(4) show ?thesis
      by (intro exI [of _ pieces] exI [of _ g]) (simp add: erase_get_def)
  next
    case False
    let ?d' = "set_get key state' ?d"
    have "0 < unat got" using False by (simp add: unat_gt_0)
    then have "unat (gs_remaining state') < n" using rem Suc.prems(3) by simp
    moreover have "ds_gets ?d' key = Some state'" by (simp add: set_get_def)
    ultimately obtain pieces' g out' d'' where IH: "follow n (\<lambda>i. env) (\<lambda>i. s) key ?d' = Some (Inr out', d'')"
      "concat pieces' = take (unat (gs_remaining state')) (drop (unat (gs_offset state')) blob)"
      "framed (map (reply_frame FR_MSG_DATA (gs_req_id state')) pieces' @ [g]) out'"
      "frame_type g = msg_value FR_MSG_OK" "frame_req_id g = gs_req_id state'"
      "decode_get_artifact_ok g = Inr \<lparr>go_bytes_sent = gs_sent state' + of_nat (length (concat pieces'))\<rparr>"
      "ds_gets d'' key = None" "length pieces' \<le> n * 2 ^ 32"
      using Suc.IH dl by blast
    have "framed (map (reply_frame FR_MSG_DATA (gs_req_id state)) (pieces @ pieces') @ [g]) (buf_bytes out @ out')"
      using framed_append [OF a(5) IH(3)] st(4) by simp
    moreover have "follow (Suc n) (\<lambda>i. env) (\<lambda>i. s) key d = Some (Inr (buf_bytes out @ out'), d'')"
      using Suc.prems(1) a(1) False IH(1) by (auto simp: handle_get_continue_def empty_result_def)
    moreover have "gs_sent state + of_nat (length (concat (pieces @ pieces'))) =
        gs_sent state' + of_nat (length (concat pieces'))"
      using st(2) got by simp
    ultimately show ?thesis
      using IH(2,4-8) st(4) split a(4) by (intro exI [of _ "pieces @ pieces'"] exI [of _ g]) simp
  qed
qed simp

lemma downloadableI:
  assumes "storage_inv sha s" and "sha_ok sha" and "reads_ok (env_io (de_storage env))" and "granted (de_alloc env)"
    and "show_artifact (gs_ns state) (gs_name state) (gs_version state) (sdb s) = Inr info"
    and "length (ai_chunks info) < 2 ^ 32" and "gs_offset state \<le> ai_size info" and "gs_req_id state \<noteq> 0"
  obtains blob where "sha256_to_hex (sha blob) = ai_digest info" "length blob = unat (ai_size info)"
    "downloadable env s state blob"
proof -
  obtain blob where b: "sha256_to_hex (sha blob) = ai_digest info" "length blob = unat (ai_size info)"
    and all: "\<And>offset max_len. if offset > ai_size info
        then read_artifact_slice (env_io (de_storage env)) (gs_ns state) (gs_name state) (gs_version state) offset max_len s =
               (throw_error FR_E_RANGE ''read offset beyond artifact size'', [])
        else \<exists>n pieces. read_artifact_slice (env_io (de_storage env)) (gs_ns state) (gs_name state) (gs_version state)
                 offset max_len s = (Inr n, pieces) \<and>
               concat pieces = take (unat max_len) (drop (unat offset) blob) \<and> unat n = length (concat pieces)"
    using read_slice_content [OF assms(1-3,5)] by blast
  have "length blob < 2 ^ 64" using b(2) unat_u64_less [of "ai_size info"] by simp
  moreover have "\<exists>n pieces. read_artifact_slice (env_io (de_storage env)) (gs_ns state) (gs_name state)
        (gs_version state) offset max_len s = (Inr n, pieces) \<and>
      concat pieces = take (unat max_len) (drop (unat offset) blob) \<and> unat n = length (concat pieces)"
    if "unat offset \<le> length blob" for offset max_len
    using all [of offset max_len] that b(2) by (simp add: word_less_nat_alt)
  ultimately have "downloadable env s state blob"
    using assms(4-8) b(2) unfolding downloadable_def by (auto simp: word_le_nat_alt)
  with b that show ?thesis by blast
qed

text \<open>A whole download: the request and, if the result asks for it, its continuations.\<close>

definition download ::
  "nat \<Rightarrow> dispatch_env \<Rightarrow> u64 \<Rightarrow> string \<Rightarrow> fr_frame \<Rightarrow> ClientSession \<Rightarrow> dispatcher \<Rightarrow>
     (bytes result \<times> dispatcher) option" where
  "download n env conn_id peer frame session d =
     (case handle env conn_id peer frame session d of
        (Inl e, session', d') \<Rightarrow> Some (Inl e, d')
      | (Inr res, session', d') \<Rightarrow>
          if hr_has_more res
          then map_option (\<lambda>(r, d''). (rbind r (\<lambda>bs. Inr (buf_bytes (hr_out res) @ bs)), d''))
                 (follow n (\<lambda>i. env) (\<lambda>i. ds_storage d') (hr_continuation_key res) d')
          else Some (Inr (buf_bytes (hr_out res)), d'))"

lemma handle_get:
  assumes "cs_authenticated session" and "frame_type frame = msg_value FR_MSG_GET_ARTIFACT"
    and "frame_req_id frame \<noteq> 0" and "decode_get_artifact_req frame = Inr req"
    and "key = get_key conn_id (ds_get_seq d)" and "ds_gets d key = None"
    and "state = \<lparr>gs_ns = ref_ns (ga_ref req), gs_name = ref_name (ga_ref req), gs_version = ref_version (ga_ref req),
        gs_offset = ga_offset req, gs_remaining = ga_length req, gs_sent = 0, gs_req_id = frame_req_id frame\<rparr>"
    and "advance_get env (ds_storage d) state fr_buf_init = (Inr (got, state'), out)"
    and "encode_get_artifact_ok (de_alloc env) \<lparr>go_bytes_sent = gs_sent state'\<rparr> fr_buf_init = Inr payload"
  shows "handle env conn_id peer frame session d =
     (if gs_remaining state' = 0
      then (Inr (empty_result\<lparr>hr_out := put_frame env FR_MSG_OK (frame_req_id frame) (buf_data payload) (buf_len payload) out\<rparr>),
            session, erase_get key (set_get key state' (set_get key state (d\<lparr>ds_get_seq := ds_get_seq d + 1\<rparr>))))
      else (Inr (empty_result\<lparr>hr_out := out, hr_has_more := True, hr_continuation_key := key\<rparr>), session,
            set_get key state' (set_get key state (d\<lparr>ds_get_seq := ds_get_seq d + 1\<rparr>))))"
proof -
  let ?h = "\<lparr>hs_dispatcher = d, hs_session = session, hs_result = empty_result\<rparr>"
  have role: "require_role session Reader = Inr ()" using assms(1) by (simp add: require_role_def)
  have e: "emplace_get key state (d\<lparr>ds_get_seq := ds_get_seq d + 1\<rparr>) = (state, set_get key state (d\<lparr>ds_get_seq := ds_get_seq d + 1\<rparr>))"
    using assms(6) by (simp add: emplace_get_def)
  have f: "handle_frame env conn_id peer (frame_req_id frame) frame ?h =
      handle_get_artifact env conn_id session (frame_req_id frame) frame ?h"
    using assms(1,2) by (simp add: handle_frame_def dispatch_business_def)
  have k: "get_key conn_id (ds_get_seq d) = key" using assms(5) by simp
  have out: "hr_out empty_result = fr_buf_init" by (simp add: empty_result_def)
  have ans: "answer env (frame_req_id frame) (encode_get_artifact_ok (de_alloc env) \<lparr>go_bytes_sent = gs_sent state'\<rparr>) h' =
      (Inr (), h'\<lparr>hs_result := make_ok env (frame_req_id frame) (buf_data payload) (buf_len payload) (hs_result h')\<rparr>)" for h'
    using assms(9) by (simp add: answer_def op_lift_def op_modify_def)
  have s: "ds_storage (set_get key state (d\<lparr>ds_get_seq := ds_get_seq d + 1\<rparr>)) = ds_storage d"
    by (simp add: set_get_def)
  have "handle_get_artifact env conn_id session (frame_req_id frame) frame ?h =
    (if gs_remaining state' = 0
     then (Inr (), ?h\<lparr>hs_dispatcher := erase_get key (set_get key state' (set_get key state (d\<lparr>ds_get_seq := ds_get_seq d + 1\<rparr>))),
       hs_result := empty_result\<lparr>hr_out := put_frame env FR_MSG_OK (frame_req_id frame) (buf_data payload) (buf_len payload) out\<rparr>\<rparr>)
     else (Inr (), ?h\<lparr>hs_dispatcher := set_get key state' (set_get key state (d\<lparr>ds_get_seq := ds_get_seq d + 1\<rparr>)),
       hs_result := empty_result\<lparr>hr_out := out, hr_has_more := True, hr_continuation_key := key\<rparr>\<rparr>))"
    using role assms(4,8) e s
    by (simp add: handle_get_artifact_def op_lift_def Let_def op_modify_def make_ok_def k ans out flip: assms(7))
  then show ?thesis using f assms(3) by (simp add: handle_def split: if_splits)
qed

section \<open>Properties\<close>

text \<open>The whole exchange of a download, on the side of the server.\<close>

lemma download_run:
  assumes "storage_inv sha (ds_storage d)" and "sha_ok sha" and "reads_ok (env_io (de_storage env))"
    and "granted (de_alloc env)" and "cs_authenticated session"
    and "frame_type frame = msg_value FR_MSG_GET_ARTIFACT" and "frame_req_id frame \<noteq> 0"
    and "decode_get_artifact_req frame = Inr req"
    and "show_artifact (ref_ns (ga_ref req)) (ref_name (ga_ref req)) (ref_version (ga_ref req)) (sdb (ds_storage d)) = Inr info"
    and "length (ai_chunks info) < 2 ^ 32" and "ga_offset req \<le> ai_size info"
    and "ds_gets d (get_key conn_id (ds_get_seq d)) = None" and "n > unat (ga_length req)"
  shows "\<exists>blob pieces g out d'. sha256_to_hex (sha blob) = ai_digest info \<and> length blob = unat (ai_size info) \<and>
     download n env conn_id peer frame session d = Some (Inr out, d') \<and>
     framed (map (reply_frame FR_MSG_DATA (frame_req_id frame)) pieces @ [g]) out \<and>
     concat pieces = take (unat (ga_length req)) (drop (unat (ga_offset req)) blob) \<and>
     frame_type g = msg_value FR_MSG_OK \<and> frame_req_id g = frame_req_id frame \<and>
     decode_get_artifact_ok g = Inr \<lparr>go_bytes_sent = of_nat (length (concat pieces))\<rparr> \<and>
     ds_gets d' (get_key conn_id (ds_get_seq d)) = None \<and> length pieces \<le> Suc n * 2 ^ 32"
proof -
  let ?s = "ds_storage d" and ?rid = "frame_req_id frame"
  define key where "key = get_key conn_id (ds_get_seq d)"
  define state where "state = \<lparr>gs_ns = ref_ns (ga_ref req), gs_name = ref_name (ga_ref req), gs_version = ref_version (ga_ref req),
        gs_offset = ga_offset req, gs_remaining = ga_length req, gs_sent = 0, gs_req_id = ?rid\<rparr>"
  obtain blob where blob: "sha256_to_hex (sha blob) = ai_digest info" "length blob = unat (ai_size info)"
    and dl: "downloadable env ?s state blob"
    by (rule downloadableI [OF assms(1-4), of state info]) (use assms(7,9-11) in \<open>simp_all add: state_def\<close>)
  let ?rest = "drop (unat (gs_offset state)) blob" and ?d = "set_get key state (d\<lparr>ds_get_seq := ds_get_seq d + 1\<rparr>)"
  have ok: "gs_req_id state \<noteq> 0" "gs_req_id state = ?rid" using assms(7) by (simp_all add: state_def)
  obtain got state' out pieces where a: "advance_get env ?s state fr_buf_init = (Inr (got, state'), out)"
    "buf_wf out" "length (buf_bytes out) < 2 ^ 62"
    "length pieces < 2 ^ 32" "framed (map (reply_frame FR_MSG_DATA (gs_req_id state)) pieces) (buf_bytes out)"
    and split: "take (unat (gs_remaining state)) ?rest =
       concat pieces @ take (unat (gs_remaining state')) (drop (unat (gs_offset state')) blob)"
    and got: "of_nat (length (concat pieces)) = got" and dl': "downloadable env ?s state' blob"
    and rem: "unat (gs_remaining state') = unat (gs_remaining state) - unat got"
    by (rule slice_step [OF dl]) blast
  note st = advance_state [OF a(1)]
  obtain payload g where f: "encode_get_artifact_ok (de_alloc env) \<lparr>go_bytes_sent = gs_sent state'\<rparr> fr_buf_init = Inr payload"
    "framed (map (reply_frame FR_MSG_DATA ?rid) pieces @ [g])
       (buf_bytes (put_frame env FR_MSG_OK ?rid (buf_data payload) (buf_len payload) out))"
    "frame_type g = msg_value FR_MSG_OK" "frame_req_id g = ?rid"
    "decode_get_artifact_ok g = Inr \<lparr>go_bytes_sent = gs_sent state'\<rparr>"
    using final_frame [OF assms(4) ok(1) a(2,3,5)] ok(2) by metis
  note h = handle_get [OF assms(5-8) key_def assms(12) [folded key_def] state_def a(1) f(1)]
  have slice: "take (unat (ga_length req)) (drop (unat (ga_offset req)) blob) = take (unat (gs_remaining state)) ?rest"
    by (simp add: state_def)
  show ?thesis
  proof (cases "gs_remaining state' = 0")
    case True
    have "concat pieces = take (unat (ga_length req)) (drop (unat (ga_offset req)) blob)"
      using split True slice by simp
    moreover have "gs_sent state' = of_nat (length (concat pieces))" using st(2) got by (simp add: state_def)
    ultimately show ?thesis
      using blob f(2-5) h True a(4) unfolding key_def [symmetric]
      by - (rule exI [of _ blob], rule exI [of _ pieces], rule exI [of _ g],
        simp add: download_def empty_result_def erase_get_def)
  next
    case False
    let ?d' = "set_get key state' (set_get key state (d\<lparr>ds_get_seq := ds_get_seq d + 1\<rparr>))"
    have "unat (gs_remaining state') < n" using rem assms(13) by (simp add: state_def)
    moreover have "ds_gets ?d' key = Some state'" by (simp add: set_get_def)
    moreover have store: "ds_storage ?d' = ?s" by (simp add: set_get_def)
    ultimately obtain pieces' g' out' d'' where fd: "follow n (\<lambda>i. env) (\<lambda>i. ?s) key ?d' = Some (Inr out', d'')"
      "concat pieces' = take (unat (gs_remaining state')) (drop (unat (gs_offset state')) blob)"
      "framed (map (reply_frame FR_MSG_DATA (gs_req_id state')) pieces' @ [g']) out'"
      "frame_type g' = msg_value FR_MSG_OK" "frame_req_id g' = gs_req_id state'"
      "decode_get_artifact_ok g' = Inr \<lparr>go_bytes_sent = gs_sent state' + of_nat (length (concat pieces'))\<rparr>"
      "ds_gets d'' key = None" "length pieces' \<le> n * 2 ^ 32"
      using follow_delivers [OF _ dl'] by blast
    have "framed (map (reply_frame FR_MSG_DATA ?rid) (pieces @ pieces') @ [g']) (buf_bytes out @ out')"
      using framed_append [OF a(5) fd(3)] st(4) ok(2) by simp
    moreover have "download n env conn_id peer frame session d = Some (Inr (buf_bytes out @ out'), d'')"
      using h False fd(1) store by (simp add: download_def empty_result_def)
    moreover have "gs_sent state' + of_nat (length (concat pieces')) = of_nat (length (concat (pieces @ pieces')))"
      using st(2) got by (simp add: state_def)
    ultimately show ?thesis
      using blob fd(2,4-8) st(4) ok(2) split slice a(4) unfolding key_def [symmetric]
      by - (rule exI [of _ blob], rule exI [of _ "pieces @ pieces'"], rule exI [of _ g'], simp)
  qed
qed

text \<open>C16: A download delivers the artifact. For a published artifact, the request and its
  continuations send the client DATA frames with exactly the requested part of the content with
  the artifact's digest, cut off at its end, and then one OK frame with the number of bytes; every
  frame carries the id of the request, and no state of the download is left behind.\<close>

theorem download_exact:
  assumes "storage_inv sha (ds_storage d)" and "sha_ok sha" and "reads_ok (env_io (de_storage env))"
    and "granted (de_alloc env)" and "cs_authenticated session"
    and "frame_type frame = msg_value FR_MSG_GET_ARTIFACT" and "frame_req_id frame \<noteq> 0"
    and "decode_get_artifact_req frame = Inr req"
    and "show_artifact (ref_ns (ga_ref req)) (ref_name (ga_ref req)) (ref_version (ga_ref req)) (sdb (ds_storage d)) = Inr info"
    and "length (ai_chunks info) < 2 ^ 32" and "ga_offset req \<le> ai_size info"
    and "ds_gets d (get_key conn_id (ds_get_seq d)) = None" and "n > unat (ga_length req)"
  shows "\<exists>blob pieces g out d'. sha256_to_hex (sha blob) = ai_digest info \<and> length blob = unat (ai_size info) \<and>
     download n env conn_id peer frame session d = Some (Inr out, d') \<and>
     framed (map (reply_frame FR_MSG_DATA (frame_req_id frame)) pieces @ [g]) out \<and>
     concat pieces = take (unat (ga_length req)) (drop (unat (ga_offset req)) blob) \<and>
     frame_type g = msg_value FR_MSG_OK \<and> frame_req_id g = frame_req_id frame \<and>
     decode_get_artifact_ok g = Inr \<lparr>go_bytes_sent = of_nat (length (concat pieces))\<rparr> \<and>
     ds_gets d' (get_key conn_id (ds_get_seq d)) = None"
  using download_run [OF assms, of peer] by blast

text \<open>C34: Downloads end. Whatever the storage has become between two slices and whatever the file
  system answers, following the continuations of a download comes to an end, with a final frame or
  an exception, after at most one call more than there are bytes left to send.\<close>

theorem continuations_end:
  assumes "ds_gets d key = Some state" and "n > unat (gs_remaining state)"
  shows "\<exists>r d'. follow n envs stores key d = Some (r, d')"
proof -
  have "follow n envs stores key d \<noteq> None" by (rule follow_ends) (use assms in auto)
  then show ?thesis by auto
qed

end
