(* ===== verification/Confine.thy ===== *)
theory Confine
  imports Access
begin

text \<open>
  What a client that is no administrator cannot touch: the upload sessions with their parts and the
  artifacts with their manifests that belong to other users, and the users and tokens. The checks
  are those of \<^verbatim>\<open>src/service/fr_dispatch.cpp\<close>; that they are enough is a statement
  about every operation of \<^verbatim>\<open>src/storage/fr_storage.cpp\<close> behind them.
\<close>

section \<open>The data of others\<close>

definition foreign_sessions :: "string \<Rightarrow> database \<Rightarrow> session_row list" where
  "foreign_sessions u db = filter (\<lambda>r. ss_owner r \<noteq> u) (db_session db)"

definition foreign_parts :: "string \<Rightarrow> database \<Rightarrow> part_row list" where
  "foreign_parts u db = filter (\<lambda>p. pt_session_id p \<in> ss_id ` set (foreign_sessions u db)) (db_part db)"

definition foreign_artifacts :: "string \<Rightarrow> database \<Rightarrow> artifact_row list" where
  "foreign_artifacts u db = filter (\<lambda>a. ar_creator a \<noteq> u) (db_artifact db)"

definition foreign_manifests :: "string \<Rightarrow> database \<Rightarrow> artifact_chunk_row list" where
  "foreign_manifests u db = filter (\<lambda>c. ac_artifact_id c \<in> ar_id ` set (foreign_artifacts u db)) (db_artifact_chunk db)"

definition foreign ::
  "string \<Rightarrow> database \<Rightarrow> session_row list \<times> part_row list \<times> artifact_row list \<times> artifact_chunk_row list" where
  "foreign u db = (foreign_sessions u db, foreign_parts u db, foreign_artifacts u db, foreign_manifests u db)"

lemmas foreign_defs = foreign_def foreign_sessions_def foreign_parts_def foreign_artifacts_def foreign_manifests_def

lemma foreignI:
  assumes "foreign_sessions u db' = foreign_sessions u db" and "db_artifact db' = db_artifact db"
    and "db_artifact_chunk db' = db_artifact_chunk db"
    and "filter (\<lambda>p. pt_session_id p \<in> ss_id ` set (foreign_sessions u db)) (db_part db') =
         filter (\<lambda>p. pt_session_id p \<in> ss_id ` set (foreign_sessions u db)) (db_part db)"
  shows "foreign u db' = foreign u db"
  unfolding foreign_def foreign_parts_def foreign_artifacts_def foreign_manifests_def assms ..

lemma foreign_cong:
  assumes "db_session db' = db_session db" and "db_part db' = db_part db" and "db_artifact db' = db_artifact db"
    and "db_artifact_chunk db' = db_artifact_chunk db"
  shows "foreign u db' = foreign u db"
  by (rule foreignI) (simp_all add: foreign_sessions_def assms)

text \<open>\<open>own sid u db\<close>: the session belongs to \<open>u\<close>, if it exists.\<close>

definition own :: "string \<Rightarrow> string \<Rightarrow> database \<Rightarrow> bool" where
  "own sid u db = (\<forall>r\<in>set (db_session db). ss_id r = sid \<longrightarrow> ss_owner r = u)"

lemma own_not_foreign: "own sid u db \<Longrightarrow> sid \<notin> ss_id ` set (foreign_sessions u db)"
  by (auto simp: own_def foreign_sessions_def)

lemma filter_update_where:
  assumes "\<And>r. r \<in> set rows \<Longrightarrow> p r \<Longrightarrow> \<not> Q r \<and> \<not> Q (f r)"
  shows "filter Q (update_where p f rows) = filter Q rows"
  using assms by (induction rows) (auto simp: update_where_def)

text \<open>The invariant of an operation on a session of \<open>u\<close>.\<close>

definition confined ::
  "string \<Rightarrow> string \<Rightarrow> session_row list \<times> part_row list \<times> artifact_row list \<times> artifact_chunk_row list \<Rightarrow>
     storage \<Rightarrow> bool" where
  "confined sid u F s = (own sid u (sdb s) \<and> foreign u (sdb s) = F)"

lemma confined_set_state:
  assumes "own sid u db" and "\<And>r. p r \<Longrightarrow> ss_id r = sid"
  shows "own sid u (set_state p t db) \<and> foreign u (set_state p t db) = foreign u db"
proof
  show "own sid u (set_state p t db)"
    using assms(1) by (auto simp: own_def set_state_def set_update_where)
  have "filter (\<lambda>r. ss_owner r \<noteq> u) (update_where p (\<lambda>r. r\<lparr>ss_state := t\<rparr>) (db_session db)) =
      filter (\<lambda>r. ss_owner r \<noteq> u) (db_session db)"
    by (rule filter_update_where) (use assms in \<open>simp add: own_def\<close>)
  then show "foreign u (set_state p t db) = foreign u db"
    by (intro foreignI) (simp_all add: foreign_sessions_def set_state_def)
qed

lemma confined_delete_parts:
  assumes "own sid u db" shows "own sid u (delete_parts sid db) \<and> foreign u (delete_parts sid db) = foreign u db"
proof
  show "own sid u (delete_parts sid db)" using assms by (simp add: own_def delete_parts_def)
  have "filter (\<lambda>p. pt_session_id p \<in> ss_id ` set (foreign_sessions u db)) (delete_where (\<lambda>p. pt_session_id p = sid) (db_part db)) =
      filter (\<lambda>p. pt_session_id p \<in> ss_id ` set (foreign_sessions u db)) (db_part db)"
    using own_not_foreign [OF assms] unfolding delete_where_def filter_filter by (intro filter_cong) auto
  then show "foreign u (delete_parts sid db) = foreign u db"
    by (intro foreignI) (simp_all add: foreign_sessions_def delete_parts_def)
qed

lemma foreign_mark_pending: "foreign u (mark_pending now d db) = foreign u db"
  by (rule foreign_cong) (simp_all add: mark_pending_def)

lemma foreign_marks: "foreign u (mark_unreferenced now ds db) = foreign u db"
  by (induction ds arbitrary: db) (simp_all add: foreign_mark_pending)

lemma own_marks: "own sid u (mark_unreferenced now ds db) = own sid u db"
  by (induction ds arbitrary: db) (simp_all add: own_def mark_pending_def)

lemma confined_mark_parts:
  "own sid u db \<Longrightarrow> own sid u (mark_unreferenced_parts sid now db) \<and> foreign u (mark_unreferenced_parts sid now db) = foreign u db"
  using confined_delete_parts by (simp add: mark_unreferenced_parts_def foreign_marks own_marks Let_def)

lemma confined_expire:
  assumes "own sid u db" and "si_id session = sid"
  shows "own sid u (expire_session_if_due session now db) \<and> foreign u (expire_session_if_due session now db) = foreign u db"
proof -
  let ?p = "\<lambda>r. ss_id r = si_id session \<and> ss_state r = ''OPEN''"
  let ?db = "set_state ?p ''EXPIRED'' db"
  have db: "own sid u ?db \<and> foreign u ?db = foreign u db"
    by (rule confined_set_state [OF assms(1)]) (use assms(2) in simp)
  have "expire_session_if_due session now db =
      (if si_state session = OPEN \<and> si_expires_at session \<le> now then mark_unreferenced_parts sid now ?db else db)"
    using assms(2) by (simp add: expire_session_if_due_def set_state_def)
  then show ?thesis using confined_mark_parts [of sid u ?db now] db assms(1) by (simp split: if_splits)
qed

lemma confined_exec:
  "(\<And>db. own sid u db \<Longrightarrow> own sid u (f db) \<and> foreign u (f db) = foreign u db) \<Longrightarrow> keeps (confined sid u F) (exec f)"
  by (simp add: keeps_def confined_def exec_def)

lemma confined_tx: "keeps (confined sid u F) m \<Longrightarrow> keeps (confined sid u F) (tx m)"
  unfolding keeps_def
proof (intro allI impI)
  fix s assume m: "\<forall>s. confined sid u F s \<longrightarrow> confined sid u F (snd (m s))" and s: "confined sid u F s"
  then have "confined sid u F (snd (m s))" by blast
  with s show "confined sid u F (snd (tx m s))"
    by (cases "m s"; cases "fst (m s)") (auto simp: tx_def confined_def)
qed

lemma confined_transition: "keeps (confined sid u F) (transition sid st st')"
proof -
  have "own sid u (set_state p t' (sdb s)) \<and> foreign u (set_state p t' (sdb s)) = foreign u (sdb s)"
    if "own sid u (sdb s)" "p = (\<lambda>r. ss_id r = sid \<and> ss_state r = t)" for p t t' and s :: storage
    by (rule confined_set_state [OF that(1)]) (use that(2) in simp)
  then have "keeps (confined sid u F) (\<lambda>s. let p = (\<lambda>r. ss_id r = sid \<and> ss_state r = t); rows = db_session (sdb s)
      in (Inr (changes p rows > 0), s\<lparr>sdb := (sdb s)\<lparr>db_session := update_where p (\<lambda>r. r\<lparr>ss_state := t'\<rparr>) rows\<rparr>\<rparr>))" for t t'
    by (simp add: keeps_def confined_def Let_def set_state_def)
  then show ?thesis unfolding transition_def by (intro keeps_intros)
qed

lemma confined_insert_part:
  assumes "pt_session_id row = sid" shows "keeps (confined sid u F) (insert_part row)"
proof -
  have "foreign u (db\<lparr>db_part := db_part db @ [row]\<rparr>) = foreign u db" if "own sid u db" for db
    by (rule foreignI) (use own_not_foreign [OF that] assms in \<open>simp_all add: foreign_sessions_def\<close>)
  then show ?thesis by (auto simp: keeps_def confined_def insert_part_def own_def)
qed

lemma confined_chunks:
  "own sid u (insert_chunk d len now db) = own sid u db" "foreign u (insert_chunk d len now db) = foreign u db"
  "own sid u (reactivate d db) = own sid u db" "foreign u (reactivate d db) = foreign u db"
  by (auto intro: foreign_cong simp: own_def insert_chunk_def reactivate_def)

lemmas confined_intros = keeps_intros keeps_if keeps_query confined_exec confined_tx confined_transition

section \<open>The operations\<close>

lemma load_session_owner:
  assumes "load_session sid db = Inr session" and "distinct (map ss_id (db_session db))"
  shows "own sid (si_owner session) db" "si_id session = sid"
proof -
  obtain row where row: "row \<in> set (db_session db)" "ss_id row = sid" "read_session_row row = Inr session"
    by (rule load_session_row [OF assms(1)])
  then have "si_owner session = ss_owner row" "si_id session = ss_id row"
    by (auto simp: read_session_row_def rbind_eq_Inr)
  with row show "own sid (si_owner session) db" "si_id session = sid"
    using distinct_key_eq [OF assms(2)] unfolding own_def by auto
qed

lemma confined_put_chunk:
  assumes "own sid u (sdb s)" and "distinct (map ss_id (db_session (sdb s)))"
  shows "foreign u (sdb (snd (put_chunk env sid ord data len s))) = foreign u (sdb s)"
proof (cases "load_session sid (sdb s)")
  case (Inl e)
  then show ?thesis by (simp add: put_chunk_def op_bind_query Let_def del: op_bind.simps)
next
  case (Inr session)
  note id = load_session_owner(2) [OF Inr assms(2)]
  let ?F = "foreign u (sdb s)"
  have reg: "keeps (confined sid u ?F) (register_part sid (sint ord) d n now)" for d n now
  proof -
    have ins: "keeps (confined sid u ?F) (op_bind (exec (insert_chunk d n now)) (\<lambda>u.
        op_bind (exec (reactivate d)) (\<lambda>u. op_bind (insert_part \<lparr>pt_session_id = sid, pt_ordinal = sint ord,
          pt_digest = d, pt_length = n\<rparr>) (\<lambda>u. op_return (acc :: ChunkAccept)))))" for acc
      by (intro confined_intros confined_insert_part) (simp_all add: confined_chunks)
    show ?thesis
      unfolding keeps_def
    proof (intro allI impI)
      fix s' assume s': "confined sid u ?F s'"
      show "confined sid u ?F (snd (register_part sid (sint ord) d n now s'))"
      proof (cases "select_one (\<lambda>p. pt_session_id p = sid \<and> pt_ordinal p = sint ord) (db_part (sdb s'))")
        case None
        then show ?thesis using ins s' unfolding keeps_def register_part_def by (simp del: op_bind.simps)
      next
        case (Some p)
        with s' show ?thesis by (simp add: register_part_def)
      qed
    qed
  qed
  have store: "keeps (confined sid u ?F) (store_chunk env data len d)" for d
    by (auto simp: keeps_def confined_def store_chunk_def split: prod.splits)
  let ?rest = "op_bind (exec (expire_session_if_due session (env_now env))) (\<lambda>u.
      op_bind (query (load_session sid)) (\<lambda>session.
        if si_state session = EXPIRED then op_throw FR_E_EXPIRED ''upload session expired''
        else if si_state session \<noteq> OPEN then op_throw FR_E_STATE ''session is not OPEN''
        else if ord \<ge> chunk_count_of session
        then op_throw FR_E_RANGE ''chunk ordinal beyond expectation''
        else if len = 0 \<or> len > unat (si_chunk_size session)
        then op_throw FR_E_RANGE ''chunk length must be within (0, chunk_size]''
        else
          let digest_hex = sha256_to_hex (env_sha env (take len (mem_of data)))
          in op_bind (store_chunk env data len digest_hex) (\<lambda>d.
               tx (register_part sid (sint ord) digest_hex (int len) (env_now env)))))"
  have k: "keeps (confined sid u ?F) ?rest"
    unfolding Let_def by (intro confined_intros confined_expire id reg store)
  have eq: "put_chunk env sid ord data len s = ?rest s"
    using Inr by (simp add: put_chunk_def op_bind_query Let_def del: op_bind.simps)
  have "confined sid u ?F s" using assms(1) by (simp add: confined_def)
  then have "confined sid u ?F (snd (?rest s))" using k unfolding keeps_def by blast
  then show ?thesis unfolding eq by (simp only: confined_def)
qed

lemma confined_abort:
  assumes "own sid u (sdb s)"
  shows "foreign u (sdb (snd (abort_session env sid s))) = foreign u (sdb s)"
proof -
  have "keeps (confined sid u (foreign u (sdb s))) (abort_session env sid)"
    unfolding abort_session_def by (intro confined_intros confined_mark_parts)
  then show ?thesis using assms by (simp add: keeps_def confined_def)
qed

lemma confined_create:
  "foreign u (sdb (snd (create_session cfg env ns name version bytes digest u s))) = foreign u (sdb s)"
proof -
  have row: "ss_owner (new_row (new_info cfg env ns name version bytes digest u s)) = u" for s
    by (simp add: new_row_def new_info_def)
  have "foreign u (db\<lparr>db_session := db_session db @ [row]\<rparr>) = foreign u db" if "ss_owner row = u" for db row
    by (rule foreignI) (simp_all add: foreign_sessions_def that)
  then have "foreign u (sdb (snd (op_bind (tx (insert_session row)) (\<lambda>u. op_return info) s'))) = foreign u (sdb s')"
    if "ss_owner row = u" for row s' and info :: SessionInfo
    using that by (simp add: tx_def insert_session_def op_return_def constraint_failed_def throw_error_def)
  note ins = this [OF row]
  show ?thesis
  proof (cases rule: create_session_eq [of cfg env ns name version bytes digest u s])
    case refused
    then show ?thesis by simp
  next
    case insert
    show ?thesis unfolding insert(8) by (simp only: ins) simp
  qed
qed

lemma confined_commit:
  assumes s: "storage_inv sha s" and env: "env_sha env = sha" "sha_ok sha" and o: "own sid u (sdb s)"
  shows "foreign u (sdb (snd (commit_session env sid s))) = foreign u (sdb s)"
proof -
  obtain r s' where r: "commit_session env sid s = (r, s')" by (cases "commit_session env sid s")
  have keys: "distinct (map ss_id (db_session (sdb s)))" using s by (simp add: storage_inv_def inv_def keys_ok_def)
  have sd: "sdb (x\<lparr>sdb := db\<rparr>) = db" for x :: storage and db by simp
  have c: "own sid u (sdb (committing sid s)) \<and> foreign u (sdb (committing sid s)) = foreign u (sdb s)"
    unfolding committing_def sd by (rule confined_set_state [OF o]) simp
  have "foreign u (sdb s') = foreign u (sdb s)"
    using r s
  proof (cases rule: commit_session_cases)
    case unknown
    then show ?thesis by simp
  next
    case (not_open session)
    with confined_expire [OF o load_session_owner(2) [OF not_open(1) keys]] show ?thesis by simp
  next
    case (checked session)
    have owner: "si_owner session = u"
    proof -
      obtain row where "row \<in> set (db_session (sdb s))" "ss_id row = sid"
        by (rule load_session_row [OF checked(1)])
      with o load_session_owner(1) [OF checked(1) keys] show ?thesis unfolding own_def by metis
    qed
    note k = checked(4) [folded committing_def]
    show ?thesis
      using k s env checked(1,2)
    proof (cases rule: commit_checked_outcome)
      case nomem
      with c show ?thesis by simp
    next
      case refused
      have "foreign u (sdb (reopened sid (committing sid s))) = foreign u (sdb (committing sid s))"
        unfolding reopened_def sd
        by (rule confined_set_state [THEN conjunct2, of sid]) (use c in simp_all)
      with refused c show ?thesis by simp
    next
      case (published m ds)
      let ?db = "sdb (committing sid s)" and ?db' = "with_artifact session m (env_now env) (sdb (committing sid s))"
      have "keys_ok ?db" using inv_committing [OF s, of sid] by (simp add: storage_inv_def inv_def)
      then have "\<forall>a\<in>set (db_artifact ?db). ar_id a \<le> db_artifact_seq ?db" by (simp add: keys_ok_def)
      then have "db_artifact_seq ?db + 1 \<notin> ar_id ` set (db_artifact ?db)" by fastforce
      then have new: "db_artifact_seq ?db + 1 \<notin> ar_id ` set (foreign_artifacts u ?db)"
        by (auto simp: foreign_artifacts_def)
      have "foreign u ?db' = foreign u ?db"
        using owner new
        by (simp add: foreign_def foreign_parts_def foreign_sessions_def foreign_manifests_def foreign_artifacts_def
            with_artifact_def Let_def artifact_row_of_def chunk_row_of_def filter_map comp_def)
      moreover have "own sid u ?db'" using c by (simp add: own_def with_artifact_def Let_def)
      moreover have "foreign u (set_state (\<lambda>r. ss_id r = sid) ''COMPLETED'' ?db') = foreign u ?db'"
        by (rule confined_set_state [THEN conjunct2, OF calculation(2)]) simp
      ultimately show ?thesis using c published(3) by (simp add: published_def set_completed_eq)
    qed
  qed
  with r show ?thesis by simp
qed

lemma foreign_mark_counted: "mark_counted now ds db = (n, db') \<Longrightarrow> foreign u db' = foreign u db"
  by (induction ds arbitrary: db n db') (auto simp: foreign_mark_pending split: if_splits prod.splits)

lemma confined_delete:
  assumes "storage_inv sha s" and "show_artifact ns name version (sdb s) = Inr info" and "ai_creator info = u"
  shows "foreign u (sdb (snd (delete_artifact env ns name version s))) = foreign u (sdb s)"
proof -
  obtain row where row: "select_artifact ns name version (sdb s) = Some row" "ar_creator row = u"
    using assms(2,3) by (auto simp: show_artifact_def read_artifact_row_def throw_error_def split: option.splits)
  have r: "row \<in> set (db_artifact (sdb s))"
    using row(1) select_one_Some by (fastforce simp: select_artifact_def)
  have same: "a = row" if "a \<in> set (db_artifact (sdb s))" "ar_id a = ar_id row" for a
    by (rule distinct_key_eq [of ar_id "db_artifact (sdb s)"])
      (use assms(1) that r in \<open>simp_all add: storage_inv_def inv_def keys_ok_def\<close>)
  let ?db = "delete_artifact_rows (ar_id row) (sdb s)"
  have a: "foreign_artifacts u ?db = foreign_artifacts u (sdb s)"
    unfolding foreign_artifacts_def delete_artifact_rows_def
    by (simp add: delete_where_def filter_filter) (use same row(2) in \<open>auto intro: filter_cong\<close>)
  have "ar_id row \<notin> ar_id ` set (foreign_artifacts u (sdb s))"
    using same row(2) by (fastforce simp: foreign_artifacts_def)
  then have m: "foreign_manifests u ?db = foreign_manifests u (sdb s)"
    unfolding foreign_manifests_def a
    by (simp add: delete_artifact_rows_def delete_where_def filter_filter) (auto intro: filter_cong)
  have "foreign u ?db = foreign u (sdb s)"
    using a m by (simp add: foreign_def foreign_parts_def foreign_sessions_def) (simp add: delete_artifact_rows_def)
  then show ?thesis
    using row(1)
    by (cases "mark_counted (env_now env) (map ac_digest (artifact_chunks (ar_id row) (sdb s))) ?db")
      (simp add: delete_artifact_def tx_def foreign_mark_counted Let_def)
qed

section \<open>The handlers\<close>

text \<open>What holds of the storage after a handler that starts on the storage \<open>s\<close>.\<close>

definition ends :: "storage \<Rightarrow> (storage \<Rightarrow> bool) \<Rightarrow> (hstate, unit) op \<Rightarrow> bool" where
  "ends s Q m = (\<forall>h. ds_storage (hs_dispatcher h) = s \<longrightarrow> stored Q (snd (m h)))"

lemma ends_keeps: "keeps (stored Q) m \<Longrightarrow> Q s \<Longrightarrow> ends s Q m"
  by (auto simp: ends_def keeps_def stored_def)

lemma ends_lift: "Q s \<Longrightarrow> (\<And>x. r = Inr x \<Longrightarrow> ends s Q (k x)) \<Longrightarrow> ends s Q (op_bind (op_lift r) k)"
  by (cases r) (auto simp: ends_def op_lift_def stored_def)

lemma ends_ask: "Q s \<Longrightarrow> (\<And>x. q (sdb s) = Inr x \<Longrightarrow> ends s Q (k x)) \<Longrightarrow> ends s Q (op_bind (ask q) k)"
  by (cases "q (sdb s)") (auto simp: ends_def ask_def on_storage_def query_def stored_def)

lemma ends_allowed:
  assumes "Q s"
    and "\<And>info. load_session sid (sdb s) = Inr info \<Longrightarrow> require_session_allowed session info = Inr () \<Longrightarrow> ends s Q (k info)"
  shows "ends s Q (op_bind (allowed_session session sid) k)"
  unfolding ends_def
proof (intro allI impI)
  fix h :: hstate assume h: "ds_storage (hs_dispatcher h) = s"
  have same: "h\<lparr>hs_dispatcher := (hs_dispatcher h)\<lparr>ds_storage := s\<rparr>\<rparr> = h"
    unfolding h [symmetric] by (cases h) simp
  show "stored Q (snd (op_bind (allowed_session session sid) k h))"
  proof (cases "load_session sid (sdb s)")
    case (Inl e)
    with h assms(1) show ?thesis
      by (simp add: allowed_session_def get_session_def on_storage_def query_def stored_def)
  next
    case (Inr info)
    show ?thesis
    proof (cases "require_session_allowed session info")
      case (Inl e)
      with h Inr assms(1) show ?thesis
        by (simp add: allowed_session_def get_session_def on_storage_def query_def stored_def op_lift_def)
    next
      case ok: (Inr u)
      have "stored Q (snd (k info h))" using assms(2) [OF Inr] ok h by (simp add: ends_def)
      with h Inr ok show ?thesis
        by (simp add: allowed_session_def get_session_def on_storage_def query_def op_lift_def op_return_def same)
    qed
  qed
qed

lemma ends_call:
  assumes "Q s" and "Q (snd (m s))" and "\<And>x. keeps (stored Q) (k x)"
  shows "ends s Q (op_bind (on_storage m) k)"
  unfolding ends_def
proof (intro allI impI)
  fix h :: hstate assume h: "ds_storage (hs_dispatcher h) = s"
  obtain r s' where m: "m s = (r, s')" by (cases "m s")
  let ?h = "h\<lparr>hs_dispatcher := (hs_dispatcher h)\<lparr>ds_storage := s'\<rparr>\<rparr>"
  have "stored Q ?h" using assms(2) m by (simp add: stored_def)
  then have "stored Q (snd (k x ?h))" for x using assms(3) unfolding keeps_def by blast
  with \<open>stored Q ?h\<close> m h show "stored Q (snd (op_bind (on_storage m) k h))"
    by (cases r) (simp_all add: on_storage_def)
qed

definition spares :: "string \<Rightarrow> storage \<Rightarrow> storage \<Rightarrow> bool" where
  "spares u s s' = (foreign u (sdb s') = foreign u (sdb s) \<and> registry (sdb s') = registry (sdb s))"

lemma spares_refl: "spares u s s"
  by (simp add: spares_def)

lemma sparesI:
  "foreign u (sdb (snd (m s))) = foreign u (sdb s) \<Longrightarrow> (\<And>R. keeps (registered R) m) \<Longrightarrow> spares u s (snd (m s))"
  unfolding spares_def keeps_def registered_def by blast

lemma spares_audit: "keeps (stored (spares u s)) (audited env session action target)"
  unfolding audited_def on_auth_def
proof (rule keeps_on_storage)
  have "foreign u (db\<lparr>db_audit := a, db_audit_seq := n\<rparr>) = foreign u db" for db a n
    by (rule foreign_cong) simp_all
  then show "keeps (spares u s) (on_db (audit aenv actor action target res))" for aenv actor action target res
    by (simp add: keeps_def spares_def on_db_def audit_def Let_def registry_def)
qed

lemmas spares_after = keeps_bind keeps_answer keeps_ok_empty spares_audit

lemma owner_of_allowed:
  assumes "require_session_allowed session info = Inr ()" and "cs_role session \<noteq> Admin"
  shows "si_owner info = cs_username session"
  using assms by (auto simp: require_session_allowed_def rbind_eq_Inr throw_error_def split: if_splits)

lemma creator_of_allowed:
  assumes "require_delete_allowed session ns name version db = Inr ()" and "cs_role session \<noteq> Admin"
  obtains info where "show_artifact ns name version db = Inr info" "ai_creator info = cs_username session"
  using assms by (auto simp: require_delete_allowed_def rbind_eq_Inr throw_error_def split: if_splits)

lemma not_admin_refused:
  assumes "cs_authenticated session" and "cs_role session \<noteq> Admin"
  shows "\<exists>e. require_role session Admin = Inl e"
  using assms by (simp add: require_role_def throw_error_def)

lemma confined_business:
  assumes s: "storage_inv sha s" and env: "env_sha (de_storage env) = sha" "sha_ok sha"
    and role: "cs_authenticated session" "cs_role session \<noteq> Admin"
  shows "ends s (spares (cs_username session) s) (dispatch_business env conn_id session rid frame)"
proof -
  let ?u = "cs_username session" and ?Q = "spares (cs_username session) s"
  have keys: "distinct (map ss_id (db_session (sdb s)))" using s by (simp add: storage_inv_def inv_def keys_ok_def)
  have own: "own sid ?u (sdb s)" if "load_session sid (sdb s) = Inr info" "require_session_allowed session info = Inr ()"
    for sid info
    using load_session_owner(1) [OF that(1) keys] owner_of_allowed [OF that(2) role(2)] by simp
  have "ends s ?Q (handle_create_upload env session rid frame)"
    unfolding handle_create_upload_def
    by (intro ends_lift ends_call spares_refl spares_after sparesI confined_create registered_create_session)
  moreover have "ends s ?Q (handle_put_chunk env session rid frame)"
    unfolding handle_put_chunk_def
    by (intro ends_lift ends_allowed ends_call spares_refl spares_after sparesI registered_put_chunk
        confined_put_chunk [OF _ keys]) (rule own)
  moreover have "ends s ?Q (handle_query_upload env session rid frame)"
    unfolding handle_query_upload_def by (intro ends_keeps keeps_handler spares_refl)
  moreover have "ends s ?Q (handle_commit_upload env session rid frame)"
    unfolding handle_commit_upload_def
    by (intro ends_lift ends_allowed ends_call spares_refl spares_after sparesI registered_commit_session
        confined_commit [OF s env]) (rule own)
  moreover have "ends s ?Q (handle_abort_upload env session rid frame)"
    unfolding handle_abort_upload_def
    by (intro ends_lift ends_allowed ends_call spares_refl spares_after sparesI registered_abort_session
        confined_abort) (rule own)
  moreover have "ends s ?Q (handle_delete_artifact env session rid frame)"
    unfolding handle_delete_artifact_def
  proof (intro ends_lift ends_ask ends_call spares_refl spares_after sparesI registered_delete_artifact)
    fix ref u assume "require_delete_allowed session (ref_ns ref) (ref_name ref) (ref_version ref) (sdb s) = Inr u"
    then obtain info where "show_artifact (ref_ns ref) (ref_name ref) (ref_version ref) (sdb s) = Inr info"
      "ai_creator info = ?u" by (metis (full_types) creator_of_allowed old.unit.exhaust role(2))
    then show "foreign ?u (sdb (snd (delete_artifact (de_storage env) (ref_ns ref) (ref_name ref) (ref_version ref) s))) =
        foreign ?u (sdb s)" by (rule confined_delete [OF s])
  qed
  moreover have "ends s ?Q (handle_get_artifact env conn_id session rid frame)"
    "ends s ?Q (handle_list_artifacts env session rid frame)" "ends s ?Q (handle_show_artifact env session rid frame)"
    "ends s ?Q (handle_status env session rid)"
    "ends s ?Q (op_throw FR_E_PROTOCOL ''unhandled message type'' :: (hstate, unit) op)"
    unfolding handle_list_artifacts_def handle_show_artifact_def handle_status_def
    by (intro ends_keeps keeps_handler spares_refl)+
  moreover have "ends s ?Q (handle_run_gc env session rid frame)"
    "ends s ?Q (handle_user_add env session rid frame)" "ends s ?Q (handle_user_disable env session rid frame)"
    "ends s ?Q (handle_user_list env session rid)" "ends s ?Q (handle_token_create env session rid frame)"
    "ends s ?Q (handle_token_revoke env session rid frame)" "ends s ?Q (handle_token_list env session rid frame)"
    "ends s ?Q (handle_session_list env session rid)" "ends s ?Q (handle_session_abort env session rid frame)"
    unfolding handler_defs
    by (intro ends_keeps refuses_keeps refuses_role not_admin_refused [OF role] spares_refl)+
  ultimately show ?thesis
    unfolding dispatch_business_def Let_def by (simp del: msg_value.simps)
qed

text \<open>C14: Users are confined to their own. Whatever frame a client without the role Admin sends, all
  upload sessions and their parts, all artifacts and their manifests that belong to other users,
  and all users and tokens stay exactly as they are.\<close>

theorem others_untouched:
  assumes "handle env conn_id peer frame session d = (r, session', d')"
    and "storage_inv sha (ds_storage d)" and "env_sha (de_storage env) = sha" and "sha_ok sha"
    and "cs_authenticated session \<longrightarrow> cs_role session \<noteq> Admin"
  shows "foreign (cs_username session) (sdb (ds_storage d')) = foreign (cs_username session) (sdb (ds_storage d)) \<and>
     registry (sdb (ds_storage d')) = registry (sdb (ds_storage d))"
proof -
  have "spares (cs_username session) (ds_storage d) (ds_storage d')"
    using assms(1) spares_refl
  proof (rule handle_stored)
    fix rid assume "cs_authenticated session"
    with confined_business [OF assms(2-4)] assms(5)
    show "stored (spares (cs_username session) (ds_storage d)) (snd (dispatch_business env conn_id session rid frame
        \<lparr>hs_dispatcher = d, hs_session = session, hs_result = empty_result\<rparr>))"
      unfolding ends_def by simp
  qed
  then show ?thesis by (simp add: spares_def)
qed

end
