(* ===== verification/ServiceProps.thy ===== *)
theory ServiceProps
  imports Limits Streaming Confine
begin

text \<open>
  The service over its whole lifetime, the state of downloads when a connection closes, the bitmap
  of an upload, and the theorems of the dispatcher on a concrete service.
\<close>

section \<open>Keys of downloads\<close>

lemma decimal_digits: "set (decimal n) \<subseteq> char_of ` {48 ..< 58 :: nat}"
proof (induction n rule: less_induct)
  case (less n)
  show ?case
  proof (cases "n < 10")
    case True
    then show ?thesis by (subst decimal.simps) auto
  next
    case False
    have "48 + n mod 10 \<in> {48 ..< 58 :: nat}" by simp
    with False less [of "n div 10"] show ?thesis by (subst decimal.simps) auto
  qed
qed

lemma no_dash: "CHR ''-'' \<notin> set (decimal n)"
proof
  assume "CHR ''-'' \<in> set (decimal n)"
  then obtain k :: nat where "48 \<le> k" "k < 58" "CHR ''-'' = char_of k" using decimal_digits by fastforce
  then have "of_char (CHR ''-'') = k" by (simp add: of_char_of)
  with \<open>48 \<le> k\<close> show False by simp
qed

definition of_decimal :: "string \<Rightarrow> nat" where
  "of_decimal s = foldl (\<lambda>v c. 10 * v + (of_char c - 48)) 0 s"

lemma of_decimal_decimal: "of_decimal (decimal n) = n"
proof (induction n rule: less_induct)
  case (less n)
  show ?case
  proof (cases "n < 10")
    case True
    then show ?thesis by (subst decimal.simps) (simp add: of_decimal_def of_char_of)
  next
    case False
    have "(48 + n mod 10) mod 256 = 48 + n mod 10" by simp
    with False less [of "n div 10"] show ?thesis
      by (subst decimal.simps) (simp add: of_decimal_def of_char_of)
  qed
qed

lemma decimal_inj: "decimal m = decimal n \<Longrightarrow> m = n"
  by (metis of_decimal_decimal)

lemma key_prefix:
  "take (length (''get-'' @ decimal c @ ''-'')) (''get-'' @ decimal c' @ ''-'' @ s) = ''get-'' @ decimal c @ ''-''
     \<longleftrightarrow> c = c'"
proof
  assume "c = c'" then show "take (length (''get-'' @ decimal c @ ''-'')) (''get-'' @ decimal c' @ ''-'' @ s) =
      ''get-'' @ decimal c @ ''-''" by simp
next
  assume "take (length (''get-'' @ decimal c @ ''-'')) (''get-'' @ decimal c' @ ''-'' @ s) = ''get-'' @ decimal c @ ''-''"
  then obtain rest where "''get-'' @ decimal c' @ ''-'' @ s = (''get-'' @ decimal c @ ''-'') @ rest"
    by (metis append_take_drop_id)
  then have eq: "decimal c' @ ''-'' @ s = decimal c @ ''-'' @ rest" by simp
  have "takeWhile (\<lambda>x. x \<noteq> CHR ''-'') (decimal n @ ''-'' @ t) = decimal n" for n t
    using no_dash [of n] by (subst takeWhile_append2) auto
  then have "decimal c' = decimal c" using eq by metis
  then show "c = c'" using decimal_inj by blast
qed

lemma gets_after_close:
  "ds_gets (on_connection_closed conn_id d) key =
     (if take (length (''get-'' @ decimal (unat conn_id) @ ''-'')) key = ''get-'' @ decimal (unat conn_id) @ ''-''
      then None else ds_gets d key)"
  by (simp add: on_connection_closed_def Let_def)

lemma gets_close:
  "ds_gets (on_connection_closed conn_id d) (get_key conn_id' num) =
     (if conn_id' = conn_id then None else ds_gets d (get_key conn_id' num))"
proof -
  have "take (length (''get-'' @ decimal (unat conn_id) @ ''-'')) (get_key conn_id' num) =
      ''get-'' @ decimal (unat conn_id) @ ''-'' \<longleftrightarrow> conn_id' = conn_id"
    unfolding get_key_def key_prefix by (auto simp: word_unat_eq_iff)
  then show ?thesis
    by (simp only: gets_after_close)
qed

text \<open>Closing cleans up. When a connection closes, every state of a download of this connection
  is dropped, and every one of every other connection is kept, also of those whose number begins
  with the same digits.\<close>

theorem closing_drops_downloads:
  "ds_gets (on_connection_closed conn_id d) (get_key conn_id' num) =
     (if conn_id' = conn_id then None else ds_gets d (get_key conn_id' num))"
  by (rule gets_close)

section \<open>Properties of the service\<close>

text \<open>C5: The service stays consistent. In every state reached from the empty server, whatever
  connections are made, frames sent, downloads continued and connections closed, and whatever
  maintenance, crashes and restarts of the storage come in between: the storage satisfies its
  invariant, the registry its own, and every authenticated connection acts as a registered user
  with the role that this user has in the registry.\<close>

theorem service_always_consistent:
  assumes "service_run sha sv" and "sha_ok sha"
  shows "storage_inv sha (ds_storage (sv_dispatcher sv)) \<and> auth_ok (sdb (ds_storage (sv_dispatcher sv))) \<and>
     (\<forall>conn_id session. sv_clients sv conn_id = Some session \<and> cs_authenticated session \<longrightarrow>
        (\<exists>u\<in>set (db_user (sdb (ds_storage (sv_dispatcher sv)))).
           us_username u = cs_username session \<and> role_from_text (us_role u) = Inr (cs_role session)))"
proof -
  have "service_ok sha sv" by (rule service_run_ok [OF assms])
  then have "service_inv sha (ds_storage (sv_dispatcher sv))"
    "\<And>conn_id session. sv_clients sv conn_id = Some session \<Longrightarrow> honest session (ds_storage (sv_dispatcher sv))"
    unfolding service_ok_def by blast+
  then show ?thesis unfolding service_inv_def honest_def known_user_def by blast
qed

section \<open>A concrete service\<close>

definition demo_denv :: dispatch_env where
  "demo_denv = \<lparr>de_storage = demo_env, de_auth = demo_auth_env, de_monotonic = 100, de_alloc = (\<lambda>k. True),
     de_cfg = \<lparr>cfg_root = ''/srv'', cfg_chunk_size = 4194304, cfg_capacity_bytes = 1000000,
       cfg_high_watermark_percent = 90, cfg_session_hours = 24, cfg_gc_grace_seconds = 60,
       cfg_max_sessions_per_owner = 4\<rparr>, de_hub = None\<rparr>"

definition demo_dispatcher :: dispatcher where
  "demo_dispatcher = \<lparr>ds_storage = demo_published, ds_gets = Map.empty, ds_get_seq = 0, ds_ip_stats = Map.empty\<rparr>"

definition demo_client :: "Role \<Rightarrow> ClientSession" where
  "demo_client role = \<lparr>cs_hello_done = True, cs_authenticated = True, cs_username = ''bob'', cs_role = role,
     cs_auth_failures = 0\<rparr>"

lemma demo_granted: "granted (de_alloc demo_denv)"
  by (simp add: granted_def demo_denv_def)

theorem reader_changes_nothing_witness:
  "ds_storage (snd (snd (handle demo_denv 1 ''10.0.0.7:1'' (reply_frame FR_MSG_RUN_GC 7 [0]) (demo_client Reader)
     demo_dispatcher))) = demo_published"
proof -
  obtain r session' d' where h: "handle demo_denv 1 ''10.0.0.7:1'' (reply_frame FR_MSG_RUN_GC 7 [0]) (demo_client Reader)
     demo_dispatcher = (r, session', d')" by (metis prod_cases3)
  from reader_changes_nothing [OF this] h show ?thesis by (simp add: demo_client_def demo_dispatcher_def)
qed

theorem others_untouched_witness:
  "foreign ''bob'' (sdb (ds_storage (snd (snd (handle demo_denv 1 ''10.0.0.7:1'' (reply_frame FR_MSG_DELETE_ARTIFACT 7 [0])
     (demo_client Publisher) demo_dispatcher))))) = foreign ''bob'' (sdb demo_published)"
proof -
  obtain r session' d' where h: "handle demo_denv 1 ''10.0.0.7:1'' (reply_frame FR_MSG_DELETE_ARTIFACT 7 [0])
     (demo_client Publisher) demo_dispatcher = (r, session', d')" by (metis prod_cases3)
  have "storage_inv demo_sha (ds_storage demo_dispatcher)" using demo_published_inv by (simp add: demo_dispatcher_def)
  moreover have "env_sha (de_storage demo_denv) = demo_sha" by (simp add: demo_denv_def demo_env_def)
  ultimately show ?thesis
    using others_untouched [OF h _ _ demo_sha_ok] h by (simp add: demo_client_def demo_dispatcher_def)
qed


theorem unauthenticated_refused_witness:
  "\<exists>res g. handle demo_denv 1 ''10.0.0.7:1'' (reply_frame FR_MSG_RUN_GC 7 [0]) new_client demo_dispatcher =
     (Inr res, new_client, demo_dispatcher) \<and> final_reply 7 (hr_out res) g"
  using unauthenticated_refused [of new_client demo_denv "reply_frame FR_MSG_RUN_GC 7 [0]" 1 "''10.0.0.7:1''" demo_dispatcher]
    demo_granted by (auto simp: new_client_def)

theorem failed_auth_counted_witness:
  "\<exists>res. handle demo_denv 1 ''10.0.0.7:1'' (reply_frame FR_MSG_AUTH 7 [0, 0]) new_client demo_dispatcher =
     (Inr res, new_client\<lparr>cs_auth_failures := 1\<rparr>, note_auth_failure 100 ''10.0.0.7:1'' demo_dispatcher)"
proof -
  have "decode_auth_req (reply_frame FR_MSG_AUTH 7 [0, 0]) = Inr \<lparr>auth_token = []\<rparr>" by code_simp
  moreover have "verify (de_auth demo_denv) [] (sdb (ds_storage demo_dispatcher)) = Inl (Err FR_E_UNAUTHENTICATED ''empty token'')"
    by (simp add: verify_def throw_error_def)
  ultimately show ?thesis
    using failed_auth_counted [of "reply_frame FR_MSG_AUTH 7 [0, 0]" demo_denv "''10.0.0.7:1''" demo_dispatcher 1 new_client]
      demo_granted by (auto simp: demo_denv_def new_client_def)
qed

definition demo_get :: fr_frame where
  "demo_get = reply_frame FR_MSG_GET_ARTIFACT 7
     (enc_str ''libs'' @ enc_str ''zlib'' @ enc_str ''1.0'' @ fr_store_be64 0 @ fr_store_be64 2)"

lemma demo_get_decodes: "decode_get_artifact_req demo_get =
    Inr \<lparr>ga_ref = \<lparr>ref_ns = ''libs'', ref_name = ''zlib'', ref_version = ''1.0''\<rparr>, ga_offset = 0, ga_length = 2\<rparr>"
  by code_simp

theorem download_exact_witness:
  "\<exists>blob g pieces out d'. length blob = 2 \<and> sha256_to_hex (demo_sha blob) = demo_digest \<and>
     download 3 demo_denv 1 ''10.0.0.7:1'' demo_get (demo_client Reader) demo_dispatcher = Some (Inr out, d') \<and>
     framed (map (reply_frame FR_MSG_DATA 7) pieces @ [g]) out \<and> concat pieces = blob"
proof -
  let ?info = "committed_info demo_info demo_manifest 10"
  have env: "reads_ok (env_io (de_storage demo_denv))" "granted (de_alloc demo_denv)"
    by (simp_all add: demo_denv_def demo_env_def reads_ok_def quiet_env_def granted_def)
  have shown: "show_artifact ''libs'' ''zlib'' ''1.0'' (sdb (ds_storage demo_dispatcher)) = Inr ?info"
    using demo_show by (simp add: demo_dispatcher_def)
  have inv: "storage_inv demo_sha (ds_storage demo_dispatcher)"
    using demo_published_inv by (simp add: demo_dispatcher_def)
  have frame: "frame_type demo_get = msg_value FR_MSG_GET_ARTIFACT" "frame_req_id demo_get = 7"
    by (simp_all add: demo_get_def)
  have info: "length (ai_chunks ?info) < 2 ^ 32" "ai_size ?info = 2" "ai_digest ?info = demo_digest"
    by (simp_all add: committed_info_def demo_info_def demo_manifest_def)
  have "\<exists>blob pieces g out d'. sha256_to_hex (demo_sha blob) = ai_digest ?info \<and> length blob = unat (ai_size ?info) \<and>
     download 3 demo_denv 1 ''10.0.0.7:1'' demo_get (demo_client Reader) demo_dispatcher = Some (Inr out, d') \<and>
     framed (map (reply_frame FR_MSG_DATA (frame_req_id demo_get)) pieces @ [g]) out \<and>
     concat pieces = take (unat (2 :: u64)) (drop (unat (0 :: u64)) blob)"
    using download_exact [OF inv demo_sha_ok env _ frame(1) _ demo_get_decodes, of "demo_client Reader" ?info 1 3
        "''10.0.0.7:1''"] shown info frame(2)
    by (simp add: demo_client_def) (metis demo_dispatcher_def dispatcher.select_convs(2))
  then obtain blob pieces g out d' where "sha256_to_hex (demo_sha blob) = demo_digest" "length blob = 2"
    "download 3 demo_denv 1 ''10.0.0.7:1'' demo_get (demo_client Reader) demo_dispatcher = Some (Inr out, d')"
    "framed (map (reply_frame FR_MSG_DATA 7) pieces @ [g]) out" "concat pieces = blob"
    using info frame(2) by auto
  then show ?thesis by blast
qed

definition demo_state :: GetState where
  "demo_state = \<lparr>gs_ns = ''libs'', gs_name = ''zlib'', gs_version = ''1.0'', gs_offset = 0, gs_remaining = 2,
     gs_sent = 0, gs_req_id = 7\<rparr>"

theorem continuations_end_witness:
  "\<exists>r d'. follow 3 (\<lambda>i. demo_denv) (\<lambda>i. if i = 2 then demo_published else initial_storage) ''get-1-0''
     (demo_dispatcher\<lparr>ds_gets := [''get-1-0'' \<mapsto> demo_state]\<rparr>) = Some (r, d')"
  by (rule continuations_end [where state = demo_state]) (simp_all add: demo_state_def)

theorem service_always_consistent_witness:
  "auth_ok (sdb (ds_storage (sv_dispatcher (initial_service\<lparr>sv_clients := [1 \<mapsto> new_client]\<rparr>))))"
proof -
  have "service_step demo_sha initial_service (initial_service\<lparr>sv_clients := (sv_clients initial_service)(1 \<mapsto> new_client)\<rparr>)"
    by (rule connect)
  then have "service_run demo_sha (initial_service\<lparr>sv_clients := [1 \<mapsto> new_client]\<rparr>)"
    using move [OF boot] by (simp add: initial_service_def new_dispatcher_def)
  from service_always_consistent [OF this demo_sha_ok] show ?thesis by blast
qed

definition long_name :: string where "long_name = replicate 500 (CHR ''a'')"

definition demo_disable :: fr_frame where
  "demo_disable = reply_frame FR_MSG_USER_DISABLE 7 (enc_str long_name)"

lemma demo_disable_decodes: "decode get_str demo_disable = Inr long_name"
proof -
  have "str_ok long_name" by (simp add: str_ok_def long_name_def kMaxStringLen_def)
  then have "finishes get_str long_name (enc_str long_name)" by (intro reads_finishes reads_str)
  moreover have "at (reader_of demo_disable) (enc_str long_name)"
    unfolding demo_disable_def by (intro reader_of_at carries_reply)
  ultimately show ?thesis unfolding finishes_def decode_def by fastforce
qed

theorem long_error_escapes_witness:
  "fst (handle demo_denv 1 ''10.0.0.7:1'' demo_disable (demo_client Admin) demo_dispatcher) =
     throw_error FR_E_ARG ''string field exceeds protocol limit''"
proof -
  let ?h = "\<lparr>hs_dispatcher = demo_dispatcher, hs_session = demo_client Admin, hs_result = empty_result\<rparr>"
  let ?m = "''user not found: '' @ long_name"
  have rid: "frame_req_id demo_disable = 7" and type: "frame_type demo_disable = msg_value FR_MSG_USER_DISABLE"
    by (simp_all add: demo_disable_def)
  have "db_user (sdb demo_published) = []"
    by (simp add: demo_published_def published_def committing_def set_completed_eq set_state_def
        with_artifact_def Let_def demo_storage_def empty_database_def)
  then have "fst (on_auth (user_disable long_name) ?h) = Inl (Err FR_E_NOTFOUND ?m)"
    by (simp add: on_auth_def on_storage_def on_db_def user_disable_def demo_dispatcher_def changes_def throw_error_def Let_def)
  then obtain h1 where "on_auth (user_disable long_name) ?h = (Inl (Err FR_E_NOTFOUND ?m), h1)"
    by (metis prod.collapse)
  then have "handle_frame demo_denv 1 ''10.0.0.7:1'' 7 demo_disable ?h = (Inl (Err FR_E_NOTFOUND ?m), h1)"
    using demo_disable_decodes type
    by (simp add: handle_frame_def dispatch_business_def handle_user_disable_def op_lift_def require_role_def demo_client_def)
  with long_error_escapes [of demo_denv 1 "''10.0.0.7:1''" demo_disable demo_dispatcher "demo_client Admin" FR_E_NOTFOUND ?m h1]
    demo_granted rid
  show ?thesis by (simp add: long_name_def c_str_def)
qed

theorem full_chunk_unsendable_witness:
  "\<exists>payload. encode_put_chunk_req (\<lambda>k. True) \<lparr>pc_session_id = ''s1'', pc_ordinal = 0, pc_data = replicate (8 * 1024 * 1024) 0\<rparr>
       fr_buf_init = Inr payload \<and>
     fr_frame_encode (\<lambda>k. True) fr_buf_init (msg_value FR_MSG_PUT_CHUNK) 0 7 (buf_data payload) (buf_len payload) =
       (FR_E_RANGE, fr_buf_init)"
  using full_chunk_unsendable [of "\<lambda>k. True" "\<lparr>pc_session_id = ''s1'', pc_ordinal = 0, pc_data = replicate (8 * 1024 * 1024) 0\<rparr>"
      fr_buf_init 7]
  by (simp add: granted_def str_ok_def kMaxStringLen_def del: msg_value.simps replicate.simps)
end
