(* ===== verification/ServerJam.thy ===== *)
theory ServerJam
  imports ServerInput ServiceProps
begin

text \<open>
  A deadlock of the server: a worker queues the continuation of a download itself, and waits while
  the queue is full. When every worker waits, nobody takes tasks from the queue. The state is
  stable, and the clients of the server can bring it about.
\<close>

section \<open>The jam is stable\<close>

definition continuing :: "worker \<Rightarrow> bool" where
  "continuing w \<longleftrightarrow> (\<exists>task res. w = Continuing task res)"

definition jammed :: "transport \<Rightarrow> bool" where
  "jammed t \<longleftrightarrow> tr_workers t \<noteq> [] \<and> (\<forall>w\<in>set (tr_workers t). continuing w) \<and> queue_capacity \<le> length (tr_queue t)"

lemma absorb_input_full:
  "absorb_input alloc stopping conn queue left = Inr (conn', queue', keep) \<Longrightarrow>
   queue_capacity \<le> length queue \<Longrightarrow> queue' = queue"
proof (induction alloc stopping conn queue left rule: absorb_input.induct)
  case (1 alloc stopping conn queue left)
  show ?case
  proof (cases "left = []")
    case True
    then show ?thesis using 1(3) by (subst (asm) absorb_input.simps) simp
  next
    case False
    obtain st p consumed ready where f: "fr_frame_parser_feed alloc (cn_parser conn) (Some left) (length left) =
        (st, p, consumed, ready)" by (metis prod_cases4)
    note eq = 1(3) [unfolded absorb_input.simps [of alloc stopping conn queue left] f, simplified False, simplified]
    show ?thesis
    proof (cases "st = FR_OK")
      case bad: False
      then show ?thesis using eq by (auto simp: rbind_eq_Inr)
    next
      case good: True
      show ?thesis
      proof (cases ready)
        case None
        then show ?thesis using eq good by simp
      next
        case (Some frame)
        have full: "\<not> (length queue < queue_capacity \<and> \<not> stopping)" using 1(4) by simp
        then obtain c where s: "send_error alloc (conn\<lparr>cn_parser := p\<rparr>) (frame_req_id frame) FR_E_BUSY ''server busy'' = Inr c"
          using eq good Some by (auto split: sum.splits)
        then show ?thesis
          using 1(2) [OF False f [symmetric] refl refl _ Some full s] eq good Some full 1(4) by auto
      qed
    qed
  qed
qed

text \<open>Either the server is being stopped, or the workers, the queue and the completions to come are
  still those of the jam.\<close>

definition still_jammed :: "worker list \<Rightarrow> Task list \<Rightarrow> Completion set \<Rightarrow> transport \<Rightarrow> bool" where
  "still_jammed ws queue completions t \<longleftrightarrow>
     ((\<forall>w\<in>set ws. continuing w) \<and> queue_capacity \<le> length queue \<longrightarrow>
      tr_stopping t \<or>
      tr_workers t = ws \<and> tr_queue t = queue \<and> set (tr_done t) \<subseteq> completions)"

lemma io_fields [simp]:
  "tr_workers (accept_one limits now client t) = tr_workers t"
  "tr_queue (accept_one limits now client t) = tr_queue t"
  "tr_done (accept_one limits now client t) = tr_done t"
  "tr_stopping (accept_one limits now client t) = tr_stopping t"
  "tr_workers (close_connection conn_id t) = tr_workers t"
  "tr_queue (close_connection conn_id t) = tr_queue t"
  "tr_done (close_connection conn_id t) = tr_done t"
  "tr_stopping (close_connection conn_id t) = tr_stopping t"
  "tr_workers (set_conn c t) = tr_workers t"
  "tr_queue (set_conn c t) = tr_queue t"
  "tr_done (set_conn c t) = tr_done t"
  "tr_stopping (set_conn c t) = tr_stopping t"
  by (simp_all add: accept_one_def close_connection_def count_connections_def set_conn_def Let_def split: option.split)

lemma deliver_fields [simp]:
  "tr_workers (deliver alloc c t) = tr_workers t" "tr_queue (deliver alloc c t) = tr_queue t"
  "tr_done (deliver alloc c t) = tr_done t" "tr_stopping (deliver alloc c t) = tr_stopping t"
  by (simp_all add: deliver_def Let_def split: option.split)

interpretation jam: kept_by_threads sha limits "still_jammed ws queue completions" for sha limits ws queue completions
proof unfold_locales
  fix t conn_id conn alloc now bs conn' q keep
  assume "still_jammed ws queue completions t"
    and "absorb_input alloc (tr_stopping t) (conn\<lparr>cn_last_active := now\<rparr>) (tr_queue t) bs = Inr (conn', q, keep)"
  then show "still_jammed ws queue completions (set_conn conn' (t\<lparr>tr_queue := q\<rparr>))"
    using absorb_input_full by (fastforce simp: still_jammed_def)
next
  fix t w env state t'
  assume jam: "still_jammed ws queue completions t" and w: "w < length (tr_workers t)"
    and s: "worker_step env (tr_workers t ! w) t = Some (Inr (state, t'))"
  show "still_jammed ws queue completions (t'\<lparr>tr_workers := (tr_workers t')[w := state]\<rparr>)"
    unfolding still_jammed_def
  proof
    assume a: "(\<forall>w\<in>set ws. continuing w) \<and> queue_capacity \<le> length queue"
    have "tr_stopping t"
    proof (rule ccontr)
      assume run: "\<not> tr_stopping t"
      then have "continuing (tr_workers t ! w)" "queue_capacity \<le> length (tr_queue t)"
        using jam a w by (auto simp: still_jammed_def)
      then show False using s run by (auto simp: continuing_def)
    qed
    moreover have "tr_stopping t' = tr_stopping t" using worker_step_bounds [OF s] by simp
    ultimately show "tr_stopping (t'\<lparr>tr_workers := (tr_workers t')[w := state]\<rparr>) \<or>
      tr_workers (t'\<lparr>tr_workers := (tr_workers t')[w := state]\<rparr>) = ws \<and>
      tr_queue (t'\<lparr>tr_workers := (tr_workers t')[w := state]\<rparr>) = queue \<and>
      set (tr_done (t'\<lparr>tr_workers := (tr_workers t')[w := state]\<rparr>)) \<subseteq> completions" by simp
  qed
qed (auto simp: still_jammed_def maintain_def stop_threads_def close_all_def)

text \<open>C13: A jammed server stays jammed. Once every worker waits to queue the continuation of a
  download and the queue is full, no schedule of the threads and nothing the clients do ever moves
  a worker or the queue again, and no completion is produced any more, until the server is
  stopped.\<close>

theorem jam_is_forever:
  assumes "transport_run sha limits t t'" and "jammed t" and "\<not> tr_stopping t'"
  shows "tr_workers t' = tr_workers t \<and> tr_queue t' = tr_queue t \<and> set (tr_done t') \<subseteq> set (tr_done t) \<and> jammed t'"
proof -
  have "still_jammed (tr_workers t) (tr_queue t) (set (tr_done t)) t'"
    by (rule jam.kept_run [OF assms(1)]) (simp add: still_jammed_def)
  then show ?thesis using assms(2,3) by (simp add: still_jammed_def jammed_def)
qed

section \<open>Clients can jam the server\<close>

text \<open>A parsed frame goes through a task unchanged.\<close>

lemma frame_of_task_of:
  assumes "spec_parse bs = Parsed g n" and "granted alloc" shows "frame_of_task alloc (task_of conn g) = g"
proof -
  let ?p = "mem_of (frame_payload g)"
  have g: "frame_flags g = 0" "frame_payload_len g = length ?p" "length ?p \<le> FR_FRAME_MAX_PAYLOAD"
    "frame_payload g = (if ?p = [] then None else Some ?p)"
    using assms(1) encodable_small [OF assms(1)] spec_parse_Parsed(4) [OF assms(1)]
    by (auto simp: spec_parse_def Let_def header_frame_def split: if_splits)
  then have len: "length ?p < 2 ^ 63" by (simp add: FR_FRAME_MAX_PAYLOAD_def)
  have al: "\<forall>k. alloc k" using assms(2) by (simp add: granted_def)
  have copy: "buf_bytes (snd (fr_buf_append alloc fr_buf_init (if ?p = [] then None else Some ?p) (of_nat (length ?p)))) = ?p"
  proof (cases "?p = []")
    case True
    then show ?thesis using append_within [OF buf_wf_init, of 0 None alloc] by simp
  next
    case False
    have "length (buf_bytes fr_buf_init) + length ?p \<le> 2 ^ 63" using len by simp
    from append_succeeds [OF buf_wf_init this al] obtain b where
      "fr_buf_append alloc fr_buf_init (Some ?p) (of_nat (length ?p)) = (FR_OK, b)" "buf_bytes b = ?p" by auto
    then show ?thesis using False by simp
  qed
  have l: "unat (of_nat (length ?p) :: u64) = length ?p" using len by (simp add: unat_of_nat)
  show ?thesis
    using g copy l len
    by (cases g) (auto simp: frame_of_task_def task_of_def Let_def buf_len_def word_unat_eq_iff)
qed

lemma framed_parsed: "framed gs bs \<Longrightarrow> g \<in> set gs \<Longrightarrow> \<exists>bs n. spec_parse bs = Parsed g n"
  by (induction gs arbitrary: bs) (auto split: parse_outcome.splits)

lemma get_key_inj: "get_key c m = get_key c n \<Longrightarrow> m = n"
  using decimal_inj [of "unat m" "unat n"] by (simp add: get_key_def word_unat_eq_iff)

text \<open>A request for more than one slice of a published artifact.\<close>

definition big_get :: "dispatch_env \<Rightarrow> storage \<Rightarrow> fr_frame \<Rightarrow> bool" where
  "big_get env s frame \<longleftrightarrow>
     frame_type frame = msg_value FR_MSG_GET_ARTIFACT \<and> frame_req_id frame \<noteq> 0 \<and>
     (\<exists>req info. decode_get_artifact_req frame = Inr req \<and>
        show_artifact (ref_ns (ga_ref req)) (ref_name (ga_ref req)) (ref_version (ga_ref req)) (sdb s) = Inr info \<and>
        length (ai_chunks info) < 2 ^ 32 \<and> ga_offset req \<le> ai_size info \<and> ga_length req > kDataSliceBytes)"

lemma big_get_continues:
  assumes "big_get env (ds_storage d) frame" and "storage_inv sha (ds_storage d)" and "sha_ok sha"
    and "reads_ok (env_io (de_storage env))" and g: "granted (de_alloc env)" and "cs_authenticated session"
    and "ds_gets d (get_key conn_id (ds_get_seq d)) = None"
  shows "\<exists>res d'. handle env conn_id peer frame session d = (Inr res, session, d') \<and> hr_has_more res \<and>
     ds_storage d' = ds_storage d \<and> ds_get_seq d' = ds_get_seq d + 1 \<and>
     (\<forall>key. key \<noteq> get_key conn_id (ds_get_seq d) \<longrightarrow> ds_gets d' key = ds_gets d key)"
proof -
  obtain req info where req: "decode_get_artifact_req frame = Inr req"
    and info: "show_artifact (ref_ns (ga_ref req)) (ref_name (ga_ref req)) (ref_version (ga_ref req)) (sdb (ds_storage d)) = Inr info"
      "length (ai_chunks info) < 2 ^ 32" "ga_offset req \<le> ai_size info"
    and big: "ga_length req > kDataSliceBytes"
    and frame: "frame_type frame = msg_value FR_MSG_GET_ARTIFACT" "frame_req_id frame \<noteq> 0"
    using assms(1) by (auto simp: big_get_def)
  define state where "state = \<lparr>gs_ns = ref_ns (ga_ref req), gs_name = ref_name (ga_ref req),
    gs_version = ref_version (ga_ref req), gs_offset = ga_offset req, gs_remaining = ga_length req, gs_sent = 0,
    gs_req_id = frame_req_id frame\<rparr>"
  obtain blob where "downloadable env (ds_storage d) state blob"
    using downloadableI [OF assms(2-4) g, of state info] info frame(2) by (auto simp: state_def)
  from advance_delivers [OF this refl] obtain got state' out where
    adv: "advance_get env (ds_storage d) state fr_buf_init = (Inr (got, state'), out)" by blast
  have "got \<le> kDataSliceBytes"
    using adv big slice_le by (auto simp: advance_get_def Let_def state_def rbind_eq_Inr split: if_splits prod.splits)
  then have rem: "gs_remaining state' \<noteq> 0" using advance_state(1) [OF adv] big by (simp add: state_def)
  obtain payload where "encode_get_artifact_ok (de_alloc env) \<lparr>go_bytes_sent = gs_sent state'\<rparr> fr_buf_init = Inr payload"
    using final_frame [OF g frame(2) buf_wf_init, where n = "gs_sent state'" and gs = "[]"] by auto
  from handle_get [OF assms(6) frame req refl assms(7) state_def adv this, of peer] rem
  show ?thesis by (auto simp: set_get_def)
qed

text \<open>The moves of a worker.\<close>

lemma step_worker:
  assumes "worker_step env w t = Some (Inr (state, t'))" and "tr_workers t = us @ w # vs" and "tr_workers t' = tr_workers t"
    and "env_sha (de_storage env) = sha" and "admitted_work sha env w t"
  shows "transport_step sha limits t (t'\<lparr>tr_workers := us @ state # vs\<rparr>)"
proof -
  have "move_worker env (length us) t = Some (Inr (t'\<lparr>tr_workers := us @ state # vs\<rparr>))"
    using assms(1-3) by (simp add: move_worker_def)
  then show ?thesis
    using assms(2,4,5) work [of "length us" t env sha "t'\<lparr>tr_workers := us @ state # vs\<rparr>" limits] by simp
qed

text \<open>Idle workers take the requests of an open connection from the queue.\<close>

lemma workers_take:
  fixes env :: dispatch_env
  assumes "\<not> tr_stopping t" and "env_sha (de_storage env) = sha"
    and "\<forall>task\<in>set tasks. \<not> ta_is_get_continue task \<and> find_conn (ta_conn_id task) t \<noteq> None"
    and "tr_workers t = map Found done @ replicate (length tasks) Idle" and "tr_queue t = tasks"
  shows "transport_run sha limits t (t\<lparr>tr_workers := map Found (done @ tasks), tr_queue := []\<rparr>)"
  using assms(1,3-)
proof (induction tasks arbitrary: t "done")
  case Nil
  then have "t\<lparr>tr_workers := map Found (done @ []), tr_queue := []\<rparr> = t" by (cases t) simp
  then show ?case by (simp add: started)
next
  case (Cons task tasks)
  let ?idle = "replicate (length tasks) Idle"
  let ?t0 = "t\<lparr>tr_workers := map Found done @ Asking # ?idle\<rparr>"
  let ?t1 = "?t0\<lparr>tr_queue := tasks, tr_workers := map Found done @ Popped task # ?idle\<rparr>"
  let ?t2 = "?t1\<lparr>tr_workers := map Found done @ Found task # ?idle\<rparr>"
  have s0: "transport_step sha limits t ?t0"
    using step_worker [of env Idle t Asking t "map Found done" ?idle sha limits] Cons.prems assms(2) by simp
  have s1: "transport_step sha limits ?t0 ?t1"
    using step_worker [of env Asking ?t0 "Popped task" "?t0\<lparr>tr_queue := tasks\<rparr>" "map Found done" ?idle sha limits] Cons.prems assms(2)
    by simp
  have f: "find_conn i ?t1 = find_conn i t" for i by (simp add: find_conn_def)
  have s2: "transport_step sha limits ?t1 ?t2"
    using step_worker [of env "Popped task" ?t1 "Found task" ?t1 "map Found done" ?idle sha limits] Cons.prems(2) assms(2) f
    by simp
  have "transport_run sha limits ?t2 (?t2\<lparr>tr_workers := map Found ((done @ [task]) @ tasks), tr_queue := []\<rparr>)"
    by (rule Cons.IH) (use Cons.prems f in \<open>simp_all add: find_conn_def\<close>)
  then have "transport_run sha limits t (?t2\<lparr>tr_workers := map Found ((done @ [task]) @ tasks), tr_queue := []\<rparr>)"
    using run_trans moved [OF moved [OF moved [OF started s0] s1] s2] by blast
  then show ?case by simp
qed

text \<open>
  The workers start their downloads one after the other; each then waits, as the queue is full.
\<close>

lemma workers_jam:
  fixes env :: dispatch_env
  assumes "env_sha (de_storage env) = sha" and "sha_ok sha" and "reads_ok (env_io (de_storage env))"
    and "granted (de_alloc env)"
    and "\<forall>task\<in>set tasks. ta_conn_id task = conn_id \<and>
       big_get env (ds_storage (tr_dispatcher t)) (frame_of_task (de_alloc env) task)"
    and "storage_inv sha (ds_storage (tr_dispatcher t))"
    and "tr_clients t conn_id = Some client" and "cs_authenticated client"
    and "\<forall>num \<ge> ds_get_seq (tr_dispatcher t). ds_gets (tr_dispatcher t) (get_key conn_id num) = None"
    and "unat (ds_get_seq (tr_dispatcher t)) + length tasks < 2 ^ 64"
    and "tr_workers t = ws @ map Found tasks"
  shows "\<exists>ws' d. length ws' = length tasks \<and> (\<forall>w\<in>set ws'. continuing w) \<and>
     transport_run sha limits t (t\<lparr>tr_workers := ws @ ws', tr_dispatcher := d\<rparr>)"
  using assms(5-)
proof (induction tasks arbitrary: t ws)
  case Nil
  have "t\<lparr>tr_workers := ws @ [], tr_dispatcher := tr_dispatcher t\<rparr> = t" using Nil.prems(7) by simp
  then show ?case
    by - (rule exI [of _ "[]"], rule exI [of _ "tr_dispatcher t"], simp add: started)
next
  case (Cons task tasks)
  let ?d = "tr_dispatcher t" and ?env = "with_hub t env" and ?frame = "frame_of_task (de_alloc env) task"
  have same: "de_alloc ?env = de_alloc env" "de_storage ?env = de_storage env" by (simp_all add: with_hub_def)
  have big: "big_get ?env (ds_storage ?d) ?frame" using Cons.prems(1) by (simp add: big_get_def)
  have free: "ds_gets ?d (get_key conn_id (ds_get_seq ?d)) = None" using Cons.prems(5) by simp
  obtain res d where h: "handle ?env conn_id (ta_peer task) ?frame client ?d = (Inr res, client, d)"
    and more: "hr_has_more res" and d: "ds_storage d = ds_storage ?d" "ds_get_seq d = ds_get_seq ?d + 1"
      "\<And>key. key \<noteq> get_key conn_id (ds_get_seq ?d) \<Longrightarrow> ds_gets d key = ds_gets ?d key"
    using big_get_continues [OF big Cons.prems(2) assms(2) _ _ Cons.prems(4) free, of "ta_peer task"] assms(3,4) same by auto
  let ?t = "t\<lparr>tr_dispatcher := d\<rparr>"
  have id: "ta_conn_id task = conn_id" using Cons.prems(1) by simp
  have triv: "(tr_clients t)(conn_id \<mapsto> client) = tr_clients t" using Cons.prems(3) by (simp add: fun_upd_idem)
  have "run_request env task t = Inr (Continuing task res, ?t)"
    using h more Cons.prems(3) triv by (simp add: run_request_def id after_handler_def)
  then have "worker_step env (Found task) t = Some (Inr (Continuing task res, ?t))" by simp
  moreover have "admitted_work sha env (Found task) t"
  proof -
    have "frame_type ?frame = msg_value FR_MSG_GET_ARTIFACT" using big by (simp add: big_get_def)
    then show ?thesis by (simp add: admitted_frame_def)
  qed
  ultimately have one: "transport_step sha limits t (?t\<lparr>tr_workers := ws @ Continuing task res # map Found tasks\<rparr>)"
    using step_worker [of env "Found task" t "Continuing task res" ?t ws "map Found tasks" sha limits] assms(1) Cons.prems(7) by simp
  let ?t1 = "?t\<lparr>tr_workers := (ws @ [Continuing task res]) @ map Found tasks\<rparr>"
  have seq: "unat (ds_get_seq d) = Suc (unat (ds_get_seq ?d))"
    using Cons.prems(6) d(2) by (simp add: unat_word_ariths)
  have later: "\<forall>num \<ge> ds_get_seq d. ds_gets d (get_key conn_id num) = None"
  proof (intro allI impI)
    fix num assume "num \<ge> ds_get_seq d"
    then have "num > ds_get_seq ?d" using seq by (simp add: word_le_nat_alt word_less_nat_alt)
    then show "ds_gets d (get_key conn_id num) = None"
      using d(3) [of "get_key conn_id num"] get_key_inj [of conn_id num] Cons.prems(5) by auto
  qed
  obtain ws' d' where "length ws' = length tasks" "\<forall>w\<in>set ws'. continuing w"
    "transport_run sha limits ?t1 (?t1\<lparr>tr_workers := (ws @ [Continuing task res]) @ ws', tr_dispatcher := d'\<rparr>)"
    using Cons.IH [of ?t1 "ws @ [Continuing task res]"] Cons.prems d(1) seq later by auto
  moreover have "transport_run sha limits t ?t1" using one moved [OF started] by simp
  ultimately show ?case
    by - (rule exI [of _ "Continuing task res # ws'"], rule exI [of _ d'],
        auto simp: continuing_def intro: run_trans)
qed

lemma find_fd_set_conn:
  assumes "find (\<lambda>c. cn_fd c = fd) cs = Some conn" and "distinct (map cn_id cs)"
    and "cn_id conn' = cn_id conn" and "cn_fd conn' = cn_fd conn"
  shows "find (\<lambda>c. cn_fd c = fd) (map (\<lambda>c. if cn_id c = cn_id conn' then conn' else c) cs) = Some conn'"
  using assms
proof (induction cs)
  case (Cons c cs)
  show ?case
  proof (cases "cn_fd c = fd")
    case True
    then show ?thesis using Cons.prems by simp
  next
    case False
    then have f: "find (\<lambda>c. cn_fd c = fd) cs = Some conn" using Cons.prems(1) by simp
    then have "conn \<in> set cs" by (auto simp: find_Some_iff)
    then have "cn_id c \<noteq> cn_id conn'" using Cons.prems(2,3) by auto
    then show ?thesis using False Cons.IH [OF f] Cons.prems by simp
  qed
qed simp

text \<open>One event of a connection that sends whole frames, as a step.\<close>

lemma send_frames:
  assumes "server_ok limits n t" and "\<not> tr_stopping t" and "find (\<lambda>c. cn_fd c = fd) (tr_connections t) = Some conn"
    and "cn_id conn \<noteq> 0" and "\<not> cn_close_after_flush conn" and "granted alloc"
    and "parser_inv (cn_parser conn)" and "pending (cn_parser conn) = []"
    and "length (buf_bytes (cn_outbox conn)) + 2 ^ 24 * length gs \<le> 2 ^ 62"
    and "framed gs bs" and "length (tr_queue t) + length gs \<le> queue_capacity"
  shows "\<exists>conn'. let t' = set_conn conn' (t\<lparr>tr_queue := tr_queue t @ map (task_of conn) gs\<rparr>) in
     transport_step sha limits t t' \<and> find (\<lambda>c. cn_fd c = fd) (tr_connections t') = Some conn' \<and>
     cn_id conn' = cn_id conn \<and> \<not> cn_close_after_flush conn' \<and> parser_inv (cn_parser conn') \<and>
     pending (cn_parser conn') = [] \<and> find_conn (cn_id conn) t' = Some conn' \<and>
     length (buf_bytes (cn_outbox conn')) \<le> length (buf_bytes (cn_outbox conn)) + 2 ^ 24 * length gs"
proof -
  define ev where "ev = \<lparr>ev_fd = fd, ev_readable = True, ev_writable = False, ev_reads = map Bytes [bs], ev_writes = []\<rparr>"
  have "stream gs (pending (cn_parser conn) @ concat [bs]) []" using stream_framed [OF assms(10)] assms(8) by simp
  moreover have "find (\<lambda>c. cn_fd c = ev_fd ev) (tr_connections t) = Some conn" using assms(3) by (simp add: ev_def)
  ultimately obtain conn' queue' where
    e: "on_conn_event alloc 0 ev t = Inr (set_conn conn' (t\<lparr>tr_queue := queue'\<rparr>))"
    and tk: "takes_in (tr_stopping t) (conn\<lparr>cn_last_active := 0\<rparr>) (tr_queue t) gs [] conn' queue'"
    and id: "cn_id conn' = cn_id conn" and f: "find_conn (cn_id conn) (set_conn conn' (t\<lparr>tr_queue := queue'\<rparr>)) = Some conn'"
    using event_stream [of ev t conn limits n "[bs]" alloc gs "[]" 0] assms by (auto simp: ev_def)
  have same: "conn' = conn\<lparr>cn_last_active := 0, cn_parser := cn_parser conn', cn_outbox := cn_outbox conn'\<rparr>"
    using tk by (simp add: takes_in_def)
  have c: "cn_fd conn' = cn_fd conn" "\<not> cn_close_after_flush conn'" using assms(5) by (subst same, simp)+
  have q: "queue' = tr_queue t @ map (task_of conn) gs"
    using tk assms(2,11) by (auto simp: takes_in_def room_left_def)
  have "distinct (map cn_id (tr_connections t))" using assms(1) by (simp add: server_ok_def strict_sorted_iff)
  from find_fd_set_conn [OF assms(3) this id c(1)]
  have "find (\<lambda>c. cn_fd c = fd) (tr_connections (set_conn conn' (t\<lparr>tr_queue := queue'\<rparr>))) = Some conn'"
    by (simp add: set_conn_def)
  moreover have "transport_step sha limits t (set_conn conn' (t\<lparr>tr_queue := queue'\<rparr>))" by (rule event [OF assms(2) e])
  ultimately show ?thesis using tk id f c(2) q by (intro exI [of _ conn']) (simp add: takes_in_def Let_def)
qed

text \<open>A connection sends as many requests as there are idle workers, which take them all.\<close>

lemma requests_taken:
  fixes env :: dispatch_env
  assumes "server_ok limits n t" and "\<not> tr_stopping t" and "tr_queue t = []" and "tr_workers t = replicate n Idle"
    and "n \<le> queue_capacity"
    and "find (\<lambda>c. cn_fd c = fd) (tr_connections t) = Some conn" and "cn_id conn \<noteq> 0" and "\<not> cn_close_after_flush conn"
    and "parser_inv (cn_parser conn)" and "pending (cn_parser conn) = []" and "length (buf_bytes (cn_outbox conn)) \<le> 2 ^ 61"
    and "env_sha (de_storage env) = sha" and "granted (de_alloc env)"
    and "framed gs bs" and "length bs \<le> 65536" and "length gs = n"
  shows "\<exists>conn1. let t' = (set_conn conn1 t)\<lparr>tr_workers := map Found (map (task_of conn) gs)\<rparr> in
     transport_run sha limits t t' \<and>
     find (\<lambda>c. cn_fd c = fd) (tr_connections t') = Some conn1 \<and> cn_id conn1 = cn_id conn \<and> \<not> cn_close_after_flush conn1 \<and>
     parser_inv (cn_parser conn1) \<and> pending (cn_parser conn1) = [] \<and>
     length (buf_bytes (cn_outbox conn1)) \<le> length (buf_bytes (cn_outbox conn)) + 2 ^ 24 * n"
proof -
  let ?tasks = "map (task_of conn) gs"
  have out: "length (buf_bytes (cn_outbox conn)) + 2 ^ 24 * length gs \<le> 2 ^ 62"
    using assms(5,11,16) by (simp add: queue_capacity_def)
  obtain conn1 where
    s1: "transport_step sha limits t (set_conn conn1 (t\<lparr>tr_queue := ?tasks\<rparr>))"
    and c1: "find (\<lambda>c. cn_fd c = fd) (tr_connections (set_conn conn1 (t\<lparr>tr_queue := ?tasks\<rparr>))) = Some conn1"
      "cn_id conn1 = cn_id conn" "\<not> cn_close_after_flush conn1" "parser_inv (cn_parser conn1)" "pending (cn_parser conn1) = []"
      "find_conn (cn_id conn) (set_conn conn1 (t\<lparr>tr_queue := ?tasks\<rparr>)) = Some conn1"
      "length (buf_bytes (cn_outbox conn1)) \<le> length (buf_bytes (cn_outbox conn)) + 2 ^ 24 * length gs"
    using send_frames [OF assms(1,2,6-8,13,9,10) out assms(14), of sha] assms(3,5,16) by (auto simp: Let_def)
  let ?t1 = "set_conn conn1 (t\<lparr>tr_queue := ?tasks\<rparr>)"
  have take: "transport_run sha limits ?t1 (?t1\<lparr>tr_workers := map Found ([] @ ?tasks), tr_queue := []\<rparr>)"
    by (rule workers_take [OF _ assms(12)])
      (use assms(2,4,16) c1(6) in \<open>simp_all add: task_of_def\<close>)
  have same: "?t1\<lparr>tr_workers := map Found ?tasks, tr_queue := []\<rparr> = (set_conn conn1 t)\<lparr>tr_workers := map Found ?tasks\<rparr>"
    using assms(3) by (cases t) (simp add: set_conn_def)
  have "transport_run sha limits t ((set_conn conn1 t)\<lparr>tr_workers := map Found ?tasks\<rparr>)"
    using run_trans [OF take moved [OF started s1]] unfolding same [symmetric] by simp
  then show ?thesis using c1 assms(16) unfolding Let_def by (intro exI [of _ conn1]) (simp add: set_conn_def)
qed

text \<open>C12: One client can stop the server. Let \<open>n\<close> workers be idle and the queue be empty. An
  authenticated client of any role that asks for \<open>n\<close> downloads of more than one slice and then
  sends 256 further requests, of whatever kind, can bring the server into the jam from which it
  never recovers: every worker has taken one of the downloads when the further requests arrive.\<close>

theorem clients_jam_server:
  assumes "server_ok limits n t" and "\<not> tr_stopping t" and "tr_queue t = []" and "tr_workers t = replicate n Idle"
    and "0 < n" and "n \<le> queue_capacity"
    and "find (\<lambda>c. cn_fd c = fd) (tr_connections t) = Some conn" and "cn_id conn \<noteq> 0" and "\<not> cn_close_after_flush conn"
    and "parser_inv (cn_parser conn)" and "pending (cn_parser conn) = []" and "length (buf_bytes (cn_outbox conn)) \<le> 2 ^ 61"
    and "tr_clients t (cn_id conn) = Some client" and "cs_authenticated client"
    and "storage_inv sha (ds_storage (tr_dispatcher t))" and "sha_ok sha"
    and "env_sha (de_storage env) = sha" and "reads_ok (env_io (de_storage env))" and "granted (de_alloc env)"
    and "\<forall>num \<ge> ds_get_seq (tr_dispatcher t). ds_gets (tr_dispatcher t) (get_key (cn_id conn) num) = None"
    and "unat (ds_get_seq (tr_dispatcher t)) + n < 2 ^ 64"
    and "framed downloads bs" and "length bs \<le> 65536" and "length downloads = n"
    and "\<forall>g\<in>set downloads. big_get env (ds_storage (tr_dispatcher t)) g"
    and "framed others bs'" and "length bs' \<le> 65536" and "length others = queue_capacity"
  shows "\<exists>t'. transport_run sha limits t t' \<and> jammed t' \<and> \<not> tr_stopping t'"
proof -
  let ?tasks = "map (task_of conn) downloads"
  obtain conn1 where
    r2: "transport_run sha limits t ((set_conn conn1 t)\<lparr>tr_workers := map Found ?tasks\<rparr>)"
    and c1: "find (\<lambda>c. cn_fd c = fd) (tr_connections (set_conn conn1 t)) = Some conn1"
      "cn_id conn1 = cn_id conn" "\<not> cn_close_after_flush conn1" "parser_inv (cn_parser conn1)" "pending (cn_parser conn1) = []"
      "length (buf_bytes (cn_outbox conn1)) \<le> length (buf_bytes (cn_outbox conn)) + 2 ^ 24 * n"
    using requests_taken [OF assms(1-4,6-12,17,19,22-24)] by (auto simp: Let_def)
  let ?t2 = "(set_conn conn1 t)\<lparr>tr_workers := map Found ?tasks\<rparr>"
  have ok2: "server_ok limits n ?t2" by (rule bounded.kept_run [OF r2 assms(1)])
  have out2: "length (buf_bytes (cn_outbox conn1)) + 2 ^ 24 * length others \<le> 2 ^ 62"
    using c1(6) assms(6,12,28) by (simp add: queue_capacity_def)
  have "\<exists>conn'. let t' = set_conn conn' (?t2\<lparr>tr_queue := tr_queue ?t2 @ map (task_of conn1) others\<rparr>) in
     transport_step sha limits ?t2 t'"
    using send_frames [OF ok2 _ _ _ c1(3) assms(19) c1(4,5) out2 assms(26), of fd sha] assms(2,3,8,28) c1(1,2)
    unfolding Let_def by auto
  then obtain conn2 where s3: "transport_step sha limits ?t2 (set_conn conn2 (?t2\<lparr>tr_queue := map (task_of conn1) others\<rparr>))"
    using assms(3) by (auto simp: Let_def)
  let ?t3 = "set_conn conn2 (?t2\<lparr>tr_queue := map (task_of conn1) others\<rparr>)"
  have d3: "tr_dispatcher ?t3 = tr_dispatcher t" "tr_clients ?t3 = tr_clients t" by (simp_all add: set_conn_def)
  have big: "\<forall>task\<in>set ?tasks. ta_conn_id task = cn_id conn \<and>
      big_get env (ds_storage (tr_dispatcher ?t3)) (frame_of_task (de_alloc env) task)"
  proof
    fix task assume "task \<in> set ?tasks"
    then obtain g where g: "g \<in> set downloads" "task = task_of conn g" by auto
    obtain b k where "spec_parse b = Parsed g k" using framed_parsed [OF assms(22) g(1)] by auto
    from frame_of_task_of [OF this assms(19)] g assms(25) d3(1)
    show "ta_conn_id task = cn_id conn \<and> big_get env (ds_storage (tr_dispatcher ?t3)) (frame_of_task (de_alloc env) task)"
      by (simp add: task_of_def)
  qed
  obtain ws d where ws: "length ws = length ?tasks" "\<forall>w\<in>set ws. continuing w"
    "transport_run sha limits ?t3 (?t3\<lparr>tr_workers := [] @ ws, tr_dispatcher := d\<rparr>)"
    using workers_jam [OF assms(17,16,18,19) big, of client "[]" limits] assms(13,14,15,20,21,24) d3 by auto
  let ?t4 = "?t3\<lparr>tr_workers := ws, tr_dispatcher := d\<rparr>"
  have "transport_run sha limits t ?t4"
    using run_trans [OF ws(3) moved [OF r2 s3]] by simp
  moreover have "jammed ?t4" using ws(1,2) assms(5,24,28) by (auto simp: jammed_def)
  moreover have "\<not> tr_stopping ?t4" using assms(2) by simp
  ultimately show ?thesis by blast
qed

end
