(* ===== verification/ServerProps.thy ===== *)
theory ServerProps
  imports ServerJam
begin

text \<open>
  The server as a whole: it is a service, its state is bounded, a request travels from the bytes of
  a connection to the reply in its outbox, and what happens to downloads that fail and to idle
  connections.
\<close>

section \<open>Refinement and bounds\<close>

lemma serves_consistently:
  assumes "transport_run sha limits (start_server n hub d) t"
    and "service_run sha \<lparr>sv_dispatcher = d, sv_clients = Map.empty\<rparr>" and "sha_ok sha"
  shows "service_run sha (service_of t) \<and> service_inv sha (ds_storage (tr_dispatcher t)) \<and>
     (\<forall>conn_id client. tr_clients t conn_id = Some client \<longrightarrow> honest client (ds_storage (tr_dispatcher t)))"
proof -
  have "serves sha (start_server n hub d)"
    using assms(2) by (simp add: serves_def service_of_def start_server_def)
  then have run: "service_run sha (service_of t)"
    using served.kept_run [OF assms(1)] by (simp add: serves_def)
  from service_run_ok [OF this assms(3)] run show ?thesis by (simp add: service_ok_def service_of_def)
qed


text \<open>C10: The server is bounded. In every state it reaches the queue holds at most 256 tasks, at
  most 128 completions wait unless the server is being stopped, there are never more connections
  than configured, the status hub counts them exactly, their numbers are distinct, and the parser of
  every connection holds at most twice the payload limit, whatever the clients send and whatever
  memory the allocator grants.\<close>

theorem server_bounded:
  assumes "transport_run sha limits (start_server n hub d) t" and "0 \<le> lim_max_connections limits"
  shows "length (tr_queue t) \<le> 256 \<and> (\<not> tr_stopping t \<longrightarrow> length (tr_done t) \<le> 128) \<and>
     length (tr_workers t) = n \<and> int (length (tr_connections t)) \<le> lim_max_connections limits \<and>
     distinct (map cn_id (tr_connections t)) \<and>
     (\<not> tr_stopping t \<longrightarrow> (\<forall>count start. tr_hub t = Some (count, start) \<longrightarrow> count = of_nat (length (tr_connections t)))) \<and>
     (\<forall>c\<in>set (tr_connections t). buf_wf (cn_outbox c) \<and>
        (parser_inv (cn_parser c) \<and> unat (buf_cap (payload_buf (cn_parser c))) \<le> 2 * FR_FRAME_MAX_PAYLOAD \<or>
         parser_dead (cn_parser c)))"
proof -
  have ok: "server_ok limits n t" by (rule bounded.kept_run [OF assms(1) server_ok_start [OF assms(2)]])
  then have "distinct (map cn_id (tr_connections t))" by (simp add: server_ok_def strict_sorted_iff)
  then show ?thesis
    using ok unfolding server_ok_def conn_ok_def parser_inv_def cap_ok_def queue_capacity_def kDoneQueueHighWater_def by blast
qed

section \<open>A request and its reply\<close>

text \<open>A worker takes the only task in the queue, has it handled and hands over the completion.\<close>

lemma worker_serves:
  assumes "\<not> tr_stopping t" and "tr_queue t = [task]" and "tr_done t = []" and "tr_workers t = us @ Idle # vs"
    and "\<not> ta_is_get_continue task" and "find_conn (ta_conn_id task) t \<noteq> None"
    and "tr_clients t (ta_conn_id task) = Some client" and "env_sha (de_storage env) = sha"
    and "frame_of_task (de_alloc env) task = g" and "admitted_frame sha g (ds_storage (tr_dispatcher t))"
    and "handle (with_hub t env) (ta_conn_id task) (ta_peer task) g client (tr_dispatcher t) = (Inr res, client', d')"
    and "\<not> hr_has_more res"
  shows "transport_run sha limits t (t\<lparr>tr_queue := [], tr_done := [completion_of task res],
     tr_clients := (tr_clients t)(ta_conn_id task \<mapsto> client'), tr_dispatcher := d'\<rparr>)"
proof -
  let ?at = "\<lambda>w u. u\<lparr>tr_workers := us @ w # vs\<rparr>"
  let ?c = "completion_of task res"
  let ?t1 = "?at Asking t"
  have s1: "transport_step sha limits t ?t1"
    using step_worker [of env Idle t Asking t us vs sha limits] assms(1,4,8) by simp
  let ?t2 = "?at (Popped task) (?t1\<lparr>tr_queue := []\<rparr>)"
  have s2: "transport_step sha limits ?t1 ?t2"
    using step_worker [of env Asking ?t1 "Popped task" "?t1\<lparr>tr_queue := []\<rparr>" us vs sha limits] assms(2,8) by simp
  let ?t3 = "?at (Found task) ?t2"
  have f: "find_conn i ?t2 = find_conn i t" for i by (simp add: find_conn_def)
  have s3: "transport_step sha limits ?t2 ?t3"
    using step_worker [of env "Popped task" ?t2 "Found task" ?t2 us vs sha limits] assms(5,6,8) f by simp
  let ?u = "?t3\<lparr>tr_clients := (tr_clients t)(ta_conn_id task \<mapsto> client'), tr_dispatcher := d'\<rparr>"
  have "with_hub ?t3 env = with_hub t env" by (simp add: with_hub_def)
  then have "run_request env task ?t3 = Inr (Completing ?c, ?u)"
    using assms(7,9,11,12) by (simp add: run_request_def after_handler_def)
  then have s4: "transport_step sha limits ?t3 (?at (Completing ?c) ?u)"
    using step_worker [of env "Found task" ?t3 "Completing ?c" ?u us vs sha limits] assms(8,9,10) by simp
  let ?t4 = "?at (Completing ?c) ?u"
  let ?t5 = "?at Idle (?t4\<lparr>tr_done := [?c]\<rparr>)"
  have s5: "transport_step sha limits ?t4 ?t5"
    using step_worker [of env "Completing ?c" ?t4 Idle "?t4\<lparr>tr_done := [?c]\<rparr>" us vs sha limits] assms(1,3,8)
    by (simp add: kDoneQueueHighWater_def)
  have "?t5 = t\<lparr>tr_queue := [], tr_done := [?c], tr_clients := (tr_clients t)(ta_conn_id task \<mapsto> client'), tr_dispatcher := d'\<rparr>"
    using assms(4) by (cases t) simp
  with moved [OF moved [OF moved [OF moved [OF moved [OF started s1] s2] s3] s4] s5] show ?thesis by simp
qed

text \<open>The I/O thread puts the only completion into the outbox.\<close>

lemma drain_delivers:
  assumes "tr_done t = [c]" and "find_conn (co_conn_id c) t = Some conn" and "\<not> cn_close_after_flush conn"
    and "granted alloc" and "buf_wf (cn_outbox conn)" and "buf_wf (co_bytes c)"
    and "length (buf_bytes (cn_outbox conn)) \<le> 2 ^ 62" and "length (buf_bytes (co_bytes c)) \<le> 2 ^ 62"
  shows "\<exists>conn'. drain_completions alloc t = set_conn conn' (t\<lparr>tr_done := []\<rparr>) \<and> cn_id conn' = cn_id conn \<and>
     buf_bytes (cn_outbox conn') = buf_bytes (cn_outbox conn) @ buf_bytes (co_bytes c) \<and>
     cn_close_after_flush conn' = co_close_conn c \<and>
     find_conn (co_conn_id c) (drain_completions alloc t) = Some conn'"
proof -
  let ?out = "append_outbox alloc (co_bytes c) conn"
  define conn' where "conn' = (if co_close_conn c then ?out\<lparr>cn_close_after_flush := True\<rparr> else ?out)"
  have f: "find_conn (co_conn_id c) (t\<lparr>tr_done := []\<rparr>) = Some conn" using assms(2) by (simp add: find_conn_def)
  have id: "cn_id conn' = co_conn_id c" "cn_id conn = co_conn_id c" using find_conn_Some [OF assms(2)] by (auto simp: conn'_def)
  have d: "drain_completions alloc t = set_conn conn' (t\<lparr>tr_done := []\<rparr>)"
    using assms(1,3) f by (simp add: drain_completions_def deliver_def Let_def conn'_def)
  have "buf_bytes (cn_outbox conn') = buf_bytes (cn_outbox conn) @ buf_bytes (co_bytes c)"
    using append_bytes_granted [OF assms(4-6)] assms(7,8) by (simp add: append_outbox_def conn'_def)
  moreover have "cn_close_after_flush conn' = co_close_conn c" using assms(3) by (simp add: conn'_def)
  moreover have "find_conn (co_conn_id c) (drain_completions alloc t) = Some conn'"
    using find_set_conn [of conn' "t\<lparr>tr_done := []\<rparr>"] f unfolding d id by simp
  ultimately show ?thesis using d id by auto
qed

text \<open>C9: A request is served. A client sends a request, in whatever pieces, and a worker is idle
  while nothing else is queued: then the threads can take the request from the bytes of the
  connection through the queue to \<open>handle\<close> and put exactly the bytes of its result into the
  outbox of this connection, behind what was there, with the connection to be closed afterwards if
  and only if the result says so.\<close>

theorem request_served:
  assumes "server_ok limits n t" and "\<not> tr_stopping t" and "tr_queue t = []" and "tr_done t = []"
    and "tr_workers t = us @ Idle # vs"
    and "find (\<lambda>c. cn_fd c = fd) (tr_connections t) = Some conn" and "cn_id conn \<noteq> 0" and "\<not> cn_close_after_flush conn"
    and "parser_inv (cn_parser conn)" and "length (buf_bytes (cn_outbox conn)) \<le> 2 ^ 61"
    and "stream [g] (pending (cn_parser conn) @ concat chunks) []" and "\<forall>c\<in>set (butlast chunks). length c = 65536"
    and "chunks \<noteq> []"
    and "tr_clients t (cn_id conn) = Some client"
    and "env_sha (de_storage env) = sha" and "granted (de_alloc env)"
    and "admitted_frame sha g (ds_storage (tr_dispatcher t))"
    and "handle (with_hub t env) (cn_id conn) (cn_peer conn) g client (tr_dispatcher t) = (Inr res, client', d')"
    and "\<not> hr_has_more res" and "buf_wf (hr_out res)" and "length (buf_bytes (hr_out res)) \<le> 2 ^ 61"
  shows "\<exists>t' conn'. transport_run sha limits t t' \<and> find_conn (cn_id conn) t' = Some conn' \<and>
     buf_bytes (cn_outbox conn') = buf_bytes (cn_outbox conn) @ buf_bytes (hr_out res) \<and>
     cn_close_after_flush conn' = hr_close_connection res \<and>
     tr_dispatcher t' = d' \<and> tr_clients t' = (tr_clients t)(cn_id conn \<mapsto> client') \<and> tr_queue t' = [] \<and> tr_done t' = []"
proof -
  let ?id = "cn_id conn" and ?task = "task_of conn g"
  define ev where "ev = \<lparr>ev_fd = fd, ev_readable = True, ev_writable = False, ev_reads = map Bytes chunks, ev_writes = []\<rparr>"
  obtain conn1 queue where e: "on_conn_event (de_alloc env) 0 ev t = Inr (set_conn conn1 (t\<lparr>tr_queue := queue\<rparr>))"
    and tk: "takes_in (tr_stopping t) (conn\<lparr>cn_last_active := 0\<rparr>) (tr_queue t) [g] [] conn1 queue"
    and id: "cn_id conn1 = ?id" and f1: "find_conn ?id (set_conn conn1 (t\<lparr>tr_queue := queue\<rparr>)) = Some conn1"
    using event_stream [of ev t conn limits n chunks "de_alloc env" "[g]" "[]" 0] assms(1,6-13,16)
    by (auto simp: ev_def)
  have same: "conn1 = conn\<lparr>cn_last_active := 0, cn_parser := cn_parser conn1, cn_outbox := cn_outbox conn1\<rparr>"
    using tk by (simp add: takes_in_def)
  have open1: "\<not> cn_close_after_flush conn1" using assms(8) by (subst same) simp
  have q: "queue = [?task]" using tk assms(2,3) by (simp add: takes_in_def room_left_def queue_capacity_def)
  have out1: "buf_bytes (cn_outbox conn1) = buf_bytes (cn_outbox conn)" "buf_wf (cn_outbox conn1)"
    using tk assms(2,3) by (auto simp: takes_in_def room_left_def queue_capacity_def busy_answers_def)
  obtain k where "spec_parse (pending (cn_parser conn) @ concat chunks) = Parsed g k"
    using assms(11) by (rule stream_cons)
  then have frame: "frame_of_task (de_alloc env) ?task = g" by (rule frame_of_task_of [OF _ assms(16)])
  let ?t1 = "set_conn conn1 (t\<lparr>tr_queue := [?task]\<rparr>)" and ?c = "completion_of ?task res"
  have hub: "with_hub ?t1 env = with_hub t env" by (simp add: with_hub_def set_conn_def)
  let ?t5 = "?t1\<lparr>tr_queue := [], tr_done := [?c], tr_clients := (tr_clients ?t1)(ta_conn_id ?task \<mapsto> client'), tr_dispatcher := d'\<rparr>"
  have run: "transport_run sha limits ?t1 ?t5"
    by (rule worker_serves [OF _ _ _ _ _ _ _ assms(15) frame])
      (use assms(2,4,5,14,17-19) f1 q hub in \<open>simp_all add: task_of_def set_conn_def\<close>)
  have f5: "find_conn ?id ?t5 = Some conn1" using f1 q by (simp add: find_conn_def)
  obtain conn' where d: "drain_completions (de_alloc env) ?t5 = set_conn conn' (?t5\<lparr>tr_done := []\<rparr>)"
    "buf_bytes (cn_outbox conn') = buf_bytes (cn_outbox conn1) @ buf_bytes (hr_out res)"
    "cn_close_after_flush conn' = hr_close_connection res"
    "find_conn ?id (drain_completions (de_alloc env) ?t5) = Some conn'"
    using drain_delivers [of ?t5 ?c conn1 "de_alloc env"] f5 open1 assms(10,16,20,21) out1
    by (auto simp: completion_of_def task_of_def)
  have "transport_step sha limits ?t5 (drain_completions (de_alloc env) ?t5)" by (rule drain) (use assms(2) in simp)
  then have "transport_run sha limits t (drain_completions (de_alloc env) ?t5)"
    using run_trans [OF run moved [OF started event [OF assms(2) e, unfolded q]]] by (blast intro: moved)
  then show ?thesis using d out1(1) by (intro exI conjI) (assumption | simp add: set_conn_def task_of_def)+
qed

section \<open>Connections that are idle\<close>

lemma find_conn_filter:
  "find_conn i (t\<lparr>tr_connections := filter P (tr_connections t)\<rparr>) = find (\<lambda>c. cn_id c = i) (filter P (tr_connections t))"
  by (simp add: find_conn_def)

lemma close_connections:
  assumes "set ids \<subseteq> cn_id ` set (tr_connections t)" and "distinct ids"
  shows "tr_connections (fold close_connection ids t) = filter (\<lambda>c. cn_id c \<notin> set ids) (tr_connections t) \<and>
     ds_gets (tr_dispatcher (fold close_connection ids t)) (get_key i num) =
       (if i \<in> set ids then None else ds_gets (tr_dispatcher t) (get_key i num))"
  using assms
proof (induction ids arbitrary: t)
  case (Cons j ids)
  let ?t = "close_connection j t"
  have "find_conn j t \<noteq> None" using Cons.prems(1) by (simp add: find_conn_None)
  then obtain c where c: "find_conn j t = Some c" by blast
  have conns: "tr_connections ?t = filter (\<lambda>c. cn_id c \<noteq> j) (tr_connections t)"
    and disp: "tr_dispatcher ?t = on_connection_closed j (tr_dispatcher t)"
    using c by (simp_all add: close_connection_def count_connections_def Let_def)
  have "set ids \<subseteq> cn_id ` set (tr_connections ?t)"
  proof
    fix k assume k: "k \<in> set ids"
    then obtain c where "c \<in> set (tr_connections t)" "k = cn_id c" using Cons.prems(1) by auto
    then show "k \<in> cn_id ` set (tr_connections ?t)" using k Cons.prems(2) unfolding conns by auto
  qed
  from Cons.IH [OF this] Cons.prems(2)
  have IH: "tr_connections (fold close_connection ids ?t) = filter (\<lambda>c. cn_id c \<notin> set ids) (tr_connections ?t)"
    "ds_gets (tr_dispatcher (fold close_connection ids ?t)) (get_key i num) =
       (if i \<in> set ids then None else ds_gets (tr_dispatcher ?t) (get_key i num))" by simp_all
  have "ds_gets (tr_dispatcher ?t) (get_key i num) = (if i = j then None else ds_gets (tr_dispatcher t) (get_key i num))"
    unfolding disp by (rule gets_close)
  then show ?case unfolding fold_simps comp_def IH conns by (auto intro!: filter_cong)
qed simp

text \<open>Idle connections are closed. A sweep closes exactly the connections from which nothing has
  been read for longer than the timeout, in any state of the server: it drops the states of their
  downloads, keeps those of all others, and leaves the queues and the workers alone.\<close>

theorem sweep_exact:
  fixes now :: int
  assumes "server_ok limits n t"
  defines "expired \<equiv> {cn_id c | c. c \<in> set (tr_connections t) \<and> now - cn_last_active c > lim_request_timeout limits}"
  shows "tr_connections (sweep_idle limits now t) =
       filter (\<lambda>c. now - cn_last_active c \<le> lim_request_timeout limits) (tr_connections t) \<and>
     (\<forall>i num. ds_gets (tr_dispatcher (sweep_idle limits now t)) (get_key i num) =
       (if i \<in> expired then None else ds_gets (tr_dispatcher t) (get_key i num))) \<and>
     tr_queue (sweep_idle limits now t) = tr_queue t \<and> tr_workers (sweep_idle limits now t) = tr_workers t"
proof -
  let ?ids = "map cn_id (filter (\<lambda>c. now - cn_last_active c > lim_request_timeout limits) (tr_connections t))"
  have d: "distinct (map cn_id (tr_connections t))" using assms(1) by (simp add: server_ok_def strict_sorted_iff)
  have e: "set ?ids = expired" unfolding expired_def by auto
  have "distinct ?ids" using d by (rule distinct_map_filter)
  moreover have "set ?ids \<subseteq> cn_id ` set (tr_connections t)" by auto
  ultimately have f: "tr_connections (sweep_idle limits now t) = filter (\<lambda>c. cn_id c \<notin> expired) (tr_connections t)"
    "ds_gets (tr_dispatcher (sweep_idle limits now t)) (get_key i num) =
       (if i \<in> expired then None else ds_gets (tr_dispatcher t) (get_key i num))" for i num
    using close_connections [of ?ids t i num] e unfolding sweep_idle_def by simp_all
  have "filter (\<lambda>c. cn_id c \<notin> expired) (tr_connections t) =
      filter (\<lambda>c. now - cn_last_active c \<le> lim_request_timeout limits) (tr_connections t)"
  proof (rule filter_cong [OF refl])
    fix c assume c: "c \<in> set (tr_connections t)"
    have "cn_id c \<in> expired \<longleftrightarrow> now - cn_last_active c > lim_request_timeout limits"
    proof
      assume "cn_id c \<in> expired"
      then obtain e where "cn_id e = cn_id c" "e \<in> set (tr_connections t)" "now - cn_last_active e > lim_request_timeout limits"
        unfolding expired_def by auto
      moreover from this have "e = c" using distinct_key_eq [OF d _ c] by blast
      ultimately show "now - cn_last_active c > lim_request_timeout limits" by simp
    qed (use c in \<open>auto simp: expired_def\<close>)
    then show "cn_id c \<notin> expired \<longleftrightarrow> now - cn_last_active c \<le> lim_request_timeout limits" by linarith
  qed
  moreover have "tr_queue (fold close_connection ids u) = tr_queue u \<and> tr_workers (fold close_connection ids u) = tr_workers u" for ids u
    by (induction ids arbitrary: u) simp_all
  ultimately show ?thesis using f unfolding sweep_idle_def by simp
qed

section \<open>Downloads that fail on the way\<close>

text \<open>A download that fails after its first slice is not answered. When a continuation throws, the
  server answers with an ERROR frame that carries the request id 1, whatever the id of the
  request was, and keeps the connection open; the state of the download stays, and nothing
  continues it. When the message has more than 512 characters the handler of the exception throws
  itself, and the exception leaves the thread of the worker.\<close>

theorem failed_continuation:
  assumes "task = continuation_of request res"
    and "handle_get_continue (with_hub t env) (ta_get_key task) (tr_dispatcher t) = (Inl (Err code message), d)"
    and "granted (de_alloc env)" and "is_enumerator code"
  shows "d = tr_dispatcher t \<and> ds_gets d (ta_get_key task) \<noteq> None \<and>
     (length (c_str message) \<le> 512 \<longrightarrow>
       (\<exists>c g. worker_step env (Popped task) t = Some (Inr (Completing c, t)) \<and>
          co_conn_id c = ta_conn_id request \<and> \<not> co_close_conn c \<and>
          framed [g] (buf_bytes (co_bytes c)) \<and> error_notice 1 code (c_str message) g)) \<and>
     (length (c_str message) > 512 \<longrightarrow>
       worker_step env (Popped task) t = Some (throw_error FR_E_ARG ''string field exceeds protocol limit''))"
proof -
  have task: "ta_is_get_continue task" "ta_req_id task = 0" "ta_conn_id task = ta_conn_id request"
    unfolding assms(1) by (simp_all add: continuation_of_def)
  have "\<exists>payload. encode_get_artifact_ok (de_alloc env) msg fr_buf_init = Inr payload" for msg
  proof -
    have "emits (encode_get_artifact_ok (de_alloc env) msg) (fr_store_be64 (go_bytes_sent msg) @ [])"
      unfolding encode_get_artifact_ok_def by (intro emit_intros assms(3))
    then show ?thesis unfolding emits_def room_def by (auto dest!: spec [of _ fr_buf_init])
  qed
  then have d: "d = tr_dispatcher t" "ds_gets d (ta_get_key task) \<noteq> None"
    using assms(2) by (auto simp: handle_get_continue_def with_hub_def split: option.splits prod.splits sum.splits if_splits)
      (metis sum.distinct(1))+
  have w: "worker_step env (Popped task) t =
      Some (rbind (caught (de_alloc env) task (Inl (Err code message))) (\<lambda>res. Inr (after_handler task res, t)))"
    using assms(2) task(1) d(1) by (simp add: run_continuation_def del: caught.simps)
  show ?thesis
  proof (cases "length (c_str message) \<le> 512")
    case True
    obtain payload fr out where e: "error_frame (de_alloc env) 0 code (c_str message) fr_buf_init = Inr out"
      "buf_bytes out = fr" "framed [reply_frame FR_MSG_ERROR 1 payload] fr"
      "decode_error_payload (reply_frame FR_MSG_ERROR 1 payload) = Inr \<lparr>ep_code = code, ep_message = c_str message\<rparr>"
      using error_frame_reply [OF assms(3) True buf_wf_init _ assms(4), of 0] by auto
    let ?c = "completion_of task (empty_result\<lparr>hr_out := out\<rparr>)"
    have "worker_step env (Popped task) t = Some (Inr (Completing ?c, t))"
      using w e(1) task(2) by (simp add: after_handler_def empty_result_def)
    moreover have "error_notice 1 code (c_str message) (reply_frame FR_MSG_ERROR 1 payload)"
      using e(4) by (simp add: error_notice_def del: msg_value.simps)
    moreover have "framed [reply_frame FR_MSG_ERROR 1 payload] (buf_bytes (co_bytes ?c))"
      using e(2,3) by (simp add: completion_of_def del: framed.simps)
    moreover have "co_conn_id ?c = ta_conn_id request \<and> \<not> co_close_conn ?c"
      using task(3) by (simp add: completion_of_def empty_result_def)
    ultimately show ?thesis using d True by (intro conjI) (blast | simp)+
  next
    case False
    then have "error_frame (de_alloc env) 0 code (c_str message) fr_buf_init =
        throw_error FR_E_ARG ''string field exceeds protocol limit''"
      using encode_error_long [OF assms(3), of "c_str message" code] by (simp add: error_frame_def throw_error_def)
    then show ?thesis using d False w task(2) by (simp add: throw_error_def)
  qed
qed

end
