(* ===== verification/ServerDemo.thy ===== *)
theory ServerDemo
  imports ServerProps
begin

text \<open>
  A concrete server with one worker and one connection, to which the theorems on the server are
  applied.
\<close>

section \<open>The server\<close>

definition demo_limits :: server_limits where
  "demo_limits = \<lparr>lim_max_connections = 4, lim_request_timeout = 30\<rparr>"

definition demo_conn :: Connection where
  "demo_conn = \<lparr>cn_fd = 7, cn_peer = ''10.0.0.7:1'', cn_id = 1, cn_parser = fr_frame_parser_init,
     cn_outbox = fr_buf_init, cn_last_active = 100, cn_close_after_flush = False\<rparr>"

definition demo_server :: "dispatcher \<Rightarrow> transport" where
  "demo_server d = \<lparr>tr_connections = [demo_conn], tr_clients = [1 \<mapsto> demo_client Reader], tr_next_conn_id = 2,
     tr_queue = [], tr_done = [], tr_workers = [Idle], tr_dispatcher = d, tr_hub = Some (1, 5), tr_stopping = False\<rparr>"

lemma demo_server_ok: "server_ok demo_limits 1 (demo_server d)"
  by (simp add: server_ok_def demo_server_def demo_limits_def demo_conn_def conn_ok_def)

lemma demo_found: "find (\<lambda>c. cn_fd c = 7) (tr_connections (demo_server d)) = Some demo_conn"
  by (simp add: demo_server_def demo_conn_def)

lemma demo_conn_fresh:
  "cn_id demo_conn = 1" "\<not> cn_close_after_flush demo_conn" "parser_inv (cn_parser demo_conn)"
  "pending (cn_parser demo_conn) = []" "buf_bytes (cn_outbox demo_conn) = []"
  unfolding demo_conn_def by (simp, simp, simp, simp add: pending_def fr_frame_parser_init_def, simp)

lemma demo_parts:
  "env_sha (de_storage demo_denv) = demo_sha" "reads_ok (env_io (de_storage demo_denv))" "storage_inv demo_sha (ds_storage demo_dispatcher)"
  using demo_published_inv by (simp_all add: demo_denv_def demo_env_def reads_ok_def quiet_env_def demo_dispatcher_def)

text \<open>The bytes of frames.\<close>

lemma frame_bytes:
  assumes "rid \<noteq> 0" and "length payload \<le> 8388608"
  shows "\<exists>bs. length bs = 20 + length payload \<and> framed [reply_frame type rid payload] bs"
proof -
  have "length payload \<le> FR_FRAME_MAX_PAYLOAD" "length (buf_bytes fr_buf_init) + 20 + length payload \<le> 2 ^ 63"
    using assms(2) by (simp_all add: FR_FRAME_MAX_PAYLOAD_def)
  from put_frame_framed [OF demo_granted assms(1) this(1) _ _ refl buf_wf_init this(2), of "Some payload"]
  show ?thesis by auto
qed

lemma frames_bytes:
  assumes "rid \<noteq> 0" shows "\<exists>bs. length bs = 20 * n \<and> framed (replicate n (reply_frame type rid [])) bs"
proof (induction n)
  case (Suc n)
  then obtain bs where bs: "length bs = 20 * n" "framed (replicate n (reply_frame type rid [])) bs" by blast
  obtain fr where fr: "length fr = 20" "framed [reply_frame type rid []] fr" using frame_bytes [OF assms, of "[]" type] by auto
  from framed_append [OF fr(2) bs(2)] fr(1) bs(1) show ?case
    by (intro exI [of _ "fr @ bs"]) (simp del: framed.simps)
qed simp

lemma demo_ping: obtains bs where "length bs = 20" "framed [reply_frame FR_MSG_PING 7 []] bs"
  using frame_bytes [of 7 "[]" FR_MSG_PING] by auto

section \<open>Requests\<close>

theorem requests_queued_in_order_witness:
  "\<exists>bs t'. length bs = 20 \<and> framed [reply_frame FR_MSG_PING 7 []] bs \<and>
     on_conn_event (\<lambda>k. True) 200 \<lparr>ev_fd = 7, ev_readable = True, ev_writable = False, ev_reads = [Bytes bs], ev_writes = []\<rparr>
       (demo_server demo_dispatcher) = Inr t' \<and>
     tr_queue t' = [task_of demo_conn (reply_frame FR_MSG_PING 7 [])]"
proof -
  obtain bs where bs: "length bs = 20" "framed [reply_frame FR_MSG_PING 7 []] bs" by (rule demo_ping)
  let ?ev = "\<lparr>ev_fd = 7, ev_readable = True, ev_writable = False, ev_reads = [Bytes bs], ev_writes = []\<rparr>"
  have "room_left False [] = 256" by (simp add: room_left_def queue_capacity_def)
  then show ?thesis
    using requests_queued_in_order [of ?ev "demo_server demo_dispatcher" demo_conn demo_limits 1 "[bs]" "\<lambda>k. True"
        "[reply_frame FR_MSG_PING 7 []]" "[]" 200]
      demo_found demo_server_ok demo_conn_fresh stream_framed [OF bs(2)] bs
    by (auto simp: granted_def demo_server_def simp del: framed.simps stream.simps(2))
qed

theorem request_served_witness:
  "\<exists>bs t' conn'. framed [reply_frame FR_MSG_PING 7 []] bs \<and>
     transport_run demo_sha demo_limits (demo_server demo_dispatcher) t' \<and> find_conn 1 t' = Some conn' \<and>
     framed [reply_frame FR_MSG_OK 7 []] (buf_bytes (cn_outbox conn')) \<and> tr_queue t' = []"
proof -
  obtain bs where bs: "length bs = 20" "framed [reply_frame FR_MSG_PING 7 []] bs" by (rule demo_ping)
  let ?t = "demo_server demo_dispatcher" and ?f = "reply_frame FR_MSG_PING 7 []"
  let ?env = "with_hub ?t demo_denv"
  let ?out = "put_frame ?env FR_MSG_OK 7 None 0 fr_buf_init"
  let ?res = "empty_result\<lparr>hr_out := ?out\<rparr>"
  have g: "granted (de_alloc ?env)" using demo_granted by (simp add: with_hub_def)
  obtain fr where fr: "buf_bytes ?out = fr" "length fr = 20" "framed [reply_frame FR_MSG_OK 7 []] fr" "buf_wf ?out"
    using put_frame_framed [OF g, of 7 "[]" None 0 fr_buf_init FR_MSG_OK] by auto
  have "decode_data ?f = Inr \<lparr>dp_data = []\<rparr>" and type: "frame_type ?f = msg_value FR_MSG_PING" by code_simp+
  moreover have "msg_value FR_MSG_PING \<noteq> msg_value FR_MSG_HELLO" "msg_value FR_MSG_PING \<noteq> msg_value FR_MSG_AUTH" by simp_all
  ultimately have h: "handle ?env 1 ''10.0.0.7:1'' ?f (demo_client Reader) demo_dispatcher = (Inr ?res, demo_client Reader, demo_dispatcher)"
    by (simp add: handle_def handle_frame_def op_lift_def ok_empty_def op_modify_def make_ok_def empty_result_def
        Let_def del: msg_value.simps)
  have adm: "admitted_frame demo_sha ?f (ds_storage demo_dispatcher)" by (simp add: admitted_frame_def)
  have "\<exists>t' conn'. transport_run demo_sha demo_limits ?t t' \<and> find_conn (cn_id demo_conn) t' = Some conn' \<and>
     buf_bytes (cn_outbox conn') = buf_bytes (cn_outbox demo_conn) @ buf_bytes (hr_out ?res) \<and>
     cn_close_after_flush conn' = hr_close_connection ?res \<and>
     tr_dispatcher t' = demo_dispatcher \<and> tr_clients t' = (tr_clients ?t)(cn_id demo_conn \<mapsto> demo_client Reader) \<and>
     tr_queue t' = [] \<and> tr_done t' = []"
    by (rule request_served [where fd = 7 and us = "[]" and vs = "[]" and chunks = "[bs]", OF demo_server_ok])
      (use demo_found demo_conn_fresh stream_framed [OF bs(2)] demo_parts(1) demo_granted h adm fr in
        \<open>simp_all add: demo_server_def demo_conn_def empty_result_def del: framed.simps stream.simps(2)\<close>)
  then show ?thesis using fr(1,3) bs(2) demo_conn_fresh by (auto simp: empty_result_def simp del: framed.simps)
qed

section \<open>Refinement and bounds\<close>

definition booted :: transport where
  "booted = start_server 2 (Some 5) (sv_dispatcher initial_service)"

lemma booted_accepts:
  "transport_run demo_sha demo_limits booted (accept_new demo_limits 100 [(7, ''10.0.0.7:1'')] booted)"
  by (rule moved [OF started accept]) (simp add: booted_def start_server_def)


theorem server_bounded_witness:
  "length (tr_queue (accept_new demo_limits 100 [(7, ''10.0.0.7:1'')] booted)) \<le> 256"
  using server_bounded [OF booted_accepts [unfolded booted_def]] unfolding booted_def by (simp add: demo_limits_def)

theorem sweep_exact_witness:
  "tr_connections (sweep_idle demo_limits 131 (demo_server demo_dispatcher)) = [] \<and>
   tr_connections (sweep_idle demo_limits 130 (demo_server demo_dispatcher)) = [demo_conn]"
  using sweep_exact [OF demo_server_ok [of demo_dispatcher], of 131] sweep_exact [OF demo_server_ok [of demo_dispatcher], of 130]
  by (simp add: demo_server_def demo_limits_def demo_conn_def)

section \<open>The jam\<close>

definition demo_big_get :: fr_frame where
  "demo_big_get = reply_frame FR_MSG_GET_ARTIFACT 7
     (enc_str ''libs'' @ enc_str ''zlib'' @ enc_str ''1.0'' @ fr_store_be64 0 @ fr_store_be64 2000000)"

lemma demo_big_get_decodes: "decode_get_artifact_req demo_big_get =
    Inr \<lparr>ga_ref = \<lparr>ref_ns = ''libs'', ref_name = ''zlib'', ref_version = ''1.0''\<rparr>, ga_offset = 0, ga_length = 2000000\<rparr>"
  by code_simp

lemma demo_big: "big_get demo_denv (ds_storage demo_dispatcher) demo_big_get"
proof -
  let ?info = "committed_info demo_info demo_manifest 10"
  have "show_artifact ''libs'' ''zlib'' ''1.0'' (sdb (ds_storage demo_dispatcher)) = Inr ?info"
    using demo_show by (simp add: demo_dispatcher_def)
  moreover have "length (ai_chunks ?info) < 2 ^ 32"
    by (simp add: committed_info_def demo_info_def demo_manifest_def)
  moreover have "frame_type demo_big_get = msg_value FR_MSG_GET_ARTIFACT" "frame_req_id demo_big_get = 7"
    by (simp_all add: demo_big_get_def)
  ultimately show ?thesis unfolding big_get_def demo_big_get_decodes by (simp add: kDataSliceBytes_def)
qed

theorem clients_jam_server_witness:
  "\<exists>t'. transport_run demo_sha demo_limits (demo_server demo_dispatcher) t' \<and> jammed t' \<and> \<not> tr_stopping t'"
proof -
  let ?p = "enc_str ''libs'' @ enc_str ''zlib'' @ enc_str ''1.0'' @ fr_store_be64 0 @ fr_store_be64 2000000"
  have len: "length ?p = 33" by code_simp
  obtain bs where bs: "length bs = 20 + length ?p" "framed [demo_big_get] bs"
    using frame_bytes [of 7 ?p FR_MSG_GET_ARTIFACT] len unfolding demo_big_get_def by auto
  obtain bs' where bs': "length bs' = 20 * 256" "framed (replicate 256 (reply_frame FR_MSG_PING 7 [])) bs'"
    using frames_bytes [of 7 256 FR_MSG_PING] by auto
  show ?thesis
    by (rule clients_jam_server [where fd = 7 and n = 1 and env = demo_denv and conn = demo_conn and client = "demo_client Reader" and bs = bs and bs' = bs'
          and downloads = "[demo_big_get]" and others = "replicate 256 (reply_frame FR_MSG_PING 7 [])", OF demo_server_ok])
      (use demo_found demo_conn_fresh demo_parts demo_sha_ok demo_granted demo_big bs bs' len in
        \<open>simp_all add: demo_server_def demo_client_def queue_capacity_def demo_dispatcher_def del: framed.simps\<close>)
qed

definition jammed_server :: transport where
  "jammed_server = (demo_server demo_dispatcher)\<lparr>
     tr_queue := replicate 256 (task_of demo_conn (reply_frame FR_MSG_PING 7 [])),
     tr_workers := [Continuing (task_of demo_conn demo_big_get) (empty_result\<lparr>hr_has_more := True\<rparr>)]\<rparr>"

theorem jam_is_forever_witness:
  "jammed (sweep_idle demo_limits 500 jammed_server)"
proof -
  have "\<not> tr_stopping jammed_server" by (simp add: jammed_server_def demo_server_def)
  then have run: "transport_run demo_sha demo_limits jammed_server (sweep_idle demo_limits 500 jammed_server)"
    by (intro moved [OF started sweep])
  have j: "jammed jammed_server"
    unfolding jammed_server_def jammed_def by (simp add: continuing_def queue_capacity_def)
  have "tr_stopping (fold close_connection ids t) = tr_stopping t" for ids t by (induction ids arbitrary: t) simp_all
  then have "\<not> tr_stopping (sweep_idle demo_limits 500 jammed_server)"
    using \<open>\<not> tr_stopping jammed_server\<close> by (simp add: sweep_idle_def)
  from jam_is_forever [OF run j this] show ?thesis by blast
qed

section \<open>A download that fails\<close>

text \<open>The artifact has been deleted between two slices.\<close>

definition gone_dispatcher :: dispatcher where
  "gone_dispatcher = demo_dispatcher\<lparr>ds_storage := initial_storage, ds_gets := [''get-1-0'' \<mapsto> demo_state]\<rparr>"

theorem failed_continuation_witness:
  "\<exists>c g. worker_step demo_denv (Popped (continuation_of (task_of demo_conn demo_big_get)
        (empty_result\<lparr>hr_has_more := True, hr_continuation_key := ''get-1-0''\<rparr>))) (demo_server gone_dispatcher) =
       Some (Inr (Completing c, demo_server gone_dispatcher)) \<and>
     framed [g] (buf_bytes (co_bytes c)) \<and> error_notice 1 FR_E_NOTFOUND ''artifact not found'' g"
proof -
  let ?t = "demo_server gone_dispatcher" and ?res = "empty_result\<lparr>hr_has_more := True, hr_continuation_key := ''get-1-0''\<rparr>"
  let ?task = "continuation_of (task_of demo_conn demo_big_get) ?res"
  have "show_artifact ''libs'' ''zlib'' ''1.0'' (sdb initial_storage) = Inl (Err FR_E_NOTFOUND ''artifact not found'')"
    by (simp add: show_artifact_def select_artifact_def select_one_def initial_storage_def empty_database_def throw_error_def)
  then have "handle_get_continue (with_hub ?t demo_denv) (ta_get_key ?task) (tr_dispatcher ?t) =
      (Inl (Err FR_E_NOTFOUND ''artifact not found''), gone_dispatcher)"
    by (simp add: handle_get_continue_def continuation_of_def gone_dispatcher_def demo_server_def demo_state_def
        advance_get_def read_artifact_slice_def kDataSliceBytes_def empty_result_def)
  from failed_continuation [OF refl this demo_granted] show ?thesis
    by (auto simp: is_enumerator_def status_enumerators_def c_str_def simp del: framed.simps worker_step.simps)
qed

end
