(* ===== verification/ClientProps.thy ===== *)
theory ClientProps
  imports Client ServerDemo
begin

text \<open>
  The client against the server: replies are read whatever their fragmentation, errors arrive as
  the exceptions they were, requests arrive as they were made, and a download delivers the
  published content from the storage of the server to the sink of the client.
\<close>

section \<open>Reading frames\<close>

definition client_ok :: "client \<Rightarrow> bool" where
  "client_ok c \<longleftrightarrow> parser_inv (cl_parser c) \<and> buf_wf (cl_inbuf c) \<and>
     unat (cl_inpos c) \<le> length (buf_bytes (cl_inbuf c))"

definition buffered :: "client \<Rightarrow> bytes" where
  "buffered c = pending (cl_parser c) @ drop (unat (cl_inpos c)) (buf_bytes (cl_inbuf c))"

text \<open>What the client is to receive is a stream of the frames \<open>gs\<close>, and fits into its buffer.\<close>

definition receiving :: "alloc \<Rightarrow> fr_frame list \<Rightarrow> bytes \<Rightarrow> client \<Rightarrow> bool" where
  "receiving alloc gs rest c \<longleftrightarrow> granted alloc \<and> client_ok c \<and> [] \<notin> set (ln_arrives (cl_link c)) \<and>
     length (buf_bytes (cl_inbuf c)) + length (concat (ln_arrives (cl_link c))) \<le> 2 ^ 62 \<and>
     stream gs (buffered c @ concat (ln_arrives (cl_link c))) rest"

lemma drop_word: "unat (x :: u64) \<le> n \<Longrightarrow> n < 2 ^ 64 \<Longrightarrow> unat (of_nat n - x) = n - unat x"
  by (simp add: unat_sub word_le_nat_alt unat_of_nat)

lemma feed_buffered_stream:
  assumes "granted alloc" and "client_ok c" and small: "length (buf_bytes (cl_inbuf c)) \<le> 2 ^ 62"
  shows "\<exists>c'. client_ok c' \<and> cl_link c' = cl_link c \<and> length (buf_bytes (cl_inbuf c')) \<le> length (buf_bytes (cl_inbuf c)) \<and>
     (spec_parse (buffered c) = NeedMore \<longrightarrow>
        feed_buffered alloc c = (Inr None, c') \<and> buffered c' = buffered c) \<and>
     (\<forall>g n. spec_parse (buffered c) = Parsed g n \<longrightarrow>
        feed_buffered alloc c = (Inr (Some g), c') \<and> buffered c' = drop n (buffered c))"
proof -
  let ?p = "cl_parser c" and ?b = "cl_inbuf c" and ?i = "unat (cl_inpos c)"
  let ?u = "drop ?i (buf_bytes ?b)"
  have inv: "parser_inv ?p" and wf: "buf_wf ?b" and i: "?i \<le> length (buf_bytes ?b)" using assms(2) by (simp_all add: client_ok_def)
  have len: "unat (buf_len ?b) = length (buf_bytes ?b)" using small by (simp add: buf_len_def unat_of_nat)
  show ?thesis
  proof (cases "?u = []")
    case True
    then have "\<not> cl_inpos c < buf_len ?b" using i len by (simp add: word_less_nat_alt)
    then have "feed_buffered alloc c = (Inr None, c)" by (simp add: feed_buffered_def)
    moreover have "spec_parse (buffered c) = NeedMore" using pending_more [OF inv] True by (simp add: buffered_def)
    ultimately show ?thesis using assms(2) by auto
  next
    case False
    then have less: "cl_inpos c < buf_len ?b" using i len by (auto simp: word_less_nat_alt)
    have n: "unat (buf_len ?b - cl_inpos c) = length ?u"
      using i small by (simp add: buf_len_def drop_word)
    have al: "\<forall>k. alloc k" using assms(1) by (simp add: granted_def)
    obtain st p k f where feed: "fr_frame_parser_feed alloc ?p (Some ?u) (length ?u) = (st, p, k, f)" by (metis prod_cases4)
    note ans = feed_all [OF inv al, of ?u, unfolded feed]
    show ?thesis
    proof (cases "spec_parse (buffered c)")
      case NeedMore
      then have a: "st = FR_OK" "k = Some (length ?u)" "f = None" "parser_inv p" "pending p = buffered c"
        using ans by (simp_all add: buffered_def)
      let ?c = "c\<lparr>cl_parser := p, cl_inpos := buf_len ?b\<rparr>"
      have "cl_inpos c + of_nat (length ?u) = buf_len ?b" 
        using len i small by (simp add: word_unat_eq_iff unat_word_ariths unat_of_nat)
      then have "feed_buffered alloc c = (Inr None, ?c)" using less feed a n by (simp add: feed_buffered_def Let_def)
      moreover have "client_ok ?c" "buffered ?c = buffered c" using a wf len by (simp_all add: client_ok_def buffered_def)
      ultimately show ?thesis using NeedMore by (intro exI [of _ ?c]) simp
    next
      case Malformed
      then show ?thesis using assms(2) by (intro exI [of _ c]) simp
    next
      case (Parsed g m)
      then have a: "st = FR_OK" "k = Some (m - length (pending ?p))" "f = Some g" "parser_inv p" "pending p = []"
        using ans by (simp_all add: buffered_def)
      have ge: "length (pending ?p) \<le> m" by (rule spec_parse_longer [OF pending_more [OF inv]]) (use Parsed in \<open>simp add: buffered_def\<close>)
      define k where "k = m - length (pending ?p)"
      have le: "k \<le> length ?u" using spec_parse_length [OF Parsed] ge by (simp add: buffered_def k_def)
      define c1 where "c1 = c\<lparr>cl_parser := p, cl_inpos := cl_inpos c + of_nat k\<rparr>"
      define c' where "c' = (if cl_inpos c1 = buf_len ?b then c1\<lparr>cl_inpos := 0, cl_inbuf := fr_buf_clear ?b\<rparr> else c1)"
      have pos: "unat (cl_inpos c1) = ?i + k" using le i small by (simp add: c1_def unat_word_ariths unat_of_nat)
      have f': "feed_buffered alloc c = (Inr (Some g), c')"
        using less feed a n by (simp add: feed_buffered_def Let_def c1_def c'_def k_def)
      have rest: "drop m (buffered c) = drop k ?u" using ge by (simp add: buffered_def k_def)
      have c: "client_ok c' \<and> buffered c' = drop k ?u \<and> cl_link c' = cl_link c \<and> length (buf_bytes (cl_inbuf c')) \<le> length (buf_bytes ?b)"
      proof (cases "cl_inpos c1 = buf_len ?b")
        case True
        then have "k = length ?u" using pos len i by simp
        then show ?thesis using True a wf by (simp add: c'_def c1_def client_ok_def buffered_def fr_buf_clear_def buf_wf_def)
      next
        case False
        then show ?thesis using a wf pos le i
          by (simp add: c'_def c1_def client_ok_def buffered_def add.commute)
      qed
      show ?thesis using c f' rest Parsed by (intro exI [of _ c']) simp
    qed
  qed
qed

lemma read_frame_stream:
  "receiving alloc (g # gs) rest c \<Longrightarrow>
   \<exists>c'. read_frame alloc c = (Inr g, c') \<and> receiving alloc gs rest c' \<and>
     ln_sent (cl_link c') = ln_sent (cl_link c) \<and> ln_sends (cl_link c') = ln_sends (cl_link c)"
proof (induction "ln_arrives (cl_link c)" arbitrary: c)
  case Nil
  then have r: "stream (g # gs) (buffered c) rest" and al: "granted alloc" and ok: "client_ok c"
    and small: "length (buf_bytes (cl_inbuf c)) \<le> 2 ^ 62" by (simp_all add: receiving_def del: stream.simps)
  obtain n where n: "spec_parse (buffered c) = Parsed g n" "stream gs (drop n (buffered c)) rest" using r by (rule stream_cons)
  obtain c' where c': "client_ok c'" "cl_link c' = cl_link c" "length (buf_bytes (cl_inbuf c')) \<le> length (buf_bytes (cl_inbuf c))"
    "feed_buffered alloc c = (Inr (Some g), c')" "buffered c' = drop n (buffered c)"
    using feed_buffered_stream [OF al ok small] n(1) by auto
  have "read_frame alloc c = (Inr g, c')" using c'(4) by (subst read_frame.simps) simp
  moreover have "receiving alloc gs rest c'" using Nil c' n(2) al by (simp add: receiving_def)
  ultimately show ?case using c'(2) by auto
next
  case (Cons chunk more)
  let ?s = "buffered c @ concat (ln_arrives (cl_link c))"
  have r: "stream (g # gs) ?s rest" and al: "granted alloc" and ok: "client_ok c" and ne: "[] \<notin> set (ln_arrives (cl_link c))"
    and small: "length (buf_bytes (cl_inbuf c)) + length (concat (ln_arrives (cl_link c))) \<le> 2 ^ 62"
    using Cons.prems by (simp_all add: receiving_def del: stream.simps)
  obtain c1 where c1: "client_ok c1" "cl_link c1 = cl_link c" "length (buf_bytes (cl_inbuf c1)) \<le> length (buf_bytes (cl_inbuf c))"
    and more: "spec_parse (buffered c) = NeedMore \<longrightarrow> feed_buffered alloc c = (Inr None, c1) \<and> buffered c1 = buffered c"
    and ready: "\<And>g n. spec_parse (buffered c) = Parsed g n \<Longrightarrow> feed_buffered alloc c = (Inr (Some g), c1) \<and> buffered c1 = drop n (buffered c)"
    using feed_buffered_stream [OF al ok] small by auto
  show ?case
  proof (cases "spec_parse (buffered c)")
    case (Parsed g' n)
    have "spec_parse ?s = Parsed g' n" by (rule spec_parse_more [OF Parsed])
    then have g: "g' = g" and s: "stream gs (drop n ?s) rest" using r by auto
    have "n \<le> length (buffered c)" by (rule spec_parse_length [OF Parsed])
    then have s': "stream gs (buffered c1 @ concat (ln_arrives (cl_link c1))) rest" using s ready [OF Parsed] c1(2) by simp
    have "read_frame alloc c = (Inr g, c1)" using ready [OF Parsed] g by (subst read_frame.simps) simp
    moreover have "receiving alloc gs rest c1" using s' al ne small c1 by (simp add: receiving_def)
    ultimately show ?thesis using c1(2) by auto
  next
    case Malformed
    then have "spec_parse ?s = Malformed" by (auto simp: spec_parse_def Let_def split: if_splits)
    then show ?thesis using r by simp
  next
    case NeedMore
    then have f: "feed_buffered alloc c = (Inr None, c1)" "buffered c1 = buffered c" using more by auto
    have chunk: "chunk \<noteq> []" "ln_arrives (cl_link c1) = chunk # more" 
      using ne Cons.hyps(2) [symmetric] c1(2) by auto
    have len: "length (buf_bytes (cl_inbuf c1)) + length chunk + length (concat more) \<le> 2 ^ 62"
      using small c1(3) Cons.hyps(2) [symmetric] by simp
    have "length (buf_bytes (cl_inbuf c1)) + length chunk \<le> 2 ^ 63" using len by simp
    then obtain b where b: "fr_buf_append alloc (cl_inbuf c1) (Some chunk) (of_nat (length chunk)) = (FR_OK, b)"
      "buf_bytes b = buf_bytes (cl_inbuf c1) @ chunk" "buf_wf b"
      using append_succeeds [of "cl_inbuf c1" chunk alloc] c1(1) al by (auto simp: client_ok_def granted_def)
    let ?c2 = "c1\<lparr>cl_link := (cl_link c1)\<lparr>ln_arrives := more\<rparr>, cl_inbuf := b\<rparr>"
    have m: "buffer_more alloc c1 = (Inr (), ?c2)" using chunk b by (simp add: buffer_more_def recv_bytes_def op_modify_def)
    have "client_ok ?c2" using c1(1) b by (simp add: client_ok_def)
    moreover have "buffered ?c2 = buffered c @ chunk" using c1(1) b f(2) by (simp add: client_ok_def buffered_def)
    then have "stream (g # gs) (buffered ?c2 @ concat more) rest" using r Cons.hyps(2) [symmetric] by (simp del: stream.simps)
    ultimately have "receiving alloc (g # gs) rest ?c2"
      using al ne Cons.hyps(2) [symmetric] len b by (simp add: receiving_def del: stream.simps)
    from Cons.hyps(1) [OF _ this] obtain c' where "read_frame alloc ?c2 = (Inr g, c')" "receiving alloc gs rest c'"
      "ln_sent (cl_link c') = ln_sent (cl_link c)" "ln_sends (cl_link c') = ln_sends (cl_link c)" using c1(2) by auto
    then show ?thesis using f(1) m by (subst read_frame.simps) simp
  qed
qed

section \<open>Sending\<close>

text \<open>A socket that works: every send takes something.\<close>

definition sends_on :: "link \<Rightarrow> nat \<Rightarrow> bool" where
  "sends_on link n \<longleftrightarrow> (\<forall>k\<in>set (ln_sends link). 0 < k) \<and> n \<le> length (ln_sends link)"

lemma send_loop_all:
  "\<forall>k\<in>set ns. 0 < k \<Longrightarrow> length data \<le> length ns \<Longrightarrow>
   \<exists>ns'. send_loop ns data sent = (Inr (), ns', sent @ data) \<and> set ns' \<subseteq> set ns \<and> length ns \<le> length ns' + length data"
proof (induction ns data sent rule: send_loop.induct)
  case (3 n ns d ds sent)
  have n: "0 < n" using 3(2) by simp
  let ?rest = "drop (nat n) (d # ds)"
  have len: "length ?rest \<le> length ns" "length ?rest \<le> length ds" using 3(3) n by simp_all
  obtain ns' where "send_loop ns ?rest (sent @ take (nat n) (d # ds)) = (Inr (), ns', sent @ d # ds)"
    "set ns' \<subseteq> set ns" "length ns \<le> length ns' + length ?rest"
    using 3(1) [OF _ _ len(1)] 3(2) n by auto
  then show ?case using n len(2) by (intro exI [of _ ns']) (auto simp del: drop_Cons)
qed auto

text \<open>Whatever the sends do, what has been sent is a beginning of the data, and all of it on success.\<close>

lemma send_loop_prefix:
  "send_loop ns data sent = (r, ns', sent') \<Longrightarrow>
   \<exists>k. sent' = sent @ take k data \<and> (r = Inr () \<longrightarrow> sent' = sent @ data)"
proof (induction ns data sent rule: send_loop.induct)
  case (1 ns sent)
  then show ?case by simp
next
  case (2 d ds sent)
  then show ?case by (intro exI [of _ 0]) (auto simp: throw_error_def)
next
  case (3 n ns d ds sent)
  show ?case
  proof (cases "n \<le> 0")
    case True
    then show ?thesis using 3(2) by (intro exI [of _ 0]) (auto simp: throw_error_def)
  next
    case False
    then obtain k where k: "sent' = (sent @ take (nat n) (d # ds)) @ take k (drop (nat n) (d # ds))"
      "r = Inr () \<longrightarrow> sent' = (sent @ take (nat n) (d # ds)) @ drop (nat n) (d # ds)"
      using 3(1) [OF False] 3(2) by auto
    then show ?thesis by (intro exI [of _ "nat n + k"]) (simp add: take_add)
  qed
qed

lemma req_id_nonzero: "req_id_of clock \<noteq> 0"
proof
  assume "req_id_of clock = 0"
  then have "bit (req_id_of clock) 0 = False" by simp
  then show False by (simp add: req_id_of_def bit_simps)
qed

lemma send_frame_sends:
  assumes "granted alloc" and "length bs \<le> FR_FRAME_MAX_PAYLOAD" and "mem_of p = bs" and "p = None \<longrightarrow> bs = []"
    and "len = of_nat (length bs)" and "sends_on (cl_link c) (m + 20 + length bs)"
  shows "\<exists>c' fr. send_frame alloc failed clock (msg_value type) p len c = (Inr (), c') \<and>
     ln_sent (cl_link c') = ln_sent (cl_link c) @ fr \<and> framed [reply_frame type (req_id_of clock) bs] fr \<and>
     c' = c\<lparr>cl_link := (cl_link c)\<lparr>ln_sends := ln_sends (cl_link c'), ln_sent := ln_sent (cl_link c')\<rparr>\<rparr> \<and>
     sends_on (cl_link c') m"
proof -
  have "length (buf_bytes fr_buf_init) + 20 + length bs \<le> 2 ^ 63" using assms(2) by (simp add: FR_FRAME_MAX_PAYLOAD_def)
  from encode_framed [OF assms(1) req_id_nonzero [of clock] assms(2-5) buf_wf_init this, where type = type]
  obtain out where out: "fr_frame_encode alloc fr_buf_init (msg_value type) 0 (req_id_of clock) p len = (FR_OK, out)"
    "length (buf_bytes out) = 20 + length bs" "framed [reply_frame type (req_id_of clock) bs] (buf_bytes out)" by auto
  have "\<exists>ns'. send_loop (ln_sends (cl_link c)) (buf_bytes out) (ln_sent (cl_link c)) = (Inr (), ns', ln_sent (cl_link c) @ buf_bytes out) \<and>
      set ns' \<subseteq> set (ln_sends (cl_link c)) \<and> length (ln_sends (cl_link c)) \<le> length ns' + length (buf_bytes out)"
    by (rule send_loop_all) (use assms(6) out(2) in \<open>simp_all add: sends_on_def\<close>)
  then obtain ns' where "send_loop (ln_sends (cl_link c)) (buf_bytes out) (ln_sent (cl_link c)) = (Inr (), ns', ln_sent (cl_link c) @ buf_bytes out)"
    "set ns' \<subseteq> set (ln_sends (cl_link c))" "length (ln_sends (cl_link c)) \<le> length ns' + length (buf_bytes out)" by blast
  then show ?thesis
    using out assms(6) by (intro exI [of _ "c\<lparr>cl_link := (cl_link c)\<lparr>ln_sends := ns', ln_sent := ln_sent (cl_link c) @ buf_bytes out\<rparr>\<rparr>"])
      (auto simp: send_frame_def send_bytes_def sends_on_def simp del: framed.simps msg_value.simps)
qed

text \<open>A request and the frame that answers it.\<close>

lemma request_answered:
  assumes "length (buf_bytes payload) \<le> FR_FRAME_MAX_PAYLOAD" and "buf_wf payload"
    and "sends_on (cl_link c) (m + 20 + length (buf_bytes payload))" and "receiving alloc (g # gs) rest c"
  shows "\<exists>c' fr. client_request alloc clock type payload c =
       ((if frame_type g = msg_value FR_MSG_ERROR
         then rbind (decode_error_payload g) (\<lambda>e. throw_error (ep_code e) (ep_message e))
         else if frame_type g \<noteq> msg_value FR_MSG_OK \<and> frame_type g \<noteq> msg_value FR_MSG_DATA
         then throw_error FR_E_PROTOCOL ''unexpected response frame type'' else Inr g), c') \<and>
     ln_sent (cl_link c') = ln_sent (cl_link c) @ fr \<and>
     framed [reply_frame type (req_id_of clock) (buf_bytes payload)] fr \<and> receiving alloc gs rest c' \<and>
     sends_on (cl_link c') m"
proof -
  have al: "granted alloc" using assms(4) by (simp add: receiving_def)
  obtain c1 fr where s: "send_frame alloc ''encode request failed'' clock (msg_value type) (buf_data payload) (buf_len payload) c = (Inr (), c1)"
    and fr: "ln_sent (cl_link c1) = ln_sent (cl_link c) @ fr" "framed [reply_frame type (req_id_of clock) (buf_bytes payload)] fr"
    and c1: "c1 = c\<lparr>cl_link := (cl_link c)\<lparr>ln_sends := ln_sends (cl_link c1), ln_sent := ln_sent (cl_link c1)\<rparr>\<rparr>"
    and on: "sends_on (cl_link c1) m"
    using send_frame_sends [OF al assms(1) buf_len_data [OF assms(2)] assms(3)] by blast
  have "receiving alloc (g # gs) rest c1"
    using assms(4) by (subst c1) (simp add: receiving_def client_ok_def buffered_def del: stream.simps)
  from read_frame_stream [OF this] obtain c2 where r: "read_frame alloc c1 = (Inr g, c2)" "receiving alloc gs rest c2"
    "ln_sent (cl_link c2) = ln_sent (cl_link c1)" "ln_sends (cl_link c2) = ln_sends (cl_link c1)" by blast
  have "sends_on (cl_link c2) m" using on r(4) by (simp add: sends_on_def)
  then show ?thesis
    using s r fr
    by (intro exI [of _ c2] exI [of _ fr])
      (auto simp: client_request_def throw_received_def op_lift_def op_throw_def op_return_def throw_error_def
        simp del: framed.simps msg_value.simps split: sum.splits)
qed

section \<open>Downloads\<close>

lemma decode_data_reply: "decode_data (reply_frame type rid piece) = Inr \<lparr>dp_data = piece\<rparr>"
proof -
  have "finishes (\<lambda>r. rbind (get_rest r) (\<lambda>(data, r). Inr (\<lparr>dp_data = data\<rparr>, r))) \<lparr>dp_data = piece\<rparr> (piece @ [])"
    by (rule finishes_rest_return)
  then show ?thesis
    using reader_of_at [OF carries_reply [of type rid piece]] by (auto simp: decode_data_def decode_def finishes_def)
qed

lemma throw_received_fine: "frame_type g \<noteq> msg_value FR_MSG_ERROR \<Longrightarrow> throw_received g c = (Inr (), c)"
  by (simp add: throw_received_def op_return_def)

text \<open>The DATA frames of a download and its final frame, read after the first of them.\<close>

lemma download_loop_stream:
  assumes "f # fs = map (reply_frame FR_MSG_DATA rid) pieces @ [g]" and "receiving alloc fs rest c"
    and "frame_type g = msg_value FR_MSG_OK" and "\<forall>ps. sink ps"
  shows "\<exists>c'. download_loop alloc sink f sofar acc c =
       (Inr (sofar + of_nat (length (concat pieces))), acc @ filter (\<lambda>p. p \<noteq> []) pieces, c') \<and>
     receiving alloc [] rest c' \<and> ln_sent (cl_link c') = ln_sent (cl_link c)"
  using assms(1,2)
proof (induction pieces arbitrary: f fs sofar acc c)
  case Nil
  then show ?case using assms(3) by (subst download_loop.simps) (simp add: msg_value_inj del: msg_value.simps)
next
  case (Cons p ps)
  have f: "f = reply_frame FR_MSG_DATA rid p" and fs: "fs = map (reply_frame FR_MSG_DATA rid) ps @ [g]"
    using Cons.prems(1) by simp_all
  then have "fs \<noteq> []" by simp
  then obtain f' fs' where fs': "fs = f' # fs'" by (cases fs) auto
  obtain c1 where c1: "read_frame alloc c = (Inr f', c1)" "receiving alloc fs' rest c1" "ln_sent (cl_link c1) = ln_sent (cl_link c)"
    using read_frame_stream [of alloc f' fs' rest c] Cons.prems(2) fs' by auto
  have "f' \<in> set (map (reply_frame FR_MSG_DATA rid) ps @ [g])" using fs fs' by (metis list.set_intros(1))
  then have "frame_type f' \<noteq> msg_value FR_MSG_ERROR" using assms(3) by (auto simp del: msg_value.simps simp: msg_value_inj)
  from throw_received_fine [OF this]
  have step: "download_loop alloc sink f sofar acc c =
      download_loop alloc sink f' (sofar + of_nat (length p)) (acc @ filter (\<lambda>p. p \<noteq> []) [p]) c1"
    using c1(1) assms(4) by (subst download_loop.simps) (simp add: f decode_data_reply Let_def del: msg_value.simps)
  have "f' # fs' = map (reply_frame FR_MSG_DATA rid) ps @ [g]" using fs fs' by simp
  from Cons.IH [OF this c1(2), of "sofar + of_nat (length p)" "acc @ filter (\<lambda>p. p \<noteq> []) [p]"]
  show ?case using c1(3) unfolding step by (auto simp: add.assoc)
qed

lemma concat_nonempty: "concat (filter (\<lambda>p. p \<noteq> []) ps) = concat ps"
  by (induction ps) auto

lemma framed_length: "framed gs bs \<Longrightarrow> length bs = sum_list (map (\<lambda>g. 20 + frame_payload_len g) gs)"
proof (induction gs arbitrary: bs)
  case (Cons g gs)
  then obtain n where n: "spec_parse bs = Parsed g n" "framed gs (drop n bs)" by (auto split: parse_outcome.splits)
  from Cons.IH [OF n(2)] spec_parse_Parsed(2) [OF n(1)] spec_parse_length [OF n(1)] show ?case by simp
qed simp

lemma framed_small: "framed gs bs \<Longrightarrow> g \<in> set gs \<Longrightarrow> frame_payload_len g \<le> FR_FRAME_MAX_PAYLOAD"
proof (induction gs arbitrary: bs)
  case (Cons h gs)
  then obtain n where n: "spec_parse bs = Parsed h n" "framed gs (drop n bs)" by (auto split: parse_outcome.splits)
  show ?case using Cons.IH [OF n(2)] Cons.prems(2) encodable_small(1) [OF n(1)] by auto
qed simp

lemma sum_data: "sum_list (map (\<lambda>p. 20 + length p) ps) = 20 * length ps + length (concat ps)"
  by (induction ps) auto

lemma download_length:
  assumes "framed (map (reply_frame FR_MSG_DATA rid) pieces @ [g]) out" and "length pieces \<le> Suc (Suc n) * 2 ^ 32"
    and "length (concat pieces) \<le> n"
  shows "length out \<le> (n + 3) * 2 ^ 37"
proof -
  have "length out = 20 * length pieces + length (concat pieces) + 20 + frame_payload_len g"
    using framed_length [OF assms(1)] sum_data [of pieces] by (simp add: comp_def reply_frame_def)
  moreover have "frame_payload_len g \<le> 8388608"
    using framed_small [OF assms(1), of g] by (simp add: FR_FRAME_MAX_PAYLOAD_def)
  ultimately show ?thesis using assms(2,3) by simp
qed

text \<open>The request that asks for a download.\<close>

lemma get_request:
  assumes "granted alloc" and "get_artifact_req_ok req"
  shows "\<exists>payload. encode_get_artifact_req alloc req fr_buf_init = Inr payload \<and> buf_wf payload \<and>
     length (buf_bytes payload) \<le> 2000 \<and>
     (\<forall>f. carries f (buf_bytes payload) \<longrightarrow> decode_get_artifact_req f = Inr req)"
proof -
  obtain payload where p: "encode_get_artifact_req alloc req fr_buf_init = Inr payload"
    "\<forall>f. carries f (buf_bytes payload) \<longrightarrow> decode_get_artifact_req f = Inr req"
    using roundtrip_get_artifact_req [OF assms(2)] assms(1) unfolding roundtrips_def by blast
  let ?bs = "enc_get_artifact_req req"
  have "emits (encode_get_artifact_req alloc req) ?bs"
    unfolding encode_get_artifact_req_def enc_get_artifact_req_def
    using assms [unfolded get_artifact_req_ok_def] by (intro emit_intros)
  moreover have len: "length ?bs \<le> 2000"
    using assms(2) by (simp add: enc_get_artifact_req_def enc_ref_def enc_str_def get_artifact_req_ok_def ref_ok_def
        str_ok_def kMaxStringLen_def)
  ultimately show ?thesis using p unfolding emits_def room_def by (auto dest!: spec [of _ fr_buf_init])
qed

text \<open>C35: A download, from end to end. When a client asks for a part of a published artifact, then what
  it sends is the request that the server decodes; the server answers with a stream of bytes; and
  in whatever pieces this stream reaches the client, the client hands exactly the requested part of
  the content with the digest of the artifact to its sink, cut off at the end of the artifact, and
  returns its length.\<close>

theorem client_download_exact:
  assumes "storage_inv sha (ds_storage d)" and "sha_ok sha" and "reads_ok (env_io (de_storage env))"
    and "granted (de_alloc env)" and "cs_authenticated session"
    and "show_artifact ns name version (sdb (ds_storage d)) = Inr info"
    and "length (ai_chunks info) < 2 ^ 32" and "offset \<le> ai_size info"
    and "ds_gets d (get_key conn_id (ds_get_seq d)) = None"
    and "str_ok ns" and "str_ok name" and "str_ok version" and "granted alloc"
  shows "\<exists>blob frame out d'. sha256_to_hex (sha blob) = ai_digest info \<and> length blob = unat (ai_size info) \<and>
     download (Suc (unat len)) env conn_id peer frame session d = Some (Inr out, d') \<and>
     length out \<le> (unat len + 3) * 2 ^ 37 \<and>
     (\<forall>c. client_ok c \<and> buffered c = [] \<and> concat (ln_arrives (cl_link c)) = out \<and> [] \<notin> set (ln_arrives (cl_link c)) \<and>
        length (buf_bytes (cl_inbuf c)) + length out \<le> 2 ^ 62 \<and> sends_on (cl_link c) 2020 \<longrightarrow>
        (\<exists>pieces c' sent. client_download alloc clock ns name version offset len (\<lambda>ps. True) c =
             (Inr (of_nat (length (concat pieces))), pieces, c') \<and>
           concat pieces = take (unat len) (drop (unat offset) blob) \<and>
           ln_sent (cl_link c') = ln_sent (cl_link c) @ sent \<and> framed [frame] sent))"
proof -
  let ?req = "\<lparr>ga_ref = \<lparr>ref_ns = ns, ref_name = name, ref_version = version\<rparr>, ga_offset = offset, ga_length = len\<rparr>"
  let ?id = "req_id_of clock"
  have "get_artifact_req_ok ?req" using assms(10-12) by (simp add: get_artifact_req_ok_def ref_ok_def)
  from get_request [OF assms(13) this] obtain payload where payload: "encode_get_artifact_req alloc ?req fr_buf_init = Inr payload"
    "buf_wf payload" "length (buf_bytes payload) \<le> 2000"
    and dec: "\<And>f. carries f (buf_bytes payload) \<Longrightarrow> decode_get_artifact_req f = Inr ?req" by blast
  define frame where "frame = reply_frame FR_MSG_GET_ARTIFACT ?id (buf_bytes payload)"
  have frame: "frame_type frame = msg_value FR_MSG_GET_ARTIFACT" "frame_req_id frame = ?id"
    "decode_get_artifact_req frame = Inr ?req" by (simp_all add: frame_def dec [OF carries_reply] del: msg_value.simps)
  obtain blob pieces g out d' where blob: "sha256_to_hex (sha blob) = ai_digest info" "length blob = unat (ai_size info)"
    and run: "download (Suc (unat len)) env conn_id peer frame session d = Some (Inr out, d')"
    and out: "framed (map (reply_frame FR_MSG_DATA ?id) pieces @ [g]) out"
    and slice: "concat pieces = take (unat len) (drop (unat offset) blob)" and g: "frame_type g = msg_value FR_MSG_OK"
    and count: "length pieces \<le> Suc (Suc (unat len)) * 2 ^ 32"
    using download_run [OF assms(1-5) frame(1) _ frame(3), of info conn_id "Suc (unat len)" peer] assms(6-9) frame(2)
      req_id_nonzero by (auto simp del: framed.simps)
  have short: "length out \<le> (unat len + 3) * 2 ^ 37" by (rule download_length [OF out count]) (simp add: slice)
  obtain f fs where fs: "map (reply_frame FR_MSG_DATA ?id) pieces @ [g] = f # fs" by (cases pieces) auto
  have f: "frame_type f = msg_value FR_MSG_OK \<or> frame_type f = msg_value FR_MSG_DATA"
    using fs g by (cases pieces) (auto simp del: msg_value.simps)
  have "\<exists>pieces' c' sent. client_download alloc clock ns name version offset len (\<lambda>ps. True) c =
      (Inr (of_nat (length (concat pieces'))), pieces', c') \<and> concat pieces' = take (unat len) (drop (unat offset) blob) \<and>
      ln_sent (cl_link c') = ln_sent (cl_link c) @ sent \<and> framed [frame] sent"
    if c: "client_ok c" "buffered c = []" "concat (ln_arrives (cl_link c)) = out" "[] \<notin> set (ln_arrives (cl_link c))"
      "length (buf_bytes (cl_inbuf c)) + length out \<le> 2 ^ 62" "sends_on (cl_link c) 2020" for c
  proof -
    have r: "receiving alloc (f # fs) [] c"
      using c assms(13) stream_framed [OF out] unfolding fs by (simp add: receiving_def del: stream.simps)
    have len: "length (buf_bytes payload) \<le> FR_FRAME_MAX_PAYLOAD" using payload(3) by (simp add: FR_FRAME_MAX_PAYLOAD_def)
    have "sends_on (cl_link c) (0 + 20 + length (buf_bytes payload))" using c(6) payload(3) by (simp add: sends_on_def)
    from request_answered [OF len payload(2) this r, of clock FR_MSG_GET_ARTIFACT] f
    obtain c1 sent where c1: "client_request alloc clock FR_MSG_GET_ARTIFACT payload c = (Inr f, c1)"
      "ln_sent (cl_link c1) = ln_sent (cl_link c) @ sent" "framed [frame] sent" "receiving alloc fs [] c1"
      unfolding frame_def by (auto simp: msg_value_inj simp del: msg_value.simps framed.simps)
    obtain c2 where "download_loop alloc (\<lambda>ps. True) f 0 [] c1 =
        (Inr (of_nat (length (concat pieces))), filter (\<lambda>p. p \<noteq> []) pieces, c2)" "ln_sent (cl_link c2) = ln_sent (cl_link c1)"
      using download_loop_stream [OF fs [symmetric] c1(4) g, of "\<lambda>ps. True" 0 "[]"] by auto
    then show ?thesis
      using c1 payload(1) slice concat_nonempty [of pieces]
      by (intro exI [of _ "filter (\<lambda>p. p \<noteq> []) pieces"] exI [of _ c2] exI [of _ sent])
        (simp add: client_download_def op_lift_def del: framed.simps)
  qed
  then show ?thesis using blob run short by blast
qed

section \<open>Errors\<close>

lemma error_answered:
  assumes "handle_frame env conn_id peer (frame_req_id frame) frame
      \<lparr>hs_dispatcher = d, hs_session = session, hs_result = empty_result\<rparr> = (Inl (Err code message), h)"
    and "frame_req_id frame \<noteq> 0" and "granted (de_alloc env)" and "length (c_str message) \<le> 512" and "is_enumerator code"
  shows "\<exists>res session' d' g. handle env conn_id peer frame session d = (Inr res, session', d') \<and>
     framed [g] (buf_bytes (hr_out res)) \<and> frame_type g = msg_value FR_MSG_ERROR \<and>
     decode_error_payload g = Inr \<lparr>ep_code = code, ep_message = c_str message\<rparr>"
proof -
  let ?e = "\<lparr>ep_code = code, ep_message = c_str message\<rparr>" and ?id = "frame_req_id frame"
  have "roundtrips (\<lambda>alloc p. encode_error_payload alloc (ep_code p) (ep_message p)) decode_error_payload ?e"
    by (rule roundtrip_error_payload) (use assms(4,5) in \<open>simp add: error_payload_ok_def str_ok_def kMaxStringLen_def\<close>)
  then obtain payload where p: "encode_error_payload (de_alloc env) code (c_str message) fr_buf_init = Inr payload"
    and dec: "\<And>f. carries f (buf_bytes payload) \<Longrightarrow> decode_error_payload f = Inr ?e"
    using assms(3) unfolding roundtrips_def by auto
  obtain h2 where a: "answer_error env peer ?id frame code message h = (Inr (), h2)"
    using p by (auto simp: answer_error_eq)
  from error_reply [OF assms(3,2) a] p
  have "framed [reply_frame FR_MSG_ERROR ?id (buf_bytes payload)] (buf_bytes (hr_out (hs_result h2)))"
    by (auto simp del: framed.simps)
  moreover have "handle env conn_id peer frame session d = (Inr (hs_result h2), hs_session h2, hs_dispatcher h2)"
    using assms(1,2) a by (simp add: handle_def)
  ultimately show ?thesis using dec [OF carries_reply] reply_frame_fields by blast
qed


section \<open>A concrete client\<close>

definition demo_options :: client_options where
  "demo_options = \<lparr>opt_host = ''127.0.0.1'', opt_port = 7443, opt_timeout_seconds = 30, opt_token = [],
     opt_use_tls = False, opt_tls_hostname = []\<rparr>"

text \<open>Everything arrives byte by byte, and is sent byte by byte.\<close>

definition demo_peer :: "bytes \<Rightarrow> client" where
  "demo_peer out = make_client demo_options
     \<lparr>ln_sends = replicate 2020 1, ln_sent = [], ln_arrives = map (\<lambda>b. [b]) out\<rparr>"

lemma demo_peer_ok:
  "client_ok (demo_peer out)" "buffered (demo_peer out) = []" "concat (ln_arrives (cl_link (demo_peer out))) = out"
  "[] \<notin> set (ln_arrives (cl_link (demo_peer out)))" "length (buf_bytes (cl_inbuf (demo_peer out))) = 0"
  "n \<le> 2020 \<Longrightarrow> sends_on (cl_link (demo_peer out)) n"
  by (auto simp: demo_peer_def make_client_def client_ok_def buffered_def sends_on_def)

theorem client_download_exact_witness:
  "\<exists>blob pieces out c'. sha256_to_hex (demo_sha blob) = demo_digest \<and> length blob = 2 \<and>
     client_download (\<lambda>k. True) 5 ''libs'' ''zlib'' ''1.0'' 0 2 (\<lambda>ps. True) (demo_peer out) =
       (Inr 2, pieces, c') \<and> concat pieces = blob"
proof -
  let ?info = "committed_info demo_info demo_manifest 10"
  have shown: "show_artifact ''libs'' ''zlib'' ''1.0'' (sdb (ds_storage demo_dispatcher)) = Inr ?info"
    using demo_show by (simp add: demo_dispatcher_def)
  have info: "length (ai_chunks ?info) < 2 ^ 32" "ai_size ?info = 2" "ai_digest ?info = demo_digest"
    by (simp_all add: committed_info_def demo_info_def demo_manifest_def)
  have names: "str_ok ''libs''" "str_ok ''zlib''" "str_ok ''1.0''" by (simp_all add: str_ok_def kMaxStringLen_def)
  have al: "granted (\<lambda>k. True)" by (simp add: granted_def)
  obtain blob frame out d' where b: "sha256_to_hex (demo_sha blob) = ai_digest ?info" "length blob = unat (ai_size ?info)"
    "length out \<le> (unat (2 :: u64) + 3) * 2 ^ 37"
    and all: "\<And>c. client_ok c \<and> buffered c = [] \<and> concat (ln_arrives (cl_link c)) = out \<and> [] \<notin> set (ln_arrives (cl_link c)) \<and>
        length (buf_bytes (cl_inbuf c)) + length out \<le> 2 ^ 62 \<and> sends_on (cl_link c) 2020 \<Longrightarrow>
        \<exists>pieces c' sent. client_download (\<lambda>k. True) 5 ''libs'' ''zlib'' ''1.0'' 0 2 (\<lambda>ps. True) c =
             (Inr (of_nat (length (concat pieces))), pieces, c') \<and>
           concat pieces = take (unat (2 :: u64)) (drop (unat (0 :: u64)) blob) \<and>
           ln_sent (cl_link c') = ln_sent (cl_link c) @ sent \<and> framed [frame] sent"
    using client_download_exact [OF demo_parts(3) demo_sha_ok demo_parts(2) demo_granted _ shown info(1) _ _ names al,
        of "demo_client Reader" 0 1 2 "''10.0.0.7:1''" 5]
    by (auto simp: demo_client_def demo_dispatcher_def simp del: framed.simps)
  have "length (buf_bytes (cl_inbuf (demo_peer out))) + length out \<le> 2 ^ 62" using b(3) demo_peer_ok(5) by simp
  then obtain pieces c' where "client_download (\<lambda>k. True) 5 ''libs'' ''zlib'' ''1.0'' 0 2 (\<lambda>ps. True) (demo_peer out) =
      (Inr (of_nat (length (concat pieces))), pieces, c')" "concat pieces = take (unat (2 :: u64)) (drop (unat (0 :: u64)) blob)"
    using all [of "demo_peer out"] demo_peer_ok by blast
  moreover from this(2) b(2) info(2) have "concat pieces = blob" by simp
  ultimately show ?thesis using b info by (intro exI [of _ blob] exI [of _ pieces] exI [of _ out] exI [of _ c']) simp
qed


end
