(* ===== verification/Frctl.thy ===== *)
theory Frctl
  imports ClientProps
begin

text \<open>
  The command-line client, \<^verbatim>\<open>src/apps/frctl/main.cpp\<close>: the global arguments,
  artifact references, upload and download of files, and the exit codes.
  What the commands print is left out. A local file is what its reads deliver; the outcome of
  writing and renaming is a parameter.
\<close>

section \<open>Arguments\<close>

datatype cli_error = CommandError int string | Thrown exn

record globals =
  gl_host :: string
  gl_port :: u16
  gl_timeout :: int
  gl_token :: string
  gl_json :: bool
  gl_verbose :: bool
  gl_confirm :: bool
  gl_use_tls :: bool
  gl_tls_explicit :: bool

definition default_globals :: globals where
  "default_globals = \<lparr>gl_host = ''127.0.0.1'', gl_port = 7443, gl_timeout = 30, gl_token = [], gl_json = False,
     gl_verbose = False, gl_confirm = False, gl_use_tls = False, gl_tls_explicit = False\<rparr>"

definition usage_error :: "string \<Rightarrow> cli_error + 'a" where
  "usage_error message = Inl (CommandError 2 message)"

definition is_digit :: "char \<Rightarrow> bool" where
  "is_digit c = (48 \<le> (of_char c :: nat) \<and> of_char c \<le> (57 :: nat))"

text \<open>The sign and the digits that \<open>std::stoul\<close> and \<open>std::stoi\<close> read.\<close>

definition read_number :: "string \<Rightarrow> (bool \<times> nat) option" where
  "read_number s =
     (let t = dropWhile (\<lambda>c. c \<in> set [CHR '' '', CHR 0x09, CHR 0x0A, CHR 0x0B, CHR 0x0C, CHR 0x0D]) s;
          neg = (t \<noteq> [] \<and> hd t = CHR ''-'');
          u = (if t \<noteq> [] \<and> (hd t = CHR ''-'' \<or> hd t = CHR ''+'') then tl t else t);
          ds = takeWhile is_digit u
      in if ds = [] then None else Some (neg, of_decimal ds))"

definition unsigned_number :: "string \<Rightarrow> string \<Rightarrow> u64 result" where
  "unsigned_number fn s =
     (case read_number s of
        None \<Rightarrow> Inl (StdExc fn)
      | Some (neg, v) \<Rightarrow>
          if v \<ge> 2 ^ 64 then Inl (StdExc fn) else Inr (if neg then - of_nat v else of_nat v))"

definition stoul :: "string \<Rightarrow> u64 result" where
  "stoul = unsigned_number ''stoul''"

definition stoull :: "string \<Rightarrow> u64 result" where
  "stoull = unsigned_number ''stoull''"

definition stoi :: "string \<Rightarrow> int result" where
  "stoi s =
     (case read_number s of
        None \<Rightarrow> Inl (StdExc ''stoi'')
      | Some (neg, v) \<Rightarrow>
          let n = (if neg then - int v else int v)
          in if n < - (2 ^ 31) \<or> n \<ge> 2 ^ 31 then Inl (StdExc ''stoi'') else Inr n)"

text \<open>\<open>find\<close> and \<open>rfind\<close> of a character; \<open>npos\<close> is the largest size.\<close>

definition npos :: u64 where "npos = - 1"

definition find_char :: "char \<Rightarrow> string \<Rightarrow> u64" where
  "find_char c s = (if c \<in> set s then of_nat (length (takeWhile (\<lambda>x. x \<noteq> c) s)) else npos)"

definition rfind_char :: "char \<Rightarrow> string \<Rightarrow> u64" where
  "rfind_char c s =
     (if c \<in> set s then of_nat (length s - 1 - length (takeWhile (\<lambda>x. x \<noteq> c) (rev s))) else npos)"

definition substr :: "string \<Rightarrow> u64 \<Rightarrow> u64 \<Rightarrow> string" where
  "substr s pos n = take (unat n) (drop (unat pos) s)"

datatype parsed = Help | Command globals "string list"

definition set_valued :: "string \<Rightarrow> string \<Rightarrow> globals \<Rightarrow> cli_error + globals" where
  "set_valued arg value g =
     (if arg = ''--server''
      then let colon = rfind_char (CHR '':'') value
           in if colon = npos then usage_error ''--server must be host:port''
              else (case stoul (substr value (colon + 1) npos) of
                      Inl e \<Rightarrow> Inl (Thrown e)
                    | Inr port \<Rightarrow> Inr (g\<lparr>gl_host := substr value 0 colon, gl_port := ucast port\<rparr>))
      else if arg = ''--config'' then Inr g
      else if arg = ''--timeout''
      then (case stoi value of
              Inl e \<Rightarrow> Inl (Thrown e)
            | Inr seconds \<Rightarrow> Inr (g\<lparr>gl_timeout := seconds\<rparr>))
      else Inr (g\<lparr>gl_token := value\<rparr>))"

definition set_flag :: "string \<Rightarrow> globals \<Rightarrow> globals option" where
  "set_flag arg g =
     (if arg = ''--json'' then Some (g\<lparr>gl_json := True\<rparr>)
      else if arg = ''--verbose'' then Some (g\<lparr>gl_verbose := True, gl_json := False\<rparr>)
      else if arg = ''--tls'' then Some (g\<lparr>gl_use_tls := True, gl_tls_explicit := True\<rparr>)
      else if arg = ''--no-tls'' then Some (g\<lparr>gl_use_tls := False, gl_tls_explicit := True\<rparr>)
      else if arg = ''--confirm'' then Some (g\<lparr>gl_confirm := True\<rparr>)
      else None)"

fun parse_args :: "string list \<Rightarrow> globals \<Rightarrow> string list \<Rightarrow> cli_error + parsed" where
  "parse_args [] g command = Inr (Command g command)"
| "parse_args (arg # rest) g command =
     (if arg \<in> set [''--server'', ''--config'', ''--timeout'', ''--token'']
      then (case rest of
              [] \<Rightarrow> usage_error (''missing value for '' @ arg)
            | value # rest \<Rightarrow>
                (case set_valued arg value g of
                   Inl e \<Rightarrow> Inl e
                 | Inr g \<Rightarrow> parse_args rest g command))
      else if arg = ''--help'' \<or> arg = ''-h'' then Inr Help
      else (case set_flag arg g of
              Some g \<Rightarrow> parse_args rest g command
            | None \<Rightarrow> parse_args rest g (command @ [arg])))"

text \<open>Namespace, name and version of a reference, by the positions of the separators.\<close>

definition split_ref :: "string \<Rightarrow> string \<times> string \<times> string" where
  "split_ref ref =
     (let slash = find_char (CHR ''/'') ref; colon = rfind_char (CHR '':'') ref
      in (substr ref 0 slash, substr ref (slash + 1) (colon - slash - 1), substr ref (colon + 1) npos))"

definition ref_malformed :: "string \<Rightarrow> bool" where
  "ref_malformed ref =
     (let slash = find_char (CHR ''/'') ref; colon = rfind_char (CHR '':'') ref
      in slash = npos \<or> colon = npos \<or> colon < slash)"

section \<open>The connection of a command\<close>

record cli_env =
  cv_alloc :: alloc
  cv_clock :: "nat \<Rightarrow> int"
  cv_gai :: int
  cv_addresses :: "bool list"
  cv_tls :: "unit result"
  cv_openssl :: bool
  cv_token :: "string option"
  cv_link :: link
  cv_sha :: "bytes \<Rightarrow> bytes"

definition client_options_of :: "cli_env \<Rightarrow> globals \<Rightarrow> client_options" where
  "client_options_of env g =
     \<lparr>opt_host = gl_host g, opt_port = gl_port g, opt_timeout_seconds = gl_timeout g,
      opt_token = (if gl_token g = [] then (case cv_token env of Some t \<Rightarrow> t | None \<Rightarrow> []) else gl_token g),
      opt_use_tls = (if gl_tls_explicit g then gl_use_tls g else cv_openssl env),
      opt_tls_hostname = []\<rparr>"

text \<open>Operations of the client inside a command: an exception of the library is \<open>Thrown\<close>.\<close>

type_synonym 'a command = "client \<Rightarrow> (cli_error + 'a) \<times> client"

definition calls :: "(client, 'a) op \<Rightarrow> 'a command" where
  "calls m c = (case m c of (Inl e, c) \<Rightarrow> (Inl (Thrown e), c) | (Inr x, c) \<Rightarrow> (Inr x, c))"

fun and_then :: "'a command \<Rightarrow> ('a \<Rightarrow> 'b command) \<Rightarrow> 'b command" where
  "and_then m k c = (case m c of (Inl e, c) \<Rightarrow> (Inl e, c) | (Inr x, c) \<Rightarrow> k x c)"

definition fails :: "int \<Rightarrow> string \<Rightarrow> 'a command" where
  "fails code message c = (Inl (CommandError code message), c)"

definition returns :: "'a \<Rightarrow> 'a command" where
  "returns x c = (Inr x, c)"

definition opens :: "cli_env \<Rightarrow> unit command" where
  "opens env = calls (client_connect (cv_alloc env) (cv_clock env 0) (cv_clock env 1) (cv_gai env)
     (cv_addresses env) (cv_tls env))"

definition new_connection :: "cli_env \<Rightarrow> globals \<Rightarrow> client" where
  "new_connection env g = make_client (client_options_of env g) (cv_link env)"

section \<open>Uploads\<close>

text \<open>The first pass over the file: the bytes that go into the digest.\<close>

function hash_loop :: "string \<Rightarrow> u64 \<Rightarrow> u64 \<Rightarrow> bytes \<Rightarrow> bytes \<Rightarrow> cli_error + bytes" where
  "hash_loop file total_size hashed rest seen =
     (if hashed < total_size
      then let got = take (1024 * 1024) rest
           in if got = [] then Inl (CommandError 7 (''read failed: '' @ file))
              else hash_loop file total_size (hashed + of_nat (length got)) (drop (1024 * 1024) rest) (seen @ got)
      else Inr seen)"
  by pat_completeness auto

termination hash_loop
  by (relation "measure (\<lambda>(file, total_size, hashed, rest, seen). length rest)") auto

declare hash_loop.simps [simp del]

lemma send_bytes_unread: "unread (snd (send_bytes data c)) = unread c"
  by (simp add: send_bytes_def unread_def split: prod.split)

lemma client_request_unread:
  assumes "client_request alloc clock type payload c = (Inr frame, c')" shows "unread c' < unread c"
proof -
  obtain u1 c1 where s: "send_frame alloc ''encode request failed'' clock (msg_value type) (buf_data payload) (buf_len payload) c = (Inr u1, c1)"
    and r: "op_bind (read_frame alloc) (\<lambda>frame. op_bind (throw_received frame) (\<lambda>u.
       if frame_type frame \<noteq> msg_value FR_MSG_OK \<and> frame_type frame \<noteq> msg_value FR_MSG_DATA
       then op_throw FR_E_PROTOCOL ''unexpected response frame type'' else op_return frame)) c1 = (Inr frame, c')"
    using assms unfolding client_request_def by (auto split: prod.splits sum.splits)
  have "unread c1 = unread c"
    using s send_bytes_unread by (auto simp: send_frame_def op_throw_def throw_error_def split: prod.splits if_splits)
      (metis snd_conv)
  moreover obtain g c2 where g: "read_frame alloc c1 = (Inr g, c2)"
    and t: "op_bind (throw_received g) (\<lambda>u.
       if frame_type g \<noteq> msg_value FR_MSG_OK \<and> frame_type g \<noteq> msg_value FR_MSG_DATA
       then op_throw FR_E_PROTOCOL ''unexpected response frame type'' else op_return g) c2 = (Inr frame, c')"
    using r by (auto simp del: msg_value.simps split: prod.splits sum.splits)
  moreover obtain u3 c3 where x: "throw_received g c2 = (Inr u3, c3)" "c' = c3"
    using t by (auto simp: op_throw_def op_return_def throw_error_def split: prod.splits sum.splits if_splits)
  moreover have "c3 = c2" using throw_received_state [of g c2] x(1) by simp
  ultimately show ?thesis using read_frame_unread [OF g] by simp
qed

lemma client_put_chunk_unread:
  assumes "client_put_chunk alloc clock sid ordinal data c = (Inr ok, c')" shows "unread c' < unread c"
proof -
  obtain payload frame where "client_request alloc clock FR_MSG_PUT_CHUNK payload c = (Inr frame, c')"
    using assms by (auto simp: client_put_chunk_def exchange_def op_lift_def split: prod.splits sum.splits)
  then show ?thesis by (rule client_request_unread)
qed

text \<open>The second pass: one request per chunk; the clock has been read \<open>n\<close> times.\<close>

function upload_loop ::
  "cli_env \<Rightarrow> string \<Rightarrow> CreateUploadOk \<Rightarrow> u64 \<Rightarrow> nat \<Rightarrow> u64 \<Rightarrow> u64 \<Rightarrow> bytes \<Rightarrow> nat command" where
  "upload_loop env file session total_size n ordinal sent rest c =
     (if sent < total_size
      then let want = (if total_size - sent < co_chunk_size session then total_size - sent else co_chunk_size session);
               got = take (unat want) rest
           in if length got \<noteq> unat want then fails 7 (''read failed: '' @ file) c
              else case client_put_chunk (cv_alloc env) (cv_clock env n) (co_session_id session) ordinal got c of
                     (Inl e, c) \<Rightarrow> (Inl (Thrown e), c)
                   | (Inr ok, c) \<Rightarrow>
                       upload_loop env file session total_size (n + 1) (ordinal + 1) (sent + of_nat (length got))
                         (drop (unat want) rest) c
      else returns n c)"
  by pat_completeness auto

termination upload_loop
  by (relation "measure (\<lambda>(env, file, session, total_size, n, ordinal, sent, rest, c). unread c)")
    (auto dest: client_put_chunk_unread [OF sym])

declare upload_loop.simps [simp del]

text \<open>
  \<open>input\<close> is what opening the file gives: its size by \<open>tellg\<close>, and what the two passes
  read.
\<close>

definition cmd_upload ::
  "cli_env \<Rightarrow> string \<Rightarrow> (u64 \<times> bytes \<times> bytes) option \<Rightarrow> string \<Rightarrow> string \<Rightarrow> string \<Rightarrow> CommitUploadOk command" where
  "cmd_upload env file input ns name version =
     (case input of
        None \<Rightarrow> fails 7 (''cannot open local file: '' @ file)
      | Some (total_size, first, second) \<Rightarrow>
          (case hash_loop file total_size 0 first [] of
             Inl e \<Rightarrow> (\<lambda>c. (Inl e, c))
           | Inr seen \<Rightarrow>
               and_then (opens env) (\<lambda>u.
               and_then (calls (client_create_upload (cv_alloc env) (cv_clock env 2) ns name version total_size
                  (sha256_to_hex (cv_sha env seen)))) (\<lambda>session.
               and_then (upload_loop env file session total_size 3 0 0 second) (\<lambda>n.
                 calls (client_commit_upload (cv_alloc env) (cv_clock env n) (co_session_id session)))))))"

section \<open>Downloads\<close>

text \<open>
  The outcome of the local operations: the content of the file \<^verbatim>\<open>.part\<close>, if there is
  one; whether it can be opened; which writes succeed; and the two renames.
\<close>

record local_files =
  lf_part :: "bytes option"
  lf_opens :: bool
  lf_writes :: "bytes list \<Rightarrow> bool"
  lf_renames :: bool
  lf_renames_again :: bool

text \<open>
  The result, with the content that the command leaves in \<^verbatim>\<open>.part\<close> and in the output
  file (None for a file that it has not written). A piece that cannot be written leaves nothing.
\<close>

definition cmd_download ::
  "cli_env \<Rightarrow> local_files \<Rightarrow> string \<Rightarrow> string \<Rightarrow> bool \<Rightarrow> client \<Rightarrow>
     ((cli_error + u64) \<times> bytes option \<times> bytes option) \<times> client" where
  "cmd_download env files ref output resume c =
     (let (ns, name, version) = split_ref ref; part = lf_part files
      in if ref_malformed ref
         then ((usage_error ''artifact ref must be <ns>/<name>:<version>'', part, None), c)
         else case and_then (opens env) (\<lambda>u. calls (client_show_artifact (cv_alloc env) (cv_clock env 2) ns name version)) c of
                (Inl e, c) \<Rightarrow> ((Inl e, part, None), c)
              | (Inr info, c) \<Rightarrow>
                  let len = ai_size (sa_info info);
                      offset = (case (resume, part) of
                                  (True, Some bs) \<Rightarrow> if (of_nat (length bs) :: u64) < len then of_nat (length bs) else 0
                                | _ \<Rightarrow> 0)
                  in if \<not> lf_opens files
                     then ((Inl (CommandError 7 (''cannot open output file: '' @ output)), part, None), c)
                     else let kept = (if offset \<noteq> 0 then (case part of Some bs \<Rightarrow> bs | None \<Rightarrow> []) else [])
                          in case client_download (cv_alloc env) (cv_clock env 3) ns name version offset (len - offset)
                                    (lf_writes files) c of
                               (Inl None, pieces, c) \<Rightarrow>
                                 ((Inl (CommandError 7 (''write failed: '' @ output)), Some (kept @ concat (butlast pieces)), None), c)
                             | (Inl (Some e), pieces, c) \<Rightarrow> ((Inl (Thrown e), Some (kept @ concat pieces), None), c)
                             | (Inr received, pieces, c) \<Rightarrow>
                                 (if lf_renames files \<or> lf_renames_again files
                                  then (Inr received, None, Some (kept @ concat pieces))
                                  else (Inr received, Some (kept @ concat pieces), None), c))"

section \<open>Exit codes\<close>

text \<open>The handlers of \<open>main\<close>: the exit code of a command.\<close>

fun exit_status :: "cli_error + 'a \<Rightarrow> int" where
  "exit_status (Inr x) = exit_value Ok"
| "exit_status (Inl (CommandError code message)) = code"
| "exit_status (Inl (Thrown (Err code message))) = exit_value (exit_code_for code)"
| "exit_status (Inl (Thrown (StdExc message))) = exit_value Network"

end
