(* ===== verification/Commands.thy ===== *)
theory Commands
  imports Frctl
begin

text \<open>
  The commands of \<^verbatim>\<open>src/apps/frctl/main.cpp\<close> and its \<open>main\<close>. A command returns
  what it reports, without the layout of its output.
\<close>

section \<open>Options of commands\<close>

text \<open>Options come in pairs; a pair with another key is skipped.\<close>

fun list_options :: "string list \<Rightarrow> string option \<times> string option \<times> u32 \<Rightarrow> cli_error + string option \<times> string option \<times> u32" where
  "list_options (key # value # rest) (ns, name, limit) =
     (if key = ''--namespace'' then list_options rest (Some value, name, limit)
      else if key = ''--name'' then list_options rest (ns, Some value, limit)
      else if key = ''--limit''
      then (case stoul value of
              Inl e \<Rightarrow> Inl (Thrown e)
            | Inr n \<Rightarrow> list_options rest (ns, name, ucast n))
      else list_options rest (ns, name, limit))"
| "list_options args acc = Inr acc"

fun upload_options :: "string list \<Rightarrow> string \<times> string \<times> string \<Rightarrow> string \<times> string \<times> string" where
  "upload_options (key # value # rest) (ns, name, version) =
     upload_options rest
       (if key = ''--namespace'' then (value, name, version)
        else if key = ''--name'' then (ns, value, version)
        else if key = ''--version'' then (ns, name, value)
        else (ns, name, version))"
| "upload_options args acc = acc"

fun download_options :: "string list \<Rightarrow> string \<times> bool \<Rightarrow> string \<times> bool" where
  "download_options [] acc = acc"
| "download_options [arg] (path, resume) = (path, arg = ''--resume'' \<or> resume)"
| "download_options (arg # value # rest) (path, resume) =
     (if arg = ''--output'' then download_options rest (value, resume)
      else download_options (value # rest) (path, arg = ''--resume'' \<or> resume))"

section \<open>Reports\<close>

datatype report =
    Published CommitUploadOk
  | Downloaded string string u64
  | Artifacts "ArtifactSummary list"
  | Described ShowArtifactOk
  | Deleted int
  | Sessions "SessionItem list"
  | Aborted
  | Collected bool RunGcOk
  | State StatusOk
  | UserAdded string string
  | UserDisabled string
  | Users "UserItem list"
  | TokenShown string
  | TokenRevoked
  | Tokens "TokenItem list"

text \<open>An operation of the client whose result is reported.\<close>

definition reports :: "('a \<Rightarrow> report) \<Rightarrow> (client, 'a) op \<Rightarrow> report command" where
  "reports f m = and_then (calls m) (\<lambda>x. returns (f x))"

definition usage :: "string \<Rightarrow> 'a command" where
  "usage message c = (usage_error message, c)"

section \<open>Commands\<close>

definition cmd_artifact :: "cli_env \<Rightarrow> globals \<Rightarrow> string list \<Rightarrow> report command" where
  "cmd_artifact env g args =
     (let alloc = cv_alloc env; clock = cv_clock env 2
      in if args = [] then usage ''artifact requires list|show|delete''
         else and_then (opens env) (\<lambda>u.
           if hd args = ''list''
           then (case list_options (tl args) (None, None, 50) of
                   Inl e \<Rightarrow> (\<lambda>c. (Inl e, c))
                 | Inr (ns, name, limit) \<Rightarrow> reports Artifacts (client_list_artifacts alloc clock ns name limit 0))
           else if hd args = ''show''
           then (if length args < 2 then usage ''artifact show requires <ns>/<name>:<version>''
                 else let (ns, name, version) = split_ref (args ! 1)
                      in reports Described (client_show_artifact alloc clock ns name version))
           else if hd args = ''delete''
           then (if length args < 2 then usage ''artifact delete requires <ns>/<name>:<version>''
                 else if \<not> gl_confirm g then fails 2 ''refusing to delete without --confirm (CLI-02)''
                 else let (ns, name, version) = split_ref (args ! 1)
                      in reports Deleted (client_delete_artifact alloc clock ns name version))
           else usage (''unknown artifact subcommand: '' @ hd args)))"

definition cmd_session :: "cli_env \<Rightarrow> globals \<Rightarrow> string list \<Rightarrow> report command" where
  "cmd_session env g args =
     (let alloc = cv_alloc env; clock = cv_clock env 2
      in and_then (opens env) (\<lambda>u.
           if args = [] \<or> hd args = ''list'' then reports Sessions (client_session_list alloc clock)
           else if hd args = ''abort''
           then (if length args < 2 then usage ''session abort requires <session-id>''
                 else if \<not> gl_confirm g then fails 2 ''refusing to abort without --confirm (CLI-02)''
                 else reports (\<lambda>u. Aborted) (client_session_abort alloc clock (args ! 1)))
           else usage (''unknown session subcommand: '' @ hd args)))"

definition cmd_gc :: "cli_env \<Rightarrow> globals \<Rightarrow> string list \<Rightarrow> report command" where
  "cmd_gc env g args =
     (let dry_run = (''--dry-run'' \<in> set args); confirm = (gl_confirm g \<or> ''--confirm'' \<in> set args)
      in if \<not> dry_run \<and> \<not> confirm then fails 2 ''refusing to run real GC without --confirm (CLI-02)''
         else and_then (opens env) (\<lambda>u. reports (Collected dry_run) (client_gc (cv_alloc env) (cv_clock env 2) dry_run)))"

definition cmd_status :: "cli_env \<Rightarrow> report command" where
  "cmd_status env = and_then (opens env) (\<lambda>u. reports State (client_status (cv_alloc env) (cv_clock env 2)))"

definition cmd_user :: "cli_env \<Rightarrow> string list \<Rightarrow> report command" where
  "cmd_user env args =
     (let alloc = cv_alloc env; clock = cv_clock env 2
      in if args = [] then usage ''user requires add|disable|list''
         else and_then (opens env) (\<lambda>u.
           if hd args = ''add''
           then (if length args < 3 then usage ''user add requires <name> <Reader|Publisher|Admin>''
                 else case role_from (args ! 2) of
                        None \<Rightarrow> usage ''role must be Reader|Publisher|Admin''
                      | Some role \<Rightarrow>
                          reports (\<lambda>u. UserAdded (args ! 1) (args ! 2)) (client_user_add alloc clock (args ! 1) role))
           else if hd args = ''disable''
           then (if length args < 2 then usage ''user disable requires <name>''
                 else reports (\<lambda>u. UserDisabled (args ! 1)) (client_user_disable alloc clock (args ! 1)))
           else if hd args = ''list'' then reports Users (client_user_list alloc clock)
           else usage (''unknown user subcommand: '' @ hd args)))"

definition cmd_token :: "cli_env \<Rightarrow> string list \<Rightarrow> report command" where
  "cmd_token env args =
     (let alloc = cv_alloc env; clock = cv_clock env 2
      in if args = [] then usage ''token requires create|revoke|list''
         else and_then (opens env) (\<lambda>u.
           if hd args = ''create''
           then (if length args < 2 then usage ''token create requires <username> [ttl-hours]''
                 else case (if length args \<ge> 3 then stoul (args ! 2) else Inr 0) of
                        Inl e \<Rightarrow> (\<lambda>c. (Inl (Thrown e), c))
                      | Inr ttl \<Rightarrow> reports TokenShown (client_token_create alloc clock (args ! 1) (ucast ttl)))
           else if hd args = ''revoke''
           then (if length args < 2 then usage ''token revoke requires <token-id>''
                 else case stoull (args ! 1) of
                        Inl e \<Rightarrow> (\<lambda>c. (Inl (Thrown e), c))
                      | Inr token_id \<Rightarrow> reports (\<lambda>u. TokenRevoked) (client_token_revoke alloc clock token_id))
           else if hd args = ''list''
           then (if length args < 2 then usage ''token list requires <username>''
                 else reports Tokens (client_token_list alloc clock (args ! 1)))
           else usage (''unknown token subcommand: '' @ hd args)))"

section \<open>The program\<close>

text \<open>
  What is found on the local disk: the file to upload, and what surrounds the file to write. The
  last component of a result is what a download leaves there.
\<close>

record disk =
  dk_input :: "string \<Rightarrow> (u64 \<times> bytes \<times> bytes) option"
  dk_output :: "string \<Rightarrow> local_files"

definition run_download :: "cli_env \<Rightarrow> disk \<Rightarrow> string list \<Rightarrow> client \<Rightarrow>
    ((cli_error + report) \<times> (string \<times> bytes option \<times> bytes option) option) \<times> client" where
  "run_download env disk args c =
     (if args = [] then ((usage_error ''download requires <ns>/<name>:<version>'', None), c)
      else let (path, resume) = download_options (tl args) ([], False)
           in if path = [] then ((usage_error ''download requires --output <path>'', None), c)
              else case cmd_download env (dk_output disk path) (hd args) path resume c of
                     ((Inl e, files), c) \<Rightarrow> ((Inl e, Some (path, files)), c)
                   | ((Inr n, files), c) \<Rightarrow> ((Inr (Downloaded (hd args) path n), Some (path, files)), c))"

definition run_upload :: "cli_env \<Rightarrow> disk \<Rightarrow> string list \<Rightarrow> report command" where
  "run_upload env disk args =
     (if args = [] then usage ''upload requires <file>''
      else let (ns, name, version) = upload_options (tl args) (''default'', [], [])
           in if name = [] \<or> version = [] then usage ''upload requires --name and --version''
              else and_then (cmd_upload env (hd args) (dk_input disk (hd args)) ns name version) (\<lambda>ok. returns (Published ok)))"

definition run_command :: "cli_env \<Rightarrow> globals \<Rightarrow> disk \<Rightarrow> string list \<Rightarrow> client \<Rightarrow>
    ((cli_error + report) \<times> (string \<times> bytes option \<times> bytes option) option) \<times> client" where
  "run_command env g disk command c =
     (let quiet = (\<lambda>m. case m c of (r, c) \<Rightarrow> ((r, None), c))
      in case command of
           [] \<Rightarrow> quiet (usage ''no command given'')
         | cmd # rest \<Rightarrow>
             if cmd = ''upload'' then quiet (run_upload env disk rest)
             else if cmd = ''download'' then run_download env disk rest c
             else if cmd = ''artifact'' then quiet (cmd_artifact env g rest)
             else if cmd = ''session'' then quiet (cmd_session env g rest)
             else if cmd = ''gc'' then quiet (cmd_gc env g rest)
             else if cmd = ''status'' then quiet (cmd_status env)
             else if cmd = ''user'' then quiet (cmd_user env rest)
             else if cmd = ''token'' then quiet (cmd_token env rest)
             else quiet (usage (''unknown command: '' @ cmd)))"

text \<open>The exit code, and the connection as the destructor of the client leaves it.\<close>

definition frctl_main :: "cli_env \<Rightarrow> disk \<Rightarrow> string list \<Rightarrow> int \<times> client option" where
  "frctl_main env disk argv =
     (case parse_args argv default_globals [] of
        Inl e \<Rightarrow> (exit_status (Inl e :: cli_error + report), None)
      | Inr Help \<Rightarrow> (0, None)
      | Inr (Command g command) \<Rightarrow>
          (case run_command env g disk command (new_connection env g) of
             ((r, files), c) \<Rightarrow> (exit_status r, Some (client_close (cv_alloc env) c))))"

end
