(* ===== verification/FrctlProps.thy ===== *)
theory FrctlProps
  imports Frctl
begin

text \<open>
  What the commands of \<^verbatim>\<open>frctl\<close> do to the server and to local files: an upload
  sends the whole file in chunks, a download writes what it receives and trusts what it finds,
  and nothing is deleted without confirmation.
\<close>

section \<open>References\<close>

lemma find_char_append:
  assumes "c \<notin> set xs" shows "find_char c (xs @ c # ys) = of_nat (length xs)"
  using takeWhile_stop [OF assms] by (simp add: find_char_def)

lemma rfind_char_append:
  assumes "c \<notin> set ys" shows "rfind_char c (xs @ c # ys) = of_nat (length xs)"
  using takeWhile_stop [of c "rev ys" "rev xs"] assms by (simp add: rfind_char_def)

text \<open>References are split as they are written: a namespace without a slash and a version
  without a colon are recovered exactly, whatever the name between them is.\<close>

theorem split_ref_exact:
  assumes "CHR ''/'' \<notin> set ns" and "CHR '':'' \<notin> set version"
    and "length (ns @ ''/'' @ name @ '':'' @ version) < 2 ^ 63"
  shows "split_ref (ns @ ''/'' @ name @ '':'' @ version) = (ns, name, version) \<and>
     \<not> ref_malformed (ns @ ''/'' @ name @ '':'' @ version)"
proof -
  let ?s = "ns @ ''/'' @ name @ '':'' @ version"
  have slash: "find_char (CHR ''/'') ?s = of_nat (length ns)" using find_char_append [OF assms(1)] by simp
  have colon: "rfind_char (CHR '':'') ?s = of_nat (length ns + 1 + length name)"
    using rfind_char_append [OF assms(2), of "ns @ ''/'' @ name"] by simp
  have len: "length ns + length name + length version + 2 < 2 ^ 63" using assms(3) by simp
  let ?a = "of_nat (length ns) :: u64" and ?b = "of_nat (length ns + 1 + length name) :: u64"
  have a: "unat ?a = length ns" "unat (?a + 1) = length ns + 1" and b: "unat ?b = length ns + 1 + length name"
    "unat (?b + 1) = length ns + 2 + length name"
    using len by (simp_all add: unat_of_nat unat_word_ariths)
  have d: "?b - ?a - 1 = of_nat (length name)" by simp
  have c: "unat (?b - ?a - 1) = length name" unfolding d using len by (simp add: unat_of_nat)
  have n: "unat npos = 2 ^ 64 - 1" by (simp add: npos_def unsigned_minus_1_eq_mask mask_eq_exp_minus_1)
  have "substr ?s 0 ?a = ns" by (simp add: substr_def a)
  moreover have "substr ?s (?a + 1) (?b - ?a - 1) = name" unfolding substr_def a(2) c by simp
  moreover have "substr ?s (?b + 1) npos = version" unfolding substr_def b(2) n using len by simp
  ultimately have "split_ref ?s = (ns, name, version)" unfolding split_ref_def Let_def slash colon by simp
  moreover have "?a \<noteq> npos" "?b \<noteq> npos" "\<not> ?b < ?a"
    using a b n len by (auto simp: word_unat_eq_iff word_less_nat_alt)
  then have "\<not> ref_malformed ?s" unfolding ref_malformed_def Let_def slash colon by simp
  ultimately show ?thesis ..
qed

theorem split_ref_exact_witness: "split_ref ''libs/zlib:v:1.0'' = (''libs'', ''zlib:v'', ''1.0'')"
  using split_ref_exact [of "''libs''" "''1.0''" "''zlib:v''"] by simp

section \<open>Uploads\<close>

text \<open>The chunks of a file.\<close>

function cut :: "nat \<Rightarrow> bytes \<Rightarrow> bytes list" where
  "cut n bs = (if n = 0 \<or> bs = [] then [] else take n bs # cut n (drop n bs))"
  by pat_completeness auto

termination cut
  by (relation "measure (\<lambda>(n, bs). length bs)") auto

declare cut.simps [simp del]

lemma concat_cut: "0 < n \<Longrightarrow> concat (cut n bs) = bs"
  by (induction n bs rule: cut.induct) (subst cut.simps, simp)

text \<open>The requests that carry them, one after the other.\<close>

fun chunk_requests :: "string \<Rightarrow> u64 \<Rightarrow> bytes list \<Rightarrow> fr_frame list \<Rightarrow> bool" where
  "chunk_requests sid ordinal [] fs = (fs = [])"
| "chunk_requests sid ordinal (d # ds) fs =
     (case fs of
        [] \<Rightarrow> False
      | f # fs \<Rightarrow> frame_type f = msg_value FR_MSG_PUT_CHUNK \<and>
          decode_put_chunk_req f = Inr \<lparr>pc_session_id = sid, pc_ordinal = ordinal, pc_data = d\<rparr> \<and>
          chunk_requests sid (ordinal + 1) ds fs)"

text \<open>A payload that fits into a frame, and its request.\<close>

lemma request_payload:
  assumes "granted alloc" and "\<And>alloc. granted alloc \<Longrightarrow> emits (enc alloc x) bs" and "length bs \<le> FR_FRAME_MAX_PAYLOAD"
    and "roundtrips enc dec x"
  shows "\<exists>payload. enc alloc x fr_buf_init = Inr payload \<and> buf_wf payload \<and> buf_bytes payload = bs \<and>
     (\<forall>f. carries f bs \<longrightarrow> dec f = Inr x)"
proof -
  obtain payload where p: "enc alloc x fr_buf_init = Inr payload" "\<forall>f. carries f (buf_bytes payload) \<longrightarrow> dec f = Inr x"
    using assms(1,4) unfolding roundtrips_def by blast
  moreover have "buf_bytes payload = bs \<and> buf_wf payload"
    using assms(2) [OF assms(1)] p(1) assms(3) unfolding emits_def room_def FR_FRAME_MAX_PAYLOAD_def
    by (auto dest!: spec [of _ fr_buf_init])
  ultimately show ?thesis by blast
qed

lemma exchange_answered:
  assumes "granted alloc" and "\<And>alloc. granted alloc \<Longrightarrow> emits (enc alloc x) bs" and "length bs \<le> FR_FRAME_MAX_PAYLOAD"
    and "roundtrips enc dec x" and "sends_on (cl_link c) (m + 20 + length bs)"
    and "receiving alloc (g # gs) rest c" and "frame_type g = msg_value FR_MSG_OK \<or> frame_type g = msg_value FR_MSG_DATA"
  shows "\<exists>c' fr f. exchange alloc clock type (enc alloc x) c = (Inr g, c') \<and>
     ln_sent (cl_link c') = ln_sent (cl_link c) @ fr \<and> framed [f] fr \<and> frame_type f = msg_value type \<and>
     dec f = Inr x \<and> receiving alloc gs rest c' \<and> sends_on (cl_link c') m"
proof -
  obtain payload where p: "enc alloc x fr_buf_init = Inr payload" "buf_wf payload" "buf_bytes payload = bs"
    "\<And>f. carries f bs \<Longrightarrow> dec f = Inr x"
    using request_payload [OF assms(1-4)] by blast
  have "length (buf_bytes payload) \<le> FR_FRAME_MAX_PAYLOAD" using assms(3) p(3) by simp
  moreover have "sends_on (cl_link c) (m + 20 + length (buf_bytes payload))" using assms(5) p(3) by simp
  ultimately obtain c' fr where "client_request alloc clock type payload c = (Inr g, c')"
    "ln_sent (cl_link c') = ln_sent (cl_link c) @ fr" "framed [reply_frame type (req_id_of clock) bs] fr"
    "receiving alloc gs rest c'" "sends_on (cl_link c') m"
    using request_answered [OF _ p(2) _ assms(6), of m clock type] assms(7) p(3)
    by (auto simp: msg_value_inj simp del: framed.simps msg_value.simps)
  then show ?thesis
    using p(1) p(4) [OF carries_reply]
    by (intro exI [of _ c'] exI [of _ fr] exI [of _ "reply_frame type (req_id_of clock) bs"])
      (simp add: exchange_def op_lift_def del: framed.simps msg_value.simps)
qed

lemma put_chunk_emits:
  "granted alloc \<Longrightarrow> str_ok (pc_session_id req) \<Longrightarrow> emits (encode_put_chunk_req alloc req) (enc_put_chunk_req req)"
  unfolding encode_put_chunk_req_def enc_put_chunk_req_def by (intro emit_intros)

lemma put_chunk_answered:
  assumes "granted alloc" and "str_ok sid" and "length sid + 10 + length data \<le> FR_FRAME_MAX_PAYLOAD"
    and "sends_on (cl_link c) (m + 30 + length sid + length data)" and "receiving alloc (g # gs) rest c"
    and "frame_type g = msg_value FR_MSG_OK" and "decode_put_chunk_ok g = Inr ok"
  shows "\<exists>c' fr f. client_put_chunk alloc clock sid ordinal data c = (Inr ok, c') \<and>
     ln_sent (cl_link c') = ln_sent (cl_link c) @ fr \<and> framed [f] fr \<and> frame_type f = msg_value FR_MSG_PUT_CHUNK \<and>
     decode_put_chunk_req f = Inr \<lparr>pc_session_id = sid, pc_ordinal = ordinal, pc_data = data\<rparr> \<and>
     receiving alloc gs rest c' \<and> sends_on (cl_link c') m"
proof -
  let ?req = "\<lparr>pc_session_id = sid, pc_ordinal = ordinal, pc_data = data\<rparr>"
  have len: "length (enc_put_chunk_req ?req) = length sid + 10 + length data" by (simp add: enc_put_chunk_req_def enc_str_def)
  have "put_chunk_req_ok ?req" using assms(2,3) by (simp add: put_chunk_req_ok_def)
  note rt = roundtrip_put_chunk_req [OF this]
  have sends: "sends_on (cl_link c) (m + 20 + length (enc_put_chunk_req ?req))" unfolding len using assms(4) by (simp add: add.commute add.left_commute)
  have emits: "emits (encode_put_chunk_req al ?req) (enc_put_chunk_req ?req)" if "granted al" for al
    using put_chunk_emits [OF that, of ?req] assms(2) by simp
  have bound: "length (enc_put_chunk_req ?req) \<le> FR_FRAME_MAX_PAYLOAD" unfolding len by (rule assms(3))
  obtain c' fr f where "exchange alloc clock FR_MSG_PUT_CHUNK (encode_put_chunk_req alloc ?req) c = (Inr g, c')"
    "ln_sent (cl_link c') = ln_sent (cl_link c) @ fr" "framed [f] fr" "frame_type f = msg_value FR_MSG_PUT_CHUNK"
    "decode_put_chunk_req f = Inr ?req" "receiving alloc gs rest c'" "sends_on (cl_link c') m"
    using exchange_answered [where enc = encode_put_chunk_req, OF assms(1) emits bound rt sends assms(5) disjI1 [OF assms(6)], of clock FR_MSG_PUT_CHUNK]
    by blast
  then show ?thesis
    using assms(7) by (intro exI [of _ c'] exI [of _ fr] exI [of _ f])
      (simp add: client_put_chunk_def op_lift_def del: framed.simps msg_value.simps)
qed

text \<open>The second pass sends the file.\<close>

lemma upload_loop_sends:
  assumes "granted (cv_alloc env)" and sid: "str_ok (co_session_id session)"
    and k: "0 < unat (co_chunk_size session)"
    and "length (co_session_id session) + 10 + unat (co_chunk_size session) \<le> FR_FRAME_MAX_PAYLOAD"
  shows "receiving (cv_alloc env) (puts @ gs) rest' c \<Longrightarrow>
     \<forall>g\<in>set puts. frame_type g = msg_value FR_MSG_OK \<and> (\<exists>ok. decode_put_chunk_ok g = Inr ok) \<Longrightarrow>
     length puts = length (cut (unat (co_chunk_size session)) rest) \<Longrightarrow> unat total_size = unat sent + length rest \<Longrightarrow>
     sends_on (cl_link c) (m + (30 + length (co_session_id session)) * length puts + length rest) \<Longrightarrow>
     \<exists>n' c' frames bs. upload_loop env file session total_size n ordinal sent rest c = (Inr n', c') \<and>
       ln_sent (cl_link c') = ln_sent (cl_link c) @ bs \<and> framed frames bs \<and>
       chunk_requests (co_session_id session) ordinal (cut (unat (co_chunk_size session)) rest) frames \<and>
       receiving (cv_alloc env) gs rest' c' \<and> sends_on (cl_link c') m"
proof (induction puts arbitrary: rest ordinal sent n c)
  case Nil
  have cut: "cut (unat (co_chunk_size session)) rest = []" using Nil.prems(3) by simp
  then have "rest = []" using k by (subst (asm) cut.simps) (simp split: if_splits)
  then have "\<not> sent < total_size" using Nil.prems(4) by (simp add: word_less_nat_alt)
  then have "upload_loop env file session total_size n ordinal sent rest c = (Inr n, c)" by (subst upload_loop.simps) (simp add: returns_def)
  then show ?case
    using Nil.prems(1,5) cut by (intro exI [of _ n] exI [of _ c] exI [of _ "[]"]) (simp add: sends_on_def)
next
  case (Cons g puts)
  let ?k = "unat (co_chunk_size session)" and ?sid = "co_session_id session"
  have "rest \<noteq> []" using Cons.prems(3) by (auto simp: cut.simps)
  then have cut: "cut ?k rest = take ?k rest # cut ?k (drop ?k rest)" using k by (subst cut.simps) simp
  let ?d = "take ?k rest"
  let ?want = "if total_size - sent < co_chunk_size session then total_size - sent else co_chunk_size session"
  have le: "sent \<le> total_size" "sent < total_size" using Cons.prems(4) \<open>rest \<noteq> []\<close> by (simp_all add: word_le_nat_alt word_less_nat_alt)
  have "unat (total_size - sent) = length rest" using Cons.prems(4) le(1) by (simp add: unat_sub word_le_nat_alt)
  then have want: "unat ?want = length ?d" by (auto simp: word_less_nat_alt min_def)
  have d: "take (length ?d) rest = ?d" "drop (length ?d) rest = drop ?k rest"
    by (cases "length rest \<le> ?k"; simp)+
  obtain ok where g: "frame_type g = msg_value FR_MSG_OK" "decode_put_chunk_ok g = Inr ok" using Cons.prems(2) by auto
  have sends: "sends_on (cl_link c) (m + (30 + length ?sid) * length puts + length (drop ?k rest) + 30 + length ?sid + length ?d)"
    using Cons.prems(5) arg_cong [OF append_take_drop_id [of ?k rest], of length]
    by (simp add: sends_on_def algebra_simps del: append_take_drop_id)
  have fits: "length ?sid + 10 + length ?d \<le> FR_FRAME_MAX_PAYLOAD" using assms(4) by simp
  obtain c1 fr f where c1: "client_put_chunk (cv_alloc env) (cv_clock env n) ?sid ordinal ?d c = (Inr ok, c1)"
    "ln_sent (cl_link c1) = ln_sent (cl_link c) @ fr" "framed [f] fr" "frame_type f = msg_value FR_MSG_PUT_CHUNK"
    "decode_put_chunk_req f = Inr \<lparr>pc_session_id = ?sid, pc_ordinal = ordinal, pc_data = ?d\<rparr>"
    "receiving (cv_alloc env) (puts @ gs) rest' c1"
    "sends_on (cl_link c1) (m + (30 + length ?sid) * length puts + length (drop ?k rest))"
    using put_chunk_answered [OF assms(1) sid fits sends Cons.prems(1) [unfolded append_Cons] g, of "cv_clock env n" ordinal]
    by blast
  let ?sent = "sent + of_nat (length ?d)"
  have split: "unat total_size = unat sent + length ?d + length (drop ?k rest)"
    using Cons.prems(4) arg_cong [OF append_take_drop_id [of ?k rest], of length] by (simp del: append_take_drop_id)
  have "unat total_size < 2 ^ 64" using unsigned_less [of total_size] by simp
  then have "unat sent + length ?d < 2 ^ 64" using split by linarith
  then have "unat ?sent = unat sent + length ?d" by (simp add: unat_word_ariths unat_of_nat mod_add_right_eq)
  then have us: "unat total_size = unat ?sent + length (drop ?k rest)" using split by linarith
  have rest: "length puts = length (cut ?k (drop ?k rest))" using Cons.prems(3) unfolding cut by simp
  have "\<forall>g\<in>set puts. frame_type g = msg_value FR_MSG_OK \<and> (\<exists>ok. decode_put_chunk_ok g = Inr ok)" using Cons.prems(2) by simp
  from Cons.IH [OF c1(6) this rest us c1(7), of "n + 1" "ordinal + 1"]
  obtain n' c' frames bs where IH: "upload_loop env file session total_size (n + 1) (ordinal + 1) ?sent (drop ?k rest) c1 = (Inr n', c')"
    "ln_sent (cl_link c') = ln_sent (cl_link c1) @ bs" "framed frames bs"
    "chunk_requests ?sid (ordinal + 1) (cut ?k (drop ?k rest)) frames" "receiving (cv_alloc env) gs rest' c'" "sends_on (cl_link c') m"
    by blast
  have "upload_loop env file session total_size n ordinal sent rest c = (Inr n', c')"
    by (subst upload_loop.simps)
      (simp only: Let_def d want le(2) if_True not_not simp_thms if_False c1(1) IH(1) prod.case sum.case)
  moreover have "framed (f # frames) (fr @ bs)" using framed_append [OF c1(3) IH(3)] by simp
  moreover have "chunk_requests ?sid ordinal (cut ?k rest) (f # frames)" unfolding cut using c1(4,5) IH(4) by simp
  ultimately show ?case
    using IH(2,5,6) c1(2) by (intro exI [of _ n'] exI [of _ c'] exI [of _ "f # frames"] exI [of _ "fr @ bs"]) (simp del: framed.simps)
qed

lemma sends_on_less: "sends_on link n \<Longrightarrow> m \<le> n \<Longrightarrow> sends_on link m"
  by (simp add: sends_on_def)

lemma hash_loop_all:
  "unat total_size = unat hashed + length rest \<Longrightarrow> hash_loop file total_size hashed rest seen = Inr (seen @ rest)"
proof (induction "file" total_size hashed rest seen rule: hash_loop.induct)
  case (1 "file" total_size hashed rest seen)
  show ?case
  proof (cases "rest = []")
    case True
    then show ?thesis using 1(2) by (subst hash_loop.simps) (simp add: word_less_nat_alt)
  next
    case False
    let ?k = "1024 * 1024"
    have less: "hashed < total_size" using False 1(2) by (simp add: word_less_nat_alt)
    have split: "unat total_size = unat hashed + length (take ?k rest) + length (drop ?k rest)"
      using 1(2) arg_cong [OF append_take_drop_id [of ?k rest], of length] by (simp del: append_take_drop_id)
    have "unat total_size < 2 ^ 64" using unsigned_less [of total_size] by simp
    then have "unat hashed + length (take ?k rest) < 2 ^ 64" using split by linarith
    then have "unat (hashed + of_nat (length (take ?k rest))) = unat hashed + length (take ?k rest)"
      by (simp add: unat_word_ariths unat_of_nat mod_add_right_eq)
    then have "hash_loop file total_size (hashed + of_nat (length (take ?k rest))) (drop ?k rest) (seen @ take ?k rest) = Inr (seen @ rest)"
      using 1(1) [OF less refl] False split by (simp del: length_take)
    then show ?thesis using False less by (subst hash_loop.simps) (simp add: Let_def)
  qed
qed

lemma exchange_sends:
  assumes "granted alloc" and "\<And>alloc. granted alloc \<Longrightarrow> emits (enc alloc x) bs" and "length bs \<le> k"
    and "k \<le> FR_FRAME_MAX_PAYLOAD"
    and "roundtrips enc dec x" and "sends_on (cl_link c) (m + 20 + k)"
    and "receiving alloc (g # gs) rest c" and "frame_type g = msg_value FR_MSG_OK"
  obtains c' fr f where "exchange alloc clock type (enc alloc x) c = (Inr g, c')"
    "ln_sent (cl_link c') = ln_sent (cl_link c) @ fr" "framed [f] fr" "frame_type f = msg_value type"
    "dec f = Inr x" "receiving alloc gs rest c'" "sends_on (cl_link c') m"
proof -
  have "length bs \<le> FR_FRAME_MAX_PAYLOAD" using assms(3,4) by simp
  moreover have "sends_on (cl_link c) (m + 20 + length bs)" using assms(3,6) by (auto intro: sends_on_less)
  ultimately show ?thesis
    using exchange_answered [of alloc enc x bs dec c m g gs rest clock type] assms(1,2,5,7,8) that by blast
qed

text \<open>The reply to a request that is answered with OK.\<close>

definition hello_of_client :: HelloReq where
  "hello_of_client = \<lparr>hello_protocol_version = FR_PROTOCOL_VERSION, hello_client = ''frctl '' @ fr_core_version_string\<rparr>"

lemma hello_sends:
  assumes "granted alloc" and "sends_on (cl_link c) (m + 120)"
    and "receiving alloc (g # gs) rest c" and "frame_type g = msg_value FR_MSG_OK"
  obtains c' fr f where "exchange alloc clock FR_MSG_HELLO (encode_hello_req alloc hello_of_client) c = (Inr g, c')"
    "ln_sent (cl_link c') = ln_sent (cl_link c) @ fr" "framed [f] fr" "frame_type f = msg_value FR_MSG_HELLO"
    "decode_hello_req f = Inr hello_of_client" "receiving alloc gs rest c'" "sends_on (cl_link c') m"
proof -
  let ?bs = "[FR_PROTOCOL_VERSION] @ enc_str (hello_client hello_of_client) @ []"
  have ok: "hello_req_ok hello_of_client" "str_ok (hello_client hello_of_client)" "hello_protocol_version hello_of_client = FR_PROTOCOL_VERSION"
    by (simp_all add: hello_req_ok_def hello_of_client_def str_ok_def kMaxStringLen_def fr_core_version_string_def)
  have emits: "emits (encode_hello_req al hello_of_client) ?bs" if "granted al" for al
    unfolding encode_hello_req_def ok(3) using that ok(2) by (intro emit_intros)
  have len: "length ?bs \<le> 100" by (simp add: enc_str_def hello_of_client_def fr_core_version_string_def)
  have sends: "sends_on (cl_link c) (m + 20 + 100)" using assms(2) by (simp add: add.commute)
  show ?thesis
    by (rule exchange_sends [where enc = encode_hello_req, OF assms(1) emits len _ roundtrip_hello_req [OF ok(1)] sends assms(3,4)])
      (assumption, simp add: FR_FRAME_MAX_PAYLOAD_def, (rule that; assumption))
qed


lemma auth_sends:
  assumes "granted alloc" and "str_ok token" and "sends_on (cl_link c) (m + 540)"
    and "receiving alloc (g # gs) rest c" and "frame_type g = msg_value FR_MSG_OK"
  obtains c' fr f where "exchange alloc clock FR_MSG_AUTH (encode_auth_req alloc \<lparr>auth_token = token\<rparr>) c = (Inr g, c')"
    "ln_sent (cl_link c') = ln_sent (cl_link c) @ fr" "framed [f] fr" "frame_type f = msg_value FR_MSG_AUTH"
    "decode_auth_req f = Inr \<lparr>auth_token = token\<rparr>" "receiving alloc gs rest c'" "sends_on (cl_link c') m"
proof -
  let ?req = "\<lparr>auth_token = token\<rparr>"
  have ok: "auth_req_ok ?req" using assms(2) by (simp add: auth_req_ok_def)
  have emits: "emits (encode_auth_req al ?req) (enc_auth_req ?req)" if "granted al" for al
    unfolding encode_auth_req_def enc_auth_req_def using that assms(2) by (intro emit_intros) simp_all
  have len: "length (enc_auth_req ?req) \<le> 520" using assms(2) by (simp add: enc_auth_req_def size_simps)
  have sends: "sends_on (cl_link c) (m + 20 + 520)" using assms(3) by (simp add: add.commute)
  show ?thesis
    by (rule exchange_sends [where enc = encode_auth_req, OF assms(1) emits len _ roundtrip_auth_req [OF ok] sends assms(4,5)])
      (assumption, simp add: FR_FRAME_MAX_PAYLOAD_def, (rule that; assumption))
qed

lemma create_sends:
  assumes "granted alloc" and "create_upload_req_ok req" and "sends_on (cl_link c) (m + 1700)"
    and "receiving alloc (g # gs) rest c" and "frame_type g = msg_value FR_MSG_OK"
  obtains c' fr f where "exchange alloc clock FR_MSG_CREATE_UPLOAD (encode_create_upload_req alloc req) c = (Inr g, c')"
    "ln_sent (cl_link c') = ln_sent (cl_link c) @ fr" "framed [f] fr" "frame_type f = msg_value FR_MSG_CREATE_UPLOAD"
    "decode_create_upload_req f = Inr req" "receiving alloc gs rest c'" "sends_on (cl_link c') m"
proof -
  have emits: "emits (encode_create_upload_req al req) (enc_create_upload_req req)" if "granted al" for al
    unfolding encode_create_upload_req_def enc_create_upload_req_def
    using that assms(2) [unfolded create_upload_req_ok_def] by (intro emit_intros) simp_all
  have len: "length (enc_create_upload_req req) \<le> 1680"
    using assms(2) by (simp add: create_upload_req_ok_def enc_create_upload_req_def size_simps)
  have sends: "sends_on (cl_link c) (m + 20 + 1680)" using assms(3) by (simp add: add.commute)
  show ?thesis
    by (rule exchange_sends [where enc = encode_create_upload_req, OF assms(1) emits len _ roundtrip_create_upload_req [OF assms(2)] sends assms(4,5)])
      (assumption, simp add: FR_FRAME_MAX_PAYLOAD_def, (rule that; assumption))
qed

lemma string_sends:
  assumes "granted alloc" and "str_ok s" and "sends_on (cl_link c) (m + 540)"
    and "receiving alloc (g # gs) rest c" and "frame_type g = msg_value FR_MSG_OK"
  obtains c' fr f where "exchange alloc clock type (put_str alloc s) c = (Inr g, c')"
    "ln_sent (cl_link c') = ln_sent (cl_link c) @ fr" "framed [f] fr" "frame_type f = msg_value type"
    "decode get_str f = Inr s" "receiving alloc gs rest c'" "sends_on (cl_link c') m"
proof -
  have emits: "emits (put_str al s) (enc_str s)" if "granted al" for al by (rule emits_str [OF that assms(2)])
  have len: "length (enc_str s) \<le> 520" using assms(2) by (simp add: size_simps)
  have rt: "roundtrips put_str (decode get_str) s"
    by (rule roundtripsI [OF emits_str reads_finishes [OF reads_str]]) (use assms(2) len in simp_all)
  have sends: "sends_on (cl_link c) (m + 20 + 520)" using assms(3) by (simp add: add.commute)
  show ?thesis
    by (rule exchange_sends [where enc = put_str, OF assms(1) emits len _ rt sends assms(4,5)])
      (assumption, simp add: FR_FRAME_MAX_PAYLOAD_def, (rule that; assumption))
qed

lemma opens_sends:
  assumes "granted (cv_alloc env)" and "cv_gai env = 0" and "True \<in> set (cv_addresses env)" and "cv_tls env = Inr ()"
    and "opt_token (cl_options c) = token" and "token \<noteq> []" and "str_ok token"
    and "sends_on (cl_link c) (m + 660)" and "receiving (cv_alloc env) (h # a # gs) rest c"
    and "frame_type h = msg_value FR_MSG_OK" and "frame_type a = msg_value FR_MSG_OK"
  obtains c' fr hello auth where "opens env c = (Inr (), c')" "ln_sent (cl_link c') = ln_sent (cl_link c) @ fr"
    "framed [hello, auth] fr" "frame_type hello = msg_value FR_MSG_HELLO" "decode_hello_req hello = Inr hello_of_client"
    "frame_type auth = msg_value FR_MSG_AUTH" "decode_auth_req auth = Inr \<lparr>auth_token = token\<rparr>"
    "receiving (cv_alloc env) gs rest c'" "sends_on (cl_link c') m"
proof -
  let ?c = "c\<lparr>cl_connected := True\<rparr>"
  have r: "receiving (cv_alloc env) (h # a # gs) rest ?c"
    using assms(9) by (simp add: receiving_def client_ok_def buffered_def del: stream.simps)
  have sends: "sends_on (cl_link ?c) (m + 540 + 120)" using assms(8) by (simp add: add.commute)
  obtain c1 fr1 f1 where c1: "exchange (cv_alloc env) (cv_clock env 0) FR_MSG_HELLO (encode_hello_req (cv_alloc env) hello_of_client) ?c = (Inr h, c1)"
    "ln_sent (cl_link c1) = ln_sent (cl_link ?c) @ fr1" "framed [f1] fr1" "frame_type f1 = msg_value FR_MSG_HELLO"
    "decode_hello_req f1 = Inr hello_of_client" "receiving (cv_alloc env) (a # gs) rest c1" "sends_on (cl_link c1) (m + 540)"
    by (rule hello_sends [OF assms(1) sends r assms(10)])
  obtain c2 fr2 f2 where c2: "exchange (cv_alloc env) (cv_clock env 1) FR_MSG_AUTH (encode_auth_req (cv_alloc env) \<lparr>auth_token = token\<rparr>) c1 = (Inr a, c2)"
    "ln_sent (cl_link c2) = ln_sent (cl_link c1) @ fr2" "framed [f2] fr2" "frame_type f2 = msg_value FR_MSG_AUTH"
    "decode_auth_req f2 = Inr \<lparr>auth_token = token\<rparr>" "receiving (cv_alloc env) gs rest c2" "sends_on (cl_link c2) m"
    by (rule auth_sends [OF assms(1,7) c1(7,6) assms(11)])
  have "cv_addresses env \<noteq> []" using assms(3) by auto
  then have "opens env c = (Inr (), c2)"
    using assms(2-6) c1(1) c2(1)
    by (simp add: opens_def calls_def client_connect_def Let_def op_lift_def op_modify_def op_return_def hello_of_client_def)
  moreover have "framed [f1, f2] (fr1 @ fr2)" using framed_append [OF c1(3) c2(3)] by simp
  ultimately show ?thesis using that c1(2,4,5) c2(2,4-7) by simp
qed

text \<open>C36: An upload sends the file. When the server accepts the connection and answers every request with
  OK, in whatever pieces its replies arrive, then what goes over the wire is exactly one HELLO, one
  AUTH with the token, one CREATE_UPLOAD with the size of the file and the digest of its content,
  one PUT_CHUNK per chunk, numbered from 0, whose data together are the content of the file, and one
  COMMIT_UPLOAD for the session that the server has created; and the command returns what the commit
  has answered.\<close>

theorem upload_sends_file:
  assumes "granted (cv_alloc env)" and "cv_gai env = 0" and "True \<in> set (cv_addresses env)" and "cv_tls env = Inr ()"
    and "opt_token (client_options_of env g) = token" and "token \<noteq> []" and "str_ok token"
    and "str_ok ns" and "str_ok name" and "str_ok version" and "sha_ok (cv_sha env)"
    and "length data < 2 ^ 64" and "str_ok (co_session_id session)" and "0 < unat (co_chunk_size session)"
    and "length (co_session_id session) + 10 + unat (co_chunk_size session) \<le> FR_FRAME_MAX_PAYLOAD"
    and "[] \<notin> set (ln_arrives (cv_link env))" and "length (concat (ln_arrives (cv_link env))) \<le> 2 ^ 62"
    and "stream ([h, a, created] @ puts @ [committed]) (concat (ln_arrives (cv_link env))) rest"
    and "\<forall>f \<in> set ([h, a, created] @ puts @ [committed]). frame_type f = msg_value FR_MSG_OK"
    and "decode_create_upload_ok created = Inr session" and "decode_commit_upload_ok committed = Inr result"
    and "\<forall>f \<in> set puts. \<exists>ok. decode_put_chunk_ok f = Inr ok"
    and "length puts = length (cut (unat (co_chunk_size session)) data)"
    and "sends_on (cv_link env) (2900 + (30 + length (co_session_id session)) * length puts + length data)"
  shows "\<exists>c' sent hello auth create chunks commit.
     cmd_upload env fname (Some (of_nat (length data), data, data)) ns name version (new_connection env g) = (Inr result, c') \<and>
     ln_sent (cl_link c') = ln_sent (cv_link env) @ sent \<and> framed ([hello, auth, create] @ chunks @ [commit]) sent \<and>
     frame_type hello = msg_value FR_MSG_HELLO \<and> frame_type auth = msg_value FR_MSG_AUTH \<and>
     decode_auth_req auth = Inr \<lparr>auth_token = token\<rparr> \<and>
     frame_type create = msg_value FR_MSG_CREATE_UPLOAD \<and>
     decode_create_upload_req create = Inr \<lparr>cu_ref = \<lparr>ref_ns = ns, ref_name = name, ref_version = version\<rparr>,
        cu_expected_size = of_nat (length data), cu_expected_digest = sha256_to_hex (cv_sha env data)\<rparr> \<and>
     chunk_requests (co_session_id session) 0 (cut (unat (co_chunk_size session)) data) chunks \<and>
     concat (cut (unat (co_chunk_size session)) data) = data \<and>
     frame_type commit = msg_value FR_MSG_COMMIT_UPLOAD \<and> decode get_str commit = Inr (co_session_id session)"
proof -
  let ?c = "new_connection env g" and ?sid = "co_session_id session" and ?k = "unat (co_chunk_size session)"
  let ?al = "cv_alloc env"
  let ?req = "\<lparr>cu_ref = \<lparr>ref_ns = ns, ref_name = name, ref_version = version\<rparr>,
        cu_expected_size = of_nat (length data), cu_expected_digest = sha256_to_hex (cv_sha env data)\<rparr>"
  let ?n = "(30 + length ?sid) * length puts + length data"
  have "client_ok ?c" "buffered ?c = []" "cl_link ?c = cv_link env" "opt_token (cl_options ?c) = token"
    "length (buf_bytes (cl_inbuf ?c)) = 0"
    using assms(5) by (simp_all add: new_connection_def make_client_def client_ok_def buffered_def)
  then have r: "receiving ?al (h # a # created # puts @ [committed]) rest ?c" and tok: "opt_token (cl_options ?c) = token"
    and link: "cl_link ?c = cv_link env"
    using assms(1,16-18) by (simp_all add: receiving_def del: stream.simps)
  have ok: "frame_type h = msg_value FR_MSG_OK" "frame_type a = msg_value FR_MSG_OK" "frame_type created = msg_value FR_MSG_OK"
    "frame_type committed = msg_value FR_MSG_OK" using assms(19) by simp_all
  have s0: "sends_on (cl_link ?c) ((540 + ?n + 1700) + 660)" unfolding link by (rule sends_on_less [OF assms(24)]) simp
  obtain c1 fr1 hello auth where c1: "opens env ?c = (Inr (), c1)" "ln_sent (cl_link c1) = ln_sent (cl_link ?c) @ fr1"
    "framed [hello, auth] fr1" "frame_type hello = msg_value FR_MSG_HELLO" "frame_type auth = msg_value FR_MSG_AUTH"
    "decode_auth_req auth = Inr \<lparr>auth_token = token\<rparr>" "receiving ?al (created # puts @ [committed]) rest c1"
    "sends_on (cl_link c1) (540 + ?n + 1700)"
    by (rule opens_sends [OF assms(1-4) tok assms(6,7) s0 r ok(1,2)])
  have "create_upload_req_ok ?req"
    using assms(8-10) sha_hex(3) [OF assms(11)] by (simp add: create_upload_req_ok_def ref_ok_def digest_ok_def kDigestHexLen_def)
  from create_sends [OF assms(1) this c1(8,7) ok(3), of "cv_clock env 2"]
  obtain c2 fr2 create where c2: "exchange ?al (cv_clock env 2) FR_MSG_CREATE_UPLOAD (encode_create_upload_req ?al ?req) c1 = (Inr created, c2)"
    "ln_sent (cl_link c2) = ln_sent (cl_link c1) @ fr2" "framed [create] fr2" "frame_type create = msg_value FR_MSG_CREATE_UPLOAD"
    "decode_create_upload_req create = Inr ?req" "receiving ?al (puts @ [committed]) rest c2" "sends_on (cl_link c2) (540 + ?n)"
    by blast
  have total: "unat (of_nat (length data) :: u64) = unat (0 :: u64) + length data" using assms(12) by (simp add: unat_of_nat)
  have puts: "\<forall>g\<in>set puts. frame_type g = msg_value FR_MSG_OK \<and> (\<exists>ok. decode_put_chunk_ok g = Inr ok)" using assms(19,22) by simp
  have s2: "sends_on (cl_link c2) (540 + (30 + length ?sid) * length puts + length data)" using c2(7) by (simp add: add.assoc)
  from upload_loop_sends [OF assms(1,13,14,15) c2(6) puts assms(23) total s2, of fname 3 0]
  obtain n c3 chunks fr3 where c3: "upload_loop env fname session (of_nat (length data)) 3 0 0 data c2 = (Inr n, c3)"
    "ln_sent (cl_link c3) = ln_sent (cl_link c2) @ fr3" "framed chunks fr3" "chunk_requests ?sid 0 (cut ?k data) chunks"
    "receiving ?al [committed] rest c3" "sends_on (cl_link c3) 540" by blast
  have s3: "sends_on (cl_link c3) (0 + 540)" using c3(6) by simp
  from string_sends [OF assms(1,13) s3 c3(5) ok(4), of "cv_clock env n" FR_MSG_COMMIT_UPLOAD]
  obtain c4 fr4 commit where c4: "exchange ?al (cv_clock env n) FR_MSG_COMMIT_UPLOAD (put_str ?al ?sid) c3 = (Inr committed, c4)"
    "ln_sent (cl_link c4) = ln_sent (cl_link c3) @ fr4" "framed [commit] fr4" "frame_type commit = msg_value FR_MSG_COMMIT_UPLOAD"
    "decode get_str commit = Inr ?sid" by blast
  have hash: "hash_loop fname (of_nat (length data)) 0 data [] = Inr data" using hash_loop_all [OF total] by simp
  have "cmd_upload env fname (Some (of_nat (length data), data, data)) ns name version ?c = (Inr result, c4)"
    using c1(1) c2(1) c3(1) c4(1) hash assms(20,21)
    by (simp add: cmd_upload_def calls_def client_create_upload_def client_commit_upload_def op_lift_def)
  moreover have "framed ([hello, auth, create] @ chunks @ [commit]) (fr1 @ fr2 @ fr3 @ fr4)"
    using framed_append [OF c1(3) framed_append [OF c2(3) framed_append [OF c3(3) c4(3)]]] by simp
  moreover have "ln_sent (cl_link c4) = ln_sent (cv_link env) @ fr1 @ fr2 @ fr3 @ fr4"
    using c1(2) c2(2) c3(2) c4(2) link by simp
  ultimately show ?thesis
    using c1(4-6) c2(4,5) c3(4) c4(4,5) concat_cut [OF assms(14)] by blast
qed

section \<open>A concrete upload\<close>

text \<open>Replies of a server, for the witnesses.\<close>

lemma framed_reply:
  assumes "length bs \<le> 2000"
  shows "\<exists>fr. framed [reply_frame type 1 bs] fr \<and> length fr \<le> 2020"
proof -
  have "granted (\<lambda>k. True)" "(1 :: u32) \<noteq> 0" "length bs \<le> FR_FRAME_MAX_PAYLOAD"
    using assms by (simp_all add: granted_def FR_FRAME_MAX_PAYLOAD_def)
  from encode_framed [OF this, of "Some bs" "of_nat (length bs)" fr_buf_init type]
  obtain fr where "framed [reply_frame type 1 bs] fr" "length fr = 20 + length bs"
    using assms buf_wf_init by (auto simp: mem_of_def simp del: framed.simps)
  then show ?thesis using assms by (intro exI [of _ fr]) (simp del: framed.simps)
qed

lemma ok_reply:
  "length bs \<le> 2000 \<Longrightarrow> \<exists>g fr. framed [g] fr \<and> frame_type g = msg_value FR_MSG_OK \<and> carries g bs \<and> length fr \<le> 2020"
  using framed_reply [of bs FR_MSG_OK] carries_reply [of FR_MSG_OK 1 bs] by (metis reply_frame_fields(1))

lemma coded_reply:
  assumes "\<And>alloc. granted alloc \<Longrightarrow> emits (enc alloc x) bs" and "length bs \<le> 2000" and "roundtrips enc dec x"
  shows "\<exists>g fr. framed [g] fr \<and> frame_type g = msg_value FR_MSG_OK \<and> dec g = Inr x \<and> length fr \<le> 2020"
proof -
  have "\<And>f. carries f bs \<Longrightarrow> dec f = Inr x"
    using request_payload [of "\<lambda>k. True" enc x bs dec] assms by (auto simp: granted_def FR_FRAME_MAX_PAYLOAD_def)
  then show ?thesis using ok_reply [OF assms(2)] by blast
qed

definition demo_session_ok :: CreateUploadOk where
  "demo_session_ok = \<lparr>co_session_id = ''s1'', co_chunk_size = 2, co_expires_at = 0\<rparr>"

definition demo_chunk_ok :: PutChunkOk where
  "demo_chunk_ok = \<lparr>po_digest = replicate 64 CHR ''0'', po_reused = False\<rparr>"

definition demo_commit_ok :: CommitUploadOk where
  "demo_commit_ok = \<lparr>cm_ref = \<lparr>ref_ns = ''a'', ref_name = ''b'', ref_version = ''1''\<rparr>, cm_size = 3,
     cm_digest = replicate 64 CHR ''0''\<rparr>"

lemma demo_create_reply:
  "\<exists>g fr. framed [g] fr \<and> frame_type g = msg_value FR_MSG_OK \<and> decode_create_upload_ok g = Inr demo_session_ok \<and> length fr \<le> 2020"
proof (rule coded_reply [where enc = encode_create_upload_ok])
  have ok: "create_upload_ok_ok demo_session_ok"
    by (simp add: create_upload_ok_ok_def demo_session_ok_def str_ok_def kMaxStringLen_def i64_def)
  show "emits (encode_create_upload_ok al demo_session_ok) (enc_create_upload_ok demo_session_ok)" if "granted al" for al
    unfolding encode_create_upload_ok_def enc_create_upload_ok_def using that ok [unfolded create_upload_ok_ok_def]
    by (intro emit_intros) simp_all
  show "length (enc_create_upload_ok demo_session_ok) \<le> 2000"
    by (simp add: enc_create_upload_ok_def demo_session_ok_def size_simps)
  show "roundtrips encode_create_upload_ok decode_create_upload_ok demo_session_ok" by (rule roundtrip_create_upload_ok [OF ok])
qed

lemma demo_put_reply:
  "\<exists>g fr. framed [g] fr \<and> frame_type g = msg_value FR_MSG_OK \<and> decode_put_chunk_ok g = Inr demo_chunk_ok \<and> length fr \<le> 2020"
proof (rule coded_reply [where enc = encode_put_chunk_ok])
  have ok: "put_chunk_ok_ok demo_chunk_ok" by (simp add: put_chunk_ok_ok_def demo_chunk_ok_def digest_ok_def kDigestHexLen_def)
  show "emits (encode_put_chunk_ok al demo_chunk_ok) (enc_put_chunk_ok demo_chunk_ok)" if "granted al" for al
    unfolding encode_put_chunk_ok_def enc_put_chunk_ok_def using that ok [unfolded put_chunk_ok_ok_def]
    by (intro emit_intros) simp_all
  show "length (enc_put_chunk_ok demo_chunk_ok) \<le> 2000" by (simp add: enc_put_chunk_ok_def demo_chunk_ok_def bytes_of_def)
  show "roundtrips encode_put_chunk_ok decode_put_chunk_ok demo_chunk_ok" by (rule roundtrip_put_chunk_ok [OF ok])
qed

lemma demo_commit_reply:
  "\<exists>g fr. framed [g] fr \<and> frame_type g = msg_value FR_MSG_OK \<and> decode_commit_upload_ok g = Inr demo_commit_ok \<and> length fr \<le> 2020"
proof (rule coded_reply [where enc = encode_commit_upload_ok])
  have ok: "commit_upload_ok_ok demo_commit_ok"
    by (simp add: commit_upload_ok_ok_def demo_commit_ok_def size_simps)
  show "emits (encode_commit_upload_ok al demo_commit_ok) (enc_commit_upload_ok demo_commit_ok)" if "granted al" for al
    unfolding encode_commit_upload_ok_def enc_commit_upload_ok_def using that ok [unfolded commit_upload_ok_ok_def]
    by (intro emit_intros) simp_all
  show "length (enc_commit_upload_ok demo_commit_ok) \<le> 2000"
    by (simp add: enc_commit_upload_ok_def demo_commit_ok_def size_simps bytes_of_def)
  show "roundtrips encode_commit_upload_ok decode_commit_upload_ok demo_commit_ok" by (rule roundtrip_commit_upload_ok [OF ok])
qed

definition demo_cli :: "bytes \<Rightarrow> cli_env" where
  "demo_cli out = \<lparr>cv_alloc = \<lambda>k. True, cv_clock = int, cv_gai = 0, cv_addresses = [False, True], cv_tls = Inr (),
     cv_openssl = False, cv_token = Some ''fr_t1'',
     cv_link = \<lparr>ln_sends = replicate 5000 1, ln_sent = [], ln_arrives = map (\<lambda>b. [b]) out\<rparr>, cv_sha = demo_sha\<rparr>"

theorem upload_sends_file_witness:
  "\<exists>out c' chunks. cmd_upload (demo_cli out) ''f'' (Some (3, [1, 2, 3], [1, 2, 3])) ''a'' ''b'' ''1''
       (new_connection (demo_cli out) default_globals) = (Inr demo_commit_ok, c') \<and>
     chunk_requests ''s1'' 0 [[1, 2], [3]] chunks"
proof -
  obtain h fh where h: "framed [h] fh" "frame_type h = msg_value FR_MSG_OK" "length fh \<le> 2020" using ok_reply [of "[]"] by auto
  obtain s fs where s: "framed [s] fs" "frame_type s = msg_value FR_MSG_OK" "decode_create_upload_ok s = Inr demo_session_ok" "length fs \<le> 2020"
    using demo_create_reply by blast
  obtain p fp where p: "framed [p] fp" "frame_type p = msg_value FR_MSG_OK" "decode_put_chunk_ok p = Inr demo_chunk_ok" "length fp \<le> 2020"
    using demo_put_reply by blast
  obtain d fd where d: "framed [d] fd" "frame_type d = msg_value FR_MSG_OK" "decode_commit_upload_ok d = Inr demo_commit_ok" "length fd \<le> 2020"
    using demo_commit_reply by blast
  let ?out = "fh @ fh @ fs @ fp @ fp @ fd"
  have cuts: "cut 2 [1, 2, 3 :: u8] = [[1, 2], [3]]" by (simp add: cut.simps)
  have "framed ([h, h, s] @ [p, p] @ [d]) ?out"
    using framed_append [OF h(1) framed_append [OF h(1) framed_append [OF s(1) framed_append [OF p(1) framed_append [OF p(1) d(1)]]]]]
    by (simp del: framed.simps)
  then have "stream ([h, h, s] @ [p, p] @ [d]) ?out []" by (rule stream_framed)
  moreover have "concat (ln_arrives (cv_link (demo_cli ?out))) = ?out" by (simp add: demo_cli_def)
  ultimately have str: "stream ([h, h, s] @ [p, p] @ [d]) (concat (ln_arrives (cv_link (demo_cli ?out)))) []" by (simp only:)
  have env: "granted (cv_alloc (demo_cli ?out))" "cv_gai (demo_cli ?out) = 0" "True \<in> set (cv_addresses (demo_cli ?out))"
    "cv_tls (demo_cli ?out) = Inr ()" "opt_token (client_options_of (demo_cli ?out) default_globals) = ''fr_t1''"
    "sha_ok (cv_sha (demo_cli ?out))" "[] \<notin> set (ln_arrives (cv_link (demo_cli ?out)))"
    "length (concat (ln_arrives (cv_link (demo_cli ?out)))) \<le> 2 ^ 62"
    using h(3) s(4) p(4) d(4) demo_sha_ok
    by (auto simp: granted_def demo_cli_def client_options_of_def default_globals_def)
  have names: "str_ok ''fr_t1''" "str_ok ''a''" "str_ok ''b''" "str_ok ''1''" "str_ok ''s1''" by (simp_all add: str_ok_def kMaxStringLen_def)
  have sends: "sends_on (cv_link (demo_cli ?out)) 5000" by (simp add: sends_on_def demo_cli_def)
  show ?thesis
    using upload_sends_file [where g = default_globals and fname = "''f''" and data = "[1, 2, 3]" and session = demo_session_ok
        and result = demo_commit_ok, OF env(1-5) _ names(1-4) env(6) _ _ _ _ env(7,8) str]
      h(2) s(2,3) p(2,3) d(2,3) names(5) sends_on_less [OF sends] cuts
    by (auto simp: demo_session_ok_def FR_FRAME_MAX_PAYLOAD_def simp del: framed.simps stream.simps msg_value.simps)
qed

end
