(* ===== verification/Fetching.thy ===== *)
theory Fetching
  imports FrctlProps
begin

text \<open>
  Downloads into files, and the commands that destroy something: a download leaves the content in
  the output file, unless it trusts what a \<^verbatim>\<open>.part\<close> of an earlier attempt holds; and
  nothing is deleted, aborted or collected by a command line without \<^verbatim>\<open>--confirm\<close>.
\<close>

section \<open>Downloads\<close>

lemma show_sends:
  assumes "granted alloc" and "ref_ok ref" and "sends_on (cl_link c) (m + 1600)"
    and "receiving alloc (g # gs) rest c" and "frame_type g = msg_value FR_MSG_OK"
  obtains c' fr f where "exchange alloc clock FR_MSG_SHOW_ARTIFACT (put_ref alloc ref) c = (Inr g, c')"
    "ln_sent (cl_link c') = ln_sent (cl_link c) @ fr" "framed [f] fr" "frame_type f = msg_value FR_MSG_SHOW_ARTIFACT"
    "decode_ref f = Inr ref" "receiving alloc gs rest c'" "sends_on (cl_link c') m"
proof -
  have emits: "emits (put_ref al ref) (enc_ref ref)" if "granted al" for al by (rule ref_codec.put_emits [OF that assms(2)])
  have len: "length (enc_ref ref) \<le> 1580" using assms(2) by (simp add: size_simps)
  have sends: "sends_on (cl_link c) (m + 20 + 1580)" using assms(3) by (simp add: add.commute)
  show ?thesis
    by (rule exchange_sends [where enc = put_ref, OF assms(1) emits len _ roundtrip_ref [OF assms(2)] sends assms(4,5)])
      (assumption, simp add: FR_FRAME_MAX_PAYLOAD_def, (rule that; assumption))
qed

lemma get_sends:
  assumes "granted alloc" and "get_artifact_req_ok req" and "sends_on (cl_link c) (m + 1700)"
    and "receiving alloc (g # gs) rest c" and "frame_type g = msg_value FR_MSG_OK \<or> frame_type g = msg_value FR_MSG_DATA"
  obtains c' fr f where "exchange alloc clock FR_MSG_GET_ARTIFACT (encode_get_artifact_req alloc req) c = (Inr g, c')"
    "ln_sent (cl_link c') = ln_sent (cl_link c) @ fr" "framed [f] fr" "frame_type f = msg_value FR_MSG_GET_ARTIFACT"
    "decode_get_artifact_req f = Inr req" "receiving alloc gs rest c'" "sends_on (cl_link c') m"
proof -
  have emits: "emits (encode_get_artifact_req al req) (enc_get_artifact_req req)" if "granted al" for al
    unfolding encode_get_artifact_req_def enc_get_artifact_req_def
    using that assms(2) [unfolded get_artifact_req_ok_def] by (intro emit_intros)
  have len: "length (enc_get_artifact_req req) \<le> 1680"
    using assms(2) by (simp add: enc_get_artifact_req_def get_artifact_req_ok_def size_simps)
  have "sends_on (cl_link c) (m + 20 + length (enc_get_artifact_req req))"
    using len by (intro sends_on_less [OF assms(3)]) simp
  moreover have "length (enc_get_artifact_req req) \<le> FR_FRAME_MAX_PAYLOAD" using len by (simp add: FR_FRAME_MAX_PAYLOAD_def)
  ultimately show ?thesis
    using exchange_answered [where enc = encode_get_artifact_req, OF assms(1) emits _ roundtrip_get_artifact_req [OF assms(2)] _ assms(4,5)]
      that by blast
qed

text \<open>What is taken over from an earlier attempt.\<close>

definition resumed :: "bool \<Rightarrow> bytes option \<Rightarrow> nat \<Rightarrow> bytes" where
  "resumed resume part n =
     (case (resume, part) of (True, Some bs) \<Rightarrow> if length bs < n then bs else [] | _ \<Rightarrow> [])"

lemma resumed_offset:
  assumes "\<forall>bs. part = Some bs \<longrightarrow> length bs < 2 ^ 64" and "n < 2 ^ 64"
  shows "(case (resume, part) of
            (True, Some bs) \<Rightarrow> if (of_nat (length bs) :: u64) < of_nat n then of_nat (length bs) else 0
          | _ \<Rightarrow> 0) = (of_nat (length (resumed resume part n)) :: u64)"
    and "(of_nat (length (resumed resume part n)) :: u64) \<noteq> 0 \<Longrightarrow>
       (case part of Some bs \<Rightarrow> bs | None \<Rightarrow> []) = resumed resume part n"
    and "(of_nat (length (resumed resume part n)) :: u64) = 0 \<Longrightarrow> resumed resume part n = []"
    and "length (resumed resume part n) \<le> n"
  using assms by (auto simp: resumed_def word_less_nat_alt word_unat_eq_iff unat_of_nat split: option.splits bool.splits if_splits)

text \<open>C38: A download into a file. When the server accepts the connection, answers the request for the
  description with the size of the content and the request for the content with the part that was
  asked for, in whatever pieces all this arrives, then the command sends exactly HELLO, AUTH,
  SHOW_ARTIFACT and a GET_ARTIFACT for what is still missing, and it publishes what it has taken over
  from an earlier attempt followed by what it has received. Without an earlier attempt this is the
  content; with one it is the content exactly if the leftover is a beginning of it, which the
  command does not check: it reports success in either case.\<close>

theorem download_publishes:
  assumes "granted (cv_alloc env)" and "cv_gai env = 0" and "True \<in> set (cv_addresses env)" and "cv_tls env = Inr ()"
    and "opt_token (client_options_of env g) = token" and "token \<noteq> []" and "str_ok token"
    and "split_ref ref = (ns, name, version)" and "\<not> ref_malformed ref"
    and "str_ok ns" and "str_ok name" and "str_ok version"
    and "length blob < 2 ^ 64" and "\<forall>bs. lf_part files = Some bs \<longrightarrow> length bs < 2 ^ 64"
    and "lf_opens files" and "\<forall>ps. lf_writes files ps" and "lf_renames files \<or> lf_renames_again files"
    and "[] \<notin> set (ln_arrives (cv_link env))" and "length (concat (ln_arrives (cv_link env))) \<le> 2 ^ 62"
    and "stream ([h, a, shown] @ map (reply_frame FR_MSG_DATA rid) pieces @ [finished]) (concat (ln_arrives (cv_link env))) rest"
    and "\<forall>f \<in> {h, a, shown, finished}. frame_type f = msg_value FR_MSG_OK"
    and "decode_show_artifact_ok shown = Inr ok" and "ai_size (sa_info ok) = of_nat (length blob)"
    and "kept = resumed resume (lf_part files) (length blob)" and "concat pieces = drop (length kept) blob"
    and "sends_on (cv_link env) 4000"
  shows "\<exists>hello auth described get sent c'.
     cmd_download env files ref target resume (new_connection env g) =
       ((Inr (of_nat (length blob - length kept)), None, Some (kept @ drop (length kept) blob)), c') \<and>
     ln_sent (cl_link c') = ln_sent (cv_link env) @ sent \<and>
     (kept @ drop (length kept) blob = blob) = (kept = take (length kept) blob) \<and>
     (\<not> resume \<longrightarrow> kept @ drop (length kept) blob = blob) \<and>
     framed [hello, auth, described, get] sent \<and> decode_auth_req auth = Inr \<lparr>auth_token = token\<rparr> \<and>
     decode_ref described = Inr \<lparr>ref_ns = ns, ref_name = name, ref_version = version\<rparr> \<and>
     decode_get_artifact_req get = Inr \<lparr>ga_ref = \<lparr>ref_ns = ns, ref_name = name, ref_version = version\<rparr>,
        ga_offset = of_nat (length kept), ga_length = of_nat (length blob - length kept)\<rparr>"
proof -
  let ?c = "new_connection env g" and ?al = "cv_alloc env"
  let ?ref = "\<lparr>ref_ns = ns, ref_name = name, ref_version = version\<rparr>"
  let ?off = "of_nat (length kept) :: u64" and ?len = "of_nat (length blob) :: u64"
  let ?req = "\<lparr>ga_ref = ?ref, ga_offset = ?off, ga_length = ?len - ?off\<rparr>"
  let ?data = "map (reply_frame FR_MSG_DATA rid) pieces @ [finished]"
  note kept = resumed_offset [OF assms(14,13), of resume, folded assms(24)]
  have len: "?len - ?off = of_nat (length blob - length kept)" using kept(4) by simp
  have "client_ok ?c" "buffered ?c = []" "cl_link ?c = cv_link env" "opt_token (cl_options ?c) = token"
    "length (buf_bytes (cl_inbuf ?c)) = 0"
    using assms(5) by (simp_all add: new_connection_def make_client_def client_ok_def buffered_def)
  then have r: "receiving ?al (h # a # shown # ?data) rest ?c" and tok: "opt_token (cl_options ?c) = token"
    and link: "cl_link ?c = cv_link env"
    using assms(1,18-20) by (simp_all add: receiving_def del: stream.simps)
  have ok: "frame_type h = msg_value FR_MSG_OK" "frame_type a = msg_value FR_MSG_OK" "frame_type shown = msg_value FR_MSG_OK"
    "frame_type finished = msg_value FR_MSG_OK" using assms(21) by simp_all
  have s0: "sends_on (cl_link ?c) ((1700 + 1600) + 660)" unfolding link by (rule sends_on_less [OF assms(26)]) simp
  obtain c1 fr1 hello auth where c1: "opens env ?c = (Inr (), c1)" "framed [hello, auth] fr1"
    "decode_auth_req auth = Inr \<lparr>auth_token = token\<rparr>" "receiving ?al (shown # ?data) rest c1" "sends_on (cl_link c1) (1700 + 1600)"
    "ln_sent (cl_link c1) = ln_sent (cl_link ?c) @ fr1"
    by (rule opens_sends [OF assms(1-4) tok assms(6,7) s0 r ok(1,2)])
  have "ref_ok ?ref" using assms(10-12) by (simp add: ref_ok_def)
  from show_sends [OF assms(1) this c1(5,4) ok(3), of "cv_clock env 2"]
  obtain c2 fr2 described where c2: "exchange ?al (cv_clock env 2) FR_MSG_SHOW_ARTIFACT (put_ref ?al ?ref) c1 = (Inr shown, c2)"
    "framed [described] fr2" "decode_ref described = Inr ?ref" "receiving ?al ?data rest c2" "sends_on (cl_link c2) 1700"
    "ln_sent (cl_link c2) = ln_sent (cl_link c1) @ fr2" by blast
  obtain f fs where fs: "?data = f # fs" by (cases pieces) auto
  have f: "frame_type f = msg_value FR_MSG_OK \<or> frame_type f = msg_value FR_MSG_DATA"
    using fs ok(4) by (cases pieces) (auto simp del: msg_value.simps)
  have req: "get_artifact_req_ok ?req" using assms(10-12) by (simp add: get_artifact_req_ok_def ref_ok_def)
  have s2: "sends_on (cl_link c2) (0 + 1700)" using c2(5) by simp
  from get_sends [OF assms(1) req s2 c2(4) [unfolded fs] f, of "cv_clock env 3"]
  obtain c3 fr3 get where c3: "exchange ?al (cv_clock env 3) FR_MSG_GET_ARTIFACT (encode_get_artifact_req ?al ?req) c2 = (Inr f, c3)"
    "framed [get] fr3" "decode_get_artifact_req get = Inr ?req" "receiving ?al fs rest c3"
    "ln_sent (cl_link c3) = ln_sent (cl_link c2) @ fr3" by blast
  let ?parts = "filter (\<lambda>p. p \<noteq> []) pieces"
  obtain c4 where c4: "download_loop ?al (lf_writes files) f 0 [] c3 = (Inr (of_nat (length (concat pieces))), ?parts, c4)" "ln_sent (cl_link c4) = ln_sent (cl_link c3)"
    using download_loop_stream [OF fs [symmetric] c3(4) ok(4) assms(16), of 0 "[]"] by auto
  have "client_download ?al (cv_clock env 3) ns name version ?off (?len - ?off) (lf_writes files) c2 =
      (Inr (of_nat (length (concat pieces))), ?parts, c4)"
    using c3(1) c4(1) by (simp add: client_download_def exchange_def)
  moreover have "and_then (opens env) (\<lambda>u. calls (client_show_artifact ?al (cv_clock env 2) ns name version)) ?c = (Inr ok, c2)"
    using c1(1) c2(1) assms(22) by (simp add: calls_def client_show_artifact_def op_lift_def)
  ultimately have "cmd_download env files ref target resume ?c =
      ((Inr (of_nat (length blob - length kept)), None, Some (kept @ drop (length kept) blob)), c4)"
    using kept(1-3) assms(8,9,15,17,23,25) concat_nonempty [of pieces]
    by (cases "?off = 0") (simp_all add: cmd_download_def Let_def)
  moreover have "framed [hello, auth, described, get] (fr1 @ fr2 @ fr3)"
    using framed_append [OF c1(2) framed_append [OF c2(2) c3(2)]] by simp
  moreover have "(kept @ drop (length kept) blob = blob) = (kept = take (length kept) blob)"
    by (metis append_take_drop_id same_append_eq append_same_eq)
  moreover have "ln_sent (cl_link c4) = ln_sent (cv_link env) @ fr1 @ fr2 @ fr3"
    using c1(6) c2(6) c3(5) c4(2) link by simp
  moreover have "\<not> resume \<longrightarrow> kept = []" using assms(24) by (simp add: resumed_def)
  ultimately show ?thesis using c1(3) c2(3) c3(3) len by auto
qed


section \<open>A concrete download\<close>

definition demo_shown :: ShowArtifactOk where
  "demo_shown = \<lparr>sa_info = \<lparr>ai_ns = ''a'', ai_name = ''b'', ai_version = ''1'', ai_size = 3,
     ai_digest = replicate 64 CHR ''0'', ai_chunk_size = 2, ai_creator = ''u'', ai_created_at = 0, ai_note = [],
     ai_chunks = []\<rparr>\<rparr>"

lemma demo_show_reply:
  "\<exists>g fr. framed [g] fr \<and> frame_type g = msg_value FR_MSG_OK \<and> decode_show_artifact_ok g = Inr demo_shown \<and> length fr \<le> 2020"
proof (rule coded_reply [where enc = encode_show_artifact_ok])
  have ok: "show_artifact_ok_ok demo_shown"
    by (simp add: show_artifact_ok_ok_def demo_shown_def size_simps i64_def kMaxManifestCount_def enc_artifact_info_def enc_list_def bytes_of_def)
  show "emits (encode_show_artifact_ok al demo_shown) (enc_artifact_info (sa_info demo_shown))" if "granted al" for al
    unfolding encode_show_artifact_ok_def enc_artifact_info_def Let_def
    by (insert that ok [unfolded show_artifact_ok_ok_def Let_def], elim conjE)
      (intro emit_intros manifest_codec.list_emits; assumption)
  show "length (enc_artifact_info (sa_info demo_shown)) \<le> 2000"
    by (simp add: enc_artifact_info_def demo_shown_def size_simps enc_list_def bytes_of_def)
  show "roundtrips encode_show_artifact_ok decode_show_artifact_ok demo_shown" by (rule roundtrip_show_artifact_ok [OF ok])
qed

text \<open>A leftover that does not belong to the content.\<close>

definition demo_files :: local_files where
  "demo_files = \<lparr>lf_part = Some [9], lf_opens = True, lf_writes = \<lambda>ps. True, lf_renames = True, lf_renames_again = True\<rparr>"

theorem download_publishes_witness:
  "\<exists>out c'. cmd_download (demo_cli out) demo_files ''a/b:1'' ''f'' True (new_connection (demo_cli out) default_globals) =
     ((Inr 2, None, Some [9, 2, 3]), c')"
proof -
  obtain h fh where h: "framed [h] fh" "frame_type h = msg_value FR_MSG_OK" "length fh \<le> 2020" using ok_reply [of "[]"] by auto
  obtain s fs where s: "framed [s] fs" "frame_type s = msg_value FR_MSG_OK" "decode_show_artifact_ok s = Inr demo_shown" "length fs \<le> 2020"
    using demo_show_reply by blast
  let ?p = "reply_frame FR_MSG_DATA 1 [2, 3]"
  obtain fp where p: "framed [?p] fp" "length fp \<le> 2020" using framed_reply [of "[2, 3]"] by auto
  let ?out = "fh @ fh @ fs @ fp @ fh"
  have "framed ([h, h, s] @ map (reply_frame FR_MSG_DATA 1) [[2, 3]] @ [h]) ?out"
    using framed_append [OF h(1) framed_append [OF h(1) framed_append [OF s(1) framed_append [OF p(1) h(1)]]]]
    by (simp del: framed.simps)
  then have "stream ([h, h, s] @ map (reply_frame FR_MSG_DATA 1) [[2, 3]] @ [h]) ?out []" by (rule stream_framed)
  moreover have "concat (ln_arrives (cv_link (demo_cli ?out))) = ?out" by (simp add: demo_cli_def)
  ultimately have str: "stream ([h, h, s] @ map (reply_frame FR_MSG_DATA 1) [[2, 3]] @ [h])
      (concat (ln_arrives (cv_link (demo_cli ?out)))) []" by (simp only:)
  have env: "granted (cv_alloc (demo_cli ?out))" "cv_gai (demo_cli ?out) = 0" "True \<in> set (cv_addresses (demo_cli ?out))"
    "cv_tls (demo_cli ?out) = Inr ()" "opt_token (client_options_of (demo_cli ?out) default_globals) = ''fr_t1''"
    "[] \<notin> set (ln_arrives (cv_link (demo_cli ?out)))"
    "length (concat (ln_arrives (cv_link (demo_cli ?out)))) \<le> 2 ^ 62"
    using h(3) s(4) p(2) by (auto simp: granted_def demo_cli_def client_options_of_def default_globals_def)
  have names: "str_ok ''fr_t1''" "str_ok ''a''" "str_ok ''b''" "str_ok ''1''" by (simp_all add: str_ok_def kMaxStringLen_def)
  have ref: "split_ref ''a/b:1'' = (''a'', ''b'', ''1'')" "\<not> ref_malformed ''a/b:1''"
    by (simp_all add: split_ref_def ref_malformed_def find_char_def rfind_char_def substr_def npos_def
        unsigned_minus_1_eq_mask mask_eq_exp_minus_1)
  have sends: "sends_on (cv_link (demo_cli ?out)) 4000" by (simp add: sends_on_def demo_cli_def)
  have kept: "[9] = resumed True (lf_part demo_files) (length [1, 2, 3 :: u8])" by (simp add: resumed_def demo_files_def)
  have parts: "lf_opens demo_files" "\<forall>ps. lf_writes demo_files ps" "lf_renames demo_files \<or> lf_renames_again demo_files"
    "\<forall>bs. lf_part demo_files = Some bs \<longrightarrow> length bs < 2 ^ 64" "length [1, 2, 3 :: u8] < 2 ^ 64"
    "ai_size (sa_info demo_shown) = of_nat (length [1, 2, 3 :: u8])" "concat [[2, 3]] = drop (length [9 :: u8]) [1, 2, 3 :: u8]"
    by (simp_all add: demo_files_def demo_shown_def)
  have oks: "\<forall>f \<in> {h, h, s, h}. frame_type f = msg_value FR_MSG_OK" using h(2) s(2) by simp
  have "''fr_t1'' \<noteq> []" by simp
  from download_publishes [where target = "''f''", OF env(1-5) this names(1) ref names(2-4) parts(5,4,1-3) env(6,7) str oks s(3) parts(6) kept parts(7) sends]
  show ?thesis by - (elim exE conjE, intro exI, simp)
qed

end
