(* ===== verification/CommandProps.thy ===== *)
theory CommandProps
  imports Commands Fetching
begin

text \<open>
  The command line as a whole: nothing is destroyed without \<^verbatim>\<open>--confirm\<close>, and the exit
  codes are the documented ones.
\<close>

section \<open>Confirmation\<close>

lemma set_valued_confirm: "set_valued arg value g = Inr g' \<Longrightarrow> gl_confirm g' = gl_confirm g"
  by (auto simp: set_valued_def usage_error_def Let_def split: if_splits sum.splits)

lemma set_flag_confirm: "set_flag arg g = Some g' \<Longrightarrow> arg \<noteq> ''--confirm'' \<Longrightarrow> gl_confirm g' = gl_confirm g"
  by (auto simp: set_flag_def split: if_splits)

lemma parse_args_confirm:
  "parse_args argv g command = Inr (Command g' command') \<Longrightarrow> ''--confirm'' \<notin> set argv \<Longrightarrow>
   \<not> gl_confirm g \<Longrightarrow> ''--confirm'' \<notin> set command \<Longrightarrow> \<not> gl_confirm g' \<and> ''--confirm'' \<notin> set command'"
proof (induction argv g command rule: parse_args.induct)
  case (1 g command)
  then show ?case by simp
next
  case (2 arg rest g command)
  have arg: "arg \<noteq> ''--confirm''" and rest: "''--confirm'' \<notin> set rest" using "2.prems"(2) by auto
  show ?case
  proof (cases "arg \<in> set [''--server'', ''--config'', ''--timeout'', ''--token'']")
    case True
    with "2.prems"(1) obtain val more g1 where v: "rest = val # more" "set_valued arg val g = Inr g1"
      "parse_args more g1 command = Inr (Command g' command')"
      unfolding parse_args.simps if_P [OF True] usage_error_def by (auto split: list.splits sum.splits)
    show ?thesis
      by (rule "2.IH"(1) [OF True v]) (use rest v(1,2) set_valued_confirm "2.prems"(3,4) in auto)
  next
    case False
    note eq = "2.prems"(1) [unfolded parse_args.simps if_not_P [OF False]]
    have no_help: "\<not> (arg = ''--help'' \<or> arg = ''-h'')" using eq by (auto split: if_splits)
    note eq = eq [unfolded if_not_P [OF no_help]]
    show ?thesis
    proof (cases "set_flag arg g")
      case None
      have "parse_args rest g (command @ [arg]) = Inr (Command g' command')" using eq unfolding None option.case .
      moreover have "''--confirm'' \<notin> set (command @ [arg])" using arg "2.prems"(4) by simp
      ultimately show ?thesis using "2.IH"(2) [OF False no_help None] rest "2.prems"(3) by blast
    next
      case (Some g1)
      have "parse_args rest g1 command = Inr (Command g' command')" using eq unfolding Some option.case .
      moreover have "\<not> gl_confirm g1" using set_flag_confirm [OF Some arg] "2.prems"(3) by simp
      ultimately show ?thesis using "2.IH"(3) [OF False no_help Some] rest "2.prems"(4) by blast
    qed
  qed
qed



section \<open>Exit codes\<close>

text \<open>The errors that a command raises itself have the codes 2 and 7.\<close>

definition coded :: "cli_error + 'a \<Rightarrow> bool" where
  "coded r \<longleftrightarrow> (\<forall>code message. r = Inl (CommandError code message) \<longrightarrow> code \<in> {2, 7})"

definition coded_command :: "'a command \<Rightarrow> bool" where
  "coded_command m \<longleftrightarrow> (\<forall>c. coded (fst (m c)))"

named_theorems coding

lemma coded_simps [simp]: "coded (Inr x)" "coded (Inl (Thrown e))" "coded (Inl (CommandError code message)) = (code \<in> {2, 7})"
  by (auto simp: coded_def)

lemma coded_usage [simp]: "coded (usage_error message)" by (simp add: usage_error_def)

lemma coded_calls [coding]: "coded_command (calls m)"
  by (auto simp: coded_command_def calls_def split: prod.split sum.split)

lemma coded_and_then [coding]: "coded_command m \<Longrightarrow> (\<And>x. coded_command (k x)) \<Longrightarrow> coded_command (and_then m k)"
  unfolding coded_command_def
proof
  fix c assume m: "\<forall>c. coded (fst (m c))" and k: "\<And>x. \<forall>c. coded (fst (k x c))"
  obtain r c1 where "m c = (r, c1)" by fastforce
  then show "coded (fst (and_then m k c))" using m [rule_format, of c] k by (cases r) (auto simp: coded_def)
qed

lemma coded_plain [coding]:
  "coded_command (returns x)" "coded_command (fails 2 message)" "coded_command (fails 7 message)"
  "coded_command (usage message)" "coded_command (\<lambda>c. (Inl (Thrown e), c))"
  by (simp_all add: coded_command_def returns_def fails_def usage_def)

lemma coded_opens [coding]: "coded_command (opens env)"
  unfolding opens_def by (rule coding)

lemma coded_reports [coding]: "coded_command (reports f m)"
  unfolding reports_def by (intro coding)

lemma coded_if [coding]: "coded_command m \<Longrightarrow> coded_command m' \<Longrightarrow> coded_command (if b then m else m')"
  by simp

lemma coded_list_options: "coded (list_options args acc)"
  by (induction args acc rule: list_options.induct) (auto split: sum.split)

lemma coded_upload_loop: "coded_command (upload_loop env path session total_size n ordinal sent rest)"
  unfolding coded_command_def
proof
  fix c show "coded (fst (upload_loop env path session total_size n ordinal sent rest c))"
    by (induction env path session total_size n ordinal sent rest c rule: upload_loop.induct)
      (subst upload_loop.simps, auto simp: Let_def fails_def returns_def split: prod.split sum.split)
qed

lemma coded_hash_loop: "coded (hash_loop path total_size hashed rest seen)"
  by (induction path total_size hashed rest seen rule: hash_loop.induct)
    (subst hash_loop.simps, auto simp: Let_def)

lemma coded_inl: "coded r \<Longrightarrow> r = Inl e \<Longrightarrow> coded_command (\<lambda>c. (Inl e, c))"
  by (simp add: coded_command_def coded_def)

lemma coded_upload [coding]: "coded_command (cmd_upload env path input ns name version)"
  unfolding cmd_upload_def
  by (auto split: option.split sum.split intro!: coding coded_upload_loop coded_inl [OF coded_hash_loop])

lemma coded_commands [coding]:
  "coded_command (cmd_artifact env g args)" "coded_command (cmd_session env g args)" "coded_command (cmd_gc env g args)"
  "coded_command (cmd_status env)" "coded_command (cmd_user env args)" "coded_command (cmd_token env args)"
  "coded_command (run_upload env disk args)"
  unfolding cmd_artifact_def cmd_session_def cmd_gc_def cmd_status_def cmd_user_def cmd_token_def run_upload_def Let_def
  by (auto split: option.split sum.split prod.split intro!: coding coded_inl [OF coded_list_options])

lemma coded_download: "coded (fst (fst (cmd_download env files ref path resume c)))"
proof -
  have "coded_command (and_then (opens env) (\<lambda>u. calls (client_show_artifact (cv_alloc env) (cv_clock env 2) ns name version)))"
    for ns name version by (intro coding)
  then have *: "and_then (opens env) (\<lambda>u. calls (client_show_artifact (cv_alloc env) (cv_clock env 2) ns name version)) c =
      (Inl (CommandError code message), c') \<Longrightarrow> code \<in> {2, 7}" for ns name version code message c'
    unfolding coded_command_def coded_def by (metis fst_conv)
  show ?thesis
    unfolding cmd_download_def Let_def
    by (auto simp del: and_then.simps simp: coded_def usage_error_def dest: * split: prod.split sum.split option.split if_splits)
qed

lemma coded_other: "coded (Inl e :: cli_error + 'a) \<Longrightarrow> coded (Inl e :: cli_error + 'b)"
  by (simp add: coded_def)

lemma coded_run_download: "coded (fst (fst (run_download env disk args c)))"
proof -
  obtain path resume where o: "download_options (tl args) ([], False) = (path, resume)" by fastforce
  obtain r fs c' where d: "cmd_download env (dk_output disk path) (hd args) path resume c = ((r, fs), c')" by (metis prod.exhaust)
  have "coded r" using coded_download [of env "dk_output disk path" "hd args" path resume c] unfolding d by simp
  then show ?thesis
    by (cases r) (simp_all add: run_download_def Let_def o d coded_other)
qed

lemma coded_choice: "coded (fst (fst x)) \<Longrightarrow> coded (fst (fst y)) \<Longrightarrow> coded (fst (fst (if b then x else y)))"
  by simp

lemma coded_run: "coded (fst (fst (run_command env g disk command c)))"
proof (cases command)
  case Nil
  then show ?thesis by (simp add: run_command_def usage_def)
next
  case (Cons cmd rest)
  note runs = coded_commands [unfolded coded_command_def, rule_format]
  show ?thesis
    unfolding run_command_def Cons Let_def case_prod_beta list.case
    by (intro coded_choice) (simp_all only: fst_conv runs coded_run_download, simp add: usage_def)
qed

lemma coded_set_valued: "coded (set_valued arg value g)"
  by (auto simp: set_valued_def Let_def split: sum.split)

lemma coded_parse_args: "coded (parse_args argv g command)"
proof (induction argv g command rule: parse_args.induct)
  case (2 arg rest g command)
  show ?case
  proof (cases "arg \<in> set [''--server'', ''--config'', ''--timeout'', ''--token'']")
    case True
    show ?thesis
    proof (cases rest)
      case Nil
      then show ?thesis unfolding parse_args.simps if_P [OF True] by simp
    next
      case (Cons val more)
      show ?thesis using coded_set_valued [of arg val g] "2.IH"(1) [OF True Cons]
        unfolding parse_args.simps if_P [OF True] Cons by (auto simp: coded_def split: sum.split)
    qed
  next
    case False
    show ?thesis using "2.IH"(2,3) [OF False]
      unfolding parse_args.simps if_not_P [OF False] by (cases "set_flag arg g") (simp_all split: if_split)
  qed
qed simp

lemma exit_status_coded:
  fixes r :: "cli_error + 'a"
  assumes "coded r"
  shows "exit_status r \<in> {0, 2, 3, 4, 5, 6, 7}" and "(exit_status r = 0) = (\<not> isl r)"
  using assms by (induction r rule: exit_status.induct) (auto simp: exit_code_for_def split: fr_status.split)

text \<open>The exit code of every command line is one of the documented ones, 0, 2, 3, 4, 5, 6 and 7,
  and it is 0 exactly if the command line asks for help or its command succeeds.\<close>

theorem exit_codes:
  "fst (frctl_main env disk argv) \<in> {0, 2, 3, 4, 5, 6, 7} \<and>
   (fst (frctl_main env disk argv) = 0) =
     (case parse_args argv default_globals [] of
        Inl e \<Rightarrow> False
      | Inr Help \<Rightarrow> True
      | Inr (Command g command) \<Rightarrow> \<not> isl (fst (fst (run_command env g disk command (new_connection env g)))))"
proof (cases "parse_args argv default_globals []")
  case (Inl e)
  have "coded (Inl e :: cli_error + report)" using coded_parse_args [of argv default_globals "[]"] Inl by (simp add: coded_def)
  from exit_status_coded [OF this] show ?thesis using Inl by (simp add: frctl_main_def)
next
  case (Inr p)
  show ?thesis
  proof (cases p)
    case Help
    then show ?thesis using Inr by (simp add: frctl_main_def)
  next
    case (Command g command)
    have "coded (fst (fst (run_command env g disk command (new_connection env g))))" by (rule coded_run)
    from exit_status_coded [OF this] show ?thesis
      by (simp add: frctl_main_def Inr Command case_prod_beta)
  qed
qed

end
