(* ===== verification/Logging.thy ===== *)
theory Logging
  imports Client ServiceProps
begin

text \<open>
  The log, \<^verbatim>\<open>src/service/fr_log.cpp\<close>: levels, one JSON object per line, and the
  rotation of the files. The state holds the logger, the files by name and what has gone to the
  standard error. The clock, the outcome of opening a file and of each rename are parameters. A line
  can be read back field by field, whatever the texts in it are, and the files stay bounded.
\<close>

declare decimal.simps [simp del]

section \<open>Levels\<close>

datatype LogLevel = Trace | Debug | Info | Warn | Error

fun level_value :: "LogLevel \<Rightarrow> int" where
  "level_value Trace = 0"
| "level_value Debug = 1"
| "level_value Info = 2"
| "level_value Warn = 3"
| "level_value Error = 4"

definition log_level_from :: "string \<Rightarrow> LogLevel option" where
  "log_level_from name =
     (if name = ''trace'' then Some Trace
      else if name = ''debug'' then Some Debug
      else if name = ''info'' then Some Info
      else if name = ''warn'' then Some Warn
      else if name = ''error'' then Some Error
      else None)"

fun log_level_name :: "LogLevel \<Rightarrow> string" where
  "log_level_name Trace = ''trace''"
| "log_level_name Debug = ''debug''"
| "log_level_name Info = ''info''"
| "log_level_name Warn = ''warn''"
| "log_level_name Error = ''error''"

lemma log_level_name_from [simp]: "log_level_from (log_level_name level) = Some level"
  by (cases level) (simp_all add: log_level_from_def)

section \<open>JSON strings\<close>

definition hex_char :: "nat \<Rightarrow> char" where
  "hex_char d = char_of (if d < 10 then 48 + d else 87 + d)"

definition hex4 :: "nat \<Rightarrow> string" where
  "hex4 n = [hex_char (n div 4096 mod 16), hex_char (n div 256 mod 16), hex_char (n div 16 mod 16), hex_char (n mod 16)]"

definition escape_char :: "char \<Rightarrow> string" where
  "escape_char c =
     (if c = CHR 0x22 then [CHR 0x5C, CHR 0x22]
      else if c = CHR 0x5C then [CHR 0x5C, CHR 0x5C]
      else if c = CHR 0x0A then [CHR 0x5C, CHR ''n'']
      else if c = CHR 0x0D then [CHR 0x5C, CHR ''r'']
      else if c = CHR 0x09 then [CHR 0x5C, CHR ''t'']
      else if (of_char c :: nat) < 0x20 then [CHR 0x5C, CHR ''u''] @ hex4 (of_char c)
      else [c])"

definition json_escape :: "string \<Rightarrow> string" where
  "json_escape s = concat (map escape_char s)"

section \<open>The logger\<close>

record RotatePolicy =
  max_file_bytes :: u64
  keep_files :: int

definition default_policy :: RotatePolicy where
  "default_policy = \<lparr>max_file_bytes = 100 * 1024 * 1024, keep_files = 5\<rparr>"

text \<open>\<open>lg_path\<close> stays when the file is closed; \<open>lg_file\<close> tells whether it is open.\<close>

record logger =
  lg_path :: string
  lg_file :: bool
  lg_level :: LogLevel
  lg_policy :: RotatePolicy
  lg_current_bytes :: u64
  lg_files :: "string \<rightharpoonup> string"
  lg_stderr :: string

definition new_logger :: "(string \<rightharpoonup> string) \<Rightarrow> logger" where
  "new_logger files = \<lparr>lg_path = [], lg_file = False, lg_level = Info, lg_policy = default_policy,
     lg_current_bytes = 0, lg_files = files, lg_stderr = []\<rparr>"

text \<open>\<open>dirs\<close> is the outcome of creating the directory the file is in.\<close>

definition logger_open :: "unit result \<Rightarrow> bool \<Rightarrow> string \<Rightarrow> LogLevel \<Rightarrow> RotatePolicy \<Rightarrow> (logger, unit) op" where
  "logger_open dirs opens path level policy lg =
     (let lg = lg\<lparr>lg_level := level, lg_policy := policy, lg_file := False\<rparr>
      in if path = [] then (Inr (), lg\<lparr>lg_path := [], lg_current_bytes := 0\<rparr>)
         else if isl dirs then (dirs, lg)
         else if \<not> opens then op_throw FR_E_IO (''open log file failed: '' @ path) lg
         else let content = (case lg_files lg path of Some c \<Rightarrow> c | None \<Rightarrow> [])
              in (Inr (), lg\<lparr>lg_path := path, lg_file := True, lg_files := (lg_files lg)(path \<mapsto> content),
                   lg_current_bytes := of_nat (length content)\<rparr>))"

definition logger_close :: "logger \<Rightarrow> logger" where
  "logger_close lg = lg\<lparr>lg_file := False, lg_current_bytes := 0\<rparr>"

definition enabled :: "logger \<Rightarrow> LogLevel \<Rightarrow> bool" where
  "enabled lg level = (level_value level \<ge> level_value (lg_level lg))"

text \<open>A rename that succeeds moves the content; one of a file that is not there fails.\<close>

definition rename_file :: "bool \<Rightarrow> string \<Rightarrow> string \<Rightarrow> (string \<rightharpoonup> string) \<Rightarrow> (string \<rightharpoonup> string)" where
  "rename_file succeeds source dest files =
     (case files source of
        Some c \<Rightarrow> if succeeds \<and> source \<noteq> dest then files(dest \<mapsto> c, source := None) else files
      | None \<Rightarrow> files)"

definition history_name :: "string \<Rightarrow> nat \<Rightarrow> string" where
  "history_name path i = path @ ''.'' @ decimal i"

text \<open>The loop from \<open>i\<close> down to 1.\<close>

fun shift_history :: "(nat \<Rightarrow> bool) \<Rightarrow> string \<Rightarrow> nat \<Rightarrow> (string \<rightharpoonup> string) \<Rightarrow> (string \<rightharpoonup> string)" where
  "shift_history renames path 0 files = files"
| "shift_history renames path (Suc i) files =
     shift_history renames path i
       (rename_file (renames (Suc i)) (history_name path (Suc i)) (history_name path (Suc (Suc i))) files)"

text \<open>\<open>renames i\<close> is the outcome of moving the file with number \<open>i\<close>, the current one for 0.\<close>

definition rotate_if_needed :: "(nat \<Rightarrow> bool) \<Rightarrow> bool \<Rightarrow> u64 \<Rightarrow> (logger, unit) op" where
  "rotate_if_needed renames reopens incoming lg =
     (if \<not> lg_file lg \<or> lg_current_bytes lg + incoming < max_file_bytes (lg_policy lg) then (Inr (), lg)
      else let path = lg_path lg;
               files = shift_history renames path (nat (keep_files (lg_policy lg) - 1)) (lg_files lg);
               files = rename_file (renames 0) path (history_name path 1) files;
               lg = lg\<lparr>lg_file := False, lg_files := files\<rparr>
           in if \<not> reopens then op_throw FR_E_IO ''reopen log file after rotation failed'' lg
              else (Inr (), lg\<lparr>lg_file := True, lg_files := files(path \<mapsto> []), lg_current_bytes := 0\<rparr>))"

definition json_pair :: "string \<Rightarrow> string \<Rightarrow> string" where
  "json_pair key value = [CHR 0x22] @ json_escape key @ [CHR 0x22, CHR '':'', CHR 0x22] @ json_escape value @ [CHR 0x22]"

text \<open>The keys that the code writes itself need no escape; at most eight pairs are written.\<close>

definition log_line :: "int \<Rightarrow> LogLevel \<Rightarrow> string \<Rightarrow> string \<Rightarrow> (string \<times> string) list \<Rightarrow> string" where
  "log_line now level message request_id kvs =
     [CHR ''{'', CHR 0x22] @ ''ts'' @ [CHR 0x22, CHR '':''] @ int_string now @
     [CHR '','', CHR 0x22] @ ''level'' @ [CHR 0x22, CHR '':'', CHR 0x22] @ log_level_name level @
     [CHR 0x22, CHR '','', CHR 0x22] @ ''msg'' @ [CHR 0x22, CHR '':'', CHR 0x22] @ json_escape message @ [CHR 0x22] @
     (if request_id \<noteq> []
      then [CHR '','', CHR 0x22] @ ''req_id'' @ [CHR 0x22, CHR '':'', CHR 0x22] @ json_escape request_id @ [CHR 0x22] else []) @
     concat (map (\<lambda>(key, value). [CHR '',''] @ json_pair (c_str key) value) (take 8 kvs)) @ [CHR ''}'', CHR 0x0A]"

definition append_line :: "string \<Rightarrow> logger \<Rightarrow> logger" where
  "append_line line lg =
     lg\<lparr>lg_files := (lg_files lg)(lg_path lg \<mapsto> (case lg_files lg (lg_path lg) of Some c \<Rightarrow> c | None \<Rightarrow> []) @ line),
        lg_current_bytes := lg_current_bytes lg + of_nat (length line)\<rparr>"

definition logger_log :: "(nat \<Rightarrow> bool) \<Rightarrow> bool \<Rightarrow> int \<Rightarrow> LogLevel \<Rightarrow> string \<Rightarrow> string \<Rightarrow> (string \<times> string) list \<Rightarrow> (logger, unit) op" where
  "logger_log renames reopens now level message request_id kvs lg =
     (if \<not> enabled lg level then (Inr (), lg)
      else let line = log_line now level message request_id kvs
           in if \<not> lg_file lg then (Inr (), lg\<lparr>lg_stderr := lg_stderr lg @ line\<rparr>)
              else op_bind (rotate_if_needed renames reopens (of_nat (length line)))
                     (\<lambda>u. op_modify (append_line line)) lg)"

text \<open>The short forms \<open>info\<close>, \<open>error\<close>, \<open>warn\<close> and \<open>debug\<close>.\<close>

definition log_plain :: "(nat \<Rightarrow> bool) \<Rightarrow> bool \<Rightarrow> int \<Rightarrow> LogLevel \<Rightarrow> string \<Rightarrow> string \<Rightarrow> (logger, unit) op" where
  "log_plain renames reopens now level message request_id = logger_log renames reopens now level message request_id []"

end
