(* ===== verification/LoggingProps.thy ===== *)
theory LoggingProps
  imports Logging
begin

text \<open>
  A line of the log is one JSON object that gives its fields back, whatever the texts are; rotation
  moves every file of the history by one; and the files of the log stay bounded in size and number.
\<close>

section \<open>Reading JSON strings\<close>

definition hex_digit_value :: "char \<Rightarrow> nat" where
  "hex_digit_value c = (if of_char c < (58 :: nat) then of_char c - 48 else of_char c - 87)"

text \<open>The rest of a string after its opening quote, and what follows the closing one.\<close>

fun json_read :: "string \<Rightarrow> (string \<times> string) option" where
  "json_read [] = None"
| "json_read (c # cs) =
     (if c = CHR 0x22 then Some ([], cs)
      else if of_char c < (0x20 :: nat) then None
      else if c \<noteq> CHR 0x5C then map_option (\<lambda>(s, r). (c # s, r)) (json_read cs)
      else (case cs of
              [] \<Rightarrow> None
            | e # rest \<Rightarrow>
                if e = CHR ''u''
                then (case rest of
                        p # q # x # y # rest \<Rightarrow>
                          map_option (\<lambda>(s, r). (char_of (foldl (\<lambda>v d. 16 * v + hex_digit_value d) 0 [p, q, x, y]) # s, r)) (json_read rest)
                      | _ \<Rightarrow> None)
                else map_option (\<lambda>(s, r).
                       ((if e = CHR ''n'' then CHR 0x0A else if e = CHR ''r'' then CHR 0x0D
                         else if e = CHR ''t'' then CHR 0x09 else e) # s, r)) (json_read rest)))"

lemma hex_char_value: "d < 16 \<Longrightarrow> hex_digit_value (hex_char d) = d \<and> 32 \<le> (of_char (hex_char d) :: nat)"
  by (simp add: hex_digit_value_def hex_char_def of_char_of)

lemma hex4_value: "n < 32 \<Longrightarrow> foldl (\<lambda>v d. 16 * v + hex_digit_value d) 0 (hex4 n) = n"
  by (simp add: hex4_def hex_char_value)

lemma hex4_length: "\<exists>p q x y. hex4 n = [p, q, x, y]" by (simp add: hex4_def)

lemma json_read_escape_char: "json_read (escape_char c @ cs) = map_option (\<lambda>(s, r). (c # s, r)) (json_read cs)"
proof (cases "c \<in> {CHR 0x22, CHR 0x5C, CHR 0x0A, CHR 0x0D, CHR 0x09}")
  case True
  then show ?thesis by (auto simp: escape_char_def)
next
  case False
  show ?thesis
  proof (cases "(of_char c :: nat) < 32")
    case True
    obtain p q x y where h: "hex4 (of_char c) = [p, q, x, y]" using hex4_length by blast
    have "foldl (\<lambda>v d. 16 * v + hex_digit_value d) 0 [p, q, x, y] = of_char c" using hex4_value [OF True] unfolding h .
    then show ?thesis using False True h by (simp add: escape_char_def)
  next
    case high: False
    then show ?thesis using False by (simp add: escape_char_def)
  qed
qed

lemma json_read_escape: "json_read (json_escape s @ CHR 0x22 # rest) = Some (s, rest)"
proof (induction s)
  case Nil
  then show ?case by (simp add: json_escape_def)
next
  case (Cons c s)
  have "json_escape (c # s) @ CHR 0x22 # rest = escape_char c @ (json_escape s @ CHR 0x22 # rest)" by (simp add: json_escape_def)
  then show ?case using Cons json_read_escape_char [of c "json_escape s @ CHR 0x22 # rest"] by simp
qed

lemma json_read_shorter: "json_read cs = Some (s, r) \<Longrightarrow> length r < length cs"
proof (induction cs arbitrary: s r rule: json_read.induct)
  case (2 c cs)
  then show ?case by (fastforce split: if_splits list.splits)
qed simp

lemma json_escape_high: "\<forall>c\<in>set (json_escape s). 32 \<le> (of_char c :: nat)"
proof -
  have "\<forall>c\<in>set (hex4 n). 32 \<le> (of_char c :: nat)" for n by (simp add: hex4_def hex_char_value)
  then have "\<forall>d\<in>set (escape_char c). 32 \<le> (of_char d :: nat)" for c by (auto simp: escape_char_def not_less)
  then show ?thesis by (auto simp: json_escape_def)
qed

declare json_read.simps [simp del]

section \<open>Reading lines\<close>

text \<open>Pairs of strings, each after a comma.\<close>

function read_pairs :: "string \<Rightarrow> (string \<times> string) list \<times> string" where
  "read_pairs s =
     (if take 2 s = [CHR '','', CHR 0x22]
      then (case json_read (drop 2 s) of
              None \<Rightarrow> ([], s)
            | Some (key, r) \<Rightarrow>
                if take 2 r = [CHR '':'', CHR 0x22]
                then (case json_read (drop 2 r) of
                        None \<Rightarrow> ([], s)
                      | Some (val, r) \<Rightarrow> (case read_pairs r of (ps, r) \<Rightarrow> ((key, val) # ps, r)))
                else ([], s))
      else ([], s))"
  by pat_completeness auto

termination read_pairs
proof (relation "measure length", goal_cases)
  case (2 s x key r y val r')
  have "length r < length s" using json_read_shorter [of "drop 2 s" key r] 2 by simp
  moreover have "length r' < length r" using json_read_shorter [of "drop 2 r" val r'] 2 by simp
  ultimately show ?case by simp
qed simp

declare read_pairs.simps [simp del]

definition read_int :: "string \<Rightarrow> int" where
  "read_int s = (if take 1 s = ''-'' then - int (of_decimal (drop 1 s)) else int (of_decimal s))"

text \<open>A whole line: the time, and the pairs; None for anything else.\<close>

definition read_line :: "string \<Rightarrow> (int \<times> (string \<times> string) list) option" where
  "read_line s =
     (let start = [CHR ''{'', CHR 0x22] @ ''ts'' @ [CHR 0x22, CHR '':''];
          n = takeWhile (\<lambda>c. c \<noteq> CHR '','') (drop 6 s)
      in if take 6 s \<noteq> start then None
         else case read_pairs (drop (6 + length n) s) of
                (ps, r) \<Rightarrow> if r = [CHR ''}'', CHR 0x0A] then Some (read_int n, ps) else None)"

lemma read_line_start:
  "read_line ([CHR ''{'', CHR 0x22] @ ''ts'' @ [CHR 0x22, CHR '':''] @ x) =
     (let n = takeWhile (\<lambda>c. c \<noteq> CHR '','') x
      in case read_pairs (drop (length n) x) of
           (ps, r) \<Rightarrow> if r = [CHR ''}'', CHR 0x0A] then Some (read_int n, ps) else None)"
proof -
  let ?s = "[CHR ''{'', CHR 0x22] @ ''ts'' @ [CHR 0x22, CHR '':''] @ x"
  have "drop 6 ?s = x" "drop (6 + k) ?s = drop k x" "take 6 ?s = [CHR ''{'', CHR 0x22] @ ''ts'' @ [CHR 0x22, CHR '':'']" for k
    by (simp_all add: numeral_eq_Suc)
  then show ?thesis unfolding read_line_def Let_def by (simp only: if_not_P not_not simp_thms if_False)
qed

lemma read_pairs_pair:
  "read_pairs ([CHR '',''] @ json_pair key val @ rest) = (case read_pairs rest of (ps, r) \<Rightarrow> ((key, val) # ps, r))"
proof -
  have "[CHR '',''] @ json_pair key val @ rest = CHR '','' # CHR 0x22 # json_escape key @ CHR 0x22 # CHR '':'' # CHR 0x22 #
      json_escape val @ CHR 0x22 # rest" by (simp add: json_pair_def)
  then show ?thesis by (subst read_pairs.simps) (simp add: json_read_escape)
qed

lemma read_pairs_pairs:
  "read_pairs (concat (map (\<lambda>(key, val). [CHR '',''] @ json_pair (c_str key) val) kvs) @ [CHR ''}'', CHR 0x0A]) =
     (map (\<lambda>(key, val). (c_str key, val)) kvs, [CHR ''}'', CHR 0x0A])"
proof (induction kvs)
  case Nil
  then show ?case by (subst read_pairs.simps) simp
next
  case (Cons kv kvs)
  obtain key val where kv: "kv = (key, val)" by fastforce
  show ?case using read_pairs_pair [of "c_str key" val] Cons unfolding kv by simp
qed

lemma int_string_chars: "c \<in> set (int_string n) \<Longrightarrow> c = CHR ''-'' \<or> c \<in> char_of ` {48 ..< 58 :: nat}"
  using decimal_digits by (auto simp: int_string_def split: if_splits)

lemma int_string_codes: "c \<in> set (int_string n) \<Longrightarrow> 45 \<le> (of_char c :: nat)"
  using int_string_chars [of c n] by (auto simp: of_char_of)

lemma int_string_read: "read_int (int_string n) = n"
proof (cases "n < 0")
  case True
  then show ?thesis by (simp add: read_int_def int_string_def of_decimal_decimal)
next
  case False
  have "set (take 1 (decimal (nat n))) \<subseteq> set (decimal (nat n))" by (rule set_take_subset)
  then have "take 1 (decimal (nat n)) \<noteq> ''-''" using no_dash by fastforce
  then show ?thesis using False by (simp add: read_int_def int_string_def of_decimal_decimal)
qed

lemma escape_char_plain:
  assumes "0x20 \<le> (of_char c :: nat)" and "c \<noteq> CHR 0x22" and "c \<noteq> CHR 0x5C" shows "escape_char c = [c]"
proof -
  have "c \<noteq> CHR 0x0A" "c \<noteq> CHR 0x0D" "c \<noteq> CHR 0x09" using assms(1) by auto
  then show ?thesis using assms by (simp add: escape_char_def)
qed

lemma escape_plain:
  assumes "\<forall>c\<in>set s. 0x20 \<le> (of_char c :: nat) \<and> c \<noteq> CHR 0x22 \<and> c \<noteq> CHR 0x5C" shows "json_escape s = s"
proof -
  have "map escape_char s = map (\<lambda>c. [c]) s" using assms escape_char_plain by (intro map_cong) auto
  then show ?thesis unfolding json_escape_def by (simp only: concat_map_singleton map_ident)
qed

text \<open>The line as a time and a list of pairs.\<close>

lemma log_line_pairs:
  "log_line now level message request_id kvs =
     [CHR ''{'', CHR 0x22] @ ''ts'' @ [CHR 0x22, CHR '':''] @ int_string now @
     concat (map (\<lambda>(key, val). [CHR '',''] @ json_pair (c_str key) val)
       ((''level'', log_level_name level) # (''msg'', message) #
        (if request_id \<noteq> [] then [(''req_id'', request_id)] else []) @ take 8 kvs)) @ [CHR ''}'', CHR 0x0A]"
proof -
  have "json_escape (log_level_name level) = log_level_name level" by (rule escape_plain) (cases level; simp)
  moreover have "json_escape ''level'' = ''level''" "json_escape ''msg'' = ''msg''" "json_escape ''req_id'' = ''req_id''"
    by (rule escape_plain, simp)+
  moreover have "c_str ''level'' = ''level''" "c_str ''msg'' = ''msg''" "c_str ''req_id'' = ''req_id''"
    by (simp_all add: c_str_def)
  ultimately show ?thesis by (simp add: log_line_def json_pair_def)
qed

text \<open>C32: A line of the log can be read back. It is one JSON object with the time, the level, the
  message, the request id if there is one and up to eight further pairs, and whatever characters
  these texts contain, quotes, line breaks and control characters included, reading the object gives
  exactly them; and it is one line, whose only line feed is at its end.\<close>

theorem log_line_reads_back:
  "read_line (log_line now level message request_id kvs) =
     Some (now, (''level'', log_level_name level) # (''msg'', message) #
       (if request_id \<noteq> [] then [(''req_id'', request_id)] else []) @ map (\<lambda>(key, val). (c_str key, val)) (take 8 kvs)) \<and>
   CHR 0x0A \<notin> set (butlast (log_line now level message request_id kvs)) \<and>
   List.last (log_line now level message request_id kvs) = CHR 0x0A"
proof -
  let ?ps = "(''level'', log_level_name level) # (''msg'', message) #
        (if request_id \<noteq> [] then [(''req_id'', request_id)] else []) @ take 8 kvs"
  let ?cs = "concat (map (\<lambda>(key, val). [CHR '',''] @ json_pair (c_str key) val) ?ps)"
  let ?start = "[CHR ''{'', CHR 0x22] @ ''ts'' @ [CHR 0x22, CHR '':'']"
  have line: "log_line now level message request_id kvs = ?start @ int_string now @ ?cs @ [CHR ''}'', CHR 0x0A]"
    by (simp only: log_line_pairs append_assoc)
  have comma: "CHR '','' \<notin> set (int_string now)" using int_string_codes [of "CHR '',''" now] by auto
  obtain cs where cs: "?cs @ [CHR ''}'', CHR 0x0A] = CHR '','' # cs" by simp
  have n: "takeWhile (\<lambda>c. c \<noteq> CHR '','') (int_string now @ CHR '','' # cs) = int_string now"
    by (rule takeWhile_stop [OF comma])
  have "read_line (?start @ int_string now @ CHR '','' # cs) =
      (case read_pairs (CHR '','' # cs) of (ps, r) \<Rightarrow> if r = [CHR ''}'', CHR 0x0A] then Some (now, ps) else None)"
    unfolding append_assoc read_line_start Let_def n int_string_read by simp
  then have "read_line (log_line now level message request_id kvs) = Some (now, map (\<lambda>(key, val). (c_str key, val)) ?ps)"
    unfolding line cs [symmetric] read_pairs_pairs by simp
  moreover have "map (\<lambda>(key, val). (c_str key, val)) ?ps = (''level'', log_level_name level) # (''msg'', message) #
       (if request_id \<noteq> [] then [(''req_id'', request_id)] else []) @ map (\<lambda>(key, val). (c_str key, val)) (take 8 kvs)"
    by (simp add: c_str_def)
  moreover have "CHR 0x0A \<notin> set (json_pair key val)" for key val
    using json_escape_high [of key] json_escape_high [of val] by (auto simp: json_pair_def)
  then have "CHR 0x0A \<notin> set ?cs" by (simp add: case_prod_beta)
  moreover have "CHR 0x0A \<notin> set (int_string now)" using int_string_codes [of "CHR 0x0A" now] by auto
  ultimately show ?thesis unfolding line by (simp add: butlast_append)
qed

section \<open>Rotation\<close>

lemma history_names [simp]:
  "history_name path i = history_name path j \<longleftrightarrow> i = j" "history_name path i \<noteq> path" "path \<noteq> history_name path i"
  using of_decimal_decimal by (auto simp: history_name_def) metis

text \<open>The content after the history has been moved, the files from \<open>n\<close> on down.\<close>

lemma shift_history_names:
  assumes "\<forall>i. renames i"
  shows "shift_history renames path n files (history_name path (Suc (Suc i))) =
       (if i < n then (case files (history_name path (Suc i)) of
          Some c \<Rightarrow> Some c | None \<Rightarrow> if Suc i < n then None else files (history_name path (Suc (Suc i))))
        else files (history_name path (Suc (Suc i)))) \<and>
     shift_history renames path n files (history_name path 1) = (if n = 0 then files (history_name path 1) else None) \<and>
     (\<forall>p. (\<forall>i. 1 \<le> i \<and> i \<le> Suc n \<longrightarrow> p \<noteq> history_name path i) \<longrightarrow> shift_history renames path n files p = files p)"
  using assms
proof (induction n arbitrary: files i)
  case (Suc n)
  let ?f = "rename_file (renames (Suc n)) (history_name path (Suc n)) (history_name path (Suc (Suc n))) files"
  have f: "?f (history_name path (Suc (Suc n))) = (case files (history_name path (Suc n)) of Some c \<Rightarrow> Some c
        | None \<Rightarrow> files (history_name path (Suc (Suc n))))"
    "?f (history_name path (Suc n)) = None"
    "\<And>p. p \<noteq> history_name path (Suc n) \<Longrightarrow> p \<noteq> history_name path (Suc (Suc n)) \<Longrightarrow> ?f p = files p"
    using Suc.prems by (auto simp: rename_file_def split: option.split)
  note IH = Suc.IH [OF Suc.prems, of ?f]
  have "shift_history renames path (Suc n) files (history_name path (Suc (Suc i))) =
      (if i < Suc n then (case files (history_name path (Suc i)) of
          Some c \<Rightarrow> Some c | None \<Rightarrow> if Suc i < Suc n then None else files (history_name path (Suc (Suc i))))
        else files (history_name path (Suc (Suc i))))"
    using IH [of i] f by (cases "i = n"; cases "Suc i = n") (auto split: option.split)
  moreover have "shift_history renames path (Suc n) files (history_name path 1) = None"
    using IH [of i] f(2) by (cases n) auto
  moreover have "shift_history renames path (Suc n) files p = files p"
    if "\<forall>i. 1 \<le> i \<and> i \<le> Suc (Suc n) \<longrightarrow> p \<noteq> history_name path i" for p
    using IH [of i] f(3) [of p] that by auto
  ultimately show ?case by simp
qed simp

text \<open>Rotation. When the current file has no room for a line, it becomes the first file of the
  history, every file of the history moves on by one, the last one falls out, files with other names
  stay as they are, and the line starts the new current file. This is so if the files can be renamed
  and opened; if the current file cannot be opened again, the line is lost, and later ones go to the
  standard error.\<close>

theorem rotation_shifts:
  assumes "lg_file lg" and "enabled lg level" and "\<forall>i. renames i" and "1 \<le> keep_files (lg_policy lg)"
    and "line = log_line now level message request_id kvs" and "current = lg_files lg (lg_path lg)" and "current \<noteq> None"
    and "\<not> lg_current_bytes lg + of_nat (length line) < max_file_bytes (lg_policy lg)"
    and "name = (\<lambda>i. if i = 0 then lg_path lg else history_name (lg_path lg) i)"
    and "logger_log renames reopens now level message request_id kvs lg = (r, lg')"
  shows "lg_files lg' (name 1) = current \<and>
     (\<forall>i. 1 \<le> i \<and> int i < keep_files (lg_policy lg) \<longrightarrow>
        (case lg_files lg (name i) of
           Some c \<Rightarrow> lg_files lg' (name (Suc i)) = Some c
         | None \<Rightarrow> lg_files lg' (name (Suc i)) =
             (if int (Suc i) < keep_files (lg_policy lg) then None else lg_files lg (name (Suc i))))) \<and>
     (\<forall>p. (\<forall>i. int i \<le> keep_files (lg_policy lg) \<longrightarrow> p \<noteq> name i) \<longrightarrow> lg_files lg' p = lg_files lg p) \<and>
     (reopens \<longrightarrow> r = Inr () \<and> lg_file lg' \<and> lg_files lg' (lg_path lg) = Some line) \<and>
     (\<not> reopens \<longrightarrow> r = Inl (Err FR_E_IO ''reopen log file after rotation failed'') \<and> \<not> lg_file lg' \<and> lg_stderr lg' = lg_stderr lg)"
proof -
  let ?path = "lg_path lg" and ?n = "nat (keep_files (lg_policy lg) - 1)"
  define hist where "hist = shift_history renames ?path ?n (lg_files lg)"
  note shifted = shift_history_names [OF assms(3), of ?path ?n "lg_files lg", folded hist_def]
  obtain c where c: "current = Some c" using assms(7) by blast
  have "hist ?path = Some c" using shifted assms(6) c by simp
  then have moved: "rename_file (renames 0) ?path (history_name ?path 1) hist = hist(history_name ?path 1 \<mapsto> c, ?path := None)"
    using assms(3) by (simp add: rename_file_def)
  define files where "files = hist(history_name ?path 1 \<mapsto> c, ?path := None)"
  have run: "(r, lg') = (if reopens
      then (Inr (), append_line line (lg\<lparr>lg_file := True, lg_files := files(?path \<mapsto> []), lg_current_bytes := 0\<rparr>))
      else (Inl (Err FR_E_IO ''reopen log file after rotation failed''), lg\<lparr>lg_file := False, lg_files := files\<rparr>))"
    using assms(1,2,5,8,10) moved
    by (simp add: logger_log_def rotate_if_needed_def Let_def hist_def files_def op_throw_def throw_error_def op_modify_def split: if_splits)
  have other: "lg_files lg' p = files p" if "p \<noteq> ?path" for p using run that by (auto simp: append_line_def split: if_splits)
  have "lg_files lg' (name 1) = current" using other [of "history_name ?path 1"] assms(9) c by (simp add: files_def)
  moreover have "lg_files lg' (name (Suc i)) = (case lg_files lg (name i) of Some c \<Rightarrow> Some c
      | None \<Rightarrow> if int (Suc i) < keep_files (lg_policy lg) then None else lg_files lg (name (Suc i)))"
    if i: "1 \<le> i" "int i < keep_files (lg_policy lg)" for i
  proof -
    obtain k where k: "i = Suc k" using i(1) by (cases i) auto
    have "lg_files lg' (name (Suc i)) = hist (history_name ?path (Suc (Suc k)))"
      using other [of "history_name ?path (Suc (Suc k))"] assms(9) k by (simp add: files_def)
    then show ?thesis using shifted [of k] i assms(9) k by (auto split: option.split)
  qed
  moreover have "lg_files lg' p = lg_files lg p" if "\<forall>i. int i \<le> keep_files (lg_policy lg) \<longrightarrow> p \<noteq> name i" for p
  proof -
    have "p \<noteq> ?path" using that [rule_format, of 0] assms(4,9) by simp
    moreover have p: "p \<noteq> history_name ?path i" if "1 \<le> i" "i \<le> Suc ?n" for i
      using \<open>\<forall>i. _ \<longrightarrow> p \<noteq> name i\<close> [rule_format, of i] that assms(4,9) by simp
    moreover have "hist p = lg_files lg p" using shifted p by blast
    ultimately show ?thesis using other [of p] p [of 1] by (simp add: files_def)
  qed
  ultimately show ?thesis using run by (auto simp: append_line_def split: option.split if_splits)
qed

section \<open>Bounds\<close>

text \<open>A message with the outcomes of the system calls for it, and a run of messages.\<close>

type_synonym entry = "(nat \<Rightarrow> bool) \<times> bool \<times> int \<times> LogLevel \<times> string \<times> string \<times> (string \<times> string) list"

definition log_entry :: "entry \<Rightarrow> logger \<Rightarrow> logger" where
  "log_entry = (\<lambda>(renames, reopens, now, level, message, request_id, kvs) lg.
     snd (logger_log renames reopens now level message request_id kvs lg))"

definition entry_length :: "entry \<Rightarrow> nat" where
  "entry_length = (\<lambda>(renames, reopens, now, level, message, request_id, kvs).
     length (log_line now level message request_id kvs))"

definition log_names :: "string \<Rightarrow> int \<Rightarrow> string set" where
  "log_names path keep = insert path (history_name path ` {i. 1 \<le> i \<and> int i \<le> keep})"

text \<open>The size that the logger counts is the size of the file, and the file is small.\<close>

definition log_ok :: "nat \<Rightarrow> logger \<Rightarrow> bool" where
  "log_ok bound lg \<longleftrightarrow>
     (lg_file lg \<longrightarrow> (\<exists>c. lg_files lg (lg_path lg) = Some c \<and> lg_current_bytes lg = of_nat (length c))) \<and>
     (\<forall>c. lg_files lg (lg_path lg) = Some c \<longrightarrow> length c \<le> bound)"

lemma rename_file_cases:
  "rename_file ok source dest files p = files p \<or> (p = dest \<and> rename_file ok source dest files p = files source) \<or>
   (p = source \<and> rename_file ok source dest files p = None)"
  by (auto simp: rename_file_def split: option.split)

lemma shift_history_dom:
  "dom (shift_history renames path n files) \<subseteq> dom files \<union> history_name path ` {i. 1 \<le> i \<and> i \<le> Suc n} \<and>
   shift_history renames path n files path = files path"
proof (induction n arbitrary: files)
  case (Suc n)
  let ?f = "rename_file (renames (Suc n)) (history_name path (Suc n)) (history_name path (Suc (Suc n))) files"
  have "dom ?f \<subseteq> insert (history_name path (Suc (Suc n))) (dom files)" "?f path = files path"
    by (auto simp: rename_file_def split: option.splits if_splits)
  moreover have "history_name path (Suc (Suc n)) \<in> history_name path ` {i. 1 \<le> i \<and> i \<le> Suc (Suc n)}"
    "history_name path ` {i. 1 \<le> i \<and> i \<le> Suc n} \<subseteq> history_name path ` {i. 1 \<le> i \<and> i \<le> Suc (Suc n)}" by auto
  ultimately show ?case unfolding shift_history.simps using Suc [of ?f] by (simp only: simp_thms) blast
qed simp

lemma log_entry_step:
  assumes "log_ok bound lg" and "entry_length e \<le> bound" and "unat (max_file_bytes (lg_policy lg)) \<le> bound" and "bound < 2 ^ 63"
    and "1 \<le> keep_files (lg_policy lg)" and "lg' = log_entry e lg"
  shows "log_ok bound lg' \<and> lg_path lg' = lg_path lg \<and> lg_policy lg' = lg_policy lg \<and>
     dom (lg_files lg') \<subseteq> dom (lg_files lg) \<union> log_names (lg_path lg) (keep_files (lg_policy lg))"
proof -
  obtain renames reopens now level message request_id kvs where e: "e = (renames, reopens, now, level, message, request_id, kvs)"
    by (cases e) auto
  define line where "line = log_line now level message request_id kvs"
  have len: "length line \<le> bound" using assms(2) by (simp add: e entry_length_def line_def)
  have names: "lg_path lg \<in> log_names (lg_path lg) (keep_files (lg_policy lg))" by (simp add: log_names_def)
  note run = assms(6) [unfolded log_entry_def e prod.case logger_log_def Let_def, folded line_def]
  show ?thesis
  proof (cases "enabled lg level \<and> lg_file lg")
    case False
    then show ?thesis using run assms(1) by (auto simp: log_ok_def)
  next
    case True
    then obtain c where c: "lg_files lg (lg_path lg) = Some c" "lg_current_bytes lg = of_nat (length c)" "length c \<le> bound"
      using assms(1) by (auto simp: log_ok_def)
    have sum: "unat (lg_current_bytes lg + of_nat (length line)) = length c + length line"
      using c len assms(4) by (simp add: unat_word_ariths unat_of_nat)
    show ?thesis
    proof (cases "lg_current_bytes lg + of_nat (length line) < max_file_bytes (lg_policy lg)")
      case room: True
      then have "length c + length line \<le> bound" using sum assms(3) by (simp add: word_less_nat_alt)
      moreover have "lg' = append_line line lg" using run True room by (simp add: rotate_if_needed_def op_modify_def)
      ultimately show ?thesis using True c names by (auto simp: log_ok_def append_line_def)
    next
      case full: False
      let ?files = "rename_file (renames 0) (lg_path lg) (history_name (lg_path lg) 1)
          (shift_history renames (lg_path lg) (nat (keep_files (lg_policy lg) - 1)) (lg_files lg))"
      let ?n = "nat (keep_files (lg_policy lg) - 1)"
      have lg': "lg' = (if reopens then append_line line (lg\<lparr>lg_file := True, lg_files := ?files(lg_path lg \<mapsto> []), lg_current_bytes := 0\<rparr>)
          else lg\<lparr>lg_file := False, lg_files := ?files\<rparr>)"
        using run True full by (simp add: rotate_if_needed_def Let_def op_throw_def throw_error_def op_modify_def)
      have "history_name (lg_path lg) ` {i. 1 \<le> i \<and> i \<le> Suc ?n} \<subseteq> log_names (lg_path lg) (keep_files (lg_policy lg))"
        using assms(5) by (auto simp: log_names_def)
      moreover have first: "history_name (lg_path lg) 1 \<in> log_names (lg_path lg) (keep_files (lg_policy lg))"
        using assms(5) by (simp add: log_names_def)
      moreover have "dom ?files \<subseteq> insert (history_name (lg_path lg) 1) (dom (shift_history renames (lg_path lg) ?n (lg_files lg)))"
        by (auto simp: rename_file_def split: option.splits if_splits)
      ultimately have "dom ?files \<subseteq> dom (lg_files lg) \<union> log_names (lg_path lg) (keep_files (lg_policy lg))"
        using shift_history_dom [of renames "lg_path lg" ?n "lg_files lg"] first by blast
      moreover have "\<forall>c. ?files (lg_path lg) = Some c \<longrightarrow> length c \<le> bound"
        using shift_history_dom [of renames "lg_path lg" ?n "lg_files lg"] c by (auto simp: rename_file_def)
      ultimately show ?thesis using lg' len names by (auto simp: log_ok_def append_line_def)
    qed
  qed
qed

text \<open>The log stays bounded. Whatever is logged and whichever of the renames and openings fail, the
  current file never grows beyond its limit, its size at the start and the longest single line, and no
  file is created but the current one and a history with the configured number of files.\<close>

theorem log_stays_bounded:
  assumes "lg_file lg" and "lg_files lg (lg_path lg) = Some c" and "lg_current_bytes lg = of_nat (length c)"
    and "1 \<le> keep_files (lg_policy lg)"
    and "bound = max (length c) (max (unat (max_file_bytes (lg_policy lg))) longest)" and "bound < 2 ^ 63"
    and "\<forall>e \<in> set es. entry_length e \<le> longest"
  shows "(\<forall>c. lg_files (fold log_entry es lg) (lg_path lg) = Some c \<longrightarrow> length c \<le> bound) \<and>
     dom (lg_files (fold log_entry es lg)) \<subseteq> dom (lg_files lg) \<union> log_names (lg_path lg) (keep_files (lg_policy lg))"
proof -
  have limits: "unat (max_file_bytes (lg_policy lg)) \<le> bound" "longest \<le> bound" using assms(5) by simp_all
  have "log_ok bound (fold log_entry es l) \<and> lg_path (fold log_entry es l) = lg_path l \<and>
      dom (lg_files (fold log_entry es l)) \<subseteq> dom (lg_files l) \<union> log_names (lg_path lg) (keep_files (lg_policy lg))"
    if "log_ok bound l" "lg_policy l = lg_policy lg" "lg_path l = lg_path lg" for l
    using that assms(7)
  proof (induction es arbitrary: l)
    case (Cons e es)
    have e: "entry_length e \<le> bound" using Cons.prems(4) limits(2) by fastforce
    have max: "unat (max_file_bytes (lg_policy l)) \<le> bound" and keep: "1 \<le> keep_files (lg_policy l)"
      unfolding Cons.prems(2) by (rule limits(1), rule assms(4))
    note step = log_entry_step [OF Cons.prems(1) e max assms(6) keep refl, unfolded Cons.prems(2,3)]
    have s: "log_ok bound (log_entry e l)" "lg_path (log_entry e l) = lg_path lg" "lg_policy (log_entry e l) = lg_policy lg"
      "dom (lg_files (log_entry e l)) \<subseteq> dom (lg_files l) \<union> log_names (lg_path lg) (keep_files (lg_policy lg))"
      using step by blast+
    have "\<forall>e\<in>set es. entry_length e \<le> longest" using Cons.prems(4) by simp
    note IH = Cons.IH [OF s(1,3,2) this]
    have "dom (lg_files (fold log_entry (e # es) l)) \<subseteq> dom (lg_files l) \<union> log_names (lg_path lg) (keep_files (lg_policy lg))"
      using IH s(4) unfolding fold_simps by blast
    then show ?case using IH s(2) Cons.prems(3) by simp
  qed simp
  moreover have "log_ok bound lg" using assms(2,3,5) by (simp add: log_ok_def)
  ultimately have "log_ok bound (fold log_entry es lg)" "lg_path (fold log_entry es lg) = lg_path lg"
    "dom (lg_files (fold log_entry es lg)) \<subseteq> dom (lg_files lg) \<union> log_names (lg_path lg) (keep_files (lg_policy lg))"
    by blast+
  then show ?thesis unfolding log_ok_def by simp
qed

section \<open>A concrete log\<close>

definition demo_log :: logger where
  "demo_log = \<lparr>lg_path = ''log'', lg_file = True, lg_level = Info,
     lg_policy = \<lparr>max_file_bytes = 10, keep_files = 2\<rparr>, lg_current_bytes = 3,
     lg_files = [''log'' \<mapsto> ''new'', ''log.1'' \<mapsto> ''old''], lg_stderr = []\<rparr>"

lemma demo_line: "length (log_line 5 Warn ''m'' [] []) = 34" by code_simp

lemma demo_names: "history_name ''log'' (Suc 0) = ''log.1''" "history_name ''log'' (Suc (Suc 0)) = ''log.2''" by code_simp+

theorem rotation_shifts_witness:
  "\<exists>lg'. logger_log (\<lambda>i. True) True 5 Warn ''m'' [] [] demo_log = (Inr (), lg') \<and> lg_files lg' ''log.1'' = Some ''new'' \<and>
     lg_files lg' ''log.2'' = Some ''old'' \<and> lg_files lg' ''log'' = Some (log_line 5 Warn ''m'' [] [])"
proof -
  let ?name = "\<lambda>i. if i = 0 then lg_path demo_log else history_name (lg_path demo_log) i"
  obtain r lg' where run: "logger_log (\<lambda>i. True) True 5 Warn ''m'' [] [] demo_log = (r, lg')" by fastforce
  have "lg_file demo_log" "enabled demo_log Warn" "1 \<le> keep_files (lg_policy demo_log)" "lg_files demo_log (lg_path demo_log) \<noteq> None"
    "\<not> lg_current_bytes demo_log + of_nat (length (log_line 5 Warn ''m'' [] [])) < max_file_bytes (lg_policy demo_log)"
    unfolding demo_line by (simp_all add: demo_log_def enabled_def)
  from rotation_shifts [OF this(1,2) _ this(3) refl refl this(4,5) refl run]
  have *: "lg_files lg' (?name 1) = lg_files demo_log (lg_path demo_log)"
    "\<forall>i. 1 \<le> i \<and> int i < keep_files (lg_policy demo_log) \<longrightarrow>
        (case lg_files demo_log (?name i) of
           Some c \<Rightarrow> lg_files lg' (?name (Suc i)) = Some c
         | None \<Rightarrow> lg_files lg' (?name (Suc i)) =
             (if int (Suc i) < keep_files (lg_policy demo_log) then None else lg_files demo_log (?name (Suc i))))"
    "r = Inr ()" "lg_files lg' (lg_path demo_log) = Some (log_line 5 Warn ''m'' [] [])" by simp_all
  have "lg_files lg' ''log.2'' = Some ''old''" using *(2) [rule_format, of 1] by (simp add: demo_log_def demo_names)
  then show ?thesis using *(1,3,4) run by (simp add: demo_log_def demo_names)
qed

theorem log_stays_bounded_witness:
  "\<forall>c. lg_files (fold log_entry [(\<lambda>i. False, True, 5, Warn, ''m'', [], [])] demo_log) ''log'' = Some c \<longrightarrow> length c \<le> 34"
  using log_stays_bounded [of demo_log "''new''" 34 34 "[(\<lambda>i. False, True, 5, Warn, ''m'', [], [])]"] demo_line
  by (simp add: demo_log_def entry_length_def del: fold_simps)

end
