(* ===== verification/Config.thy ===== *)
theory Config
  imports LoggingProps Transport
begin

text \<open>
  The configuration of the server, \<^verbatim>\<open>src/service/fr_config.cpp\<close>: parsing a
  listen address, loading the settings from a TOML file, the command line's overrides, and the
  validation. The TOML parser is a parameter: whether the file can be parsed, and the value of every
  key (None for a key that is missing or has another type).
\<close>

section \<open>Settings\<close>

record TlsSettings =
  tls_enabled :: bool
  tls_certificate :: string
  tls_private_key :: string

record LogSettings =
  ls_level :: string
  ls_format :: string
  ls_file :: string
  ls_max_file_bytes :: u64
  ls_keep_files :: int

record ServerSettings =
  ss_listen :: string
  ss_max_connections :: int
  ss_worker_threads :: int
  ss_max_payload :: u64
  ss_request_timeout_seconds :: int
  ss_maintenance_interval_seconds :: int
  ss_tls :: TlsSettings
  ss_log :: LogSettings
  ss_storage :: StorageConfig
  ss_database_path :: string

definition default_storage :: StorageConfig where
  "default_storage = \<lparr>cfg_root = [], cfg_chunk_size = 4 * 1024 * 1024, cfg_capacity_bytes = 100 * 1024 * 1024 * 1024,
     cfg_high_watermark_percent = 85, cfg_session_hours = 24, cfg_gc_grace_seconds = 3600, cfg_max_sessions_per_owner = 8\<rparr>"

definition default_settings :: ServerSettings where
  "default_settings = \<lparr>ss_listen = ''127.0.0.1:7443'', ss_max_connections = 128, ss_worker_threads = 4,
     ss_max_payload = 8 * 1024 * 1024, ss_request_timeout_seconds = 120, ss_maintenance_interval_seconds = 300,
     ss_tls = \<lparr>tls_enabled = False, tls_certificate = [], tls_private_key = []\<rparr>,
     ss_log = \<lparr>ls_level = ''info'', ls_format = ''json'', ls_file = [], ls_max_file_bytes = 100 * 1024 * 1024, ls_keep_files = 5\<rparr>,
     ss_storage = default_storage, ss_database_path = []\<rparr>"

section \<open>Listen addresses\<close>

text \<open>The loop over the digits of the port.\<close>

fun port_loop :: "u32 \<Rightarrow> string \<Rightarrow> u16 option" where
  "port_loop value [] = Some (ucast value)"
| "port_loop value (c # cs) =
     (if (of_char c :: nat) < 48 \<or> (of_char c :: nat) > 57 then None
      else let value = value * 10 + of_nat (of_char c - 48)
           in if value > 65535 then None else port_loop value cs)"

definition parse_listen_address :: "string \<Rightarrow> (string \<times> u16) option" where
  "parse_listen_address text =
     (if CHR '':'' \<notin> set text then None
      else let colon = length text - 1 - length (takeWhile (\<lambda>c. c \<noteq> CHR '':'') (rev text))
           in if colon = 0 \<or> colon + 1 \<ge> length text then None
              else let host = take colon text; port = drop (colon + 1) text
                   in if port = [] \<or> length port > 5 then None
                      else map_option (\<lambda>p. (host, p)) (port_loop 0 port))"

section \<open>Validation\<close>

definition config_error :: "string \<Rightarrow> 'a result" where
  "config_error message = throw_error FR_E_ARG (''config: '' @ message)"

definition validate_server_settings :: "ServerSettings \<Rightarrow> unit result" where
  "validate_server_settings s =
     (if parse_listen_address (ss_listen s) = None
      then config_error (''[server].listen must be '' @ [CHR 0x22] @ ''host:port'' @ [CHR 0x22] @ '', got: '' @ ss_listen s)
      else if ss_max_connections s < 16 \<or> ss_max_connections s > 1024
      then config_error ''[server].max_connections must be within [16, 1024]''
      else if ss_worker_threads s < 1 \<or> ss_worker_threads s > 32
      then config_error ''[server].worker_threads must be within [1, 32]''
      else if ss_request_timeout_seconds s \<le> 0 then config_error ''request_timeout_seconds must be positive''
      else if tls_enabled (ss_tls s) \<and> (tls_certificate (ss_tls s) = [] \<or> tls_private_key (ss_tls s) = [])
      then config_error ''[tls].certificate/private_key are required when enabled''
      else if log_level_from (ls_level (ss_log s)) = None
      then config_error ''[logging].level must be one of trace/debug/info/warn/error''
      else if ls_format (ss_log s) \<noteq> ''json''
      then config_error (''[logging].format: only '' @ [CHR 0x22] @ ''json'' @ [CHR 0x22] @ '' is supported'')
      else if cfg_root (ss_storage s) = [] then config_error ''[storage].root is required''
      else if cfg_capacity_bytes (ss_storage s) = 0 then config_error ''[storage].capacity_bytes must be positive''
      else if cfg_high_watermark_percent (ss_storage s) < 1 \<or> cfg_high_watermark_percent (ss_storage s) > 100
      then config_error ''[storage].high_watermark_percent must be within [1, 100]''
      else if cfg_session_hours (ss_storage s) < 1 \<or> cfg_session_hours (ss_storage s) > 168
      then config_error ''[storage].upload_session_hours must be within [1, 168]''
      else if cfg_chunk_size (ss_storage s) < 1024 * 1024 \<or> cfg_chunk_size (ss_storage s) > 8 * 1024 * 1024
      then config_error ''[storage].chunk_size must be within [1 MiB, 8 MiB]''
      else if cfg_gc_grace_seconds (ss_storage s) < 0 then config_error ''[storage].gc_grace_seconds must be >= 0''
      else if cfg_max_sessions_per_owner (ss_storage s) < 1 \<or> cfg_max_sessions_per_owner (ss_storage s) > 64
      then config_error ''[storage].max_sessions_per_owner must be within [1, 64]''
      else if ls_max_file_bytes (ss_log s) = 0 \<or> ls_keep_files (ss_log s) < 1
      then config_error ''[logging] rotation settings are invalid''
      else Inr ())"

section \<open>Loading\<close>

text \<open>The values of a table by section and key.\<close>

record toml =
  tm_string :: "string \<Rightarrow> string \<Rightarrow> string option"
  tm_int :: "string \<Rightarrow> string \<Rightarrow> int option"
  tm_bool :: "string \<Rightarrow> string \<Rightarrow> bool option"

definition value_or :: "'a option \<Rightarrow> 'a \<Rightarrow> 'a" where
  "value_or v d = (case v of Some x \<Rightarrow> x | None \<Rightarrow> d)"

text \<open>\<open>static_cast\<close> from a 64-bit integer to \<open>int\<close> and to \<open>uint64_t\<close>, and the clamp of a default.\<close>

definition to_int :: "int \<Rightarrow> int" where
  "to_int n = sint (word_of_int n :: 32 word)"

definition clamp :: "u64 \<Rightarrow> int" where
  "clamp v = (if uint v > 2 ^ 63 - 1 then 2 ^ 63 - 1 else uint v)"

definition load_storage :: "toml \<Rightarrow> StorageConfig \<Rightarrow> StorageConfig" where
  "load_storage t d =
     \<lparr>cfg_root = value_or (tm_string t ''storage'' ''root'') (cfg_root d),
      cfg_chunk_size = word_of_int (value_or (tm_int t ''storage'' ''chunk_size'') (sint (cfg_chunk_size d))),
      cfg_capacity_bytes = word_of_int (value_or (tm_int t ''storage'' ''capacity_bytes'') (clamp (cfg_capacity_bytes d))),
      cfg_high_watermark_percent = to_int (value_or (tm_int t ''storage'' ''high_watermark_percent'') (cfg_high_watermark_percent d)),
      cfg_session_hours = to_int (value_or (tm_int t ''storage'' ''upload_session_hours'') (cfg_session_hours d)),
      cfg_gc_grace_seconds = to_int (value_or (tm_int t ''storage'' ''gc_grace_seconds'') (cfg_gc_grace_seconds d)),
      cfg_max_sessions_per_owner = to_int (value_or (tm_int t ''storage'' ''max_sessions_per_owner'') (cfg_max_sessions_per_owner d))\<rparr>"

definition load_log :: "toml \<Rightarrow> LogSettings \<Rightarrow> LogSettings" where
  "load_log t d =
     \<lparr>ls_level = value_or (tm_string t ''logging'' ''level'') (ls_level d),
      ls_format = value_or (tm_string t ''logging'' ''format'') (ls_format d),
      ls_file = value_or (tm_string t ''logging'' ''file'') (ls_file d),
      ls_max_file_bytes = word_of_int (value_or (tm_int t ''logging'' ''max_file_bytes'') (clamp (ls_max_file_bytes d))),
      ls_keep_files = to_int (value_or (tm_int t ''logging'' ''keep_files'') (ls_keep_files d))\<rparr>"

definition load_settings :: "toml \<Rightarrow> ServerSettings \<Rightarrow> ServerSettings" where
  "load_settings t d =
     d\<lparr>ss_listen := value_or (tm_string t ''server'' ''listen'') (ss_listen d),
       ss_max_connections := to_int (value_or (tm_int t ''server'' ''max_connections'') (ss_max_connections d)),
       ss_worker_threads := to_int (value_or (tm_int t ''server'' ''worker_threads'') (ss_worker_threads d)),
       ss_tls := \<lparr>tls_enabled = value_or (tm_bool t ''tls'' ''enabled'') (tls_enabled (ss_tls d)),
         tls_certificate = value_or (tm_string t ''tls'' ''certificate'') (tls_certificate (ss_tls d)),
         tls_private_key = value_or (tm_string t ''tls'' ''private_key'') (tls_private_key (ss_tls d))\<rparr>,
       ss_storage := load_storage t (ss_storage d),
       ss_database_path := value_or (tm_string t ''database'' ''path'') (ss_database_path d),
       ss_log := load_log t (ss_log d)\<rparr>"

text \<open>\<open>parse\<close> is the parser of the library: the table, or the text of its error.\<close>

definition load_server_config :: "(string \<Rightarrow> string + toml) \<Rightarrow> string \<Rightarrow> ServerSettings result" where
  "load_server_config parse path =
     (if path = [] then config_error ''config path is empty''
      else case parse path of
             Inl message \<Rightarrow> config_error (''TOML parse error: '' @ message)
           | Inr table \<Rightarrow>
               let settings = load_settings table default_settings
               in rbind (validate_server_settings settings) (\<lambda>u. Inr settings))"

definition apply_cli_overrides :: "string \<Rightarrow> string \<Rightarrow> ServerSettings \<Rightarrow> ServerSettings result" where
  "apply_cli_overrides listen log_level s =
     (let s = (if listen \<noteq> [] then s\<lparr>ss_listen := listen\<rparr> else s);
          s = (if log_level \<noteq> [] then s\<lparr>ss_log := (ss_log s)\<lparr>ls_level := log_level\<rparr>\<rparr> else s)
      in rbind (validate_server_settings s) (\<lambda>u. Inr s))"

definition limits_of :: "ServerSettings \<Rightarrow> server_limits" where
  "limits_of s = \<lparr>lim_max_connections = ss_max_connections s, lim_request_timeout = ss_request_timeout_seconds s\<rparr>"

end
