(* ===== verification/Daemon.thy ===== *)
theory Daemon
  imports Config Logging Transport
begin

text \<open>
  The daemon, \<^verbatim>\<open>src/apps/forgerelayd/main.cpp\<close>, with \<open>Server::start\<close> of
  \<^verbatim>\<open>src/transport/fr_server.cpp\<close>: its arguments, the creation of the first administrator,
  the steps from the configuration to a running server, and its end.
\<close>

declare decimal.simps [simp del]

section \<open>Arguments\<close>

record daemon_args =
  da_config :: string
  da_listen :: string
  da_log_level :: string
  da_create_admin :: string

definition no_args :: daemon_args where
  "no_args = \<lparr>da_config = [], da_listen = [], da_log_level = [], da_create_admin = []\<rparr>"

text \<open>How the process ends: the exit code, what it printed, and its errors.\<close>

datatype ending = Exit int string string

definition newline :: string where "newline = [CHR 0x0A]"

definition usage :: string where
  "usage =
     ''forgerelayd - ForgeRelay artifact cache server'' @ newline @
     ''usage:'' @ newline @
     ''  forgerelayd --config <path> [--listen host:port] [--log-level level]'' @ newline @
     ''  forgerelayd --create-admin <name> --config <path>'' @ newline @
     ''               (bootstrap: create admin user, print a one-time token)'' @ newline @
     ''examples:'' @ newline @
     ''  forgerelayd --config /etc/forgerelay/server.toml'' @ newline"

text \<open>The loop over \<open>argv\<close>; an option without a value is an unknown argument.\<close>

fun daemon_arguments :: "string list \<Rightarrow> daemon_args \<Rightarrow> ending + daemon_args" where
  "daemon_arguments [] a = Inr a"
| "daemon_arguments (arg # args) a =
     (if arg = ''--config'' \<and> args \<noteq> [] then daemon_arguments (tl args) (a\<lparr>da_config := hd args\<rparr>)
      else if arg = ''--listen'' \<and> args \<noteq> [] then daemon_arguments (tl args) (a\<lparr>da_listen := hd args\<rparr>)
      else if arg = ''--log-level'' \<and> args \<noteq> [] then daemon_arguments (tl args) (a\<lparr>da_log_level := hd args\<rparr>)
      else if arg = ''--create-admin'' \<and> args \<noteq> [] then daemon_arguments (tl args) (a\<lparr>da_create_admin := hd args\<rparr>)
      else if arg = ''--help'' \<or> arg = ''-h'' then Inl (Exit 0 usage [])
      else Inl (Exit 2 usage (''unknown argument: '' @ arg @ newline)))"

definition checked_arguments :: "string list \<Rightarrow> ending + daemon_args" where
  "checked_arguments args =
     rbind (daemon_arguments args no_args) (\<lambda>a.
       if da_config a = [] then Inl (Exit 2 usage (''error: --config is required'' @ newline)) else Inr a)"

text \<open>The handlers of \<open>main\<close>.\<close>

fun fatal :: "exn \<Rightarrow> ending" where
  "fatal (Err code message) =
     Exit 1 [] (''fatal: ['' @ fr_status_name code @ ''] '' @ what (Err code message) @ newline)"
| "fatal (StdExc message) = Exit 1 [] (''fatal: '' @ message @ newline)"

section \<open>The world of the daemon\<close>

text \<open>
  What the daemon asks of the system and of the libraries: the TOML parser, the creation of the root
  directory, opening the database at a path, the clock and randomness of the registry, the
  directory of the log file and opening it, what happens to each log line (renames, reopening, time), the storage's environment,
  whether TLS is built in and what its set-up answers, the port a listening socket gets, and the
  steady clock.
\<close>

record daemon_env =
  dn_parse :: "string \<Rightarrow> string + toml"
  dn_dirs :: "string \<Rightarrow> unit result"
  dn_db_opens :: "string \<Rightarrow> unit result"
  dn_auth :: auth_env
  dn_log_dirs :: "unit result"
  dn_log_opens :: bool
  dn_line :: "string \<Rightarrow> (nat \<Rightarrow> bool) \<times> bool \<times> int"
  dn_storage :: senv
  dn_openssl :: bool
  dn_tls_init :: "string \<Rightarrow> string \<Rightarrow> unit result"
  dn_bind :: "string \<Rightarrow> u16 \<Rightarrow> u16 result"
  dn_clock :: u64

text \<open>\<open>root / "metadata.db"\<close>: a separator is added unless there is one.\<close>

definition database_file :: "ServerSettings \<Rightarrow> string" where
  "database_file s =
     (if ss_database_path s \<noteq> [] then ss_database_path s
      else let root = cfg_root (ss_storage s)
           in if root = [] \<or> last root = CHR ''/'' then root @ ''metadata.db'' else root @ ''/metadata.db'')"

section \<open>The first administrator\<close>

text \<open>The state maps the path of a database to what the registry finds there.\<close>

definition admin_text :: "string \<Rightarrow> string \<Rightarrow> string" where
  "admin_text name token =
     ''admin user '' @ [CHR 0x27] @ name @ [CHR 0x27] @ '' created.'' @ newline @
     ''token (shown once, store it safely):'' @ newline @ token @ newline"

definition add_admin :: "auth_env \<Rightarrow> string \<Rightarrow> (database, ending) op" where
  "add_admin env name db =
     (if \<not> has_no_users db
      then (Inr (Exit 1 [] (''error: users already exist; use an existing admin token'' @ newline)), db)
      else op_bind (user_add env name Admin) (\<lambda>u.
           op_bind (token_create env name 0) (\<lambda>token.
             op_return (Exit 0 (admin_text name token) []))) db)"

definition create_admin :: "daemon_env \<Rightarrow> string \<Rightarrow> string \<Rightarrow> (string \<Rightarrow> database, ending) op" where
  "create_admin env config_path name dbs =
     (case load_server_config (dn_parse env) config_path of
        Inl e \<Rightarrow> (Inl e, dbs)
      | Inr settings \<Rightarrow>
          case dn_dirs env (cfg_root (ss_storage settings)) of
            Inl e \<Rightarrow> (Inl e, dbs)
          | Inr u \<Rightarrow>
              case dn_db_opens env (database_file settings) of
                Inl e \<Rightarrow> (Inl e, dbs)
              | Inr u \<Rightarrow>
                  case add_admin (dn_auth env) name (dbs (database_file settings)) of
                    (r, db) \<Rightarrow> (r, dbs(database_file settings := db)))"

text \<open>With the handlers around it.\<close>

definition admin_main :: "daemon_env \<Rightarrow> daemon_args \<Rightarrow> (string \<Rightarrow> database) \<Rightarrow> ending \<times> (string \<Rightarrow> database)" where
  "admin_main env a dbs =
     (case create_admin env (da_config a) (da_create_admin a) dbs of
        (Inl e, dbs) \<Rightarrow> (fatal e, dbs)
      | (Inr r, dbs) \<Rightarrow> (r, dbs))"

section \<open>The server\<close>

definition info :: "daemon_env \<Rightarrow> string \<Rightarrow> (logger, unit) op" where
  "info env message =
     (case dn_line env message of (renames, reopens, now) \<Rightarrow> log_plain renames reopens now Info message [])"

text \<open>\<open>Server::start\<close>; the hub is given.\<close>

definition server_start :: "daemon_env \<Rightarrow> ServerSettings \<Rightarrow> dispatcher \<Rightarrow> (logger, transport) op" where
  "server_start env s d =
     (case parse_listen_address (ss_listen s) of
        None \<Rightarrow> op_throw FR_E_ARG (''listen address invalid: '' @ ss_listen s)
      | Some (host, port) \<Rightarrow>
          op_bind (op_lift (dn_bind env host port)) (\<lambda>port.
          op_bind
            (if tls_enabled (ss_tls s)
             then if dn_openssl env
                  then op_bind (op_lift (dn_tls_init env (tls_certificate (ss_tls s)) (tls_private_key (ss_tls s))))
                         (\<lambda>u. info env ''TLS 1.3 enabled (SEC-01/02)'')
                  else op_throw FR_E_ARG
                         (''TLS backend unavailable in this build (no OpenSSL); '' @
                          ''use a loopback listener with tls.enabled = false (D-20)'')
             else op_return ()) (\<lambda>u.
          op_bind (info env (''forgerelayd listening on '' @ host @ '':'' @ decimal (unat port))) (\<lambda>u.
          op_return (start_server (nat (ss_worker_threads s)) (Some (dn_clock env)) d)))))"

record daemon =
  dm_log :: logger
  dm_storage :: storage

text \<open>A part of the daemon is given to an operation.\<close>

definition on_log :: "(logger, 'a) op \<Rightarrow> (daemon, 'a) op" where
  "on_log m w = (case m (dm_log w) of (r, lg) \<Rightarrow> (r, w\<lparr>dm_log := lg\<rparr>))"

definition on_disk :: "(storage, 'a) op \<Rightarrow> (daemon, 'a) op" where
  "on_disk m w = (case m (dm_storage w) of (r, st) \<Rightarrow> (r, w\<lparr>dm_storage := st\<rparr>))"

definition daemon_settings :: "daemon_env \<Rightarrow> daemon_args \<Rightarrow> ServerSettings result" where
  "daemon_settings env a =
     rbind (load_server_config (dn_parse env) (da_config a)) (apply_cli_overrides (da_listen a) (da_log_level a))"

text \<open>The body of the \<open>try\<close> block up to the line that tells that the server has started.\<close>

definition daemon_boot :: "daemon_env \<Rightarrow> ServerSettings \<Rightarrow> (daemon, transport) op" where
  "daemon_boot env s =
     op_bind (on_log (logger_open (dn_log_dirs env) (dn_log_opens env) (ls_file (ss_log s)) Info default_policy)) (\<lambda>u.
     op_bind (on_disk (storage_open (ss_storage s) (dn_storage env))) (\<lambda>u.
     op_bind (op_lift (dn_db_opens env (database_file s))) (\<lambda>u.
     op_bind (\<lambda>w. on_log (server_start env s (new_dispatcher (dm_storage w))) w) (\<lambda>t.
     op_bind (on_log (info env ''forgerelayd started (M3/M4)'')) (\<lambda>u.
     op_return t)))))"

definition no_tls_text :: string where
  "no_tls_text =
     ''error: TLS backend unavailable in this build (no OpenSSL); '' @
     ''use a loopback listener with tls.enabled = false'' @ newline"

text \<open>Either the end of the process, or the settings and the server that runs.\<close>

definition serve_main :: "daemon_env \<Rightarrow> daemon_args \<Rightarrow> daemon \<Rightarrow> (ending + ServerSettings \<times> transport) \<times> daemon" where
  "serve_main env a w =
     (case daemon_settings env a of
        Inl e \<Rightarrow> (Inl (fatal e), w)
      | Inr s \<Rightarrow>
          if tls_enabled (ss_tls s) \<and> \<not> dn_openssl env then (Inl (Exit 1 [] no_tls_text), w)
          else case daemon_boot env s w of
                 (Inl e, w) \<Rightarrow> (Inl (fatal e), w)
               | (Inr t, w) \<Rightarrow> (Inr (s, t), w))"

text \<open>The end after a signal: two log lines with the stop of the server between them.\<close>

definition serve_end :: "daemon_env \<Rightarrow> transport \<Rightarrow> logger \<Rightarrow> ending \<times> transport \<times> logger" where
  "serve_end env t lg =
     (case info env ''stop signal received, shutting down (LIFE-05)'' lg of
        (Inl e, lg) \<Rightarrow> (fatal e, close_all (stop_threads t), lg)
      | (Inr u, lg) \<Rightarrow>
          case info env ''forgerelayd stopped'' lg of
            (Inl e, lg) \<Rightarrow> (fatal e, close_all (stop_threads t), lg)
          | (Inr u, lg) \<Rightarrow> (Exit 0 [] [], close_all (stop_threads t), lg))"

text \<open>Which of the two \<open>main\<close> does.\<close>

definition daemon_main ::
  "daemon_env \<Rightarrow> string list \<Rightarrow> (string \<Rightarrow> database) \<times> daemon \<Rightarrow> (ending + ServerSettings \<times> transport) \<times> (string \<Rightarrow> database) \<times> daemon" where
  "daemon_main env argv world =
     (case (checked_arguments argv, world) of
        (Inl e, dbs, w) \<Rightarrow> (Inl e, dbs, w)
      | (Inr a, dbs, w) \<Rightarrow>
          if da_create_admin a \<noteq> []
          then (case admin_main env a dbs of (e, dbs) \<Rightarrow> (Inl e, dbs, w))
          else (case serve_main env a w of (r, w) \<Rightarrow> (r, dbs, w)))"

end
