(* ===== verification/ConfigProps.thy ===== *)
theory ConfigProps
  imports Config ServerProps
begin

text \<open>
  Listen addresses are split and read exactly; settings that have been loaded are what the other
  parts rely on; and what the conversions of the loader let through.
\<close>

section \<open>Listen addresses\<close>

definition digit :: "char \<Rightarrow> bool" where
  "digit c \<longleftrightarrow> 48 \<le> (of_char c :: nat) \<and> (of_char c :: nat) \<le> 57"

lemma digits_grow: "v \<le> foldl (\<lambda>v c. 10 * v + (of_char c - 48)) v cs" for v :: nat
proof (induction cs arbitrary: v)
  case (Cons c cs)
  have "v \<le> 10 * v + (of_char c - 48)" by simp
  also have "\<dots> \<le> foldl (\<lambda>v c. 10 * v + (of_char c - 48)) (10 * v + (of_char c - 48)) cs" by (rule Cons.IH)
  finally show ?case by simp
qed simp

lemma port_loop_exact:
  "unat v \<le> 65535 \<Longrightarrow> port_loop v cs = Some p \<longleftrightarrow>
     (\<forall>c\<in>set cs. digit c) \<and> foldl (\<lambda>v c. 10 * v + (of_char c - 48)) (unat v) cs = unat p"
proof (induction cs arbitrary: v)
  case Nil
  have "unat (ucast v :: u16) = unat v" using Nil by (simp add: unsigned_ucast_eq take_bit_nat_eq_self)
  then show ?case by (auto simp: word_unat_eq_iff)
next
  case (Cons c cs)
  show ?case
  proof (cases "digit c")
    case False
    then show ?thesis by (auto simp: digit_def)
  next
    case True
    let ?d = "of_char c - 48 :: nat" and ?v = "v * 10 + of_nat (of_char c - 48)"
    have d: "?d \<le> 9" using True unfolding digit_def by linarith
    have v: "unat ?v = 10 * unat v + ?d" using Cons.prems d by (simp add: unat_word_ariths unat_of_nat)
    show ?thesis
    proof (cases "?v > 65535")
      case big: True
      then have "65535 < 10 * unat v + ?d" using v by (simp add: word_less_nat_alt)
      then have "65535 < foldl (\<lambda>v c. 10 * v + (of_char c - 48)) (unat v) (c # cs)"
        using digits_grow [of "10 * unat v + ?d" cs] by simp
      moreover have "unat p < 65536" using unsigned_less [of p] by simp
      ultimately show ?thesis using big True by (simp add: Let_def digit_def)
    next
      case False
      then have "unat ?v \<le> 65535" by (simp add: word_le_nat_alt word_less_nat_alt not_less)
      from Cons.IH [OF this] show ?thesis using False True v by (simp add: Let_def digit_def)
    qed
  qed
qed

lemma listen_address:
  "parse_listen_address text = Some (host, port) \<longleftrightarrow>
     host \<noteq> [] \<and> (\<exists>digits. text = host @ [CHR '':''] @ digits \<and> digits \<noteq> [] \<and> length digits \<le> 5 \<and>
       (\<forall>c\<in>set digits. digit c) \<and> of_decimal digits = unat port)"
proof -
  have no_colon: "\<not> digit (CHR '':'')" by (simp add: digit_def)
  have parts: "parse_listen_address (a @ CHR '':'' # b) =
      (if a = [] \<or> b = [] \<or> length b > 5 then None else map_option (\<lambda>p. (a, p)) (port_loop 0 b))" if "CHR '':'' \<notin> set b" for a b
    using takeWhile_stop [of "CHR '':''" "rev b" "rev a"] that by (simp add: parse_listen_address_def Let_def)
  show ?thesis
  proof
    assume p: "parse_listen_address text = Some (host, port)"
    then have "CHR '':'' \<in> set text" by (simp add: parse_listen_address_def split: if_splits)
    then obtain a b where t: "text = a @ CHR '':'' # b" "CHR '':'' \<notin> set b" using split_list_last by metis
    then have "port_loop 0 b = Some port" "a = host" "a \<noteq> []" "b \<noteq> []" "length b \<le> 5"
      using p parts [OF t(2), of a] by (auto split: if_splits)
    then show "host \<noteq> [] \<and> (\<exists>digits. text = host @ [CHR '':''] @ digits \<and> digits \<noteq> [] \<and> length digits \<le> 5 \<and>
       (\<forall>c\<in>set digits. digit c) \<and> of_decimal digits = unat port)"
      using t(1) port_loop_exact [of 0 b port] by (auto simp: of_decimal_def)
  next
    assume "host \<noteq> [] \<and> (\<exists>digits. text = host @ [CHR '':''] @ digits \<and> digits \<noteq> [] \<and> length digits \<le> 5 \<and>
       (\<forall>c\<in>set digits. digit c) \<and> of_decimal digits = unat port)"
    then obtain b where b: "host \<noteq> []" "text = host @ CHR '':'' # b" "b \<noteq> []" "length b \<le> 5" "\<forall>c\<in>set b. digit c" "of_decimal b = unat port"
      by auto
    moreover have "CHR '':'' \<notin> set b" using b(5) no_colon by blast
    ultimately show "parse_listen_address text = Some (host, port)"
      using parts [of b host] port_loop_exact [of 0 b port] by (simp add: of_decimal_def)
  qed
qed

text \<open>C31: A listen address is accepted exactly if it is a host, which is not empty, a colon and a port,
  which consists of one to five digits, has no colon in it and is at most 65535; the colon is the
  last one, and host and port are returned.\<close>

theorem listen_address_exact:
  "parse_listen_address text = Some (host, port) \<longleftrightarrow>
     host \<noteq> [] \<and> (\<exists>digits. text = host @ [CHR '':''] @ digits \<and> digits \<noteq> [] \<and> length digits \<le> 5 \<and>
       list_all digit digits \<and> of_decimal digits = unat port)"
  using listen_address by (simp add: list_all_iff)

section \<open>Loaded settings\<close>

lemma validated:
  assumes "validate_server_settings s = Inr ()"
  shows "parse_listen_address (ss_listen s) \<noteq> None"
    and "16 \<le> ss_max_connections s" "ss_max_connections s \<le> 1024" "1 \<le> ss_worker_threads s" "ss_worker_threads s \<le> 32"
    and "0 < ss_request_timeout_seconds s" and "log_level_from (ls_level (ss_log s)) \<noteq> None"
    and "cfg_root (ss_storage s) \<noteq> []" and "1 \<le> cfg_high_watermark_percent (ss_storage s)" "cfg_high_watermark_percent (ss_storage s) \<le> 100"
    and "1 \<le> cfg_session_hours (ss_storage s)" "cfg_session_hours (ss_storage s) \<le> 168"
    and "1024 * 1024 \<le> cfg_chunk_size (ss_storage s)" "cfg_chunk_size (ss_storage s) \<le> 8 * 1024 * 1024"
    and "1 \<le> ls_keep_files (ss_log s)"
  using assms unfolding validate_server_settings_def config_error_def
  by (simp_all only: throw_error_simps not_less not_le de_Morgan_disj not_not HOL.simp_thms split: if_splits)

text \<open>What the other parts rely on.\<close>

definition settings_ok :: "ServerSettings \<Rightarrow> bool" where
  "settings_ok s \<longleftrightarrow> parse_listen_address (ss_listen s) \<noteq> None \<and> log_level_from (ls_level (ss_log s)) \<noteq> None \<and>
     1 \<le> ls_keep_files (ss_log s) \<and> 0 < ss_request_timeout_seconds s \<and>
     (\<forall>env. storage_open (ss_storage s) env = op_bind (run_maintenance env) (\<lambda>report. op_return ())) \<and>
     (\<forall>sha hub d t. transport_run sha (limits_of s) (start_server (nat (ss_worker_threads s)) hub d) t \<longrightarrow>
        1 \<le> length (tr_workers t) \<and> length (tr_workers t) \<le> 32 \<and> length (tr_connections t) \<le> 1024)"

lemma validated_ok:
  assumes "validate_server_settings s = Inr ()" shows "settings_ok s"
proof -
  note v = validated [OF assms]
  have "1 \<le> length (tr_workers t) \<and> length (tr_workers t) \<le> 32 \<and> length (tr_connections t) \<le> 1024"
    if "transport_run sha (limits_of s) (start_server (nat (ss_worker_threads s)) hub d) t" for sha hub d t
  proof -
    have "0 \<le> lim_max_connections (limits_of s)" using v(2) by (simp add: limits_of_def)
    from bounded.kept_run [OF that server_ok_start [OF this]]
    have "length (tr_workers t) = nat (ss_worker_threads s)" "int (length (tr_connections t)) \<le> ss_max_connections s"
      by (simp_all add: server_ok_def limits_of_def)
    then show ?thesis using v(3-5) by linarith
  qed
  moreover have "storage_open (ss_storage s) env = op_bind (run_maintenance env) (\<lambda>report. op_return ())" for env
    using v(8-14) by (simp add: storage_open_def leD)
  ultimately show ?thesis using v(1,6,7,15) unfolding settings_ok_def by blast
qed

lemma loaded_ok: "load_server_config parse path = Inr s \<Longrightarrow> settings_ok s"
  unfolding load_server_config_def config_error_def
  by (auto simp: Let_def rbind_eq_Inr intro: validated_ok split: if_splits sum.splits)

lemma overridden_ok: "apply_cli_overrides listen log_level s0 = Inr s \<Longrightarrow> settings_ok s"
  unfolding apply_cli_overrides_def Let_def by (auto simp: rbind_eq_Inr intro: validated_ok)

text \<open>C30: Settings that have been loaded, with the overrides of the command line, are what the rest of
  the server relies on: the listen address and the log level can be parsed, at least one old log file
  is kept, the checks of the storage accept its part, and a server that is started with them has
  between 1 and 32 workers and never more than 1024 connections.\<close>

theorem loaded_settings_ok:
  assumes "load_server_config parse path = Inr s"
  shows "settings_ok s \<and> (\<forall>s'. apply_cli_overrides listen log_level s = Inr s' \<longrightarrow> settings_ok s' \<and> ss_storage s' = ss_storage s)"
proof -
  have "ss_storage s' = ss_storage s" if "apply_cli_overrides listen log_level s = Inr s'" for s'
    using that unfolding apply_cli_overrides_def Let_def by (auto simp: rbind_eq_Inr split: if_splits)
  then show ?thesis using loaded_ok [OF assms] overridden_ok by blast
qed

section \<open>What the conversions let through\<close>

lemma default_address: "parse_listen_address ''127.0.0.1:7443'' = Some (''127.0.0.1'', 7443)"
  by (simp add: parse_listen_address_def Let_def)

lemma defaults_valid:
  "root \<noteq> [] \<Longrightarrow> 16 \<le> n \<Longrightarrow> n \<le> 1024 \<Longrightarrow> cap \<noteq> 0 \<Longrightarrow>
   validate_server_settings (default_settings\<lparr>ss_max_connections := n,
     ss_storage := default_storage\<lparr>cfg_root := root, cfg_capacity_bytes := cap\<rparr>\<rparr>) = Inr ()"
  using default_address
  by (simp add: validate_server_settings_def default_settings_def default_storage_def log_level_from_def)

text \<open>The conversions come before the checks, so that values outside the documented ranges pass: a
  negative capacity becomes one near 2 ^ 64, and a number of connections is taken modulo 2 ^ 32.\<close>

theorem conversions_wrap:
  assumes "parse path = Inr table" and "path \<noteq> []"
    and "table = \<lparr>tm_string = (\<lambda>sec key. if sec = ''storage'' \<and> key = ''root'' then Some root else None),
      tm_int = (\<lambda>sec key. if sec = ''storage'' \<and> key = ''capacity_bytes'' then Some (- c)
        else if sec = ''server'' \<and> key = ''max_connections'' then Some (2 ^ 32 * k + n) else None),
      tm_bool = (\<lambda>sec key. None)\<rparr>"
    and "root \<noteq> []" and "0 < c" and "c \<le> 2 ^ 63" and "16 \<le> n" and "n \<le> 1024"
  shows "\<exists>s. load_server_config parse path = Inr s \<and> int (unat (cfg_capacity_bytes (ss_storage s))) = 2 ^ 64 - c \<and>
     ss_max_connections s = n"
proof -
  let ?s = "load_settings table default_settings"
  have "take_bit 32 (2 ^ 32 * k + n) = take_bit 32 n" by (simp add: take_bit_eq_mod)
  then have "(word_of_int (2 ^ 32 * k + n) :: 32 word) = word_of_int n" by (simp only: word_of_int_eq_iff) simp
  then have "sint (word_of_int (2 ^ 32 * k + n) :: 32 word) = sint (word_of_int n :: 32 word)" by (simp only:)
  also have "\<dots> = n" using assms(7,8) by (simp add: signed_of_int signed_take_bit_int_eq_self)
  finally have n: "to_int (2 ^ 32 * k + n) = n" by (simp add: to_int_def)
  have keep: "to_int 85 = 85" "to_int 24 = 24" "to_int 3600 = 3600" "to_int 8 = 8" "to_int 5 = 5" "to_int 4 = 4"
    by (simp_all add: to_int_def)
  have "- c mod 2 ^ 64 = (2 ^ 64 + - c) mod 2 ^ 64" by (rule mod_add_self1 [symmetric])
  also have "\<dots> = 2 ^ 64 + - c" by (rule mod_pos_pos_trivial) (use assms(5,6) in simp_all)
  finally have "take_bit 64 (- c) = 2 ^ 64 - c" unfolding take_bit_eq_mod by (simp only: minus_add_distrib diff_conv_add_uminus)
  then have cap: "int (unat (word_of_int (- c) :: u64)) = 2 ^ 64 - c" using assms(6) unfolding unsigned_of_int by simp
  let ?cap = "word_of_int (- c) :: u64"
  have s: "?s = default_settings\<lparr>ss_max_connections := n, ss_storage := default_storage\<lparr>cfg_root := root, cfg_capacity_bytes := ?cap\<rparr>\<rparr>"
    using n keep by (simp add: load_settings_def load_storage_def load_log_def assms(3) value_or_def default_settings_def default_storage_def clamp_def)
  have "?cap \<noteq> 0" using cap assms(5,6) by auto
  with assms(4,7,8) have "validate_server_settings ?s = Inr ()" unfolding s by (intro defaults_valid)
  then have "load_server_config parse path = Inr ?s" using assms(1,2) by (simp add: load_server_config_def)
  moreover have "ss_max_connections ?s = n" using n by (simp add: load_settings_def assms(3) value_or_def)
  moreover have "int (unat (cfg_capacity_bytes (ss_storage ?s))) = 2 ^ 64 - c"
    using cap by (simp add: load_settings_def load_storage_def assms(3) value_or_def)
  ultimately show ?thesis by blast
qed

section \<open>A concrete configuration\<close>

definition demo_table :: toml where
  "demo_table = \<lparr>tm_string = (\<lambda>sec key. if sec = ''storage'' \<and> key = ''root'' then Some ''/srv'' else None),
      tm_int = (\<lambda>sec key. if sec = ''storage'' \<and> key = ''capacity_bytes'' then Some (- 1)
        else if sec = ''server'' \<and> key = ''max_connections'' then Some (2 ^ 32 * 1 + 64) else None),
      tm_bool = (\<lambda>sec key. None)\<rparr>"

theorem conversions_wrap_witness:
  "\<exists>s. load_server_config (\<lambda>path. Inr demo_table) ''f'' = Inr s \<and>
     int (unat (cfg_capacity_bytes (ss_storage s))) = 2 ^ 64 - 1 \<and> ss_max_connections s = 64"
  by (rule conversions_wrap [where table = demo_table and root = "''/srv''" and k = 1]) (simp_all add: demo_table_def)

definition demo_settings :: ServerSettings where
  "demo_settings = default_settings\<lparr>ss_max_connections := 64,
      ss_storage := default_storage\<lparr>cfg_root := ''/srv'', cfg_capacity_bytes := - 1\<rparr>\<rparr>"

lemma demo_valid: "validate_server_settings demo_settings = Inr ()"
  using defaults_valid [of "''/srv''" 64 "- 1"] by (simp add: demo_settings_def)

lemma demo_loads: "load_server_config (\<lambda>path. Inr demo_table) ''f'' = Inr demo_settings"
proof -
  have "to_int (2 ^ 32 + 64) = 64" "to_int 85 = 85" "to_int 24 = 24" "to_int 3600 = 3600" "to_int 8 = 8" "to_int 5 = 5" "to_int 4 = 4"
    by (simp_all add: to_int_def)
  then have "load_settings demo_table default_settings = demo_settings"
    by (simp add: demo_settings_def load_settings_def load_storage_def load_log_def demo_table_def value_or_def default_settings_def default_storage_def clamp_def)
  then show ?thesis using demo_valid by (simp add: load_server_config_def)
qed

theorem loaded_settings_ok_witness:
  "load_server_config (\<lambda>path. Inr demo_table) ''f'' = Inr demo_settings \<and> settings_ok demo_settings"
  using loaded_settings_ok [OF demo_loads, of "[]" "[]"] demo_loads by blast

end
