(* ===== verification/DaemonProps.thy ===== *)
theory DaemonProps
  imports Daemon ConfigProps ServerProps
begin

text \<open>
  The daemon: what the creation of the first administrator leaves behind, that a daemon which has
  started serves consistently on whatever an earlier one left on disk, and how the process ends.
\<close>

declare decimal.simps [simp del]

section \<open>The first administrator\<close>

lemma add_admin_new:
  assumes "db_user db = []" and "auth_ok db" and "name \<noteq> []" and "fr_ident_valid_component (Some name)"
  shows "\<exists>token db'. add_admin env name db = (Inr (Exit 0 (admin_text name token) []), db') \<and>
     db_user db' \<noteq> [] \<and> auth_ok db' \<and>
     (\<forall>now. verify (env\<lparr>au_now := now\<rparr>) token db' = Inr \<lparr>ao_username = name, ao_role = role_value Admin\<rparr>)"
proof -
  let ?id = "db_user_seq db + 1"
  let ?u = "\<lparr>us_id = ?id, us_username = name, us_role = role_name Admin, us_enabled = 1, us_created_at = au_now env\<rparr>"
  let ?db1 = "db\<lparr>db_user := [?u], db_user_seq := ?id\<rparr>"
  let ?token = "''fr_'' @ sha256_to_hex (au_random env)"
  let ?t = "\<lparr>tk_id = db_token_seq db + 1, tk_user_id = ?id, tk_token_hash = token_digest (au_sha env) ?token,
      tk_expires_at = Some 0, tk_revoked_at = None, tk_created_at = au_now env\<rparr>"
  let ?db2 = "?db1\<lparr>db_token := [?t], db_token_seq := db_token_seq db + 1\<rparr>"
  have tokens: "db_token db = []"
  proof (rule ccontr)
    assume "db_token db \<noteq> []"
    then obtain t where "t \<in> set (db_token db)" by (cases "db_token db") auto
    with assms(1,2) show False by (simp add: auth_ok_def)
  qed
  have added: "user_add env name Admin db = (Inr (), ?db1)"
    using assms(1,3,4) by (simp add: user_add_def insert_user_def Let_def)
  have "token_create env name 0 ?db1 = (Inr ?token, ?db2)"
    using tokens by (simp add: token_create_def select_one_def insert_token_def op_return_def Let_def)
  then have "add_admin env name db = (Inr (Exit 0 (admin_text name ?token) []), ?db2)"
    using added assms(1) by (simp add: add_admin_def has_no_users_def op_return_def)
  moreover have ok: "auth_ok ?db2" by (simp add: auth_ok_def role_texts_def)
  moreover have "verify (env\<lparr>au_now := now\<rparr>) ?token ?db2 = Inr \<lparr>ao_username = name, ao_role = role_value Admin\<rparr>" for now
    using verify_row [OF ok, of ?t ?u "env\<lparr>au_now := now\<rparr>" ?token] role_from_name [of Admin]
    by (simp add: column_int_def)
  ultimately show ?thesis by (intro exI [of _ ?token] exI [of _ ?db2]) simp
qed

lemma add_admin_refused:
  "db_user db \<noteq> [] \<Longrightarrow> add_admin env name db =
     (Inr (Exit 1 [] (''error: users already exist; use an existing admin token'' @ newline)), db)"
  "db_user db = [] \<Longrightarrow> name = [] \<or> \<not> fr_ident_valid_component (Some name) \<Longrightarrow>
     \<exists>message. add_admin env name db = (Inl (Err FR_E_ARG message), db)"
  by (simp_all add: add_admin_def has_no_users_def user_add_def op_throw_def throw_error_def)


section \<open>The server\<close>

lemma op_bind_done: "op_bind m k s = (Inr y, s') \<longleftrightarrow> (\<exists>x s1. m s = (Inr x, s1) \<and> k x s1 = (Inr y, s'))"
  by (auto split: prod.splits sum.splits)

lemma logger_open_level: "logger_open dirs opens path level policy lg = (r, lg') \<Longrightarrow> lg_level lg' = level"
  by (auto simp: logger_open_def op_throw_def Let_def split: if_splits)

definition level_is :: "LogLevel \<Rightarrow> logger \<Rightarrow> bool" where
  "level_is level lg \<longleftrightarrow> lg_level lg = level"

lemma level_info: "keeps (level_is level) (info env message)"
proof -
  have "keeps (level_is level) (rotate_if_needed renames reopens n)" for renames reopens n
    by (auto simp: keeps_def level_is_def rotate_if_needed_def op_throw_def Let_def)
  then have "keeps (level_is level) (op_bind (rotate_if_needed renames reopens n) (\<lambda>u. op_modify (append_line line)))"
    for renames reopens n line
    by (intro keeps_intros keeps_modify) (auto simp: level_is_def append_line_def)
  then show ?thesis
    by (auto simp: keeps_def info_def log_plain_def logger_log_def level_is_def Let_def simp del: op_bind.simps split: prod.splits)
qed

lemma level_server_start: "keeps (level_is level) (server_start env s d)"
proof (cases "parse_listen_address (ss_listen s)")
  case None
  then show ?thesis by (simp add: server_start_def keeps_intros)
next
  case (Some address)
  then show ?thesis
    unfolding server_start_def by (cases address) (simp del: op_bind.simps, intro keeps_intros level_info conjI impI)
qed

lemma server_start_result:
  assumes "server_start env s d lg = (Inr t, lg')"
  shows "t = start_server (nat (ss_worker_threads s)) (Some (dn_clock env)) d"
proof -
  obtain host port where "parse_listen_address (ss_listen s) = Some (host, port)"
    using assms by (auto simp: server_start_def op_throw_def split: option.splits)
  then show ?thesis
    using assms unfolding server_start_def by (auto simp: op_bind_done op_return_def simp del: op_bind.simps split: if_splits)
qed

lemma booted_server:
  assumes "daemon_boot env s w = (Inr t, w')"
  shows "dm_storage w' = snd (storage_open (ss_storage s) (dn_storage env) (dm_storage w)) \<and>
     t = start_server (nat (ss_worker_threads s)) (Some (dn_clock env)) (new_dispatcher (dm_storage w')) \<and>
     level_is Info (dm_log w')"
proof -
  from assms obtain lg1 st lg2 lg3
    where o: "logger_open (dn_log_dirs env) (dn_log_opens env) (ls_file (ss_log s)) Info default_policy (dm_log w) = (Inr (), lg1)"
      and st: "storage_open (ss_storage s) (dn_storage env) (dm_storage w) = (Inr (), st)"
      and start: "server_start env s (new_dispatcher st) lg1 = (Inr t, lg2)"
      and line: "info env ''forgerelayd started (M3/M4)'' lg2 = (Inr (), lg3)"
      and w': "w' = \<lparr>dm_log = lg3, dm_storage = st\<rparr>"
    unfolding daemon_boot_def on_log_def on_disk_def
    by (cases w) (auto simp: op_bind_done op_lift_def op_return_def simp del: op_bind.simps split: prod.splits)
  have "level_is Info lg1" using logger_open_level [OF o] by (simp add: level_is_def)
  then have "level_is Info lg2" using level_server_start [of Info env s "new_dispatcher st"] start unfolding keeps_def by (metis snd_conv)
  then have "level_is Info lg3" using level_info [of Info env] line unfolding keeps_def by (metis snd_conv)
  then show ?thesis using w' st server_start_result [OF start] by simp
qed


section \<open>How the process ends\<close>

lemma fatal_exit: "\<exists>message. fatal e = Exit 1 [] message \<and> message \<noteq> []"
  by (cases e) simp_all

lemma arguments_exit:
  "daemon_arguments args a = Inl (Exit code out err) \<Longrightarrow>
   out = usage \<and> (code = 0 \<and> err = [] \<or> code = 2 \<and> err \<noteq> [])"
  by (induction args a rule: daemon_arguments.induct) (auto split: if_splits)

lemma checked_exit:
  assumes "checked_arguments argv = Inl (Exit code out err)"
  shows "out = usage \<and> (code = 0 \<and> err = [] \<or> code = 2 \<and> err \<noteq> [])"
  using assms arguments_exit [of argv no_args code out err]
  unfolding checked_arguments_def by (auto simp: rbind_eq_Inl split: if_splits)

lemma add_admin_exit:
  "add_admin env name db = (Inr e, db') \<Longrightarrow> (\<exists>out. out \<noteq> [] \<and> e = Exit 0 out []) \<or> (\<exists>err. err \<noteq> [] \<and> e = Exit 1 [] err)"
  unfolding add_admin_def
  by (auto simp: op_bind_done op_return_def admin_text_def simp del: op_bind.simps split: if_splits)

lemma create_admin_ends:
  "create_admin env path name dbs = (Inr e, dbs') \<Longrightarrow> \<exists>db db'. add_admin (dn_auth env) name db = (Inr e, db')"
  unfolding create_admin_def by (auto split: sum.splits prod.splits)

lemma admin_exit:
  assumes "admin_main env a dbs = (Exit code out err, dbs')"
  shows "code = 0 \<and> err = [] \<and> out \<noteq> [] \<or> code = 1 \<and> err \<noteq> []"
proof -
  obtain r dbs1 where c: "create_admin env (da_config a) (da_create_admin a) dbs = (r, dbs1)" by fastforce
  show ?thesis
  proof (cases r)
    case (Inl x)
    then have "fatal x = Exit code out err" using assms c by (simp add: admin_main_def)
    then show ?thesis using fatal_exit [of x] by auto
  next
    case (Inr e)
    then have "e = Exit code out err" using assms c by (simp add: admin_main_def)
    then show ?thesis using add_admin_exit create_admin_ends c Inr by blast
  qed
qed

lemma serve_exit:
  assumes "serve_main env a w = (Inl (Exit code out err), w')"
  shows "code = 1 \<and> err \<noteq> []"
proof -
  have "(\<exists>e. fatal e = Exit code out err) \<or> Exit 1 [] no_tls_text = Exit code out err"
    using assms unfolding serve_main_def by (auto split: sum.splits prod.splits if_splits)
  then show ?thesis
  proof
    assume "\<exists>e. fatal e = Exit code out err"
    then obtain e where "fatal e = Exit code out err" ..
    then show ?thesis using fatal_exit [of e] by auto
  qed (auto simp: no_tls_text_def)
qed

text \<open>How the process ends. The exit code is 0, 1 or 2, and something is written to the error
  output exactly if it is not 0. Code 2 and the help come before anything is done: the usage is printed
  and neither a registry nor the storage or the log has changed. Code 0 without serving has printed
  the usage or the token. Creating an administrator never touches storage or log, and the part that
  serves never touches a registry before it serves.\<close>

theorem daemon_exit_codes:
  assumes "daemon_main env argv (dbs, w) = (Inl (Exit code out err), dbs', w')"
  shows "code \<in> {0, 1, 2} \<and> (code = 0 \<longleftrightarrow> err = []) \<and> (code = 0 \<longrightarrow> out \<noteq> []) \<and>
     (code = 2 \<longrightarrow> out = usage \<and> dbs' = dbs \<and> w' = w) \<and> (out = usage \<and> code = 0 \<longrightarrow> w' = w) \<and> (dbs' = dbs \<or> w' = w)"
proof (cases "checked_arguments argv")
  case (Inl e)
  then have "checked_arguments argv = Inl (Exit code out err)" "dbs' = dbs" "w' = w"
    using assms by (auto simp: daemon_main_def)
  moreover have "usage \<noteq> []" by (simp add: usage_def)
  ultimately show ?thesis using checked_exit [of argv code out err] by auto
next
  case (Inr a)
  show ?thesis
  proof (cases "da_create_admin a \<noteq> []")
    case True
    then have "admin_main env a dbs = (Exit code out err, dbs')" "w' = w"
      using assms Inr by (auto simp: daemon_main_def split: prod.splits)
    then show ?thesis using admin_exit [of env a dbs code out err dbs'] by auto
  next
    case False
    then have r: "serve_main env a w = (Inl (Exit code out err), w')" "dbs' = dbs"
      using assms Inr by (auto simp: daemon_main_def split: prod.splits)
    then have "code = 1 \<and> err \<noteq> []" using serve_exit by blast
    then show ?thesis using r by simp
  qed
qed

section \<open>A concrete daemon\<close>

definition demo_daemon :: daemon_env where
  "demo_daemon = \<lparr>dn_parse = (\<lambda>path. Inr demo_table), dn_dirs = (\<lambda>p. Inr ()), dn_db_opens = (\<lambda>p. Inr ()),
     dn_auth = demo_auth_env, dn_log_dirs = Inr (), dn_log_opens = True, dn_line = (\<lambda>m. (\<lambda>i. True, True, 0)),
     dn_storage = demo_env, dn_openssl = False, dn_tls_init = (\<lambda>c k. Inr ()), dn_bind = (\<lambda>h p. Inr p), dn_clock = 5\<rparr>"

definition demo_world :: daemon where
  "demo_world = \<lparr>dm_log = new_logger Map.empty, dm_storage = initial_storage\<rparr>"

lemma demo_config: "daemon_settings demo_daemon (no_args\<lparr>da_config := ''f''\<rparr>) = Inr demo_settings"
  using demo_loads demo_valid
  by (simp add: daemon_settings_def demo_daemon_def no_args_def apply_cli_overrides_def)

lemma info_to_stderr: "\<not> lg_file lg \<Longrightarrow> \<exists>lg'. info env message lg = (Inr (), lg') \<and> \<not> lg_file lg'"
  by (auto simp: info_def log_plain_def logger_log_def Let_def split: prod.splits)

lemma demo_listens: "\<exists>lg'. server_start demo_daemon demo_settings d lg =
    (Inr (start_server (nat (ss_worker_threads demo_settings)) (Some 5) d), lg') \<and> \<not> lg_file lg'" if "\<not> lg_file lg"
proof -
  have s: "ss_listen demo_settings = ''127.0.0.1:7443''" "\<not> tls_enabled (ss_tls demo_settings)"
    by (simp_all add: demo_settings_def default_settings_def)
  show ?thesis
    using info_to_stderr [OF that, of demo_daemon "''forgerelayd listening on '' @ ''127.0.0.1'' @ '':'' @ decimal (unat (7443 :: u16))"]
    unfolding server_start_def s(1) default_address
    by (auto simp: s(2) op_lift_def op_return_def demo_daemon_def)
qed

lemma run_maintenance_returns: "\<exists>r s'. run_maintenance env s = (Inr r, s')"
  by (cases "cleanup_temp_files (env_io env) (sfs s)") (simp add: run_maintenance_def Let_def)

lemma demo_serves: "\<exists>t w'. serve_main demo_daemon (no_args\<lparr>da_config := ''f''\<rparr>) demo_world = (Inr (demo_settings, t), w')"
proof -
  let ?lg = "(new_logger Map.empty)\<lparr>lg_policy := default_policy\<rparr>"
  have tls: "\<not> tls_enabled (ss_tls demo_settings)" and path: "ls_file (ss_log demo_settings) = []"
    by (simp_all add: demo_settings_def default_settings_def)
  have opened: "logger_open (Inr ()) True [] Info default_policy (new_logger Map.empty) = (Inr (), ?lg)"
    by (simp add: logger_open_def new_logger_def Let_def)
  have "storage_open (ss_storage demo_settings) demo_env = op_bind (run_maintenance demo_env) (\<lambda>report. op_return ())"
    using validated_ok [OF demo_valid] by (simp add: settings_ok_def)
  then obtain st where st: "storage_open (ss_storage demo_settings) demo_env initial_storage = (Inr (), st)"
    using run_maintenance_returns [of demo_env initial_storage] by (auto simp: op_return_def)
  have "\<not> lg_file ?lg" by (simp add: new_logger_def)
  from demo_listens [OF this, of "new_dispatcher st"] obtain t lg1 where
    t: "server_start demo_daemon demo_settings (new_dispatcher st) ?lg = (Inr t, lg1)" "\<not> lg_file lg1" by blast
  from info_to_stderr [OF t(2)] obtain lg2 where i: "info demo_daemon ''forgerelayd started (M3/M4)'' lg1 = (Inr (), lg2)" by blast
  have env: "dn_log_dirs demo_daemon = Inr ()" "dn_log_opens demo_daemon" "dn_storage demo_daemon = demo_env"
    "dn_db_opens demo_daemon p = Inr ()" for p by (simp_all add: demo_daemon_def)
  have "daemon_boot demo_daemon demo_settings demo_world = (Inr t, \<lparr>dm_log = lg2, dm_storage = st\<rparr>)"
    using opened st t(1) i
    by (simp add: daemon_boot_def on_log_def on_disk_def env path demo_world_def op_lift_def op_return_def)
  then show ?thesis using demo_config tls by (simp add: serve_main_def)
qed



theorem daemon_exit_codes_witness:
  "\<exists>err. daemon_main demo_daemon [''--config''] (\<lambda>p. empty_database, demo_world) =
     (Inl (Exit 2 usage err), \<lambda>p. empty_database, demo_world) \<and> err \<noteq> []"
proof -
  have r: "daemon_main demo_daemon [''--config''] (\<lambda>p. empty_database, demo_world) =
     (Inl (Exit 2 usage (''unknown argument: --config'' @ newline)), \<lambda>p. empty_database, demo_world)"
    by (simp add: daemon_main_def checked_arguments_def)
  from daemon_exit_codes [OF r] r show ?thesis by auto
qed

end
