(* ===== verification/Fd.thy ===== *)
theory Fd
  imports Storage Buffer Paths
begin

text \<open>
  The wrappers of system calls, \<^verbatim>\<open>src/core_c/fr_fd.c\<close> (its POSIX branch). What the
  kernel answers is a parameter: a schedule of the answers to come for a call that is repeated, one
  answer for a call that is not. A schedule that ends leaves the call without an answer, and the
  result is None. The texts of \<open>fr_error\<close> are left out; paths are C strings, with None for
  a null pointer.
\<close>

declare decimal.simps [simp del]

section \<open>Errors of system calls\<close>

datatype errno = ENOENT | ENOTDIR | EEXIST | EINTR | ERRNO int

fun map_errno :: "errno \<Rightarrow> fr_status" where
  "map_errno ENOENT = FR_E_NOTFOUND"
| "map_errno ENOTDIR = FR_E_NOTFOUND"
| "map_errno EEXIST = FR_E_EXISTS"
| "map_errno e = FR_E_IO"

text \<open>A call that is made once.\<close>

fun status_of :: "errno option \<Rightarrow> fr_status" where
  "status_of None = FR_OK"
| "status_of (Some e) = map_errno e"

text \<open>A call that is repeated while it is interrupted.\<close>

fun retried :: "errno option list \<Rightarrow> (fr_status \<times> errno option list) option" where
  "retried [] = None"
| "retried (e # es) = (if e = Some EINTR then retried es else Some (status_of e, es))"

section \<open>File descriptors\<close>

definition fr_fd_open_read :: "string option \<Rightarrow> errno option \<Rightarrow> fr_status" where
  "fr_fd_open_read path answer = (if path = None then FR_E_ARG else status_of answer)"

text \<open>The descriptor is invalid afterwards, whatever \<open>close\<close> answers.\<close>

definition fr_fd_close :: "int option \<Rightarrow> errno option list \<Rightarrow> (fr_status \<times> int option) option" where
  "fr_fd_close fd answers =
     (case fd of
        None \<Rightarrow> Some (FR_E_ARG, None)
      | Some n \<Rightarrow>
          if n = - 1 then Some (FR_OK, Some n)
          else map_option (\<lambda>(st, rest). (st, Some (- 1))) (retried answers))"

definition fr_fd_fsync :: "errno option list \<Rightarrow> fr_status option" where
  "fr_fd_fsync answers = map_option fst (retried answers)"

text \<open>
  Reading: the schedule tells how many bytes the kernel is ready to give; \<open>src\<close> is what the file
  still holds.
\<close>

type_synonym schedule = "(errno + nat) list"

fun fr_fd_read :: "nat \<Rightarrow> bytes \<Rightarrow> schedule \<Rightarrow> (fr_status \<times> bytes \<times> bytes \<times> schedule) option" where
  "fr_fd_read n src [] = None"
| "fr_fd_read n src (Inl e # s) =
     (if e = EINTR then fr_fd_read n src s else Some (map_errno e, [], src, s))"
| "fr_fd_read n src (Inr k # s) = Some (FR_OK, take (min k n) src, drop (min k n) src, s)"

lemma fr_fd_read_shorter: "fr_fd_read n src s = Some (st, bs, src', s') \<Longrightarrow> length s' < length s"
  by (induction n src s rule: fr_fd_read.induct) (auto split: if_splits)

text \<open>The loop over \<open>fr_fd_read\<close>; \<open>seen\<close> are the bytes read so far.\<close>

function fr_fd_read_full ::
  "nat \<Rightarrow> bytes \<Rightarrow> bytes \<Rightarrow> schedule \<Rightarrow> (fr_status \<times> bytes \<times> bytes \<times> schedule) option" where
  "fr_fd_read_full n seen src s =
     (if length seen < n
      then (case fr_fd_read (n - length seen) src s of
              None \<Rightarrow> None
            | Some (st, chunk, src', s') \<Rightarrow>
                if st \<noteq> FR_OK then Some (st, seen, src', s')
                else if chunk = [] then Some (FR_E_EOF, seen, src', s')
                else fr_fd_read_full n (seen @ chunk) src' s')
      else Some (FR_OK, seen, src, s))"
  by pat_completeness auto

termination fr_fd_read_full
  by (relation "measure (\<lambda>(n, seen, src, s). length s)") (auto dest: fr_fd_read_shorter)

declare fr_fd_read_full.simps [simp del]

text \<open>Writing; \<open>written\<close> is what has been written so far.\<close>

fun fr_fd_write_all :: "bytes \<Rightarrow> bytes \<Rightarrow> schedule \<Rightarrow> (fr_status \<times> bytes \<times> schedule) option" where
  "fr_fd_write_all written [] s = Some (FR_OK, written, s)"
| "fr_fd_write_all written data [] = None"
| "fr_fd_write_all written data (Inl e # s) =
     (if e = EINTR then fr_fd_write_all written data s else Some (map_errno e, written, s))"
| "fr_fd_write_all written data (Inr k # s) =
     (if k = 0 then Some (FR_E_IO, written, s)
      else fr_fd_write_all (written @ take k data) (drop k data) s)"

text \<open>
  The offset becomes an \<open>off_t\<close> of 64 bits with a sign; \<open>seek\<close> is what \<open>lseek\<close>
  answers, with \<open>errno\<close> (22 is \<open>EINVAL\<close>).
\<close>

definition fr_fd_seek_set :: "(int \<Rightarrow> int \<times> errno option) \<Rightarrow> u64 \<Rightarrow> fr_status" where
  "fr_fd_seek_set seek offset =
     (let target = sint offset
      in if (word_of_int target :: u64) \<noteq> offset then FR_E_RANGE
         else case seek target of
                (r, e) \<Rightarrow>
                  if r < 0 \<or> (word_of_int r :: u64) \<noteq> offset
                  then map_errno (case e of Some e \<Rightarrow> e | None \<Rightarrow> ERRNO 22) else FR_OK)"

section \<open>Files\<close>

definition fr_file_rename :: "string option \<Rightarrow> string option \<Rightarrow> errno option \<Rightarrow> fr_status" where
  "fr_file_rename source dest answer = (if source = None \<or> dest = None then FR_E_ARG else status_of answer)"

definition fr_file_unlink :: "string option \<Rightarrow> errno option \<Rightarrow> fr_status" where
  "fr_file_unlink path answer = (if path = None then FR_E_ARG else status_of answer)"

text \<open>What \<open>stat\<close> tells of a path.\<close>

datatype kind = Regular int | Directory | Special

definition fr_file_exists :: "string option \<Rightarrow> errno + kind \<Rightarrow> fr_status \<times> bool option" where
  "fr_file_exists path answer =
     (if path = None then (FR_E_ARG, None)
      else case answer of
             Inl e \<Rightarrow> if e = ENOENT \<or> e = ENOTDIR then (FR_OK, Some False) else (map_errno e, None)
           | Inr st \<Rightarrow> (FR_OK, Some True))"

definition fr_file_size :: "string option \<Rightarrow> errno + kind \<Rightarrow> fr_status \<times> u64 option" where
  "fr_file_size path answer =
     (if path = None then (FR_E_ARG, None)
      else case answer of
             Inl e \<Rightarrow> (map_errno e, None)
           | Inr (Regular n) \<Rightarrow> if n < 0 then (FR_E_IO, None) else (FR_OK, Some (word_of_int n))
           | Inr st \<Rightarrow> (FR_E_RANGE, None))"

text \<open>
  A whole file of limited size. \<open>src\<close> is its content when it is read; the answers to
  \<open>open\<close>, \<open>fstat\<close>, the reads and \<open>close\<close> come in this order.
\<close>

definition fr_file_read_limited ::
  "alloc \<Rightarrow> string option \<Rightarrow> u64 \<Rightarrow> errno option \<Rightarrow> errno + kind \<Rightarrow> bytes \<Rightarrow> schedule \<Rightarrow> errno option list \<Rightarrow>
     fr_buf \<Rightarrow> (fr_status \<times> fr_buf) option" where
  "fr_file_read_limited alloc path max_bytes opened stat src s closed out =
     (if path = None then Some (FR_E_ARG, out)
      else if fr_fd_open_read path opened \<noteq> FR_OK then Some (fr_fd_open_read path opened, out)
      else case stat of
             Inl e \<Rightarrow> Some (map_errno e, out)
           | Inr (Regular n) \<Rightarrow>
               if n < 0 \<or> n > uint max_bytes then Some (FR_E_LIMIT, out)
               else (case fr_size_from_u64 (word_of_int n) of
                       None \<Rightarrow> Some (FR_E_LIMIT, out)
                     | Some len \<Rightarrow>
                       case fr_buf_reserve alloc (fr_buf_clear out) len of
                       (st, b) \<Rightarrow>
                         if st \<noteq> FR_OK then Some (st, b)
                         else case fr_fd_read_full (unat len) [] src s of
                                None \<Rightarrow> None
                              | Some (st, bs, src', s') \<Rightarrow>
                                  if st \<noteq> FR_OK then Some (st, fr_buf_clear b)
                                  else map_option (\<lambda>(st, rest). (st, b\<lparr>buf_bytes := bs\<rparr>)) (retried closed))
           | Inr st \<Rightarrow> Some (FR_E_RANGE, out))"

section \<open>Directories\<close>

text \<open>
  What is at each path. \<open>mkdir\<close> fails if there is something, or for another reason that the
  parameter gives.
\<close>

type_synonym tree = "string \<rightharpoonup> kind"

definition sys_mkdir :: "(string \<Rightarrow> errno option) \<Rightarrow> string \<Rightarrow> tree \<Rightarrow> errno option \<times> tree" where
  "sys_mkdir refuses path t =
     (case t path of
        Some k \<Rightarrow> (Some EEXIST, t)
      | None \<Rightarrow> (case refuses path of
                  Some e \<Rightarrow> (Some e, t)
                | None \<Rightarrow> (None, t(path \<mapsto> Directory))))"

definition fr_dir_create :: "(string \<Rightarrow> errno option) \<Rightarrow> string option \<Rightarrow> tree \<Rightarrow> fr_status \<times> tree" where
  "fr_dir_create refuses path t =
     (case path of
        None \<Rightarrow> (FR_E_ARG, t)
      | Some p \<Rightarrow>
          if p = [] then (FR_E_ARG, t)
          else case sys_mkdir refuses p t of
                 (None, t) \<Rightarrow> (FR_OK, t)
               | (Some EEXIST, t) \<Rightarrow>
                   (case t p of
                      Some Directory \<Rightarrow> (FR_OK, t)
                    | Some k \<Rightarrow> (FR_E_EXISTS, t)
                    | None \<Rightarrow> (map_errno ENOENT, t))
               | (Some e, t) \<Rightarrow> (map_errno e, t))"

text \<open>The loop over the positions \<open>i\<close>; \<open>start\<close> is where the current segment begins.\<close>

function create_loop :: "(string \<Rightarrow> errno option) \<Rightarrow> string \<Rightarrow> nat \<Rightarrow> nat \<Rightarrow> tree \<Rightarrow> fr_status \<times> tree" where
  "create_loop refuses path start i t =
     (if i > length path then (FR_OK, t)
      else if i < length path \<and> path ! i \<noteq> CHR ''/'' then create_loop refuses path start (i + 1) t
      else let seg_len = i - start; drive = (seg_len = 2 \<and> path ! (start + 1) = CHR '':'')
           in if seg_len \<noteq> 0 \<and> \<not> drive
              then (case fr_dir_create refuses (Some (take i path)) t of
                      (st, t) \<Rightarrow> if st \<noteq> FR_OK then (st, t) else create_loop refuses path (i + 1) (i + 1) t)
              else create_loop refuses path (i + 1) (i + 1) t)"
  by pat_completeness auto

termination create_loop
  by (relation "measure (\<lambda>(refuses, path, start, i, t). Suc (length path) - i)") auto

declare create_loop.simps [simp del]

definition FR_PATH_BUF_MAX :: nat where "FR_PATH_BUF_MAX = 1024"

definition fr_dir_create_all :: "(string \<Rightarrow> errno option) \<Rightarrow> string option \<Rightarrow> tree \<Rightarrow> fr_status \<times> tree" where
  "fr_dir_create_all refuses path t =
     (case map_option c_str path of
        None \<Rightarrow> (FR_E_ARG, t)
      | Some p \<Rightarrow>
          if p = [] then (FR_E_ARG, t)
          else if length p \<ge> FR_PATH_BUF_MAX then (FR_E_RANGE, t)
          else create_loop refuses p 0 1 t)"

definition fr_dir_sync :: "string option \<Rightarrow> errno option \<Rightarrow> errno option list \<Rightarrow> fr_status option" where
  "fr_dir_sync path opened answers =
     (if path = None then Some FR_E_ARG
      else if opened \<noteq> None then Some (status_of opened)
      else map_option fst (retried answers))"

section \<open>Temporary files\<close>

definition prefix_char :: "char \<Rightarrow> bool" where
  "prefix_char c =
     (let n = of_char c :: nat
      in (97 \<le> n \<and> n \<le> 122) \<or> (65 \<le> n \<and> n \<le> 90) \<or> (48 \<le> n \<and> n \<le> 57) \<or> c = CHR ''.'' \<or> c = CHR ''_'' \<or> c = CHR ''-'')"

definition tmp_prefix_valid :: "string option \<Rightarrow> bool" where
  "tmp_prefix_valid pre =
     (case map_option c_str pre of None \<Rightarrow> True | Some p \<Rightarrow> length p \<le> 32 \<and> list_all prefix_char p)"

definition FR_TMPNAME_MAX :: nat where "FR_TMPNAME_MAX = 128"

text \<open>\<open>snprintf\<close> into a buffer of 128 bytes.\<close>

definition long_string :: "int \<Rightarrow> string" where
  "long_string n = (if n < 0 then ''-'' @ decimal (nat (- n)) else decimal (nat n))"

definition tmp_name_of :: "string \<Rightarrow> int \<Rightarrow> int \<Rightarrow> u32 \<Rightarrow> string" where
  "tmp_name_of base pid tick counter =
     take (FR_TMPNAME_MAX - 1)
       (''frtmp-'' @ base @ ''-'' @ long_string pid @ ''-'' @ long_string tick @ ''-'' @ decimal (unat counter) @ ''.part'')"

text \<open>
  Opening for writing: an exclusive one fails if the path exists. \<open>files\<close> holds the contents.
\<close>

type_synonym files = "string \<rightharpoonup> bytes"

definition fr_fd_open_write :: "(string \<Rightarrow> errno option) \<Rightarrow> string option \<Rightarrow> bool \<Rightarrow> files \<Rightarrow> fr_status \<times> files" where
  "fr_fd_open_write refuses path exclusive files =
     (case path of
        None \<Rightarrow> (FR_E_ARG, files)
      | Some p \<Rightarrow>
          if exclusive \<and> files p \<noteq> None then (map_errno EEXIST, files)
          else case refuses p of
                 Some e \<Rightarrow> (map_errno e, files)
               | None \<Rightarrow> (FR_OK, files(p \<mapsto> [])))"

text \<open>The attempts that are left, and the counter of the process.\<close>

fun tmp_attempts ::
  "(string \<Rightarrow> errno option) \<Rightarrow> string \<Rightarrow> string \<Rightarrow> int \<Rightarrow> int \<Rightarrow> nat \<Rightarrow> u32 \<Rightarrow> files \<Rightarrow> (fr_status \<times> string option) \<times> u32 \<times> files" where
  "tmp_attempts refuses dir base pid tick 0 counter files = ((FR_E_IO, None), counter, files)"
| "tmp_attempts refuses dir base pid tick (Suc n) counter files =
     (let name = tmp_name_of base pid tick counter; full = dir @ ''/'' @ name
      in if length full \<ge> FR_PATH_BUF_MAX then ((FR_E_RANGE, None), counter + 1, files)
         else case fr_fd_open_write refuses (Some full) True files of
                (st, files) \<Rightarrow>
                  if st = FR_OK then ((FR_OK, Some name), counter + 1, files)
                  else if st \<noteq> FR_E_EXISTS then ((st, None), counter + 1, files)
                  else tmp_attempts refuses dir base pid tick n (counter + 1) files)"

definition fr_tmpfile_create ::
  "(string \<Rightarrow> errno option) \<Rightarrow> string option \<Rightarrow> string option \<Rightarrow> nat option \<Rightarrow> int \<Rightarrow> int \<Rightarrow> u32 \<Rightarrow> files \<Rightarrow>
     (fr_status \<times> string option) \<times> u32 \<times> files" where
  "fr_tmpfile_create refuses dir pre name_cap pid tick counter files =
     (case (map_option c_str dir, name_cap) of
        (Some d, Some cap) \<Rightarrow>
          if d = [] \<or> \<not> tmp_prefix_valid pre then ((FR_E_ARG, None), counter, files)
          else if cap < FR_TMPNAME_MAX then ((FR_E_RANGE, None), counter, files)
          else let base = (case map_option c_str pre of None \<Rightarrow> ''t'' | Some p \<Rightarrow> if p = [] then ''t'' else p)
               in tmp_attempts refuses d base pid tick 8 counter files
      | _ \<Rightarrow> ((FR_E_ARG, None), counter, files))"

end
