(* ===== verification/FdProps.thy ===== *)
theory FdProps
  imports Fd ServiceProps
begin

text \<open>
  Transfers through the wrappers are exact whatever the kernel interrupts or cuts short; directories
  are there when their creation succeeds; temporary files are new; limited reads are limited.
\<close>

declare decimal.simps [simp del]

section \<open>Transfers\<close>

text \<open>Answers that give or take something, and their number.\<close>

definition answers :: "schedule \<Rightarrow> nat" where
  "answers s = length (filter (\<lambda>a. \<not> isl a) s)"

definition moving :: "schedule \<Rightarrow> bool" where
  "moving s \<longleftrightarrow> (\<forall>k. Inr k \<in> set s \<longrightarrow> 0 < k)"

definition interrupts_only :: "schedule \<Rightarrow> bool" where
  "interrupts_only s \<longleftrightarrow> (\<forall>e. Inl e \<in> set s \<longrightarrow> e = EINTR)"

lemma map_errno_not: "map_errno e \<noteq> FR_OK" "map_errno e \<noteq> FR_E_EOF" "FR_OK \<noteq> map_errno e"
  by (cases e; simp)+

lemma fr_fd_read_cases:
  "fr_fd_read n src s = Some (st, bs, src', s') \<Longrightarrow>
     set s' \<subseteq> set s \<and> (st = FR_OK \<and> (\<exists>k. Inr k \<in> set s \<and> bs = take (min k n) src \<and> src' = drop (min k n) src) \<or>
       bs = [] \<and> src' = src \<and> (\<exists>e. e \<noteq> EINTR \<and> Inl e \<in> set s \<and> st = map_errno e))"
  by (induction n src s rule: fr_fd_read.induct) (auto split: if_splits)

lemma read_full_exact:
  assumes "fr_fd_read_full n seen src s = Some (st, bs, src', s')" and "moving s" and "length seen \<le> n"
  shows "seen @ src = bs @ src' \<and> length bs \<le> n \<and> (st = FR_OK) = (length bs = n) \<and>
     (st = FR_E_EOF \<longrightarrow> src' = []) \<and> (st = FR_OK \<or> st = FR_E_EOF \<or> (\<exists>e. e \<noteq> EINTR \<and> Inl e \<in> set s \<and> st = map_errno e))"
  using assms
proof (induction n seen src s rule: fr_fd_read_full.induct)
  case (1 n seen src s)
  show ?case
  proof (cases "length seen < n")
    case False
    then show ?thesis using 1(2,4) by (subst (asm) fr_fd_read_full.simps) auto
  next
    case True
    obtain st1 chunk src1 s1 where r: "fr_fd_read (n - length seen) src s = Some (st1, chunk, src1, s1)"
      using 1(2) True by (subst (asm) fr_fd_read_full.simps) (auto split: option.splits)
    note c = fr_fd_read_cases [OF r]
    have full: "(if st1 \<noteq> FR_OK then Some (st1, seen, src1, s1) else if chunk = [] then Some (FR_E_EOF, seen, src1, s1)
        else fr_fd_read_full n (seen @ chunk) src1 s1) = Some (st, bs, src', s')"
      using 1(2) True r by (subst (asm) fr_fd_read_full.simps) simp
    show ?thesis
    proof (cases "st1 = FR_OK")
      case False
      then show ?thesis using full c True map_errno_not by auto
    next
      case ok: True
      then obtain k where k: "Inr k \<in> set s" "chunk = take (min k (n - length seen)) src" "src1 = drop (min k (n - length seen)) src"
        using c map_errno_not by auto
      have pos: "0 < min k (n - length seen)" using k(1) 1(3) True by (auto simp: moving_def)
      show ?thesis
      proof (cases "chunk = []")
        case empty: True
        then have "src = []" using k(2) pos by auto
        then show ?thesis using full ok empty k(3) True by auto
      next
        case False
        have m: "moving s1" using 1(3) c by (auto simp: moving_def)
        have "length chunk \<le> n - length seen" unfolding k(2) by simp
        then have len: "length (seen @ chunk) \<le> n" using 1(4) unfolding length_append by linarith
        have "fr_fd_read_full n (seen @ chunk) src1 s1 = Some (st, bs, src', s')" using full ok False by simp
        from 1(1) [OF True r refl refl refl _ False this m len] ok
        show ?thesis using c k(2,3) by auto
      qed
    qed
  qed
qed

lemma fr_fd_read_returns:
  "interrupts_only s \<Longrightarrow> 0 < answers s \<Longrightarrow> \<exists>bs src' s'. fr_fd_read n src s = Some (FR_OK, bs, src', s') \<and>
     interrupts_only s' \<and> answers s \<le> answers s' + 1"
proof (induction n src s rule: fr_fd_read.induct)
  case (2 n src e s)
  have "e = EINTR" "interrupts_only s" "0 < answers s" using 2(2,3) by (auto simp: interrupts_only_def answers_def)
  then show ?case using 2(1) by (auto simp: answers_def)
qed (auto simp: interrupts_only_def answers_def)

lemma read_full_returns:
  assumes "interrupts_only s" and "n < length seen + answers s"
  shows "fr_fd_read_full n seen src s \<noteq> None"
  using assms
proof (induction n seen src s rule: fr_fd_read_full.induct)
  case (1 n seen src s)
  show ?case
  proof (cases "length seen < n")
    case False
    then show ?thesis by (subst fr_fd_read_full.simps) simp
  next
    case True
    then have "0 < answers s" using 1(3) by simp
    from fr_fd_read_returns [OF 1(2) this, of "n - length seen" src]
    obtain bs src' s' where r: "fr_fd_read (n - length seen) src s = Some (FR_OK, bs, src', s')"
      "interrupts_only s'" "answers s \<le> answers s' + 1" by blast
    have "fr_fd_read_full n (seen @ bs) src' s' \<noteq> None" if "bs \<noteq> []"
    proof -
      have "0 < length bs" using that by simp
      then have "n < length (seen @ bs) + answers s'" using r(3) 1(3) unfolding length_append by linarith
      from 1(1) [OF True r(1) refl refl refl _ that r(2) this] show ?thesis by simp
    qed
    then show ?thesis using r(1) by (subst fr_fd_read_full.simps) auto
  qed
qed

lemma write_all_exact:
  "fr_fd_write_all written data s = Some (st, w, s') \<Longrightarrow> moving s \<Longrightarrow>
   \<exists>k \<le> length data. w = written @ take k data \<and> (st = FR_OK) = (k = length data) \<and>
     (st = FR_OK \<or> (\<exists>e. e \<noteq> EINTR \<and> Inl e \<in> set s \<and> st = map_errno e))"
proof (induction written data s rule: fr_fd_write_all.induct)
  case (3 written d ds e s)
  show ?case
  proof (cases "e = EINTR")
    case True
    then have "fr_fd_write_all written (d # ds) s = Some (st, w, s')" "moving s" using 3(2,3) by (simp_all add: moving_def)
    from 3(1) [OF True this] show ?thesis by (auto intro: exI)
  next
    case False
    then show ?thesis using 3(2) map_errno_not by (intro exI [of _ 0]) auto
  qed
next
  case (4 written d ds k s)
  have k: "0 < k" using 4(3) by (simp add: moving_def)
  then have w: "fr_fd_write_all (written @ take k (d # ds)) (drop k (d # ds)) s = Some (st, w, s')" and m: "moving s"
    using 4(2,3) by (simp_all add: moving_def)
  have "k \<noteq> 0" using k by simp
  from 4(1) [OF this w m] obtain j where j: "j \<le> length (drop k (d # ds))" "w = (written @ take k (d # ds)) @ take j (drop k (d # ds))"
    "(st = FR_OK) = (j = length (drop k (d # ds)))" "st = FR_OK \<or> (\<exists>e. e \<noteq> EINTR \<and> Inl e \<in> set s \<and> st = map_errno e)" by blast
  let ?m = "min (k + j) (length (d # ds))"
  have "w = written @ take ?m (d # ds)" using j(2) by (simp add: take_add min_def del: take_Cons drop_Cons)
  moreover have "(st = FR_OK) = (?m = length (d # ds))" using j(1,3) by (auto simp: min_def)
  ultimately show ?case using j(4) by (intro exI [of _ ?m]) auto
qed auto



end
