(* ===== verification/FileProps.thy ===== *)
theory FileProps
  imports FdProps
begin

text \<open>
  Directories are there when their creation succeeds, and nothing else is; temporary files are new
  and their names do not repeat.
\<close>

declare decimal.simps [simp del]

section \<open>Directories\<close>

lemma fr_dir_create_dir: "p \<noteq> [] \<Longrightarrow> t p = Some Directory \<Longrightarrow> fr_dir_create deny (Some p) t = (FR_OK, t)"
  by (simp add: fr_dir_create_def sys_mkdir_def)

lemma fr_dir_create_new:
  "p \<noteq> [] \<Longrightarrow> t p = None \<Longrightarrow> deny p = None \<Longrightarrow> fr_dir_create deny (Some p) t = (FR_OK, t(p \<mapsto> Directory))"
  by (simp add: fr_dir_create_def sys_mkdir_def)

lemma fr_dir_create_cases:
  assumes "fr_dir_create deny (Some p) t = (st, t')"
  shows "(t' = t \<or> t p = None \<and> t' = t(p \<mapsto> Directory)) \<and> (st = FR_OK \<longrightarrow> t' p = Some Directory)"
  using assms map_errno_not
  by (auto simp: fr_dir_create_def sys_mkdir_def split: option.splits errno.splits kind.splits if_splits)

lemma fr_dir_create_grows:
  "fr_dir_create deny (Some p) t = (st, t') \<Longrightarrow> t \<subseteq>\<^sub>m t'"
  using fr_dir_create_cases [of deny p t st t'] by (auto simp: map_le_def)

text \<open>The prefixes that are directories afterwards.\<close>

definition ends_segment :: "string \<Rightarrow> nat \<Rightarrow> bool" where
  "ends_segment p j \<longleftrightarrow> 0 < j \<and> j \<le> length p \<and> (j = length p \<or> p ! j = CHR ''/'') \<and>
     p ! (j - 1) \<noteq> CHR ''/'' \<and> p ! (j - 1) \<noteq> CHR '':''"

definition only_prefixes :: "string \<Rightarrow> tree \<Rightarrow> tree \<Rightarrow> bool" where
  "only_prefixes p t t' \<longleftrightarrow>
     (\<forall>q. t' q = t q \<or> t q = None \<and> t' q = Some Directory \<and> (\<exists>j. 0 < j \<and> j \<le> length p \<and> q = take j p))"

lemma only_prefixes_trans: "only_prefixes p t u \<Longrightarrow> only_prefixes p u v \<Longrightarrow> only_prefixes p t v"
  unfolding only_prefixes_def by (metis option.distinct(1))

lemma only_prefixes_keeps: "only_prefixes p t t' \<Longrightarrow> t q = Some k \<Longrightarrow> t' q = Some k"
  unfolding only_prefixes_def by (metis option.distinct(1))

lemma create_loop_cut:
  "i \<le> length p \<Longrightarrow> i = length p \<or> p ! i = CHR ''/'' \<Longrightarrow>
   create_loop deny p start i t =
     (if i - start \<noteq> 0 \<and> \<not> (i - start = 2 \<and> p ! (start + 1) = CHR '':'')
      then (case fr_dir_create deny (Some (take i p)) t of
              (st, t) \<Rightarrow> if st \<noteq> FR_OK then (st, t) else create_loop deny p (i + 1) (i + 1) t)
      else create_loop deny p (i + 1) (i + 1) t)"
  by (subst create_loop.simps) (auto simp: Let_def)

lemma create_loop_inside:
  "i < length p \<Longrightarrow> p ! i \<noteq> CHR ''/'' \<Longrightarrow> create_loop deny p start i t = create_loop deny p start (i + 1) t"
  by (subst create_loop.simps) auto

lemma create_loop_past: "i > length p \<Longrightarrow> create_loop deny p start i t = (FR_OK, t)"
  by (subst create_loop.simps) auto

lemma create_loop_only:
  assumes "create_loop deny p start i t = (st, t')" and "0 < i"
  shows "only_prefixes p t t'"
  using assms
proof (induction "Suc (length p) - i" arbitrary: start i t rule: less_induct)
  case less
  have refl: "only_prefixes p t t" for t by (simp add: only_prefixes_def)
  consider (past) "i > length p" | (inside) "i < length p" "p ! i \<noteq> CHR ''/''"
    | (cut) "i \<le> length p" "i = length p \<or> p ! i = CHR ''/''" by linarith
  then show ?case
  proof cases
    case past
    then show ?thesis using less(2) refl by (simp add: create_loop_past)
  next
    case inside
    have "create_loop deny p start (i + 1) t = (st, t')" using less(2) inside by (simp add: create_loop_inside)
    from less(1) [OF _ this] inside show ?thesis by simp
  next
    case cut
    have on: "only_prefixes p u t'" if "create_loop deny p (i + 1) (i + 1) u = (st, t')" for u
      using less(1) [OF _ that] cut by simp
    obtain st1 t1 where d: "fr_dir_create deny (Some (take i p)) t = (st1, t1)" by fastforce
    have "only_prefixes p t t1"
      using fr_dir_create_cases [OF d] cut(1) less(3) unfolding only_prefixes_def by (metis fun_upd_apply)
    with on only_prefixes_trans show ?thesis
      using less(2) unfolding create_loop_cut [OF cut] d by (auto split: if_splits)
  qed
qed

lemma create_loop_made:
  assumes "create_loop deny p start i t = (FR_OK, t')" and "start \<le> i" and "0 < i"
    and "start = i \<longrightarrow> p ! (i - 1) = CHR ''/''" and "ends_segment p j" and "i \<le> j"
  shows "t' (take j p) = Some Directory"
  using assms
proof (induction "Suc (length p) - i" arbitrary: start i t rule: less_induct)
  case less
  have len: "j \<le> length p" using less(6) by (simp add: ends_segment_def)
  consider (inside) "i < length p" "p ! i \<noteq> CHR ''/''"
    | (cut) "i \<le> length p" "i = length p \<or> p ! i = CHR ''/''" using less(7) len by linarith
  then show ?case
  proof cases
    case inside
    have "create_loop deny p start (i + 1) t = (FR_OK, t')" using less(2) inside by (simp add: create_loop_inside)
    moreover have "i + 1 \<le> j" using less(6,7) inside by (cases "i = j") (auto simp: ends_segment_def)
    ultimately show ?thesis using less(1) [of "i + 1" start t] less(3,6) inside by simp
  next
    case cut
    show ?thesis
    proof (cases "i = j")
      case True
      then have "i - start \<noteq> 0" using less(3,5,6) by (auto simp: ends_segment_def)
      moreover have "\<not> (i - start = 2 \<and> p ! (start + 1) = CHR '':'')"
      proof
        assume a: "i - start = 2 \<and> p ! (start + 1) = CHR '':''"
        then have "start + 1 = j - 1" using True by linarith
        then show False using a less(6) by (simp add: ends_segment_def)
      qed
      ultimately obtain t1 where d: "fr_dir_create deny (Some (take i p)) t = (FR_OK, t1)"
        and l: "create_loop deny p (i + 1) (i + 1) t1 = (FR_OK, t')"
        using less(2) unfolding create_loop_cut [OF cut] by (auto split: prod.splits if_splits)
      show ?thesis using only_prefixes_keeps [OF create_loop_only [OF l]] fr_dir_create_cases [OF d] True by simp
    next
      case False
      then have "i + 1 \<le> j" "p ! i = CHR ''/''" using less(7) cut len by auto
      moreover obtain u where "create_loop deny p (i + 1) (i + 1) u = (FR_OK, t')"
        using less(2) unfolding create_loop_cut [OF cut] by (auto split: prod.splits if_splits)
      ultimately show ?thesis using less(1) [of "i + 1" "i + 1" u] less(6) cut by simp
    qed
  qed
qed

lemma create_loop_succeeds:
  assumes "\<forall>j. 0 < j \<longrightarrow> j \<le> length p \<longrightarrow> t (take j p) = Some Directory \<or> t (take j p) = None \<and> deny (take j p) = None"
    and "0 < i"
  shows "fst (create_loop deny p start i t) = FR_OK"
  using assms
proof (induction "Suc (length p) - i" arbitrary: start i t rule: less_induct)
  case less
  consider (past) "i > length p" | (inside) "i < length p" "p ! i \<noteq> CHR ''/''"
    | (cut) "i \<le> length p" "i = length p \<or> p ! i = CHR ''/''" by linarith
  then show ?case
  proof cases
    case past
    then show ?thesis by (simp add: create_loop_past)
  next
    case inside
    then show ?thesis using less(1) [OF _ less(2), of "i + 1" start] by (simp add: create_loop_inside)
  next
    case cut
    have "take i p \<noteq> []" using cut(1) less(3) by auto
    then obtain t1 where d: "fr_dir_create deny (Some (take i p)) t = (FR_OK, t1)" "t1 = t \<or> t1 = t(take i p \<mapsto> Directory)"
      using less(2,3) cut(1) fr_dir_create_dir [of "take i p" t deny] fr_dir_create_new [of "take i p" t deny] by metis
    then have "\<forall>j. 0 < j \<longrightarrow> j \<le> length p \<longrightarrow> t1 (take j p) = Some Directory \<or> t1 (take j p) = None \<and> deny (take j p) = None"
      using less(2) by (metis fun_upd_apply)
    from less(1) [OF _ this, of "i + 1" "i + 1"] less(1) [OF _ less(2), of "i + 1" "i + 1"]
    show ?thesis unfolding create_loop_cut [OF cut] d(1) using cut by simp
  qed
qed



section \<open>Temporary files\<close>

lemma decimal_length: "n < 10 ^ Suc k \<Longrightarrow> length (decimal n) \<le> Suc k"
proof (induction k arbitrary: n)
  case 0
  then show ?case by (subst decimal.simps) simp
next
  case (Suc k)
  then have "n div 10 < 10 ^ Suc k" by (simp add: less_mult_imp_div_less)
  from Suc(1) [OF this] show ?case by (subst decimal.simps) simp
qed

text \<open>The whole name fits the buffer of 128 bytes.\<close>

definition small :: "int \<Rightarrow> bool" where
  "small n \<longleftrightarrow> - (2 ^ 63) \<le> n \<and> n < 2 ^ 63"

lemma long_string_length: "small n \<Longrightarrow> length (long_string n) \<le> 20"
  using decimal_length [of "nat n" 18] decimal_length [of "nat (- n)" 18]
  by (auto simp: small_def long_string_def nat_less_iff)

lemma tmp_name_whole:
  assumes "length base \<le> 32" and "small pid" and "small tick"
  shows "tmp_name_of base pid tick c =
    ''frtmp-'' @ base @ ''-'' @ long_string pid @ ''-'' @ long_string tick @ ''-'' @ decimal (unat c) @ ''.part''"
proof -
  have "unat c < 2 ^ 32" using unsigned_less [of c] by simp
  then have "length (decimal (unat c)) \<le> 10" using decimal_length [of "unat c" 9] by simp
  with assms long_string_length [of pid] long_string_length [of tick]
  show ?thesis unfolding tmp_name_of_def by (intro take_all) (simp add: FR_TMPNAME_MAX_def)
qed

lemma tmp_name_inj:
  assumes "length base \<le> 32" and "small pid" and "small tick" and "tmp_name_of base pid tick c = tmp_name_of base pid tick c'"
  shows "c = c'"
  using assms(4) decimal_inj [of "unat c" "unat c'"]
  unfolding tmp_name_whole [OF assms(1-3)] by (simp add: word_unat_eq_iff)

lemma tmp_attempts_cases:
  assumes "tmp_attempts deny dir base pid tick n c files = ((st, name), c', files')"
  shows "(st = FR_OK \<and> (\<exists>k < n. name = Some (tmp_name_of base pid tick (c + of_nat k)) \<and> c' = c + of_nat k + 1 \<and>
            (let full = dir @ ''/'' @ tmp_name_of base pid tick (c + of_nat k)
             in length full < 1024 \<and> files full = None \<and> files' = files(full \<mapsto> [])))) \<or>
         (st \<noteq> FR_OK \<and> name = None \<and> files' = files)"
  using assms
proof (induction n arbitrary: c)
  case 0
  then show ?case by auto
next
  case (Suc n)
  let ?full = "dir @ ''/'' @ tmp_name_of base pid tick c"
  obtain st1 files1 where o: "fr_fd_open_write deny (Some ?full) True files = (st1, files1)" by fastforce
  have opened: "st1 = FR_OK \<and> files ?full = None \<and> files1 = files(?full \<mapsto> []) \<or> st1 \<noteq> FR_OK \<and> files1 = files"
    using o map_errno_not by (auto simp: fr_fd_open_write_def split: if_splits option.splits)
  show ?case
  proof (cases "length ?full < 1024 \<and> st1 = FR_E_EXISTS")
    case True
    then have "tmp_attempts deny dir base pid tick n (c + 1) files = ((st, name), c', files')"
      using Suc(2) o opened by (auto simp: Let_def FR_PATH_BUF_MAX_def)
    from Suc(1) [OF this] show ?thesis
    proof (elim disjE conjE exE)
      fix k assume k: "k < n" and r: "st = FR_OK" "name = Some (tmp_name_of base pid tick (c + 1 + of_nat k))"
        "c' = c + 1 + of_nat k + 1" "let full = dir @ ''/'' @ tmp_name_of base pid tick (c + 1 + of_nat k)
             in length full < 1024 \<and> files full = None \<and> files' = files(full \<mapsto> [])"
      have c1: "c + 1 + of_nat k = c + of_nat (Suc k)" by simp
      show ?thesis using k r(1) r(2-4) [unfolded c1]
        by (intro disjI1 conjI exI [of _ "Suc k"]) (assumption | simp only: Suc_less_eq)+
    qed auto
  next
    case False
    show ?thesis
    proof (cases "length ?full < 1024 \<and> st1 = FR_OK")
      case True
      then have "((st, name), c', files') = ((FR_OK, Some (tmp_name_of base pid tick c)), c + 1, files1)"
        using Suc(2) o unfolding tmp_attempts.simps Let_def FR_PATH_BUF_MAX_def by simp
      with True opened show ?thesis unfolding Let_def by (intro disjI1 conjI exI [of _ 0]) simp_all
    next
      case False
      then have "st \<noteq> FR_OK" "name = None" "files' = files"
        using Suc(2) o opened \<open>\<not> (length ?full < 1024 \<and> st1 = FR_E_EXISTS)\<close>
        unfolding tmp_attempts.simps Let_def FR_PATH_BUF_MAX_def by (simp_all split: if_splits)
      then show ?thesis by blast
    qed
  qed
qed

lemma tmp_attempts_succeed:
  assumes "\<forall>k < n. length (dir @ ''/'' @ tmp_name_of base pid tick (c + of_nat k)) < 1024 \<and>
      deny (dir @ ''/'' @ tmp_name_of base pid tick (c + of_nat k)) = None"
    and "\<exists>k < n. files (dir @ ''/'' @ tmp_name_of base pid tick (c + of_nat k)) = None"
  shows "fst (fst (tmp_attempts deny dir base pid tick n c files)) = FR_OK"
  using assms
proof (induction n arbitrary: c)
  case 0
  then show ?case by simp
next
  case (Suc n)
  let ?full = "\<lambda>c. dir @ ''/'' @ tmp_name_of base pid tick c"
  have here: "length (?full c) < 1024" "deny (?full c) = None" using spec [OF Suc(2), of 0] by simp_all
  show ?case
  proof (cases "files (?full c) = None")
    case True
    then show ?thesis using here unfolding tmp_attempts.simps Let_def FR_PATH_BUF_MAX_def fr_fd_open_write_def by simp
  next
    case False
    have c1: "c + 1 + of_nat k = c + of_nat (Suc k)" for k by simp
    have "\<forall>k < n. length (?full (c + 1 + of_nat k)) < 1024 \<and> deny (?full (c + 1 + of_nat k)) = None"
      unfolding c1 using Suc(2) Suc_less_eq by blast
    moreover obtain k where k: "k < Suc n" "files (?full (c + of_nat k)) = None" using Suc(3) by blast
    then obtain k' where "k = Suc k'" using False by (cases k) auto
    then have "\<exists>k < n. files (?full (c + 1 + of_nat k)) = None" unfolding c1 using k by blast
    ultimately have "fst (fst (tmp_attempts deny dir base pid tick n (c + 1) files)) = FR_OK" by (rule Suc(1))
    moreover have "fr_fd_open_write deny (Some (?full c)) True files = (FR_E_EXISTS, files)"
      using False by (simp add: fr_fd_open_write_def)
    ultimately show ?thesis using here unfolding tmp_attempts.simps Let_def FR_PATH_BUF_MAX_def by simp
  qed
qed

text \<open>C25: Temporary files are new. When \<open>fr_tmpfile_create\<close> succeeds, the file it names did
  not exist, it exists now and is empty, and no other file has changed; its name is the one of a
  counter of this process, in full, so that the cleanup knows it by its beginning and no two counters
  give the same name. When it fails no file has changed. It succeeds if one of eight names is free,
  the paths fit and the system lets it create them.\<close>

theorem tmpfile_fresh:
  assumes "small pid" and "small tick"
    and "fr_tmpfile_create deny (Some dir) pre cap pid tick counter files = ((st, name), counter', files')"
  defines "d \<equiv> c_str dir"
    and "base \<equiv> (case map_option c_str pre of None \<Rightarrow> ''t'' | Some p \<Rightarrow> if p = [] then ''t'' else p)"
  shows "(st = FR_OK \<longrightarrow>
       (\<exists>n k. name = Some n \<and> n = tmp_name_of base pid tick k \<and> take 6 n = ''frtmp-'' \<and>
          n = ''frtmp-'' @ base @ ''-'' @ long_string pid @ ''-'' @ long_string tick @ ''-'' @ decimal (unat k) @ ''.part'' \<and>
          (\<forall>k'. tmp_name_of base pid tick k' = n \<longrightarrow> k' = k) \<and>
          files (d @ ''/'' @ n) = None \<and> files' = files(d @ ''/'' @ n \<mapsto> []))) \<and>
     (st \<noteq> FR_OK \<longrightarrow> name = None \<and> files' = files) \<and>
     (d \<noteq> [] \<and> tmp_prefix_valid pre \<and> (\<exists>n. cap = Some n \<and> 128 \<le> n) \<and>
      (\<forall>k < 8. length (d @ ''/'' @ tmp_name_of base pid tick (counter + of_nat k)) < 1024 \<and>
         deny (d @ ''/'' @ tmp_name_of base pid tick (counter + of_nat k)) = None) \<and>
      (\<exists>k < 8. files (d @ ''/'' @ tmp_name_of base pid tick (counter + of_nat k)) = None) \<longrightarrow> st = FR_OK)"
proof -
  have eq: "(case cap of None \<Rightarrow> ((FR_E_ARG, None), counter, files)
     | Some cap \<Rightarrow> if d = [] \<or> \<not> tmp_prefix_valid pre then ((FR_E_ARG, None), counter, files)
          else if cap < 128 then ((FR_E_RANGE, None), counter, files)
          else tmp_attempts deny d base pid tick 8 counter files) = ((st, name), counter', files')"
    using assms(3) unfolding fr_tmpfile_create_def FR_TMPNAME_MAX_def d_def base_def Let_def option.map prod.case option.case
    by (simp only:)
  consider (run) n where "cap = Some n" "128 \<le> n" "d \<noteq> []" "tmp_prefix_valid pre"
      "tmp_attempts deny d base pid tick 8 counter files = ((st, name), counter', files')"
    | (fail) "st \<noteq> FR_OK" "name = None" "files' = files" "d = [] \<or> \<not> tmp_prefix_valid pre \<or> \<not> (\<exists>n. cap = Some n \<and> 128 \<le> n)"
    using eq by (auto split: option.splits if_splits)
  then show ?thesis
  proof cases
    case run
    have base: "length base \<le> 32" using run(4) by (auto simp: base_def tmp_prefix_valid_def split: option.splits)
    note whole = tmp_name_whole [OF base assms(1,2)] and inj = tmp_name_inj [OF base assms(1,2)]
    have "take 6 (tmp_name_of base pid tick k) = ''frtmp-''" for k unfolding whole by simp
    moreover have "fst (fst (tmp_attempts deny d base pid tick 8 counter files)) = st" using run(5) by simp
    ultimately show ?thesis
      using tmp_attempts_cases [OF run(5)] tmp_attempts_succeed [of 8 d base pid tick counter deny files] whole inj
      unfolding Let_def by metis
  next
    case fail
    then show ?thesis by blast
  qed
qed

theorem tmpfile_fresh_witness:
  "\<exists>n c' files'. fr_tmpfile_create (\<lambda>p. None) (Some ''d'') None (Some 128) 7 9 0 Map.empty = ((FR_OK, Some n), c', files') \<and>
     take 6 n = ''frtmp-'' \<and> files' = [''d/'' @ n \<mapsto> []]"
proof -
  have small: "small 7" "small 9" by (simp_all add: small_def)
  obtain st name c' files' where e:
    "fr_tmpfile_create (\<lambda>p. None) (Some ''d'') None (Some 128) 7 9 0 Map.empty = ((st, name), c', files')"
    by (metis surj_pair)
  have d: "c_str ''d'' = ''d''" "map_option c_str None = None" by (simp_all add: c_str_def)
  have len: "length (''d'' @ ''/'' @ tmp_name_of b p t k) < 1024" for b p t k
    by (simp add: tmp_name_of_def FR_TMPNAME_MAX_def)
  note r = tmpfile_fresh [OF small e, unfolded d option.case]
  have "\<exists>k::nat. k < 8" by (rule exI [of _ 0]) simp
  with r have "st = FR_OK" using len by (simp add: tmp_prefix_valid_def)
  with r e show ?thesis by auto
qed

end
