(* ===== verification/Sockets.thy ===== *)
theory Sockets
  imports Fd Transport
begin

text \<open>
  The sockets of the server (\<^verbatim>\<open>src/transport/fr_server.cpp\<close>, POSIX branches): the
  functions of \<open>net\<close>, the wake-up channel, the poller, and the places where descriptors are
  opened, polled and closed. The state is the set of open descriptors; what the kernel answers is a
  parameter.
\<close>

declare decimal.simps [simp del]

section \<open>Sockets\<close>

definition kInvalidSocket :: int where "kInvalidSocket = - 1"

type_synonym descriptors = "int set"

definition close_socket :: "int \<Rightarrow> descriptors \<Rightarrow> descriptors" where
  "close_socket fd s = (if fd = kInvalidSocket then s else s - {fd})"

text \<open>A call that answers a new descriptor or -1.\<close>

definition new_socket :: "int \<Rightarrow> descriptors \<Rightarrow> descriptors" where
  "new_socket fd s = (if fd = kInvalidSocket then s else insert fd s)"

text \<open>11 is \<open>EAGAIN\<close>, which is \<open>EWOULDBLOCK\<close> on Linux.\<close>

definition would_block :: "errno \<Rightarrow> bool" where
  "would_block e = (e = ERRNO 11 \<or> e = EINTR)"

definition read_some :: "errno + bytes \<Rightarrow> received" where
  "read_some ans =
     (case ans of
        Inr bs \<Rightarrow> if bs \<noteq> [] then Bytes bs else Broken
      | Inl e \<Rightarrow> if would_block e then Nothing else Broken)"

definition write_some :: "errno + nat \<Rightarrow> int" where
  "write_some ans =
     (case ans of
        Inr n \<Rightarrow> int n
      | Inl e \<Rightarrow> if would_block e then 0 else - 1)"

text \<open>The answers to \<open>socket\<close>, \<open>inet_pton\<close>, \<open>bind\<close> and \<open>listen\<close>.\<close>

record listen_env =
  le_socket :: int
  le_address :: "string \<Rightarrow> bool"
  le_bind :: bool
  le_listen :: bool

definition listen_on :: "listen_env \<Rightarrow> string \<Rightarrow> u16 \<Rightarrow> (descriptors, int) op" where
  "listen_on env host port s =
     (let fd = le_socket env; s = new_socket fd s
      in if fd = kInvalidSocket then op_throw FR_E_IO ''socket() failed'' s
         else if host \<noteq> ''0.0.0.0'' \<and> host \<noteq> ''*'' \<and> \<not> le_address env (c_str host)
         then op_throw FR_E_ARG (''listen host is not a valid IPv4 address: '' @ host) (close_socket fd s)
         else if \<not> le_bind env
         then op_throw FR_E_IO (''bind failed on '' @ host @ '':'' @ decimal (unat port)) (close_socket fd s)
         else if \<not> le_listen env then op_throw FR_E_IO ''listen failed'' (close_socket fd s)
         else (Inr fd, s))"

text \<open>The name and the port that \<open>getpeername\<close> and \<open>inet_ntop\<close> answer.\<close>

definition peer_of :: "(string option \<times> u16) option \<Rightarrow> string" where
  "peer_of ans =
     (case ans of
        Some (Some name, port) \<Rightarrow> name @ '':'' @ decimal (unat port)
      | _ \<Rightarrow> ''unknown'')"

section \<open>The wake-up channel\<close>

text \<open>\<open>wk_pending\<close> counts the bytes that the reader has not taken yet.\<close>

record wakeup =
  wk_reader :: int
  wk_writer :: int
  wk_pending :: nat

definition new_wakeup :: wakeup where
  "new_wakeup = \<lparr>wk_reader = kInvalidSocket, wk_writer = kInvalidSocket, wk_pending = 0\<rparr>"

text \<open>The answers to the calls of \<open>Wakeup::open\<close> in their order.\<close>

record wakeup_env =
  we_listener :: listen_env
  we_getsockname :: bool
  we_writer :: int
  we_connect :: bool
  we_reader :: int

definition wakeup_open :: "wakeup_env \<Rightarrow> (wakeup \<times> descriptors, unit) op" where
  "wakeup_open env = (\<lambda>(w, s).
     case listen_on (we_listener env) ''127.0.0.1'' 0 s of
       (Inl e, s) \<Rightarrow> (Inl e, w, s)
     | (Inr listener, s) \<Rightarrow>
         if \<not> we_getsockname env
         then op_throw FR_E_IO ''wakeup: getsockname failed'' (w, close_socket listener s)
         else
           let writer = we_writer env; s = new_socket writer s;
               w = w\<lparr>wk_writer := writer, wk_reader := kInvalidSocket\<rparr>
           in if \<not> we_connect env
              then op_throw FR_E_IO ''wakeup: connect failed''
                     (w\<lparr>wk_writer := kInvalidSocket\<rparr>, close_socket listener (close_socket writer s))
              else
                let reader = we_reader env; s = close_socket listener (new_socket reader s);
                    w = w\<lparr>wk_reader := reader\<rparr>
                in if reader = kInvalidSocket
                   then op_throw FR_E_IO ''wakeup: accept failed''
                          (w\<lparr>wk_writer := kInvalidSocket\<rparr>, close_socket writer s)
                   else (Inr (), w, s))"

text \<open>\<open>fits\<close>: the channel takes another byte. Nothing is sent without a writer.\<close>

definition wakeup_notify :: "bool \<Rightarrow> wakeup \<Rightarrow> wakeup" where
  "wakeup_notify fits w =
     (if wk_writer w \<noteq> kInvalidSocket \<and> fits then w\<lparr>wk_pending := wk_pending w + 1\<rparr> else w)"

fun drain_pending :: "nat \<Rightarrow> nat" where
  "drain_pending n = (if n > 0 then drain_pending (n - min 256 n) else 0)"

declare drain_pending.simps [simp del]

definition wakeup_drain :: "wakeup \<Rightarrow> wakeup" where
  "wakeup_drain w = w\<lparr>wk_pending := drain_pending (wk_pending w)\<rparr>"

definition wakeup_close :: "wakeup \<Rightarrow> descriptors \<Rightarrow> wakeup \<times> descriptors" where
  "wakeup_close w s =
     (w\<lparr>wk_reader := kInvalidSocket, wk_writer := kInvalidSocket\<rparr>,
      close_socket (wk_writer w) (close_socket (wk_reader w) s))"

section \<open>The poller\<close>

text \<open>
  What is asked of each descriptor: to be readable, to be writable. Adding one that is there fails
  (\<open>EEXIST\<close>), and so does changing one that is not (\<open>ENOENT\<close>); \<open>refused\<close> is any
  other failure.
\<close>

type_synonym poller = "int \<rightharpoonup> bool \<times> bool"

definition poller_add :: "bool \<Rightarrow> int \<Rightarrow> bool \<Rightarrow> bool \<Rightarrow> (poller, unit) op" where
  "poller_add refused fd rd wr p =
     (if p fd \<noteq> None \<or> refused then op_throw FR_E_IO ''epoll_ctl ADD failed'' p
      else (Inr (), p(fd \<mapsto> (rd, wr))))"

definition poller_mod :: "bool \<Rightarrow> int \<Rightarrow> bool \<Rightarrow> bool \<Rightarrow> (poller, unit) op" where
  "poller_mod refused fd rd wr p =
     (if p fd = None \<or> refused then op_throw FR_E_IO ''epoll_ctl MOD failed'' p
      else (Inr (), p(fd \<mapsto> (rd, wr))))"

definition poller_remove :: "int \<Rightarrow> poller \<Rightarrow> poller" where
  "poller_remove fd p = p(fd := None)"

text \<open>
  One entry of the answer of \<open>epoll_wait\<close>: the descriptor, \<open>EPOLLIN\<close>, \<open>EPOLLOUT\<close>, and
  whether it hangs up or has an error; \<open>rw\<close> is what reading and writing it will answer.
\<close>

definition poller_event :: "int \<times> bool \<times> bool \<times> bool \<Rightarrow> received list \<times> int list \<Rightarrow> event" where
  "poller_event ready rw =
     (case ready of (fd, pollin, pollout, broken) \<Rightarrow>
        \<lparr>ev_fd = fd, ev_readable = pollin \<or> broken, ev_writable = pollout \<or> broken,
         ev_reads = fst rw, ev_writes = snd rw\<rparr>)"

section \<open>The descriptors of the server\<close>

record sockets =
  sk_server :: transport
  sk_listen :: int
  sk_wakeup :: wakeup
  sk_poller :: poller
  sk_open :: descriptors

definition connection_fds :: "transport \<Rightarrow> int list" where
  "connection_fds t = map cn_fd (tr_connections t)"

text \<open>
  \<open>Server::stop\<close>: the listener at once, the channel and the connections after the threads have
  ended. A server that has not started is stopped by its destructor.
\<close>

definition stop_sockets :: "sockets \<Rightarrow> sockets" where
  "stop_sockets k =
     (case wakeup_close (sk_wakeup k) (close_socket (sk_listen k) (sk_open k)) of
        (w, s) \<Rightarrow>
          k\<lparr>sk_wakeup := w, sk_open := fold close_socket (connection_fds (sk_server k)) s,
            sk_server := close_all (stop_threads (sk_server k))\<rparr>)"

text \<open>The start of the server; \<open>tls\<close> is the outcome of setting up TLS.\<close>

definition start_sockets ::
  "listen_env \<Rightarrow> wakeup_env \<Rightarrow> unit result \<Rightarrow> string \<Rightarrow> u16 \<Rightarrow> (sockets, unit) op" where
  "start_sockets lenv wenv tls host port k =
     (let k = k\<lparr>sk_listen := kInvalidSocket, sk_wakeup := new_wakeup, sk_poller := Map.empty\<rparr>
      in case listen_on lenv host port (sk_open k) of
           (Inl e, s) \<Rightarrow> (Inl e, stop_sockets (k\<lparr>sk_open := s\<rparr>))
         | (Inr fd, s) \<Rightarrow>
             case wakeup_open wenv (sk_wakeup k, s) of
               (Inl e, w, s) \<Rightarrow> (Inl e, stop_sockets (k\<lparr>sk_listen := fd, sk_wakeup := w, sk_open := s\<rparr>))
             | (Inr u, w, s) \<Rightarrow>
                 let k = k\<lparr>sk_listen := fd, sk_wakeup := w, sk_open := s\<rparr>
                 in case tls of Inl e \<Rightarrow> (Inl e, stop_sockets k) | Inr u \<Rightarrow> (Inr (), k))"

text \<open>What the I/O thread begins with.\<close>

definition poll_first :: "sockets \<Rightarrow> sockets" where
  "poll_first k =
     k\<lparr>sk_poller := snd (poller_add False (wk_reader (sk_wakeup k)) True False
                        (snd (poller_add False (sk_listen k) True False (sk_poller k))))\<rparr>"

text \<open>
  A client that \<open>accept\<close> answers: over the limit it is closed, otherwise polled and kept.
\<close>

definition accept_socket :: "server_limits \<Rightarrow> int \<Rightarrow> int \<times> string \<Rightarrow> bool \<Rightarrow> (sockets, unit) op" where
  "accept_socket limits now client refused k =
     (let fd = fst client; k = k\<lparr>sk_open := new_socket fd (sk_open k)\<rparr>
      in if int (length (tr_connections (sk_server k))) \<ge> lim_max_connections limits
         then (Inr (), k\<lparr>sk_open := close_socket fd (sk_open k)\<rparr>)
         else case poller_add refused fd True False (sk_poller k) of
                (Inl e, p) \<Rightarrow> (Inl e, k)
              | (Inr u, p) \<Rightarrow>
                  (Inr (), k\<lparr>sk_poller := p, sk_server := accept_one limits now client (sk_server k)\<rparr>))"

text \<open>\<open>close_connection_locked\<close>.\<close>

definition drop_socket :: "u64 \<Rightarrow> sockets \<Rightarrow> sockets" where
  "drop_socket conn_id k =
     (case find_conn conn_id (sk_server k) of
        None \<Rightarrow> k
      | Some conn \<Rightarrow>
          k\<lparr>sk_poller := poller_remove (cn_fd conn) (sk_poller k), sk_open := close_socket (cn_fd conn) (sk_open k),
            sk_server := close_connection conn_id (sk_server k)\<rparr>)"

text \<open>The end of \<open>on_conn_event\<close>: writability matters while there is output.\<close>

definition watch_socket :: "u64 \<Rightarrow> bool \<Rightarrow> (sockets, unit) op" where
  "watch_socket conn_id refused k =
     (case find_conn conn_id (sk_server k) of
        None \<Rightarrow> (Inr (), k)
      | Some conn \<Rightarrow>
          (case poller_mod refused (cn_fd conn) True (buf_len (cn_outbox conn) \<noteq> 0) (sk_poller k) of
             (r, p) \<Rightarrow> (r, k\<lparr>sk_poller := p\<rparr>)))"

text \<open>
  The steps that concern descriptors. The kernel answers descriptors that are not open; numbers of
  connections do not wrap around. Whatever else the threads do keeps the connections and their
  descriptors.
\<close>

inductive socket_step :: "server_limits \<Rightarrow> sockets \<Rightarrow> sockets \<Rightarrow> bool" for limits where
  accepted: "fst client \<notin> sk_open k \<Longrightarrow> 0 \<le> fst client \<Longrightarrow>
    find_conn (tr_next_conn_id (sk_server k)) (sk_server k) = None \<Longrightarrow>
    accept_socket limits now client False k = (Inr (), k') \<Longrightarrow> socket_step limits k k'"
| dropped: "socket_step limits k (drop_socket conn_id k)"
| watched: "watch_socket conn_id refused k = (r, k') \<Longrightarrow> socket_step limits k k'"
| woken: "socket_step limits k (k\<lparr>sk_wakeup := wakeup_notify fits (sk_wakeup k)\<rparr>)"
| drained: "socket_step limits k (k\<lparr>sk_wakeup := wakeup_drain (sk_wakeup k)\<rparr>)"
| worked: "map (\<lambda>c. (cn_id c, cn_fd c)) (tr_connections t) = map (\<lambda>c. (cn_id c, cn_fd c)) (tr_connections (sk_server k)) \<Longrightarrow>
    socket_step limits k (k\<lparr>sk_server := t\<rparr>)"

inductive socket_run :: "server_limits \<Rightarrow> sockets \<Rightarrow> sockets \<Rightarrow> bool" for limits k0 where
  begun: "socket_run limits k0 k0"
| went: "socket_run limits k0 k \<Longrightarrow> socket_step limits k k' \<Longrightarrow> socket_run limits k0 k'"

end
