(* ===== verification/Tls.thy ===== *)
theory Tls
  imports Client Sockets
begin

text \<open>
  TLS sessions (\<^verbatim>\<open>src/transport/fr_tls.cpp\<close>) and their handshake in the server
  (\<^verbatim>\<open>src/transport/fr_server.cpp\<close>, in \<open>on_conn_event\<close>). What OpenSSL answers is
  a parameter. A context or session that has been freed, or never made, is None.
\<close>

declare decimal.simps [simp del]

section \<open>Contexts\<close>

text \<open>0x0303 is TLS 1.2.\<close>

record ctx =
  cx_verify_peer :: bool
  cx_min_version :: int
  cx_trusts_system :: bool
  cx_certificate :: "string option"
  cx_key :: "string option"

definition new_ctx :: ctx where
  "new_ctx = \<lparr>cx_verify_peer = False, cx_min_version = 0, cx_trusts_system = False, cx_certificate = None, cx_key = None\<rparr>"

text \<open>The answers of OpenSSL, in the order of the calls, and the text of its last error.\<close>

record ctx_env =
  xe_new :: bool
  xe_certificate :: bool
  xe_key :: bool
  xe_check :: bool
  xe_paths :: bool
  xe_error :: string

definition openssl_errors :: "string \<Rightarrow> string \<Rightarrow> string" where
  "openssl_errors last_error text = (if last_error \<noteq> [] then text @ '': '' @ last_error else text)"

definition server_ctx_init :: "ctx_env \<Rightarrow> string \<Rightarrow> string \<Rightarrow> (ctx option, unit) op" where
  "server_ctx_init env certificate private_key c =
     (if \<not> xe_new env then op_throw FR_E_IO (openssl_errors (xe_error env) ''SSL_CTX_new(server) failed'') None
      else let x = new_ctx\<lparr>cx_min_version := 0x0303\<rparr>
           in if \<not> xe_certificate env
              then op_throw FR_E_IO
                     (openssl_errors (xe_error env) ''load certificate failed'' @ '' ('' @ certificate @ '')'') None
              else if \<not> xe_key env \<or> \<not> xe_check env
              then op_throw FR_E_IO
                     (openssl_errors (xe_error env) ''load private key failed'' @ '' ('' @ private_key @ '')'') None
              else (Inr (), Some (x\<lparr>cx_certificate := Some (c_str certificate), cx_key := Some (c_str private_key)\<rparr>)))"

definition client_ctx_init :: "ctx_env \<Rightarrow> (ctx option, unit) op" where
  "client_ctx_init env c =
     (if \<not> xe_new env then op_throw FR_E_IO (openssl_errors (xe_error env) ''SSL_CTX_new(client) failed'') None
      else let x = new_ctx\<lparr>cx_verify_peer := True, cx_min_version := 0x0303\<rparr>
           in if \<not> xe_paths env
              then op_throw FR_E_IO (openssl_errors (xe_error env) ''load default verify paths failed'') None
              else (Inr (), Some (x\<lparr>cx_trusts_system := True\<rparr>)))"

section \<open>Sessions\<close>

record ssl =
  sl_ctx :: ctx
  sl_fd :: "int option"
  sl_sni :: "string option"
  sl_host :: "string option"
  sl_connected :: bool

record session =
  se_ssl :: "ssl option"
  se_handshake_done :: bool

definition new_session :: session where
  "new_session = \<lparr>se_ssl = None, se_handshake_done = False\<rparr>"

definition established :: "session \<Rightarrow> bool" where
  "established s = (se_ssl s \<noteq> None \<and> se_handshake_done s)"

record session_env =
  ye_new :: bool
  ye_sni :: bool
  ye_host :: bool
  ye_fd :: bool
  ye_connect :: bool
  ye_verified :: bool
  ye_error :: string

definition new_ssl :: "ctx \<Rightarrow> ssl" where
  "new_ssl c = \<lparr>sl_ctx = c, sl_fd = None, sl_sni = None, sl_host = None, sl_connected = False\<rparr>"

definition tls_fails :: "session_env \<Rightarrow> string \<Rightarrow> string \<Rightarrow> (session, unit) op" where
  "tls_fails env text detail s =
     op_throw FR_E_IO (openssl_errors (ye_error env) text @ detail) (s\<lparr>se_ssl := None\<rparr>)"

definition accept_server :: "session_env \<Rightarrow> ctx \<Rightarrow> int \<Rightarrow> (session, unit) op" where
  "accept_server env c fd s =
     (if \<not> ye_new env then tls_fails env ''SSL_new(server) failed'' [] s
      else if \<not> ye_fd env then tls_fails env ''SSL_set_fd failed'' [] s
      else (Inr (), s\<lparr>se_ssl := Some ((new_ssl c)\<lparr>sl_fd := Some fd\<rparr>)\<rparr>))"

definition connect_client :: "session_env \<Rightarrow> ctx \<Rightarrow> int \<Rightarrow> string \<Rightarrow> (session, unit) op" where
  "connect_client env c fd hostname s =
     (if \<not> ye_new env then tls_fails env ''SSL_new(client) failed'' [] s
      else if \<not> ye_sni env \<or> \<not> ye_host env
      then tls_fails env ''set SNI/hostname verification failed'' ('' ('' @ hostname @ '')'') s
      else let x = (new_ssl c)\<lparr>sl_sni := Some (c_str hostname), sl_host := Some (c_str hostname)\<rparr>
           in if \<not> ye_fd env then tls_fails env ''SSL_set_fd failed'' [] s
              else let x = x\<lparr>sl_fd := Some fd\<rparr>
                   in if \<not> ye_connect env then tls_fails env ''TLS handshake failed'' [] s
                      else if \<not> ye_verified env then tls_fails env ''certificate verify failed'' [] s
                      else (Inr (), s\<lparr>se_ssl := Some (x\<lparr>sl_connected := True\<rparr>), se_handshake_done := True\<rparr>))"

text \<open>What \<open>SSL_accept\<close>, \<open>SSL_read\<close> and \<open>SSL_write\<close> answer.\<close>

datatype 'a ssl_answer = Did 'a | WantRead | WantWrite | Refused

text \<open>The result, and whether the handshake waits for reading and for writing.\<close>

definition drive_handshake :: "unit ssl_answer \<Rightarrow> session \<Rightarrow> (int \<times> bool \<times> bool) \<times> session" where
  "drive_handshake ans s =
     (if se_ssl s = None \<or> se_handshake_done s then ((1, False, False), s)
      else case ans of
             Did u \<Rightarrow> ((1, False, False), s\<lparr>se_handshake_done := True\<rparr>)
           | WantRead \<Rightarrow> ((0, True, False), s)
           | WantWrite \<Rightarrow> ((0, False, True), s)
           | Refused \<Rightarrow> ((- 1, False, False), s))"

definition session_read :: "bytes ssl_answer \<Rightarrow> received" where
  "session_read ans =
     (case ans of
        Did bs \<Rightarrow> if bs \<noteq> [] then Bytes bs else Broken
      | Refused \<Rightarrow> Broken
      | _ \<Rightarrow> Nothing)"

definition session_write :: "nat ssl_answer \<Rightarrow> int" where
  "session_write ans = (case ans of Did n \<Rightarrow> if n > 0 then int n else - 1 | Refused \<Rightarrow> - 1 | _ \<Rightarrow> 0)"

section \<open>The client\<close>

text \<open>The part of \<open>Client::connect\<close> that secures the connection.\<close>

definition secure_client :: "ctx_env \<Rightarrow> session_env \<Rightarrow> int \<Rightarrow> client_options \<Rightarrow> (session, unit) op" where
  "secure_client xenv yenv fd options s =
     (case client_ctx_init xenv None of
        (Inr u, Some c) \<Rightarrow>
          connect_client yenv c fd (if opt_tls_hostname options = [] then opt_host options else opt_tls_hostname options) new_session
      | (Inr u, None) \<Rightarrow> (Inr (), s)
      | (Inl e, c) \<Rightarrow> (Inl e, s))"

section \<open>The handshake in the server\<close>

record tls_conn =
  tc_session :: session
  tc_handshaking :: bool
  tc_want_read :: bool
  tc_want_write :: bool

definition tls_accepted :: "session_env \<Rightarrow> ctx \<Rightarrow> int \<Rightarrow> tls_conn result" where
  "tls_accepted env c fd =
     (case accept_server env c fd new_session of
        (Inl e, s) \<Rightarrow> Inl e
      | (Inr u, s) \<Rightarrow> Inr \<lparr>tc_session = s, tc_handshaking = True, tc_want_read = True, tc_want_write = False\<rparr>)"

text \<open>
  What an event of the connection leads to: reading and writing go on, the connection is closed, or
  the handshake is not finished and this is asked of the poller.
\<close>

datatype handshake = GoOn | Close | Poll bool bool

definition handshake_event :: "unit ssl_answer \<Rightarrow> bool \<Rightarrow> tls_conn \<Rightarrow> handshake \<times> tls_conn" where
  "handshake_event ans out c =
     (if \<not> tc_handshaking c then (GoOn, c)
      else case drive_handshake ans (tc_session c) of
             ((hs, rd, wr), s) \<Rightarrow>
               let c = c\<lparr>tc_session := s\<rparr>
               in if hs = 1 then (Poll True out, c\<lparr>tc_handshaking := False\<rparr>)
                  else if hs < 0 then (Close, c)
                  else (Poll rd wr, c\<lparr>tc_want_read := rd, tc_want_write := wr\<rparr>))"

text \<open>A run of events, until the connection is closed.\<close>

fun handshake_run :: "(unit ssl_answer \<times> bool) list \<Rightarrow> tls_conn \<Rightarrow> handshake list \<times> tls_conn" where
  "handshake_run [] c = ([], c)"
| "handshake_run ((ans, out) # es) c =
     (case handshake_event ans out c of
        (Close, c) \<Rightarrow> ([Close], c)
      | (h, c) \<Rightarrow> (case handshake_run es c of (hs, c) \<Rightarrow> (h # hs, c)))"

end
