(* ===== verification/TlsProps.thy ===== *)
theory TlsProps
  imports Tls
begin

text \<open>
  A client that asks for TLS sends nothing before the certificate has been verified for the host it
  wants; a server reads nothing before the handshake has succeeded.
\<close>

declare decimal.simps [simp del]

section \<open>The client\<close>

definition verified_for :: "string \<Rightarrow> int \<Rightarrow> session \<Rightarrow> bool" where
  "verified_for host fd s \<longleftrightarrow> established s \<and>
     (\<exists>x. se_ssl s = Some x \<and> cx_verify_peer (sl_ctx x) \<and> cx_trusts_system (sl_ctx x) \<and>
        cx_min_version (sl_ctx x) = 0x0303 \<and> sl_sni x = Some (c_str host) \<and> sl_host x = Some (c_str host) \<and>
        sl_fd x = Some fd \<and> sl_connected x)"

lemma connect_client_cases:
  assumes "connect_client env c fd host s = (r, s')"
  shows "(\<exists>e. r = Inl e) \<and> se_ssl s' = None \<or>
    r = Inr () \<and> ye_connect env \<and> ye_verified env \<and> se_handshake_done s' \<and>
    se_ssl s' = Some \<lparr>sl_ctx = c, sl_fd = Some fd, sl_sni = Some (c_str host), sl_host = Some (c_str host), sl_connected = True\<rparr>"
  using assms
  by (auto simp: connect_client_def tls_fails_def op_throw_def throw_error_def new_ssl_def Let_def split: if_splits)

lemma secure_client_cases:
  assumes "secure_client xenv yenv fd options new_session = (r, s)"
  shows "(\<exists>e. r = Inl e) \<and> se_ssl s = None \<or>
    r = Inr () \<and> ye_connect yenv \<and> ye_verified yenv \<and>
    verified_for (if opt_tls_hostname options = [] then opt_host options else opt_tls_hostname options) fd s"
proof -
  consider (bad) e where "client_ctx_init xenv None = (Inl e, None)"
    | (good) c where "client_ctx_init xenv None = (Inr (), Some c)" "cx_verify_peer c" "cx_trusts_system c" "cx_min_version c = 0x0303"
    by (cases "xe_new xenv"; cases "xe_paths xenv") (auto simp: client_ctx_init_def op_throw_def throw_error_def Let_def)
  then show ?thesis
  proof cases
    case bad
    then show ?thesis using assms by (auto simp: secure_client_def new_session_def)
  next
    case good
    let ?host = "if opt_tls_hostname options = [] then opt_host options else opt_tls_hostname options"
    have "connect_client yenv c fd ?host new_session = (r, s)"
      using assms good(1) unfolding secure_client_def by simp
    from connect_client_cases [OF this] show ?thesis
      using good(2-4) unfolding verified_for_def established_def by auto
  qed
qed

text \<open>C37: A client that asks for TLS is not fooled. Whatever OpenSSL answers, \<open>Client::connect\<close>
  sends nothing, and leaves the client as it was, unless a session is established on its socket whose
  peer has been verified against the trusted certificates of the system and for the name of the
  configured host (or, without one, of the server), with TLS 1.2 or later; and a connection that fails
  leaves no session behind.\<close>

theorem tls_client_verified:
  assumes "opt_use_tls (cl_options c)" and "secure_client xenv yenv fd (cl_options c) new_session = (r, s)"
    and "client_connect alloc clock clock' gai addresses r c = (r', c')"
  defines "host \<equiv> (if opt_tls_hostname (cl_options c) = [] then opt_host (cl_options c) else opt_tls_hostname (cl_options c))"
  shows "(c' = c \<and> isl r' \<or> ye_connect yenv \<and> ye_verified yenv \<and> verified_for host fd s) \<and> (isl r \<longrightarrow> se_ssl s = None)"
proof -
  have "c' = c \<and> isl r'" if "r = Inl e" for e
    using assms(1,3) unfolding client_connect_def that
    by (auto simp: op_throw_def op_lift_def throw_error_def Let_def split: if_splits)
  with secure_client_cases [OF assms(2)] show ?thesis unfolding host_def by auto
qed

definition demo_tls_options :: client_options where
  "demo_tls_options = \<lparr>opt_host = ''h'', opt_port = 7443, opt_timeout_seconds = 1, opt_token = [], opt_use_tls = True,
     opt_tls_hostname = []\<rparr>"

definition demo_ctx_env :: ctx_env where
  "demo_ctx_env = \<lparr>xe_new = True, xe_certificate = True, xe_key = True, xe_check = True, xe_paths = True, xe_error = []\<rparr>"

text \<open>A peer that cannot be verified.\<close>

definition demo_session_env :: session_env where
  "demo_session_env = \<lparr>ye_new = True, ye_sni = True, ye_host = True, ye_fd = True, ye_connect = True, ye_verified = False,
     ye_error = []\<rparr>"

theorem tls_client_verified_witness:
  "\<forall>l. \<exists>r s r'. secure_client demo_ctx_env demo_session_env 7 demo_tls_options new_session = (r, s) \<and>
     client_connect (\<lambda>n. True) 0 0 0 [True] r (make_client demo_tls_options l) = (r', make_client demo_tls_options l) \<and> isl r'"
proof
  fix l
  let ?c = "make_client demo_tls_options l"
  have c: "cl_options ?c = demo_tls_options" by (simp add: make_client_def)
  obtain r s where s: "secure_client demo_ctx_env demo_session_env 7 (cl_options ?c) new_session = (r, s)" by fastforce
  obtain r' c' where k: "client_connect (\<lambda>n. True) 0 0 0 [True] r ?c = (r', c')" by fastforce
  have "opt_use_tls (cl_options ?c)" "\<not> ye_verified demo_session_env"
    unfolding c by (simp_all add: demo_tls_options_def demo_session_env_def)
  with tls_client_verified [OF _ s k] have "c' = ?c \<and> isl r'" by blast
  with s k c show "\<exists>r s r'. secure_client demo_ctx_env demo_session_env 7 demo_tls_options new_session = (r, s) \<and>
     client_connect (\<lambda>n. True) 0 0 0 [True] r ?c = (r', ?c) \<and> isl r'" by auto
qed

section \<open>The server\<close>

lemma drive_done: "drive_handshake ans s = ((1, rd, wr), s') \<Longrightarrow> se_ssl s \<noteq> None \<Longrightarrow> \<not> se_handshake_done s \<Longrightarrow> ans = Did () \<and> established s'"
  by (cases ans) (auto simp: drive_handshake_def established_def)

lemma drive_waits: "drive_handshake ans s = ((n, rd, wr), s') \<Longrightarrow> n \<noteq> 1 \<Longrightarrow> s' = s"
  by (cases ans) (auto simp: drive_handshake_def split: if_splits)

lemma handshake_event_cases:
  assumes "handshake_event ans out c = (h, c')"
  shows "if tc_handshaking c
    then h \<noteq> GoOn \<and> (se_ssl (tc_session c) \<noteq> None \<and> \<not> se_handshake_done (tc_session c) \<longrightarrow>
       (if tc_handshaking c' then tc_session c' = tc_session c else ans = Did () \<and> established (tc_session c')))
    else h = GoOn \<and> c' = c"
  using assms drive_done drive_waits
  by (auto simp: handshake_event_def Let_def split: prod.splits if_splits) 

text \<open>What holds of a connection from the moment it is accepted.\<close>

definition tls_ok :: "tls_conn \<Rightarrow> bool" where
  "tls_ok c \<longleftrightarrow>
     (if tc_handshaking c then se_ssl (tc_session c) \<noteq> None \<and> \<not> se_handshake_done (tc_session c)
      else established (tc_session c))"

lemma handshake_event_ok:
  assumes "handshake_event ans out c = (h, c')" and "tls_ok c"
  shows "tls_ok c' \<and> (h = GoOn \<longleftrightarrow> \<not> tc_handshaking c) \<and> (tc_handshaking c \<and> \<not> tc_handshaking c' \<longrightarrow> ans = Did ()) \<and>
    (\<not> tc_handshaking c \<longrightarrow> \<not> tc_handshaking c')"
  using handshake_event_cases [OF assms(1)] assms(2) by (auto simp: tls_ok_def split: if_splits)

lemma handshake_run_ok:
  assumes "handshake_run es c = (hs, c')" and "tls_ok c"
  shows "tls_ok c' \<and> (GoOn \<in> set hs \<longrightarrow> \<not> tc_handshaking c') \<and> length hs \<le> length es \<and>
    (\<not> tc_handshaking c \<longrightarrow> \<not> tc_handshaking c') \<and>
    (\<forall>i. i < length hs \<longrightarrow> hs ! i = GoOn \<longrightarrow> tc_handshaking c \<longrightarrow> (\<exists>j < i. fst (es ! j) = Did ()))"
  using assms
proof (induction es c arbitrary: hs rule: handshake_run.induct)
  case (2 ans out es c)
  obtain h c1 where e: "handshake_event ans out c = (h, c1)" by fastforce
  note ok = handshake_event_ok [OF e 2(4)]
  show ?case
  proof (cases "h = Close")
    case True
    then have "hs = [Close]" "c' = c1" using 2(3) e by auto
    then show ?thesis using ok True by auto
  next
    case False
    obtain hs1 c2 where r: "handshake_run es c1 = (hs1, c2)" by fastforce
    have hs: "hs = h # hs1" "c' = c2" using 2(3) e r False by (cases h; simp)+
    have r': "handshake_run es c1 = (hs1, c')" using r hs(2) by simp
    have ih: "tls_ok c' \<and> (GoOn \<in> set hs1 \<longrightarrow> \<not> tc_handshaking c') \<and> length hs1 \<le> length es \<and>
        (\<not> tc_handshaking c1 \<longrightarrow> \<not> tc_handshaking c') \<and>
        (\<forall>i. i < length hs1 \<longrightarrow> hs1 ! i = GoOn \<longrightarrow> tc_handshaking c1 \<longrightarrow> (\<exists>j < i. fst (es ! j) = Did ()))"
      using 2(1,2) e ok r' False by (cases h) auto
    have "\<exists>j < i. fst (((ans, out) # es) ! j) = Did ()" if "i < length hs" "hs ! i = GoOn" "tc_handshaking c" for i
    proof (cases i)
      case 0
      then show ?thesis using that ok hs by simp
    next
      case (Suc k)
      show ?thesis
      proof (cases "tc_handshaking c1")
        case True
        have "k < length hs1" "hs1 ! k = GoOn" using that(1,2) hs(1) Suc by simp_all
        with ih True obtain j where "j < k" "fst (es ! j) = Did ()" by blast
        then show ?thesis using Suc by (intro exI [of _ "Suc j"]) simp
      next
        case False
        then show ?thesis using ok that(3) Suc by (intro exI [of _ 0]) simp
      qed
    qed
    then show ?thesis using ih ok hs by auto
  qed
qed auto

text \<open>A server reads nothing before the handshake. Whatever events come and whatever OpenSSL
  answers, the events of a connection reach the code that reads and writes frames only after an event
  whose \<open>SSL_accept\<close> has succeeded; the session is established then, and stays so.\<close>

theorem tls_handshake_first:
  assumes "tls_accepted env c fd = Inr c0" and "handshake_run es c0 = (hs, c')"
  shows "(\<forall>i. i < length hs \<longrightarrow> hs ! i = GoOn \<longrightarrow> (\<exists>j < i. fst (es ! j) = Did ())) \<and>
     (GoOn \<in> set hs \<longrightarrow> established (tc_session c'))"
proof -
  have "tls_ok c0" "tc_handshaking c0"
    using assms(1)
    by (auto simp: tls_accepted_def accept_server_def tls_fails_def op_throw_def throw_error_def new_session_def tls_ok_def
        split: if_splits)
  from handshake_run_ok [OF assms(2) this(1)] this(2) show ?thesis by (auto simp: tls_ok_def)
qed

theorem tls_handshake_first_witness:
  "\<exists>c0 c' hs. tls_accepted demo_session_env new_ctx 7 = Inr c0 \<and>
     handshake_run [(WantRead, False), (Did (), False), (WantRead, False)] c0 = (hs, c') \<and>
     hs = [Poll True False, Poll True False, GoOn] \<and> established (tc_session c')"
proof -
  let ?es = "[(WantRead, False), (Did (), False), (WantRead, False)]"
  obtain c0 where c0: "tls_accepted demo_session_env new_ctx 7 = Inr c0"
    by (simp add: tls_accepted_def accept_server_def demo_session_env_def)
  then have v: "c0 = \<lparr>tc_session = \<lparr>se_ssl = Some ((new_ssl new_ctx)\<lparr>sl_fd := Some 7\<rparr>), se_handshake_done = False\<rparr>,
      tc_handshaking = True, tc_want_read = True, tc_want_write = False\<rparr>"
    by (simp add: tls_accepted_def accept_server_def demo_session_env_def new_session_def)
  obtain hs c' where r: "handshake_run ?es c0 = (hs, c')" by fastforce
  have "hs = [Poll True False, Poll True False, GoOn]"
    using r by (auto simp: v handshake_event_def drive_handshake_def Let_def)
  with tls_handshake_first [OF c0 r] c0 r show ?thesis by auto
qed

end
