(* ===== verification/SocketProps.thy ===== *)
theory SocketProps
  imports Sockets
begin

text \<open>
  Every open descriptor of the server belongs to the listener, the wake-up channel or one connection,
  all but the sending end of the channel are polled, and nothing is left open at the end, nor when the
  start fails.
\<close>

declare decimal.simps [simp del]

section \<open>Opening and closing\<close>

text \<open>A kernel answers -1 or a descriptor that is not open.\<close>

definition fresh :: "int \<Rightarrow> descriptors \<Rightarrow> bool" where
  "fresh fd s \<longleftrightarrow> fd = kInvalidSocket \<or> 0 \<le> fd \<and> fd \<notin> s"

definition kernel_ok :: "listen_env \<Rightarrow> wakeup_env \<Rightarrow> descriptors \<Rightarrow> bool" where
  "kernel_ok lenv wenv s \<longleftrightarrow>
     (let a = new_socket (le_socket lenv) s; b = new_socket (le_socket (we_listener wenv)) a; c = new_socket (we_writer wenv) b
      in fresh (le_socket lenv) s \<and> fresh (le_socket (we_listener wenv)) a \<and> fresh (we_writer wenv) b \<and>
         fresh (we_reader wenv) c \<and> (we_connect wenv \<longrightarrow> we_writer wenv \<noteq> kInvalidSocket))"

lemma close_new: "fresh fd s \<Longrightarrow> close_socket fd (new_socket fd s) = s"
  by (auto simp: fresh_def close_socket_def new_socket_def)

lemma listen_on_cases:
  assumes "listen_on env host port s = (r, s')" and "fresh (le_socket env) s"
  shows "(\<exists>e. r = Inl e) \<and> s' = s \<or>
    r = Inr (le_socket env) \<and> s' = insert (le_socket env) s \<and> 0 \<le> le_socket env \<and> le_socket env \<notin> s"
  using assms close_new [OF assms(2)]
  by (auto simp: listen_on_def op_throw_def throw_error_def Let_def fresh_def new_socket_def split: if_splits)

lemma wakeup_open_cases:
  assumes "wakeup_open env (new_wakeup, s) = (r, w, s')"
    and "fresh (le_socket (we_listener env)) s" and "fresh (we_writer env) (new_socket (le_socket (we_listener env)) s)"
    and "fresh (we_reader env) (new_socket (we_writer env) (new_socket (le_socket (we_listener env)) s))"
    and "we_connect env \<longrightarrow> we_writer env \<noteq> kInvalidSocket"
  shows "(\<exists>e. r = Inl e) \<and> s' = s \<and> wk_reader w = kInvalidSocket \<and> wk_writer w = kInvalidSocket \<or>
    r = Inr () \<and> s' = insert (wk_reader w) (insert (wk_writer w) s) \<and> 0 \<le> wk_reader w \<and> 0 \<le> wk_writer w \<and>
    wk_reader w \<noteq> wk_writer w \<and> wk_reader w \<notin> s \<and> wk_writer w \<notin> s"
proof -
  obtain r1 s1 where l: "listen_on (we_listener env) ''127.0.0.1'' 0 s = (r1, s1)" by fastforce
  from listen_on_cases [OF l assms(2)] show ?thesis
  proof (elim disjE conjE exE)
    fix e assume "r1 = Inl e" "s1 = s"
    then show ?thesis using assms(1) l by (auto simp: wakeup_open_def new_wakeup_def)
  next
    let ?l = "le_socket (we_listener env)"
    assume ok: "r1 = Inr ?l" "s1 = insert ?l s" "0 \<le> ?l" "?l \<notin> s"
    have l': "listen_on (we_listener env) ''127.0.0.1'' 0 s = (Inr ?l, insert ?l s)" using l ok by simp
    have "?l \<noteq> kInvalidSocket" using ok(3) by (auto simp: kInvalidSocket_def)
    then show ?thesis
      using assms(1,3-5) ok(3,4) unfolding wakeup_open_def prod.case l'
      by (auto simp: op_throw_def throw_error_def Let_def fresh_def new_socket_def close_socket_def new_wakeup_def
          split: if_splits)
  qed
qed

lemma fold_close: "\<forall>fd\<in>set fds. 0 \<le> fd \<Longrightarrow> fold close_socket fds s = s - set fds"
  by (induction fds arbitrary: s) (auto simp: close_socket_def kInvalidSocket_def)

lemma drain_pending_zero: "drain_pending n = 0"
  by (induction n rule: drain_pending.induct) (subst drain_pending.simps, simp)

section \<open>The account\<close>

definition accounted :: "descriptors \<Rightarrow> sockets \<Rightarrow> bool" where
  "accounted base k \<longleftrightarrow>
     (let fds = connection_fds (sk_server k); l = sk_listen k; r = wk_reader (sk_wakeup k); w = wk_writer (sk_wakeup k)
      in sk_open k = base \<union> {l, r, w} \<union> set fds \<and> dom (sk_poller k) = {l, r} \<union> set fds \<and>
         distinct (l # r # w # fds) \<and> (\<forall>fd\<in>{l, r, w} \<union> set fds. 0 \<le> fd \<and> fd \<notin> base) \<and>
         distinct (map cn_id (tr_connections (sk_server k))))"

lemma distinct_insort: "distinct (map f (insort_key g x xs)) \<longleftrightarrow> f x \<notin> f ` set xs \<and> distinct (map f xs)"
  by (induction xs) (auto simp: set_insort_key)

lemma accept_one_connections:
  assumes "int (length (tr_connections t)) < lim_max_connections limits" and "find_conn (tr_next_conn_id t) t = None"
  shows "\<exists>c. cn_fd c = fst client \<and> cn_id c = tr_next_conn_id t \<and>
    tr_connections (accept_one limits now client t) = insort_key cn_id c (tr_connections t)"
  using assms
  by (auto simp: accept_one_def count_connections_def Let_def
      intro!: exI [of _ "\<lparr>cn_fd = fst client, cn_peer = snd client, cn_id = tr_next_conn_id t,
        cn_parser = fr_frame_parser_init, cn_outbox = fr_buf_init, cn_last_active = now, cn_close_after_flush = False\<rparr>"])

lemma close_connection_connections:
  "find_conn conn_id t = Some c \<Longrightarrow>
   tr_connections (close_connection conn_id t) = filter (\<lambda>c. cn_id c \<noteq> conn_id) (tr_connections t)"
  by (simp add: close_connection_def count_connections_def Let_def)

lemma filter_one:
  assumes "distinct (map cn_id cs)" and "distinct (map cn_fd cs)" and "c \<in> set cs"
  shows "cn_fd ` set (filter (\<lambda>x. cn_id x \<noteq> cn_id c) cs) = cn_fd ` set cs - {cn_fd c}"
  using assms unfolding distinct_map by (auto dest: inj_onD)

lemma accounted_step:
  assumes "socket_step limits k k'" and "accounted base k"
  shows "accounted base k'"
  using assms(1)
proof cases
  case (accepted client now)
  let ?t = "sk_server k" and ?fd = "fst client"
  have n: "?fd \<noteq> kInvalidSocket" using accepted(2) by (simp add: kInvalidSocket_def)
  have p: "sk_poller k ?fd = None" using accepted(1) assms(2) by (auto simp: accounted_def Let_def)
  show ?thesis
  proof (cases "int (length (tr_connections ?t)) \<ge> lim_max_connections limits")
    case True
    then have "k' = k" using accepted(1,4) n by (auto simp: accept_socket_def Let_def new_socket_def close_socket_def)
    then show ?thesis using assms(2) by simp
  next
    case False
    then obtain c where c: "cn_fd c = ?fd" "cn_id c = tr_next_conn_id ?t"
      "tr_connections (accept_one limits now client ?t) = insort_key cn_id c (tr_connections ?t)"
      using accept_one_connections [of ?t limits client now] accepted(3) by auto
    have k': "k' = k\<lparr>sk_open := insert ?fd (sk_open k), sk_poller := (sk_poller k)(?fd \<mapsto> (True, False)),
        sk_server := accept_one limits now client ?t\<rparr>"
      using accepted(4) False n p by (auto simp: accept_socket_def poller_add_def Let_def new_socket_def)
    have "cn_id c \<notin> cn_id ` set (tr_connections ?t)"
      using accepted(3) c(2) by (auto simp: find_conn_def find_None_iff)
    then show ?thesis
      using assms(2) accepted(1,2) c(1)
      by (auto simp: accounted_def Let_def k' connection_fds_def c(3) distinct_insort set_insort_key)
  qed
next
  case (dropped conn_id)
  show ?thesis
  proof (cases "find_conn conn_id (sk_server k)")
    case None
    then show ?thesis using assms(2) dropped by (simp add: drop_socket_def)
  next
    case (Some c)
    let ?cs = "tr_connections (sk_server k)"
    have c: "c \<in> set ?cs" "cn_id c = conn_id" using Some by (auto simp: find_conn_def find_Some_iff)
    have d: "distinct (map cn_id ?cs)" "distinct (map cn_fd ?cs)" "0 \<le> cn_fd c"
      using assms(2) c(1) by (auto simp: accounted_def Let_def connection_fds_def)
    have k': "sk_listen k' = sk_listen k" "sk_wakeup k' = sk_wakeup k" "sk_poller k' = (sk_poller k)(cn_fd c := None)"
      "sk_open k' = sk_open k - {cn_fd c}" "tr_connections (sk_server k') = filter (\<lambda>x. cn_id x \<noteq> cn_id c) ?cs"
      using Some d(3) c(2) close_connection_connections [OF Some]
      by (simp_all add: dropped drop_socket_def poller_remove_def close_socket_def kInvalidSocket_def)
    show ?thesis
      using assms(2) distinct_map_filter [OF d(1)] distinct_map_filter [OF d(2)] d c(1) filter_one [OF d(1,2) c(1)]
      by (auto simp: accounted_def Let_def connection_fds_def k' image_iff)
  qed
next
  case (watched conn_id refused r)
  show ?thesis
  proof (cases "find_conn conn_id (sk_server k)")
    case None
    then show ?thesis using assms(2) watched by (simp add: watch_socket_def)
  next
    case (Some c)
    then have "dom (sk_poller k') = dom (sk_poller k) \<and> k' = k\<lparr>sk_poller := sk_poller k'\<rparr>"
      using watched by (auto simp: watch_socket_def poller_mod_def op_throw_def throw_error_def dom_def split: if_splits)
    moreover from this have "sk_open k' = sk_open k" "sk_server k' = sk_server k" "sk_listen k' = sk_listen k" "sk_wakeup k' = sk_wakeup k"
      by (metis sockets.select_convs sockets.surjective sockets.update_convs)+
    ultimately show ?thesis using assms(2) by (simp add: accounted_def Let_def)
  qed
next
  case (worked t)
  have "map cn_fd (tr_connections t) = map cn_fd (tr_connections (sk_server k))"
    "map cn_id (tr_connections t) = map cn_id (tr_connections (sk_server k))"
    using arg_cong [OF worked(2), of "map snd"] arg_cong [OF worked(2), of "map fst"] by (simp_all add: comp_def)
  then show ?thesis using assms(2) by (simp add: accounted_def Let_def connection_fds_def worked(1))
qed (use assms(2) in \<open>simp_all add: accounted_def Let_def wakeup_notify_def wakeup_drain_def\<close>)

lemma accounted_run: "socket_run limits k0 k \<Longrightarrow> accounted base k0 \<Longrightarrow> accounted base k"
  by (induction rule: socket_run.induct) (auto intro: accounted_step)

lemma stop_accounted:
  assumes "accounted base k" shows "sk_open (stop_sockets k) = base"
proof -
  have "sk_open (stop_sockets k) = sk_open k - {sk_listen k} - {wk_reader (sk_wakeup k)} - {wk_writer (sk_wakeup k)} -
      set (connection_fds (sk_server k))"
    using assms fold_close [of "connection_fds (sk_server k)"]
    by (auto simp: stop_sockets_def wakeup_close_def close_socket_def kInvalidSocket_def accounted_def Let_def)
  with assms show ?thesis by (auto simp: accounted_def Let_def)
qed

lemma stop_started:
  assumes "tr_connections (sk_server k) = []" and "wk_reader (sk_wakeup k) = kInvalidSocket" and "wk_writer (sk_wakeup k) = kInvalidSocket"
  shows "sk_open (stop_sockets k) = close_socket (sk_listen k) (sk_open k)"
  using assms by (simp add: stop_sockets_def wakeup_close_def connection_fds_def close_socket_def)

lemma start_sockets_cases:
  assumes "start_sockets lenv wenv tls host port k0 = (r, k1)" and "tr_connections (sk_server k0) = []"
    and "kernel_ok lenv wenv (sk_open k0)"
  shows "(\<exists>e. r = Inl e) \<and> sk_open k1 = sk_open k0 \<or> r = Inr () \<and> accounted (sk_open k0) (poll_first k1)"
proof -
  let ?base = "sk_open k0"
  have ok: "fresh (le_socket lenv) ?base" "fresh (le_socket (we_listener wenv)) (new_socket (le_socket lenv) ?base)"
    "fresh (we_writer wenv) (new_socket (le_socket (we_listener wenv)) (new_socket (le_socket lenv) ?base))"
    "fresh (we_reader wenv) (new_socket (we_writer wenv) (new_socket (le_socket (we_listener wenv)) (new_socket (le_socket lenv) ?base)))"
    "we_connect wenv \<longrightarrow> we_writer wenv \<noteq> kInvalidSocket"
    using assms(3) by (simp_all add: kernel_ok_def Let_def)
  obtain r1 s1 where l: "listen_on lenv host port ?base = (r1, s1)" by fastforce
  from listen_on_cases [OF l ok(1)] show ?thesis
  proof (elim disjE conjE exE)
    fix e assume "r1 = Inl e" "s1 = ?base"
    then show ?thesis
      using assms(1,2) l by (auto simp: start_sockets_def Let_def stop_started new_wakeup_def close_socket_def)
  next
    let ?l = "le_socket lenv"
    assume li: "r1 = Inr ?l" "s1 = insert ?l ?base" "0 \<le> ?l" "?l \<notin> ?base"
    have n: "new_socket ?l ?base = s1" using li(2,3) by (auto simp: new_socket_def kInvalidSocket_def)
    obtain r2 w s2 where o: "wakeup_open wenv (new_wakeup, s1) = (r2, w, s2)" by (metis surj_pair)
    from wakeup_open_cases [OF o ok(2-5) [unfolded n]] show ?thesis
    proof (elim disjE conjE exE)
      fix e assume "r2 = Inl e" "s2 = s1" "wk_reader w = kInvalidSocket" "wk_writer w = kInvalidSocket"
      then show ?thesis
        using assms(1,2) l li o by (auto simp: start_sockets_def Let_def stop_started close_socket_def kInvalidSocket_def)
    next
      assume wi: "r2 = Inr ()" "s2 = insert (wk_reader w) (insert (wk_writer w) s1)" "0 \<le> wk_reader w" "0 \<le> wk_writer w"
        "wk_reader w \<noteq> wk_writer w" "wk_reader w \<notin> s1" "wk_writer w \<notin> s1"
      let ?k = "k0\<lparr>sk_poller := Map.empty, sk_listen := ?l, sk_wakeup := w, sk_open := s2\<rparr>"
      have acc: "accounted ?base (poll_first ?k)"
        using assms(2) li wi
        by (auto simp: accounted_def Let_def poll_first_def poller_add_def connection_fds_def)
      then have stop: "sk_open (stop_sockets ?k) = ?base"
        using stop_accounted [OF acc] by (simp add: poll_first_def stop_sockets_def split: prod.splits)
      have "start_sockets lenv wenv tls host port k0 = (case tls of Inl e \<Rightarrow> (Inl e, stop_sockets ?k) | Inr u \<Rightarrow> (Inr (), ?k))"
        using l li(1) o wi(1) by (simp add: start_sockets_def Let_def)
      then show ?thesis using assms(1) acc stop by (auto split: sum.splits)
    qed
  qed
qed

text \<open>C11: Descriptors are accounted for. When the start of the server fails, at whatever call, every
  descriptor it has opened is closed again. When it succeeds, in every later state the open
  descriptors are those that were open before, the listener, the two ends of the wake-up channel and
  one for each connection, all different; the poller watches exactly the listener, the reading end and
  the connections, so that adding a new client or changing what is asked of a connection fails only
  if the kernel refuses it for another reason; and when the server is stopped, the descriptors open
  are those from before the start.\<close>

theorem descriptors_accounted:
  assumes "start_sockets lenv wenv tls host port k0 = (r, k1)" and "tr_connections (sk_server k0) = []"
    and "kernel_ok lenv wenv (sk_open k0)"
  shows "(isl r \<longrightarrow> sk_open k1 = sk_open k0) \<and>
     (\<not> isl r \<longrightarrow> (\<forall>limits k. socket_run limits (poll_first k1) k \<longrightarrow>
        accounted (sk_open k0) k \<and> sk_open (stop_sockets k) = sk_open k0 \<and>
        (\<forall>now client. fst client \<notin> sk_open k \<longrightarrow> fst (accept_socket limits now client False k) = Inr ()) \<and>
        (\<forall>conn_id. fst (watch_socket conn_id False k) = Inr ())))"
proof -
  have "fst (accept_socket limits now client False k) = Inr ()" if "accounted base k" "fst client \<notin> sk_open k" for base limits now client k
  proof -
    have "sk_poller k (fst client) = None" using that by (auto simp: accounted_def Let_def)
    then show ?thesis by (simp add: accept_socket_def poller_add_def Let_def)
  qed
  moreover have "fst (watch_socket conn_id False k) = Inr ()" if "accounted base k" for base conn_id k
  proof (cases "find_conn conn_id (sk_server k)")
    case (Some c)
    then have "cn_fd c \<in> dom (sk_poller k)"
      using that by (auto simp: accounted_def Let_def connection_fds_def find_conn_def find_Some_iff)
    then show ?thesis using Some by (auto simp: watch_socket_def poller_mod_def)
  qed (simp add: watch_socket_def)
  ultimately show ?thesis
    using start_sockets_cases [OF assms] accounted_run stop_accounted by (metis isl_def Inr_Inl_False)
qed

definition demo_sockets :: sockets where
  "demo_sockets = \<lparr>sk_server = start_server 1 None (new_dispatcher initial_storage), sk_listen = 0, sk_wakeup = new_wakeup,
     sk_poller = Map.empty, sk_open = {0, 1, 2}\<rparr>"

theorem descriptors_accounted_witness:
  "\<exists>k. start_sockets \<lparr>le_socket = 3, le_address = (\<lambda>h. True), le_bind = True, le_listen = True\<rparr>
       \<lparr>we_listener = \<lparr>le_socket = 4, le_address = (\<lambda>h. True), le_bind = True, le_listen = True\<rparr>,
         we_getsockname = True, we_writer = 5, we_connect = True, we_reader = 6\<rparr>
       (Inr ()) ''0.0.0.0'' 7443 demo_sockets = (Inr (), k) \<and>
     sk_open (stop_sockets (poll_first k)) = {0, 1, 2}"
proof -
  let ?l = "\<lparr>le_socket = 3, le_address = (\<lambda>h. True), le_bind = True, le_listen = True\<rparr>"
  let ?w = "\<lparr>we_listener = \<lparr>le_socket = 4, le_address = (\<lambda>h. True), le_bind = True, le_listen = True\<rparr>,
         we_getsockname = True, we_writer = 5, we_connect = True, we_reader = 6\<rparr>"
  obtain k where k: "start_sockets ?l ?w (Inr ()) ''0.0.0.0'' 7443 demo_sockets = (Inr (), k)"
    by (simp add: start_sockets_def listen_on_def wakeup_open_def demo_sockets_def new_socket_def close_socket_def
        kInvalidSocket_def Let_def)
  have "tr_connections (sk_server demo_sockets) = []" "kernel_ok ?l ?w (sk_open demo_sockets)"
    by (simp_all add: demo_sockets_def start_server_def kernel_ok_def fresh_def new_socket_def kInvalidSocket_def Let_def)
  from descriptors_accounted [OF k this] begun have "sk_open (stop_sockets (poll_first k)) = sk_open demo_sockets"
    by (metis isl_def Inr_Inl_False)
  with k show ?thesis by (auto simp: demo_sockets_def)
qed

end
