(* ===== verification/Digest.thy ===== *)
theory Digest
  imports ChunkStore Tables
begin

text \<open>
  The streaming digest (\<^verbatim>\<open>src/storage/fr_digest_ossl.cpp\<close>, and what
  \<^verbatim>\<open>src/storage/fr_digest_common.cpp\<close> makes of it). The digest of OpenSSL is a
  function of all bytes a context has been given; whether its calls succeed is a parameter. A stream
  that has been moved away is None.
\<close>


section \<open>Streams\<close>

type_synonym digest_stream = "bytes option"

definition stream_open :: "bool \<Rightarrow> bool \<Rightarrow> digest_stream result" where
  "stream_open allocated initialised =
     (if \<not> allocated then throw_error FR_E_STATE ''sha256 stream already moved-out''
      else if \<not> initialised then throw_error FR_E_INTERNAL ''EVP_DigestInit_ex2(SHA256) failed''
      else Inr (Some []))"

text \<open>The stream that is moved from, and the one that takes its place; a stream moved to itself stays.\<close>

definition stream_move :: "digest_stream \<Rightarrow> digest_stream \<times> digest_stream" where
  "stream_move other = (None, other)"

definition stream_update :: "bool \<Rightarrow> bytes option \<Rightarrow> nat \<Rightarrow> (digest_stream, unit) op" where
  "stream_update succeeds data len s =
     (if data = None \<and> len \<noteq> 0 then op_throw FR_E_ARG ''sha256 update: null buffer'' s
      else if len = 0 then (Inr (), s)
      else case s of
             None \<Rightarrow> op_throw FR_E_STATE ''sha256 stream already moved-out'' s
           | Some seen \<Rightarrow>
               if succeeds then (Inr (), Some (seen @ take len (the data)))
               else op_throw FR_E_INTERNAL ''EVP_DigestUpdate failed'' s)"

definition stream_finish :: "(bytes \<Rightarrow> bytes) \<Rightarrow> bool \<Rightarrow> (digest_stream, bytes) op" where
  "stream_finish sha succeeds s =
     (case s of
        None \<Rightarrow> op_throw FR_E_STATE ''sha256 stream already moved-out'' s
      | Some seen \<Rightarrow>
          if \<not> succeeds \<or> length (sha seen) \<noteq> kSha256Len
          then op_throw FR_E_INTERNAL ''EVP_DigestFinal_ex failed'' s
          else (Inr (sha seen), s))"

text \<open>\<open>sha256\<close>, and \<open>random_bytes\<close> from the answer of \<open>RAND_bytes\<close>.\<close>

definition sha256_of :: "(bytes \<Rightarrow> bytes) \<Rightarrow> bool \<times> bool \<times> bool \<times> bool \<Rightarrow> bytes option \<Rightarrow> nat \<Rightarrow> bytes result" where
  "sha256_of sha calls data len =
     (case calls of (allocated, initialised, updated, finished) \<Rightarrow>
        rbind (stream_open allocated initialised) (\<lambda>s.
          fst (op_bind (stream_update updated data len) (\<lambda>u. stream_finish sha finished) s)))"

definition random_bytes :: "bytes option \<Rightarrow> bytes result" where
  "random_bytes drawn =
     (case drawn of None \<Rightarrow> throw_error FR_E_INTERNAL ''RAND_bytes failed'' | Some bs \<Rightarrow> Inr bs)"

section \<open>Pieces and the whole\<close>

text \<open>A run of updates with the outcome of each.\<close>

definition stream_pieces :: "(bool \<times> bytes) list \<Rightarrow> (digest_stream, unit) op" where
  "stream_pieces = op_for (\<lambda>(succeeds, bs). stream_update succeeds (Some bs) (length bs))"

lemma stream_pieces_seen:
  "stream_pieces pieces (Some seen) = (r, s) \<Longrightarrow>
   (r = Inr () \<longrightarrow> s = Some (seen @ concat (map snd pieces))) \<and>
   ((\<forall>(succeeds, bs)\<in>set pieces. succeeds \<or> bs = []) \<longrightarrow> r = Inr ())"
  unfolding stream_pieces_def
proof (induction pieces arbitrary: seen)
  case (Cons p pieces)
  obtain succeeds bs where p: "p = (succeeds, bs)" by fastforce
  show ?case
  proof (cases "bs = [] \<or> succeeds")
    case True
    then have u: "stream_update succeeds (Some bs) (length bs) (Some seen) = (Inr (), Some (seen @ bs))"
      by (auto simp: stream_update_def)
    have "op_for (\<lambda>(succeeds, bs). stream_update succeeds (Some bs) (length bs)) pieces (Some (seen @ bs)) = (r, s)"
      using Cons.prems by (simp add: p u)
    from Cons.IH [OF this] show ?thesis by (auto simp: p)
  next
    case False
    then show ?thesis
      using Cons.prems by (auto simp: p stream_update_def op_throw_def throw_error_def)
  qed
qed (auto simp: op_return_def)

lemma sha256_of_data:
  "length (sha data) = 32 \<Longrightarrow> sha256_of sha (True, True, True, True) (Some data) (length data) = Inr (sha data)"
  by (cases "data = []") (simp_all add: sha256_of_def stream_open_def stream_update_def stream_finish_def kSha256Len_def)

text \<open>The digest does not depend on how the data is cut into pieces: a stream that has been given
  the pieces yields exactly what \<open>sha256\<close> yields for all of them at once, it fails only if a
  call of the library fails, and never yields anything that has not 32 bytes. A stream that has been
  moved away yields nothing.\<close>

theorem digest_streams:
  assumes "op_bind (stream_pieces pieces) (\<lambda>u. stream_finish sha finished) (Some []) = (r, s)"
  shows "(\<forall>d. r = Inr d \<longrightarrow> d = sha (concat (map snd pieces)) \<and> length d = 32 \<and>
       sha256_of sha (True, True, True, True) (Some (concat (map snd pieces))) (length (concat (map snd pieces))) = Inr d) \<and>
     (list_all (\<lambda>(succeeds, bs). succeeds \<or> bs = []) pieces \<and> finished \<and> length (sha (concat (map snd pieces))) = 32 \<longrightarrow>
       r = Inr (sha (concat (map snd pieces)))) \<and>
     isl (fst (stream_finish sha finished (fst (stream_move (Some []))))) \<and> snd (stream_move t) = t"
proof -
  let ?all = "concat (map snd pieces)"
  obtain r1 s1 where p: "stream_pieces pieces (Some []) = (r1, s1)" by fastforce
  note q = stream_pieces_seen [OF p]
  note one = sha256_of_data [of sha ?all]
  show ?thesis
  proof (cases r1)
    case (Inl e)
    then show ?thesis
      using assms p q by (auto simp: list_all_iff stream_move_def stream_finish_def op_throw_def throw_error_def)
  next
    case (Inr u)
    then have "stream_finish sha finished (Some ?all) = (r, s)" using assms p q by auto
    then show ?thesis
      using one by (auto simp: stream_finish_def stream_move_def op_throw_def throw_error_def kSha256Len_def split: if_splits)
  qed
qed

end
