(* ===== verification/Spec2Isabelle.thy ===== *)
theory Spec2Isabelle
  imports CommandProps DaemonProps FileProps TlsProps SocketProps Digest
begin

text \<open>
  ForgeRelay is an artifact relay: clients upload build artifacts in chunks over a framed binary
  protocol, a server stores the chunks by their SHA-256 digest, publishes complete uploads as
  immutable artifacts and serves them to other clients. This library models the C core, the
  storage layer, the protocol payloads, the request dispatcher, the server with its threads, its
  configuration and log, the daemon around it, the client library and the command-line client, and
  proves what makes them correct.

  \<^bold>\<open>The parts and how they interact.\<close> Bytes from a connection go to the frame parser
  (\<^verbatim>\<open>src/core_c/fr_frame.c\<close>), which yields frames with a type, a request id and a
  payload. \<open>Dispatcher::handle\<close> (\<^verbatim>\<open>src/service/fr_dispatch.cpp\<close>) decodes
  the payload (\<^verbatim>\<open>src/service/fr_messages.cpp\<close>), checks what the client may do,
  calls the storage (\<^verbatim>\<open>src/storage/fr_storage.cpp\<close>) and the registry of users
  and tokens (\<^verbatim>\<open>src/service/fr_auth.cpp\<close>), and appends frames to the result. The
  storage keeps its metadata in SQLite (\<^verbatim>\<open>src/storage/fr_schema.cpp\<close>) and the
  chunks in files (\<^verbatim>\<open>src/storage/fr_chunk_store.cpp\<close>). A download goes on in
  slices: \<open>handle\<close> leaves a state behind, and the server calls
  \<open>handle_get_continue\<close> until the state is gone. The server
  (\<^verbatim>\<open>src/transport/fr_server.cpp\<close>) runs one thread for the connections, workers
  that take requests from a bounded queue, and a maintenance thread. The daemon
  (\<^verbatim>\<open>src/apps/forgerelayd/main.cpp\<close>) reads the configuration
  (\<^verbatim>\<open>src/service/fr_config.cpp\<close>), opens the log
  (\<^verbatim>\<open>src/service/fr_log.cpp\<close>), the storage and the registry, and starts the server.
  On the other side,
  \<open>Client\<close> (\<^verbatim>\<open>src/client/fr_client.cpp\<close>) sends requests and reads
  replies, and \<^verbatim>\<open>frctl\<close> (\<^verbatim>\<open>src/apps/frctl/main.cpp\<close>) moves
  files through it.

  \<^bold>\<open>The core in C.\<close>
  \<^item> \<open>Prelude\<close>: the statuses of \<^verbatim>\<open>fr_error.h\<close>, exceptions as the left
    side of a sum (\<open>exn\<close>, \<open>result\<close>), operations on a state (\<open>op\<close>, which
    keep the state an exception leaves behind), and the shared lemma collections.
  \<^item> \<open>Bytes\<close>: byte order, checked arithmetic, CRC-32 and hexadecimal coding
    (\<^verbatim>\<open>fr_byteorder.c fr_checked.c fr_crc32.c fr_hex.c\<close>): round trips, exactness
    of the checked operations in both variants of the source, and the detection of a changed byte.
  \<^item> \<open>Buffer\<close>: the growing buffer and the reader of \<^verbatim>\<open>fr_buffer.c\<close>,
    with capacity, the growth loop and the outcome of every allocation.
  \<^item> \<open>Frame\<close>: encoder and incremental parser of \<^verbatim>\<open>fr_frame.c\<close>. The
    parser refines a one-shot specification (\<open>spec_parse\<close>), whatever the fragmentation of
    its input; its buffer stays bounded, and it accepts exactly what the encoder writes.
  \<^item> \<open>Paths\<close>: identifiers and relative paths of \<^verbatim>\<open>fr_path.c\<close>, with the
    confinement of joined paths below their root.
  \<^item> \<open>Fd\<close>: the wrappers of system calls of \<^verbatim>\<open>fr_fd.c\<close>, with
    the answers of the kernel as parameters. \<open>FdProps\<close>, \<open>FileProps\<close>: transfers
    are exact whatever is interrupted or cut short, and end; directories are there when their creation
    succeeds; temporary files are new.

  \<^bold>\<open>The protocol.\<close>
  \<^item> \<open>MsgPrim\<close>: the getters and setters of \<^verbatim>\<open>fr_messages.cpp\<close> and the
    locale \<open>codec\<close>, the contract of an encoder with its decoder.
  \<^item> \<open>Messages\<close>: every payload, each an interpretation of the contract or a round trip of
    its own; decoders throw nothing but \<open>FR_E_PROTOCOL\<close>.

  \<^bold>\<open>The storage.\<close>
  \<^item> \<open>StorageTypes\<close>, \<open>Tables\<close>: the structures of \<^verbatim>\<open>storage.hpp\<close>
    and the tables of the schema as lists of rows, with keys and transactions.
  \<^item> \<open>ChunkStore\<close>: the chunk files. Every system call has its outcome as a parameter, and
    a write is the list of file-system states it goes through, so that a crash is any of them.
  \<^item> \<open>Digest\<close>: the streaming digest of \<^verbatim>\<open>fr_digest_ossl.cpp\<close>,
    which does not depend on how the data is cut into pieces.
  \<^item> \<open>Storage\<close>: every operation of the facade, statement by statement: sessions, chunks,
    commit, reading, listing, deletion, garbage collection, maintenance and opening.
  \<^item> \<open>StorageInv\<close>, \<open>Commit\<close>, \<open>Reading\<close>, \<open>Maintenance\<close>,
    \<open>Uploads\<close>, \<open>StorageRuns\<close>: the invariant \<open>storage_inv\<close> (unique keys,
    references to active rows, contents on disk with their digest, complete artifacts) and its
    preservation; what a commit publishes, what a failed commit leaves; exact reading; what
    collection may remove; the runs of the storage with crashes (\<open>storage_step\<close>).

  \<^bold>\<open>The service.\<close>
  \<^item> \<open>Auth\<close>: roles, users, tokens and audit of \<^verbatim>\<open>fr_auth.cpp\<close>.
  \<^item> \<open>Dispatch\<close>: every message of \<^verbatim>\<open>fr_dispatch.cpp\<close> as an operation
    on \<open>hstate\<close> (dispatcher, client and result), the error path, downloads and their
    continuation, the limit on failed authentications.
  \<^item> \<open>Service\<close>: the calls a handler makes to storage and registry, once for every
    invariant they keep (the locale \<open>kept_by_calls\<close>, interpreted for the consistency of the
    storage and for the registered users), and the runs of the whole service
    (\<open>service_step\<close>), restarts of the daemon included.
  \<^item> \<open>Access\<close>, \<open>Confine\<close>: what clients cannot do: Readers change nothing, others
    leave what belongs to other users alone.
  \<^item> \<open>Replies\<close>, \<open>Limits\<close>, \<open>Streaming\<close>, \<open>ServiceProps\<close>: one
    reply per request, failed authentications, exact downloads, and the service over its lifetime.

  \<^bold>\<open>The server.\<close>
  \<^item> \<open>Transport\<close>: connections, queue, completions and workers of
    \<^verbatim>\<open>fr_server.cpp\<close>, and its threads as the step relation
    \<open>transport_step\<close>: a handler of the I/O loop is one step, a worker is interrupted
    where it takes and releases its locks, and a wait on a condition variable may end whenever its
    condition holds. What the sockets do is a parameter of each step.
  \<^item> \<open>ServerRuns\<close>, \<open>ServerBounds\<close>, \<open>ServerInput\<close>,
    \<open>ServerJam\<close>, \<open>ServerProps\<close>, \<open>ServerDemo\<close>: every interleaving
    is a run of the sequential service; queue, completions, connections and parsers stay within
    their limits; requests are queued in their order; a request is served; all workers can block
    each other for ever; witnesses of all this on a small server.
  \<^item> \<open>Sockets\<close>, \<open>SocketProps\<close>: the functions of \<open>net\<close>, the
    wake-up channel and the poller, with the set of open descriptors: they are the listener, the
    channel and the connections, and all are closed at the end (\<open>socket_step\<close>).
  \<^item> \<open>Tls\<close>, \<open>TlsProps\<close>: contexts and sessions of
    \<^verbatim>\<open>fr_tls.cpp\<close>. A client sends nothing to a peer that has not been verified
    for its host; a server reads nothing before the handshake.

  \<^bold>\<open>The daemon.\<close>
  \<^item> \<open>Logging\<close>, \<open>LoggingProps\<close>: \<open>Logger\<close> with the escapes
    of JSON strings, the rotation and the file it writes. A line reads back as what was logged; a
    rotation moves every file on by one; the log stays within its limits.
  \<^item> \<open>Config\<close>, \<open>ConfigProps\<close>: defaults, keys, conversions, checks and
    overrides. Loaded settings satisfy what storage, log and server rely on (\<open>settings_ok\<close>);
    listen addresses are parsed exactly; what the conversions let through.
  \<^item> \<open>Daemon\<close>, \<open>DaemonProps\<close>: \<open>main\<close> and
    \<open>Server::start\<close>. The first administrator can use the printed token; a daemon that has
    started serves consistently on whatever an earlier one left on disk; the exit codes.

  \<^bold>\<open>The client.\<close>
  \<^item> \<open>Client\<close>: the class \<open>Client\<close>. The state of a connection contains
    what the socket will do: the results of the sends to come and the pieces that the receives will
    deliver (\<open>link\<close>).
  \<^item> \<open>ClientProps\<close>: frames are read whatever their fragmentation; a download from
    the storage of the server to the sink of the client; errors of handlers reach the caller.
  \<^item> \<open>Frctl\<close>, \<open>Commands\<close>: arguments, references, every command and
    the exit code of \<^verbatim>\<open>frctl\<close>. What a command prints is a \<open>report\<close>
    without its layout.
  \<^item> \<open>FrctlProps\<close>, \<open>Fetching\<close>, \<open>CommandProps\<close>: what an
    upload sends, what a download leaves on the disk, what needs a confirmation, the exit codes.

  \<^bold>\<open>Bounds, fuel and parameters.\<close> Integers of the source have their width
  (\<open>u8\<close> to \<open>u64\<close>); sizes of buffers are \<open>u64\<close>, lengths of lists natural
  numbers. Loops are structural recursion, except the growth of a buffer, the search of the parser
  \<open>decimal\<close> and the loops of the client, which have termination proofs (the loops of the
  client by what is still to be read, \<open>unread\<close>); \<open>follow\<close> and \<open>download\<close>
  count the calls of the server, and one call more than the bytes to be sent is shown to be enough.
  Clocks, random bytes, SHA-256, the outcome of allocations and of system calls are parameters
  (\<open>senv\<close>, \<open>io_env\<close>, \<open>auth_env\<close>, \<open>dispatch_env\<close>, \<open>alloc\<close>,
  \<open>daemon_env\<close>), and so is the TOML parser, which yields a table (\<open>toml\<close>) or an error.
  A call that is repeated until it is not interrupted has a \<open>schedule\<close> of answers; without
  errors, one answer more than the bytes to be read is shown to be enough.
  What is assumed of them is named: \<open>sha_ok\<close> (a digest has 32 bytes),
  \<open>no_collision\<close> (the uploaded data does not collide with stored content),
  \<open>granted\<close> (allocations succeed), \<open>reads_ok\<close> (reading files succeeds).

  \<^bold>\<open>Not modelled.\<close> SQLite, OpenSSL and the TOML library are
  not part of the repository; statements are list operations, and a violated
  key is an exception. A call of the dispatcher is one step, although the source gives up its lock
  between the checks and the action of a few messages. The log lines of dispatcher and server are left
  out: nothing these operations return depends on them unless writing fails. The Windows
  branches of \<^verbatim>\<open>fr_fd.c\<close> and of the server, the digest backend for Windows, the texts that
  \<open>fr_error\<close> collects, and signal handlers are not modelled. \<open>Transport\<close> takes
  connections without TLS; a session changes where its bytes come from, and \<open>Tls\<close> shows when
  they begin to flow. The operations of \<open>Fd\<close> and the
  outcomes that \<open>ChunkStore\<close> takes as parameters are not connected: a file there is written
  or not, here byte by byte. Allocation failures of the C++ containers are modelled only where the
  source can be hurt by them (\<open>env_reserve\<close>).
\<close>

end
